(* ===== verification/Prelude.thy ===== *)
theory Prelude
  imports Main "HOL-Library.Word"
begin

text \<open>
  Shared vocabulary of the development: machine types, the result type of a kernel
  routine, and the generic facts about lists and bytes that several components use.

  A routine of the kernel either returns, or the running thread stops at one of three
  places:
  \<^item> \<open>Panic c\<close>: the condition \<open>c\<close> of an \<open>ASSERT\<close> / \<open>PANIC\<close> failed and
    \<open>panic_spin\<close> (\<open>kernel/debug.c\<close>) masks interrupts and spins for ever;
  \<^item> \<open>Fault r\<close>: the code touches memory outside the object \<open>r\<close> (an array index out of
    range, an object that is not there any more): C gives such a run no meaning;
  \<^item> \<open>Block r\<close>: the routine would put the calling thread to sleep on \<open>r\<close>.
  So a routine has the type \<open>'a res\<close>, with the stop in the left summand.
\<close>

unbundle bit_operations_syntax

type_synonym u8 = "8 word"
type_synonym u32 = "32 word"

datatype stop = Panic string | Fault string | Block string

type_synonym 'a res = "stop + 'a"

named_theorems res_simps \<open>rules that run a routine of type res to its result\<close>

text \<open>Sequencing: the next statement runs on the value of the previous one.\<close>

definition bnd :: "'a res \<Rightarrow> ('a \<Rightarrow> 'b res) \<Rightarrow> 'b res" where
  "bnd m f = (case m of Inl e \<Rightarrow> Inl e | Inr x \<Rightarrow> f x)"

text \<open>
  The macro \<open>ASSERT\<close> of \<open>kernel/debug.h\<close> (no Makefile defines \<open>NDEBUG\<close>), followed by the
  statements after it; \<open>GUARD\<close> is the same for an access that must stay inside an object.
\<close>

definition ASSERT :: "bool \<Rightarrow> string \<Rightarrow> 'a res \<Rightarrow> 'a res" where
  "ASSERT c msg k = (if c then k else Inl (Panic msg))"

definition GUARD :: "bool \<Rightarrow> string \<Rightarrow> 'a res \<Rightarrow> 'a res" where
  "GUARD c msg k = (if c then k else Inl (Fault msg))"

lemma bnd_Inr [simp]: "bnd (Inr x) f = f x"
  by (simp add: bnd_def)

lemma bnd_Inl [simp]: "bnd (Inl e) f = Inl e"
  by (simp add: bnd_def)

lemma bnd_eq_Inr [res_simps]: "bnd m f = Inr y \<longleftrightarrow> (\<exists>x. m = Inr x \<and> f x = Inr y)"
  by (cases m) auto

lemma bnd_eq_Inl: "bnd m f = Inl e \<longleftrightarrow> m = Inl e \<or> (\<exists>x. m = Inr x \<and> f x = Inl e)"
  by (cases m) auto

lemma ASSERT_True [simp]: "c \<Longrightarrow> ASSERT c msg k = k"
  by (simp add: ASSERT_def)

lemma ASSERT_False [simp]: "\<not> c \<Longrightarrow> ASSERT c msg k = Inl (Panic msg)"
  by (simp add: ASSERT_def)

lemma ASSERT_eq_Inr [res_simps]: "ASSERT c msg k = Inr y \<longleftrightarrow> c \<and> k = Inr y"
  by (simp add: ASSERT_def)

lemma GUARD_True [simp]: "c \<Longrightarrow> GUARD c msg k = k"
  by (simp add: GUARD_def)

lemma GUARD_False [simp]: "\<not> c \<Longrightarrow> GUARD c msg k = Inl (Fault msg)"
  by (simp add: GUARD_def)

lemma GUARD_eq_Inr [res_simps]: "GUARD c msg k = Inr y \<longleftrightarrow> c \<and> k = Inr y"
  by (simp add: GUARD_def)

text \<open>
  The code never recovers from a panic: a routine \<open>panics\<close> when its run ends in one.
\<close>

definition panics :: "'a res \<Rightarrow> bool" where
  "panics r = (case r of Inl (Panic _) \<Rightarrow> True | _ \<Rightarrow> False)"

lemma panics_simps [simp]:
  "panics (Inl (Panic m))" "\<not> panics (Inl (Fault m))" "\<not> panics (Inl (Block m))"
  "\<not> panics (Inr x)"
  by (simp_all add: panics_def)

subsection \<open>Lists\<close>

lemma list_update_take_drop:
  "i < length xs \<Longrightarrow> xs[i := v] = take i xs @ v # drop (Suc i) xs"
  by (simp add: upd_conv_take_nth_drop)

lemma nth_in_range_set: "i < length xs \<Longrightarrow> xs ! i \<in> set xs"
  by simp

end
