(* ===== verification/Interrupt.thy ===== *)
theory Interrupt
  imports Prelude
begin

text \<open>
  \<open>kernel/interrupt.c\<close>: the interrupt flag and the four routines that save, mask and
  restore it, and the gate descriptors of the interrupt descriptor table. The flag is the
  field \<open>intr\<close> of the record \<open>cpu\<close>, which the states of the other components extend.
\<close>

datatype intr_status = INTR_OFF | INTR_ON

record cpu =
  intr :: intr_status

definition intr_get_status :: "'a cpu_scheme \<Rightarrow> intr_status" where
  "intr_get_status s = intr s"

definition intr_enable :: "'a cpu_scheme \<Rightarrow> intr_status \<times> 'a cpu_scheme" where
  "intr_enable s =
     (if intr_get_status s = INTR_ON then (INTR_ON, s) else (INTR_OFF, s\<lparr>intr := INTR_ON\<rparr>))"

definition intr_disable :: "'a cpu_scheme \<Rightarrow> intr_status \<times> 'a cpu_scheme" where
  "intr_disable s =
     (if intr_get_status s = INTR_OFF then (INTR_OFF, s) else (INTR_ON, s\<lparr>intr := INTR_OFF\<rparr>))"

definition intr_set_status :: "intr_status \<Rightarrow> 'a cpu_scheme \<Rightarrow> intr_status \<times> 'a cpu_scheme" where
  "intr_set_status status s = (if status = INTR_ON then intr_enable s else intr_disable s)"

lemma intr_disable_eq [simp]: "intr_disable s = (intr s, s\<lparr>intr := INTR_OFF\<rparr>)"
  by (cases "intr s") (simp_all add: intr_disable_def intr_get_status_def)

lemma intr_enable_eq [simp]: "intr_enable s = (intr s, s\<lparr>intr := INTR_ON\<rparr>)"
  by (cases "intr s") (simp_all add: intr_enable_def intr_get_status_def)

lemma intr_set_status_eq [simp]: "intr_set_status st s = (intr s, s\<lparr>intr := st\<rparr>)"
  by (cases st) (simp_all add: intr_set_status_def)

lemma intr_upd_same: "intr s = st \<Longrightarrow> (s :: 'a cpu_scheme)\<lparr>intr := st\<rparr> = s"
  by (cases s) simp

subsection \<open>Gate descriptors\<close>

record gate_desc =
  func_offset_low_word :: "16 word"
  selector :: "16 word"
  dcount :: u8
  attribute :: u8
  func_offset_high_word :: "16 word"

text \<open>\<open>SELECTOR_K_CODE\<close> of \<open>kernel/global.h\<close>: entry 1 of the GDT, RPL 0.\<close>

definition SELECTOR_K_CODE :: "16 word" where
  "SELECTOR_K_CODE = push_bit 3 1 + push_bit 2 0 + 0"

definition make_idt_desc :: "u8 \<Rightarrow> u32 \<Rightarrow> gate_desc" where
  "make_idt_desc attr function =
     \<lparr> func_offset_low_word = ucast (function AND 0x0000ffff),
       selector = SELECTOR_K_CODE,
       dcount = 0,
       attribute = attr,
       func_offset_high_word = ucast (drop_bit 16 (function AND 0xffff0000)) \<rparr>"

text \<open>What the processor does on an interrupt: it joins the two halves of the offset.\<close>

definition gate_offset :: "gate_desc \<Rightarrow> u32" where
  "gate_offset g = push_bit 16 (ucast (func_offset_high_word g)) OR ucast (func_offset_low_word g)"

lemma bit_0xffff: "bit (0xffff :: u32) n \<longleftrightarrow> n < 16"
proof -
  have "(0xffff :: u32) = mask 16" by (simp add: mask_eq_exp_minus_1)
  moreover have "bit (mask 16 :: u32) n \<longleftrightarrow> n < 16" by (auto simp: bit_simps)
  ultimately show ?thesis by (simp only:)
qed

lemma bit_0xffff0000: "bit (0xffff0000 :: u32) n \<longleftrightarrow> 16 \<le> n \<and> n < 32"
proof -
  have "(0xffff0000 :: u32) = push_bit 16 (mask 16)" by (simp add: mask_eq_exp_minus_1 push_bit_eq_mult)
  moreover have "bit (push_bit 16 (mask 16) :: u32) n \<longleftrightarrow> 16 \<le> n \<and> n < 32"
    by (auto simp: bit_simps)
  ultimately show ?thesis by (simp only:)
qed

lemma gate_offset_make: "gate_offset (make_idt_desc attr f) = f"
proof (rule bit_word_eqI)
  fix n assume n: "n < LENGTH(32)"
  show "bit (gate_offset (make_idt_desc attr f)) n = bit f n"
  proof (cases "n < 16")
    case True
    then show ?thesis using n
      by (simp add: gate_offset_def make_idt_desc_def bit_or_iff bit_push_bit_iff
          bit_unsigned_iff bit_and_iff bit_0xffff del: bit_numeral_word_iff)
  next
    case False
    then have "16 \<le> n" "n - 16 < 16" "n - 16 < 32" using n by auto
    then show ?thesis using n False
      by (simp add: gate_offset_def make_idt_desc_def bit_or_iff bit_push_bit_iff
          bit_unsigned_iff bit_and_iff bit_drop_bit_eq bit_0xffff bit_0xffff0000
          del: bit_numeral_word_iff)
  qed
qed

subsection \<open>The tables of the interrupt handlers\<close>

abbreviation IDT_DESC_CNT :: nat where "IDT_DESC_CNT \<equiv> 0x81"

definition IDT_DESC_ATTR_DPL0 :: u8 where
  "IDT_DESC_ATTR_DPL0 = push_bit 7 1 + push_bit 5 0 + 0xe"

definition IDT_DESC_ATTR_DPL3 :: u8 where
  "IDT_DESC_ATTR_DPL3 = push_bit 7 1 + push_bit 5 3 + 0xe"

text \<open>
  The entry points come from the assembler file \<open>kernel/kernel.s\<close>: \<open>intr_entry_table\<close> is the
  array it defines, \<open>syscall_handler\<close> the entry of the system calls.
\<close>

definition idt_desc_init :: "u32 list \<Rightarrow> u32 \<Rightarrow> gate_desc list res" where
  "idt_desc_init intr_entry_table syscall_handler =
     GUARD (IDT_DESC_CNT \<le> length intr_entry_table) ''intr_entry_table''
      (let idt = map (\<lambda>i. make_idt_desc IDT_DESC_ATTR_DPL0 (intr_entry_table ! i)) [0..<IDT_DESC_CNT]
       in Inr (idt[IDT_DESC_CNT - 1 := make_idt_desc IDT_DESC_ATTR_DPL3 syscall_handler]))"

text \<open>
  \<open>exception_init\<close>: the handlers (of any type) and the names of the exceptions. The handlers
  are those that the processor's entry code calls with the vector number.
\<close>

definition exception_init :: "'h \<Rightarrow> 'h list \<times> string list" where
  "exception_init general_handler =
     (replicate IDT_DESC_CNT general_handler,
      [''#DE Divide Error'', ''#DB Debug Exception'', ''NMI intrrupt'', ''#BP Breakpoint'' @ [CHR 9] @ ''Exception'',
       ''OF Overflow Exception'', ''BR Band Range Exceeded Exception'',
       ''#UD Invalid Opcode Exception'', ''#NM Device Not Available Exception'',
       ''#DF Double Fault Exception'', ''Coprocessor Segment Overrun'',
       ''#TS Invalid TSS Exception'', ''#NP Segment Not Present'', ''#SS Stack Fault Exception'',
       ''#GP General Protection Exception'', ''#PF Page-Fault Exception'', ''unknown'',
       ''#MF x87 FPU Floating-Point Error'', ''#AC Alignment Check Exception'',
       ''#MC Machine-Check Exception'', ''#XF SIMD Floating-Point Exception'']
      @ replicate (IDT_DESC_CNT - 20) ''unknown'')"

definition register_handler :: "u8 \<Rightarrow> 'h \<Rightarrow> 'h list \<Rightarrow> 'h list res" where
  "register_handler vector_no function idt_func_table =
     GUARD (unat vector_no < length idt_func_table) ''idt_func_table''
      (Inr (idt_func_table[unat vector_no := function]))"

text \<open>
  The default handler: a spurious interrupt is ignored, anything else prints the name of the
  exception and hangs, which is the stop \<open>Panic\<close> here.
\<close>

definition general_intr_handler :: "string list \<Rightarrow> u8 \<Rightarrow> unit res" where
  "general_intr_handler intr_name vec_nr =
     (if vec_nr = 0x27 \<or> vec_nr = 0x2f then Inr ()
      else GUARD (unat vec_nr < length intr_name) ''intr_name'' (Inl (Panic (intr_name ! unat vec_nr))))"

text \<open>The bytes \<open>pic_init\<close> writes to the two interrupt controllers, port by port.\<close>

definition pic_init :: "(nat \<times> u8) list" where
  "pic_init =
     [(0x20, 0x11), (0x21, 0x20), (0x21, 0x04), (0x21, 0x01),
      (0xa0, 0x11), (0xa1, 0x28), (0xa1, 0x02), (0xa1, 0x01),
      (0x21, 0xf8), (0xa1, 0xbf)]"

text \<open>
  \<open>idt_init\<close>: the three steps in their order, and the operand of \<open>lidt\<close>: the limit of the table
  in the low 16 bits, its address \<open>idt_addr\<close> above. The result has the table, the handlers and the
  names, the port writes and the operand.
\<close>

definition idt_operand :: "u32 \<Rightarrow> 64 word" where
  "idt_operand idt_addr = (of_nat (IDT_DESC_CNT * 8) - 1) OR push_bit 16 (ucast idt_addr)"

definition idt_init ::
    "u32 list \<Rightarrow> u32 \<Rightarrow> 'h \<Rightarrow> u32 \<Rightarrow> (gate_desc list \<times> ('h list \<times> string list) \<times> (nat \<times> u8) list \<times> 64 word) res" where
  "idt_init intr_entry_table syscall_handler general_handler idt_addr =
     bnd (idt_desc_init intr_entry_table syscall_handler) (\<lambda>idt.
     let handlers = exception_init general_handler
     in Inr (idt, handlers, pic_init, idt_operand idt_addr))"

text \<open>The processor finds the address and the limit of the table in the operand.\<close>

lemma idt_operand_decodes: "ucast (idt_operand a) = (1031 :: 16 word)" "ucast (drop_bit 16 (idt_operand a)) = a"
proof -
  have l: "bit (1031 :: 64 word) n \<longleftrightarrow> bit (1031 :: 16 word) n" for n
  proof -
    have "(1031 :: 64 word) = ucast (1031 :: 16 word)" by simp
    then show ?thesis by (simp only: bit_unsigned_iff) (auto dest: bit_imp_le_length)
  qed
  have o: "bit (idt_operand a) n \<longleftrightarrow> bit (1031 :: 16 word) n \<or> 16 \<le> n \<and> bit a (n - 16) \<and> n < 64" for n
    by (simp add: idt_operand_def bit_or_iff l bit_push_bit_iff bit_unsigned_iff del: bit_numeral_word_iff)
      (auto dest: bit_imp_le_length)
  show "ucast (idt_operand a) = (1031 :: 16 word)"
    by (rule bit_word_eqI) (simp add: bit_unsigned_iff o del: bit_numeral_word_iff)
  show "ucast (drop_bit 16 (idt_operand a)) = a"
  proof (rule bit_word_eqI)
    fix n assume n: "n < LENGTH(32)"
    then have "\<not> bit (1031 :: 16 word) (16 + n)" using bit_imp_le_length [of "1031 :: 16 word" "16 + n"] by auto
    then show "bit (ucast (drop_bit 16 (idt_operand a)) :: u32) n = bit a n"
      using n by (simp add: bit_unsigned_iff bit_drop_bit_eq o del: bit_numeral_word_iff)
  qed
qed

section \<open>Results\<close>

text \<open>
  The interrupt descriptor table points where it should. With an entry table of 129
  addresses every gate of the table leads to its entry point, the system call gate 0x80 to
  \<open>syscall_handler\<close>; only the latter may be raised from user mode (privilege level 3).
\<close>

theorem idt_desc_init_gates:
  assumes "length intr_entry_table = IDT_DESC_CNT" "i < IDT_DESC_CNT"
  shows "\<exists>idt. idt_desc_init intr_entry_table syscall_handler = Inr idt \<and> length idt = IDT_DESC_CNT \<and>
    gate_offset (idt ! i) = (if i = 0x80 then syscall_handler else intr_entry_table ! i) \<and>
    attribute (idt ! i) = (if i = 0x80 then 0xee else 0x8e)"
  using assms
  by (simp add: idt_desc_init_def Let_def gate_offset_make nth_list_update del: upt_rec_numeral)
    (simp add: make_idt_desc_def IDT_DESC_ATTR_DPL0_def IDT_DESC_ATTR_DPL3_def)

lemma idt_desc_init_gates_witness:
  "\<exists>idt. idt_desc_init (replicate 0x81 0xc0001500) 0xc0001700 = Inr idt \<and>
     gate_offset (idt ! 0x80) = 0xc0001700"
  using idt_desc_init_gates [of "replicate 0x81 0xc0001500" "0x80" "0xc0001700"] by auto

text \<open>
  The entry table is too short. \<open>kernel.s\<close> defines 48 entries (vectors 0 to 0x2f), but
  \<open>idt_desc_init\<close> reads 129 of them: the loop runs past the end of the table, so the gates
  from 0x30 to 0x7f hold whatever words follow it in memory.
\<close>

theorem idt_desc_init_reads_past_table:
  assumes "length intr_entry_table = 0x30"
  shows "idt_desc_init intr_entry_table syscall_handler = Inl (Fault ''intr_entry_table'')"
  using assms by (simp add: idt_desc_init_def)

lemma idt_desc_init_reads_past_table_witness:
  "idt_desc_init (replicate 0x30 0) 0 = Inl (Fault ''intr_entry_table'')"
  by (rule idt_desc_init_reads_past_table) simp

end
