(* ===== verification/Slots.thy ===== *)
theory Slots
  imports Prelude
begin

text \<open>
  The interface of an allocator of numbered slots, which the allocators of process ids (theory
  \<open>Task\<close>), of the page frames of processes (theory \<open>Paging\<close>) and of disk blocks (theory
  \<open>Diskblocks\<close>) provide, all of them on top of a bitmap. \<open>taken s\<close> is the set of the slots handed out, \<open>slots s\<close> the set of
  all slots, \<open>ok s\<close> the allocator's invariant.
\<close>

text \<open>\<open>n\<close> allocations in a row, and the slots they returned.\<close>

fun allocs :: "('s \<Rightarrow> ('i \<times> 's) res) \<Rightarrow> nat \<Rightarrow> 's \<Rightarrow> ('i list \<times> 's) res" where
  "allocs alloc 0 s = Inr ([], s)"
| "allocs alloc (Suc n) s =
     bnd (alloc s) (\<lambda>(i, s'). bnd (allocs alloc n s') (\<lambda>(is, s''). Inr (i # is, s'')))"

locale slots =
  fixes ok :: "'s \<Rightarrow> bool"
    and slots :: "'s \<Rightarrow> 'i set"
    and taken :: "'s \<Rightarrow> 'i set"
    and alloc :: "'s \<Rightarrow> ('i \<times> 's) res"
    and release :: "'i \<Rightarrow> 's \<Rightarrow> 's res"
  assumes finite_slots: "ok s \<Longrightarrow> finite (slots s)"
    and taken_slots: "ok s \<Longrightarrow> taken s \<subseteq> slots s"
    and alloc_ok: "ok s \<Longrightarrow> taken s \<noteq> slots s \<Longrightarrow>
      \<exists>i s'. alloc s = Inr (i, s') \<and> ok s' \<and> slots s' = slots s \<and> i \<in> slots s \<and>
             i \<notin> taken s \<and> taken s' = insert i (taken s)"
    and alloc_full: "ok s \<Longrightarrow> taken s = slots s \<Longrightarrow> panics (alloc s)"
    and release_ok: "ok s \<Longrightarrow> i \<in> taken s \<Longrightarrow>
      \<exists>s'. release i s = Inr s' \<and> ok s' \<and> slots s' = slots s \<and> taken s' = taken s - {i}"
begin

lemma allocs_ok:
  assumes "ok s" "n \<le> card (slots s - taken s)"
  shows "\<exists>is s'. allocs alloc n s = Inr (is, s') \<and> ok s' \<and> slots s' = slots s \<and> length is = n \<and>
    distinct is \<and> set is \<subseteq> slots s \<and> set is \<inter> taken s = {} \<and> taken s' = taken s \<union> set is"
  using assms
proof (induction n arbitrary: s)
  case 0
  then show ?case by simp
next
  case (Suc n)
  have "taken s \<noteq> slots s" using Suc.prems(2) by auto
  then obtain i s1 where s1: "alloc s = Inr (i, s1)" "ok s1" "slots s1 = slots s" "i \<in> slots s"
    "i \<notin> taken s" "taken s1 = insert i (taken s)" using alloc_ok [OF Suc.prems(1)] by blast
  have "slots s - taken s1 = (slots s - taken s) - {i}" using s1 by auto
  then have "n \<le> card (slots s1 - taken s1)" using Suc.prems s1 finite_slots [OF Suc.prems(1)]
    by (simp add: card_Diff_singleton)
  from Suc.IH [OF s1(2) this] s1 show ?case by fastforce
qed

text \<open>
  Allocations never hand out a slot twice, they succeed exactly as long as there are free
  slots, and the next one after that is a panic.
\<close>

lemma allocs_exhaust:
  assumes "ok s"
  shows "\<exists>is s'. allocs alloc (card (slots s - taken s)) s = Inr (is, s') \<and> distinct is \<and>
    set is = slots s - taken s \<and> taken s' = slots s \<and> panics (alloc s')"
proof -
  let ?n = "card (slots s - taken s)"
  obtain "is" s' where r: "allocs alloc ?n s = Inr (is, s')" "ok s'" "slots s' = slots s"
    "length is = ?n" "distinct is" "set is \<subseteq> slots s" "set is \<inter> taken s = {}"
    "taken s' = taken s \<union> set is" using allocs_ok [OF assms order_refl] by blast
  have "card (set is) = card (slots s - taken s)" using r by (simp add: distinct_card)
  then have "set is = slots s - taken s"
    using r(6,7) finite_slots [OF assms] by (intro card_subset_eq) auto
  moreover from this have "taken s' = slots s" using r(8) taken_slots [OF assms] by auto
  ultimately show ?thesis using r alloc_full [OF r(2)] by auto
qed

text \<open>A slot that is given back can be had again: allocation and release undo each other.\<close>

lemma alloc_release:
  assumes "ok s" "alloc s = Inr (i, s1)" "taken s \<noteq> slots s"
  shows "\<exists>s2. release i s1 = Inr s2 \<and> taken s2 = taken s \<and> slots s2 = slots s \<and> ok s2"
proof -
  have s1: "ok s1" "slots s1 = slots s" "i \<notin> taken s" "taken s1 = insert i (taken s)"
    using alloc_ok [OF assms(1,3)] assms(2) by auto
  then show ?thesis using release_ok [OF s1(1), of i] by auto
qed

end

end
