(* ===== verification/Bitmap.thy ===== *)
theory Bitmap
  imports Slots
begin

text \<open>
  \<open>lib/kernel/bitmap.c\<close>: the bitmap every allocator of the kernel rests on (pids, physical
  pages, virtual pages, inodes, disk blocks). The \<open>bits\<close> pointer is the list of the bytes
  it points to; an access outside the array is a \<open>Fault\<close>. Bit numbers are \<open>nat\<close>: the
  longest bitmap of the program (512 MB of pages, 4096 inodes, an 80 MB disk) is far below
  \<open>2^31\<close> bits, so no index wraps.
\<close>

record bitmap =
  btmp_bytes_len :: nat
  bits :: "u8 list"

text \<open>The C expression \<open>(uint8_t)(BITMAP_MASK << i)\<close>.\<close>

definition bitmap_mask :: "nat \<Rightarrow> u8" where
  "bitmap_mask i = push_bit i 1"

definition bitmap_init :: "bitmap \<Rightarrow> bitmap" where
  "bitmap_init b = b\<lparr>bits := replicate (btmp_bytes_len b) 0 @ drop (btmp_bytes_len b) (bits b)\<rparr>"

definition bitmap_scan_test :: "bitmap \<Rightarrow> nat \<Rightarrow> bool res" where
  "bitmap_scan_test b bit_idx =
     (let byte_idx = bit_idx div 8; bit_odd = bit_idx mod 8 in
      GUARD (byte_idx < length (bits b)) ''bitmap''
        (Inr (bits b ! byte_idx AND bitmap_mask bit_odd \<noteq> 0)))"

text \<open>
  The byte loop of \<open>bitmap_scan\<close>. The code evaluates \<open>0xff == bits[idx]\<close> before
  \<open>idx < len\<close>, so a full bitmap makes it read the byte just behind the array; whatever
  that byte holds, the second conjunct then ends the loop, so the result does not depend
  on it.
\<close>

function scan_bytes :: "bitmap \<Rightarrow> nat \<Rightarrow> nat" where
  "scan_bytes b idx_byte =
     (if idx_byte < btmp_bytes_len b \<and> bits b ! idx_byte = 255
      then scan_bytes b (Suc idx_byte) else idx_byte)"
  by pat_completeness auto
termination
  by (relation "measure (\<lambda>(b, i). btmp_bytes_len b - i)") auto

declare scan_bytes.simps [simp del]

lemma bitmap_mask_zero: "8 \<le> i \<Longrightarrow> bitmap_mask i = 0"
  by (rule bit_eqI) (simp add: bitmap_mask_def bit_simps)

text \<open>The bit loop stops at bit 8 at the latest, where the mask has become 0.\<close>

function scan_byte_bit :: "u8 \<Rightarrow> nat \<Rightarrow> nat" where
  "scan_byte_bit byte idx_bit =
     (if byte AND bitmap_mask idx_bit \<noteq> 0 then scan_byte_bit byte (Suc idx_bit) else idx_bit)"
  by pat_completeness auto
termination
proof (relation "measure (\<lambda>(b, i). 8 - i)")
  fix byte :: u8 and i assume "byte AND bitmap_mask i \<noteq> 0"
  then have "i < 8" using bitmap_mask_zero [of i] by (cases "8 \<le> i") auto
  then show "((byte, Suc i), byte, i) \<in> measure (\<lambda>(b, i). 8 - i)" by simp
qed simp

declare scan_byte_bit.simps [simp del]

text \<open>The run loop: \<open>bit_left\<close> bits are still to be looked at, the next one is \<open>next_bit\<close>.\<close>

fun scan_run :: "bitmap \<Rightarrow> nat \<Rightarrow> nat \<Rightarrow> nat \<Rightarrow> nat \<Rightarrow> int res" where
  "scan_run b cnt 0 next_bit count = Inr (-1)"
| "scan_run b cnt (Suc bit_left) next_bit count =
     bnd (bitmap_scan_test b next_bit) (\<lambda>t.
     let count' = (if \<not> t then Suc count else 0) in
     if count' = cnt then Inr (int next_bit - int cnt + 1)
     else scan_run b cnt bit_left (Suc next_bit) count')"

definition bitmap_scan :: "bitmap \<Rightarrow> nat \<Rightarrow> int res" where
  "bitmap_scan b cnt =
     ASSERT (cnt \<ge> 1) ''cnt >= 1''
     (let idx_byte = scan_bytes b 0 in
      ASSERT (idx_byte < btmp_bytes_len b) ''idx_byte < btmp->btmp_bytes_len''
      (if idx_byte = btmp_bytes_len b then Inr (-1)
       else
         let idx_bit = scan_byte_bit (bits b ! idx_byte) 0;
             bit_idx_start = idx_byte * 8 + idx_bit
         in if cnt = 1 then Inr (int bit_idx_start)
            else scan_run b cnt (btmp_bytes_len b * 8 - bit_idx_start - 1) (bit_idx_start + 1) 1))"

definition bitmap_set :: "bitmap \<Rightarrow> nat \<Rightarrow> nat \<Rightarrow> bitmap res" where
  "bitmap_set b bit_idx value =
     ASSERT (value = 0 \<or> value = 1) ''value == 0 || value == 1''
     (let byte_idx = bit_idx div 8; bit_odd = bit_idx mod 8 in
      GUARD (byte_idx < length (bits b)) ''bitmap''
       (if value \<noteq> 0
        then Inr (b\<lparr>bits := (bits b)[byte_idx := bits b ! byte_idx OR bitmap_mask bit_odd]\<rparr>)
        else Inr (b\<lparr>bits := (bits b)[byte_idx := bits b ! byte_idx AND NOT (bitmap_mask bit_odd)]\<rparr>)))"


section \<open>The abstract view: a set of bits\<close>

definition nbits :: "bitmap \<Rightarrow> nat" where
  "nbits b = 8 * btmp_bytes_len b"

definition bit_at :: "bitmap \<Rightarrow> nat \<Rightarrow> bool" where
  "bit_at b i = bit (bits b ! (i div 8)) (i mod 8)"

definition used :: "bitmap \<Rightarrow> nat set" where
  "used b = {i. i < nbits b \<and> bit_at b i}"

definition wf_bitmap :: "bitmap \<Rightarrow> bool" where
  "wf_bitmap b \<longleftrightarrow> length (bits b) = btmp_bytes_len b"

text \<open>The \<open>n\<close> bits from \<open>s\<close> on are inside the bitmap and free.\<close>

definition free_run :: "bitmap \<Rightarrow> nat \<Rightarrow> nat \<Rightarrow> bool" where
  "free_run b s n \<longleftrightarrow> s + n \<le> nbits b \<and> (\<forall>i. s \<le> i \<and> i < s + n \<longrightarrow> \<not> bit_at b i)"

lemma and_mask_iff: "w AND bitmap_mask k \<noteq> 0 \<longleftrightarrow> bit w k"
  by (simp add: bitmap_mask_def bit_iff_and_push_bit_not_eq_0)

lemma byte_idx_less [simp]: "wf_bitmap b \<Longrightarrow> i < nbits b \<Longrightarrow> i div 8 < length (bits b)"
  by (simp add: wf_bitmap_def nbits_def less_mult_imp_div_less mult.commute)

lemma finite_used [simp]: "finite (used b)"
  by (simp add: used_def)

lemma bitmap_scan_test_ok:
  "wf_bitmap b \<Longrightarrow> i < nbits b \<Longrightarrow> bitmap_scan_test b i = Inr (bit_at b i)"
  by (simp add: bitmap_scan_test_def Let_def bit_at_def and_mask_iff)

subsection \<open>bitmap_set changes one bit\<close>

lemma bit_or_mask: "k < 8 \<Longrightarrow> bit (w OR bitmap_mask k) j \<longleftrightarrow> j = k \<or> bit (w :: u8) j"
  by (cases "j < 8") (auto simp: bit_or_iff bitmap_mask_def bit_simps dest: bit_imp_le_length)

lemma bit_andnot_mask: "bit (w AND NOT (bitmap_mask k)) j \<longleftrightarrow> bit (w :: u8) j \<and> j \<noteq> k"
  by (auto simp: bit_and_iff bit_not_iff bitmap_mask_def bit_simps dest: bit_imp_le_length)

lemma bitmap_set_ok:
  assumes "wf_bitmap b" "i < nbits b" "v \<le> 1"
  obtains b' where "bitmap_set b i v = Inr b'" "wf_bitmap b'"
    "btmp_bytes_len b' = btmp_bytes_len b"
    "\<And>j. j < nbits b \<Longrightarrow> bit_at b' j = (if j = i then v = 1 else bit_at b j)"
proof -
  let ?w = "bits b ! (i div 8)"
  let ?w' = "if v \<noteq> 0 then ?w OR bitmap_mask (i mod 8) else ?w AND NOT (bitmap_mask (i mod 8))"
  let ?b' = "b\<lparr>bits := (bits b)[i div 8 := ?w']\<rparr>"
  have idx: "i div 8 < length (bits b)" using assms by simp
  have v: "v = 0 \<or> v = 1" using assms by auto
  have "bit_at ?b' j = (if j = i then v = 1 else bit_at b j)" if "j < nbits b" for j
  proof (cases "j div 8 = i div 8")
    case True
    then have eq: "j = i \<longleftrightarrow> j mod 8 = i mod 8"
      by (metis div_mult_mod_eq)
    show ?thesis using True idx v
      by (auto simp: bit_at_def eq bit_or_mask bit_andnot_mask)
  next
    case False
    then show ?thesis by (auto simp: bit_at_def)
  qed
  moreover have "bitmap_set b i v = Inr ?b'"
    using idx v by (auto simp: bitmap_set_def Let_def)
  ultimately show thesis using assms by (intro that [of ?b']) (auto simp: wf_bitmap_def)
qed

lemma bitmap_set_used:
  assumes "wf_bitmap b" "i < nbits b" "bitmap_set b i v = Inr b'"
  shows "v \<le> 1" "wf_bitmap b'" "nbits b' = nbits b"
    "used b' = (if v = 1 then insert i (used b) else used b - {i})"
proof -
  show v: "v \<le> 1" using assms(3) by (auto simp: bitmap_set_def res_simps)
  obtain b2 where b2: "bitmap_set b i v = Inr b2" "wf_bitmap b2"
      "btmp_bytes_len b2 = btmp_bytes_len b"
      "\<And>j. j < nbits b \<Longrightarrow> bit_at b2 j = (if j = i then v = 1 else bit_at b j)"
    using bitmap_set_ok [OF assms(1,2) v] by metis
  then have [simp]: "b' = b2" using assms(3) by simp
  show "wf_bitmap b'" "nbits b' = nbits b" using b2 by (simp_all add: nbits_def)
  then show "used b' = (if v = 1 then insert i (used b) else used b - {i})"
    using b2(4) v assms(2) by (auto simp: used_def nbits_def split: if_splits)
qed

subsection \<open>The three loops of bitmap_scan\<close>

lemma scan_bytes_spec:
  "i \<le> btmp_bytes_len b \<Longrightarrow>
   i \<le> scan_bytes b i \<and> scan_bytes b i \<le> btmp_bytes_len b \<and>
   (\<forall>k. i \<le> k \<and> k < scan_bytes b i \<longrightarrow> bits b ! k = 255) \<and>
   (scan_bytes b i < btmp_bytes_len b \<longrightarrow> bits b ! scan_bytes b i \<noteq> 255)"
proof (induction b i rule: scan_bytes.induct)
  case (1 b i)
  show ?case
  proof (cases "i < btmp_bytes_len b \<and> bits b ! i = 255")
    case True
    then have "Suc i \<le> btmp_bytes_len b" by simp
    note IH = "1.IH" [OF True this]
    moreover have "scan_bytes b i = scan_bytes b (Suc i)"
      using True by (simp add: scan_bytes.simps [of b i])
    moreover have "k = i \<or> Suc i \<le> k" if "i \<le> k" for k using that by auto
    ultimately show ?thesis using True by auto
  next
    case False
    then show ?thesis using "1.prems" by (auto simp: scan_bytes.simps [of b i])
  qed
qed

lemma bit_ff: "bit (255 :: u8) k \<longleftrightarrow> k < 8"
proof -
  have "(255 :: u8) = mask 8" by (simp add: mask_eq_exp_minus_1)
  moreover have "bit (mask 8 :: u8) k \<longleftrightarrow> k < 8" by (auto simp: bit_simps)
  ultimately show ?thesis by (simp only:)
qed

lemma not_ff_free_bit:
  assumes "(w :: u8) \<noteq> 255"
  shows "\<exists>k < 8. \<not> bit w k"
proof (rule ccontr)
  assume all: "\<not> (\<exists>k < 8. \<not> bit w k)"
  have "w = 255"
  proof (rule bit_word_eqI)
    fix n assume "n < LENGTH(8)"
    then have "n < 8" by simp
    with all show "bit w n = bit (255 :: u8) n" unfolding bit_ff by blast
  qed
  with assms show False ..
qed

lemma scan_byte_bit_spec:
  "\<forall>k < i. bit w k \<Longrightarrow> \<exists>k < 8. \<not> bit w k \<Longrightarrow>
   scan_byte_bit w i < 8 \<and> \<not> bit w (scan_byte_bit w i) \<and> (\<forall>k < scan_byte_bit w i. bit w k)"
proof (induction w i rule: scan_byte_bit.induct)
  case (1 w i)
  show ?case
  proof (cases "bit w i")
    case True
    then have "\<forall>k < Suc i. bit w k" using "1.prems" by (simp add: less_Suc_eq)
    with "1.IH" "1.prems" True show ?thesis
      by (simp add: scan_byte_bit.simps [of w i] and_mask_iff)
  next
    case False
    with "1.prems" have "i < 8" by (meson not_less order.strict_trans2 le_less_trans)
    then show ?thesis using False "1.prems"
      by (simp add: scan_byte_bit.simps [of w i] and_mask_iff)
  qed
qed


text \<open>
  The invariant of the run loop: the last \<open>count\<close> bits before \<open>next_bit\<close> are free, the
  run they belong to is too short so far, and no run of \<open>cnt\<close> free bits starts before it.
\<close>

lemma scan_run_spec:
  assumes "wf_bitmap b"
  shows "next_bit + left = nbits b \<Longrightarrow> count \<le> next_bit \<Longrightarrow> count < cnt \<Longrightarrow>
    \<forall>i. next_bit - count \<le> i \<and> i < next_bit \<longrightarrow> \<not> bit_at b i \<Longrightarrow>
    \<forall>s < next_bit - count. \<not> free_run b s cnt \<Longrightarrow>
    (\<exists>s. scan_run b cnt left next_bit count = Inr (int s) \<and> free_run b s cnt \<and>
         (\<forall>s' < s. \<not> free_run b s' cnt)) \<or>
    (scan_run b cnt left next_bit count = Inr (-1) \<and> (\<forall>s. \<not> free_run b s cnt))"
proof (induction left arbitrary: next_bit count)
  case 0
  have "\<not> free_run b s cnt" for s
  proof (cases "s < next_bit - count")
    case False
    then show ?thesis using 0 by (auto simp: free_run_def)
  qed (use 0 in auto)
  then show ?case by simp
next
  case (Suc left)
  have t: "bitmap_scan_test b next_bit = Inr (bit_at b next_bit)"
    using Suc.prems(1) by (intro bitmap_scan_test_ok assms) simp
  show ?case
  proof (cases "bit_at b next_bit")
    case True
    have "\<not> free_run b s cnt" if "s < Suc next_bit" for s
    proof (cases "s < next_bit - count")
      case False
      then have "s \<le> next_bit" "next_bit < s + cnt" using that Suc.prems(2,3) by auto
      then show ?thesis using True by (auto simp: free_run_def)
    qed (use Suc.prems in auto)
    then have "\<forall>s < Suc next_bit - 0. \<not> free_run b s cnt" by simp
    moreover have "scan_run b cnt (Suc left) next_bit count = scan_run b cnt left (Suc next_bit) 0"
      using t True Suc.prems(3) by (simp add: Let_def)
    ultimately show ?thesis using Suc.IH [of "Suc next_bit" 0] Suc.prems by simp
  next
    case False
    have free: "\<forall>i. Suc next_bit - Suc count \<le> i \<and> i < Suc next_bit \<longrightarrow> \<not> bit_at b i"
      using Suc.prems(4) False by (auto simp: less_Suc_eq)
    show ?thesis
    proof (cases "Suc count = cnt")
      case True
      then have "scan_run b cnt (Suc left) next_bit count = Inr (int (next_bit - count))"
        using t False Suc.prems(2) by (simp add: Let_def of_nat_diff)
      moreover have "free_run b (next_bit - count) cnt"
        using free True Suc.prems(1,2) by (auto simp: free_run_def)
      ultimately show ?thesis using Suc.prems(5) by blast
    next
      case neq: False
      then have "scan_run b cnt (Suc left) next_bit count
          = scan_run b cnt left (Suc next_bit) (Suc count)"
        using t False by (simp add: Let_def)
      then show ?thesis using Suc.IH [of "Suc next_bit" "Suc count"] Suc.prems neq free by simp
    qed
  qed
qed

subsection \<open>What bitmap_scan returns\<close>

lemma bit_at_split: "k < 8 \<Longrightarrow> bit_at b (8 * i + k) = bit (bits b ! i) k"
  by (simp add: bit_at_def)

lemma full_bytes_used:
  assumes "\<forall>k < i. bits b ! k = 255" and "j < 8 * i"
  shows "bit_at b j"
proof -
  have "j div 8 < i" using assms(2) by (simp add: less_mult_imp_div_less mult.commute)
  then have "bits b ! (j div 8) = 255" using assms(1) by blast
  moreover have "bit (255 :: u8) (j mod 8)" unfolding bit_ff by simp
  ultimately show ?thesis by (simp only: bit_at_def)
qed

text \<open>The first two loops find the first free bit.\<close>

lemma first_free_bit:
  assumes "scan_bytes b 0 < btmp_bytes_len b"
  defines "s \<equiv> scan_bytes b 0 * 8 + scan_byte_bit (bits b ! scan_bytes b 0) 0"
  shows "s < nbits b" "\<not> bit_at b s" "\<forall>j < s. bit_at b j"
proof -
  let ?i = "scan_bytes b 0" and ?w = "bits b ! scan_bytes b 0"
  let ?k = "scan_byte_bit ?w 0"
  have full: "\<forall>k < ?i. bits b ! k = 255" and "?w \<noteq> 255"
    using scan_bytes_spec [of 0 b] assms(1) by auto
  then have k: "?k < 8" "\<not> bit ?w ?k" "\<forall>k < ?k. bit ?w k"
    using scan_byte_bit_spec [of 0 ?w] not_ff_free_bit [of ?w] by auto
  have s: "s = 8 * ?i + ?k" by (simp add: s_def)
  show "s < nbits b" using s k(1) assms(1) by (simp add: nbits_def)
  show "\<not> bit_at b s" using s k by (simp add: bit_at_split)
  show "\<forall>j < s. bit_at b j"
  proof (intro allI impI)
    fix j assume j: "j < s"
    show "bit_at b j"
    proof (cases "j < 8 * ?i")
      case True
      then show ?thesis using full full_bytes_used by blast
    next
      case False
      then have "j = 8 * ?i + (j - 8 * ?i)" "j - 8 * ?i < ?k" using j s by auto
      then show ?thesis using k bit_at_split [of "j - 8 * ?i" b ?i] by (metis less_trans)
    qed
  qed
qed

lemma scan_bytes_full:
  assumes "wf_bitmap b" and "used b = {..<nbits b}"
  shows "scan_bytes b 0 = btmp_bytes_len b"
proof (rule ccontr)
  assume "scan_bytes b 0 \<noteq> btmp_bytes_len b"
  then have "scan_bytes b 0 < btmp_bytes_len b" using scan_bytes_spec [of 0 b] by simp
  from first_free_bit [OF this] assms(2) show False by (auto simp: used_def)
qed

lemma scan_bytes_not_full:
  assumes "i < nbits b" and "\<not> bit_at b i"
  shows "scan_bytes b 0 < btmp_bytes_len b"
proof (rule ccontr)
  assume "\<not> ?thesis"
  then have "scan_bytes b 0 = btmp_bytes_len b" using scan_bytes_spec [of 0 b] by simp
  then have "\<forall>k < btmp_bytes_len b. bits b ! k = 255" using scan_bytes_spec [of 0 b] by auto
  from full_bytes_used [OF this] assms show False by (simp add: nbits_def)
qed

lemma bitmap_scan_first_fit:
  assumes "wf_bitmap b" and "1 \<le> cnt" and "used b \<noteq> {..<nbits b}"
  shows "(\<exists>s. bitmap_scan b cnt = Inr (int s) \<and> free_run b s cnt \<and>
           (\<forall>s' < s. \<not> free_run b s' cnt)) \<or>
         (bitmap_scan b cnt = Inr (-1) \<and> (\<forall>s. \<not> free_run b s cnt))"
proof -
  obtain i where "i < nbits b" "\<not> bit_at b i"
    using assms(3) by (auto simp: used_def)
  then have lt: "scan_bytes b 0 < btmp_bytes_len b" by (rule scan_bytes_not_full)
  define s where "s = scan_bytes b 0 * 8 + scan_byte_bit (bits b ! scan_bytes b 0) 0"
  note s = first_free_bit [OF lt, folded s_def]
  have none: "\<forall>s' < s. \<not> free_run b s' cnt"
    using s(3) assms(2) by (auto simp: free_run_def)
  show ?thesis
  proof (cases "cnt = 1")
    case True
    then have "bitmap_scan b cnt = Inr (int s)"
      using lt by (simp add: bitmap_scan_def Let_def s_def)
    moreover have "free_run b s cnt" using s True by (auto simp: free_run_def less_Suc_eq)
    ultimately show ?thesis using none by blast
  next
    case False
    then have eq: "bitmap_scan b cnt = scan_run b cnt (nbits b - s - 1) (s + 1) 1"
      using lt assms(2) by (simp add: bitmap_scan_def Let_def s_def nbits_def mult.commute)
    show ?thesis unfolding eq
      by (rule scan_run_spec [OF assms(1)])
        (use s none False assms(2) in \<open>auto simp: less_Suc_eq\<close>)
  qed
qed

text \<open>On a full bitmap the \<open>ASSERT\<close> in front of the \<open>return -1\<close> fails.\<close>

lemma bitmap_scan_full_panics:
  assumes "wf_bitmap b" and "1 \<le> cnt" and "used b = {..<nbits b}"
  shows "bitmap_scan b cnt = Inl (Panic ''idx_byte < btmp->btmp_bytes_len'')"
  using scan_bytes_full [OF assms(1,3)] assms(2) by (simp add: bitmap_scan_def Let_def)

lemma bitmap_scan_one:
  assumes "wf_bitmap b" and "bitmap_scan b 1 = Inr r"
  shows "0 \<le> r" "nat r < nbits b" "\<not> bit_at b (nat r)" "\<forall>j < nat r. bit_at b j"
proof -
  have lt: "scan_bytes b 0 < btmp_bytes_len b"
    and r: "r = int (scan_bytes b 0 * 8 + scan_byte_bit (bits b ! scan_bytes b 0) 0)"
    using assms(2) by (auto simp: bitmap_scan_def Let_def res_simps)
  show "0 \<le> r" using r by simp
  have "nat r = scan_bytes b 0 * 8 + scan_byte_bit (bits b ! scan_bytes b 0) 0"
    using r by (simp only: nat_int)
  then show "nat r < nbits b" "\<not> bit_at b (nat r)" "\<forall>j < nat r. bit_at b j"
    using first_free_bit [OF lt] by simp_all
qed

section \<open>Allocating one bit\<close>

text \<open>
  The pattern all allocators of the kernel share: scan for one free bit, then set it. Their
  own definitions follow the code; these lemmas are what they use.
\<close>

lemma bitmap_scan_one_cases:
  assumes "wf_bitmap b"
  shows "used b = {..<nbits b} \<and> panics (bitmap_scan b 1) \<or>
    used b \<noteq> {..<nbits b} \<and> (\<exists>s. bitmap_scan b 1 = Inr (int s) \<and> s < nbits b \<and> s \<notin> used b \<and>
      (\<forall>j < s. j \<in> used b))"
proof (cases "used b = {..<nbits b}")
  case True
  then show ?thesis using bitmap_scan_full_panics [OF assms order_refl True] by simp
next
  case False
  obtain i where i: "i < nbits b" "\<not> bit_at b i" using False by (auto simp: used_def)
  then have "free_run b i 1" by (auto simp: free_run_def less_Suc_eq)
  then obtain s where s: "bitmap_scan b 1 = Inr (int s)"
    using bitmap_scan_first_fit [OF assms _ False, of 1] by auto
  then show ?thesis using bitmap_scan_one [OF assms s] False by (auto simp: used_def)
qed

lemma bitmap_set_used_ex:
  assumes "wf_bitmap b" "i < nbits b" "v \<le> 1"
  shows "\<exists>b'. bitmap_set b i v = Inr b' \<and> wf_bitmap b' \<and> nbits b' = nbits b \<and>
    btmp_bytes_len b' = btmp_bytes_len b \<and>
    used b' = (if v = 1 then insert i (used b) else used b - {i})"
proof -
  obtain b' where b': "bitmap_set b i v = Inr b'" "btmp_bytes_len b' = btmp_bytes_len b"
    by (rule bitmap_set_ok [OF assms]) blast
  show ?thesis using b' bitmap_set_used [OF assms(1,2) b'(1)] by simp
qed

lemma used_init: "used (bitmap_init b) = {}"
  by (auto simp: used_def bitmap_init_def bit_at_def nbits_def nth_append
      less_mult_imp_div_less mult.commute)

lemma wf_bitmap_init: "wf_bitmap b \<Longrightarrow> wf_bitmap (bitmap_init b)"
  by (simp add: wf_bitmap_def bitmap_init_def)

section \<open>Results\<close>

text \<open>
  C16: \<open>bitmap_scan\<close> is first fit. On a bitmap with a free bit it returns the smallest start
  of \<open>cnt\<close> free bits in a row, and -1 exactly when there is no such run.
\<close>

theorem bitmap_scan_is_first_fit:
  assumes "wf_bitmap b" and "1 \<le> cnt" and "used b \<noteq> {..<nbits b}"
  shows "bitmap_scan b cnt =
    Inr (if \<exists>s. free_run b s cnt then int (LEAST s. free_run b s cnt) else -1)"
proof (cases "\<exists>s. free_run b s cnt")
  case True
  then obtain s where s: "bitmap_scan b cnt = Inr (int s)" "free_run b s cnt"
    "\<forall>s' < s. \<not> free_run b s' cnt" using bitmap_scan_first_fit [OF assms] by blast
  then have "(LEAST s. free_run b s cnt) = s"
    by (intro Least_equality) (auto simp: not_less [symmetric])
  then show ?thesis using s by auto
next
  case False
  then show ?thesis using bitmap_scan_first_fit [OF assms] by auto
qed

lemma bitmap_scan_is_first_fit_witness:
  "\<exists>r. bitmap_scan \<lparr>btmp_bytes_len = 2, bits = [0xf7, 0]\<rparr> 4 = Inr r"
proof -
  let ?b = "\<lparr>btmp_bytes_len = 2, bits = [0xf7 :: u8, 0]\<rparr>"
  have "8 \<notin> used ?b" by (simp add: used_def bit_at_def)
  moreover have "8 \<in> {..<nbits ?b}" by (simp add: nbits_def)
  ultimately have "used ?b \<noteq> {..<nbits ?b}" by metis
  then show ?thesis using bitmap_scan_is_first_fit [of ?b 4] by (simp add: wf_bitmap_def)
qed

text \<open>
  C17: A full bitmap is fatal. When no bit is free, \<open>bitmap_scan\<close> does not return -1 (which
  every caller tests for): the \<open>ASSERT\<close> in front of that \<open>return\<close> stops the kernel.
\<close>

theorem bitmap_scan_full_stops:
  assumes "wf_bitmap b" and "1 \<le> cnt" and "used b = {..<nbits b}"
  shows "bitmap_scan b cnt = Inl (Panic ''idx_byte < btmp->btmp_bytes_len'')"
  by (rule bitmap_scan_full_panics [OF assms])

lemma bitmap_scan_full_stops_witness:
  "bitmap_scan \<lparr>btmp_bytes_len = 1, bits = [0xff]\<rparr> 1
   = Inl (Panic ''idx_byte < btmp->btmp_bytes_len'')"
proof -
  have "bit (255 :: u8) i" if "i < 8" for i using that bit_mask_iff [of 8 i, where 'a = u8]
    by (simp add: mask_eq_exp_minus_1)
  then show ?thesis
    by (intro bitmap_scan_full_stops) (auto simp: wf_bitmap_def used_def nbits_def bit_at_def)
qed

text \<open>
  \<open>bitmap_set\<close> changes one bit. Inside the bitmap it sets or clears exactly the bit it
  names, so that \<open>bitmap_scan_test\<close> reads back what was set and all other bits stay.
\<close>

theorem bitmap_set_one_bit:
  assumes "wf_bitmap b" "i < nbits b" "j < nbits b"
  shows "\<exists>b1 b0. bitmap_set b i 1 = Inr b1 \<and> bitmap_set b i 0 = Inr b0 \<and>
    bitmap_scan_test b1 i = Inr True \<and> bitmap_scan_test b0 i = Inr False \<and>
    (j \<noteq> i \<longrightarrow> bitmap_scan_test b1 j = bitmap_scan_test b j \<and>
               bitmap_scan_test b0 j = bitmap_scan_test b j)"
proof -
  obtain b1 where b1: "bitmap_set b i 1 = Inr b1" "wf_bitmap b1" "btmp_bytes_len b1 = btmp_bytes_len b"
    "\<And>j. j < nbits b \<Longrightarrow> bit_at b1 j = (if j = i then (1::nat) = 1 else bit_at b j)"
    using bitmap_set_ok [OF assms(1,2), of 1] by (metis order_refl)
  obtain b0 where b0: "bitmap_set b i 0 = Inr b0" "wf_bitmap b0" "btmp_bytes_len b0 = btmp_bytes_len b"
    "\<And>j. j < nbits b \<Longrightarrow> bit_at b0 j = (if j = i then (0::nat) = 1 else bit_at b j)"
    using bitmap_set_ok [OF assms(1,2), of 0] by (metis zero_le)
  have n: "nbits b1 = nbits b" "nbits b0 = nbits b" using b1 b0 by (simp_all add: nbits_def)
  show ?thesis using b1 b0 assms n by (simp add: bitmap_scan_test_ok)
qed

lemma bitmap_set_one_bit_witness:
  "\<exists>b1. bitmap_set \<lparr>btmp_bytes_len = 1, bits = [0]\<rparr> 3 1 = Inr b1 \<and> bitmap_scan_test b1 3 = Inr True"
  using bitmap_set_one_bit [of "\<lparr>btmp_bytes_len = 1, bits = [0]\<rparr>" 3 4]
  by (auto simp: wf_bitmap_def nbits_def)

end
