(* ===== verification/Thread.thy ===== *)
theory Thread
  imports Interrupt Bitmap
begin

text \<open>
  \<open>thread/thread.c\<close>, the scheduling half: the process control block, the ready queue and the
  routines that move a thread between the processor, the ready queue and sleep.

  A thread is the address of the page its PCB lies in. The two queues are HOL lists of
  threads; theory \<open>Klist\<close> shows that the linked lists of the kernel implement exactly the
  list operations used here (append, push in front, pop, remove, membership). The register
  state that \<open>switch_to\<close> saves and restores (\<open>thread/switch.s\<close>) is not modelled, except for
  the one effect the C code has on it: what a thread does to the interrupt flag when it
  continues after \<open>switch_to\<close> is kept in \<open>saved_intr\<close>.
\<close>

datatype task_status =
  TASK_RUNNING | TASK_READY | TASK_BLOCKED | TASK_WAITING | TASK_HANGING | TASK_OVER

type_synonym tid = nat

abbreviation PG_SIZE :: nat where "PG_SIZE \<equiv> 4096"
abbreviation MAX_FILES_OPEN_PER_PROC :: nat where "MAX_FILES_OPEN_PER_PROC \<equiv> 8"
abbreviation TASK_NAME_LEN :: nat where "TASK_NAME_LEN \<equiv> 16"

record task =
  self_kstack :: nat
  pid :: int
  status :: task_status
  priority :: u8
  name :: string
  ticks :: u8
  elapsed_ticks :: u32
  fd_table :: "int list"
  pgdir :: "nat option"
  cwd_inode_nr :: nat
  parent_pid :: int
  exit_status :: int
  stack_magic :: u32

text \<open>
  \<open>cur\<close> is what \<open>running_thread()\<close> computes from the stack pointer. \<open>cr3\<close> is the page
  directory in use (\<open>None\<close>: the kernel's own at 0x100000), \<open>esp0\<close> the field of the TSS.
\<close>

record kernel = cpu +
  cur :: tid
  tasks :: "tid \<Rightarrow> task"
  thread_ready_list :: "tid list"
  thread_all_list :: "tid list"
  idle_thread :: tid
  main_thread :: tid
  saved_intr :: "tid \<Rightarrow> intr_status"
  cr3 :: "nat option"
  esp0 :: nat

definition running_thread :: "'a kernel_scheme \<Rightarrow> tid" where
  "running_thread k = cur k"

definition set_task :: "tid \<Rightarrow> (task \<Rightarrow> task) \<Rightarrow> 'a kernel_scheme \<Rightarrow> 'a kernel_scheme" where
  "set_task t f k = k\<lparr>tasks := (tasks k)(t := f (tasks k t))\<rparr>"

lemma set_task_fields [simp]:
  "cur (set_task t f k) = cur k" "thread_ready_list (set_task t f k) = thread_ready_list k"
  "thread_all_list (set_task t f k) = thread_all_list k" "intr (set_task t f k) = intr k"
  "idle_thread (set_task t f k) = idle_thread k" "main_thread (set_task t f k) = main_thread k"
  "saved_intr (set_task t f k) = saved_intr k" "kernel.more (set_task t f k) = kernel.more k"
  "tasks (set_task t f k) = (tasks k)(t := f (tasks k t))"
  by (simp_all add: set_task_def)

abbreviation status_of :: "'a kernel_scheme \<Rightarrow> tid \<Rightarrow> task_status" where
  "status_of k t \<equiv> status (tasks k t)"

abbreviation sleeping :: "task_status \<Rightarrow> bool" where
  "sleeping st \<equiv> st = TASK_BLOCKED \<or> st = TASK_HANGING \<or> st = TASK_WAITING"

section \<open>The operations\<close>

definition thread_unblock :: "tid \<Rightarrow> 'a kernel_scheme \<Rightarrow> 'a kernel_scheme res" where
  "thread_unblock pthread k =
     (let (old_status, k) = intr_disable k in
      ASSERT (sleeping (status_of k pthread)) ''thread_unblock: status''
       (bnd (if status_of k pthread \<noteq> TASK_READY
             then ASSERT (pthread \<notin> set (thread_ready_list k)) ''!elem_find(&thread_ready_list)''
                   (if pthread \<in> set (thread_ready_list k)
                    then Inl (Panic ''thread unblock, blocked_thread in ready_list'')
                    else Inr (set_task pthread (\<lambda>t. t\<lparr>status := TASK_READY\<rparr>)
                           (k\<lparr>thread_ready_list := pthread # thread_ready_list k\<rparr>)))
             else Inr k)
        (\<lambda>k. Inr (snd (intr_set_status old_status k)))))"

definition page_dir_activate :: "tid \<Rightarrow> 'a kernel_scheme \<Rightarrow> 'a kernel_scheme" where
  "page_dir_activate pthread k = k\<lparr>cr3 := pgdir (tasks k pthread)\<rparr>"

definition update_tss_esp :: "tid \<Rightarrow> 'a kernel_scheme \<Rightarrow> 'a kernel_scheme" where
  "update_tss_esp pthread k = k\<lparr>esp0 := pthread + PG_SIZE\<rparr>"

definition process_activate :: "tid \<Rightarrow> 'a kernel_scheme \<Rightarrow> 'a kernel_scheme res" where
  "process_activate pthread k =
     ASSERT (pthread \<noteq> 0) ''pthread != NULL''
      (let k = page_dir_activate pthread k in
       Inr (if pgdir (tasks k pthread) \<noteq> None then update_tss_esp pthread k else k))"

text \<open>\<open>switch_to\<close> leaves the stack of the old thread for the one of the new thread.\<close>

definition switch_to :: "tid \<Rightarrow> 'a kernel_scheme \<Rightarrow> 'a kernel_scheme" where
  "switch_to new_thread k = k\<lparr>cur := new_thread\<rparr>"

text \<open>The first half of \<open>schedule\<close>: a thread whose time slice is over goes to the end of the queue.\<close>

definition schedule_requeue :: "'a kernel_scheme \<Rightarrow> 'a kernel_scheme res" where
  "schedule_requeue k =
     (let c = running_thread k in
      if status_of k c = TASK_RUNNING
      then ASSERT (c \<notin> set (thread_ready_list k)) ''!elem_find(&thread_ready_list, &cur->general_tag)''
            (Inr (set_task c (\<lambda>t. t\<lparr>ticks := priority t, status := TASK_READY\<rparr>)
                   (k\<lparr>thread_ready_list := thread_ready_list k @ [c]\<rparr>)))
      else Inr k)"

definition schedule :: "'a kernel_scheme \<Rightarrow> 'a kernel_scheme res" where
  "schedule k =
     ASSERT (intr_get_status k = INTR_OFF) ''intr_get_status() == INTR_OFF''
      (bnd (schedule_requeue k) (\<lambda>k.
       bnd (if thread_ready_list k = [] then thread_unblock (idle_thread k) k else Inr k) (\<lambda>k.
       ASSERT (thread_ready_list k \<noteq> []) ''!list_empty(&thread_ready_list)''
        (let next_thread = hd (thread_ready_list k);
             k = k\<lparr>thread_ready_list := tl (thread_ready_list k)\<rparr>;
             k = set_task next_thread (\<lambda>t. t\<lparr>status := TASK_RUNNING\<rparr>) k
         in bnd (process_activate next_thread k) (\<lambda>k. Inr (switch_to next_thread k))))))"

text \<open>
  \<open>thread_block\<close> and \<open>thread_yield\<close> end with \<open>intr_set_status(old_status)\<close>, which a thread
  runs when it gets the processor back. \<open>old_status\<close> is a local of the sleeping thread, kept
  in \<open>saved_intr\<close>; \<open>thread_resume\<close> is that last statement, run by the thread switched to.
\<close>

definition thread_resume :: "'a kernel_scheme \<Rightarrow> 'a kernel_scheme" where
  "thread_resume k = snd (intr_set_status (saved_intr k (cur k)) k)"

definition thread_block :: "task_status \<Rightarrow> 'a kernel_scheme \<Rightarrow> 'a kernel_scheme res" where
  "thread_block statu k =
     ASSERT (sleeping statu) ''thread_block: stat''
      (let (old_status, k) = intr_disable k;
           cur_thread = running_thread k;
           k = set_task cur_thread (\<lambda>t. t\<lparr>status := statu\<rparr>) k;
           k = k\<lparr>saved_intr := (saved_intr k)(cur_thread := old_status)\<rparr>
       in bnd (schedule k) (\<lambda>k. Inr (thread_resume k)))"

definition thread_yield :: "'a kernel_scheme \<Rightarrow> 'a kernel_scheme res" where
  "thread_yield k =
     (let c = running_thread k;
          (old_status, k) = intr_disable k in
      ASSERT (c \<notin> set (thread_ready_list k)) ''!elem_find(&thread_ready_list, &cur->general_tag)''
       (let k = k\<lparr>thread_ready_list := thread_ready_list k @ [c]\<rparr>;
            k = set_task c (\<lambda>t. t\<lparr>status := TASK_READY\<rparr>) k;
            k = k\<lparr>saved_intr := (saved_intr k)(c := old_status)\<rparr>
        in bnd (schedule k) (\<lambda>k. Inr (thread_resume k))))"

text \<open>
  The clock interrupt (\<open>device/timer.c\<close>). The processor masks interrupts on entry, and
  \<open>iret\<close> puts back the flag of the interrupted thread, which was on. \<open>clock\<close> is the
  global tick counter.
\<close>

definition intr_timer_handler :: "u32 \<times> 'a kernel_scheme \<Rightarrow> (u32 \<times> 'a kernel_scheme) res" where
  "intr_timer_handler = (\<lambda>(clock, k).
     let cur_thread = running_thread k in
     ASSERT (stack_magic (tasks k cur_thread) = 0x20050608) ''cur_thread->stack_magic == 0x20050608''
      (let k = set_task cur_thread (\<lambda>t. t\<lparr>elapsed_ticks := elapsed_ticks t + 1\<rparr>) k;
           clock = clock + 1
       in if ticks (tasks k cur_thread) = 0
          then bnd (schedule k) (\<lambda>k. Inr (clock, k))
          else Inr (clock, set_task cur_thread (\<lambda>t. t\<lparr>ticks := ticks t - 1\<rparr>) k)))"

text \<open>Taking the interrupt: entry with interrupts masked, handler, return by \<open>iret\<close>.\<close>

definition clock_interrupt :: "u32 \<times> 'a kernel_scheme \<Rightarrow> (u32 \<times> 'a kernel_scheme) res" where
  "clock_interrupt = (\<lambda>(clock, k).
     let old_status = intr k;
         k = k\<lparr>intr := INTR_OFF, saved_intr := (saved_intr k)(cur k := old_status)\<rparr>
     in bnd (intr_timer_handler (clock, k)) (\<lambda>(clock, k). Inr (clock, thread_resume k)))"

section \<open>The scheduler's invariant\<close>

text \<open>
  Outside \<open>schedule\<close>: the queues hold no thread twice, exactly the running thread has the
  status \<open>TASK_RUNNING\<close>, exactly the threads of the ready queue have \<open>TASK_READY\<close>, and the
  idle thread is running, ready or blocked (it never waits or exits).
\<close>

definition sched_inv :: "'a kernel_scheme \<Rightarrow> bool" where
  "sched_inv k \<longleftrightarrow>
     distinct (thread_ready_list k) \<and> distinct (thread_all_list k) \<and>
     set (thread_ready_list k) \<subseteq> set (thread_all_list k) \<and>
     0 \<notin> set (thread_all_list k) \<and>
     cur k \<in> set (thread_all_list k) \<and> idle_thread k \<in> set (thread_all_list k) \<and>
     (\<forall>t \<in> set (thread_all_list k).
        (status_of k t = TASK_READY \<longleftrightarrow> t \<in> set (thread_ready_list k)) \<and>
        (status_of k t = TASK_RUNNING \<longleftrightarrow> t = cur k)) \<and>
     status_of k (idle_thread k) \<in> {TASK_RUNNING, TASK_READY, TASK_BLOCKED}"


text \<open>
  Inside \<open>schedule\<close>, or on entry from \<open>thread_block\<close>, \<open>thread_exit\<close> and the clock, the
  current thread may already have left the status \<open>TASK_RUNNING\<close> or even the list of all
  threads.
\<close>

definition sched_pre :: "'a kernel_scheme \<Rightarrow> bool" where
  "sched_pre k \<longleftrightarrow>
     distinct (thread_ready_list k) \<and> distinct (thread_all_list k) \<and>
     set (thread_ready_list k) \<subseteq> set (thread_all_list k) \<and>
     0 \<notin> set (thread_all_list k) \<and> idle_thread k \<in> set (thread_all_list k) \<and>
     (\<forall>t \<in> set (thread_all_list k).
        (status_of k t = TASK_READY \<longleftrightarrow> t \<in> set (thread_ready_list k)) \<and>
        (status_of k t = TASK_RUNNING \<longrightarrow> t = cur k)) \<and>
     (status_of k (cur k) = TASK_RUNNING \<longrightarrow> cur k \<in> set (thread_all_list k)) \<and>
     status_of k (idle_thread k) \<in> {TASK_RUNNING, TASK_READY, TASK_BLOCKED}"

text \<open>The queue \<open>schedule\<close> takes the next thread from.\<close>

definition run_queue :: "'a kernel_scheme \<Rightarrow> tid list" where
  "run_queue k =
     (if status_of k (cur k) = TASK_RUNNING then thread_ready_list k @ [cur k]
      else if thread_ready_list k = [] then [idle_thread k] else thread_ready_list k)"

lemma run_queue_nonempty [simp]: "run_queue k \<noteq> []"
  by (simp add: run_queue_def)

lemma sched_inv_pre: "sched_inv k \<Longrightarrow> sched_pre k"
  by (auto simp: sched_inv_def sched_pre_def)

lemma sched_inv_running: "sched_inv k \<Longrightarrow> status_of k (cur k) = TASK_RUNNING"
  by (auto simp: sched_inv_def)

lemma sched_inv_cur_not_ready: "sched_inv k \<Longrightarrow> cur k \<notin> set (thread_ready_list k)"
  by (auto simp: sched_inv_def)

text \<open>What \<open>schedule\<close> leaves alone: everything of a task but its status and its ticks.\<close>

definition task_core :: "task \<Rightarrow> task" where
  "task_core t = t\<lparr>status := TASK_READY, ticks := 0\<rparr>"

definition same_but_sched :: "'a kernel_scheme \<Rightarrow> 'a kernel_scheme \<Rightarrow> bool" where
  "same_but_sched k k' \<longleftrightarrow>
     thread_all_list k' = thread_all_list k \<and> idle_thread k' = idle_thread k \<and>
     main_thread k' = main_thread k \<and>
     (\<forall>t. task_core (tasks k' t) = task_core (tasks k t)) \<and>
     kernel.more k' = kernel.more k"

lemma task_core_simps [simp]:
  "task_core (t\<lparr>status := st\<rparr>) = task_core t" "task_core (t\<lparr>ticks := tk\<rparr>) = task_core t"
  by (simp_all add: task_core_def)

lemma task_core_fields:
  assumes "task_core t = task_core t'"
  shows "self_kstack t = self_kstack t'" "pid t = pid t'" "priority t = priority t'"
    "name t = name t'" "elapsed_ticks t = elapsed_ticks t'" "fd_table t = fd_table t'"
    "pgdir t = pgdir t'" "cwd_inode_nr t = cwd_inode_nr t'" "parent_pid t = parent_pid t'"
    "exit_status t = exit_status t'" "stack_magic t = stack_magic t'"
  using assms by (auto simp: task_core_def dest: arg_cong [where f = self_kstack]
      arg_cong [where f = pid] arg_cong [where f = priority] arg_cong [where f = name]
      arg_cong [where f = elapsed_ticks] arg_cong [where f = fd_table]
      arg_cong [where f = pgdir] arg_cong [where f = cwd_inode_nr]
      arg_cong [where f = parent_pid] arg_cong [where f = exit_status]
      arg_cong [where f = stack_magic])

lemma same_but_sched_refl [simp]: "same_but_sched k k"
  by (simp add: same_but_sched_def)

lemma same_but_sched_trans [trans]:
  "same_but_sched k1 k2 \<Longrightarrow> same_but_sched k2 k3 \<Longrightarrow> same_but_sched k1 k3"
  by (simp add: same_but_sched_def)

lemma process_activate_eq:
  "t \<noteq> 0 \<Longrightarrow> process_activate t k = Inr (k\<lparr>cr3 := pgdir (tasks k t),
     esp0 := (if pgdir (tasks k t) \<noteq> None then t + PG_SIZE else esp0 k)\<rparr>)"
  by (simp add: process_activate_def page_dir_activate_def update_tss_esp_def Let_def)

text \<open>
  The closed form of \<open>schedule\<close>: it never fails on a state of \<open>sched_pre\<close>, and it gives the
  processor to the head of \<open>run_queue\<close>.
\<close>

definition schedule_tasks :: "'a kernel_scheme \<Rightarrow> tid \<Rightarrow> task" where
  "schedule_tasks k =
     (let c = cur k; n = hd (run_queue k);
          T = (if status_of k c = TASK_RUNNING
               then (tasks k)(c := (tasks k c)\<lparr>ticks := priority (tasks k c), status := TASK_READY\<rparr>)
               else tasks k)
      in T(n := (T n)\<lparr>status := TASK_RUNNING\<rparr>))"

lemma idle_asleep_if_no_ready:
  "sched_pre k \<Longrightarrow> thread_ready_list k = [] \<Longrightarrow> status_of k (cur k) \<noteq> TASK_RUNNING \<Longrightarrow>
   status_of k (idle_thread k) = TASK_BLOCKED"
  by (auto simp: sched_pre_def)

lemma run_queue_subset: "sched_pre k \<Longrightarrow> set (run_queue k) \<subseteq> set (thread_all_list k)"
  by (auto simp: run_queue_def sched_pre_def)

lemma run_queue_distinct: "sched_pre k \<Longrightarrow> distinct (run_queue k)"
  by (auto simp: run_queue_def sched_pre_def)

lemma thread_unblock_eq:
  assumes "sleeping (status_of k t)" "t \<notin> set (thread_ready_list k)"
  shows "thread_unblock t k = Inr (set_task t (\<lambda>x. x\<lparr>status := TASK_READY\<rparr>)
           (k\<lparr>thread_ready_list := t # thread_ready_list k\<rparr>))"
  using assms by (cases k) (auto simp: thread_unblock_def Let_def set_task_def)

lemma schedule_closed_form:
  assumes pre: "sched_pre k" and off: "intr k = INTR_OFF"
  shows "schedule k =
    bnd (process_activate (hd (run_queue k))
          (k\<lparr>thread_ready_list := tl (run_queue k), tasks := schedule_tasks k\<rparr>))
      (\<lambda>k'. Inr (switch_to (hd (run_queue k)) k'))"
proof (cases "status_of k (cur k) = TASK_RUNNING")
  case True
  have "cur k \<notin> set (thread_ready_list k)"
    using pre True by (auto simp: sched_pre_def)
  then show ?thesis using True off
    by (simp add: schedule_def schedule_requeue_def running_thread_def Let_def set_task_def
        intr_get_status_def run_queue_def schedule_tasks_def)
next
  case False
  show ?thesis
  proof (cases "thread_ready_list k = []")
    case True
    then have "status_of k (idle_thread k) = TASK_BLOCKED"
      using idle_asleep_if_no_ready [OF pre True False] by simp
    then show ?thesis using True False off
      by (simp add: schedule_def schedule_requeue_def running_thread_def Let_def set_task_def
          thread_unblock_eq intr_get_status_def run_queue_def schedule_tasks_def)
  next
    case ne: False
    then show ?thesis using False off
      by (simp add: schedule_def schedule_requeue_def running_thread_def Let_def set_task_def
          intr_get_status_def run_queue_def schedule_tasks_def)
  qed
qed

lemma schedule_tasks_status:
  "status (schedule_tasks k t) =
     (if t = hd (run_queue k) then TASK_RUNNING
      else if t = cur k \<and> status_of k t = TASK_RUNNING then TASK_READY else status_of k t)"
  by (auto simp: schedule_tasks_def Let_def)

lemma schedule_tasks_core: "task_core (schedule_tasks k t) = task_core (tasks k t)"
  by (auto simp: schedule_tasks_def Let_def)

lemma schedule_inv:
  assumes pre: "sched_pre k" and off: "intr k = INTR_OFF"
  obtains k' where "schedule k = Inr k'" "sched_inv k'" "same_but_sched k k'"
    "cur k' = hd (run_queue k)" "thread_ready_list k' = tl (run_queue k)" "intr k' = INTR_OFF"
    "saved_intr k' = saved_intr k" "tasks k' = schedule_tasks k"
proof -
  obtain n q where q: "run_queue k = n # q" by (cases "run_queue k") auto
  have dq: "distinct (n # q)" and sq: "set (n # q) \<subseteq> set (thread_all_list k)"
    using run_queue_distinct [OF pre] run_queue_subset [OF pre] q by simp_all
  have rdy: "(status (schedule_tasks k t) = TASK_READY) = (t \<in> set q)"
       "(status (schedule_tasks k t) = TASK_RUNNING) = (t = n)"
    if t: "t \<in> set (thread_all_list k)" for t
  proof -
    have run: "status_of k t = TASK_RUNNING \<longrightarrow> t = cur k"
      and rd: "(status_of k t = TASK_READY) = (t \<in> set (thread_ready_list k))"
      using pre t by (auto simp: sched_pre_def)
    show "(status (schedule_tasks k t) = TASK_RUNNING) = (t = n)"
      using run q by (auto simp: schedule_tasks_status)
    have m: "(t \<in> set (run_queue k)) \<longleftrightarrow>
        (status_of k (cur k) = TASK_RUNNING \<and> t = cur k) \<or> t \<in> set (thread_ready_list k) \<or>
        (thread_ready_list k = [] \<and> status_of k (cur k) \<noteq> TASK_RUNNING \<and> t = idle_thread k)"
      by (auto simp: run_queue_def)
    show "(status (schedule_tasks k t) = TASK_READY) = (t \<in> set q)"
    proof (cases "t = n")
      case True
      then show ?thesis using dq q by (simp add: schedule_tasks_status)
    next
      case False
      then have tq: "(t \<in> set q) = (t \<in> set (run_queue k))" using q by simp
      have ti: "\<not> (thread_ready_list k = [] \<and> status_of k (cur k) \<noteq> TASK_RUNNING \<and>
          t = idle_thread k)" using False q by (auto simp: run_queue_def)
      have "status (schedule_tasks k t) = TASK_READY \<longleftrightarrow>
          (t = cur k \<and> status_of k t = TASK_RUNNING) \<or> status_of k t = TASK_READY"
        using False q by (auto simp: schedule_tasks_status)
      then show ?thesis unfolding tq m using ti rd by blast
    qed
  qed
  have "status (schedule_tasks k (idle_thread k)) \<in> {TASK_RUNNING, TASK_READY, TASK_BLOCKED}"
    using pre by (auto simp: schedule_tasks_status sched_pre_def)
  moreover have "n \<in> set (thread_all_list k)" "0 \<notin> set (thread_all_list k)"
    using sq pre by (simp_all add: sched_pre_def)
  then have "n \<noteq> 0" by metis
  then obtain k1 where k1: "process_activate n
       (k\<lparr>thread_ready_list := q, tasks := schedule_tasks k\<rparr>) = Inr k1"
      and k1_eq: "k1 = k\<lparr>thread_ready_list := q, tasks := schedule_tasks k, cr3 := cr3 k1, esp0 := esp0 k1\<rparr>"
    by (simp add: process_activate_eq)
  let ?k' = "switch_to n k1"
  have f: "thread_ready_list ?k' = q" "tasks ?k' = schedule_tasks k" "cur ?k' = n"
      "thread_all_list ?k' = thread_all_list k" "idle_thread ?k' = idle_thread k"
      "main_thread ?k' = main_thread k" "kernel.more ?k' = kernel.more k" "intr ?k' = intr k"
      "saved_intr ?k' = saved_intr k"
    by (subst k1_eq, simp add: switch_to_def)+
  have inv: "sched_inv ?k'" unfolding sched_inv_def f
    using calculation pre dq sq rdy by (auto simp: sched_pre_def)
  have "schedule k = Inr ?k'" using schedule_closed_form [OF assms] k1 q by simp
  moreover have "same_but_sched k ?k'" by (simp add: same_but_sched_def f schedule_tasks_core)
  ultimately show thesis using that [of ?k'] inv f off q by simp
qed


section \<open>What the operations do to a well-formed scheduler\<close>

lemma thread_unblock_inv:
  assumes inv: "sched_inv k" and t: "t \<in> set (thread_all_list k)" "sleeping (status_of k t)"
  obtains k' where "thread_unblock t k = Inr k'" "sched_inv k'" "same_but_sched k k'"
    "thread_ready_list k' = t # thread_ready_list k" "cur k' = cur k" "intr k' = intr k"
    "saved_intr k' = saved_intr k" "status_of k' t = TASK_READY"
    "\<And>u. u \<noteq> t \<Longrightarrow> status_of k' u = status_of k u"
proof -
  let ?k' = "set_task t (\<lambda>x. x\<lparr>status := TASK_READY\<rparr>) (k\<lparr>thread_ready_list := t # thread_ready_list k\<rparr>)"
  have nr: "t \<notin> set (thread_ready_list k)" using inv t by (auto simp: sched_inv_def)
  have tc: "t \<noteq> cur k" using inv t by (auto simp: sched_inv_def)
  have "sched_inv ?k'"
    using inv t nr tc unfolding sched_inv_def by (auto simp: set_task_def)
  moreover have "same_but_sched k ?k'" by (auto simp: same_but_sched_def set_task_def)
  ultimately show thesis
    using that [of ?k'] thread_unblock_eq [OF t(2) nr] by (simp add: set_task_def)
qed

lemma thread_unblock_not_sleeping_panics:
  "\<not> sleeping (status_of k t) \<Longrightarrow> thread_unblock t k = Inl (Panic ''thread_unblock: status'')"
  by (auto simp: thread_unblock_def Let_def ASSERT_def)

text \<open>The thread that takes over when the current one sleeps.\<close>

definition next_if_asleep :: "'a kernel_scheme \<Rightarrow> tid" where
  "next_if_asleep k = (if thread_ready_list k = [] then idle_thread k else hd (thread_ready_list k))"

lemma thread_resume_fields [simp]:
  "cur (thread_resume k) = cur k" "tasks (thread_resume k) = tasks k"
  "thread_ready_list (thread_resume k) = thread_ready_list k"
  "thread_all_list (thread_resume k) = thread_all_list k"
  "idle_thread (thread_resume k) = idle_thread k" "main_thread (thread_resume k) = main_thread k"
  "saved_intr (thread_resume k) = saved_intr k" "intr (thread_resume k) = saved_intr k (cur k)"
  "kernel.more (thread_resume k) = kernel.more k"
  by (simp_all add: thread_resume_def)

lemma sched_inv_resume [simp]: "sched_inv (thread_resume k) = sched_inv k"
  by (simp add: sched_inv_def)

lemma same_but_sched_resume [simp]: "same_but_sched k (thread_resume k') = same_but_sched k k'"
  by (simp add: same_but_sched_def)

lemma sched_pre_asleep:
  assumes "sched_inv k" "sleeping st" "cur k = idle_thread k \<longrightarrow> st = TASK_BLOCKED"
    and k1: "thread_ready_list k1 = thread_ready_list k" "thread_all_list k1 = thread_all_list k"
      "idle_thread k1 = idle_thread k" "cur k1 = cur k"
      "\<And>t. status_of k1 t = (if t = cur k then st else status_of k t)"
  shows "sched_pre k1"
proof -
  have n: "st \<noteq> TASK_RUNNING" "st \<noteq> TASK_READY" using assms(2) by auto
  have b: "distinct (thread_ready_list k)" "distinct (thread_all_list k)"
    "set (thread_ready_list k) \<subseteq> set (thread_all_list k)" "0 \<notin> set (thread_all_list k)"
    "idle_thread k \<in> set (thread_all_list k)"
    "\<forall>t \<in> set (thread_all_list k). (status_of k t = TASK_READY) = (t \<in> set (thread_ready_list k))"
    "\<forall>t \<in> set (thread_all_list k). (status_of k t = TASK_RUNNING) = (t = cur k)"
    "status_of k (idle_thread k) \<in> {TASK_RUNNING, TASK_READY, TASK_BLOCKED}"
    "cur k \<notin> set (thread_ready_list k)"
    using assms(1) sched_inv_cur_not_ready [OF assms(1)] unfolding sched_inv_def by blast+
  have "\<forall>t \<in> set (thread_all_list k1). (status_of k1 t = TASK_READY) = (t \<in> set (thread_ready_list k1))"
    using b(6,9) n by (simp add: k1)
  moreover have "\<forall>t \<in> set (thread_all_list k1). status_of k1 t = TASK_RUNNING \<longrightarrow> t = cur k1"
    using b(7) n by (simp add: k1)
  moreover have "status_of k1 (idle_thread k1) \<in> {TASK_RUNNING, TASK_READY, TASK_BLOCKED}"
    unfolding k1 using b(8) assms(3) by (cases "idle_thread k = cur k") simp_all
  moreover have "status_of k1 (cur k1) \<noteq> TASK_RUNNING" using n by (simp add: k1(4,5))
  ultimately show ?thesis using b(1-5) unfolding sched_pre_def k1(1,2,3) by blast
qed

lemma thread_block_inv:
  assumes inv: "sched_inv k" and st: "sleeping st" "cur k = idle_thread k \<longrightarrow> st = TASK_BLOCKED"
  obtains k' where "thread_block st k = Inr k'" "sched_inv k'" "same_but_sched k k'"
    "cur k' = next_if_asleep k" "thread_ready_list k' = tl (thread_ready_list k)"
    "saved_intr k' = (saved_intr k)(cur k := intr k)" "intr k' = saved_intr k' (cur k')"
    "\<And>t. status_of k' t = (if t = next_if_asleep k then TASK_RUNNING
                            else if t = cur k then st else status_of k t)"
proof -
  define k1 where "k1 = (set_task (cur k) (\<lambda>t. t\<lparr>status := st\<rparr>) (k\<lparr>intr := INTR_OFF\<rparr>))
      \<lparr>saved_intr := (saved_intr k)(cur k := intr k)\<rparr>"
  have f: "thread_ready_list k1 = thread_ready_list k" "thread_all_list k1 = thread_all_list k"
    "idle_thread k1 = idle_thread k" "cur k1 = cur k" "main_thread k1 = main_thread k"
    "saved_intr k1 = (saved_intr k)(cur k := intr k)" "intr k1 = INTR_OFF"
    "kernel.more k1 = kernel.more k"
    "\<And>t. status_of k1 t = (if t = cur k then st else status_of k t)"
    "\<And>t. task_core (tasks k1 t) = task_core (tasks k t)"
    by (simp_all add: k1_def set_task_def)
  have pre: "sched_pre k1" by (rule sched_pre_asleep [OF inv st]) (use f in simp_all)
  have q: "run_queue k1 = (if thread_ready_list k = [] then [idle_thread k] else thread_ready_list k)"
    using st by (auto simp: run_queue_def f)
  obtain k2 where k2: "schedule k1 = Inr k2" "sched_inv k2" "same_but_sched k1 k2"
      "cur k2 = hd (run_queue k1)" "thread_ready_list k2 = tl (run_queue k1)"
      "saved_intr k2 = saved_intr k1" "tasks k2 = schedule_tasks k1"
    using schedule_inv [OF pre] f by metis
  have c2: "cur k2 = next_if_asleep k" using k2(4) q by (simp add: next_if_asleep_def)
  have hq: "hd (run_queue k1) = next_if_asleep k" using c2 k2(4) by simp
  show thesis
  proof (rule that [of "thread_resume k2"])
    show "thread_block st k = Inr (thread_resume k2)"
      using k2(1) st by (simp add: thread_block_def Let_def running_thread_def k1_def)
    show "same_but_sched k (thread_resume k2)"
      using k2(3) by (simp add: same_but_sched_def f)
    show "status_of (thread_resume k2) t = (if t = next_if_asleep k then TASK_RUNNING
        else if t = cur k then st else status_of k t)" for t
      using st by (auto simp: k2(7) schedule_tasks_status hq f)
    show "thread_ready_list (thread_resume k2) = tl (thread_ready_list k)"
      using k2(5) q by simp
  qed (use k2 c2 f in simp_all)
qed

text \<open>
  \<open>thread_yield\<close> turns the ring of the runnable threads by one: the order in which the
  processor is handed out is round robin.
\<close>

lemma thread_yield_inv:
  assumes inv: "sched_inv k"
  obtains k' where "thread_yield k = Inr k'" "sched_inv k'" "same_but_sched k k'"
    "cur k' # thread_ready_list k' = rotate1 (cur k # thread_ready_list k)"
    "saved_intr k' = (saved_intr k)(cur k := intr k)" "intr k' = saved_intr k' (cur k')"
    "\<And>t. status_of k' t = (if t = cur k' then TASK_RUNNING
                            else if t = cur k then TASK_READY else status_of k t)"
proof -
  define k1 where "k1 = (set_task (cur k) (\<lambda>t. t\<lparr>status := TASK_READY\<rparr>)
      (k\<lparr>intr := INTR_OFF, thread_ready_list := thread_ready_list k @ [cur k]\<rparr>))
      \<lparr>saved_intr := (saved_intr k)(cur k := intr k)\<rparr>"
  have f: "thread_ready_list k1 = thread_ready_list k @ [cur k]"
    "thread_all_list k1 = thread_all_list k"
    "idle_thread k1 = idle_thread k" "cur k1 = cur k" "main_thread k1 = main_thread k"
    "saved_intr k1 = (saved_intr k)(cur k := intr k)" "intr k1 = INTR_OFF"
    "kernel.more k1 = kernel.more k"
    "\<And>t. status_of k1 t = (if t = cur k then TASK_READY else status_of k t)"
    "\<And>t. task_core (tasks k1 t) = task_core (tasks k t)"
    by (simp_all add: k1_def set_task_def)
  have nr: "cur k \<notin> set (thread_ready_list k)" by (rule sched_inv_cur_not_ready [OF inv])
  have pre: "sched_pre k1" unfolding sched_pre_def f using inv nr by (auto simp: sched_inv_def)
  have q: "run_queue k1 = thread_ready_list k @ [cur k]" by (simp add: run_queue_def f)
  obtain k2 where k2: "schedule k1 = Inr k2" "sched_inv k2" "same_but_sched k1 k2"
      "cur k2 = hd (run_queue k1)" "thread_ready_list k2 = tl (run_queue k1)"
      "saved_intr k2 = saved_intr k1" "tasks k2 = schedule_tasks k1"
    using schedule_inv [OF pre] f by metis
  show thesis
  proof (rule that [of "thread_resume k2"])
    show "thread_yield k = Inr (thread_resume k2)"
      using k2(1) nr by (simp add: thread_yield_def Let_def running_thread_def k1_def)
    show "same_but_sched k (thread_resume k2)"
      using k2(3) by (simp add: same_but_sched_def f)
    show "cur (thread_resume k2) # thread_ready_list (thread_resume k2)
        = rotate1 (cur k # thread_ready_list k)"
      using k2(4,5) q by simp
    show "status_of (thread_resume k2) t = (if t = cur (thread_resume k2) then TASK_RUNNING
        else if t = cur k then TASK_READY else status_of k t)" for t
      using k2(4) by (auto simp: k2(7) schedule_tasks_status f)
  qed (use k2 f in simp_all)
qed

text \<open>\<open>n\<close> yields in a row, each by the thread that then has the processor.\<close>

fun yields :: "nat \<Rightarrow> 'a kernel_scheme \<Rightarrow> 'a kernel_scheme res" where
  "yields 0 k = Inr k"
| "yields (Suc n) k = bnd (thread_yield k) (yields n)"

lemma yields_rotate:
  "sched_inv k \<Longrightarrow> \<exists>k'. yields n k = Inr k' \<and> sched_inv k' \<and>
     cur k' # thread_ready_list k' = rotate n (cur k # thread_ready_list k)"
proof (induction n arbitrary: k)
  case 0
  then show ?case by simp
next
  case (Suc n)
  obtain k1 where k1: "thread_yield k = Inr k1" "sched_inv k1"
    "cur k1 # thread_ready_list k1 = rotate1 (cur k # thread_ready_list k)"
    using thread_yield_inv [OF Suc.prems] by metis
  from Suc.IH [OF k1(2)] obtain k' where "yields n k1 = Inr k'" "sched_inv k'"
    "cur k' # thread_ready_list k' = rotate n (cur k1 # thread_ready_list k1)" by blast
  then show ?case using k1 by (auto simp: rotate1_rotate_swap)
qed

section \<open>The time slice\<close>

lemma clock_tick_inv:
  assumes inv: "sched_inv k" and magic: "stack_magic (tasks k (cur k)) = 0x20050608"
    and tk: "ticks (tasks k (cur k)) \<noteq> 0"
  obtains k' where "clock_interrupt (c, k) = Inr (c + 1, k')" "sched_inv k'" "cur k' = cur k"
    "thread_ready_list k' = thread_ready_list k" "intr k' = intr k"
    "ticks (tasks k' (cur k)) = ticks (tasks k (cur k)) - 1"
    "stack_magic (tasks k' (cur k)) = 0x20050608"
    "priority (tasks k' (cur k)) = priority (tasks k (cur k))"
    "\<And>t. status_of k' t = status_of k t"
proof -
  let ?k1 = "k\<lparr>intr := INTR_OFF, saved_intr := (saved_intr k)(cur k := intr k),
      tasks := (tasks k)(cur k := (tasks k (cur k))\<lparr>elapsed_ticks := elapsed_ticks (tasks k (cur k)) + 1,
                                    ticks := ticks (tasks k (cur k)) - 1\<rparr>)\<rparr>"
  have "clock_interrupt (c, k) = Inr (c + 1, thread_resume ?k1)"
    using tk magic by (simp add: clock_interrupt_def intr_timer_handler_def running_thread_def
        Let_def set_task_def)
  moreover have "sched_inv (thread_resume ?k1)" using inv by (auto simp: sched_inv_def)
  ultimately show thesis using magic that [of "thread_resume ?k1"] by simp
qed

lemma clock_switch_inv:
  assumes inv: "sched_inv k" and magic: "stack_magic (tasks k (cur k)) = 0x20050608"
    and tk: "ticks (tasks k (cur k)) = 0"
  obtains k' where "clock_interrupt (c, k) = Inr (c + 1, k')" "sched_inv k'"
    "cur k' # thread_ready_list k' = rotate1 (cur k # thread_ready_list k)"
    "ticks (tasks k' (cur k)) = priority (tasks k (cur k))"
    "intr k' = saved_intr k' (cur k')"
proof -
  let ?t = "(tasks k (cur k))\<lparr>elapsed_ticks := elapsed_ticks (tasks k (cur k)) + 1\<rparr>"
  define k1 where "k1 = k\<lparr>intr := INTR_OFF, saved_intr := (saved_intr k)(cur k := intr k),
      tasks := (tasks k)(cur k := ?t)\<rparr>"
  have f: "cur k1 = cur k" "thread_ready_list k1 = thread_ready_list k" "intr k1 = INTR_OFF"
    "tasks k1 = (tasks k)(cur k := ?t)" by (simp_all add: k1_def)
  have inv1: "sched_inv k1" using inv by (auto simp: sched_inv_def k1_def)
  have q: "run_queue k1 = thread_ready_list k @ [cur k]"
    using sched_inv_running [OF inv1] by (simp add: run_queue_def f)
  obtain k2 where k2: "schedule k1 = Inr k2" "sched_inv k2"
      "cur k2 = hd (run_queue k1)" "thread_ready_list k2 = tl (run_queue k1)"
      "tasks k2 = schedule_tasks k1"
    using schedule_inv [OF sched_inv_pre [OF inv1]] f by metis
  have "clock_interrupt (c, k) = Inr (c + 1, thread_resume k2)"
    using k2(1) tk magic by (simp add: clock_interrupt_def intr_timer_handler_def
        running_thread_def Let_def set_task_def k1_def)
  moreover have "ticks (tasks k2 (cur k)) = priority (tasks k (cur k))"
    using sched_inv_running [OF inv1] by (auto simp: k2(5) schedule_tasks_def Let_def f)
  ultimately show thesis using that [of "thread_resume k2"] k2 q by simp
qed

fun clocks :: "nat \<Rightarrow> u32 \<times> 'a kernel_scheme \<Rightarrow> (u32 \<times> 'a kernel_scheme) res" where
  "clocks 0 ck = Inr ck"
| "clocks (Suc n) ck = bnd (clock_interrupt ck) (clocks n)"

text \<open>Until its ticks are used up the thread stays on the processor.\<close>

lemma clocks_keep:
  assumes "sched_inv k" "stack_magic (tasks k (cur k)) = 0x20050608" "i \<le> unat (ticks (tasks k (cur k)))"
  shows "\<exists>k' c'. clocks i (c, k) = Inr (c', k') \<and> cur k' = cur k \<and> thread_ready_list k' = thread_ready_list k \<and>
    unat (ticks (tasks k' (cur k))) = unat (ticks (tasks k (cur k))) - i"
  using assms
proof (induction i arbitrary: k c)
  case 0
  then show ?case by simp
next
  case (Suc i)
  then have t0: "ticks (tasks k (cur k)) \<noteq> 0" by auto
  obtain k1 where k1: "clock_interrupt (c, k) = Inr (c + 1, k1)" "sched_inv k1" "cur k1 = cur k"
    "thread_ready_list k1 = thread_ready_list k" "ticks (tasks k1 (cur k)) = ticks (tasks k (cur k)) - 1"
    "stack_magic (tasks k1 (cur k)) = 0x20050608"
    using clock_tick_inv [OF Suc.prems(1,2) t0] by metis
  have u: "unat (ticks (tasks k1 (cur k))) = unat (ticks (tasks k (cur k))) - 1"
    using t0 k1(5) by (simp add: unat_minus_one)
  then show ?case using Suc.IH [OF k1(2), of "c + 1"] Suc.prems(3) k1 by simp
qed

lemma clocks_slice:
  assumes "sched_inv k" "stack_magic (tasks k (cur k)) = 0x20050608"
    "unat (ticks (tasks k (cur k))) = n"
  shows "\<exists>k' c'. clocks (Suc n) (c, k) = Inr (c', k') \<and> sched_inv k' \<and>
     cur k' # thread_ready_list k' = rotate1 (cur k # thread_ready_list k) \<and>
     ticks (tasks k' (cur k)) = priority (tasks k (cur k))"
  using assms
proof (induction n arbitrary: k c)
  case 0
  then have "ticks (tasks k (cur k)) = 0" by (simp add: unat_eq_0)
  then obtain k' where "clock_interrupt (c, k) = Inr (c + 1, k')" "sched_inv k'"
    "cur k' # thread_ready_list k' = rotate1 (cur k # thread_ready_list k)"
    "ticks (tasks k' (cur k)) = priority (tasks k (cur k))"
    using clock_switch_inv [OF 0(1,2), of c] by metis
  then show ?case by simp
next
  case (Suc n)
  then have t0: "ticks (tasks k (cur k)) \<noteq> 0" by auto
  obtain k1 where k1: "clock_interrupt (c, k) = Inr (c + 1, k1)" "sched_inv k1" "cur k1 = cur k"
    "thread_ready_list k1 = thread_ready_list k"
    "ticks (tasks k1 (cur k)) = ticks (tasks k (cur k)) - 1"
    "stack_magic (tasks k1 (cur k)) = 0x20050608"
    "priority (tasks k1 (cur k)) = priority (tasks k (cur k))"
    using clock_tick_inv [OF Suc.prems(1,2) t0] by metis
  have "unat (ticks (tasks k1 (cur k1))) = n"
    using Suc.prems(3) t0 k1(3,5) by (simp add: unat_minus_one)
  from Suc.IH [OF k1(2) _ this, of "c + 1"] k1
  show ?case by simp
qed

section \<open>A small system, for examples\<close>

text \<open>Three threads beside the idle thread; the thread at 0x1000 runs.\<close>

definition demo_task :: task where
  "demo_task = \<lparr>self_kstack = 0, pid = 1, status = TASK_READY, priority = 2, name = ''demo'',
     ticks = 1, elapsed_ticks = 0, fd_table = [0, 1, 2, -1, -1, -1, -1, -1], pgdir = None,
     cwd_inode_nr = 0, parent_pid = -1, exit_status = 0, stack_magic = 0x20050608\<rparr>"

definition demo_tasks :: "tid \<Rightarrow> task" where
  "demo_tasks = (\<lambda>t. demo_task)(0x1000 := demo_task\<lparr>status := TASK_RUNNING\<rparr>,
                 0x4000 := demo_task\<lparr>status := TASK_BLOCKED\<rparr>)"

definition demo_kernel :: kernel where
  "demo_kernel = \<lparr>intr = INTR_ON, cur = 0x1000, tasks = demo_tasks,
     thread_ready_list = [0x2000, 0x3000], thread_all_list = [0x1000, 0x4000, 0x2000, 0x3000],
     idle_thread = 0x4000, main_thread = 0x1000, saved_intr = (\<lambda>t. INTR_ON), cr3 = None, esp0 = 0\<rparr>"

lemma demo_kernel_inv: "sched_inv demo_kernel"
  by (simp add: sched_inv_def demo_kernel_def demo_tasks_def demo_task_def)

lemmas demo_defs = demo_kernel_def demo_tasks_def demo_task_def

section \<open>Results\<close>

text \<open>
  C4: The scheduler is safe and never stuck. From every consistent state with interrupts off,
  whether the running thread still runs, has just gone to sleep or is gone, \<open>schedule\<close>
  meets none of its \<open>ASSERT\<close>s, and leaves a consistent state: one running thread, the head of
  the queue (the idle thread if nothing else is ready), exactly the threads marked ready in
  the queue, and nothing of any task changed but its status and its ticks.
\<close>

theorem schedule_safe:
  assumes "sched_pre k" "intr k = INTR_OFF"
  shows "\<exists>k'. schedule k = Inr k' \<and> sched_inv k' \<and> cur k' = hd (run_queue k) \<and>
    thread_ready_list k' = tl (run_queue k) \<and> same_but_sched k k'"
  using schedule_inv [OF assms] by metis

lemma schedule_safe_witness:
  "\<exists>k'. schedule (demo_kernel\<lparr>intr := INTR_OFF\<rparr>) = Inr k' \<and> sched_inv k' \<and> cur k' = 0x2000"
proof -
  have pre: "sched_pre (demo_kernel\<lparr>intr := INTR_OFF\<rparr>)"
    by (simp add: sched_pre_def demo_defs)
  show ?thesis using schedule_safe [OF pre]
    by (auto simp: run_queue_def demo_defs)
qed

text \<open>
  C11: Round robin. \<open>n\<close> calls of \<open>thread_yield\<close> in a row, each by the thread that then has the
  processor, turn the ring of the runnable threads (the running one in front of the ready
  queue) by \<open>n\<close> places, so every ready thread gets the processor in its turn.
\<close>

theorem yields_round_robin:
  assumes "sched_inv k"
  shows "\<exists>k'. yields n k = Inr k' \<and> sched_inv k' \<and>
    cur k' # thread_ready_list k' = rotate n (cur k # thread_ready_list k)"
  by (rule yields_rotate [OF assms])

lemma yields_round_robin_witness:
  "\<exists>k'. yields 2 demo_kernel = Inr k' \<and> cur k' # thread_ready_list k' = [0x3000, 0x1000, 0x2000]"
  using yields_round_robin [OF demo_kernel_inv, of 2] by (auto simp: demo_defs numeral_2_eq_2)

text \<open>
  C12: The time slice. A thread with \<open>ticks = n\<close> keeps the processor for \<open>n\<close> clock interrupts: after
  each of them it still runs, with one tick less, and the ready queue is as it was. At the next
  interrupt it goes to the end of the ready queue with its ticks set back to its priority, and
  the head of the queue runs (the same thread again when no other is ready).
\<close>

theorem clock_time_slice:
  assumes "sched_inv k" "stack_magic (tasks k (cur k)) = 0x20050608"
    "unat (ticks (tasks k (cur k))) = n"
  shows "(\<forall>i \<le> n. \<exists>k' c'. clocks i (c, k) = Inr (c', k') \<and> cur k' = cur k \<and>
       thread_ready_list k' = thread_ready_list k \<and> unat (ticks (tasks k' (cur k))) = n - i) \<and>
    (\<exists>k' c'. clocks (Suc n) (c, k) = Inr (c', k') \<and> sched_inv k' \<and>
       cur k' # thread_ready_list k' = rotate1 (cur k # thread_ready_list k) \<and>
       ticks (tasks k' (cur k)) = priority (tasks k (cur k)))"
  using clocks_slice [OF assms] clocks_keep [OF assms(1,2)] assms(3) by blast

lemma clock_time_slice_witness:
  "(\<exists>k' c'. clocks 1 (0, demo_kernel) = Inr (c', k') \<and> cur k' = 0x1000) \<and>
   (\<exists>k' c'. clocks 2 (0, demo_kernel) = Inr (c', k') \<and> cur k' = 0x2000)"
proof -
  have "stack_magic (tasks demo_kernel (cur demo_kernel)) = 0x20050608"
    "unat (ticks (tasks demo_kernel (cur demo_kernel))) = 1" by (simp_all add: demo_defs)
  note c = clock_time_slice [OF demo_kernel_inv this, of 0]
  have "cur demo_kernel = 0x1000" by (simp add: demo_defs)
  then have "\<exists>k' c'. clocks 1 (0, demo_kernel) = Inr (c', k') \<and> cur k' = 0x1000" using conjunct1 [OF c, rule_format, of 1] by auto
  then show ?thesis using conjunct2 [OF c] by (auto simp: demo_defs numeral_2_eq_2)
qed

end
