(* ===== verification/Sync.thy ===== *)
theory Sync
  imports Thread
begin

text \<open>
  \<open>thread/sync.c\<close>: semaphores and the recursive locks built on them, and the system of all
  threads that compete for one lock, interleaved by the scheduler of theory \<open>Thread\<close>.

  Between \<open>intr_disable\<close> and \<open>intr_set_status\<close> the code is atomic; the statements of
  \<open>lock_acquire\<close> and \<open>lock_release\<close> outside of that are not, so the two routines are also
  given in the pieces between which a clock interrupt can switch threads.
\<close>

record semaphore =
  sem_value :: u8
  waiters :: "tid list"

record lock =
  holder :: "tid option"
  sem :: semaphore
  holder_repeat_nr :: u32

definition sema_init :: "u8 \<Rightarrow> semaphore" where
  "sema_init v = \<lparr>sem_value = v, waiters = []\<rparr>"

definition lock_init :: lock where
  "lock_init = \<lparr>holder = None, sem = sema_init 1, holder_repeat_nr = 0\<rparr>"

text \<open>
  One round of the loop of \<open>sema_down\<close>, with the local \<open>old_status\<close>. The result says whether
  the semaphore was taken (\<open>True\<close>: the routine returns) or the thread went to sleep inside
  \<open>thread_block\<close> (\<open>False\<close>: another thread runs now, and this one comes back to the loop
  condition when it is woken).
\<close>

definition sema_down_loop ::
    "intr_status \<Rightarrow> semaphore \<Rightarrow> 'a kernel_scheme \<Rightarrow> (bool \<times> semaphore \<times> 'a kernel_scheme) res" where
  "sema_down_loop old_status psem k =
     (if sem_value psem = 0
      then ASSERT (running_thread k \<notin> set (waiters psem)) ''!elem_find(&psem->waiters)''
            (if running_thread k \<in> set (waiters psem)
             then Inl (Panic ''sema down: thread blocked has been in waiters_list'')
             else let psem = psem\<lparr>waiters := waiters psem @ [running_thread k]\<rparr>
                  in bnd (thread_block TASK_BLOCKED k) (\<lambda>k. Inr (False, psem, k)))
      else let psem = psem\<lparr>sem_value := sem_value psem - 1\<rparr>
           in ASSERT (sem_value psem = 0) ''psem->value == 0''
               (Inr (True, psem, snd (intr_set_status old_status k))))"

definition sema_down :: "semaphore \<Rightarrow> 'a kernel_scheme \<Rightarrow> (bool \<times> semaphore \<times> 'a kernel_scheme) res" where
  "sema_down psem k = (let (old_status, k) = intr_disable k in sema_down_loop old_status psem k)"

definition sema_up :: "semaphore \<Rightarrow> 'a kernel_scheme \<Rightarrow> (semaphore \<times> 'a kernel_scheme) res" where
  "sema_up psem k =
     (let (old_status, k) = intr_disable k in
      ASSERT (sem_value psem = 0) ''psem->value == 0''
       (bnd (if waiters psem \<noteq> []
             then let thread_blocked = hd (waiters psem);
                      psem = psem\<lparr>waiters := tl (waiters psem)\<rparr>
                  in bnd (thread_unblock thread_blocked k) (\<lambda>k. Inr (psem, k))
             else Inr (psem, k))
        (\<lambda>(psem, k).
           let psem = psem\<lparr>sem_value := sem_value psem + 1\<rparr>
           in ASSERT (sem_value psem = 1) ''psem->value == 1''
               (Inr (psem, snd (intr_set_status old_status k))))))"

text \<open>The statements of \<open>lock_acquire\<close> after \<open>sema_down\<close>.\<close>

definition lock_take :: "lock \<Rightarrow> 'a kernel_scheme \<Rightarrow> lock res" where
  "lock_take plock k =
     (let plock = plock\<lparr>holder := Some (running_thread k)\<rparr> in
      ASSERT (holder_repeat_nr plock = 0) ''plock->holder_repeat_nr == 0''
        (Inr (plock\<lparr>holder_repeat_nr := 1\<rparr>)))"

text \<open>
  \<open>lock_acquire\<close> as one call: on a lock that is taken by another thread the caller sleeps,
  which is the stop \<open>Block\<close>.
\<close>

definition lock_acquire :: "lock \<Rightarrow> 'a kernel_scheme \<Rightarrow> (lock \<times> 'a kernel_scheme) res" where
  "lock_acquire plock k =
     (if holder plock \<noteq> Some (running_thread k)
      then bnd (sema_down (sem plock) k) (\<lambda>(taken, s, k).
           if taken then bnd (lock_take (plock\<lparr>sem := s\<rparr>) k) (\<lambda>plock. Inr (plock, k))
           else Inl (Block ''plock->semaphore''))
      else Inr (plock\<lparr>holder_repeat_nr := holder_repeat_nr plock + 1\<rparr>, k))"

text \<open>
  The statements of \<open>lock_release\<close> in front of \<open>sema_up\<close>: \<open>True\<close> when the routine returns
  early because the lock was acquired more than once.
\<close>

definition lock_drop :: "lock \<Rightarrow> 'a kernel_scheme \<Rightarrow> (bool \<times> lock) res" where
  "lock_drop plock k =
     ASSERT (holder plock = Some (running_thread k)) ''plock->holder == running_thread()''
      (if holder_repeat_nr plock > 1
       then Inr (True, plock\<lparr>holder_repeat_nr := holder_repeat_nr plock - 1\<rparr>)
       else ASSERT (holder_repeat_nr plock = 1) ''plock->holder_repeat_nr == 1''
             (Inr (False, plock\<lparr>holder := None, holder_repeat_nr := 0\<rparr>)))"

definition lock_release :: "lock \<Rightarrow> 'a kernel_scheme \<Rightarrow> (lock \<times> 'a kernel_scheme) res" where
  "lock_release plock k =
     bnd (lock_drop plock k) (\<lambda>(early, plock).
     if early then Inr (plock, k)
     else bnd (sema_up (sem plock) k) (\<lambda>(s, k). Inr (plock\<lparr>sem := s\<rparr>, k)))"

section \<open>The threads that compete for a lock\<close>

text \<open>
  Where a thread stands: outside of the lock; in the loop of \<open>sema_down\<close> (with its local
  \<open>old_status\<close>); behind \<open>sema_down\<close> but in front of \<open>plock->holder = ...\<close>; holding the lock;
  behind the statements of \<open>lock_release\<close> that clear the holder, in front of \<open>sema_up\<close>.
\<close>

datatype place = Outside | Down intr_status | Got | Held | Up

record lsys =
  ker :: kernel
  lk :: lock
  place :: "tid \<Rightarrow> place"
  clock :: u32

text \<open>
  What the running thread can do next. \<open>Sleep\<close> and \<open>Wake\<close> stand for all other sleeping and
  waking in the kernel, \<open>Yield\<close> for \<open>thread_yield\<close>, \<open>Tick\<close> for the clock interrupt.
\<close>

datatype act =
  Acquire | Retry | Take | Release | Finish | Tick | Yield | Sleep task_status | Wake tid

definition move :: "tid \<Rightarrow> place \<Rightarrow> lsys \<Rightarrow> lsys" where
  "move t p s = s\<lparr>place := (place s)(t := p)\<rparr>"

fun exec :: "act \<Rightarrow> lsys \<Rightarrow> lsys res" where
  "exec Acquire s =
     (let c = cur (ker s) in
      if holder (lk s) \<noteq> Some c
      then bnd (sema_down (sem (lk s)) (ker s)) (\<lambda>(taken, sm, k).
           Inr (move c (if taken then Got else Down (intr (ker s)))
                 (s\<lparr>ker := k, lk := (lk s)\<lparr>sem := sm\<rparr>\<rparr>)))
      else Inr (s\<lparr>lk := (lk s)\<lparr>holder_repeat_nr := holder_repeat_nr (lk s) + 1\<rparr>\<rparr>))"
| "exec Retry s =
     (let c = cur (ker s) in
      case place s c of
        Down old_status \<Rightarrow>
          bnd (sema_down_loop old_status (sem (lk s)) (ker s)) (\<lambda>(taken, sm, k).
          Inr (move c (if taken then Got else Down old_status)
                (s\<lparr>ker := k, lk := (lk s)\<lparr>sem := sm\<rparr>\<rparr>)))
      | _ \<Rightarrow> Inr s)"
| "exec Take s =
     bnd (lock_take (lk s) (ker s)) (\<lambda>l. Inr (move (cur (ker s)) Held (s\<lparr>lk := l\<rparr>)))"
| "exec Release s =
     bnd (lock_drop (lk s) (ker s)) (\<lambda>(early, l).
     Inr (move (cur (ker s)) (if early then Held else Up) (s\<lparr>lk := l\<rparr>)))"
| "exec Finish s =
     bnd (sema_up (sem (lk s)) (ker s)) (\<lambda>(sm, k).
     Inr (move (cur (ker s)) Outside (s\<lparr>ker := k, lk := (lk s)\<lparr>sem := sm\<rparr>\<rparr>)))"
| "exec Tick s =
     bnd (clock_interrupt (clock s, ker s)) (\<lambda>(c, k). Inr (s\<lparr>ker := k, clock := c\<rparr>))"
| "exec Yield s = bnd (thread_yield (ker s)) (\<lambda>k. Inr (s\<lparr>ker := k\<rparr>))"
| "exec (Sleep st) s = bnd (thread_block st (ker s)) (\<lambda>k. Inr (s\<lparr>ker := k\<rparr>))"
| "exec (Wake t) s = bnd (thread_unblock t (ker s)) (\<lambda>k. Inr (s\<lparr>ker := k\<rparr>))"

definition in_down :: "place \<Rightarrow> bool" where
  "in_down p = (case p of Down _ \<Rightarrow> True | _ \<Rightarrow> False)"

lemma in_down_simps [simp]:
  "in_down (Down old)" "\<not> in_down Outside" "\<not> in_down Got" "\<not> in_down Held" "\<not> in_down Up"
  by (simp_all add: in_down_def)

text \<open>
  When an action can happen: the place of the running thread in the code, an interrupt only
  with the flag set and a PCB that is intact, sleeping elsewhere only outside of the lock's
  own code. The idle thread never takes locks; the nesting of one holder stays below \<open>2^32\<close>.
\<close>

fun enabled :: "act \<Rightarrow> lsys \<Rightarrow> bool" where
  "enabled Acquire s =
     ((place s (cur (ker s)) = Outside \<or>
       place s (cur (ker s)) = Held \<and> holder_repeat_nr (lk s) \<noteq> - 1) \<and>
      cur (ker s) \<noteq> idle_thread (ker s))"
| "enabled Retry s = in_down (place s (cur (ker s)))"
| "enabled Take s = (place s (cur (ker s)) = Got)"
| "enabled Release s = (place s (cur (ker s)) = Held)"
| "enabled Finish s = (place s (cur (ker s)) = Up)"
| "enabled Tick s =
     (intr (ker s) = INTR_ON \<and>
      stack_magic (tasks (ker s) (cur (ker s))) = 0x20050608)"
| "enabled Yield s = (\<not> in_down (place s (cur (ker s))))"
| "enabled (Sleep st) s =
     (place s (cur (ker s)) \<in> {Outside, Held} \<and> sleeping st \<and>
      (cur (ker s) = idle_thread (ker s) \<longrightarrow> st = TASK_BLOCKED))"
| "enabled (Wake t) s =
     (\<not> in_down (place s (cur (ker s))) \<and> t \<in> set (thread_all_list (ker s)) \<and>
      sleeping (status_of (ker s) t) \<and> place s t \<in> {Outside, Held})"

inductive lock_step :: "lsys \<Rightarrow> lsys \<Rightarrow> bool" where
  step: "enabled a s \<Longrightarrow> exec a s = Inr s' \<Longrightarrow> lock_step s s'"

text \<open>The system starts with a fresh lock and every thread outside of it.\<close>

inductive lock_reachable :: "lsys \<Rightarrow> bool" where
  start: "sched_inv (ker s) \<Longrightarrow> lk s = lock_init \<Longrightarrow> \<forall>t. place s t = Outside \<Longrightarrow>
    lock_reachable s"
| more: "lock_reachable s \<Longrightarrow> lock_step s s' \<Longrightarrow> lock_reachable s'"

subsection \<open>The invariant of the lock\<close>

definition owns :: "place \<Rightarrow> bool" where
  "owns p \<longleftrightarrow> p \<in> {Got, Held, Up}"

lemma owns_simps [simp]:
  "\<not> owns (Down old)" "\<not> owns Outside" "owns Got" "owns Held" "owns Up"
  by (simp_all add: owns_def)

lemma in_down_not_owns: "in_down p \<Longrightarrow> \<not> owns p \<and> p \<noteq> Held \<and> p \<noteq> Outside"
  by (cases p) simp_all

definition waiters_ok :: "kernel \<Rightarrow> lock \<Rightarrow> (tid \<Rightarrow> place) \<Rightarrow> bool" where
  "waiters_ok k l pl \<longleftrightarrow>
     distinct (waiters (sem l)) \<and>
     (\<forall>t. t \<in> set (waiters (sem l)) \<longleftrightarrow> in_down (pl t) \<and> status_of k t = TASK_BLOCKED) \<and>
     (\<forall>t. in_down (pl t) \<longrightarrow> status_of k t \<in> {TASK_BLOCKED, TASK_READY, TASK_RUNNING} \<and>
          (if t = cur k then intr k else saved_intr k t) = INTR_OFF)"

definition owner_ok :: "lock \<Rightarrow> (tid \<Rightarrow> place) \<Rightarrow> bool" where
  "owner_ok l pl \<longleftrightarrow>
     (\<forall>t u. owns (pl t) \<and> owns (pl u) \<longrightarrow> t = u) \<and>
     sem_value (sem l) = (if \<exists>t. owns (pl t) then 0 else 1) \<and>
     (\<forall>t. holder l = Some t \<longleftrightarrow> pl t = Held) \<and>
     (holder l = None \<longleftrightarrow> holder_repeat_nr l = 0)"

text \<open>When the lock is free and threads queue for it, one of them is awake and on its way.\<close>

definition wakeup_ok :: "lock \<Rightarrow> (tid \<Rightarrow> place) \<Rightarrow> bool" where
  "wakeup_ok l pl \<longleftrightarrow>
     (sem_value (sem l) = 1 \<and> waiters (sem l) \<noteq> [] \<longrightarrow>
      (\<exists>t. in_down (pl t) \<and> t \<notin> set (waiters (sem l))))"

definition members_ok :: "kernel \<Rightarrow> (tid \<Rightarrow> place) \<Rightarrow> bool" where
  "members_ok k pl \<longleftrightarrow>
     (\<forall>t. pl t \<noteq> Outside \<longrightarrow> t \<in> set (thread_all_list k) \<and> t \<noteq> idle_thread k)"

definition lock_inv :: "lsys \<Rightarrow> bool" where
  "lock_inv s \<longleftrightarrow>
     sched_inv (ker s) \<and> members_ok (ker s) (place s) \<and> waiters_ok (ker s) (lk s) (place s) \<and>
     owner_ok (lk s) (place s) \<and> wakeup_ok (lk s) (place s)"

lemma owner_ok_cong:
  assumes "owner_ok l pl" "\<And>t. owns (pl' t) = owns (pl t)" "\<And>t. (pl' t = Held) = (pl t = Held)"
    and "holder l' = holder l" "holder_repeat_nr l' = holder_repeat_nr l"
      "sem_value (sem l') = sem_value (sem l)"
  shows "owner_ok l' pl'"
  using assms by (simp add: owner_ok_def)

subsection \<open>Every enabled action runs through and keeps the invariant\<close>

lemma move_fields [simp]:
  "ker (move t p s) = ker s" "lk (move t p s) = lk s" "clock (move t p s) = clock s"
  "place (move t p s) = (place s)(t := p)"
  by (simp_all add: move_def)

lemma sema_down_loop_block:
  assumes "sched_inv k" "cur k \<noteq> idle_thread k" "sem_value sm = 0" "cur k \<notin> set (waiters sm)"
  obtains k' where "sema_down_loop old sm k = Inr (False, sm\<lparr>waiters := waiters sm @ [cur k]\<rparr>, k')"
    "sched_inv k'" "same_but_sched k k'" "cur k' = next_if_asleep k"
    "saved_intr k' = (saved_intr k)(cur k := intr k)" "intr k' = saved_intr k' (cur k')"
    "\<And>t. status_of k' t = (if t = next_if_asleep k then TASK_RUNNING
                            else if t = cur k then TASK_BLOCKED else status_of k t)"
proof -
  obtain k' where "thread_block TASK_BLOCKED k = Inr k'" "sched_inv k'" "same_but_sched k k'"
    "cur k' = next_if_asleep k" "saved_intr k' = (saved_intr k)(cur k := intr k)"
    "intr k' = saved_intr k' (cur k')"
    "\<And>t. status_of k' t = (if t = next_if_asleep k then TASK_RUNNING
                            else if t = cur k then TASK_BLOCKED else status_of k t)"
    using thread_block_inv [of k TASK_BLOCKED] assms(1) by metis
  then show thesis using that [of k'] assms by (simp add: sema_down_loop_def running_thread_def Let_def)
qed

lemma sema_down_loop_take:
  "sem_value sm = 1 \<Longrightarrow>
   sema_down_loop old sm k = Inr (True, sm\<lparr>sem_value := 0\<rparr>, k\<lparr>intr := old\<rparr>)"
  by (simp add: sema_down_loop_def)

lemma next_if_asleep_ready:
  assumes "sched_inv k" "cur k \<noteq> idle_thread k"
  shows "next_if_asleep k \<noteq> cur k"
    "next_if_asleep k = idle_thread k \<or> status_of k (next_if_asleep k) = TASK_READY"
proof -
  have "next_if_asleep k \<in> set (thread_ready_list k) \<or> next_if_asleep k = idle_thread k"
    by (simp add: next_if_asleep_def)
  then show "next_if_asleep k \<noteq> cur k"
    "next_if_asleep k = idle_thread k \<or> status_of k (next_if_asleep k) = TASK_READY"
    using assms sched_inv_cur_not_ready [OF assms(1)] by (auto simp: sched_inv_def)
qed

lemma lock_inv_sleep_in_down:
  assumes inv: "lock_inv s" and c: "cur (ker s) \<noteq> idle_thread (ker s)"
    and pl: "place s (cur (ker s)) = Outside \<or> in_down (place s (cur (ker s)))"
    and v: "sem_value (sem (lk s)) = 0"
    and k: "sched_inv k'" "same_but_sched (ker s) k'" "cur k' = next_if_asleep (ker s)"
      "saved_intr k' = (saved_intr (ker s))(cur (ker s) := INTR_OFF)" "intr k' = saved_intr k' (cur k')"
      "\<And>t. status_of k' t = (if t = next_if_asleep (ker s) then TASK_RUNNING
                            else if t = cur (ker s) then TASK_BLOCKED else status_of (ker s) t)"
  shows "lock_inv (move (cur (ker s)) (Down old) (s\<lparr>ker := k', lk := (lk s)\<lparr>sem :=
           (sem (lk s))\<lparr>waiters := waiters (sem (lk s)) @ [cur (ker s)]\<rparr>\<rparr>\<rparr>))" (is "lock_inv ?s")
proof -
  note nx = next_if_asleep_ready [OF _ c]
  have si: "sched_inv (ker s)" using inv by (simp add: lock_inv_def)
  have run: "status_of (ker s) (cur (ker s)) = TASK_RUNNING" by (rule sched_inv_running [OF si])
  have mem: "members_ok (ker s) (place s)" and wt: "waiters_ok (ker s) (lk s) (place s)"
    and ow: "owner_ok (lk s) (place s)" using inv by (simp_all add: lock_inv_def)
  have ncw: "cur (ker s) \<notin> set (waiters (sem (lk s)))" using wt run by (auto simp: waiters_ok_def)
  have ca: "cur (ker s) \<in> set (thread_all_list (ker s))" using si by (simp add: sched_inv_def)
  have same: "thread_all_list k' = thread_all_list (ker s)" "idle_thread k' = idle_thread (ker s)"
    using k(2) by (simp_all add: same_but_sched_def)
  have idle_out: "place s (idle_thread (ker s)) = Outside"
    using mem by (auto simp: members_ok_def)
  have "members_ok (ker ?s) (place ?s)"
    using mem ca c by (auto simp: members_ok_def same)
  moreover have nxt_not_wait: "next_if_asleep (ker s) \<notin> set (waiters (sem (lk s)))"
    using wt nx(2) [OF si] idle_out by (auto simp: waiters_ok_def)
  have "waiters_ok (ker ?s) (lk ?s) (place ?s)"
    using wt ncw nx(1) [OF si] nxt_not_wait run
    by (auto simp: waiters_ok_def k(3-6) split: if_splits)
  moreover have "owner_ok (lk ?s) (place ?s)"
    by (rule owner_ok_cong [OF ow]) (use pl in_down_not_owns in auto)
  moreover have "wakeup_ok (lk ?s) (place ?s)" using v by (simp add: wakeup_ok_def)
  ultimately show ?thesis using k(1) by (simp add: lock_inv_def)
qed

lemma same_but_sched_lists:
  "same_but_sched k k' \<Longrightarrow> thread_all_list k' = thread_all_list k \<and> idle_thread k' = idle_thread k"
  by (simp add: same_but_sched_def)

text \<open>
  An action that only moves the processor on: the running thread is outside of \<open>sema_down\<close>,
  and no thread inside of it is touched.
\<close>

lemma lock_invD:
  assumes "lock_inv s"
  shows "sched_inv (ker s)" "members_ok (ker s) (place s)" "waiters_ok (ker s) (lk s) (place s)"
    "owner_ok (lk s) (place s)" "wakeup_ok (lk s) (place s)"
  using assms by (simp_all add: lock_inv_def)

lemma hd_queue: "hd (xs @ [a]) = a \<or> hd (xs @ [a]) \<in> set xs"
  by (cases xs) simp_all

lemma lock_inv_switch:
  assumes inv: "lock_inv s" and c: "\<not> in_down (place s (cur (ker s)))"
    and k: "sched_inv k'" "thread_all_list k' = thread_all_list (ker s)"
      "idle_thread k' = idle_thread (ker s)"
    and st: "(cur k' = cur (ker s) \<or> cur k' = idle_thread (ker s) \<or>
       cur k' \<in> set (thread_ready_list (ker s))) \<and>
       (\<forall>t. in_down (place s t) \<longrightarrow>
         status_of k' t = (if t = cur k' then TASK_RUNNING else status_of (ker s) t))"
    and sv: "saved_intr k' = (saved_intr (ker s))(cur (ker s) := intr (ker s))"
    and ic: "intr k' = saved_intr k' (cur k')"
  shows "lock_inv (s\<lparr>ker := k'\<rparr>)"
proof -
  note d = lock_invD [OF inv]
  have nc: "t \<noteq> cur (ker s)" "t \<noteq> idle_thread (ker s)" "t \<in> set (thread_all_list (ker s))"
    if "in_down (place s t)" for t
    using that c d(2) in_down_not_owns [OF that] by (auto simp: members_ok_def)
  have rdy: "status_of (ker s) (cur k') = TASK_READY" if "in_down (place s (cur k'))"
    using st nc [OF that] d(1) by (auto simp: sched_inv_def)
  have w: "(t \<in> set (waiters (sem (lk s)))) =
      (in_down (place s t) \<and> status_of k' t = TASK_BLOCKED)" for t
    using d(3) st rdy unfolding waiters_ok_def by (cases "t = cur k'") auto
  have "status_of k' t \<in> {TASK_BLOCKED, TASK_READY, TASK_RUNNING} \<and>
      (if t = cur k' then intr k' else saved_intr k' t) = INTR_OFF" if t: "in_down (place s t)" for t
  proof -
    have "saved_intr k' t = INTR_OFF" using d(3) nc(1) [OF t] t sv
      unfolding waiters_ok_def by (metis fun_upd_apply)
    then show ?thesis using d(3) t st ic by (auto simp: waiters_ok_def)
  qed
  then have "waiters_ok k' (lk s) (place s)" using w d(3) by (simp add: waiters_ok_def)
  then show ?thesis using inv k by (simp add: lock_inv_def members_ok_def)
qed

lemma clock_interrupt_inv:
  assumes inv: "sched_inv k" and magic: "stack_magic (tasks k (cur k)) = 0x20050608"
  obtains k' where "clock_interrupt (c, k) = Inr (c + 1, k')" "sched_inv k'"
    "thread_all_list k' = thread_all_list k" "idle_thread k' = idle_thread k"
    "cur k' = cur k \<and> (\<forall>t. status_of k' t = status_of k t) \<or>
     cur k' = hd (thread_ready_list k @ [cur k]) \<and>
     (\<forall>t. status_of k' t = (if t = cur k' then TASK_RUNNING
                             else if t = cur k then TASK_READY else status_of k t))"
    "saved_intr k' = (saved_intr k)(cur k := intr k)" "intr k' = saved_intr k' (cur k')"
    "kernel.more k' = kernel.more k"
proof -
  define k1 where "k1 = k\<lparr>intr := INTR_OFF, saved_intr := (saved_intr k)(cur k := intr k),
    tasks := (tasks k)(cur k := (tasks k (cur k))\<lparr>elapsed_ticks := elapsed_ticks (tasks k (cur k)) + 1\<rparr>)\<rparr>"
  have f: "cur k1 = cur k" "thread_ready_list k1 = thread_ready_list k" "intr k1 = INTR_OFF"
    "idle_thread k1 = idle_thread k" "thread_all_list k1 = thread_all_list k"
    "saved_intr k1 = (saved_intr k)(cur k := intr k)" "kernel.more k1 = kernel.more k"
    "status_of k1 t = status_of k t" "ticks (tasks k1 t) = ticks (tasks k t)" for t
    by (simp_all add: k1_def)
  have i1: "sched_inv k1" using inv by (auto simp: sched_inv_def k1_def)
  show thesis
  proof (cases "ticks (tasks k (cur k)) = 0")
    case True
    have q: "run_queue k1 = thread_ready_list k @ [cur k]"
      using sched_inv_running [OF i1] by (simp add: run_queue_def f)
    obtain k2 where k2: "schedule k1 = Inr k2" "sched_inv k2" "same_but_sched k1 k2"
      "cur k2 = hd (run_queue k1)" "saved_intr k2 = saved_intr k1" "tasks k2 = schedule_tasks k1"
      using schedule_inv [OF sched_inv_pre [OF i1]] f by metis
    have "clock_interrupt (c, k) = Inr (c + 1, thread_resume k2)"
      using k2(1) True magic by (simp add: clock_interrupt_def intr_timer_handler_def
        running_thread_def Let_def set_task_def k1_def)
    moreover have "\<forall>t. status_of k2 t = (if t = cur k2 then TASK_RUNNING
        else if t = cur k then TASK_READY else status_of k t)"
      using k2(4,6) sched_inv_running [OF inv] by (auto simp: schedule_tasks_status f)
    moreover have "kernel.more k2 = kernel.more k" using k2(3) by (simp add: same_but_sched_def f)
    ultimately show thesis
      using that [of "thread_resume k2"] k2 same_but_sched_lists [OF k2(3)] by (simp add: f q)
  next
    case False
    let ?k2 = "set_task (cur k) (\<lambda>t. t\<lparr>ticks := ticks t - 1\<rparr>) k1"
    have "clock_interrupt (c, k) = Inr (c + 1, thread_resume ?k2)"
      using False magic by (simp add: clock_interrupt_def intr_timer_handler_def running_thread_def
        Let_def set_task_def k1_def)
    moreover have "sched_inv ?k2" using i1 by (auto simp: sched_inv_def f set_task_def)
    ultimately show thesis using that [of "thread_resume ?k2"] by (simp add: f)
  qed
qed

lemma owner_ok_holder: "owner_ok l pl \<Longrightarrow> holder l = Some t \<longleftrightarrow> pl t = Held"
  by (simp add: owner_ok_def)

text \<open>Taking the semaphore: nobody owned the lock, now the running thread does.\<close>

lemma lock_inv_take_sem:
  assumes inv: "lock_inv s" and v: "sem_value (sem (lk s)) \<noteq> 0"
    and pl: "\<not> owns (place s (cur (ker s)))"
    and c: "cur (ker s) \<noteq> idle_thread (ker s)"
  shows "lock_inv (move (cur (ker s)) Got (s\<lparr>ker := (ker s)\<lparr>intr := old\<rparr>, lk := (lk s)\<lparr>sem :=
           (sem (lk s))\<lparr>sem_value := 0\<rparr>\<rparr>\<rparr>))" (is "lock_inv ?s")
proof -
  note d = lock_invD [OF inv]
  have run: "status_of (ker s) (cur (ker s)) = TASK_RUNNING" by (rule sched_inv_running [OF d(1)])
  have no: "\<not> owns (place s t)" for t using d(4) v by (auto simp: owner_ok_def split: if_splits)
  have h: "holder (lk s) = None"
  proof (cases "holder (lk s)")
    case (Some t)
    then have "place s t = Held" using owner_ok_holder [OF d(4)] by simp
    then show ?thesis using no [of t] by simp
  qed simp
  have "sched_inv (ker ?s)" using d(1) by (auto simp: sched_inv_def)
  moreover have "members_ok (ker ?s) (place ?s)"
    using d(1,2) c by (auto simp: members_ok_def sched_inv_def)
  moreover have "waiters_ok (ker ?s) (lk ?s) (place ?s)"
    using d(3) run by (auto simp: waiters_ok_def)
  moreover have "owner_ok (lk ?s) (place ?s)" using d(4) no h by (auto simp: owner_ok_def)
  moreover have "wakeup_ok (lk ?s) (place ?s)" by (simp add: wakeup_ok_def)
  ultimately show ?thesis by (simp add: lock_inv_def)
qed

lemma not_owner_value:
  "owner_ok l pl \<Longrightarrow> sem_value (sem l) = 0 \<or> sem_value (sem l) = 1"
  by (auto simp: owner_ok_def split: if_splits)

lemma cur_not_waiting: "lock_inv s \<Longrightarrow> cur (ker s) \<notin> set (waiters (sem (lk s)))"
  using sched_inv_running [OF lock_invD(1)] lock_invD(3) unfolding waiters_ok_def by fastforce

lemma intr_fields_simps [simp]: "same_but_sched (k\<lparr>intr := i\<rparr>) k' = same_but_sched k k'"
  "sched_inv (k\<lparr>intr := i\<rparr>) = sched_inv k" "next_if_asleep (k\<lparr>intr := i\<rparr>) = next_if_asleep k"
  by (simp_all add: same_but_sched_def sched_inv_def next_if_asleep_def)

lemma lock_inv_intr_off:
  "lock_inv s \<Longrightarrow> lock_inv (s\<lparr>ker := (ker s)\<lparr>intr := INTR_OFF\<rparr>\<rparr>)"
  by (auto simp: lock_inv_def members_ok_def waiters_ok_def)

text \<open>The loop of \<open>sema_down\<close>, entered by \<open>Acquire\<close> or come back to by \<open>Retry\<close>.\<close>

lemma lock_inv_down_loop:
  assumes inv: "lock_inv s" and c: "cur (ker s) \<noteq> idle_thread (ker s)"
    and pl: "place s (cur (ker s)) = Outside \<or> in_down (place s (cur (ker s)))"
    and off: "intr (ker s) = INTR_OFF"
  shows "\<exists>taken sm k'. sema_down_loop old (sem (lk s)) (ker s) = Inr (taken, sm, k') \<and>
    lock_inv (move (cur (ker s)) (if taken then Got else Down old)
               (s\<lparr>ker := k', lk := (lk s)\<lparr>sem := sm\<rparr>\<rparr>))"
proof (cases "sem_value (sem (lk s)) = 0")
  case True
  obtain k' where k0: "sema_down_loop old (sem (lk s)) (ker s) =
        Inr (False, (sem (lk s))\<lparr>waiters := waiters (sem (lk s)) @ [cur (ker s)]\<rparr>, k')"
    "sched_inv k'" "same_but_sched (ker s) k'" "cur k' = next_if_asleep (ker s)"
    "saved_intr k' = (saved_intr (ker s))(cur (ker s) := intr (ker s))" "intr k' = saved_intr k' (cur k')"
    "\<And>t. status_of k' t = (if t = next_if_asleep (ker s) then TASK_RUNNING
                            else if t = cur (ker s) then TASK_BLOCKED else status_of (ker s) t)"
    by (rule sema_down_loop_block [OF lock_invD(1) [OF inv] c True cur_not_waiting [OF inv],
          where old = old]) blast
  note k' = k0 [unfolded off]
  note step = lock_inv_sleep_in_down [OF inv c pl True k'(2-7), of old]
  show ?thesis
    by (rule exI [of _ False], rule exI, rule exI, rule conjI, rule k'(1)) (simp only: if_False step)
next
  case False
  have v: "sem_value (sem (lk s)) = 1" using not_owner_value [OF lock_invD(4) [OF inv]] False by simp
  have "\<not> owns (place s (cur (ker s)))" using pl in_down_not_owns by auto
  note step = lock_inv_take_sem [OF inv False this c, of old]
  show ?thesis
    by (rule exI [of _ True], rule exI, rule exI, rule conjI, rule sema_down_loop_take [OF v])
      (simp only: if_True step)
qed

lemma exec_Acquire:
  assumes inv: "lock_inv s" and en: "enabled Acquire s"
  shows "\<exists>s'. exec Acquire s = Inr s' \<and> lock_inv s'"
proof (cases "place s (cur (ker s)) = Held")
  case True
  note d = lock_invD [OF inv]
  have h: "holder (lk s) = Some (cur (ker s))" using d(4) True by (simp add: owner_ok_def)
  let ?s' = "s\<lparr>lk := (lk s)\<lparr>holder_repeat_nr := holder_repeat_nr (lk s) + 1\<rparr>\<rparr>"
  have "holder_repeat_nr (lk s) + 1 \<noteq> 0" using en True by (auto simp: eq_neg_iff_add_eq_0)
  moreover have "holder_repeat_nr (lk s) \<noteq> 0" using d(4) h by (simp add: owner_ok_def)
  ultimately have "owner_ok (lk ?s') (place ?s')" using d(4) h by (simp add: owner_ok_def)
  then have "lock_inv ?s'"
    using d by (auto simp: lock_inv_def waiters_ok_def wakeup_ok_def)
  then show ?thesis using h by (simp add: Let_def)
next
  case False
  then have out: "place s (cur (ker s)) = Outside" and c: "cur (ker s) \<noteq> idle_thread (ker s)"
    using en by auto
  have h: "holder (lk s) \<noteq> Some (cur (ker s))"
    using lock_invD(4) [OF inv] False by (simp add: owner_ok_def)
  obtain taken sm k' where
    "sema_down_loop (intr (ker s)) (sem (lk s)) ((ker s)\<lparr>intr := INTR_OFF\<rparr>) = Inr (taken, sm, k')"
    "lock_inv (move (cur (ker s)) (if taken then Got else Down (intr (ker s)))
               (s\<lparr>ker := k', lk := (lk s)\<lparr>sem := sm\<rparr>\<rparr>))"
    using lock_inv_down_loop [OF lock_inv_intr_off [OF inv], of "intr (ker s)"] out c by auto
  then show ?thesis using h by (auto simp: Let_def sema_down_def)
qed

lemma exec_Retry:
  assumes inv: "lock_inv s" and en: "enabled Retry s"
  shows "\<exists>s'. exec Retry s = Inr s' \<and> lock_inv s'"
proof -
  note d = lock_invD [OF inv]
  obtain old where old: "place s (cur (ker s)) = Down old"
    using en by (cases "place s (cur (ker s))") auto
  have "intr (ker s) = INTR_OFF" "cur (ker s) \<noteq> idle_thread (ker s)"
    using d(2,3) old by (metis in_down_simps(1) waiters_ok_def,
        metis members_ok_def place.distinct(1))
  then obtain taken sm k' where "sema_down_loop old (sem (lk s)) (ker s) = Inr (taken, sm, k')"
    "lock_inv (move (cur (ker s)) (if taken then Got else Down old)
               (s\<lparr>ker := k', lk := (lk s)\<lparr>sem := sm\<rparr>\<rparr>))"
    using lock_inv_down_loop [OF inv, of old] old by auto
  then show ?thesis by (auto simp: Let_def old)
qed

lemma lock_inv_held:
  assumes inv: "lock_inv s" and pl: "owns (place s (cur (ker s)))" "owns p"
    and l: "sem l' = sem (lk s)"
    and h: "if p = Held then holder l' = Some (cur (ker s)) \<and> holder_repeat_nr l' \<noteq> 0
            else holder l' = None \<and> holder_repeat_nr l' = 0"
  shows "lock_inv (move (cur (ker s)) p (s\<lparr>lk := l'\<rparr>))" (is "lock_inv ?s")
proof -
  note d = lock_invD [OF inv]
  have un: "owns (place s t) \<longleftrightarrow> t = cur (ker s)" for t
    using d(4) pl(1) unfolding owner_ok_def by blast
  have nh: "t \<noteq> cur (ker s) \<Longrightarrow> place s t \<noteq> Held" for t using un [of t] by auto
  have nd: "\<not> in_down p" "\<not> in_down (place s (cur (ker s)))"
    using pl in_down_not_owns by blast+
  have v: "sem_value (sem (lk s)) = 0" using d(4) un by (simp add: owner_ok_def)
  then have "owner_ok l' ((place s)(cur (ker s) := p))"
    using un pl(2) nh l h unfolding owner_ok_def by (auto split: if_splits)
  moreover have "members_ok (ker s) ((place s)(cur (ker s) := p))"
    using d(2) pl(1) owns_simps(2) unfolding members_ok_def by (metis fun_upd_apply)
  moreover have "waiters_ok (ker s) l' ((place s)(cur (ker s) := p))"
    using d(3) nd unfolding waiters_ok_def l by auto
  moreover have "wakeup_ok l' ((place s)(cur (ker s) := p))"
    using v by (simp add: wakeup_ok_def l)
  ultimately show ?thesis using d(1) by (simp add: lock_inv_def)
qed

lemma exec_Take:
  assumes inv: "lock_inv s" and en: "enabled Take s"
  shows "\<exists>s'. exec Take s = Inr s' \<and> lock_inv s'"
proof -
  note d = lock_invD [OF inv]
  have un: "owns (place s t) \<longleftrightarrow> t = cur (ker s)" for t
    using d(4) en unfolding owner_ok_def by auto
  have "holder (lk s) = None"
  proof (cases "holder (lk s)")
    case (Some t)
    then have "place s t = Held" using owner_ok_holder [OF d(4)] by simp
    then show ?thesis using un [of t] en by auto
  qed simp
  then have "holder_repeat_nr (lk s) = 0" using d(4) by (simp add: owner_ok_def)
  then show ?thesis using en lock_inv_held [OF inv, of Held]
    by (simp add: lock_take_def running_thread_def)
qed

lemma word32_one: "\<not> (x::u32) > 1 \<Longrightarrow> x \<noteq> 0 \<Longrightarrow> x = 1"
  by (metis word_less_1 linorder_cases)

lemma exec_Release:
  assumes inv: "lock_inv s" and en: "enabled Release s"
  shows "\<exists>s'. exec Release s = Inr s' \<and> lock_inv s'"
proof -
  note d = lock_invD [OF inv]
  have h: "holder (lk s) = Some (cur (ker s))" using owner_ok_holder [OF d(4)] en by simp
  have n: "holder_repeat_nr (lk s) \<noteq> 0" using d(4) h by (simp add: owner_ok_def)
  show ?thesis
  proof (cases "holder_repeat_nr (lk s) > 1")
    case True
    then have "holder_repeat_nr (lk s) - 1 \<noteq> 0" by auto
    then show ?thesis using en h True lock_inv_held [OF inv, of Held]
      by (simp add: lock_drop_def running_thread_def)
  next
    case False
    then have "holder_repeat_nr (lk s) = 1" using n by (rule word32_one)
    then show ?thesis using en h lock_inv_held [OF inv, of Up]
      by (simp add: lock_drop_def running_thread_def)
  qed
qed

lemma exec_Finish:
  assumes inv: "lock_inv s" and en: "enabled Finish s"
  shows "\<exists>s'. exec Finish s = Inr s' \<and> lock_inv s'"
proof -
  note d = lock_invD [OF inv]
  let ?c = "cur (ker s)" and ?w = "waiters (sem (lk s))"
  have un: "owns (place s t) \<longleftrightarrow> t = ?c" for t
    using d(4) en unfolding owner_ok_def by auto
  have v: "sem_value (sem (lk s)) = 0" using d(4) un by (simp add: owner_ok_def)
  have nh: "place s t \<noteq> Held" for t using un [of t] en by auto
  have h: "holder (lk s) = None" using owner_ok_holder [OF d(4)] nh by (cases "holder (lk s)") auto
  have c: "\<not> in_down (place s ?c)" using en by simp
  have ow: "owner_ok ((lk s)\<lparr>sem := sm\<rparr>) ((place s)(?c := Outside))" if "sem_value sm = 1" for sm
    using d(4) un nh h that by (auto simp: owner_ok_def)
  have mem: "members_ok k ((place s)(?c := Outside))"
    if "thread_all_list k = thread_all_list (ker s)" "idle_thread k = idle_thread (ker s)" for k
    using d(2) that by (auto simp: members_ok_def)
  show ?thesis
  proof (cases ?w)
    case Nil
    let ?sm = "(sem (lk s))\<lparr>sem_value := 1\<rparr>"
    have "exec Finish s = Inr (move ?c Outside (s\<lparr>ker := ker s, lk := (lk s)\<lparr>sem := ?sm\<rparr>\<rparr>))"
      using v Nil by (simp add: sema_up_def Let_def)
    moreover have "waiters_ok (ker s) ((lk s)\<lparr>sem := ?sm\<rparr>) ((place s)(?c := Outside))"
      using d(3) c by (auto simp: waiters_ok_def)
    ultimately show ?thesis using ow [of ?sm] mem [of "ker s"] d(1) Nil
      by (simp add: lock_inv_def wakeup_ok_def)
  next
    case (Cons t w)
    have t: "in_down (place s t)" "status_of (ker s) t = TASK_BLOCKED"
      using d(3) Cons by (auto simp: waiters_ok_def)
    have "t \<in> set (thread_all_list (ker s))" using d(2) in_down_not_owns [OF t(1)]
      by (auto simp: members_ok_def)
    then obtain k' where k': "thread_unblock t ((ker s)\<lparr>intr := INTR_OFF\<rparr>) = Inr k'" "sched_inv k'"
      "same_but_sched (ker s) k'" "cur k' = ?c" "saved_intr k' = saved_intr (ker s)"
      "status_of k' t = TASK_READY" "\<And>u. u \<noteq> t \<Longrightarrow> status_of k' u = status_of (ker s) u"
      using thread_unblock_inv [of "(ker s)\<lparr>intr := INTR_OFF\<rparr>" t] d(1) t(2) by auto
    let ?sm = "(sem (lk s))\<lparr>waiters := w, sem_value := 1\<rparr>" and ?k = "k'\<lparr>intr := intr (ker s)\<rparr>"
    have "exec Finish s = Inr (move ?c Outside (s\<lparr>ker := ?k, lk := (lk s)\<lparr>sem := ?sm\<rparr>\<rparr>))"
      using v Cons k'(1) by (simp add: sema_up_def Let_def)
    moreover have tc: "t \<noteq> ?c" "t \<notin> set w" using t c d(3) Cons by (auto simp: waiters_ok_def)
    have "waiters_ok ?k ((lk s)\<lparr>sem := ?sm\<rparr>) ((place s)(?c := Outside))"
      unfolding waiters_ok_def
    proof (intro conjI allI)
      fix u
      have old: "(u \<in> set ?w) = (in_down (place s u) \<and> status_of (ker s) u = TASK_BLOCKED)"
        "in_down (place s u) \<longrightarrow> status_of (ker s) u \<in> {TASK_BLOCKED, TASK_READY, TASK_RUNNING} \<and>
          (if u = ?c then intr (ker s) else saved_intr (ker s) u) = INTR_OFF"
        using d(3) by (simp_all add: waiters_ok_def)
      show "(u \<in> set (waiters (sem ((lk s)\<lparr>sem := ?sm\<rparr>)))) =
          (in_down (((place s)(?c := Outside)) u) \<and> status_of ?k u = TASK_BLOCKED)"
        using old(1) tc k'(6) k'(7) [of u] Cons c by (cases "u = t") auto
      show "in_down (((place s)(?c := Outside)) u) \<longrightarrow>
          status_of ?k u \<in> {TASK_BLOCKED, TASK_READY, TASK_RUNNING} \<and>
          (if u = cur ?k then intr ?k else saved_intr ?k u) = INTR_OFF"
        using old(2) tc k'(4-6) k'(7) [of u] by (cases "u = t") auto
    qed (use d(3) Cons in \<open>simp add: waiters_ok_def\<close>)
    moreover have "wakeup_ok ((lk s)\<lparr>sem := ?sm\<rparr>) ((place s)(?c := Outside))"
      using t(1) tc by (auto simp: wakeup_ok_def)
    ultimately show ?thesis using ow [of ?sm] mem [of ?k] k'(2) same_but_sched_lists [OF k'(3)]
      by (simp add: lock_inv_def)
  qed
qed

lemma exec_Tick:
  assumes inv: "lock_inv s" and en: "enabled Tick s"
  shows "\<exists>s'. exec Tick s = Inr s' \<and> lock_inv s'"
proof -
  note d = lock_invD [OF inv]
  have magic: "stack_magic (tasks (ker s) (cur (ker s))) = 0x20050608" and "intr (ker s) = INTR_ON"
    using en by simp_all
  then have c: "\<not> in_down (place s (cur (ker s)))" using d(3) by (auto simp: waiters_ok_def)
  obtain k' where k': "clock_interrupt (clock s, ker s) = Inr (clock s + 1, k')" "sched_inv k'"
    "thread_all_list k' = thread_all_list (ker s)" "idle_thread k' = idle_thread (ker s)"
    "cur k' = cur (ker s) \<and> (\<forall>t. status_of k' t = status_of (ker s) t) \<or>
     cur k' = hd (thread_ready_list (ker s) @ [cur (ker s)]) \<and>
     (\<forall>t. status_of k' t = (if t = cur k' then TASK_RUNNING
                             else if t = cur (ker s) then TASK_READY else status_of (ker s) t))"
    "saved_intr k' = (saved_intr (ker s))(cur (ker s) := intr (ker s))"
    "intr k' = saved_intr k' (cur k')"
    by (rule clock_interrupt_inv [OF d(1) magic, of "clock s"])
  have "lock_inv (s\<lparr>ker := k'\<rparr>)"
    by (rule lock_inv_switch [OF inv c k'(2-4) _ k'(6,7)]) (use k'(5) c hd_queue [of "thread_ready_list (ker s)" "cur (ker s)"] in auto)
  then show ?thesis using k'(1) by (auto simp: lock_inv_def)
qed

lemma exec_Yield:
  assumes inv: "lock_inv s" and en: "enabled Yield s"
  shows "\<exists>s'. exec Yield s = Inr s' \<and> lock_inv s'"
proof -
  note d = lock_invD [OF inv]
  have c: "\<not> in_down (place s (cur (ker s)))" using en by simp
  obtain k' where k': "thread_yield (ker s) = Inr k'" "sched_inv k'" "same_but_sched (ker s) k'"
    "cur k' # thread_ready_list k' = rotate1 (cur (ker s) # thread_ready_list (ker s))"
    "saved_intr k' = (saved_intr (ker s))(cur (ker s) := intr (ker s))"
    "intr k' = saved_intr k' (cur k')"
    "\<And>t. status_of k' t = (if t = cur k' then TASK_RUNNING
                            else if t = cur (ker s) then TASK_READY else status_of (ker s) t)"
    using thread_yield_inv [OF d(1)] by metis
  have "cur k' = hd (thread_ready_list (ker s) @ [cur (ker s)])"
    using arg_cong [OF k'(4), of hd] by simp
  then have "lock_inv (s\<lparr>ker := k'\<rparr>)"
    using same_but_sched_lists [OF k'(3)] c hd_queue [of "thread_ready_list (ker s)" "cur (ker s)"]
    by (intro lock_inv_switch [OF inv c k'(2) _ _ _ k'(5,6)]) (auto simp: k'(7))
  then show ?thesis using k'(1) by auto
qed

lemma exec_Sleep:
  assumes inv: "lock_inv s" and en: "enabled (Sleep st) s"
  shows "\<exists>s'. exec (Sleep st) s = Inr s' \<and> lock_inv s'"
proof -
  note d = lock_invD [OF inv]
  have c: "\<not> in_down (place s (cur (ker s)))" and st: "sleeping st"
    "cur (ker s) = idle_thread (ker s) \<longrightarrow> st = TASK_BLOCKED" using en by auto
  obtain k' where k': "thread_block st (ker s) = Inr k'" "sched_inv k'" "same_but_sched (ker s) k'"
    "cur k' = next_if_asleep (ker s)"
    "saved_intr k' = (saved_intr (ker s))(cur (ker s) := intr (ker s))"
    "intr k' = saved_intr k' (cur k')"
    "\<And>t. status_of k' t = (if t = next_if_asleep (ker s) then TASK_RUNNING
                            else if t = cur (ker s) then st else status_of (ker s) t)"
    using thread_block_inv [OF d(1) st] by metis
  have "next_if_asleep (ker s) = idle_thread (ker s) \<or>
      next_if_asleep (ker s) \<in> set (thread_ready_list (ker s))" by (simp add: next_if_asleep_def)
  then have "lock_inv (s\<lparr>ker := k'\<rparr>)"
    using same_but_sched_lists [OF k'(3)] c
    by (intro lock_inv_switch [OF inv c k'(2) _ _ _ k'(5,6)]) (auto simp: k'(4,7))
  then show ?thesis using k'(1) by auto
qed

lemma exec_Wake:
  assumes inv: "lock_inv s" and en: "enabled (Wake t) s"
  shows "\<exists>s'. exec (Wake t) s = Inr s' \<and> lock_inv s'"
proof -
  note d = lock_invD [OF inv]
  obtain k' where k': "thread_unblock t (ker s) = Inr k'" "sched_inv k'" "same_but_sched (ker s) k'"
    "cur k' = cur (ker s)" "intr k' = intr (ker s)" "saved_intr k' = saved_intr (ker s)"
    "\<And>u. u \<noteq> t \<Longrightarrow> status_of k' u = status_of (ker s) u"
    using thread_unblock_inv [OF d(1), of t] en by (metis enabled.simps(9))
  have "status_of k' u = status_of (ker s) u" if "in_down (place s u)" for u
    using k'(7) [of u] en that by (cases "u = t") auto
  then have "waiters_ok k' (lk s) (place s)"
    using d(3) unfolding waiters_ok_def k'(4-6) by metis
  then have "lock_inv (s\<lparr>ker := k'\<rparr>)"
    using d k'(2) same_but_sched_lists [OF k'(3)] by (simp add: lock_inv_def members_ok_def)
  then show ?thesis using k'(1) by auto
qed

lemma exec_enabled:
  assumes "lock_inv s" "enabled a s"
  shows "\<exists>s'. exec a s = Inr s' \<and> lock_inv s'"
  using assms exec_Acquire exec_Retry exec_Take exec_Release exec_Finish exec_Tick exec_Yield
    exec_Sleep exec_Wake by (cases a) blast+

lemma lock_reachable_inv: "lock_reachable s \<Longrightarrow> lock_inv s"
proof (induction rule: lock_reachable.induct)
  case (start s)
  then show ?case
    by (simp add: lock_inv_def members_ok_def waiters_ok_def owner_ok_def wakeup_ok_def
        lock_init_def sema_init_def)
next
  case (more s s')
  then obtain a where "enabled a s" "exec a s = Inr s'" by (auto elim: lock_step.cases)
  then show ?case using exec_enabled [OF more.IH] by force
qed

section \<open>Results\<close>

text \<open>
  C1: Mutual exclusion. In every reachable state of the threads that compete for a lock, at
  most one thread owns it, that is, is between the return of \<open>sema_down\<close> in \<open>lock_acquire\<close> and the
  call of \<open>sema_up\<close> in \<open>lock_release\<close>, whatever the interleaving by yields, clock interrupts,
  sleeps and wake-ups (the idle thread takes no lock, and one thread nests it less than \<open>2 ^ 32\<close> times);
  the semaphore is 0 when some thread owns the lock and 1 when none does; \<open>holder\<close> is the thread that
  has written itself there at the end of \<open>lock_acquire\<close> and not cleared it in \<open>lock_release\<close>.
\<close>

theorem lock_mutual_exclusion:
  assumes "lock_reachable s"
  shows "(\<forall>t u. owns (place s t) \<and> owns (place s u) \<longrightarrow> t = u) \<and>
    sem_value (sem (lk s)) = (if \<exists>t. owns (place s t) then 0 else 1) \<and>
    (\<forall>t. holder (lk s) = Some t \<longleftrightarrow> place s t = Held)"
  using lock_invD(4) [OF lock_reachable_inv [OF assms]] unfolding owner_ok_def by blast

text \<open>A run: the thread at 0x1000 takes the lock, the one at 0x2000 queues for it.\<close>

definition demo_start :: lsys where
  "demo_start = \<lparr>ker = demo_kernel, lk = lock_init, place = (\<lambda>t. Outside), clock = 0\<rparr>"

fun run_acts :: "act list \<Rightarrow> lsys \<Rightarrow> lsys option" where
  "run_acts [] s = Some s"
| "run_acts (a # as) s =
     (if enabled a s then case exec a s of Inr s' \<Rightarrow> run_acts as s' | Inl _ \<Rightarrow> None else None)"

lemma run_acts_reachable:
  "lock_reachable s \<Longrightarrow> run_acts as s = Some s' \<Longrightarrow> lock_reachable s'"
proof (induction as arbitrary: s)
  case Nil
  then show ?case by simp
next
  case (Cons a as)
  then obtain s1 where "enabled a s" "exec a s = Inr s1" "run_acts as s1 = Some s'"
    by (auto split: if_splits sum.splits)
  then show ?case using Cons.IH lock_reachable.more [OF Cons.prems(1)] lock_step.intros by blast
qed

lemma demo_start_reachable: "lock_reachable demo_start"
  by (rule lock_reachable.start) (simp_all add: demo_start_def demo_kernel_inv)

definition demo_run :: "act list \<Rightarrow> lsys" where
  "demo_run as = the (run_acts as demo_start)"

lemma demo_run_reachable: "run_acts as demo_start \<noteq> None \<Longrightarrow> lock_reachable (demo_run as)"
  using run_acts_reachable [OF demo_start_reachable] by (auto simp: demo_run_def)

lemmas run_defs = demo_start_def demo_defs lock_init_def sema_init_def sema_down_def
  sema_down_loop_def sema_up_def lock_take_def lock_drop_def running_thread_def Let_def
  thread_block_def thread_yield_def thread_unblock_def schedule_def schedule_requeue_def
  process_activate_def page_dir_activate_def update_tss_esp_def switch_to_def
  thread_resume_def intr_get_status_def set_task_def move_def

definition demo_acts :: "act list" where
  "demo_acts = [Acquire, Take, Yield, Acquire, Yield, Release, Finish]"

lemma demo_contended:
  "run_acts demo_acts demo_start \<noteq> None"
  "place (demo_run demo_acts) 0x2000 = Down INTR_ON"
  "sem_value (sem (lk (demo_run demo_acts))) = 1"
  "enabled Tick (demo_run demo_acts)"
  by (simp_all add: demo_run_def run_defs demo_acts_def)

lemma demo_taken:
  "run_acts [Acquire, Take] demo_start \<noteq> None"
  "place (demo_run [Acquire, Take]) 0x1000 = Held"
  by (simp_all add: demo_run_def run_defs)

lemma lock_mutual_exclusion_witness:
  "owns (place (demo_run [Acquire, Take]) 0x1000) \<and> \<not> owns (place (demo_run [Acquire, Take]) 0x2000) \<and>
   sem_value (sem (lk (demo_run [Acquire, Take]))) = 0 \<and> holder (lk (demo_run [Acquire, Take])) = Some 0x1000"
proof -
  note m = lock_mutual_exclusion [OF demo_run_reachable [OF demo_taken(1)]]
  have o: "owns (place (demo_run [Acquire, Take]) 0x1000)" using demo_taken(2) by simp
  have "\<not> owns (place (demo_run [Acquire, Take]) 0x2000)"
  proof
    assume "owns (place (demo_run [Acquire, Take]) 0x2000)"
    then have "(0x1000 :: nat) = 0x2000" using m o by blast
    then show False by simp
  qed
  moreover have "\<exists>t. owns (place (demo_run [Acquire, Take]) t)" using o by blast
  then have "sem_value (sem (lk (demo_run [Acquire, Take]))) = 0" using m by simp
  ultimately show ?thesis using m o demo_taken(2) by simp
qed

text \<open>
  C2: The lock never trips over its own checks. Every action the running thread can take in
  a reachable state (acquire, nested acquire, wake up in \<open>sema_down\<close>, release, a clock
  interrupt, a yield, a sleep) runs to its end: none of the \<open>ASSERT\<close>s and \<open>PANIC\<close>s of
  \<open>sync.c\<close>, \<open>thread_block\<close>, \<open>thread_unblock\<close>, \<open>thread_yield\<close> and \<open>schedule\<close> fires.
\<close>

theorem lock_no_assert_fails:
  assumes "lock_reachable s" "enabled a s"
  shows "\<exists>s'. exec a s = Inr s' \<and> lock_reachable s' \<and> sched_inv (ker s')"
proof -
  obtain s' where s': "exec a s = Inr s'" "lock_inv s'"
    using exec_enabled [OF lock_reachable_inv [OF assms(1)] assms(2)] by auto
  then have "lock_reachable s'"
    using assms lock_reachable.more lock_step.intros by blast
  then show ?thesis using s' lock_invD(1) by blast
qed

lemma lock_no_assert_fails_witness:
  "enabled Tick (demo_run demo_acts) \<and> (\<exists>s'. exec Tick (demo_run demo_acts) = Inr s')"
  using lock_no_assert_fails [OF demo_run_reachable [OF demo_contended(1)] demo_contended(4)]
    demo_contended(4) by blast

text \<open>
  C3: No lost wake-up. Whenever the semaphore of a lock is free while some thread is still
  inside \<open>sema_down\<close>, one such thread is awake: it runs or stands in the ready queue, and
  will test the semaphore again.
\<close>

theorem lock_no_lost_wakeup:
  assumes "lock_reachable s" "in_down (place s t)" "sem_value (sem (lk s)) \<noteq> 0"
  shows "\<exists>u. in_down (place s u) \<and>
    (u = cur (ker s) \<or> u \<in> set (thread_ready_list (ker s)))"
proof -
  note d = lock_invD [OF lock_reachable_inv [OF assms(1)]]
  have "sem_value (sem (lk s)) = 1" using not_owner_value [OF d(4)] assms(3) by simp
  then have "\<exists>u. in_down (place s u) \<and> u \<notin> set (waiters (sem (lk s)))"
    using d(5) assms(2) by (cases "waiters (sem (lk s))") (auto simp: wakeup_ok_def)
  then obtain u where u: "in_down (place s u)" "u \<notin> set (waiters (sem (lk s)))" by blast
  then have "status_of (ker s) u = TASK_READY \<or> status_of (ker s) u = TASK_RUNNING"
    using d(3) unfolding waiters_ok_def by blast
  moreover have "u \<in> set (thread_all_list (ker s))"
    using d(2) in_down_not_owns [OF u(1)] by (auto simp: members_ok_def)
  ultimately show ?thesis using d(1) u(1) unfolding sched_inv_def by blast
qed

lemma lock_no_lost_wakeup_witness:
  "\<exists>u. in_down (place (demo_run demo_acts) u) \<and>
    (u = cur (ker (demo_run demo_acts)) \<or> u \<in> set (thread_ready_list (ker (demo_run demo_acts))))"
  by (rule lock_no_lost_wakeup [OF demo_run_reachable [OF demo_contended(1)], where t = "0x2000"])
    (simp_all add: demo_contended)

text \<open>The lock of a component that one thread uses at a time: taken and given back.\<close>

definition lock_free :: "lock \<Rightarrow> bool" where
  "lock_free l \<longleftrightarrow> holder l = None \<and> sem_value (sem l) = 1 \<and> waiters (sem l) = [] \<and>
     holder_repeat_nr l = 0"

lemma lock_free_init [simp]: "lock_free lock_init"
  by (simp add: lock_free_def lock_init_def sema_init_def)

definition lock_taken :: "tid \<Rightarrow> lock \<Rightarrow> lock" where
  "lock_taken t l = l\<lparr>holder := Some t, sem := (sem l)\<lparr>sem_value := 0\<rparr>, holder_repeat_nr := 1\<rparr>"

lemma lock_acquire_free:
  "lock_free l \<Longrightarrow> lock_acquire l k = Inr (lock_taken (cur k) l, k)"
  by (cases k) (simp add: lock_free_def lock_acquire_def sema_down_def sema_down_loop_def
      lock_take_def running_thread_def Let_def lock_taken_def)

lemma lock_release_taken:
  "lock_free l \<Longrightarrow> cur k = t \<Longrightarrow> lock_release (lock_taken t l) k = Inr (l, k)"
  by (cases k; cases l) (simp add: lock_free_def lock_release_def sema_up_def lock_drop_def
      running_thread_def Let_def lock_taken_def)

end
