(* ===== verification/Fifo.thy ===== *)
theory Fifo
  imports Main
begin

text \<open>
  The interface of a first-in first-out queue, as its users rely on it: the waiting lists of
  threads (theory \<open>Klist\<close>) and the ring buffer of characters (theory \<open>Ioqueue\<close>)
  both provide it. \<open>rep s xs\<close> says that the concrete queue \<open>s\<close> holds the elements \<open>xs\<close>,
  \<open>room e xs\<close> that \<open>e\<close> may be put behind \<open>xs\<close>.
\<close>

text \<open>All of a list of elements may be put, one behind the other.\<close>

fun fits :: "('a \<Rightarrow> 'a list \<Rightarrow> bool) \<Rightarrow> 'a list \<Rightarrow> 'a list \<Rightarrow> bool" where
  "fits room xs [] \<longleftrightarrow> True"
| "fits room xs (e # es) \<longleftrightarrow> room e xs \<and> fits room (xs @ [e]) es"

text \<open>\<open>n\<close> elements taken in a row.\<close>

fun takes :: "('s \<Rightarrow> 'a option \<times> 's) \<Rightarrow> nat \<Rightarrow> 's \<Rightarrow> 'a option list \<times> 's" where
  "takes take_fst 0 s = ([], s)"
| "takes take_fst (Suc n) s =
     (let (x, s') = take_fst s; (xs, s'') = takes take_fst n s' in (x # xs, s''))"

locale fifo =
  fixes rep :: "'s \<Rightarrow> 'a list \<Rightarrow> bool"
    and room :: "'a \<Rightarrow> 'a list \<Rightarrow> bool"
    and put_last :: "'a \<Rightarrow> 's \<Rightarrow> 's"
    and take_fst :: "'s \<Rightarrow> 'a option \<times> 's"
  assumes put_rep: "rep s xs \<Longrightarrow> room e xs \<Longrightarrow> rep (put_last e s) (xs @ [e])"
    and take_Nil: "rep s [] \<Longrightarrow> take_fst s = (None, s)"
    and take_Cons: "rep s (x # xs) \<Longrightarrow> \<exists>s'. take_fst s = (Some x, s') \<and> rep s' xs"
begin

lemma puts_rep: "rep s xs \<Longrightarrow> fits room xs es \<Longrightarrow> rep (fold put_last es s) (xs @ es)"
proof (induction es arbitrary: s xs)
  case Nil
  then show ?case by simp
next
  case (Cons e es)
  then show ?case using put_rep [of s xs e] Cons.IH [of "put_last e s" "xs @ [e]"] by simp
qed

lemma takes_rep:
  "rep s (xs @ ys) \<Longrightarrow> \<exists>s'. takes take_fst (length xs) s = (map Some xs, s') \<and> rep s' ys"
proof (induction xs arbitrary: s)
  case Nil
  then show ?case by simp
next
  case (Cons x xs)
  then obtain s1 where s1: "take_fst s = (Some x, s1)" "rep s1 (xs @ ys)"
    using take_Cons [of s x "xs @ ys"] by auto
  from Cons.IH [OF s1(2)] show ?case using s1(1) by (auto simp: Let_def)
qed

text \<open>What goes in comes out, in the same order, and nothing else.\<close>

lemma first_in_first_out:
  assumes "rep s []" "fits room [] es"
  shows "\<exists>s'. takes take_fst (length es) (fold put_last es s) = (map Some es, s') \<and>
    rep s' [] \<and> take_fst s' = (None, s')"
  using takes_rep [of "fold put_last es s" es "[]"] puts_rep [OF assms] take_Nil by fastforce

lemma interleaved:
  assumes "rep s (xs @ ys)" "fits room ys es"
    "takes take_fst (length xs) s = (outs, s')"
  shows "outs = map Some xs \<and> rep (fold put_last es s') (ys @ es)"
  using takes_rep [OF assms(1)] assms(2,3) puts_rep by fastforce

end

end
