(* ===== verification/Klist.thy ===== *)
theory Klist
  imports Interrupt Fifo
begin

text \<open>
  \<open>lib/kernel/list.c\<close>: the intrusive doubly linked lists of the kernel. A \<open>list_elem\<close> is
  embedded in the object it links, so an element is an address; the heap maps an address
  to its two pointers. Memory is total here (address 0, \<open>NULL\<close>, is an ordinary cell: the
  low megabyte is mapped in the kernel). A list is the pair of the addresses of its
  sentinels \<open>head\<close> and \<open>tail\<close>.
\<close>

type_synonym addr = nat

record list_heap = cpu +
  prev :: "addr \<Rightarrow> addr"
  nxt :: "addr \<Rightarrow> addr"

record klist =
  head_elem :: addr
  tail_elem :: addr

definition list_init :: "klist \<Rightarrow> 'a list_heap_scheme \<Rightarrow> 'a list_heap_scheme" where
  "list_init l s =
     (let s = s\<lparr>prev := (prev s)(head_elem l := 0)\<rparr>;
          s = s\<lparr>nxt := (nxt s)(head_elem l := tail_elem l)\<rparr>;
          s = s\<lparr>prev := (prev s)(tail_elem l := head_elem l)\<rparr>
      in s\<lparr>nxt := (nxt s)(tail_elem l := 0)\<rparr>)"

definition list_insert_before ::
    "addr \<Rightarrow> addr \<Rightarrow> 'a list_heap_scheme \<Rightarrow> 'a list_heap_scheme" where
  "list_insert_before before elem s =
     (let (old_status, s) = intr_disable s;
          s = s\<lparr>nxt := (nxt s)(prev s before := elem)\<rparr>;
          s = s\<lparr>prev := (prev s)(elem := prev s before)\<rparr>;
          s = s\<lparr>nxt := (nxt s)(elem := before)\<rparr>;
          s = s\<lparr>prev := (prev s)(before := elem)\<rparr>
      in snd (intr_set_status old_status s))"

definition list_push :: "klist \<Rightarrow> addr \<Rightarrow> 'a list_heap_scheme \<Rightarrow> 'a list_heap_scheme" where
  "list_push l elem s = list_insert_before (nxt s (head_elem l)) elem s"

definition list_append :: "klist \<Rightarrow> addr \<Rightarrow> 'a list_heap_scheme \<Rightarrow> 'a list_heap_scheme" where
  "list_append l elem s = list_insert_before (tail_elem l) elem s"

definition list_remove :: "addr \<Rightarrow> 'a list_heap_scheme \<Rightarrow> 'a list_heap_scheme" where
  "list_remove pelem s =
     (let (old_status, s) = intr_disable s;
          s = s\<lparr>nxt := (nxt s)(prev s pelem := nxt s pelem)\<rparr>;
          s = s\<lparr>prev := (prev s)(nxt s pelem := prev s pelem)\<rparr>
      in snd (intr_set_status old_status s))"

definition list_empty :: "klist \<Rightarrow> 'a list_heap_scheme \<Rightarrow> bool" where
  "list_empty l s \<longleftrightarrow> nxt s (head_elem l) = tail_elem l"

text \<open>\<open>None\<close> is the returned \<open>NULL\<close>.\<close>

definition list_pop ::
    "klist \<Rightarrow> 'a list_heap_scheme \<Rightarrow> addr option \<times> 'a list_heap_scheme" where
  "list_pop l s =
     (if list_empty l s then (None, s)
      else let elem = nxt s (head_elem l) in (Some elem, list_remove elem s))"

text \<open>
  The loops follow \<open>next\<close> pointers until they meet the tail sentinel. On a corrupted heap
  they may run for ever, which is the result \<open>None\<close>.
\<close>

partial_function (option) elem_find_from ::
    "(addr \<Rightarrow> addr) \<Rightarrow> addr \<Rightarrow> addr \<Rightarrow> addr \<Rightarrow> bool option" where
  "elem_find_from next_of end_elem obj mov =
     (if mov = end_elem then Some False
      else if mov = obj then Some True
      else elem_find_from next_of end_elem obj (next_of mov))"

definition elem_find :: "klist \<Rightarrow> addr \<Rightarrow> 'a list_heap_scheme \<Rightarrow> bool option" where
  "elem_find l obj s = elem_find_from (nxt s) (tail_elem l) obj (nxt s (head_elem l))"

text \<open>The callback gets the element and the argument and may change its own state \<open>g\<close>.\<close>

partial_function (option) traverse_from ::
    "(addr \<Rightarrow> addr) \<Rightarrow> addr \<Rightarrow> (addr \<Rightarrow> int \<Rightarrow> 'g \<Rightarrow> bool \<times> 'g) \<Rightarrow> int \<Rightarrow>
     addr \<Rightarrow> 'g \<Rightarrow> (addr option \<times> 'g) option" where
  "traverse_from next_of end_elem func arg elem g =
     (if elem = end_elem then Some (None, g)
      else let (hit, g') = func elem arg g in
        if hit then Some (Some elem, g')
        else traverse_from next_of end_elem func arg (next_of elem) g')"

definition list_traversal ::
    "klist \<Rightarrow> (addr \<Rightarrow> int \<Rightarrow> 'g \<Rightarrow> bool \<times> 'g) \<Rightarrow> int \<Rightarrow> 'a list_heap_scheme \<Rightarrow> 'g \<Rightarrow>
     (addr option \<times> 'g) option" where
  "list_traversal l func arg s g =
     (if list_empty l s then Some (None, g)
      else traverse_from (nxt s) (tail_elem l) func arg (nxt s (head_elem l)) g)"

partial_function (option) list_len_from ::
    "(addr \<Rightarrow> addr) \<Rightarrow> addr \<Rightarrow> addr \<Rightarrow> u32 \<Rightarrow> u32 option" where
  "list_len_from next_of end_elem elem n =
     (if elem = end_elem then Some n
      else list_len_from next_of end_elem (next_of elem) (n + 1))"

definition list_len :: "klist \<Rightarrow> 'a list_heap_scheme \<Rightarrow> u32 option" where
  "list_len l s = list_len_from (nxt s) (tail_elem l) (nxt s (head_elem l)) 0"

section \<open>The abstract view: a HOL list of elements\<close>

text \<open>\<open>chain s a xs b\<close>: following the pointers from \<open>a\<close> gives \<open>xs\<close> and then \<open>b\<close>, both ways.\<close>

fun chain :: "'a list_heap_scheme \<Rightarrow> addr \<Rightarrow> addr list \<Rightarrow> addr \<Rightarrow> bool" where
  "chain s a [] b \<longleftrightarrow> nxt s a = b \<and> prev s b = a"
| "chain s a (x # xs) b \<longleftrightarrow> nxt s a = x \<and> prev s x = a \<and> chain s x xs b"

definition is_klist :: "klist \<Rightarrow> 'a list_heap_scheme \<Rightarrow> addr list \<Rightarrow> bool" where
  "is_klist l s xs \<longleftrightarrow> chain s (head_elem l) xs (tail_elem l) \<and> distinct (head_elem l # xs @ [tail_elem l])"

lemma chain_append: "chain s a (xs @ y # ys) b \<longleftrightarrow> chain s a xs y \<and> chain s y ys b"
  by (induction xs arbitrary: a) auto

text \<open>Only the \<open>next\<close> pointers of \<open>a, xs\<close> and the \<open>prev\<close> pointers of \<open>xs, b\<close> matter.\<close>

lemma chain_cong:
  assumes "\<And>x. x \<in> set (a # xs) \<Longrightarrow> nxt s' x = nxt s x"
    and "\<And>x. x \<in> set (xs @ [b]) \<Longrightarrow> prev s' x = prev s x"
  shows "chain s' a xs b \<longleftrightarrow> chain s a xs b"
  using assms by (induction xs arbitrary: a) auto

lemma is_klist_frame:
  assumes "is_klist l s xs"
    and "\<And>x. x \<in> set (head_elem l # xs) \<Longrightarrow> nxt s' x = nxt s x"
    and "\<And>x. x \<in> set (xs @ [tail_elem l]) \<Longrightarrow> prev s' x = prev s x"
  shows "is_klist l s' xs"
  using assms chain_cong [of "head_elem l" xs s' s "tail_elem l"] by (simp add: is_klist_def)

lemma chain_det: "chain s a xs b \<Longrightarrow> chain s a ys b \<Longrightarrow> b \<notin> set xs \<Longrightarrow> b \<notin> set ys \<Longrightarrow> xs = ys"
proof (induction xs arbitrary: a ys)
  case Nil
  then show ?case by (cases ys) auto
next
  case (Cons x xs)
  then show ?case by (cases ys) auto
qed

lemma is_klist_det: "is_klist l s xs \<Longrightarrow> is_klist l s ys \<Longrightarrow> xs = ys"
  unfolding is_klist_def by (rule chain_det) auto

lemma chain_first: "chain s a xs b \<Longrightarrow> nxt s a = (case xs of [] \<Rightarrow> b | x # _ \<Rightarrow> x)"
  by (cases xs) auto

lemma chain_last: "chain s a xs b \<Longrightarrow> prev s b = (if xs = [] then a else last xs)"
  by (induction xs arbitrary: a) auto

subsection \<open>Insertion and removal\<close>

lemma list_insert_before_fields:
  "nxt (list_insert_before before elem s) = (nxt s)(prev s before := elem, elem := before)"
  "prev (list_insert_before before elem s) = (prev s)(elem := prev s before, before := elem)"
  "intr (list_insert_before before elem s) = intr s"
  by (simp_all add: list_insert_before_def Let_def)

lemma list_remove_fields:
  "nxt (list_remove e s) = (nxt s)(prev s e := nxt s e)"
  "prev (list_remove e s) = (prev s)(((nxt s)(prev s e := nxt s e)) e := prev s e)"
  "intr (list_remove e s) = intr s"
  by (simp_all add: list_remove_def Let_def)


text \<open>A chain whose last pointer is bent from \<open>b\<close> to \<open>e\<close>.\<close>

lemma chain_redirect:
  assumes "chain s a xs b" "distinct (a # xs)"
    and "\<And>x. x \<in> set (butlast (a # xs)) \<Longrightarrow> nxt s' x = nxt s x"
    and "nxt s' (last (a # xs)) = e"
    and "\<And>x. x \<in> set xs \<Longrightarrow> prev s' x = prev s x"
    and "prev s' e = last (a # xs)"
  shows "chain s' a xs e"
  using assms by (induction xs arbitrary: a) auto

lemma in_butlast_Cons:
  "distinct (a # xs) \<Longrightarrow> x \<in> set (butlast (a # xs)) \<Longrightarrow> x \<noteq> last (a # xs) \<and> x \<in> set (a # xs)"
  by (metis append_butlast_last_id butlast_snoc distinct_butlast in_set_butlastD
      list.distinct(1) not_distinct_conv_prefix)

lemma is_klist_insert:
  assumes l: "is_klist l s (xs @ ys)"
    and e: "e \<notin> set (head_elem l # xs @ ys @ [tail_elem l])"
    and b: "before = (case ys of [] \<Rightarrow> tail_elem l | y # _ \<Rightarrow> y)"
  shows "is_klist l (list_insert_before before e s) (xs @ e # ys)"
proof -
  let ?h = "head_elem l" and ?t = "tail_elem l" and ?s' = "list_insert_before before e s"
  have d: "distinct (?h # xs @ ys @ [?t])" using l by (simp add: is_klist_def)
  have c: "chain s ?h xs before"
    using l b by (cases ys) (auto simp: is_klist_def chain_append)
  have p: "prev s before = last (?h # xs)" using chain_last [OF c] by simp
  have dx: "distinct (?h # xs)" using d by auto
  have bn: "before \<notin> set (?h # xs)" using d b by (cases ys) auto
  have eb: "e \<noteq> before" "e \<notin> set (?h # xs)" using e b by (cases ys; auto)+
  have c1: "chain ?s' ?h xs e"
  proof (rule chain_redirect [OF c dx])
    fix x assume "x \<in> set (butlast (?h # xs))"
    then have "x \<noteq> last (?h # xs)" "x \<in> set (?h # xs)" using in_butlast_Cons [OF dx] by auto
    then show "nxt ?s' x = nxt s x" using p eb by (auto simp: list_insert_before_fields)
  next
    show "nxt ?s' (last (?h # xs)) = e" using p eb(2) last_in_set [of "?h # xs"]
      by (auto simp: list_insert_before_fields simp del: last.simps)
  next
    fix x assume "x \<in> set xs"
    then show "prev ?s' x = prev s x" using eb bn by (auto simp: list_insert_before_fields)
  next
    show "prev ?s' e = last (?h # xs)" using p eb by (simp add: list_insert_before_fields)
  qed
  have c2: "chain ?s' e ys ?t"
  proof (cases ys)
    case Nil
    then show ?thesis using b by (simp add: list_insert_before_fields)
  next
    case (Cons y ys')
    have "chain s y ys' ?t" using l Cons by (simp add: is_klist_def chain_append)
    moreover have "nxt ?s' x = nxt s x" if "x \<in> set (y # ys')" for x
      using that e d p Cons last_in_set [of "?h # xs"]
      by (auto simp: list_insert_before_fields simp del: last.simps)
    moreover have "prev ?s' x = prev s x" if "x \<in> set (ys' @ [?t])" for x
      using that e d b Cons by (auto simp: list_insert_before_fields)
    ultimately have "chain ?s' y ys' ?t" using chain_cong [of y ys' ?s' s ?t] by blast
    then show ?thesis using Cons b by (simp add: list_insert_before_fields)
  qed
  show ?thesis using c1 c2 d e by (auto simp: is_klist_def chain_append)
qed

lemma is_klist_push:
  assumes "is_klist l s xs" and "e \<notin> set (head_elem l # xs @ [tail_elem l])"
  shows "is_klist l (list_push l e s) (e # xs)"
  using is_klist_insert [of l s "[]" xs e "nxt s (head_elem l)"] assms chain_first
  by (fastforce simp: list_push_def is_klist_def)

lemma is_klist_append:
  assumes "is_klist l s xs" and "e \<notin> set (head_elem l # xs @ [tail_elem l])"
  shows "is_klist l (list_append l e s) (xs @ [e])"
  using is_klist_insert [of l s xs "[]" e "tail_elem l"] assms by (simp add: list_append_def)

lemma is_klist_remove:
  assumes l: "is_klist l s (xs @ e # ys)"
  shows "is_klist l (list_remove e s) (xs @ ys)"
proof -
  let ?h = "head_elem l" and ?t = "tail_elem l" and ?s' = "list_remove e s"
  have d: "distinct (?h # xs @ e # ys @ [?t])" using l by (simp add: is_klist_def)
  have c: "chain s ?h xs e" "chain s e ys ?t" using l by (auto simp: is_klist_def chain_append)
  have p: "prev s e = last (?h # xs)" using chain_last [OF c(1)] by simp
  have dx: "distinct (?h # xs)" using d by auto
  define f where "f = (case ys of [] \<Rightarrow> ?t | y # _ \<Rightarrow> y)"
  have f: "nxt s e = f" using chain_first [OF c(2)] by (cases ys) (auto simp: f_def)
  have fn: "f \<notin> set (?h # xs)" "f \<noteq> e" using d by (cases ys; auto simp: f_def)+
  have pe: "last (?h # xs) \<noteq> e" using d last_in_set [of "?h # xs"] by auto
  have c1: "chain ?s' ?h xs f"
  proof (rule chain_redirect [OF c(1) dx])
    fix x assume "x \<in> set (butlast (?h # xs))"
    then have "x \<noteq> last (?h # xs)" using in_butlast_Cons [OF dx] by auto
    then show "nxt ?s' x = nxt s x" using p by (auto simp: list_remove_fields)
  next
    fix x assume "x \<in> set xs"
    then show "prev ?s' x = prev s x" using fn f p pe by (auto simp: list_remove_fields)
  qed (use p f pe in \<open>auto simp: list_remove_fields\<close>)
  show ?thesis
  proof (cases ys)
    case Nil
    then show ?thesis using c1 d by (simp add: is_klist_def f_def)
  next
    case (Cons y ys')
    have "chain s y ys' ?t" using c(2) Cons by simp
    moreover have "nxt ?s' x = nxt s x" if "x \<in> set (y # ys')" for x
      using that d p Cons last_in_set [of "?h # xs"]
      by (auto simp: list_remove_fields simp del: last.simps)
    moreover have "prev ?s' x = prev s x" if "x \<in> set (ys' @ [?t])" for x
      using that d f p pe Cons by (auto simp: list_remove_fields f_def)
    ultimately have "chain ?s' y ys' ?t" using chain_cong [of y ys' ?s' s ?t] by blast
    then show ?thesis using Cons c1 d by (simp add: is_klist_def chain_append f_def)
  qed
qed

lemma list_empty_iff: "is_klist l s xs \<Longrightarrow> list_empty l s \<longleftrightarrow> xs = []"
  by (cases xs) (auto simp: is_klist_def list_empty_def)

lemma list_pop_Nil: "is_klist l s [] \<Longrightarrow> list_pop l s = (None, s)"
  by (simp add: list_pop_def list_empty_iff)

lemma list_pop_Cons:
  assumes "is_klist l s (x # xs)"
  shows "list_pop l s = (Some x, list_remove x s)" "is_klist l (list_remove x s) xs"
proof -
  have "nxt s (head_elem l) = x" using assms by (simp add: is_klist_def)
  then show "list_pop l s = (Some x, list_remove x s)"
    using assms by (simp add: list_pop_def list_empty_iff)
  show "is_klist l (list_remove x s) xs" using is_klist_remove [of l s "[]" x xs] assms by simp
qed

lemma is_klist_init:
  "head_elem l \<noteq> tail_elem l \<Longrightarrow> is_klist l (list_init l s) []"
  by (simp add: is_klist_def list_init_def Let_def)

subsection \<open>The loops end on a well-formed list\<close>

lemma elem_find_from_chain:
  "chain s a xs b \<Longrightarrow> b \<notin> set xs \<Longrightarrow>
   elem_find_from (nxt s) b obj (nxt s a) = Some (obj \<in> set xs)"
proof (induction xs arbitrary: a)
  case Nil
  then show ?case by (simp add: elem_find_from.simps)
next
  case (Cons x xs)
  then show ?case by (subst elem_find_from.simps) auto
qed

lemma elem_find_klist: "is_klist l s xs \<Longrightarrow> elem_find l obj s = Some (obj \<in> set xs)"
  by (auto simp: elem_find_def is_klist_def intro: elem_find_from_chain)

text \<open>A traversal over a HOL list: what \<open>list_traversal\<close> computes.\<close>

fun traverse :: "(addr \<Rightarrow> int \<Rightarrow> 'g \<Rightarrow> bool \<times> 'g) \<Rightarrow> int \<Rightarrow> addr list \<Rightarrow> 'g \<Rightarrow> addr option \<times> 'g" where
  "traverse func arg [] g = (None, g)"
| "traverse func arg (x # xs) g =
     (let (hit, g') = func x arg g in if hit then (Some x, g') else traverse func arg xs g')"

lemma traverse_from_chain:
  "chain s a xs b \<Longrightarrow> b \<notin> set xs \<Longrightarrow>
   traverse_from (nxt s) b func arg (nxt s a) g = Some (traverse func arg xs g)"
proof (induction xs arbitrary: a g)
  case Nil
  then show ?case by (simp add: traverse_from.simps)
next
  case (Cons x xs)
  then show ?case by (subst traverse_from.simps) (auto simp: Let_def split: prod.splits)
qed

lemma list_traversal_klist:
  assumes "is_klist l s xs"
  shows "list_traversal l func arg s g = Some (traverse func arg xs g)"
proof (cases "xs = []")
  case True
  then show ?thesis using assms by (simp add: list_traversal_def list_empty_iff)
next
  case False
  then have "\<not> list_empty l s" using assms by (simp add: list_empty_iff)
  then show ?thesis using assms traverse_from_chain [of s "head_elem l" xs "tail_elem l"]
    by (simp add: list_traversal_def is_klist_def)
qed

text \<open>A callback that only looks: the first element with the property, as \<open>find\<close> gives it.\<close>

lemma traverse_find: "traverse (\<lambda>x a g. (p x a, g)) arg xs g = (find (\<lambda>x. p x arg) xs, g)"
  by (induction xs) auto

lemma list_len_from_chain:
  "chain s a xs b \<Longrightarrow> b \<notin> set xs \<Longrightarrow>
   list_len_from (nxt s) b (nxt s a) n = Some (n + of_nat (length xs))"
proof (induction xs arbitrary: a n)
  case Nil
  then show ?case by (simp add: list_len_from.simps)
next
  case (Cons x xs)
  then show ?case by (subst list_len_from.simps) (auto simp: algebra_simps)
qed

lemma list_len_klist: "is_klist l s xs \<Longrightarrow> list_len l s = Some (of_nat (length xs))"
  using list_len_from_chain [of s "head_elem l" xs "tail_elem l" 0]
  by (simp add: list_len_def is_klist_def)

section \<open>The list as a queue\<close>

lemma fifo_klist_laws:
  "is_klist l s xs \<Longrightarrow> e \<notin> set (head_elem l # xs @ [tail_elem l]) \<Longrightarrow>
     is_klist l (list_append l e s) (xs @ [e])"
  "is_klist l s [] \<Longrightarrow> list_pop l s = (None, s)"
  "is_klist l s (x # xs) \<Longrightarrow> \<exists>s'. list_pop l s = (Some x, s') \<and> is_klist l s' xs"
  using is_klist_append list_pop_Nil list_pop_Cons by blast+

interpretation kq: fifo "is_klist l" "\<lambda>e xs. e \<notin> set (head_elem l # xs @ [tail_elem l])"
    "list_append l" "list_pop l" for l
  by unfold_locales (fact fifo_klist_laws)+

text \<open>The elements of two lists in the same memory do not get in each other's way.\<close>

lemma is_klist_append_other:
  assumes "is_klist l s xs" "is_klist l' s ys" "e \<notin> set (head_elem l' # ys @ [tail_elem l'])"
    and "set (head_elem l # xs @ [tail_elem l]) \<inter> set (head_elem l' # ys @ [tail_elem l']) = {}"
  shows "is_klist l' (list_append l e s) ys"
proof (rule is_klist_frame [OF assms(2)])
  have p: "prev s (tail_elem l) \<in> set (head_elem l # xs)"
    using chain_last [of s "head_elem l" xs "tail_elem l"] assms(1) by (auto simp: is_klist_def)
  show "nxt (list_append l e s) x = nxt s x" if "x \<in> set (head_elem l' # ys)" for x
    using that p assms(3,4) by (auto simp: list_append_def list_insert_before_fields)
  show "prev (list_append l e s) x = prev s x" if "x \<in> set (ys @ [tail_elem l'])" for x
    using that assms(3,4) by (auto simp: list_append_def list_insert_before_fields)
qed

section \<open>Results\<close>

text \<open>
  The intrusive lists are queues. Elements appended to an empty list with
  \<open>list_append\<close> are popped by \<open>list_pop\<close> in the same order, and the next \<open>list_pop\<close> returns
  \<open>NULL\<close>; the elements must be different and none of them a sentinel, since an element holds
  its own links.
\<close>

theorem list_append_pop_fifo:
  assumes "head_elem l \<noteq> tail_elem l"
    and "distinct es" "head_elem l \<notin> set es" "tail_elem l \<notin> set es"
  shows "\<exists>s'. takes (list_pop l) (length es) (fold (list_append l) es (list_init l s))
           = (map Some es, s') \<and> list_empty l s' \<and> list_pop l s' = (None, s')"
proof -
  have "fits (\<lambda>e xs. e \<notin> set (head_elem l # xs @ [tail_elem l])) xs es"
    if "distinct (xs @ es)" for xs
    using that assms(3,4) by (induction es arbitrary: xs) auto
  then show ?thesis
    using kq.first_in_first_out [OF is_klist_init [OF assms(1)]] assms(2)
    by (metis append_Nil list_empty_iff)
qed

lemma list_append_pop_fifo_witness:
  "\<exists>s'. takes (list_pop \<lparr>head_elem = 8, tail_elem = 16\<rparr>) 2
     (fold (list_append \<lparr>head_elem = 8, tail_elem = 16\<rparr>) [100, 200]
       (list_init \<lparr>head_elem = 8, tail_elem = 16\<rparr>
         \<lparr>intr = INTR_ON, prev = (\<lambda>a. 0), nxt = (\<lambda>a. 0)\<rparr>)) = ([Some 100, Some 200], s')"
  using list_append_pop_fifo [of "\<lparr>head_elem = 8, tail_elem = 16\<rparr>" "[100, 200]"
      "\<lparr>intr = INTR_ON, prev = (\<lambda>a. 0), nxt = (\<lambda>a. 0)\<rparr>"]
  by (simp add: numeral_2_eq_2) blast

text \<open>
  C18: The pointer operations implement the list operations. On a memory where the links of
  list \<open>l\<close> spell \<open>xs @ e # ys\<close> in both directions, \<open>list_remove\<close> of \<open>e\<close> leaves \<open>xs @ ys\<close>,
  \<open>elem_find\<close> ends and decides membership, \<open>list_len\<close> ends with the length (modulo \<open>2^32\<close>),
  and \<open>list_traversal\<close> ends with the first element its callback accepts.
\<close>

theorem klist_refines_list:
  assumes "is_klist l s (xs @ e # ys)"
  shows "is_klist l (list_remove e s) (xs @ ys) \<and>
    elem_find l obj s = Some (obj \<in> set (xs @ e # ys)) \<and>
    list_len l s = Some (of_nat (length (xs @ e # ys))) \<and>
    list_traversal l (\<lambda>x a g. (p x a, g)) arg s g = Some (find (\<lambda>x. p x arg) (xs @ e # ys), g)"
  using is_klist_remove [OF assms] elem_find_klist [OF assms] list_len_klist [OF assms]
    list_traversal_klist [OF assms, of "\<lambda>x a g. (p x a, g)" arg g]
  by (simp only: traverse_find simp_thms)

lemma klist_refines_list_witness:
  "elem_find \<lparr>head_elem = 8, tail_elem = 16\<rparr> 100
     \<lparr>intr = INTR_ON, prev = (\<lambda>a. 0)(100 := 8, 16 := 100), nxt = (\<lambda>a. 0)(8 := 100, 100 := 16)\<rparr>
   = Some True"
  using klist_refines_list [of "\<lparr>head_elem = 8, tail_elem = 16\<rparr>"
      "\<lparr>intr = INTR_ON, prev = (\<lambda>a. 0)(100 := 8, 16 := 100), nxt = (\<lambda>a. 0)(8 := 100, 100 := 16)\<rparr>"
      "[]" 100 "[]" 100 "\<lambda>x a. True" 0 "()"]
  by (simp add: is_klist_def)

end
