(* ===== verification/Ioqueue.thy ===== *)
theory Ioqueue
  imports Sync Klist
begin

text \<open>
  \<open>device/ioqueue.c\<close>: the ring buffer of characters between one producer and one consumer,
  used by the keyboard driver and by pipes. \<open>buf\<close> has \<open>bufsize\<close> bytes, one of which always
  stays empty to tell a full ring from an empty one. The two loops that wait for room or for
  data put the running thread to sleep: the result \<open>None\<close> of \<open>ioq_getchar\<close> (\<open>False\<close> of
  \<open>ioq_putchar\<close>) says that the thread sleeps in \<open>ioq_wait\<close>, and the \<open>_woken\<close> definition is
  what it runs when it is woken.
\<close>

abbreviation bufsize :: nat where "bufsize \<equiv> 2048"

record ioqueue =
  ioq_lock :: lock
  producer :: "tid option"
  consumer :: "tid option"
  buf :: "u8 list"
  ioq_head :: nat
  ioq_tail :: nat

definition ioqueue_init :: "ioqueue \<Rightarrow> ioqueue" where
  "ioqueue_init q = q\<lparr>ioq_lock := lock_init, producer := None, consumer := None,
     ioq_head := 0, ioq_tail := 0\<rparr>"

definition next_pos :: "nat \<Rightarrow> nat" where
  "next_pos pos = (pos + 1) mod bufsize"

definition ioq_full :: "ioqueue \<Rightarrow> 'a kernel_scheme \<Rightarrow> bool res" where
  "ioq_full q k = ASSERT (intr_get_status k = INTR_OFF) ''intr_get_status() == INTR_OFF''
     (Inr (next_pos (ioq_head q) = ioq_tail q))"

definition ioq_empty :: "ioqueue \<Rightarrow> 'a kernel_scheme \<Rightarrow> bool res" where
  "ioq_empty q k = ASSERT (intr_get_status k = INTR_OFF) ''intr_get_status() == INTR_OFF''
     (Inr (ioq_head q = ioq_tail q))"

definition ioq_wait :: "tid option \<Rightarrow> 'a kernel_scheme \<Rightarrow> (tid option \<times> 'a kernel_scheme) res" where
  "ioq_wait waiter k =
     ASSERT (waiter = None) ''*waiter == NULL && waiter != NULL''
      (let waiter = Some (running_thread k)
       in bnd (thread_block TASK_BLOCKED k) (\<lambda>k. Inr (waiter, k)))"

definition wakeup :: "tid option \<Rightarrow> 'a kernel_scheme \<Rightarrow> (tid option \<times> 'a kernel_scheme) res" where
  "wakeup waiter k =
     (case waiter of
        None \<Rightarrow> Inl (Panic ''*waiter != NULL'')
      | Some t \<Rightarrow> bnd (thread_unblock t k) (\<lambda>k. Inr (None, k)))"

text \<open>The statements of \<open>ioq_getchar\<close> from the condition of its loop on.\<close>

definition ioq_getchar_loop :: "ioqueue \<Rightarrow> 'a kernel_scheme \<Rightarrow> (u8 option \<times> ioqueue \<times> 'a kernel_scheme) res" where
  "ioq_getchar_loop q k =
     bnd (ioq_empty q k) (\<lambda>empty.
     if empty
     then bnd (lock_acquire (ioq_lock q) k) (\<lambda>(l, k).
          bnd (ioq_wait (consumer q) k) (\<lambda>(w, k).
          Inr (None, q\<lparr>ioq_lock := l, consumer := w\<rparr>, k)))
     else let byte = buf q ! ioq_tail q;
              q = q\<lparr>ioq_tail := next_pos (ioq_tail q)\<rparr>
          in if producer q \<noteq> None
             then bnd (wakeup (producer q) k) (\<lambda>(w, k). Inr (Some byte, q\<lparr>producer := w\<rparr>, k))
             else Inr (Some byte, q, k))"

definition ioq_getchar :: "ioqueue \<Rightarrow> 'a kernel_scheme \<Rightarrow> (u8 option \<times> ioqueue \<times> 'a kernel_scheme) res" where
  "ioq_getchar q k = ASSERT (intr_get_status k = INTR_OFF) ''intr_get_status() == INTR_OFF''
     (ioq_getchar_loop q k)"

definition ioq_getchar_woken :: "ioqueue \<Rightarrow> 'a kernel_scheme \<Rightarrow> (u8 option \<times> ioqueue \<times> 'a kernel_scheme) res" where
  "ioq_getchar_woken q k =
     bnd (lock_release (ioq_lock q) k) (\<lambda>(l, k). ioq_getchar_loop (q\<lparr>ioq_lock := l\<rparr>) k)"

definition ioq_putchar_loop :: "u8 \<Rightarrow> ioqueue \<Rightarrow> 'a kernel_scheme \<Rightarrow> (bool \<times> ioqueue \<times> 'a kernel_scheme) res" where
  "ioq_putchar_loop byte q k =
     bnd (ioq_full q k) (\<lambda>full.
     if full
     then bnd (lock_acquire (ioq_lock q) k) (\<lambda>(l, k).
          bnd (ioq_wait (producer q) k) (\<lambda>(w, k).
          Inr (False, q\<lparr>ioq_lock := l, producer := w\<rparr>, k)))
     else GUARD (ioq_head q < length (buf q)) ''ioq->buf''
          (let q = q\<lparr>buf := (buf q)[ioq_head q := byte]\<rparr>;
               q = q\<lparr>ioq_head := next_pos (ioq_head q)\<rparr>
           in if consumer q \<noteq> None
              then bnd (wakeup (consumer q) k) (\<lambda>(w, k). Inr (True, q\<lparr>consumer := w\<rparr>, k))
              else Inr (True, q, k)))"

definition ioq_putchar :: "u8 \<Rightarrow> ioqueue \<Rightarrow> 'a kernel_scheme \<Rightarrow> (bool \<times> ioqueue \<times> 'a kernel_scheme) res" where
  "ioq_putchar byte q k = ASSERT (intr_get_status k = INTR_OFF) ''intr_get_status() == INTR_OFF''
     (ioq_putchar_loop byte q k)"

definition ioq_putchar_woken :: "u8 \<Rightarrow> ioqueue \<Rightarrow> 'a kernel_scheme \<Rightarrow> (bool \<times> ioqueue \<times> 'a kernel_scheme) res" where
  "ioq_putchar_woken byte q k =
     bnd (lock_release (ioq_lock q) k) (\<lambda>(l, k). ioq_putchar_loop byte (q\<lparr>ioq_lock := l\<rparr>) k)"

definition ioq_lenth :: "ioqueue \<Rightarrow> nat" where
  "ioq_lenth q =
     (if ioq_head q \<ge> ioq_tail q then ioq_head q - ioq_tail q
      else bufsize - (ioq_tail q - ioq_head q))"

section \<open>The abstract view: the list of the characters in the ring\<close>

definition wf_ioq :: "ioqueue \<Rightarrow> bool" where
  "wf_ioq q \<longleftrightarrow> length (buf q) = bufsize \<and> ioq_head q < bufsize \<and> ioq_tail q < bufsize"

definition contents :: "ioqueue \<Rightarrow> u8 list" where
  "contents q = map (\<lambda>i. buf q ! ((ioq_tail q + i) mod bufsize)) [0..<ioq_lenth q]"

text \<open>Nobody uses the ring at the moment: no waiter, and its lock is free.\<close>

definition ioq_idle :: "ioqueue \<Rightarrow> bool" where
  "ioq_idle q \<longleftrightarrow> wf_ioq q \<and> producer q = None \<and> consumer q = None \<and> lock_free (ioq_lock q)"

lemma ioq_idle_init: "length (buf q) = bufsize \<Longrightarrow> ioq_idle (ioqueue_init q)"
  by (simp add: ioq_idle_def wf_ioq_def ioqueue_init_def)

lemma contents_init [simp]: "contents (ioqueue_init q) = []"
  by (simp add: contents_def ioqueue_init_def ioq_lenth_def)

lemma ioq_updates [simp]:
  "contents (q\<lparr>ioq_lock := l\<rparr>) = contents q" "contents (q\<lparr>producer := t\<rparr>) = contents q"
  "contents (q\<lparr>consumer := t\<rparr>) = contents q"
  "wf_ioq (q\<lparr>ioq_lock := l\<rparr>) = wf_ioq q" "wf_ioq (q\<lparr>producer := t\<rparr>) = wf_ioq q"
  "wf_ioq (q\<lparr>consumer := t\<rparr>) = wf_ioq q"
  by (simp_all add: contents_def ioq_lenth_def wf_ioq_def)

lemma length_contents [simp]: "length (contents q) = ioq_lenth q"
  by (simp add: contents_def)

lemma ioq_lenth_mod: "wf_ioq q \<Longrightarrow> ioq_head q = (ioq_tail q + ioq_lenth q) mod bufsize"
  by (auto simp: wf_ioq_def ioq_lenth_def mod_if)

lemma ioq_lenth_less: "wf_ioq q \<Longrightarrow> ioq_lenth q < bufsize"
  by (auto simp: wf_ioq_def ioq_lenth_def)

lemma ioq_empty_iff: "wf_ioq q \<Longrightarrow> ioq_head q = ioq_tail q \<longleftrightarrow> contents q = []"
  by (auto simp: wf_ioq_def ioq_lenth_def contents_def split: if_splits)

lemma ioq_full_iff:
  "wf_ioq q \<Longrightarrow> next_pos (ioq_head q) = ioq_tail q \<longleftrightarrow> length (contents q) = bufsize - 1"
  by (auto simp: wf_ioq_def ioq_lenth_def next_pos_def mod_if)

text \<open>Reading one character takes the head of the contents.\<close>

lemma contents_get:
  assumes wf: "wf_ioq q" and ne: "contents q \<noteq> []"
  shows "contents (q\<lparr>ioq_tail := next_pos (ioq_tail q)\<rparr>) = tl (contents q)"
    "buf q ! ioq_tail q = hd (contents q)"
    "wf_ioq (q\<lparr>ioq_tail := next_pos (ioq_tail q)\<rparr>)"
proof -
  let ?q = "q\<lparr>ioq_tail := next_pos (ioq_tail q)\<rparr>"
  have ht: "ioq_head q \<noteq> ioq_tail q" using ioq_empty_iff [OF wf] ne by simp
  then have len: "ioq_lenth q = Suc (ioq_lenth ?q)"
    using wf by (auto simp: wf_ioq_def ioq_lenth_def next_pos_def mod_if)
  have "map (\<lambda>i. buf q ! ((next_pos (ioq_tail q) + i) mod bufsize)) [0..<n] =
      map (\<lambda>i. buf q ! ((ioq_tail q + i) mod bufsize)) [1..<Suc n]" for n
    by (induction n) (simp_all add: next_pos_def mod_simps ac_simps)
  then show "contents ?q = tl (contents q)"
    unfolding contents_def len by (simp add: upt_conv_Cons del: upt_Suc)
  show "buf q ! ioq_tail q = hd (contents q)"
    using wf unfolding contents_def len by (simp add: upt_conv_Cons wf_ioq_def del: upt_Suc)
  show "wf_ioq ?q" using wf by (simp add: wf_ioq_def next_pos_def)
qed

text \<open>Writing one character appends it.\<close>

lemma contents_put:
  assumes wf: "wf_ioq q" and nf: "length (contents q) < bufsize - 1"
    and q': "q' = q\<lparr>buf := (buf q)[ioq_head q := b], ioq_head := next_pos (ioq_head q)\<rparr>"
  shows "contents q' = contents q @ [b]" "wf_ioq q'"
proof -
  have nx: "next_pos (ioq_head q) \<noteq> ioq_tail q" using ioq_full_iff [OF wf] nf by simp
  then have len: "ioq_lenth q' = Suc (ioq_lenth q)"
    using wf by (auto simp: q' wf_ioq_def ioq_lenth_def next_pos_def mod_if split: if_splits)
  have hd: "ioq_head q = (ioq_tail q + ioq_lenth q) mod bufsize" by (rule ioq_lenth_mod [OF wf])
  have ne: "ioq_head q \<noteq> (ioq_tail q + i) mod bufsize" if "i < ioq_lenth q" for i
  proof -
    have "ioq_lenth q < bufsize" by (rule ioq_lenth_less [OF wf])
    then show ?thesis using that wf unfolding hd wf_ioq_def by (auto simp: mod_if)
  qed
  show "contents q' = contents q @ [b]"
    using wf ne hd [symmetric] unfolding contents_def len
    by (auto simp: q' wf_ioq_def)
  show "wf_ioq q'" using wf by (simp add: q' wf_ioq_def next_pos_def)
qed

section \<open>What the operations do\<close>

lemma ioq_getchar_nonempty:
  assumes "wf_ioq q" "producer q = None" "intr k = INTR_OFF" "contents q = b # bs"
  obtains q' where "ioq_getchar_loop q k = Inr (Some b, q', k)" "wf_ioq q'" "contents q' = bs"
    "producer q' = None" "consumer q' = consumer q" "ioq_lock q' = ioq_lock q"
proof -
  have "ioq_head q \<noteq> ioq_tail q" using ioq_empty_iff [OF assms(1)] assms(4) by simp
  then show thesis
    using that [of "q\<lparr>ioq_tail := next_pos (ioq_tail q)\<rparr>"] contents_get [OF assms(1)] assms
    by (simp add: ioq_getchar_loop_def ioq_empty_def intr_get_status_def Let_def)
qed

lemma ioq_putchar_not_full:
  assumes "wf_ioq q" "intr k = INTR_OFF" "length (contents q) < bufsize - 1"
  shows "\<exists>q'. ioq_putchar b q k =
      (if consumer q \<noteq> None
       then bnd (wakeup (consumer q) k) (\<lambda>(w, k). Inr (True, q'\<lparr>consumer := w\<rparr>, k))
       else Inr (True, q', k)) \<and>
    wf_ioq q' \<and> contents q' = contents q @ [b] \<and> producer q' = producer q \<and>
    consumer q' = consumer q \<and> ioq_lock q' = ioq_lock q"
proof -
  have "next_pos (ioq_head q) \<noteq> ioq_tail q" using ioq_full_iff [OF assms(1)] assms(3) by simp
  moreover have "ioq_head q < length (buf q)" using assms(1) by (simp add: wf_ioq_def)
  ultimately show ?thesis using contents_put [OF assms(1,3) refl, of b] assms(2)
    by (intro exI [of _ "q\<lparr>buf := (buf q)[ioq_head q := b], ioq_head := next_pos (ioq_head q)\<rparr>"])
      (simp add: ioq_putchar_def ioq_putchar_loop_def ioq_full_def intr_get_status_def Let_def)
qed

subsection \<open>The ring as a queue\<close>

definition ring_put :: "u8 \<Rightarrow> ioqueue \<times> kernel \<Rightarrow> ioqueue \<times> kernel" where
  "ring_put b = (\<lambda>(q, k). case ioq_putchar b q k of Inr (_, s) \<Rightarrow> s | Inl _ \<Rightarrow> (q, k))"

definition ring_take :: "ioqueue \<times> kernel \<Rightarrow> u8 option \<times> (ioqueue \<times> kernel)" where
  "ring_take = (\<lambda>(q, k). case ioq_getchar q k of
     Inr (Some b, s) \<Rightarrow> (Some b, s) | _ \<Rightarrow> (None, (q, k)))"

definition ring_rep :: "ioqueue \<times> kernel \<Rightarrow> u8 list \<Rightarrow> bool" where
  "ring_rep = (\<lambda>(q, k) xs. ioq_idle q \<and> intr k = INTR_OFF \<and> contents q = xs)"

lemma ioq_idle_cong: "ioq_idle q \<Longrightarrow> wf_ioq q' \<Longrightarrow> producer q' = producer q \<Longrightarrow>
   consumer q' = consumer q \<Longrightarrow> ioq_lock q' = ioq_lock q \<Longrightarrow> ioq_idle q'"
  by (simp add: ioq_idle_def)

lemma ring_laws:
  "ring_rep s xs \<Longrightarrow> length xs < bufsize - 1 \<Longrightarrow> ring_rep (ring_put b s) (xs @ [b])"
  "ring_rep s [] \<Longrightarrow> ring_take s = (None, s)"
  "ring_rep s (x # xs) \<Longrightarrow> \<exists>s'. ring_take s = (Some x, s') \<and> ring_rep s' xs"
proof -
  obtain q k where s: "s = (q, k)" by (cases s)
  show "ring_rep (ring_put b s) (xs @ [b])" 
    if rep: "ring_rep s xs" and len: "length xs < bufsize - 1"
  proof -
    have id: "ioq_idle q" "wf_ioq q" "intr k = INTR_OFF" "contents q = xs" "consumer q = None"
      using rep by (simp_all add: s ring_rep_def ioq_idle_def)
    obtain q' where "ioq_putchar b q k = Inr (True, q', k)" "wf_ioq q'" "contents q' = xs @ [b]"
      "producer q' = producer q" "consumer q' = consumer q" "ioq_lock q' = ioq_lock q"
      using ioq_putchar_not_full [OF id(2,3), of b] len id(4,5) by auto
    then show ?thesis using ioq_idle_cong [OF id(1)] id(3) by (simp add: s ring_put_def ring_rep_def)
  qed
  show "ring_take s = (None, s)" if "ring_rep s []"
  proof -
    have "ioq_head q = ioq_tail q" "intr k = INTR_OFF"
      using that ioq_empty_iff [of q] by (simp_all add: s ring_rep_def ioq_idle_def)
    then show ?thesis
      by (auto simp: s ring_take_def ioq_getchar_def ioq_getchar_loop_def ioq_empty_def
          intr_get_status_def bnd_def split: sum.splits prod.splits)
  qed
  show "\<exists>s'. ring_take s = (Some x, s') \<and> ring_rep s' xs" if "ring_rep s (x # xs)"
  proof -
    have id: "ioq_idle q" "wf_ioq q" "intr k = INTR_OFF" "contents q = x # xs" "producer q = None"
      using that by (simp_all add: s ring_rep_def ioq_idle_def)
    obtain q' where "ioq_getchar_loop q k = Inr (Some x, q', k)" "wf_ioq q'" "contents q' = xs"
      "producer q' = None" "consumer q' = consumer q" "ioq_lock q' = ioq_lock q"
      using ioq_getchar_nonempty [OF id(2,5,3,4)] by metis
    then show ?thesis using ioq_idle_cong [OF id(1)] id(3,5)
      by (simp add: s ring_take_def ring_rep_def ioq_getchar_def intr_get_status_def)
  qed
qed

interpretation rq: fifo ring_rep "\<lambda>b xs. length xs < bufsize - 1" ring_put ring_take
  by unfold_locales (fact ring_laws)+

lemma fits_ring: "length xs + length es < bufsize \<Longrightarrow> fits (\<lambda>b xs. length xs < bufsize - 1) xs es"
  by (induction es arbitrary: xs) auto

section \<open>Results\<close>

text \<open>
  C13: The ring buffer is a queue of 2047 characters. On a fresh ring, any sequence of up to
  \<open>bufsize - 1\<close> characters written with \<open>ioq_putchar\<close> is read back by \<open>ioq_getchar\<close> in the
  same order, without a writer or reader going to sleep, and the ring is empty again.
\<close>

theorem ioqueue_fifo:
  assumes "length (buf q) = bufsize" "intr k = INTR_OFF" "length bs < bufsize"
  shows "\<exists>q' k'. takes ring_take (length bs) (fold ring_put bs (ioqueue_init q, k))
    = (map Some bs, (q', k')) \<and> contents q' = []"
proof -
  have "ring_rep (ioqueue_init q, k) []" using assms ioq_idle_init by (simp add: ring_rep_def)
  from rq.first_in_first_out [OF this, of bs] show ?thesis
    using fits_ring [of "[]" bs] assms(3) by (auto simp: ring_rep_def)
qed

definition demo_ioq :: ioqueue where
  "demo_ioq = \<lparr>ioq_lock = lock_init, producer = None, consumer = None,
     buf = replicate bufsize 0, ioq_head = 0, ioq_tail = 0\<rparr>"

lemma ioqueue_fifo_witness:
  "\<exists>q' k'. takes ring_take 2 (fold ring_put [104, 105] (ioqueue_init demo_ioq, demo_kernel\<lparr>intr := INTR_OFF\<rparr>))
    = ([Some 104, Some 105], (q', k')) \<and> contents q' = []"
  using ioqueue_fifo [of demo_ioq "demo_kernel\<lparr>intr := INTR_OFF\<rparr>" "[104, 105]"]
  by (simp add: demo_ioq_def numeral_2_eq_2)

text \<open>A reader that finds the ring empty.\<close>

lemma ioq_getchar_sleeps:
  assumes inv: "sched_inv k" and off: "intr k = INTR_OFF" and id: "ioq_idle q" "contents q = []"
  obtains k1 where "ioq_getchar q k =
      Inr (None, q\<lparr>ioq_lock := lock_taken (cur k) (ioq_lock q), consumer := Some (cur k)\<rparr>, k1)"
    "thread_block TASK_BLOCKED k = Inr k1" "sched_inv k1" "cur k1 = next_if_asleep k"
    "saved_intr k1 = (saved_intr k)(cur k := INTR_OFF)"
proof -
  obtain k1 where k1: "thread_block TASK_BLOCKED k = Inr k1" "sched_inv k1"
    "cur k1 = next_if_asleep k" "saved_intr k1 = (saved_intr k)(cur k := intr k)"
    using thread_block_inv [OF inv, of TASK_BLOCKED] by metis
  have "ioq_head q = ioq_tail q" using ioq_empty_iff [of q] id by (simp add: ioq_idle_def)
  then show thesis using that [of k1] k1 id off
    by (simp add: ioq_getchar_def ioq_getchar_loop_def ioq_empty_def intr_get_status_def
        lock_acquire_free ioq_idle_def ioq_wait_def running_thread_def)
qed

text \<open>
  C14: A sleeping reader gets the next character. When thread \<open>c\<close> calls \<open>ioq_getchar\<close> on an
  empty ring it goes to sleep; when any other thread later writes \<open>b\<close> (in any state \<open>k2\<close> where
  \<open>c\<close> still sleeps), the writer does not sleep and puts \<open>c\<close> in front of the ready queue; and
  when \<open>c\<close> runs again, \<open>ioq_getchar\<close> returns \<open>b\<close>, and ring and lock are free as before.
\<close>

theorem ioqueue_handoff:
  assumes "sched_inv k" "intr k = INTR_OFF" "ioq_idle q" "contents q = []" "c = cur k"
    and "ioq_getchar q k = Inr (r, q1, k1)"
    and "sched_inv k2" "intr k2 = INTR_OFF" "c \<in> set (thread_all_list k2)"
      "status_of k2 c = TASK_BLOCKED"
    and "cur k4 = c" "intr k4 = INTR_OFF"
  shows "r = None \<and> (\<exists>q2 k3 q3.
    ioq_putchar b q1 k2 = Inr (True, q2, k3) \<and> sched_inv k3 \<and>
    thread_ready_list k3 = c # thread_ready_list k2 \<and>
    ioq_getchar_woken q2 k4 = Inr (Some b, q3, k4) \<and> contents q3 = [] \<and> ioq_idle q3)"
proof -
  let ?q1 = "q\<lparr>ioq_lock := lock_taken c (ioq_lock q), consumer := Some c\<rparr>"
  have r: "r = None" "q1 = ?q1"
    using ioq_getchar_sleeps [OF assms(1-4)] assms(5,6)
    by (metis Inr_inject Pair_inject)+
  have wf: "wf_ioq ?q1" and c0: "contents ?q1 = []"
    using assms(3,4) by (simp_all add: ioq_idle_def)
  have l0: "ioq_lenth q = 0" using assms(4) length_contents [of q] by (metis list.size(3))
  obtain q' where q': "ioq_putchar b ?q1 k2 =
       bnd (wakeup (Some c) k2) (\<lambda>(w, k). Inr (True, q'\<lparr>consumer := w\<rparr>, k))"
    "wf_ioq q'" "contents q' = [b]" "producer q' = None" "ioq_lock q' = lock_taken c (ioq_lock q)"
    using ioq_putchar_not_full [OF wf assms(8), of b] c0 l0 assms(3,4) by (auto simp: ioq_idle_def)
  obtain k3 where k3: "thread_unblock c k2 = Inr k3" "sched_inv k3"
    "thread_ready_list k3 = c # thread_ready_list k2"
    using thread_unblock_inv [OF assms(7,9)] assms(10) by metis
  let ?q2 = "q'\<lparr>consumer := None\<rparr>"
  have put: "ioq_putchar b q1 k2 = Inr (True, ?q2, k3)" using q'(1) k3(1) r by (simp add: wakeup_def)
  let ?q2' = "?q2\<lparr>ioq_lock := ioq_lock q\<rparr>"
  have rel: "lock_release (ioq_lock ?q2) k4 = Inr (ioq_lock q, k4)"
    using lock_release_taken [of "ioq_lock q" k4 c] assms(3,11) q'(5) by (simp add: ioq_idle_def)
  have wf2: "wf_ioq ?q2'" and c2: "contents ?q2' = [b]"
    using q'(2,3) by simp_all
  obtain q3 where q3: "ioq_getchar_loop ?q2' k4 = Inr (Some b, q3, k4)" "wf_ioq q3" "contents q3 = []"
    "producer q3 = None" "consumer q3 = None" "ioq_lock q3 = ioq_lock q"
    using ioq_getchar_nonempty [OF wf2 _ assms(12) c2] q'(4) by auto
  then have "ioq_idle q3" using assms(3) by (simp add: ioq_idle_def)
  then show ?thesis using r(1) put k3 q3 rel by (auto simp: ioq_getchar_woken_def)
qed

lemma ioqueue_handoff_witness:
  "\<exists>k1 q2 k3 q3. ioq_getchar demo_ioq (demo_kernel\<lparr>intr := INTR_OFF\<rparr>) =
       Inr (None, demo_ioq\<lparr>ioq_lock := lock_taken 0x1000 lock_init, consumer := Some 0x1000\<rparr>, k1) \<and>
     ioq_putchar 7 (demo_ioq\<lparr>ioq_lock := lock_taken 0x1000 lock_init, consumer := Some 0x1000\<rparr>) (k1\<lparr>intr := INTR_OFF\<rparr>)
       = Inr (True, q2, k3) \<and>
     ioq_getchar_woken q2 (demo_kernel\<lparr>intr := INTR_OFF\<rparr>) = Inr (Some 7, q3, demo_kernel\<lparr>intr := INTR_OFF\<rparr>)"
proof -
  let ?k = "demo_kernel\<lparr>intr := INTR_OFF\<rparr>"
  let ?q1 = "demo_ioq\<lparr>ioq_lock := lock_taken 0x1000 lock_init, consumer := Some 0x1000\<rparr>"
  have inv: "sched_inv ?k" "intr ?k = INTR_OFF" "cur ?k = 0x1000" "next_if_asleep ?k = 0x2000"
    by (simp_all add: sched_inv_def next_if_asleep_def demo_defs)
  have e: "ioqueue_init demo_ioq = demo_ioq" by (simp add: demo_ioq_def ioqueue_init_def)
  have q: "ioq_idle demo_ioq" "contents demo_ioq = []"
    using ioq_idle_init [of demo_ioq] contents_init [of demo_ioq] unfolding e
    by (simp_all add: demo_ioq_def)
  obtain k1 where k1': "thread_block TASK_BLOCKED ?k = Inr k1" "sched_inv k1" "same_but_sched ?k k1"
    "\<And>t. status_of k1 t = (if t = next_if_asleep ?k then TASK_RUNNING
                            else if t = cur ?k then TASK_BLOCKED else status_of ?k t)"
    by (rule thread_block_inv [OF inv(1), of TASK_BLOCKED]) blast+
  note k1 = k1'(1-3) k1'(4) [unfolded inv]
  define k2 where "k2 = k1\<lparr>intr := INTR_OFF\<rparr>"
  have g: "ioq_getchar demo_ioq ?k = Inr (None, ?q1, k1)"
    using k1(1) by (simp add: ioq_getchar_def ioq_getchar_loop_def ioq_empty_def intr_get_status_def
        lock_acquire_free ioq_wait_def running_thread_def inv demo_ioq_def)
  have "0x1000 \<in> set (thread_all_list k2)" "status_of k2 0x1000 = TASK_BLOCKED"
    "sched_inv k2" "intr k2 = INTR_OFF"
    using k1 by (simp_all add: k2_def same_but_sched_def demo_kernel_def)
  from ioqueue_handoff [OF inv(1,2) q _ g this(3,4,1,2) _ inv(2), where b = 7]
  obtain q2 k3 q3 where "ioq_putchar 7 ?q1 k2 = Inr (True, q2, k3)"
    "ioq_getchar_woken q2 ?k = Inr (Some 7, q3, ?k)" using inv(3) by auto
  then show ?thesis using g by (auto simp: k2_def)
qed

end
