(* ===== verification/Keyboard.thy ===== *)
theory Keyboard
  imports Ioqueue
begin

text \<open>
  \<open>device/keyboard.c\<close>: the scan code decoder behind the keyboard interrupt. One call of the
  handler reads one scan code from the controller (the argument \<open>code\<close> stands for the byte
  that \<open>inb(KBD_BUF_PORT)\<close> delivers) and updates the state of the modifier keys or puts one
  character into the ring \<open>kbd_buf\<close>. \<open>unknown\<close> counts the messages \<open>unknown key\<close> that are
  printed.
\<close>

record keyboard =
  ctrl_status :: bool
  shift_status :: bool
  alt_status :: bool
  caps_lock_status :: bool
  ext_scancode :: bool
  kbd_buf :: ioqueue
  unknown :: nat

abbreviation ctrl_l_make :: "16 word" where "ctrl_l_make \<equiv> 0x1d"
abbreviation ctrl_r_make :: "16 word" where "ctrl_r_make \<equiv> 0xe01d"
abbreviation shift_l_make :: "16 word" where "shift_l_make \<equiv> 0x2a"
abbreviation shift_r_make :: "16 word" where "shift_r_make \<equiv> 0x36"
abbreviation alt_l_make :: "16 word" where "alt_l_make \<equiv> 0x38"
abbreviation alt_r_make :: "16 word" where "alt_r_make \<equiv> 0xe038"
abbreviation caps_lock_make :: "16 word" where "caps_lock_make \<equiv> 0x3a"

text \<open>The table of characters: without and with shift.\<close>

definition keymap_plain :: string where
  "keymap_plain =
     [CHR 0x00, CHR 0x1b] @ ''1234567890-='' @ [CHR 0x08, CHR 0x09] @ ''qwertyuiop[]'' @
     [CHR 0x0d, CHR 0x00] @ ''asdfghjkl;'' @ [CHR 0x27, CHR 0x60, CHR 0x00, CHR 0x5c] @
     ''zxcvbnm,./'' @ [CHR 0x00, CHR ''*'', CHR 0x00, CHR 0x20, CHR 0x00]"

definition keymap_shift :: string where
  "keymap_shift =
     [CHR 0x00, CHR 0x1b] @ ''!@#$%^&*()_+'' @ [CHR 0x08, CHR 0x09] @ ''QWERTYUIOP{}'' @
     [CHR 0x0d, CHR 0x00] @ ''ASDFGHJKL:'' @ [CHR 0x22, CHR ''~'', CHR 0x00, CHR ''|''] @
     ''ZXCVBNM<>?'' @ [CHR 0x00, CHR ''*'', CHR 0x00, CHR 0x20, CHR 0x00]"

definition keymap :: "nat \<Rightarrow> bool \<Rightarrow> u8" where
  "keymap index shift = of_char ((if shift then keymap_shift else keymap_plain) ! index)"

text \<open>Keys with two characters that are not letters: \<open>caps lock\<close> does not matter to them.\<close>

definition two_char_key :: "16 word \<Rightarrow> bool" where
  "two_char_key scancode \<longleftrightarrow>
     scancode < 0x0e \<or> scancode = 0x29 \<or> scancode = 0x1a \<or> scancode = 0x1b \<or> scancode = 0x34 \<or>
     scancode = 0x2b \<or> scancode = 0x27 \<or> scancode = 0x28 \<or> scancode = 0x33 \<or> scancode = 0x35"

definition kbd_shift :: "16 word \<Rightarrow> bool \<Rightarrow> bool \<Rightarrow> bool" where
  "kbd_shift scancode shift_down_last caps_lock_last =
     (if two_char_key scancode then shift_down_last
      else if shift_down_last \<and> caps_lock_last then False
      else shift_down_last \<or> caps_lock_last)"

text \<open>The break code branch of the handler.\<close>

definition kbd_break :: "16 word \<Rightarrow> keyboard \<Rightarrow> keyboard" where
  "kbd_break scancode s =
     (let make_code = scancode AND 0xff7f in
      if make_code = ctrl_l_make \<or> make_code = ctrl_r_make then s\<lparr>ctrl_status := False\<rparr>
      else if make_code = shift_l_make \<or> make_code = shift_r_make then s\<lparr>shift_status := False\<rparr>
      else if make_code = alt_l_make \<or> make_code = alt_r_make then s\<lparr>alt_status := False\<rparr>
      else s)"

text \<open>The bookkeeping for a pressed modifier key.\<close>

definition kbd_modifier :: "16 word \<Rightarrow> keyboard \<Rightarrow> keyboard" where
  "kbd_modifier scancode s =
     (if scancode = ctrl_l_make \<or> scancode = ctrl_r_make then s\<lparr>ctrl_status := True\<rparr>
      else if scancode = shift_l_make \<or> scancode = shift_r_make then s\<lparr>shift_status := True\<rparr>
      else if scancode = alt_l_make \<or> scancode = alt_r_make then s\<lparr>alt_status := True\<rparr>
      else if scancode = caps_lock_make then s\<lparr>caps_lock_status := \<not> caps_lock_status s\<rparr>
      else s)"

definition intr_keyboard_handler :: "u8 \<Rightarrow> keyboard \<times> kernel \<Rightarrow> (keyboard \<times> kernel) res" where
  "intr_keyboard_handler code = (\<lambda>(s, k).
     let ctrl_down_last = ctrl_status s;
         shift_down_last = shift_status s;
         caps_lock_last = caps_lock_status s;
         scancode = (ucast code :: 16 word)
     in
     if scancode = 0xe0 then Inr (s\<lparr>ext_scancode := True\<rparr>, k)
     else
       let (scancode, s) =
             (if ext_scancode s then (0xe000 OR scancode, s\<lparr>ext_scancode := False\<rparr>)
              else (scancode, s));
           break_code = (scancode AND 0x0080 \<noteq> 0)
       in
       if break_code then Inr (kbd_break scancode s, k)
       else if (scancode > 0x00 \<and> scancode < 0x3b) \<or> scancode = alt_r_make \<or> scancode = ctrl_r_make
       then
         let shift = kbd_shift scancode shift_down_last caps_lock_last;
             index = unat (scancode AND 0x00ff);
             cur_char = keymap index shift;
             cur_char = (if ctrl_down_last \<and> (cur_char = of_char CHR ''l'' \<or> cur_char = of_char CHR ''u'')
                         then cur_char - of_char CHR ''a'' else cur_char)
         in
         if cur_char \<noteq> 0
         then bnd (ioq_full (kbd_buf s) k) (\<lambda>full.
              if full then Inr (s, k)
              else bnd (ioq_putchar cur_char (kbd_buf s) k) (\<lambda>(_, q, k).
                   Inr (s\<lparr>kbd_buf := q\<rparr>, k)))
         else Inr (kbd_modifier scancode s, k)
       else Inr (s\<lparr>unknown := unknown s + 1\<rparr>, k))"

fun scancodes :: "u8 list \<Rightarrow> keyboard \<times> kernel \<Rightarrow> (keyboard \<times> kernel) res" where
  "scancodes [] sk = Inr sk"
| "scancodes (c # cs) sk = bnd (intr_keyboard_handler c sk) (scancodes cs)"

definition keyboard_init :: "keyboard \<Rightarrow> keyboard" where
  "keyboard_init s = s\<lparr>kbd_buf := ioqueue_init (kbd_buf s)\<rparr>"

section \<open>What a key produces\<close>

text \<open>
  The contract in terms of keys, independent of the tables of the driver: the rows of a US keyboard,
  each with its first make code and what its keys print alone and with shift.
\<close>

definition us_rows :: "(nat \<times> string \<times> string) list" where
  "us_rows =
     [(0x01, [CHR 0x1b], [CHR 0x1b]),
      (0x02, ''1234567890-='', ''!@#$%^&*()_+''),
      (0x0e, [CHR 0x08, CHR 0x09], [CHR 0x08, CHR 0x09]),
      (0x10, ''qwertyuiop[]'', ''QWERTYUIOP{}''),
      (0x1c, [CHR 0x0d], [CHR 0x0d]),
      (0x1e, ''asdfghjkl;'' @ [CHR 0x27], ''ASDFGHJKL:'' @ [CHR 0x22]),
      (0x29, [CHR 0x60], ''~''),
      (0x2b, [CHR 0x5c], ''|''),
      (0x2c, ''zxcvbnm,./'', ''ZXCVBNM<>?''),
      (0x37, ''*'', ''*''),
      (0x39, '' '', '' '')]"

definition us_keys :: "(nat \<times> char \<times> char) list" where
  "us_keys = concat (map (\<lambda>(first, plain, shifted). zip [first..<first + length plain] (zip plain shifted)) us_rows)"

definition us_key :: "nat \<Rightarrow> (char \<times> char) option" where
  "us_key = map_of us_keys"

text \<open>
  What a key types: shift and caps lock together decide about letters, shift alone about all
  other keys; control turns the letters \<open>l\<close> and \<open>u\<close> (in lower case) into their distance from \<open>a\<close>.
\<close>

definition lower_case :: "char \<Rightarrow> bool" where
  "lower_case c \<longleftrightarrow> c \<in> set ''abcdefghijklmnopqrstuvwxyz''"

definition key_char :: "bool \<Rightarrow> bool \<Rightarrow> bool \<Rightarrow> char \<times> char \<Rightarrow> u8" where
  "key_char ctrl shift caps = (\<lambda>(plain, shifted).
     let c = (if (if lower_case plain then shift \<noteq> caps else shift) then shifted else plain)
     in if ctrl \<and> c = CHR ''l'' then 11 else if ctrl \<and> c = CHR ''u'' then 20 else of_char c)"

text \<open>The character the driver takes from its table; 0 means that the key has no character.\<close>

definition table_char :: "u8 \<Rightarrow> bool \<Rightarrow> bool \<Rightarrow> bool \<Rightarrow> u8" where
  "table_char code ctrl shift caps =
     (let c = keymap (unat code) (kbd_shift (ucast code) shift caps) in
      if ctrl \<and> (c = 0x6c \<or> c = 0x75) then c - 0x61 else c)"

lemma keymap_lengths: "length keymap_plain = 0x3b" "length keymap_shift = 0x3b"
  by (simp_all add: keymap_plain_def keymap_shift_def)

lemma of_char_letters [simp]:
  "of_char CHR ''l'' = (0x6c :: u8)" "of_char CHR ''u'' = (0x75 :: u8)" "of_char CHR ''a'' = (0x61 :: u8)"
  by simp_all

text \<open>The make codes of the table, one by one.\<close>

lemma table_codes:
  assumes "0 < code" "code < (0x3b :: u8)"
  shows "code \<in> set (map of_nat (1 # [2..<0x3b]))"
proof -
  have "unat code \<in> set (1 # [2..<0x3b])"
    using assms by (auto simp: word_less_nat_alt simp del: upt_rec_numeral)
  then have "of_nat (unat code) \<in> set (map of_nat (1 # [2..<0x3b]) :: u8 list)"
    by (metis image_eqI list.set_map)
  then show ?thesis by simp
qed

lemma plain_scancode:
  assumes "0 < code" "code < (0x3b :: u8)"
  shows "(ucast code :: 16 word) \<noteq> 0xe0" "(ucast code :: 16 word) AND 0x80 = 0"
    "0 < (ucast code :: 16 word)" "(ucast code :: 16 word) < 0x3b"
    "unat ((ucast code :: 16 word) AND 0xff) = unat code"
    "(ucast code :: 16 word) \<noteq> alt_r_make" "(ucast code :: 16 word) \<noteq> ctrl_r_make"
proof -
  let ?P = "\<lambda>code :: u8. (ucast code :: 16 word) \<noteq> 0xe0 \<and> (ucast code :: 16 word) AND 0x80 = 0 \<and>
    0 < (ucast code :: 16 word) \<and> (ucast code :: 16 word) < 0x3b \<and>
    unat ((ucast code :: 16 word) AND 0xff) = unat code \<and>
    (ucast code :: 16 word) \<noteq> alt_r_make \<and> (ucast code :: 16 word) \<noteq> ctrl_r_make"
  have "list_all ?P (map of_nat (1 # [2..<0x3b]))" by simp
  then have "?P code" using table_codes [OF assms] unfolding list_all_iff by blast
  then show "(ucast code :: 16 word) \<noteq> 0xe0" "(ucast code :: 16 word) AND 0x80 = 0"
    "0 < (ucast code :: 16 word)" "(ucast code :: 16 word) < 0x3b"
    "unat ((ucast code :: 16 word) AND 0xff) = unat code"
    "(ucast code :: 16 word) \<noteq> alt_r_make" "(ucast code :: 16 word) \<noteq> ctrl_r_make" by auto
qed

text \<open>The tables of the driver print what the keyboard says.\<close>

lemmas us_keys_eval = us_keys_def us_rows_def keymap_def keymap_plain_def keymap_shift_def table_char_def
  kbd_shift_def two_char_key_def key_char_def lower_case_def

lemma us_keys_table:
  "list_all (\<lambda>(n, key). 0 < n \<and> n < 0x3b \<and> table_char (of_nat n) ctrl shift caps = key_char ctrl shift caps key \<and>
     key_char ctrl shift caps key \<noteq> 0) us_keys"
  by (cases ctrl; cases shift; cases caps) (simp_all add: us_keys_eval)

lemma us_key_table:
  assumes "us_key (unat code) = Some key"
  shows "0 < code" "code < (0x3b :: u8)" "table_char code ctrl shift caps = key_char ctrl shift caps key"
    "key_char ctrl shift caps key \<noteq> 0"
proof -
  have "(unat code, key) \<in> set us_keys" by (rule map_of_SomeD [OF assms [unfolded us_key_def]])
  then have "unat code \<noteq> 0 \<and> unat code < 0x3b \<and> table_char (of_nat (unat code)) ctrl shift caps = key_char ctrl shift caps key \<and>
     key_char ctrl shift caps key \<noteq> 0"
    using us_keys_table [of ctrl shift caps] unfolding list_all_iff by fast
  then show "0 < code" "code < (0x3b :: u8)" "table_char code ctrl shift caps = key_char ctrl shift caps key"
    "key_char ctrl shift caps key \<noteq> 0" by (auto simp: word_less_nat_alt)
qed

text \<open>The break code of a key of the table.\<close>

lemma break_scancode:
  assumes "0 < code" "code < (0x3b :: u8)"
  shows "(ucast (code OR 0x80) :: 16 word) \<noteq> 0xe0" "(ucast (code OR 0x80) :: 16 word) AND 0x80 \<noteq> 0"
    "(ucast (code OR 0x80) :: 16 word) AND 0xff7f = ucast code"
    "keymap (unat code) sh \<noteq> 0 \<Longrightarrow> (ucast code :: 16 word) \<notin> {ctrl_l_make, ctrl_r_make, shift_l_make,
       shift_r_make, alt_l_make, alt_r_make, caps_lock_make}"
proof -
  let ?P = "\<lambda>code :: u8. (ucast (code OR 0x80) :: 16 word) \<noteq> 0xe0 \<and>
    (ucast (code OR 0x80) :: 16 word) AND 0x80 \<noteq> 0 \<and>
    (ucast (code OR 0x80) :: 16 word) AND 0xff7f = ucast code"
  have "list_all ?P (map of_nat (1 # [2..<0x3b]))" by simp
  then have "?P code" using table_codes [OF assms] unfolding list_all_iff by blast
  then show "(ucast (code OR 0x80) :: 16 word) \<noteq> 0xe0" "(ucast (code OR 0x80) :: 16 word) AND 0x80 \<noteq> 0"
    "(ucast (code OR 0x80) :: 16 word) AND 0xff7f = ucast code" by auto
  let ?Q = "\<lambda>code :: u8. (ucast code :: 16 word) \<in> {ctrl_l_make, ctrl_r_make, shift_l_make,
       shift_r_make, alt_l_make, alt_r_make, caps_lock_make} \<longrightarrow>
     unat code \<in> {0x1d, 0x2a, 0x36, 0x38, 0x3a}"
  have "list_all ?Q (map of_nat (1 # [2..<0x3b]))" by simp
  then have q: "?Q code" using table_codes [OF assms] unfolding list_all_iff by blast
  have z: "keymap 0x1d sh = 0" "keymap 0x2a sh = 0" "keymap 0x36 sh = 0" "keymap 0x38 sh = 0"
    "keymap 0x3a sh = 0" by (simp_all add: keymap_def keymap_plain_def keymap_shift_def)
  assume nz: "keymap (unat code) sh \<noteq> 0"
  show "(ucast code :: 16 word) \<notin> {ctrl_l_make, ctrl_r_make,
       shift_l_make, shift_r_make, alt_l_make, alt_r_make, caps_lock_make}"
  proof
    assume "(ucast code :: 16 word) \<in> {ctrl_l_make, ctrl_r_make,
       shift_l_make, shift_r_make, alt_l_make, alt_r_make, caps_lock_make}"
    then have "unat code \<in> {0x1d, 0x2a, 0x36, 0x38, 0x3a}" by (rule mp [OF q])
    then show False using z nz by (elim insertE emptyE) (simp_all only: simp_thms)
  qed
qed

text \<open>The handler on a make code of the table.\<close>

lemma handler_make:
  assumes "0 < code" "code < (0x3b :: u8)" "\<not> ext_scancode s"
  shows "intr_keyboard_handler code (s, k) =
    (let c = table_char code (ctrl_status s) (shift_status s) (caps_lock_status s) in
     if c \<noteq> 0
     then bnd (ioq_full (kbd_buf s) k) (\<lambda>full.
          if full then Inr (s, k)
          else bnd (ioq_putchar c (kbd_buf s) k) (\<lambda>(_, q, k). Inr (s\<lparr>kbd_buf := q\<rparr>, k)))
     else Inr (kbd_modifier (ucast code) s, k))"
  using plain_scancode [OF assms(1,2)] assms(3)
  by (simp add: intr_keyboard_handler_def Let_def table_char_def cong: if_cong)

lemma handler_break:
  assumes "0 < code" "code < (0x3b :: u8)" "\<not> ext_scancode s"
  shows "intr_keyboard_handler (code OR 0x80) (s, k) =
    Inr (kbd_break (ucast (code OR 0x80)) s, k)"
  using break_scancode(1,2) [OF assms(1,2)] assms(3)
  by (simp add: intr_keyboard_handler_def Let_def)

lemma key_char_keymap:
  "table_char code ctrl shift caps \<noteq> 0 \<Longrightarrow>
   keymap (unat code) (kbd_shift (ucast code) shift caps) \<noteq> 0"
  by (auto simp: table_char_def Let_def split: if_splits)

lemma handler_break_char:
  assumes "0 < code" "code < (0x3b :: u8)" "\<not> ext_scancode s"
    and "table_char code ctrl shift caps \<noteq> 0"
  shows "intr_keyboard_handler (code OR 0x80) (s, k) = Inr (s, k)"
  using handler_break [OF assms(1-3)] break_scancode(3) [OF assms(1,2)]
    break_scancode(4) [OF assms(1,2) key_char_keymap [OF assms(4)]]
  by (simp add: kbd_break_def Let_def)

lemma handler_make_char:
  assumes "0 < code" "code < (0x3b :: u8)" "\<not> ext_scancode s"
    and c: "c = table_char code (ctrl_status s) (shift_status s) (caps_lock_status s)" "c \<noteq> 0"
    and q: "wf_ioq (kbd_buf s)" "consumer (kbd_buf s) = None" "intr k = INTR_OFF"
      "length (contents (kbd_buf s)) < bufsize - 1"
  obtains q' where "intr_keyboard_handler code (s, k) = Inr (s\<lparr>kbd_buf := q'\<rparr>, k)"
    "wf_ioq q'" "consumer q' = None" "contents q' = contents (kbd_buf s) @ [c]"
proof -
  obtain q' where q': "ioq_putchar c (kbd_buf s) k = Inr (True, q', k)" "wf_ioq q'"
    "contents q' = contents (kbd_buf s) @ [c]" "consumer q' = None"
    using ioq_putchar_not_full [OF q(1,3,4), of c] q(2) by auto
  have "ioq_full (kbd_buf s) k = Inr False"
    using ioq_full_iff [OF q(1)] q(3,4) by (simp add: ioq_full_def intr_get_status_def)
  then have "intr_keyboard_handler code (s, k) = Inr (s\<lparr>kbd_buf := q'\<rparr>, k)"
    using handler_make [OF assms(1-3), of k] c q'(1) by (simp add: Let_def)
  then show thesis using that q' by blast
qed

section \<open>Results\<close>

text \<open>A key stroke: with or without the left shift key around it.\<close>

definition stroke :: "bool \<times> u8 \<Rightarrow> u8 list" where
  "stroke = (\<lambda>(sh, code). (if sh then [0x2a] else []) @ [code, code OR 0x80] @
     (if sh then [0xaa] else []))"

definition stroke_char :: "bool \<Rightarrow> bool \<Rightarrow> bool \<times> u8 \<Rightarrow> u8" where
  "stroke_char ctrl caps = (\<lambda>(sh, code). key_char ctrl sh caps (the (us_key (unat code))))"

lemma shift_make: "\<not> ext_scancode s \<Longrightarrow>
    intr_keyboard_handler 0x2a (s, k) = Inr (s\<lparr>shift_status := True\<rparr>, k)"
  by (simp add: intr_keyboard_handler_def Let_def kbd_modifier_def keymap_def keymap_plain_def
      keymap_shift_def)

lemma shift_break: "\<not> ext_scancode s \<Longrightarrow>
    intr_keyboard_handler 0xaa (s, k) = Inr (s\<lparr>shift_status := False\<rparr>, k)"
  by (simp add: intr_keyboard_handler_def Let_def kbd_break_def)

lemma scancodes_append: "scancodes (xs @ ys) sk = bnd (scancodes xs sk) (scancodes ys)"
  by (induction xs arbitrary: sk) (auto simp: bnd_def split: sum.splits)

lemma stroke_ok:
  assumes "0 < code" "code < (0x3b :: u8)" "\<not> ext_scancode s" "\<not> shift_status s"
    and c: "c = table_char code (ctrl_status s) sh (caps_lock_status s)" "c \<noteq> 0"
    and q: "wf_ioq (kbd_buf s)" "consumer (kbd_buf s) = None" "intr k = INTR_OFF"
      "length (contents (kbd_buf s)) < bufsize - 1"
  obtains q' where "scancodes (stroke (sh, code)) (s, k) = Inr (s\<lparr>kbd_buf := q'\<rparr>, k)"
    "wf_ioq q'" "consumer q' = None" "contents q' = contents (kbd_buf s) @ [c]"
proof -
  let ?s1 = "s\<lparr>shift_status := sh\<rparr>"
  obtain q' where q': "intr_keyboard_handler code (?s1, k) = Inr (?s1\<lparr>kbd_buf := q'\<rparr>, k)"
    "wf_ioq q'" "consumer q' = None" "contents q' = contents (kbd_buf s) @ [c]"
    using handler_make_char [OF assms(1,2), of ?s1 c k] assms by auto
  have b: "intr_keyboard_handler (code OR 0x80) (?s1\<lparr>kbd_buf := q'\<rparr>, k) = Inr (?s1\<lparr>kbd_buf := q'\<rparr>, k)"
    using handler_break_char [OF assms(1,2), of "?s1\<lparr>kbd_buf := q'\<rparr>" "ctrl_status s" sh] c assms(3) by simp
  have e: "\<not> sh \<Longrightarrow> ?s1 = s" using assms(4) by (cases s) simp
  have "scancodes (stroke (sh, code)) (s, k) = Inr (s\<lparr>kbd_buf := q'\<rparr>, k)"
    using q'(1) b e shift_make [OF assms(3)] shift_break [of "?s1\<lparr>kbd_buf := q'\<rparr>" k] assms(3,4)
    by (cases s) (auto simp: stroke_def scancodes_append)
  then show thesis using that q' by blast
qed

text \<open>
  C15: What is typed is what is read. Take any sequence of key strokes of the character keys of a
  US keyboard, each with or without the left shift key held, under any state of control and
  caps lock. The scan codes the controller sends for it put the characters that are printed
  on the keys into the keyboard ring, in order: for a letter the upper case when exactly one of
  shift and caps lock is on, for the other keys the upper character when shift is held, and with
  control the codes 11 and 20 for \<open>l\<close> and \<open>u\<close> (in lower case). The state of the modifier keys ends where it
  started. This holds as long as the ring has room, no reader sleeps on it, interrupts are off
  (as in the handler), no shift key is held at the start and no prefix 0xe0 is pending.
\<close>

theorem typing:
  assumes "intr k = INTR_OFF" "wf_ioq (kbd_buf s)" "consumer (kbd_buf s) = None"
    and "\<not> ext_scancode s" "\<not> shift_status s"
    and "\<forall>(sh, code) \<in> set strokes. us_key (unat code) \<noteq> None"
    and "length (contents (kbd_buf s)) + length strokes < bufsize"
  shows "\<exists>q'. scancodes (concat (map stroke strokes)) (s, k) = Inr (s\<lparr>kbd_buf := q'\<rparr>, k) \<and>
    contents q' = contents (kbd_buf s) @ map (stroke_char (ctrl_status s) (caps_lock_status s)) strokes"
  using assms
proof (induction strokes arbitrary: s)
  case Nil
  then show ?case by (intro exI [of _ "kbd_buf s"]) simp
next
  case (Cons st strokes)
  obtain sh code where st: "st = (sh, code)" by (cases st)
  let ?c = "stroke_char (ctrl_status s) (caps_lock_status s) st"
  obtain key where key: "us_key (unat code) = Some key" using Cons.prems(6) by (auto simp: st)
  note code = us_key_table [OF key]
  have "?c = table_char code (ctrl_status s) sh (caps_lock_status s)" "?c \<noteq> 0"
    using code(3,4) by (simp_all add: st stroke_char_def key)
  then obtain q' where q': "scancodes (stroke (sh, code)) (s, k) = Inr (s\<lparr>kbd_buf := q'\<rparr>, k)"
    "wf_ioq q'" "consumer q' = None" "contents q' = contents (kbd_buf s) @ [?c]"
    using stroke_ok [OF code(1,2), of s ?c sh k] Cons.prems by auto
  from Cons.IH [of "s\<lparr>kbd_buf := q'\<rparr>"] Cons.prems q' have
    "\<exists>q''. scancodes (concat (map stroke strokes)) (s\<lparr>kbd_buf := q'\<rparr>, k) =
        Inr (s\<lparr>kbd_buf := q''\<rparr>, k) \<and>
      contents q'' = contents q' @ map (stroke_char (ctrl_status s) (caps_lock_status s)) strokes"
    by simp
  then show ?case using q' by (auto simp: st scancodes_append)
qed

definition demo_keyboard :: keyboard where
  "demo_keyboard = \<lparr>ctrl_status = False, shift_status = False, alt_status = False,
     caps_lock_status = False, ext_scancode = False, kbd_buf = ioqueue_init demo_ioq, unknown = 0\<rparr>"

text \<open>Shift and \<open>l\<close>, then \<open>s\<close>, then enter.\<close>

lemma typing_witness:
  "\<exists>q'. scancodes [0x2a, 0x26, 0xa6, 0xaa, 0x1f, 0x9f, 0x1c, 0x9c]
      (demo_keyboard, demo_kernel\<lparr>intr := INTR_OFF\<rparr>)
    = Inr (demo_keyboard\<lparr>kbd_buf := q'\<rparr>, demo_kernel\<lparr>intr := INTR_OFF\<rparr>) \<and>
    contents q' = [76, 115, 13]"
proof -
  have i: "wf_ioq (ioqueue_init demo_ioq)" "consumer (ioqueue_init demo_ioq) = None"
    using ioq_idle_init [of demo_ioq] by (simp_all add: ioq_idle_def demo_ioq_def)
  have keys: "us_key 0x26 = Some (CHR ''l'', CHR ''L'')" "us_key 0x1f = Some (CHR ''s'', CHR ''S'')"
    "us_key 0x1c = Some (CHR 0x0d, CHR 0x0d)" by code_simp+
  have case_of: "lower_case (CHR ''l'')" "lower_case (CHR ''s'')" "\<not> lower_case (CHR 0x0d)"
    by (simp_all add: lower_case_def)
  show ?thesis
    using typing [of "demo_kernel\<lparr>intr := INTR_OFF\<rparr>" demo_keyboard
        "[(True, 0x26), (False, 0x1f), (False, 0x1c)]"] i keys case_of
    by (simp add: demo_keyboard_def stroke_def stroke_char_def key_char_def del: length_contents)
qed

end
