(* ===== verification/Fsdata.thy ===== *)
theory Fsdata
  imports Prelude
begin

text \<open>
  The on-disk data of the file system: \<open>struct inode\<close> (\<open>fs/inode.h\<close>), \<open>struct dir_entry\<close>
  (\<open>fs/dir.h\<close>), \<open>struct super_block\<close> (\<open>fs/super_block.h\<close>), and how the compiler lays them
  out in memory: 32-bit little endian fields without gaps (a \<open>bool\<close> and an \<open>enum\<close> take four
  bytes). A field of 32 bits is a \<open>nat\<close>; storing it keeps the value modulo \<open>2^32\<close>.
\<close>

abbreviation SECTOR_SIZE :: nat where "SECTOR_SIZE \<equiv> 512"
abbreviation BLOCK_SIZE :: nat where "BLOCK_SIZE \<equiv> 512"
abbreviation BITS_PER_SECTOR :: nat where "BITS_PER_SECTOR \<equiv> 4096"
abbreviation MAX_FILES_PER_PART :: nat where "MAX_FILES_PER_PART \<equiv> 4096"
abbreviation MAX_FILENAME_LEN :: nat where "MAX_FILENAME_LEN \<equiv> 16"

section \<open>Words in memory\<close>

definition le32 :: "nat \<Rightarrow> u8 list" where
  "le32 n = [of_nat n, of_nat (n div 256), of_nat (n div 65536), of_nat (n div 16777216)]"

definition rd32 :: "u8 list \<Rightarrow> nat \<Rightarrow> nat" where
  "rd32 bs off = unat (bs ! off) + 256 * unat (bs ! (off + 1)) + 65536 * unat (bs ! (off + 2)) +
     16777216 * unat (bs ! (off + 3))"

text \<open>\<open>memcpy\<close> of \<open>src\<close> to offset \<open>off\<close> of the buffer \<open>bs\<close>.\<close>

definition splice :: "nat \<Rightarrow> u8 list \<Rightarrow> u8 list \<Rightarrow> u8 list" where
  "splice off src bs = take off bs @ src @ drop (off + length src) bs"

text \<open>The bytes \<open>off\<close> to \<open>off + n - 1\<close>.\<close>

definition slice :: "nat \<Rightarrow> nat \<Rightarrow> u8 list \<Rightarrow> u8 list" where
  "slice off n bs = take n (drop off bs)"

text \<open>A table of sector numbers.\<close>

definition table_bytes :: "nat list \<Rightarrow> u8 list" where
  "table_bytes ns = concat (map le32 ns)"

definition read_table :: "nat \<Rightarrow> nat \<Rightarrow> u8 list \<Rightarrow> nat list" where
  "read_table off n bs = map (\<lambda>i. rd32 bs (off + 4 * i)) [0..<n]"

lemma length_le32 [simp]: "length (le32 n) = 4"
  by (simp add: le32_def)

lemma length_table_bytes [simp]: "length (table_bytes ns) = 4 * length ns"
  by (induction ns) (simp_all add: table_bytes_def)

lemma length_read_table [simp]: "length (read_table off n bs) = n"
  by (simp add: read_table_def)

lemma length_splice [simp]:
  "off + length src \<le> length bs \<Longrightarrow> length (splice off src bs) = length bs"
  by (simp add: splice_def)

lemma length_slice [simp]: "off + n \<le> length bs \<Longrightarrow> length (slice off n bs) = n"
  by (simp add: slice_def)

lemma slice_splice_same [simp]:
  "off \<le> length bs \<Longrightarrow> slice off (length src) (splice off src bs) = src"
  by (simp add: slice_def splice_def)

lemma slice_splice_other:
  assumes "off' + n \<le> off \<or> off + length src \<le> off'" "off + length src \<le> length bs"
  shows "slice off' n (splice off src bs) = slice off' n bs"
proof (cases "off' + n \<le> off")
  case True
  then have "n \<le> off - off'" "off \<le> length bs" using assms(2) by auto
  then show ?thesis by (simp add: slice_def splice_def drop_take min_absorb1 min_absorb2)
next
  case False
  then have "off + length src \<le> off'" using assms(1) by simp
  then show ?thesis using assms(2)
    by (simp add: slice_def splice_def drop_append)
qed

lemma splice_0_all: "length src = length bs \<Longrightarrow> splice 0 src bs = src"
  by (simp add: splice_def)

lemma nth_splice_in:
  "off \<le> length bs \<Longrightarrow> i < length src \<Longrightarrow> splice off src bs ! (off + i) = src ! i"
  by (simp add: splice_def nth_append min_def)

lemma unat_of_nat_u8: "unat (of_nat n :: u8) = n mod 256"
  by (simp add: unsigned_of_nat take_bit_eq_mod)

lemma le32_value: "(n :: nat) < 2 ^ 32 \<Longrightarrow>
  n mod 256 + 256 * (n div 256 mod 256) + 65536 * (n div 65536 mod 256) +
  16777216 * (n div 16777216 mod 256) = n"
proof -
  assume n: "n < 2 ^ 32"
  have a: "n div 65536 = n div 256 div 256" "n div 16777216 = n div 256 div 256 div 256"
    by (simp_all flip: div_mult2_eq)
  have "n div 16777216 < 256" using n by simp
  then have "n div 16777216 mod 256 = n div 256 div 256 div 256" using a by simp
  then show ?thesis unfolding a
    using div_mult_mod_eq [of n 256] div_mult_mod_eq [of "n div 256" 256]
      div_mult_mod_eq [of "n div 256 div 256" 256] by linarith
qed

lemma rd32_le32_at:
  assumes "n < 2 ^ 32" "slice off 4 bs = le32 n" "off + 4 \<le> length bs"
  shows "rd32 bs off = n"
proof -
  have e: "bs ! (off + i) = le32 n ! i" if "i < 4" for i
    using assms(2,3) that by (metis (no_types, lifting) add_leD1 nth_drop nth_take slice_def)
  have q: "n div 16777216 mod 256 = n div 16777216" using assms(1) by simp
  show ?thesis using le32_value [OF assms(1), unfolded q] q e [of 0] e [of 1] e [of 2] e [of 3]
    by (simp add: rd32_def le32_def unat_of_nat_u8 numeral_2_eq_2 numeral_3_eq_3)
qed

lemma rd32_le32 [simp]: "n < 2 ^ 32 \<Longrightarrow> rd32 (le32 n @ bs) 0 = n"
  by (rule rd32_le32_at) (simp_all add: slice_def)

lemma rd32_append [simp]: "length xs \<le> off \<Longrightarrow> rd32 (xs @ bs) off = rd32 bs (off - length xs)"
  by (simp add: rd32_def nth_append Suc_diff_le)

lemma rd32_cong: "\<forall>i < 4. a ! (off + i) = b ! (off' + i) \<Longrightarrow> rd32 a off = rd32 b off'"
proof -
  assume "\<forall>i < 4. a ! (off + i) = b ! (off' + i)"
  then have "a ! (off + i) = b ! (off' + i)" if "i < 4" for i using that by blast
  from this [of 0] this [of 1] this [of 2] this [of 3] show ?thesis by (simp add: rd32_def)
qed

lemma rd32_less: "rd32 bs off < 2 ^ 32"
proof -
  have u: "unat (w :: u8) < 256" for w using unsigned_less [of w] by simp
  from u [of "bs ! off"] u [of "bs ! (off + 1)"] u [of "bs ! (off + 2)"] u [of "bs ! (off + 3)"]
  show ?thesis by (simp add: rd32_def)
qed

lemma read_table_bytes:
  "\<forall>n \<in> set ns. n < 2 ^ 32 \<Longrightarrow> read_table 0 (length ns) (table_bytes ns @ bs) = ns"
proof (induction ns)
  case Nil
  then show ?case by (simp add: read_table_def)
next
  case (Cons n ns)
  have "read_table 0 (length (n # ns)) (table_bytes (n # ns) @ bs) =
      n # map (\<lambda>i. rd32 (le32 n @ table_bytes ns @ bs) (4 * i)) [1..<Suc (length ns)]"
    using Cons.prems by (simp add: read_table_def table_bytes_def upt_conv_Cons del: upt_Suc)
  also have "map (\<lambda>i. rd32 (le32 n @ table_bytes ns @ bs) (4 * i)) [1..<Suc (length ns)] =
      map (\<lambda>i. rd32 (table_bytes ns @ bs) (4 * i)) [0..<length ns]"
    by (simp add: map_Suc_upt [symmetric] del: upt_Suc)
  finally show ?case using Cons by (simp add: read_table_def)
qed

lemma read_table_append:
  "length xs = off \<Longrightarrow> read_table off n (xs @ bs) = read_table 0 n bs"
  by (simp add: read_table_def)

section \<open>The records\<close>

record inode =
  i_no :: nat
  i_size :: nat
  i_open_cnts :: nat
  writen_deny :: bool
  i_sectors :: "nat list"

text \<open>
  \<open>sizeof(struct inode)\<close> is 76: four fields, 13 sector numbers, and the two pointers of
  \<open>inode_tag\<close>. The links of \<open>inode_tag\<close> are kept by the list of the open inodes, in memory;
  on disk they are \<open>NULL\<close>.
\<close>

abbreviation INODE_BYTES :: nat where "INODE_BYTES \<equiv> 76"

definition inode_bytes :: "inode \<Rightarrow> u8 list" where
  "inode_bytes i = le32 (i_no i) @ le32 (i_size i) @ le32 (i_open_cnts i) @
     le32 (if writen_deny i then 1 else 0) @ table_bytes (i_sectors i) @ replicate 8 0"

definition read_inode :: "u8 list \<Rightarrow> inode" where
  "read_inode bs = \<lparr>i_no = rd32 bs 0, i_size = rd32 bs 4, i_open_cnts = rd32 bs 8,
     writen_deny = (rd32 bs 12 \<noteq> 0), i_sectors = read_table 16 13 bs\<rparr>"

datatype file_type = FT_UNKOWN | FT_REGULAR | FT_DIRECTORY

definition ft_code :: "file_type \<Rightarrow> nat" where
  "ft_code t = (case t of FT_UNKOWN \<Rightarrow> 0 | FT_REGULAR \<Rightarrow> 1 | FT_DIRECTORY \<Rightarrow> 2)"

text \<open>
  A directory entry: 16 bytes of name (no terminating 0 if the name has 16 characters), the
  inode number and the type, 24 bytes in all. The type field can hold any number.
\<close>

record dir_entry =
  filename :: "u8 list"
  de_i_no :: nat
  f_type :: nat

abbreviation DIR_ENTRY_BYTES :: nat where "DIR_ENTRY_BYTES \<equiv> 24"

definition dir_entry_bytes :: "dir_entry \<Rightarrow> u8 list" where
  "dir_entry_bytes e = filename e @ le32 (de_i_no e) @ le32 (f_type e)"

definition read_dir_entry :: "u8 list \<Rightarrow> dir_entry" where
  "read_dir_entry bs = \<lparr>filename = take 16 bs, de_i_no = rd32 bs 16, f_type = rd32 bs 20\<rparr>"

text \<open>\<open>memset(p_de, 0, sizeof(struct dir_entry))\<close>, and \<open>create_dir_entry\<close>.\<close>

definition zero_entry :: dir_entry where
  "zero_entry = \<lparr>filename = replicate 16 0, de_i_no = 0, f_type = 0\<rparr>"

definition create_dir_entry :: "u8 list \<Rightarrow> nat \<Rightarrow> file_type \<Rightarrow> dir_entry \<Rightarrow> dir_entry res" where
  "create_dir_entry name inode_no file_type p_de =
     ASSERT (length name \<le> MAX_FILENAME_LEN) ''strlen(filename) <= MAX_FILENAME_LEN''
      (Inr (p_de\<lparr>filename := splice 0 name (filename p_de), de_i_no := inode_no,
                  f_type := ft_code file_type\<rparr>))"

text \<open>
  The C string at the start of a buffer: the bytes in front of the first 0. For the name of an
  entry this runs on into the inode number when the name fills all 16 bytes.
\<close>

definition cstr :: "u8 list \<Rightarrow> u8 list" where
  "cstr bs = takeWhile (\<lambda>b. b \<noteq> 0) bs"

record super_block =
  magic :: nat
  sec_cnt :: nat
  inode_cnt :: nat
  part_lba_base :: nat
  block_bitmap_lba :: nat
  block_bitmap_sects :: nat
  inode_bitmap_lba :: nat
  inode_bitmap_sects :: nat
  inode_table_lba :: nat
  inode_table_sects :: nat
  data_start_lba :: nat
  root_inode_no :: nat
  dir_entry_size :: nat

definition sb_fields :: "super_block \<Rightarrow> nat list" where
  "sb_fields sb = [magic sb, sec_cnt sb, inode_cnt sb, part_lba_base sb, block_bitmap_lba sb,
     block_bitmap_sects sb, inode_bitmap_lba sb, inode_bitmap_sects sb, inode_table_lba sb,
     inode_table_sects sb, data_start_lba sb, root_inode_no sb, dir_entry_size sb]"

text \<open>The 460 bytes of \<open>pad\<close> are not set by the code; they do not matter to any reader.\<close>

definition super_block_bytes :: "super_block \<Rightarrow> u8 list \<Rightarrow> u8 list" where
  "super_block_bytes sb pad = table_bytes (sb_fields sb) @ pad"

definition read_super_block :: "u8 list \<Rightarrow> super_block" where
  "read_super_block bs = \<lparr>magic = rd32 bs 0, sec_cnt = rd32 bs 4, inode_cnt = rd32 bs 8,
     part_lba_base = rd32 bs 12, block_bitmap_lba = rd32 bs 16, block_bitmap_sects = rd32 bs 20,
     inode_bitmap_lba = rd32 bs 24, inode_bitmap_sects = rd32 bs 28, inode_table_lba = rd32 bs 32,
     inode_table_sects = rd32 bs 36, data_start_lba = rd32 bs 40, root_inode_no = rd32 bs 44,
     dir_entry_size = rd32 bs 48\<rparr>"

section \<open>What is stored can be read back\<close>

definition wf_inode :: "inode \<Rightarrow> bool" where
  "wf_inode i \<longleftrightarrow> i_no i < 2 ^ 32 \<and> i_size i < 2 ^ 32 \<and> i_open_cnts i < 2 ^ 32 \<and>
     length (i_sectors i) = 13 \<and> (\<forall>s \<in> set (i_sectors i). s < 2 ^ 32)"

definition wf_dir_entry :: "dir_entry \<Rightarrow> bool" where
  "wf_dir_entry e \<longleftrightarrow> length (filename e) = 16 \<and> de_i_no e < 2 ^ 32 \<and> f_type e < 2 ^ 32"

lemma length_inode_bytes [simp]: "wf_inode i \<Longrightarrow> length (inode_bytes i) = INODE_BYTES"
  by (simp add: inode_bytes_def wf_inode_def)

lemma length_dir_entry_bytes [simp]: "wf_dir_entry e \<Longrightarrow> length (dir_entry_bytes e) = DIR_ENTRY_BYTES"
  by (simp add: dir_entry_bytes_def wf_dir_entry_def)

lemma read_inode_bytes_append: "wf_inode i \<Longrightarrow> read_inode (inode_bytes i @ bs) = i"
  using read_table_bytes [of "i_sectors i" "replicate 8 0 @ bs"]
  by (cases i) (simp add: read_inode_def inode_bytes_def wf_inode_def read_table_def add.commute)

lemma read_dir_entry_bytes_append: "wf_dir_entry e \<Longrightarrow> read_dir_entry (dir_entry_bytes e @ bs) = e"
  by (cases e) (simp add: read_dir_entry_def dir_entry_bytes_def wf_dir_entry_def)

lemma read_super_block_bytes:
  assumes "\<forall>n \<in> set (sb_fields sb). n < 2 ^ 32"
  shows "read_super_block (super_block_bytes sb pad) = sb"
  using assms
  by (cases sb) (simp add: read_super_block_def super_block_bytes_def sb_fields_def table_bytes_def)

end
