(* ===== verification/Ide.thy ===== *)
theory Ide
  imports Prelude
begin

text \<open>
  \<open>device/ide.c\<close>: the driver of the ATA disk. Two views of a transfer are given. In the first
  a driver routine is the sequence of port accesses it makes, against a disk that is a
  parameter: \<open>dev\<close> answers a read of the data port after a sequence of accesses, \<open>busy\<close> is
  what the status register shows at each poll. The lock of the channel, its flag
  \<open>expecting_intr\<close> and its semaphore \<open>disk_done\<close> (theory \<open>Sync\<close>) appear in the sequence as
  events, at the place where the code uses them. In the second view, used by the file system, a
  disk is a map from sector numbers to sectors of 512 bytes. The results connect the two.
\<close>

abbreviation max_lba :: nat where "max_lba \<equiv> 80 * 1024 * 1024 div 512 - 1"

type_synonym sector = "u8 list"
type_synonym image = "nat \<Rightarrow> sector"

text \<open>
  An access: a byte written to a port, 16-bit words read from or written to the data port; the
  operations on the channel's lock, \<open>expecting_intr = true\<close>, and \<open>sema_down(&disk_done)\<close>.
\<close>

datatype access = Outb nat u8 | Insw nat nat | Outsw nat "u8 list"
  | Lock_acquire | Lock_release | Expect_intr | Disk_done_down

record channel_dev =
  port_base :: nat
  dev_no :: nat

definition reg_device :: "channel_dev \<Rightarrow> u8" where
  "reg_device hdd = 0xa0 OR 0x40 OR (if dev_no hdd = 1 then 0x10 else 0)"

definition select_disk :: "channel_dev \<Rightarrow> access list" where
  "select_disk hdd = [Outb (port_base hdd + 6) (reg_device hdd)]"

definition select_sector :: "channel_dev \<Rightarrow> u32 \<Rightarrow> u8 \<Rightarrow> access list res" where
  "select_sector hdd lba sec_cnt =
     ASSERT (unat lba < max_lba) ''lba < max_lba''
      (Inr [Outb (port_base hdd + 2) sec_cnt,
            Outb (port_base hdd + 3) (ucast lba),
            Outb (port_base hdd + 4) (ucast (drop_bit 8 lba)),
            Outb (port_base hdd + 5) (ucast (drop_bit 16 lba)),
            Outb (port_base hdd + 6)
              (ucast (0xa0 OR 0x40 OR (if dev_no hdd = 1 then 0x10 else 0) OR drop_bit 24 lba))])"

definition cmd_out :: "channel_dev \<Rightarrow> u8 \<Rightarrow> access list" where
  "cmd_out hdd cmd = [Expect_intr, Outb (port_base hdd + 7) cmd]"

text \<open>The number of bytes a transfer of \<open>sec_cnt\<close> sectors moves; the count 0 stands for 256.\<close>

definition size_in_bytes :: "u8 \<Rightarrow> nat" where
  "size_in_bytes sec_cnt = (if sec_cnt = 0 then 256 * 512 else unat sec_cnt * 512)"

definition read_from_sector :: "channel_dev \<Rightarrow> u8 \<Rightarrow> access list" where
  "read_from_sector hdd sec_cnt = [Insw (port_base hdd) (size_in_bytes sec_cnt div 2)]"

definition write2sector :: "channel_dev \<Rightarrow> u8 list \<Rightarrow> u8 \<Rightarrow> access list" where
  "write2sector hdd buf sec_cnt = [Outsw (port_base hdd) (take (size_in_bytes sec_cnt) buf)]"

text \<open>
  \<open>busy_wait\<close>: \<open>status n\<close> is the status register at the \<open>n\<close>-th read. The loop condition is
  \<open>time_limit -= 10 >= 0\<close>, in which C binds \<open>10 >= 0\<close> first: the limit goes down by 1 per
  round, and the loop ends when it reaches 0. The result is the returned flag and the number
  of 10 ms sleeps.
\<close>

fun busy_wait_from :: "nat \<Rightarrow> (nat \<Rightarrow> u8) \<Rightarrow> nat \<Rightarrow> nat \<Rightarrow> bool \<times> nat" where
  "busy_wait_from 0 status n slept = (False, slept)"
| "busy_wait_from (Suc time_limit) status n slept =
     (if time_limit = 0 then (False, slept)
      else if status n AND 0x80 = 0 then (status (Suc n) AND 0x8 \<noteq> 0, slept)
      else busy_wait_from time_limit status (Suc n) (Suc slept))"

definition busy_wait :: "(nat \<Rightarrow> u8) \<Rightarrow> bool \<times> nat" where
  "busy_wait status = busy_wait_from (30 * 1000) status 0 0"

text \<open>The size of the next chunk of a transfer.\<close>

definition secs_op :: "nat \<Rightarrow> nat \<Rightarrow> nat" where
  "secs_op secs_done sec_cnt = (if secs_done + 256 \<le> sec_cnt then 256 else sec_cnt - secs_done)"

text \<open>
  The loops of \<open>ide_read\<close> and \<open>ide_write\<close>: \<open>tr\<close> are the accesses so far, \<open>buf\<close> the data read
  so far (or still to be written). A chunk is never empty, so the loops end.
\<close>

function ide_read_loop ::
    "channel_dev \<Rightarrow> (access list \<Rightarrow> u8 list) \<Rightarrow> (access list \<Rightarrow> nat \<Rightarrow> u8) \<Rightarrow> u32 \<Rightarrow> nat \<Rightarrow> nat \<Rightarrow>
     access list \<Rightarrow> u8 list \<Rightarrow> (u8 list \<times> access list) res" where
  "ide_read_loop hdd dev status lba sec_cnt secs_done tr buf =
     (if secs_done < sec_cnt
      then let op = secs_op secs_done sec_cnt in
        bnd (select_sector hdd (lba + of_nat secs_done) (of_nat op)) (\<lambda>sel.
        let tr = tr @ sel @ cmd_out hdd 0x20 @ [Disk_done_down] in
        if \<not> fst (busy_wait (status tr)) then Inl (Panic ''read sector failed'')
        else let tr = tr @ read_from_sector hdd (of_nat op)
             in ide_read_loop hdd dev status lba sec_cnt (secs_done + op) tr (buf @ dev tr))
      else Inr (buf, tr))"
  by pat_completeness auto
termination
  by (relation "measure (\<lambda>(hdd, dev, st, lba, c, d, tr, buf). c - d)") (auto simp: secs_op_def)

function ide_write_loop ::
    "channel_dev \<Rightarrow> (access list \<Rightarrow> nat \<Rightarrow> u8) \<Rightarrow> u32 \<Rightarrow> nat \<Rightarrow> nat \<Rightarrow>
     access list \<Rightarrow> u8 list \<Rightarrow> access list res" where
  "ide_write_loop hdd status lba sec_cnt secs_done tr buf =
     (if secs_done < sec_cnt
      then let op = secs_op secs_done sec_cnt in
        bnd (select_sector hdd (lba + of_nat secs_done) (of_nat op)) (\<lambda>sel.
        let tr = tr @ sel @ cmd_out hdd 0x30 in
        if \<not> fst (busy_wait (status tr)) then Inl (Panic ''write sector failed'')
        else let tr = tr @ write2sector hdd (drop (secs_done * 512) buf) (of_nat op) @ [Disk_done_down]
             in ide_write_loop hdd status lba sec_cnt (secs_done + op) tr buf)
      else Inr tr)"
  by pat_completeness auto
termination
  by (relation "measure (\<lambda>(hdd, st, lba, c, d, tr, buf). c - d)") (auto simp: secs_op_def)

declare ide_read_loop.simps [simp del] ide_write_loop.simps [simp del]

definition ide_read ::
    "channel_dev \<Rightarrow> (access list \<Rightarrow> u8 list) \<Rightarrow> (access list \<Rightarrow> nat \<Rightarrow> u8) \<Rightarrow> u32 \<Rightarrow> nat \<Rightarrow>
     (u8 list \<times> access list) res" where
  "ide_read hdd dev status lba sec_cnt =
     ASSERT (unat lba \<le> max_lba) ''lba <= max_lba''
      (ASSERT (sec_cnt > 0) ''sec_cnt > 0''
        (bnd (ide_read_loop hdd dev status lba sec_cnt 0 (Lock_acquire # select_disk hdd) []) (\<lambda>(buf, tr).
         Inr (buf, tr @ [Lock_release]))))"

definition ide_write ::
    "channel_dev \<Rightarrow> (access list \<Rightarrow> nat \<Rightarrow> u8) \<Rightarrow> u32 \<Rightarrow> nat \<Rightarrow> u8 list \<Rightarrow> access list res" where
  "ide_write hdd status lba sec_cnt buf =
     ASSERT (unat lba \<le> max_lba) ''lba <= max_lba''
      (ASSERT (sec_cnt > 0) ''sec_cnt > 0''
        (bnd (ide_write_loop hdd status lba sec_cnt 0 (Lock_acquire # select_disk hdd) buf) (\<lambda>tr.
         Inr (tr @ [Lock_release]))))"

text \<open>
  The strings of an IDENTIFY answer have their bytes swapped pairwise: the \<open>len\<close> bytes at \<open>dst\<close>
  go to \<open>buf\<close>, with a 0 behind them. An odd \<open>len\<close> would read one byte too many.
\<close>

fun swap_paris_bytes :: "u8 list \<Rightarrow> u8 list res" where
  "swap_paris_bytes (a # b # rest) = bnd (swap_paris_bytes rest) (\<lambda>buf. Inr (b # a # buf))"
| "swap_paris_bytes [a] = Inl (Fault ''dst'')"
| "swap_paris_bytes [] = Inr [0]"

section \<open>The disk as a map of sectors\<close>

text \<open>
  What the driver relies on is the documented behaviour of an ATA disk under PIO commands. The disk
  keeps the registers the driver writes. A byte written to the command register (7) is a
  command for this disk only when bit 4 of the device register (6) has its number; the sector
  registers name a sector number only when bit 6 (LBA mode) is set. Command 0x20 (READ SECTORS)
  then offers the sectors at the data port, and 0x30 (WRITE SECTORS) waits for them. No other
  command moves sectors.
\<close>

datatype transfer = No_transfer | Data_in nat nat | Data_out nat nat

record ata =
  regs :: "nat \<Rightarrow> u8"
  transfer :: transfer
  img :: image

definition addressed :: "channel_dev \<Rightarrow> (nat \<Rightarrow> u8) \<Rightarrow> bool" where
  "addressed hdd r \<longleftrightarrow> r (port_base hdd + 6) AND 0x50 = (if dev_no hdd = 1 then 0x50 else 0x40)"

text \<open>The sector number (28 bits) and the number of sectors in the registers; the count 0 stands for 256.\<close>

definition lba28 :: "nat \<Rightarrow> (nat \<Rightarrow> u8) \<Rightarrow> nat" where
  "lba28 base r = unat (r (base + 3)) + 256 * unat (r (base + 4)) +
     65536 * unat (r (base + 5)) + 16777216 * (unat (r (base + 6) AND 0xf))"

definition sec_count :: "nat \<Rightarrow> (nat \<Rightarrow> u8) \<Rightarrow> nat" where
  "sec_count base r = (if r (base + 2) = 0 then 256 else unat (r (base + 2)))"

definition ata_command :: "channel_dev \<Rightarrow> u8 \<Rightarrow> (nat \<Rightarrow> u8) \<Rightarrow> transfer" where
  "ata_command hdd cmd r =
     (if \<not> addressed hdd r then No_transfer
      else if cmd = 0x20 then Data_in (lba28 (port_base hdd) r) (sec_count (port_base hdd) r)
      else if cmd = 0x30 then Data_out (lba28 (port_base hdd) r) (sec_count (port_base hdd) r)
      else No_transfer)"

definition sectors :: "image \<Rightarrow> nat \<Rightarrow> nat \<Rightarrow> u8 list" where
  "sectors d lba n = concat (map d [lba ..< lba + n])"

text \<open>The image with \<open>bs\<close> from sector \<open>lba\<close> on.\<close>

definition put_sectors :: "image \<Rightarrow> nat \<Rightarrow> u8 list \<Rightarrow> image" where
  "put_sectors d lba bs =
     (\<lambda>s. if lba \<le> s \<and> s < lba + length bs div 512 then take 512 (drop ((s - lba) * 512) bs) else d s)"

text \<open>
  The disk after an access. A transfer is over when the data of the command has gone through
  the data port; one of another length, or in the other direction, stores nothing.
\<close>

definition ata_step :: "channel_dev \<Rightarrow> access \<Rightarrow> ata \<Rightarrow> ata" where
  "ata_step hdd a s =
     (case a of
        Outb p b \<Rightarrow>
          if p = port_base hdd + 7 then s\<lparr>transfer := ata_command hdd b (regs s)\<rparr>
          else s\<lparr>regs := (regs s)(p := b)\<rparr>
      | Insw p n \<Rightarrow> if p = port_base hdd then s\<lparr>transfer := No_transfer\<rparr> else s
      | Outsw p bs \<Rightarrow>
          if p = port_base hdd
          then s\<lparr>transfer := No_transfer, img :=
                 (case transfer s of
                    Data_out lba n \<Rightarrow> if length bs = n * 512 then put_sectors (img s) lba bs else img s
                  | _ \<Rightarrow> img s)\<rparr>
          else s
      | _ \<Rightarrow> s)"

definition ata_run :: "channel_dev \<Rightarrow> ata \<Rightarrow> access list \<Rightarrow> ata" where
  "ata_run hdd s tr = fold (ata_step hdd) tr s"

lemma ata_run_append [simp]: "ata_run hdd s (xs @ ys) = ata_run hdd (ata_run hdd s xs) ys"
  by (simp add: ata_run_def)

lemma ata_run_events [simp]:
  "ata_run hdd s [] = s" "ata_run hdd s (Lock_acquire # as) = ata_run hdd s as"
  "ata_run hdd s (Lock_release # as) = ata_run hdd s as" "ata_run hdd s (Expect_intr # as) = ata_run hdd s as"
  "ata_run hdd s (Disk_done_down # as) = ata_run hdd s as"
  by (simp_all add: ata_run_def ata_step_def)

lemma ata_run_Cons: "ata_run hdd s (a # as) = ata_run hdd (ata_step hdd a s) as"
  by (simp add: ata_run_def)

text \<open>
  The data port delivers the sectors of a read command that the disk has accepted, and the
  driver's wait for the disk succeeds while the disk works on a command.
\<close>

definition ata_reads :: "channel_dev \<Rightarrow> ata \<Rightarrow> (access list \<Rightarrow> u8 list) \<Rightarrow> bool" where
  "ata_reads hdd s dev \<longleftrightarrow>
     (\<forall>tr lba n. transfer (ata_run hdd s tr) = Data_in lba n \<longrightarrow>
       dev (tr @ [Insw (port_base hdd) (n * 256)]) = sectors (img (ata_run hdd s tr)) lba n)"

definition answers :: "channel_dev \<Rightarrow> ata \<Rightarrow> (access list \<Rightarrow> nat \<Rightarrow> u8) \<Rightarrow> bool" where
  "answers hdd s status \<longleftrightarrow>
     (\<forall>tr. transfer (ata_run hdd s tr) \<noteq> No_transfer \<longrightarrow> fst (busy_wait (status tr)))"

section \<open>The pieces of a transfer\<close>

lemma busy_wait_from_ready:
  "k + 1 < t \<Longrightarrow> \<forall>i < k. status (n + i) AND 0x80 \<noteq> 0 \<Longrightarrow> status (n + k) AND 0x80 = 0 \<Longrightarrow>
   busy_wait_from t status n s = (status (n + Suc k) AND 0x8 \<noteq> 0, s + k)"
proof (induction k arbitrary: t n s)
  case 0
  then obtain t' where "t = Suc t'" "t' \<noteq> 0" by (cases t) auto
  then show ?case using 0 by simp
next
  case (Suc k)
  then obtain t' where t: "t = Suc t'" "k + 1 < t'" by (cases t) auto
  have "status n AND 0x80 \<noteq> 0" using Suc.prems(2) by (metis add_0_right zero_less_Suc)
  moreover have "\<forall>i < k. status (Suc n + i) AND 0x80 \<noteq> 0" using Suc.prems(2)
    by (metis Suc_less_eq add_Suc_shift)
  ultimately show ?case
    using Suc.IH [of t' "Suc n" "Suc s"] Suc.prems(3) t by simp
qed

lemma busy_wait_from_never:
  "\<forall>i. status i AND 0x80 \<noteq> 0 \<Longrightarrow> busy_wait_from (Suc t) status n s = (False, s + t)"
  by (induction t arbitrary: n s) simp_all

lemma size_in_bytes_of_nat:
  "0 < n \<Longrightarrow> n \<le> 256 \<Longrightarrow> size_in_bytes (of_nat n) = n * 512"
proof (cases "n = 256")
  case True
  then show ?thesis by (simp add: size_in_bytes_def)
next
  case False
  assume "0 < n" "n \<le> 256"
  then have "unat (of_nat n :: u8) = n" using False by (simp add: unsigned_of_nat take_bit_nat_eq_self)
  then show ?thesis using \<open>0 < n\<close> by (auto simp: size_in_bytes_def)
qed

lemma sec_count_of_nat:
  "r (base + 2) = of_nat n \<Longrightarrow> 0 < n \<Longrightarrow> n \<le> 256 \<Longrightarrow> sec_count base r = n"
proof (cases "n = 256")
  case True
  then show "r (base + 2) = of_nat n \<Longrightarrow> sec_count base r = n" by (simp add: sec_count_def)
next
  case False
  assume "r (base + 2) = of_nat n" "0 < n" "n \<le> 256"
  moreover have "unat (of_nat n :: u8) = n" using calculation False by (simp add: unsigned_of_nat take_bit_nat_eq_self)
  ultimately show ?thesis by (auto simp: sec_count_def)
qed

lemma lba_bytes: "n < 16777216 \<Longrightarrow>
   n mod 256 + 256 * (n div 256 mod 256) + 65536 * (n div 65536 mod 256) = (n :: nat)"
proof -
  assume "n < 16777216"
  then have "n div 65536 mod 256 = n div 256 div 256" by (simp flip: div_mult2_eq)
  then show ?thesis
    using div_mult_mod_eq [of n 256] div_mult_mod_eq [of "n div 256" 256] by linarith
qed

text \<open>After \<open>select_sector\<close> and a command the disk works on the sectors of the call.\<close>

lemma select_sector_command:
  assumes "unat lba < max_lba" "0 < n" "n \<le> 256"
    and sel: "select_sector hdd lba (of_nat n) = Inr sel"
  shows "transfer (ata_run hdd s (tr @ sel @ cmd_out hdd 0x20)) = Data_in (unat lba) n"
    "transfer (ata_run hdd s (tr @ sel @ cmd_out hdd 0x30)) = Data_out (unat lba) n"
    "img (ata_run hdd s (tr @ sel @ cmd_out hdd cmd)) = img (ata_run hdd s tr)"
proof -
  let ?b = "port_base hdd"
  let ?dev = "ucast (0xa0 OR 0x40 OR (if dev_no hdd = 1 then 0x10 else 0) OR drop_bit 24 lba) :: u8"
  let ?r = "(regs (ata_run hdd s tr))(?b + 2 := of_nat n, ?b + 3 := ucast lba, ?b + 4 := ucast (drop_bit 8 lba),
      ?b + 5 := ucast (drop_bit 16 lba), ?b + 6 := ?dev)"
  have lt: "unat lba < 163839" using assms(1) by simp
  have u: "unat (ucast lba :: u8) = unat lba mod 256"
    "unat (ucast (drop_bit 8 lba) :: u8) = unat lba div 256 mod 256"
    "unat (ucast (drop_bit 16 lba) :: u8) = unat lba div 65536 mod 256"
    by (simp_all add: unsigned_ucast_eq take_bit_eq_mod unat_drop_bit_eq drop_bit_eq_div unat_div)
  have z: "drop_bit 24 lba = 0"
    using lt by (intro word_unat_eq_iff [THEN iffD2]) (simp add: unat_drop_bit_eq drop_bit_eq_div unat_div)
  have "lba28 ?b ?r = unat lba"
    using lba_bytes [of "unat lba"] lt by (simp add: lba28_def u z)
  moreover have "sec_count ?b ?r = n" by (rule sec_count_of_nat [OF _ assms(2,3)]) simp
  moreover have "addressed hdd ?r" by (simp add: addressed_def z)
  moreover have "ata_run hdd s (tr @ sel @ cmd_out hdd c) =
      (ata_run hdd s tr)\<lparr>regs := ?r, transfer := ata_command hdd c ?r\<rparr>" for c
    using sel assms(1) by (auto simp: select_sector_def cmd_out_def ata_run_Cons ata_step_def)
  ultimately show "transfer (ata_run hdd s (tr @ sel @ cmd_out hdd 0x20)) = Data_in (unat lba) n"
    "transfer (ata_run hdd s (tr @ sel @ cmd_out hdd 0x30)) = Data_out (unat lba) n"
    "img (ata_run hdd s (tr @ sel @ cmd_out hdd cmd)) = img (ata_run hdd s tr)"
    by (simp_all add: ata_command_def)
qed

lemma sectors_append: "sectors d a m @ sectors d (a + m) n = sectors d a (m + n)"
  using upt_add_eq_append [of a "a + m" n] by (simp add: sectors_def add.assoc)

lemma length_sectors: "\<forall>s. length (d s) = 512 \<Longrightarrow> length (sectors d a n) = n * 512"
  by (induction n) (simp_all add: sectors_def)

lemma secs_op_bounds: "d < c \<Longrightarrow> 0 < secs_op d c \<and> secs_op d c \<le> 256 \<and> d + secs_op d c \<le> c"
  by (auto simp: secs_op_def)

lemma unat_add_lba: "unat (lba :: u32) + n < 163839 \<Longrightarrow> unat (lba + of_nat n) = unat lba + n"
  by (simp add: unat_word_ariths unsigned_of_nat take_bit_nat_eq_self)

lemma put_sectors_append:
  assumes "length xs = m * 512"
  shows "put_sectors (put_sectors d l xs) (l + m) ys = put_sectors d l (xs @ ys)"
proof
  fix s
  have "drop ((s - (l + m)) * 512) ys = drop ((s - l) * 512 - length xs) ys" if "l + m \<le> s"
    using that assms by (simp add: diff_mult_distrib)
  moreover have "take 512 (drop ((s - l) * 512) xs) = take 512 (drop ((s - l) * 512) (xs @ ys))"
    if "s < l + m" "l \<le> s"
  proof -
    have "Suc (s - l) * 512 \<le> m * 512" using that by (intro mult_le_mono1) simp
    then show ?thesis using assms by simp
  qed
  ultimately show "put_sectors (put_sectors d l xs) (l + m) ys s = put_sectors d l (xs @ ys) s"
    using assms by (auto simp: put_sectors_def)
qed

lemma put_sectors_Nil [simp]: "put_sectors d l [] = d"
  by (rule ext) (auto simp: put_sectors_def)

text \<open>
  The discipline of a transfer: the lock of the channel is taken first and held, and each command
  that lets the disk raise an interrupt is waited for.
\<close>

definition under_lock :: "access list \<Rightarrow> bool" where
  "under_lock tr \<longleftrightarrow> (\<exists>as. tr = Lock_acquire # as \<and> Lock_acquire \<notin> set as \<and> Lock_release \<notin> set as \<and>
     count_list as Disk_done_down = count_list as Expect_intr)"

lemma under_lock_append:
  "under_lock tr \<Longrightarrow> Lock_acquire \<notin> set as \<Longrightarrow> Lock_release \<notin> set as \<Longrightarrow>
   count_list as Disk_done_down = count_list as Expect_intr \<Longrightarrow> under_lock (tr @ as)"
  by (auto simp: under_lock_def)

lemma under_lock_chunk:
  assumes "under_lock tr" "select_sector hdd lba n = Inr sel"
  shows "under_lock (tr @ sel @ cmd_out hdd cmd @ Disk_done_down # read_from_sector hdd cnt)"
    "under_lock (tr @ sel @ cmd_out hdd cmd @ [Outsw p data, Disk_done_down])"
  using assms(2)
  by (auto simp: select_sector_def cmd_out_def read_from_sector_def res_simps intro!: under_lock_append [OF assms(1)])

lemma ide_read_loop_ok:
  assumes "ata_reads hdd s dev" "answers hdd s status" "unat lba + sec_cnt \<le> max_lba" "secs_done \<le> sec_cnt"
    "buf = sectors (img s) (unat lba) secs_done" "img (ata_run hdd s tr) = img s" "under_lock tr"
  shows "\<exists>tr'. ide_read_loop hdd dev status lba sec_cnt secs_done tr buf =
    Inr (sectors (img s) (unat lba) sec_cnt, tr') \<and> img (ata_run hdd s tr') = img s \<and> under_lock tr'"
  using assms(4-7)
proof (induction "sec_cnt - secs_done" arbitrary: secs_done tr buf rule: less_induct)
  case less
  show ?case
  proof (cases "secs_done < sec_cnt")
    case False
    then show ?thesis using less.prems by (subst ide_read_loop.simps) simp
  next
    case True
    let ?op = "secs_op secs_done sec_cnt" and ?l = "lba + of_nat secs_done"
    note op = secs_op_bounds [OF True]
    have l: "unat ?l = unat lba + secs_done" "unat ?l < max_lba"
      using unat_add_lba [of lba secs_done] assms(3) True by simp_all
    obtain sel where sel: "select_sector hdd ?l (of_nat ?op) = Inr sel"
      using l(2) by (simp add: select_sector_def)
    let ?tr = "tr @ sel @ cmd_out hdd 0x20 @ [Disk_done_down]"
    have at: "ata_run hdd s ?tr = ata_run hdd s (tr @ sel @ cmd_out hdd 0x20)" by simp
    have tr: "transfer (ata_run hdd s ?tr) = Data_in (unat lba + secs_done) ?op"
      "img (ata_run hdd s ?tr) = img s"
      unfolding at using select_sector_command [OF l(2) _ _ sel] op less.prems(3) l(1) by auto
    have ready: "fst (busy_wait (status ?tr))" using assms(2) tr(1) by (simp add: answers_def)
    have port: "read_from_sector hdd (of_nat ?op) = [Insw (port_base hdd) (?op * 256)]"
      using op by (simp add: read_from_sector_def size_in_bytes_of_nat)
    have data: "dev (?tr @ read_from_sector hdd (of_nat ?op)) = sectors (img s) (unat lba + secs_done) ?op"
      using assms(1) tr unfolding ata_reads_def port by metis
    have step: "ide_read_loop hdd dev status lba sec_cnt secs_done tr buf =
        ide_read_loop hdd dev status lba sec_cnt (secs_done + ?op)
          (?tr @ read_from_sector hdd (of_nat ?op)) (buf @ sectors (img s) (unat lba + secs_done) ?op)"
      using True sel ready data by (subst ide_read_loop.simps) (simp add: Let_def)
    have "buf @ sectors (img s) (unat lba + secs_done) ?op = sectors (img s) (unat lba) (secs_done + ?op)"
      using less.prems(2) sectors_append by simp
    moreover have "img (ata_run hdd s (?tr @ read_from_sector hdd (of_nat ?op))) = img s"
      unfolding ata_run_append [of hdd s ?tr] using tr(2) by (simp add: port ata_run_Cons ata_step_def)
    moreover have "sec_cnt - (secs_done + ?op) < sec_cnt - secs_done" "secs_done + ?op \<le> sec_cnt"
      using op True by linarith+
    moreover have "under_lock (?tr @ read_from_sector hdd (of_nat ?op))"
      using under_lock_chunk(1) [OF less.prems(4) sel] by simp
    ultimately show ?thesis
      using less.hyps [of "secs_done + ?op" "sectors (img s) (unat lba) (secs_done + ?op)"
          "?tr @ read_from_sector hdd (of_nat ?op)"] step by metis
  qed
qed

lemma ide_write_loop_ok:
  assumes "answers hdd s status" "unat lba + sec_cnt \<le> max_lba" "secs_done \<le> sec_cnt"
    "length buf = sec_cnt * 512"
    "img (ata_run hdd s tr) = put_sectors (img s) (unat lba) (take (secs_done * 512) buf)" "under_lock tr"
  shows "\<exists>tr'. ide_write_loop hdd status lba sec_cnt secs_done tr buf = Inr tr' \<and>
    img (ata_run hdd s tr') = put_sectors (img s) (unat lba) buf \<and> under_lock tr'"
  using assms(3,5,6)
proof (induction "sec_cnt - secs_done" arbitrary: secs_done tr rule: less_induct)
  case less
  show ?case
  proof (cases "secs_done < sec_cnt")
    case False
    then show ?thesis using less.prems assms(4) by (subst ide_write_loop.simps) simp
  next
    case True
    let ?op = "secs_op secs_done sec_cnt" and ?l = "lba + of_nat secs_done"
    let ?data = "take (?op * 512) (drop (secs_done * 512) buf)"
    note op = secs_op_bounds [OF True]
    have l: "unat ?l = unat lba + secs_done" "unat ?l < max_lba"
      using unat_add_lba [of lba secs_done] assms(2) True by simp_all
    obtain sel where sel: "select_sector hdd ?l (of_nat ?op) = Inr sel"
      using l(2) by (simp add: select_sector_def)
    let ?cmd = "tr @ sel @ cmd_out hdd 0x30"
    let ?tr = "?cmd @ [Outsw (port_base hdd) ?data, Disk_done_down]"
    have tr: "transfer (ata_run hdd s ?cmd) = Data_out (unat lba + secs_done) ?op"
      "img (ata_run hdd s ?cmd) = put_sectors (img s) (unat lba) (take (secs_done * 512) buf)"
      using select_sector_command(2,3) [OF l(2) _ _ sel] op less.prems(2) l(1) by auto
    have ready: "fst (busy_wait (status ?cmd))" using assms(1) tr(1) by (simp add: answers_def)
    have sz: "size_in_bytes (of_nat ?op) = ?op * 512" using op by (intro size_in_bytes_of_nat) auto
    have step: "ide_write_loop hdd status lba sec_cnt secs_done tr buf =
        ide_write_loop hdd status lba sec_cnt (secs_done + ?op) ?tr buf"
      using True sel ready
      by (subst ide_write_loop.simps) (simp add: Let_def write2sector_def sz)
    have len: "length ?data = ?op * 512" "length (take (secs_done * 512) buf) = secs_done * 512"
      using assms(4) op by (simp_all add: min_def) linarith
    have "img (ata_run hdd s ?tr) = put_sectors (img s) (unat lba) (take (secs_done * 512) buf @ ?data)"
      unfolding ata_run_append [of hdd s ?cmd] using tr len put_sectors_append [OF len(2)]
      by (simp add: ata_run_Cons ata_step_def)
    also have "take (secs_done * 512) buf @ ?data = take ((secs_done + ?op) * 512) buf"
      by (simp add: take_add add_mult_distrib)
    finally have "img (ata_run hdd s ?tr) = put_sectors (img s) (unat lba) (take ((secs_done + ?op) * 512) buf)" .
    moreover have "sec_cnt - (secs_done + ?op) < sec_cnt - secs_done" "secs_done + ?op \<le> sec_cnt"
      using op True by linarith+
    moreover have "under_lock ?tr" using under_lock_chunk(2) [OF less.prems(3) sel] by simp
    ultimately show ?thesis using less.hyps [of "secs_done + ?op" ?tr] step by metis
  qed
qed

section \<open>Results\<close>


text \<open>A disk that is always ready, and answers as the registers say.\<close>

definition demo_hdd :: channel_dev where
  "demo_hdd = \<lparr>port_base = 0x1f0, dev_no = 1\<rparr>"

definition demo_ata :: ata where
  "demo_ata = \<lparr>regs = (\<lambda>_. 0), transfer = No_transfer, img = (\<lambda>s. replicate 512 (of_nat s))\<rparr>"

definition demo_dev :: "access list \<Rightarrow> u8 list" where
  "demo_dev tr =
     (case transfer (ata_run demo_hdd demo_ata (butlast tr)) of
        Data_in lba n \<Rightarrow> sectors (img (ata_run demo_hdd demo_ata (butlast tr))) lba n
      | _ \<Rightarrow> [])"

lemma demo_dev_reads: "ata_reads demo_hdd demo_ata demo_dev"
  by (simp add: ata_reads_def demo_dev_def)

lemma ready_answers: "answers hdd s (\<lambda>tr n. 0x48)"
  using busy_wait_from_ready [of 0 "30 * 1000" "\<lambda>n. 0x48" 0 0] by (simp add: answers_def busy_wait_def)




text \<open>
  The time limit of \<open>busy_wait\<close>. A disk whose busy bit clears after \<open>k < 29999\<close> polls is
  waited for, with \<open>k\<close> sleeps of 10 ms; one that stays busy is given up only after 29999
  sleeps, which is five minutes and not the 30 seconds of the comment, because the loop
  condition \<open>time_limit -= 10 >= 0\<close> subtracts 1.
\<close>

theorem busy_wait_limit:
  "(k < 29999 \<and> (\<forall>i < k. status i AND 0x80 \<noteq> 0) \<and> status k AND 0x80 = 0 \<longrightarrow>
      busy_wait status = (status (Suc k) AND 0x8 \<noteq> 0, k)) \<and>
   ((\<forall>i. status i AND 0x80 \<noteq> 0) \<longrightarrow> busy_wait status = (False, 29999))"
  using busy_wait_from_ready [of k "30 * 1000" status 0 0] busy_wait_from_never [of status 29999 0 0]
  by (auto simp: busy_wait_def)

lemma busy_wait_limit_witness:
  "busy_wait (\<lambda>i. 0x80) = (False, 29999) \<and>
   busy_wait (\<lambda>i. if i < 3 then 0x80 else 0x8) = (True, 3)"
  using busy_wait_limit [of 3 "\<lambda>i. 0x80"] busy_wait_limit [of 3 "\<lambda>i. if i < 3 then 0x80 else 0x8"]
  by simp

end
