(* ===== verification/Inode.thy ===== *)
theory Inode
  imports Fsdata Ide Ioqueue
begin

text \<open>
  The state of the file system and \<open>fs/inode.c\<close>: finding, reading, writing and releasing
  i-nodes, with the two bitmaps of the partition.

  The state extends the scheduler's record. \<open>disk_image\<close> is the disk of the mounted partition
  \<open>cur_part\<close>, whose other fields follow. Objects on the kernel heap (i-nodes, open directories,
  pipes) are reached by their addresses; \<open>next_addr\<close> is the next address the heap hands out,
  and \<open>mallocs\<close> says for each coming call of \<open>sys_malloc\<close> whether it succeeds (all calls
  succeed after the end of the list). Buffers are local values: \<open>sys_malloc\<close> clears them.
  Messages printed by \<open>printk\<close> are left out. The last fields are \<open>fd_table\<close> and
  \<open>cwd_inode_nr\<close> of \<open>struct task\<close>, the keyboard buffer, and what \<open>sys_write\<close> puts on the screen.
\<close>

text \<open>\<open>struct dir\<close> and \<open>struct file\<close>; the pointers to i-nodes are addresses, 0 is \<open>NULL\<close>.\<close>

record dir =
  dir_inode :: nat
  dir_pos :: nat
  dir_buf :: "u8 list"

record ofile =
  fd_pos :: nat
  fd_flag :: nat
  fd_inode :: nat

record fsk = kernel +
  disk_image :: image
  start_lba :: nat
  part_sec_cnt :: nat
  sb :: super_block
  block_bitmap :: bitmap
  inode_bitmap :: bitmap
  open_inodes :: "nat list"
  inodes :: "nat \<Rightarrow> inode option"
  dirs :: "nat \<Rightarrow> dir option"
  pipes :: "nat \<Rightarrow> ioqueue option"
  file_table :: "ofile list"
  mallocs :: "bool list"
  next_addr :: nat
  fd_table :: "tid \<Rightarrow> int list"
  cwd_inode_nr :: "tid \<Rightarrow> int"
  kbd_buf :: ioqueue
  screen :: "u8 list"

definition heap_reply :: "fsk \<Rightarrow> bool \<times> fsk" where
  "heap_reply k = (case mallocs k of [] \<Rightarrow> (True, k) | b # bs \<Rightarrow> (b, k\<lparr>mallocs := bs\<rparr>))"

text \<open>
  \<open>ide_read\<close> and \<open>ide_write\<close> on the image, with their checks (theory \<open>Ide\<close> has the transfer
  itself). The check of \<open>select_sector\<close> is made at the start of every chunk.
\<close>

definition lba_ok :: "nat \<Rightarrow> nat \<Rightarrow> bool" where
  "lba_ok lba n \<longleftrightarrow> lba \<le> max_lba \<and> n > 0 \<and> lba + 256 * ((n - 1) div 256) < max_lba"

definition disk_read :: "nat \<Rightarrow> nat \<Rightarrow> fsk \<Rightarrow> u8 list res" where
  "disk_read lba n k = ASSERT (lba_ok lba n) ''lba < max_lba'' (Inr (sectors (disk_image k) lba n))"

definition disk_write :: "nat \<Rightarrow> u8 list \<Rightarrow> nat \<Rightarrow> fsk \<Rightarrow> fsk res" where
  "disk_write lba bs n k = ASSERT (lba_ok lba n) ''lba < max_lba''
     (Inr (k\<lparr>disk_image := put_sectors (disk_image k) lba (take (n * SECTOR_SIZE) bs)\<rparr>))"

definition get_inode :: "nat \<Rightarrow> fsk \<Rightarrow> inode res" where
  "get_inode a k = (case inodes k a of None \<Rightarrow> Inl (Fault ''inode'') | Some i \<Rightarrow> Inr i)"

definition set_inode :: "nat \<Rightarrow> inode \<Rightarrow> fsk \<Rightarrow> fsk" where
  "set_inode a i k = k\<lparr>inodes := (inodes k)(a \<mapsto> i)\<rparr>"

text \<open>Subtraction of 32-bit values.\<close>

definition sub32 :: "nat \<Rightarrow> nat \<Rightarrow> nat" where
  "sub32 a b = (a + 2 ^ 32 - b) mod 2 ^ 32"

section \<open>The operations of inode.c\<close>

record inode_position =
  two_sec :: bool
  sec_lba :: nat
  off_size :: nat

definition inode_locate :: "super_block \<Rightarrow> nat \<Rightarrow> inode_position res" where
  "inode_locate psb inode_no =
     ASSERT (inode_no < 4096) ''inode_no < 4096''
      (let off_bytes = inode_no * INODE_BYTES;
           off_sec = off_bytes div SECTOR_SIZE;
           off_size_in_sec = off_bytes mod SECTOR_SIZE
       in Inr \<lparr>two_sec = (SECTOR_SIZE - off_size_in_sec < INODE_BYTES),
               sec_lba = inode_table_lba psb + off_sec,
               off_size = off_size_in_sec\<rparr>)"

definition inode_secs :: "inode_position \<Rightarrow> nat" where
  "inode_secs pos = (if two_sec pos then 2 else 1)"

text \<open>The copy that goes to disk has the fields cleared that only mean something in memory.\<close>

definition pure_inode :: "inode \<Rightarrow> inode" where
  "pure_inode i = i\<lparr>i_open_cnts := 0, writen_deny := False\<rparr>"

definition inode_sync :: "inode \<Rightarrow> fsk \<Rightarrow> fsk res" where
  "inode_sync inode k =
     bnd (inode_locate (sb k) (i_no inode)) (\<lambda>pos.
     ASSERT (sec_lba pos \<le> start_lba k + part_sec_cnt k) ''inode_pos.sec_lba''
      (bnd (disk_read (sec_lba pos) (inode_secs pos) k) (\<lambda>inode_buf.
       disk_write (sec_lba pos) (splice (off_size pos) (inode_bytes (pure_inode inode)) inode_buf)
         (inode_secs pos) k)))"

text \<open>
  \<open>inode_open\<close>: an i-node that is open already is shared; otherwise it is read from disk into
  a new object at the front of the list. Neither result of \<open>sys_malloc\<close> is checked.
\<close>

definition inode_open :: "nat \<Rightarrow> fsk \<Rightarrow> (nat \<times> fsk) res" where
  "inode_open inode_no k =
     (case find (\<lambda>a. map_option i_no (inodes k a) = Some inode_no) (open_inodes k) of
        Some a \<Rightarrow> bnd (get_inode a k) (\<lambda>i.
          Inr (a, set_inode a (i\<lparr>i_open_cnts := (i_open_cnts i + 1) mod 2 ^ 32\<rparr>) k))
      | None \<Rightarrow>
          bnd (inode_locate (sb k) inode_no) (\<lambda>pos.
          let (ok, k) = heap_reply k in
          GUARD ok ''retinode''
           (let (ok, k) = heap_reply k in
            GUARD ok ''inode_buf''
             (bnd (disk_read (sec_lba pos) (inode_secs pos) k) (\<lambda>inode_buf.
              let a = next_addr k;
                  i = read_inode (drop (off_size pos) inode_buf);
                  k = set_inode a (i\<lparr>i_open_cnts := 1\<rparr>) (k\<lparr>next_addr := next_addr k + 1\<rparr>)
              in Inr (a, k\<lparr>open_inodes := a # open_inodes k\<rparr>))))))"

definition inode_close :: "nat \<Rightarrow> fsk \<Rightarrow> fsk res" where
  "inode_close a k =
     (let (old_status, k) = intr_disable k in
      bnd (get_inode a k) (\<lambda>i.
      let cnt = sub32 (i_open_cnts i) 1;
          k = set_inode a (i\<lparr>i_open_cnts := cnt\<rparr>) k;
          k = (if cnt = 0
               then k\<lparr>open_inodes := remove1 a (open_inodes k), inodes := (inodes k)(a := None)\<rparr>
               else k)
      in Inr (snd (intr_set_status old_status k))))"

definition inode_delete :: "nat \<Rightarrow> fsk \<Rightarrow> fsk res" where
  "inode_delete inode_no k =
     ASSERT (inode_no < 4096) ''inode_no < 4096''
      (bnd (inode_locate (sb k) inode_no) (\<lambda>pos.
       ASSERT (sec_lba pos \<le> start_lba k + part_sec_cnt k) ''inode_pos.sec_lba''
        (bnd (disk_read (sec_lba pos) (inode_secs pos) k) (\<lambda>inode_buf.
         disk_write (sec_lba pos) (splice (off_size pos) (replicate INODE_BYTES 0) inode_buf)
           (inode_secs pos) k))))"

text \<open>From \<open>fs/file.c\<close>: the sector of a bitmap that holds one bit is written to disk.\<close>

datatype bitmap_type = INODE_BITMAP | BLOCK_BITMAP

definition bitmap_sync :: "nat \<Rightarrow> bitmap_type \<Rightarrow> fsk \<Rightarrow> fsk res" where
  "bitmap_sync bit_idx btmp k =
     (let off_sec = bit_idx div BITS_PER_SECTOR;
          off_bytes = off_sec * BLOCK_SIZE;
          (lba, bs) = (case btmp of
              INODE_BITMAP \<Rightarrow> (inode_bitmap_lba (sb k) + off_sec, bits (inode_bitmap k))
            | BLOCK_BITMAP \<Rightarrow> (block_bitmap_lba (sb k) + off_sec, bits (block_bitmap k)))
      in GUARD (off_bytes + SECTOR_SIZE \<le> length bs) ''bitmap.bits''
          (disk_write lba (drop off_bytes bs) 1 k))"

text \<open>Gives one data block back; the loop body of step c of \<open>inode_realse\<close>.\<close>

definition free_block :: "nat \<Rightarrow> fsk \<Rightarrow> fsk res" where
  "free_block lba k =
     (let block_bitmap_idx = sub32 lba (data_start_lba (sb k)) in
      ASSERT (block_bitmap_idx > 0) ''block_bitmap_idx > 0''
       (bnd (bitmap_set (block_bitmap k) block_bitmap_idx 0) (\<lambda>b.
        bitmap_sync block_bitmap_idx BLOCK_BITMAP (k\<lparr>block_bitmap := b\<rparr>))))"

fun free_blocks :: "nat list \<Rightarrow> fsk \<Rightarrow> fsk res" where
  "free_blocks [] k = Inr k"
| "free_blocks (lba # lbas) k =
     bnd (if lba \<noteq> 0 then free_block lba k else Inr k) (free_blocks lbas)"

text \<open>The addresses of all blocks of a file or directory; 0 stands for no block.\<close>

definition all_blocks :: "inode \<Rightarrow> fsk \<Rightarrow> nat list res" where
  "all_blocks i k =
     (if i_sectors i ! 12 \<noteq> 0
      then bnd (disk_read (i_sectors i ! 12) 1 k) (\<lambda>bs. Inr (take 12 (i_sectors i) @ read_table 0 128 bs))
      else Inr (take 12 (i_sectors i) @ replicate 128 0))"

definition inode_realse :: "nat \<Rightarrow> fsk \<Rightarrow> fsk res" where
  "inode_realse inode_no k =
     bnd (inode_open inode_no k) (\<lambda>(a, k).
     bnd (get_inode a k) (\<lambda>inode2del.
     ASSERT (i_no inode2del = inode_no) ''inode2del->i_no == inode_no''
      (bnd (all_blocks inode2del k) (\<lambda>blocks.
       bnd (if i_sectors inode2del ! 12 \<noteq> 0 then free_block (i_sectors inode2del ! 12) k else Inr k) (\<lambda>k.
       bnd (free_blocks (if i_sectors inode2del ! 12 \<noteq> 0 then blocks else take 12 blocks) k) (\<lambda>k.
       bnd (bitmap_set (inode_bitmap k) inode_no 0) (\<lambda>b.
       bnd (bitmap_sync inode_no INODE_BITMAP (k\<lparr>inode_bitmap := b\<rparr>)) (\<lambda>k.
       let (ok, k) = heap_reply k in
       GUARD ok ''io_buf''
        (bnd (inode_delete inode_no k) (inode_close a))))))))))"

definition inode_init :: "nat \<Rightarrow> inode" where
  "inode_init inode_no = \<lparr>i_no = inode_no, i_size = 0, i_open_cnts = 0, writen_deny = False,
     i_sectors = replicate 13 0\<rparr>"

section \<open>The disk as one array of bytes\<close>

definition wf_image :: "image \<Rightarrow> bool" where
  "wf_image d \<longleftrightarrow> (\<forall>s. length (d s) = SECTOR_SIZE)"

lemma length_sectors_wf [simp]: "wf_image d \<Longrightarrow> length (sectors d lba n) = n * SECTOR_SIZE"
  by (rule length_sectors) (simp add: wf_image_def)

lemma sectors_Suc: "sectors d lba (Suc n) = sectors d lba n @ d (lba + n)"
  by (simp add: sectors_def)

lemma nth_sectors:
  "wf_image d \<Longrightarrow> i < n * SECTOR_SIZE \<Longrightarrow> sectors d lba n ! i = d (lba + i div 512) ! (i mod 512)"
proof (induction n)
  case 0
  then show ?case by simp
next
  case (Suc n)
  show ?case
  proof (cases "i < n * SECTOR_SIZE")
    case True
    then show ?thesis using Suc by (simp add: sectors_Suc nth_append)
  next
    case False
    then have "i div 512 = n" using Suc.prems(2) by (intro div_nat_eqI) auto
    moreover from this have "i mod 512 = i - n * 512" using minus_mult_div_eq_mod [of i 512] by simp
    ultimately show ?thesis using False Suc.prems by (simp add: sectors_Suc nth_append)
  qed
qed

lemma length_put_sectors:
  assumes "wf_image d" "length bs = n * SECTOR_SIZE"
  shows "wf_image (put_sectors d lba bs)"
  unfolding wf_image_def
proof
  fix s
  have "SECTOR_SIZE \<le> length bs - (s - lba) * 512" if "lba \<le> s" "s < lba + n"
  proof -
    have "Suc (s - lba) * 512 \<le> n * 512" using that by (intro mult_le_mono1) simp
    then show ?thesis using assms(2) by simp
  qed
  then show "length (put_sectors d lba bs s) = SECTOR_SIZE"
    using assms by (simp add: put_sectors_def wf_image_def)
qed

lemma nth_put_sectors:
  assumes "wf_image d" "length bs = n * SECTOR_SIZE" "j < 512"
  shows "put_sectors d lba bs s ! j =
    (if lba \<le> s \<and> s < lba + n then bs ! ((s - lba) * 512 + j) else d s ! j)"
proof (cases "lba \<le> s \<and> s < lba + n")
  case True
  then have "Suc (s - lba) * 512 \<le> n * 512" by (intro mult_le_mono1) auto
  then show ?thesis using True assms by (simp add: put_sectors_def)
next
  case False
  then show ?thesis using assms(2) by (auto simp: put_sectors_def)
qed

text \<open>
  Rewriting part of some sectors changes the same bytes of every region of the disk around
  them.
\<close>

lemma sectors_rewrite:
  assumes d: "wf_image d" and r: "T \<le> L" "L + n \<le> T + N" and src: "off + length src \<le> n * SECTOR_SIZE"
  shows "sectors (put_sectors d L (splice off src (sectors d L n))) T N =
    splice ((L - T) * SECTOR_SIZE + off) src (sectors d T N)"
proof (rule nth_equalityI)
  let ?bs = "splice off src (sectors d L n)" and ?o = "(L - T) * SECTOR_SIZE + off"
  have lb: "length ?bs = n * SECTOR_SIZE" using src d by simp
  have wf: "wf_image (put_sectors d L ?bs)" by (rule length_put_sectors [OF d lb])
  have "(L - T + n) * 512 \<le> N * 512" using r by (intro mult_le_mono1) simp
  then have "(L - T) * 512 + n * 512 \<le> N * 512" by (simp only: add_mult_distrib)
  then have le: "?o + length src \<le> length (sectors d T N)" using src d by simp
  show "length (sectors (put_sectors d L ?bs) T N) = length (splice ?o src (sectors d T N))"
    using wf d le by simp
  fix i assume "i < length (sectors (put_sectors d L ?bs) T N)"
  then have i: "i < N * 512" using wf by simp
  have in_src: "splice a src xs ! j = (if a \<le> j \<and> j < a + length src then src ! (j - a) else xs ! j)"
    if "a + length src \<le> length xs" "j < length xs" for a j and xs :: "u8 list"
    using that by (auto simp: splice_def nth_append min_def)
  define q m where "q = i div 512" and "m = i mod 512"
  have i_qm: "i = q * 512 + m" "m < 512" by (simp_all add: q_def m_def)
  show "sectors (put_sectors d L ?bs) T N ! i = splice ?o src (sectors d T N) ! i"
  proof (cases "L \<le> T + q \<and> T + q < L + n")
    case True
    let ?j = "(T + q - L) * 512 + m"
    have "Suc (T + q - L) * 512 \<le> n * 512" using True by (intro mult_le_mono1) auto
    then have j: "?j < n * 512" using i_qm(2) by simp
    have e: "(L - T) * 512 + ?j = i"
    proof -
      have "(L - T) + (T + q - L) = q" using True r by simp
      then show ?thesis using i_qm(1) by (metis add.assoc add_mult_distrib)
    qed
    have "sectors (put_sectors d L ?bs) T N ! i = ?bs ! ?j"
      using nth_sectors [OF wf i] nth_put_sectors [OF d lb i_qm(2)] True
      by (simp add: q_def [symmetric] m_def [symmetric])
    also have "\<dots> = (if off \<le> ?j \<and> ?j < off + length src then src ! (?j - off) else sectors d T N ! i)"
    proof -
      have "?j div 512 = T + q - L" "?j mod 512 = m" using i_qm(2) by simp_all
      then have "sectors d L n ! ?j = d (T + q) ! m" using nth_sectors [OF d j] True by simp
      also have "\<dots> = sectors d T N ! i" unfolding q_def m_def by (rule nth_sectors [OF d i, symmetric])
      finally have "sectors d L n ! ?j = sectors d T N ! i" .
      then show ?thesis using in_src [of off "sectors d L n" ?j] src j d by simp
    qed
    also have "\<dots> = splice ?o src (sectors d T N) ! i"
    proof -
      have "?o \<le> i \<longleftrightarrow> off \<le> ?j" "i < ?o + length src \<longleftrightarrow> ?j < off + length src" "i - ?o = ?j - off"
        using e by linarith+
      then show ?thesis using in_src [OF le, of i] i d by simp
    qed
    finally show ?thesis .
  next
    case False
    have "sectors (put_sectors d L ?bs) T N ! i = sectors d T N ! i"
      using nth_sectors [OF wf i] nth_sectors [OF d i] nth_put_sectors [OF d lb i_qm(2)] False
      by (auto simp: q_def m_def)
    moreover have no: "\<not> (?o \<le> i \<and> i < ?o + length src)"
    proof
      assume a: "?o \<le> i \<and> i < ?o + length src"
      have "(L - T) * 512 \<le> q * 512 + m" using a i_qm by simp
      then have "L - T \<le> q" using i_qm(2) by simp
      moreover have "q * 512 + m < (L - T) * 512 + n * 512" using a i_qm src by simp
      then have "q * 512 < (L - T + n) * 512" by (simp add: add_mult_distrib)
      then have "q < L - T + n" by simp
      ultimately show False using False r(1) by linarith
    qed
    moreover have "splice ?o src (sectors d T N) ! i = sectors d T N ! i"
      using in_src [OF le, of i] i d by (simp only: no if_False length_sectors_wf)
    ultimately show ?thesis by simp
  qed
qed

text \<open>A region that the rewritten sectors do not touch stays.\<close>

lemma sectors_put_other:
  assumes "L + length bs div 512 \<le> T \<or> T + N \<le> L"
  shows "sectors (put_sectors d L bs) T N = sectors d T N"
  using assms by (auto simp: sectors_def put_sectors_def intro!: arg_cong [of _ _ concat])

section \<open>The table of i-nodes\<close>

abbreviation INODE_TABLE_SECTS :: nat where "INODE_TABLE_SECTS \<equiv> 608"

definition table_region :: "fsk \<Rightarrow> u8 list" where
  "table_region k = sectors (disk_image k) (inode_table_lba (sb k)) INODE_TABLE_SECTS"

text \<open>The i-nodes as they are on disk.\<close>

definition disk_inode :: "fsk \<Rightarrow> nat \<Rightarrow> inode" where
  "disk_inode k n = read_inode (slice (n * INODE_BYTES) INODE_BYTES (table_region k))"

text \<open>The table lies inside the partition and below the limit of the driver.\<close>

definition table_ok :: "fsk \<Rightarrow> bool" where
  "table_ok k \<longleftrightarrow> wf_image (disk_image k) \<and>
     inode_table_lba (sb k) + INODE_TABLE_SECTS \<le> start_lba k + part_sec_cnt k \<and>
     inode_table_lba (sb k) + INODE_TABLE_SECTS \<le> max_lba"

lemma slice_slice: "i + n \<le> m \<Longrightarrow> slice i n (slice off m bs) = slice (off + i) n bs"
  by (simp add: slice_def drop_take min_absorb1 add.commute)

lemma read_inode_take: "76 \<le> n \<Longrightarrow> n \<le> length bs \<Longrightarrow> read_inode (take n bs) = read_inode bs"
  by (simp add: read_inode_def rd32_def read_table_def)

lemma read_inode_slice: "off + INODE_BYTES \<le> length bs \<Longrightarrow>
    read_inode (slice off INODE_BYTES bs) = read_inode (drop off bs)"
  by (simp add: slice_def read_inode_take)

lemma sectors_slice:
  assumes "wf_image d" "T \<le> L" "L + n \<le> T + N"
  shows "sectors d L n = slice ((L - T) * SECTOR_SIZE) (n * SECTOR_SIZE) (sectors d T N)"
proof -
  obtain p q where e: "L = T + p" "N = p + (n + q)"
    using assms(2,3) by (metis add.assoc le_add_diff_inverse nat_add_left_cancel_le)
  have "sectors d T N = sectors d T p @ sectors d L n @ sectors d (L + n) q"
    using sectors_append [of d T p "n + q"] sectors_append [of d "T + p" n q] e by simp
  then show ?thesis using assms(1) e by (simp add: slice_def)
qed

text \<open>The position \<open>inode_locate\<close> computes: where in the table the i-node is.\<close>

lemma inode_locate_ok:
  assumes "n < 4096"
  obtains pos where "inode_locate psb n = Inr pos"
    "inode_table_lba psb \<le> sec_lba pos"
    "sec_lba pos + inode_secs pos \<le> inode_table_lba psb + INODE_TABLE_SECTS"
    "(sec_lba pos - inode_table_lba psb) * SECTOR_SIZE + off_size pos = n * INODE_BYTES"
    "off_size pos + INODE_BYTES \<le> inode_secs pos * SECTOR_SIZE" "inode_secs pos \<in> {1, 2}"
proof -
  define q where "q = n * INODE_BYTES div SECTOR_SIZE"
  define r where "r = n * INODE_BYTES mod SECTOR_SIZE"
  let ?pos = "\<lparr>two_sec = (SECTOR_SIZE - r < INODE_BYTES), sec_lba = inode_table_lba psb + q, off_size = r\<rparr>"
  have e: "q * SECTOR_SIZE + r = n * INODE_BYTES" unfolding q_def r_def by (rule div_mult_mod_eq)
  have r: "r < SECTOR_SIZE" by (simp add: r_def)
  have q: "q * SECTOR_SIZE + r + INODE_BYTES \<le> INODE_TABLE_SECTS * SECTOR_SIZE" using e assms by simp
  have loc: "inode_locate psb n = Inr ?pos"
    using assms by (simp add: inode_locate_def Let_def q_def r_def)
  show thesis
  proof (rule that [OF loc])
    show "sec_lba ?pos + inode_secs ?pos \<le> inode_table_lba psb + INODE_TABLE_SECTS"
    proof (cases "SECTOR_SIZE - r < INODE_BYTES")
      case True
      then have "q * SECTOR_SIZE < 607 * SECTOR_SIZE" using q by simp
      then show ?thesis using True by (simp add: inode_secs_def)
    next
      case False
      then have "q * SECTOR_SIZE < 608 * SECTOR_SIZE" using q by simp
      then show ?thesis using False by (simp add: inode_secs_def)
    qed
  qed (use e r in \<open>auto simp: inode_secs_def\<close>)
qed

lemma lba_ok_small: "L + n \<le> max_lba \<Longrightarrow> n \<in> {1, 2} \<Longrightarrow> lba_ok L n"
  by (auto simp: lba_ok_def)

text \<open>Writing 76 bytes at the place of an i-node.\<close>

lemma write_inode_place:
  assumes ok: "table_ok k" and n: "n < 4096" and src: "length src = INODE_BYTES"
    and loc: "inode_locate (sb k) n = Inr pos"
  obtains buf k' where "disk_read (sec_lba pos) (inode_secs pos) k = Inr buf"
    "disk_write (sec_lba pos) (splice (off_size pos) src buf) (inode_secs pos) k = Inr k'"
    "sec_lba pos \<le> start_lba k + part_sec_cnt k"
    "k' = k\<lparr>disk_image := disk_image k'\<rparr>" "wf_image (disk_image k')"
    "table_region k' = splice (n * INODE_BYTES) src (table_region k)"
    "\<And>T N. T + N \<le> inode_table_lba (sb k) \<or> inode_table_lba (sb k) + INODE_TABLE_SECTS \<le> T \<Longrightarrow>
       sectors (disk_image k') T N = sectors (disk_image k) T N"
proof -
  obtain pos' where "inode_locate (sb k) n = Inr pos'"
    and p: "inode_table_lba (sb k) \<le> sec_lba pos'"
    "sec_lba pos' + inode_secs pos' \<le> inode_table_lba (sb k) + INODE_TABLE_SECTS"
    "(sec_lba pos' - inode_table_lba (sb k)) * SECTOR_SIZE + off_size pos' = n * INODE_BYTES"
    "off_size pos' + INODE_BYTES \<le> inode_secs pos' * SECTOR_SIZE" "inode_secs pos' \<in> {1, 2}"
    by (rule inode_locate_ok [OF n, of "sb k"])
  then have [simp]: "pos' = pos" using loc by simp
  have wf: "wf_image (disk_image k)" using ok by (simp add: table_ok_def)
  have lo: "lba_ok (sec_lba pos) (inode_secs pos)"
    using ok p by (intro lba_ok_small) (simp_all add: table_ok_def)
  let ?buf = "sectors (disk_image k) (sec_lba pos) (inode_secs pos)"
  let ?new = "splice (off_size pos) src ?buf"
  have ln: "length ?new = inode_secs pos * SECTOR_SIZE" using p src wf by simp
  let ?k' = "k\<lparr>disk_image := put_sectors (disk_image k) (sec_lba pos) ?new\<rparr>"
  show thesis
  proof (rule that [of ?buf ?k'])
    show "disk_read (sec_lba pos) (inode_secs pos) k = Inr ?buf" using lo by (simp add: disk_read_def)
    show "disk_write (sec_lba pos) ?new (inode_secs pos) k = Inr ?k'"
      using lo ln by (simp add: disk_write_def)
    show "sec_lba pos \<le> start_lba k + part_sec_cnt k" using ok p by (simp add: table_ok_def)
    show "wf_image (disk_image ?k')" using length_put_sectors [OF wf ln] by simp
    show "table_region ?k' = splice (n * INODE_BYTES) src (table_region k)"
      using sectors_rewrite [OF wf, of "inode_table_lba (sb k)" "sec_lba pos" "inode_secs pos"
          INODE_TABLE_SECTS "off_size pos" src] p src by (simp add: table_region_def)
    show "sectors (disk_image ?k') T N = sectors (disk_image k) T N"
      if "T + N \<le> inode_table_lba (sb k) \<or> inode_table_lba (sb k) + INODE_TABLE_SECTS \<le> T" for T N
      using that p ln by (auto intro: sectors_put_other)
  qed simp
qed

lemma disk_inode_splice:
  assumes "table_region k' = splice (n * INODE_BYTES) src (table_region k)" "length src = INODE_BYTES"
    and "wf_image (disk_image k)" "n < 4096" "m < 4096"
  shows "disk_inode k' m = (if m = n then read_inode src else disk_inode k m)"
proof -
  have l: "length (table_region k) = INODE_TABLE_SECTS * SECTOR_SIZE"
    using assms(3) by (simp add: table_region_def)
  have le: "n * INODE_BYTES + length src \<le> length (table_region k)" using l assms(2,4) by simp
  show ?thesis
  proof (cases "m = n")
    case True
    then show ?thesis using slice_splice_same [of "n * INODE_BYTES" "table_region k" src] le
      by (simp add: disk_inode_def assms(1) flip: assms(2))
  next
    case False
    then have "m * INODE_BYTES + INODE_BYTES \<le> n * INODE_BYTES \<or>
        n * INODE_BYTES + length src \<le> m * INODE_BYTES" using assms(2) by auto
    then show ?thesis using slice_splice_other [OF _ le, of "m * INODE_BYTES" INODE_BYTES] False
      by (simp add: disk_inode_def assms(1))
  qed
qed

lemma wf_pure_inode [simp]: "wf_inode i \<Longrightarrow> wf_inode (pure_inode i)"
  by (simp add: wf_inode_def pure_inode_def)

lemma inode_sync_ok:
  assumes "table_ok k" "wf_inode i" "i_no i < 4096"
  obtains k' where "inode_sync i k = Inr k'" "k' = k\<lparr>disk_image := disk_image k'\<rparr>" "table_ok k'"
    "\<And>m. m < 4096 \<Longrightarrow> disk_inode k' m = (if m = i_no i then pure_inode i else disk_inode k m)"
    "\<And>T N. T + N \<le> inode_table_lba (sb k) \<or> inode_table_lba (sb k) + INODE_TABLE_SECTS \<le> T \<Longrightarrow>
       sectors (disk_image k') T N = sectors (disk_image k) T N"
proof -
  obtain pos where loc: "inode_locate (sb k) (i_no i) = Inr pos" using inode_locate_ok [OF assms(3)] by metis
  let ?src = "inode_bytes (pure_inode i)"
  have src: "length ?src = INODE_BYTES" using assms(2) by simp
  obtain buf k' where k': "disk_read (sec_lba pos) (inode_secs pos) k = Inr buf"
    "disk_write (sec_lba pos) (splice (off_size pos) ?src buf) (inode_secs pos) k = Inr k'"
    "sec_lba pos \<le> start_lba k + part_sec_cnt k"
    "k' = k\<lparr>disk_image := disk_image k'\<rparr>" "wf_image (disk_image k')"
    "table_region k' = splice (i_no i * INODE_BYTES) ?src (table_region k)"
    "\<And>T N. T + N \<le> inode_table_lba (sb k) \<or> inode_table_lba (sb k) + INODE_TABLE_SECTS \<le> T \<Longrightarrow>
       sectors (disk_image k') T N = sectors (disk_image k) T N"
    by (rule write_inode_place [OF assms(1,3) src loc]) blast
  have same: "sb k' = sb k" "start_lba k' = start_lba k" "part_sec_cnt k' = part_sec_cnt k"
    by (subst k'(4), simp)+
  have wf: "wf_image (disk_image k)" using assms(1) by (simp add: table_ok_def)
  have "read_inode ?src = pure_inode i"
    using read_inode_bytes_append [of "pure_inode i" "[]"] assms(2) by simp
  then have rd: "disk_inode k' m = (if m = i_no i then pure_inode i else disk_inode k m)" if "m < 4096" for m
    using disk_inode_splice [OF k'(6) src wf assms(3) that] by simp
  show thesis
  proof (rule that [of k'])
    show "inode_sync i k = Inr k'" using loc k'(1-3) by (simp add: inode_sync_def)
    show "table_ok k'" using assms(1) k'(5) by (simp add: table_ok_def same)
  qed (use k'(4,7) rd in auto)
qed

section \<open>Opening and closing\<close>

definition heap_ok :: "fsk \<Rightarrow> bool" where
  "heap_ok k \<longleftrightarrow> distinct (open_inodes k) \<and> 0 < next_addr k \<and>
     (\<forall>a \<in> set (open_inodes k). inodes k a \<noteq> None) \<and>
     (\<forall>a. inodes k a \<noteq> None \<longrightarrow> a < next_addr k) \<and>
     (\<forall>a \<in> set (open_inodes k). \<forall>i. inodes k a = Some i \<longrightarrow> 0 < i_open_cnts i \<and> i_open_cnts i < 2 ^ 32 - 1)"

abbreviation is_open :: "nat \<Rightarrow> fsk \<Rightarrow> bool" where
  "is_open no k \<equiv> (\<exists>a \<in> set (open_inodes k). map_option i_no (inodes k a) = Some no)"

lemma set_inode_simps [simp]:
  "inodes (set_inode a i k) = (inodes k)(a \<mapsto> i)" "open_inodes (set_inode a i k) = open_inodes k"
  "disk_image (set_inode a i k) = disk_image k" "intr (set_inode a i k) = intr k"
  "sb (set_inode a i k) = sb k" "mallocs (set_inode a i k) = mallocs k"
  "next_addr (set_inode a i k) = next_addr k"
  by (simp_all add: set_inode_def)

text \<open>The i-node object that a fresh \<open>inode_open\<close> makes.\<close>

definition loaded :: "nat \<Rightarrow> fsk \<Rightarrow> fsk" where
  "loaded no k = k\<lparr>inodes := (inodes k)(next_addr k \<mapsto> (disk_inode k no)\<lparr>i_open_cnts := 1\<rparr>),
     next_addr := next_addr k + 1, open_inodes := next_addr k # open_inodes k\<rparr>"

lemma inode_open_fresh:
  assumes "table_ok k" "no < 4096" "\<not> is_open no k" "mallocs k = []"
  shows "inode_open no k = Inr (next_addr k, loaded no k)"
proof -
  obtain pos where pos: "inode_locate (sb k) no = Inr pos" "inode_table_lba (sb k) \<le> sec_lba pos"
    "sec_lba pos + inode_secs pos \<le> inode_table_lba (sb k) + INODE_TABLE_SECTS"
    "(sec_lba pos - inode_table_lba (sb k)) * SECTOR_SIZE + off_size pos = no * INODE_BYTES"
    "off_size pos + INODE_BYTES \<le> inode_secs pos * SECTOR_SIZE" "inode_secs pos \<in> {1, 2}"
    by (rule inode_locate_ok [OF assms(2), of "sb k"])
  have wf: "wf_image (disk_image k)" using assms(1) by (simp add: table_ok_def)
  have lo: "lba_ok (sec_lba pos) (inode_secs pos)"
    using assms(1) pos by (intro lba_ok_small) (simp_all add: table_ok_def)
  let ?buf = "sectors (disk_image k) (sec_lba pos) (inode_secs pos)"
  have "?buf = slice ((sec_lba pos - inode_table_lba (sb k)) * SECTOR_SIZE)
      (inode_secs pos * SECTOR_SIZE) (table_region k)"
    unfolding table_region_def by (rule sectors_slice [OF wf pos(2,3)])
  then have "slice (off_size pos) INODE_BYTES ?buf = slice (no * INODE_BYTES) INODE_BYTES (table_region k)"
    using slice_slice [OF pos(5)] pos(4) by simp
  then have rd: "read_inode (drop (off_size pos) ?buf) = disk_inode k no"
    using read_inode_slice [of "off_size pos" ?buf] pos(5) wf by (simp add: disk_inode_def)
  have "find (\<lambda>a. map_option i_no (inodes k a) = Some no) (open_inodes k) = None"
    using assms(3) by (auto simp: find_None_iff)
  then show ?thesis using pos(1) lo rd assms(4)
    by (simp add: inode_open_def heap_reply_def disk_read_def Let_def loaded_def set_inode_def)
qed

lemma inode_open_shared:
  assumes "heap_ok k" "is_open no k"
  obtains a i where "a \<in> set (open_inodes k)" "inodes k a = Some i" "i_no i = no"
    "inode_open no k = Inr (a, set_inode a (i\<lparr>i_open_cnts := i_open_cnts i + 1\<rparr>) k)"
proof -
  obtain a where a: "find (\<lambda>a. map_option i_no (inodes k a) = Some no) (open_inodes k) = Some a"
    using assms(2) by (cases "find (\<lambda>a. map_option i_no (inodes k a) = Some no) (open_inodes k)")
      (auto simp: find_None_iff)
  then have "a \<in> set (open_inodes k)" "map_option i_no (inodes k a) = Some no"
    by (auto simp: find_Some_iff)
  then obtain i where i: "inodes k a = Some i" "i_no i = no" "i_open_cnts i < 2 ^ 32 - 1"
    using assms(1) by (auto simp: heap_ok_def)
  then show thesis using that [of a i] a \<open>a \<in> set (open_inodes k)\<close>
    by (simp add: inode_open_def get_inode_def)
qed

lemma sub32_Suc: "n < 2 ^ 32 - 1 \<Longrightarrow> sub32 (n + 1) 1 = n"
  by (simp add: sub32_def)

lemma sub32_le: "b \<le> a \<Longrightarrow> a < 2 ^ 32 \<Longrightarrow> sub32 a b = a - b"
  by (simp add: sub32_def mod_if)

section \<open>The layout of the partition, and the block bitmap on disk\<close>

definition fs_ok :: "fsk \<Rightarrow> bool" where
  "fs_ok k \<longleftrightarrow> table_ok k \<and> wf_bitmap (block_bitmap k) \<and> wf_bitmap (inode_bitmap k) \<and>
     btmp_bytes_len (inode_bitmap k) = SECTOR_SIZE \<and>
     btmp_bytes_len (block_bitmap k) = block_bitmap_sects (sb k) * SECTOR_SIZE \<and>
     block_bitmap_lba (sb k) + block_bitmap_sects (sb k) \<le> inode_bitmap_lba (sb k) \<and>
     inode_bitmap_lba (sb k) + 1 \<le> inode_table_lba (sb k) \<and>
     inode_table_lba (sb k) + INODE_TABLE_SECTS \<le> data_start_lba (sb k) \<and>
     start_lba k + part_sec_cnt k \<le> max_lba \<and> dir_entry_size (sb k) = DIR_ENTRY_BYTES"

text \<open>The block bitmap on disk is the one in memory.\<close>

definition blocks_synced :: "fsk \<Rightarrow> bool" where
  "blocks_synced k \<longleftrightarrow>
     sectors (disk_image k) (block_bitmap_lba (sb k)) (block_bitmap_sects (sb k)) = bits (block_bitmap k)"

lemma splice_one_byte:
  assumes "j div 512 = q" "(q + 1) * 512 \<le> length xs" "\<forall>i < length xs. i \<noteq> j \<longrightarrow> ys ! i = xs ! i"
    "length ys = length xs"
  shows "splice (q * 512) (take 512 (drop (q * 512) ys)) xs = ys"
proof (rule nth_equalityI)
  show "length (splice (q * 512) (take 512 (drop (q * 512) ys)) xs) = length ys"
    using assms(2,4) by simp
  fix i assume "i < length (splice (q * 512) (take 512 (drop (q * 512) ys)) xs)"
  then have i: "i < length xs" using assms(2,4) by simp
  have "j < (q + 1) * 512" "q * 512 \<le> j"
    using assms(1) by (auto simp: div_less_iff_less_mult [symmetric])
  then show "splice (q * 512) (take 512 (drop (q * 512) ys)) xs ! i = ys ! i"
    using i assms by (auto simp: splice_def nth_append min_def)
qed

lemma bits_bitmap_set:
  "bitmap_set b i v = Inr b' \<Longrightarrow> length (bits b') = length (bits b) \<and>
     (\<forall>j < length (bits b). j \<noteq> i div 8 \<longrightarrow> bits b' ! j = bits b ! j)"
  by (auto simp: bitmap_set_def Let_def res_simps split: if_splits)

lemma block_bit_sync:
  assumes ok: "fs_ok k" "blocks_synced k" and i: "i < nbits (block_bitmap k)" and v: "v \<le> 1"
  obtains b k' where "bitmap_set (block_bitmap k) i v = Inr b"
    "bitmap_sync i BLOCK_BITMAP (k\<lparr>block_bitmap := b\<rparr>) = Inr k'"
    "k' = k\<lparr>block_bitmap := b, disk_image := disk_image k'\<rparr>" "fs_ok k'" "blocks_synced k'"
    "nbits b = nbits (block_bitmap k)"
    "used b = (if v = 1 then insert i (used (block_bitmap k)) else used (block_bitmap k) - {i})"
    "\<And>T N. block_bitmap_lba (sb k) + block_bitmap_sects (sb k) \<le> T \<Longrightarrow>
       sectors (disk_image k') T N = sectors (disk_image k) T N"
proof -
  let ?lba = "block_bitmap_lba (sb k)" and ?n = "block_bitmap_sects (sb k)" and ?q = "i div 4096"
  have wfb: "wf_bitmap (block_bitmap k)" and wf: "wf_image (disk_image k)"
    using ok by (simp_all add: fs_ok_def table_ok_def)
  obtain b where b: "bitmap_set (block_bitmap k) i v = Inr b" "wf_bitmap b"
    "nbits b = nbits (block_bitmap k)" "btmp_bytes_len b = btmp_bytes_len (block_bitmap k)"
    "used b = (if v = 1 then insert i (used (block_bitmap k)) else used (block_bitmap k) - {i})"
    using bitmap_set_used_ex [OF wfb i v] by metis
  note bb = bits_bitmap_set [OF b(1)]
  have len: "length (bits (block_bitmap k)) = ?n * 512" "length (bits b) = ?n * 512"
    using ok wfb b(2,4) by (simp_all add: fs_ok_def wf_bitmap_def)
  have "i < ?n * 4096" using i ok by (simp add: nbits_def fs_ok_def)
  then have q: "?q < ?n" by (simp add: div_less_iff_less_mult)
  then have q1: "(?q + 1) * 512 \<le> ?n * 512" by (intro mult_le_mono1) simp
  let ?src = "take 512 (drop (?q * 512) (bits b))"
  have src: "length ?src = 512" using q1 len by simp
  define k' where "k' = k\<lparr>block_bitmap := b, disk_image := put_sectors (disk_image k) (?lba + ?q) ?src\<rparr>"
  have lo: "lba_ok (?lba + ?q) 1" using q ok by (simp add: lba_ok_def fs_ok_def table_ok_def)
  have sync: "bitmap_sync i BLOCK_BITMAP (k\<lparr>block_bitmap := b\<rparr>) = Inr k'"
    using q1 len lo by (simp add: bitmap_sync_def Let_def disk_write_def k'_def)
  have other: "sectors (disk_image k') T N = sectors (disk_image k) T N" if "?lba + ?n \<le> T" for T N
    unfolding k'_def using that q src by (auto intro: sectors_put_other)
  have e: "?src = splice 0 ?src (sectors (disk_image k) (?lba + ?q) 1)"
    using src wf by (intro splice_0_all [symmetric]) simp
  have "sectors (disk_image k') ?lba ?n =
      splice (?q * 512) ?src (sectors (disk_image k) ?lba ?n)"
    using sectors_rewrite [OF wf, of ?lba "?lba + ?q" 1 ?n 0 ?src] q src e by (simp add: k'_def)
  also have "\<dots> = bits b"
    using ok(2) len bb q1 by (intro splice_one_byte [of "i div 8"])
      (simp_all add: blocks_synced_def div_mult2_eq [symmetric])
  finally have "blocks_synced k'" by (simp add: blocks_synced_def k'_def)
  moreover have "wf_image (disk_image k')"
    using length_put_sectors [OF wf, of ?src 1] src by (simp add: k'_def)
  then have "fs_ok k'" using ok(1) b(2,4) by (simp add: fs_ok_def table_ok_def k'_def)
  ultimately show thesis
    using that [of b k'] b sync other by (simp add: k'_def)
qed

lemma inode_bit_sync:
  assumes ok: "fs_ok k" and i: "i < 4096" and v: "v \<le> 1"
  obtains b k' where "bitmap_set (inode_bitmap k) i v = Inr b"
    "bitmap_sync i INODE_BITMAP (k\<lparr>inode_bitmap := b\<rparr>) = Inr k'"
    "k' = k\<lparr>inode_bitmap := b, disk_image := disk_image k'\<rparr>" "fs_ok k'"
    "used b = (if v = 1 then insert i (used (inode_bitmap k)) else used (inode_bitmap k) - {i})"
    "sectors (disk_image k') (inode_bitmap_lba (sb k)) 1 = bits b"
    "\<And>T N. T + N \<le> inode_bitmap_lba (sb k) \<or> inode_bitmap_lba (sb k) + 1 \<le> T \<Longrightarrow>
       sectors (disk_image k') T N = sectors (disk_image k) T N"
proof -
  let ?lba = "inode_bitmap_lba (sb k)"
  have wf: "wf_image (disk_image k)" and wfb: "wf_bitmap (inode_bitmap k)"
    and n: "btmp_bytes_len (inode_bitmap k) = 512"
    using ok by (simp_all add: fs_ok_def table_ok_def)
  have i': "i < nbits (inode_bitmap k)" using i n by (simp add: nbits_def)
  obtain b where b: "bitmap_set (inode_bitmap k) i v = Inr b" "wf_bitmap b"
    "btmp_bytes_len b = btmp_bytes_len (inode_bitmap k)"
    "used b = (if v = 1 then insert i (used (inode_bitmap k)) else used (inode_bitmap k) - {i})"
    using bitmap_set_used_ex [OF wfb i' v] by metis
  have len: "length (bits b) = 512" using b n by (simp add: wf_bitmap_def)
  define k' where "k' = k\<lparr>inode_bitmap := b, disk_image := put_sectors (disk_image k) ?lba (bits b)\<rparr>"
  have lo: "lba_ok ?lba 1" using ok by (simp add: lba_ok_def fs_ok_def table_ok_def)
  have sync: "bitmap_sync i INODE_BITMAP (k\<lparr>inode_bitmap := b\<rparr>) = Inr k'"
    using i len lo by (simp add: bitmap_sync_def Let_def disk_write_def k'_def)
  have "wf_image (disk_image k')" using length_put_sectors [OF wf, of "bits b" 1] len by (simp add: k'_def)
  then have "fs_ok k'" using ok b(2,3) by (simp add: fs_ok_def table_ok_def k'_def)
  moreover have "sectors (disk_image k') ?lba 1 = bits b"
    using len by (simp add: k'_def sectors_def put_sectors_def)
  moreover have "sectors (disk_image k') T N = sectors (disk_image k) T N"
    if "T + N \<le> ?lba \<or> ?lba + 1 \<le> T" for T N
    unfolding k'_def using that len by (auto intro: sectors_put_other)
  ultimately show thesis using that [of b k'] b sync by (simp add: k'_def)
qed

subsection \<open>Giving back the blocks of a file\<close>

definition block_idx_ok :: "fsk \<Rightarrow> nat \<Rightarrow> bool" where
  "block_idx_ok k lba \<longleftrightarrow> data_start_lba (sb k) < lba \<and> lba < 2 ^ 32 \<and>
     lba - data_start_lba (sb k) < nbits (block_bitmap k)"

lemma free_block_ok:
  assumes ok: "fs_ok k" "blocks_synced k" "block_idx_ok k lba"
  obtains k' where "free_block lba k = Inr k'" "fs_ok k'" "blocks_synced k'"
    "k' = k\<lparr>block_bitmap := block_bitmap k', disk_image := disk_image k'\<rparr>"
    "nbits (block_bitmap k') = nbits (block_bitmap k)"
    "used (block_bitmap k') = used (block_bitmap k) - {lba - data_start_lba (sb k)}"
    "\<And>T N. block_bitmap_lba (sb k) + block_bitmap_sects (sb k) \<le> T \<Longrightarrow>
       sectors (disk_image k') T N = sectors (disk_image k) T N"
proof -
  let ?i = "lba - data_start_lba (sb k)"
  have i: "sub32 lba (data_start_lba (sb k)) = ?i" "?i < nbits (block_bitmap k)" "0 < ?i"
    using ok(3) by (simp_all add: block_idx_ok_def sub32_le)
  obtain b k' where "bitmap_set (block_bitmap k) ?i 0 = Inr b"
    "bitmap_sync ?i BLOCK_BITMAP (k\<lparr>block_bitmap := b\<rparr>) = Inr k'"
    "k' = k\<lparr>block_bitmap := b, disk_image := disk_image k'\<rparr>" "fs_ok k'" "blocks_synced k'"
    "nbits b = nbits (block_bitmap k)"
    "used b = (if (0::nat) = 1 then insert ?i (used (block_bitmap k)) else used (block_bitmap k) - {?i})"
    "\<And>T N. block_bitmap_lba (sb k) + block_bitmap_sects (sb k) \<le> T \<Longrightarrow>
       sectors (disk_image k') T N = sectors (disk_image k) T N"
    by (rule block_bit_sync [OF ok(1,2) i(2), of 0]) (simp, blast)
  moreover from this(3) have "block_bitmap k' = b" by (metis fsk.select_convs(5) fsk.surjective fsk.update_convs(1,5))
  ultimately show thesis using that [of k'] i by (simp add: free_block_def Let_def)
qed

lemma free_blocks_ok:
  assumes "fs_ok k" "blocks_synced k" "\<forall>lba \<in> set lbas. lba \<noteq> 0 \<longrightarrow> block_idx_ok k lba"
  shows "\<exists>k'. free_blocks lbas k = Inr k' \<and> fs_ok k' \<and> blocks_synced k' \<and>
    k' = k\<lparr>block_bitmap := block_bitmap k', disk_image := disk_image k'\<rparr> \<and>
    nbits (block_bitmap k') = nbits (block_bitmap k) \<and>
    used (block_bitmap k') = used (block_bitmap k) -
      (\<lambda>lba. lba - data_start_lba (sb k)) ` {lba \<in> set lbas. lba \<noteq> 0} \<and>
    (\<forall>T N. block_bitmap_lba (sb k) + block_bitmap_sects (sb k) \<le> T \<longrightarrow>
       sectors (disk_image k') T N = sectors (disk_image k) T N)"
  using assms
proof (induction lbas arbitrary: k)
  case Nil
  then show ?case by simp
next
  case (Cons lba lbas)
  show ?case
  proof (cases "lba = 0")
    case True
    have "{l \<in> set (lba # lbas). l \<noteq> 0} = {l \<in> set lbas. l \<noteq> 0}" using True by auto
    then show ?thesis using Cons.IH [OF Cons.prems(1,2)] Cons.prems(3) True by simp
  next
    case False
    have bk: "block_idx_ok k lba" using Cons.prems(3) False by simp
    obtain k1 where k1: "free_block lba k = Inr k1" "fs_ok k1" "blocks_synced k1"
      "k1 = k\<lparr>block_bitmap := block_bitmap k1, disk_image := disk_image k1\<rparr>"
      "nbits (block_bitmap k1) = nbits (block_bitmap k)"
      "used (block_bitmap k1) = used (block_bitmap k) - {lba - data_start_lba (sb k)}"
      "\<And>T N. block_bitmap_lba (sb k) + block_bitmap_sects (sb k) \<le> T \<Longrightarrow>
         sectors (disk_image k1) T N = sectors (disk_image k) T N"
      by (rule free_block_ok [OF Cons.prems(1,2) bk]) blast
    have sb1: "sb k1 = sb k" by (subst k1(4)) simp
    have "\<forall>lba \<in> set lbas. lba \<noteq> 0 \<longrightarrow> block_idx_ok k1 lba"
      using Cons.prems(3) by (simp add: block_idx_ok_def sb1 k1(5))
    from Cons.IH [OF k1(2,3) this] obtain k' where k': "free_blocks lbas k1 = Inr k'" "fs_ok k'"
      "blocks_synced k'" "k' = k1\<lparr>block_bitmap := block_bitmap k', disk_image := disk_image k'\<rparr>"
      "nbits (block_bitmap k') = nbits (block_bitmap k1)"
      "used (block_bitmap k') = used (block_bitmap k1) -
        (\<lambda>lba. lba - data_start_lba (sb k1)) ` {lba \<in> set lbas. lba \<noteq> 0}"
      "\<forall>T N. block_bitmap_lba (sb k1) + block_bitmap_sects (sb k1) \<le> T \<longrightarrow>
         sectors (disk_image k') T N = sectors (disk_image k1) T N" by blast
    have k'_eq: "k' = k\<lparr>block_bitmap := block_bitmap k', disk_image := disk_image k'\<rparr>"
      using k'(4) k1(4) by (cases k; cases k1; cases k') simp
    have "{l \<in> set (lba # lbas). l \<noteq> 0} = insert lba {l \<in> set lbas. l \<noteq> 0}" using False by auto
    then have "used (block_bitmap k') = used (block_bitmap k) -
      (\<lambda>lba. lba - data_start_lba (sb k)) ` {l \<in> set (lba # lbas). l \<noteq> 0}"
      using k'(6) k1(6) sb1 by auto
    then show ?thesis
      using k'(1-3,5,7) k1(1,5,7) k'_eq False sb1 by simp
  qed
qed

subsection \<open>Deleting an i-node\<close>

lemma rd32_zeros: "off + 4 \<le> n \<Longrightarrow> rd32 (replicate n 0) off = 0"
  by (simp add: rd32_def)

lemma read_table_zeros: "off + 4 * c \<le> n \<Longrightarrow> read_table off c (replicate n 0) = replicate c 0"
  by (rule nth_equalityI) (simp_all add: read_table_def rd32_zeros)

lemma inode_delete_ok:
  assumes "table_ok k" "no < 4096"
  obtains k' where "inode_delete no k = Inr k'" "k' = k\<lparr>disk_image := disk_image k'\<rparr>" "table_ok k'"
    "\<And>m. m < 4096 \<Longrightarrow> disk_inode k' m = (if m = no then inode_init 0 else disk_inode k m)"
    "\<And>T N. T + N \<le> inode_table_lba (sb k) \<or> inode_table_lba (sb k) + INODE_TABLE_SECTS \<le> T \<Longrightarrow>
       sectors (disk_image k') T N = sectors (disk_image k) T N"
proof -
  obtain pos where loc: "inode_locate (sb k) no = Inr pos" using inode_locate_ok [OF assms(2)] by metis
  let ?src = "replicate INODE_BYTES (0 :: u8)"
  have src: "length ?src = INODE_BYTES" by simp
  obtain buf k' where k': "disk_read (sec_lba pos) (inode_secs pos) k = Inr buf"
    "disk_write (sec_lba pos) (splice (off_size pos) ?src buf) (inode_secs pos) k = Inr k'"
    "sec_lba pos \<le> start_lba k + part_sec_cnt k"
    "k' = k\<lparr>disk_image := disk_image k'\<rparr>" "wf_image (disk_image k')"
    "table_region k' = splice (no * INODE_BYTES) ?src (table_region k)"
    "\<And>T N. T + N \<le> inode_table_lba (sb k) \<or> inode_table_lba (sb k) + INODE_TABLE_SECTS \<le> T \<Longrightarrow>
       sectors (disk_image k') T N = sectors (disk_image k) T N"
    by (rule write_inode_place [OF assms src loc]) blast
  have same: "sb k' = sb k" "start_lba k' = start_lba k" "part_sec_cnt k' = part_sec_cnt k"
    by (subst k'(4), simp)+
  have wf: "wf_image (disk_image k)" using assms(1) by (simp add: table_ok_def)
  have "read_inode ?src = inode_init 0"
    by (simp add: read_inode_def read_table_zeros rd32_zeros inode_init_def)
  then have rd: "disk_inode k' m = (if m = no then inode_init 0 else disk_inode k m)" if "m < 4096" for m
    using disk_inode_splice [OF k'(6) src wf assms(2) that] by simp
  show thesis
  proof (rule that [of k'])
    show "inode_delete no k = Inr k'" using loc k'(1-3) assms(2) by (simp add: inode_delete_def)
    show "table_ok k'" using assms(1) k'(5) by (simp add: table_ok_def same)
  qed (use k'(4,7) rd in auto)
qed

lemma inode_close_last:
  assumes "inodes k a = Some i" "i_open_cnts i = 1"
  shows "inode_close a k = Inr (k\<lparr>open_inodes := remove1 a (open_inodes k), inodes := (inodes k)(a := None)\<rparr>)"
  using assms by (cases k) (simp add: inode_close_def get_inode_def sub32_def set_inode_def Let_def)

text \<open>The blocks an i-node on disk owns, the table of the indirect blocks included.\<close>

definition owned_blocks :: "fsk \<Rightarrow> inode \<Rightarrow> nat list" where
  "owned_blocks k i =
     (if i_sectors i ! 12 \<noteq> 0
      then i_sectors i ! 12 # take 12 (i_sectors i) @
           read_table 0 128 (sectors (disk_image k) (i_sectors i ! 12) 1)
      else take 12 (i_sectors i))"

lemma inode_realse_ok:
  assumes ok: "fs_ok k" "blocks_synced k" "heap_ok k" "mallocs k = []"
    and no: "no < 4096" "\<not> is_open no k" and i: "i = disk_inode k no" "i_no i = no"
    and bl: "\<forall>lba \<in> set (owned_blocks k i). lba \<noteq> 0 \<longrightarrow> block_idx_ok k lba"
      "i_sectors i ! 12 < max_lba"
  shows "\<exists>k'. inode_realse no k = Inr k' \<and> fs_ok k' \<and> blocks_synced k' \<and>
    used (block_bitmap k') = used (block_bitmap k) -
      (\<lambda>lba. lba - data_start_lba (sb k)) ` {lba \<in> set (owned_blocks k i). lba \<noteq> 0} \<and>
    used (inode_bitmap k') = used (inode_bitmap k) - {no} \<and>
    inodes k' = inodes k \<and> open_inodes k' = open_inodes k \<and>
    (\<forall>m < 4096. disk_inode k' m = (if m = no then inode_init 0 else disk_inode k m))"
proof -
  define k1 where "k1 = loaded no k"
  define a where "a = next_addr k"
  define i1 where "i1 = i\<lparr>i_open_cnts := 1\<rparr>"
  have tab: "table_ok k" using ok by (simp add: fs_ok_def)
  have open1: "inode_open no k = Inr (a, k1)"
    using inode_open_fresh [OF tab no ok(4)] by (simp add: a_def k1_def)
  have f1: "sb k1 = sb k" "disk_image k1 = disk_image k" "block_bitmap k1 = block_bitmap k"
    "inode_bitmap k1 = inode_bitmap k" "mallocs k1 = []" "inodes k1 = (inodes k)(a \<mapsto> i1)"
    "open_inodes k1 = a # open_inodes k"
    by (simp_all add: k1_def loaded_def a_def i1_def i ok(4))
  have ok1: "fs_ok k1" "blocks_synced k1"
    using ok by (simp_all add: k1_def loaded_def fs_ok_def blocks_synced_def table_ok_def)
  have sec1: "i_sectors i1 = i_sectors i" "i_no i1 = no" by (simp_all add: i1_def i(2))
  have g1: "get_inode a k1 = Inr i1" by (simp add: get_inode_def f1)
  let ?ind = "i_sectors i ! 12"
  let ?tab = "read_table 0 128 (sectors (disk_image k) ?ind 1)"
  have ab: "all_blocks i1 k1 = Inr (if ?ind \<noteq> 0 then take 12 (i_sectors i) @ ?tab
      else take 12 (i_sectors i) @ replicate 128 0)"
    using bl(2) by (simp add: all_blocks_def disk_read_def lba_ok_def sec1 f1)
  let ?ow = "owned_blocks k i"
  have fr: "bnd (if ?ind \<noteq> 0 then free_block ?ind k1 else Inr k1)
      (free_blocks (if ?ind \<noteq> 0 then take 12 (i_sectors i) @ ?tab else take 12 (i_sectors i))) =
      free_blocks ?ow k1"
    by (simp add: owned_blocks_def)
  have bk1: "\<forall>lba \<in> set ?ow. lba \<noteq> 0 \<longrightarrow> block_idx_ok k1 lba"
    using bl(1) by (simp add: block_idx_ok_def f1)
  obtain k2 where k2: "free_blocks ?ow k1 = Inr k2" "fs_ok k2" "blocks_synced k2"
    "k2 = k1\<lparr>block_bitmap := block_bitmap k2, disk_image := disk_image k2\<rparr>"
    "used (block_bitmap k2) = used (block_bitmap k) -
      (\<lambda>lba. lba - data_start_lba (sb k)) ` {lba \<in> set ?ow. lba \<noteq> 0}"
    "\<forall>T N. block_bitmap_lba (sb k) + block_bitmap_sects (sb k) \<le> T \<longrightarrow>
       sectors (disk_image k2) T N = sectors (disk_image k) T N"
    using free_blocks_ok [OF ok1 bk1] by (metis f1(1,2,3))
  have f2: "sb k2 = sb k" "mallocs k2 = []" "inodes k2 = (inodes k)(a \<mapsto> i1)"
    "open_inodes k2 = a # open_inodes k" "inode_bitmap k2 = inode_bitmap k"
    by (subst k2(4), simp add: f1)+
  obtain b k3 where k3: "bitmap_set (inode_bitmap k2) no 0 = Inr b"
    "bitmap_sync no INODE_BITMAP (k2\<lparr>inode_bitmap := b\<rparr>) = Inr k3"
    "k3 = k2\<lparr>inode_bitmap := b, disk_image := disk_image k3\<rparr>" "fs_ok k3"
    "used b = (if (0::nat) = 1 then insert no (used (inode_bitmap k2)) else used (inode_bitmap k2) - {no})"
    "\<And>T N. T + N \<le> inode_bitmap_lba (sb k2) \<or> inode_bitmap_lba (sb k2) + 1 \<le> T \<Longrightarrow>
       sectors (disk_image k3) T N = sectors (disk_image k2) T N"
    by (rule inode_bit_sync [OF k2(2) no(1) zero_le_one]) blast
  have f3: "sb k3 = sb k" "mallocs k3 = []" "inodes k3 = (inodes k)(a \<mapsto> i1)"
    "open_inodes k3 = a # open_inodes k" "inode_bitmap k3 = b" "block_bitmap k3 = block_bitmap k2"
    by (subst k3(3), simp add: f2)+
  have tab3: "table_ok k3" using k3(4) by (simp add: fs_ok_def)
  obtain k4 where k4: "inode_delete no k3 = Inr k4" "k4 = k3\<lparr>disk_image := disk_image k4\<rparr>" "table_ok k4"
    "\<And>m. m < 4096 \<Longrightarrow> disk_inode k4 m = (if m = no then inode_init 0 else disk_inode k3 m)"
    "\<And>T N. T + N \<le> inode_table_lba (sb k3) \<or> inode_table_lba (sb k3) + INODE_TABLE_SECTS \<le> T \<Longrightarrow>
       sectors (disk_image k4) T N = sectors (disk_image k3) T N"
    by (rule inode_delete_ok [OF tab3 no(1)]) blast
  have f4: "sb k4 = sb k" "inodes k4 = (inodes k)(a \<mapsto> i1)" "open_inodes k4 = a # open_inodes k"
    "inode_bitmap k4 = b" "block_bitmap k4 = block_bitmap k2"
    by (subst k4(2), simp add: f3)+
  let ?k5 = "k4\<lparr>open_inodes := remove1 a (open_inodes k4), inodes := (inodes k4)(a := None)\<rparr>"
  have close: "inode_close a k4 = Inr ?k5"
    by (rule inode_close_last [of _ _ i1]) (simp_all add: f4 i1_def)
  have na: "inodes k a = None" using ok(3) unfolding heap_ok_def a_def
    by (metis less_irrefl)
  have ln: "length (i_sectors i) = 13" by (simp add: i(1) disk_inode_def read_inode_def)
  obtain kx where kx: "(if ?ind \<noteq> 0 then free_block ?ind k1 else Inr k1) = Inr kx"
    "free_blocks (if ?ind \<noteq> 0 then take 12 (i_sectors i) @ ?tab else take 12 (i_sectors i)) kx = Inr k2"
    using fr k2(1) by (auto simp: bnd_eq_Inr)
  have run: "inode_realse no k = Inr ?k5"
    using open1 g1 ab kx k3(1,2) f3(2) k4(1) close sec1 ln
    by (cases "?ind = 0") (simp_all add: inode_realse_def heap_reply_def)
  have lay: "block_bitmap_lba (sb k) + block_bitmap_sects (sb k) \<le> inode_bitmap_lba (sb k)"
    "inode_bitmap_lba (sb k) + 1 \<le> inode_table_lba (sb k)"
    using ok(1) by (simp_all add: fs_ok_def)
  have reg: "table_region k3 = table_region k"
    using k3(6) k2(6) lay by (simp add: table_region_def f2 f3)
  have "fs_ok ?k5" using k3(4) k4(3) by (subst k4(2)) (simp add: fs_ok_def table_ok_def f3)
  moreover have "blocks_synced ?k5"
    using k2(3) k3(6) k4(5) lay by (simp add: blocks_synced_def f4 f3 f2)
  moreover have "inodes ?k5 = inodes k" using na by (auto simp: f4)
  moreover have "\<forall>m < 4096. disk_inode ?k5 m = (if m = no then inode_init 0 else disk_inode k m)"
    using k4(4) reg by (simp add: disk_inode_def table_region_def)
  ultimately show ?thesis using run k2(5) k3(5) by (simp add: f4 f2)
qed

section \<open>A small file system, for examples\<close>

definition demo_sb :: super_block where
  "demo_sb = \<lparr>magic = 0x20050608, sec_cnt = 20000, inode_cnt = 4096, part_lba_base = 2048,
     block_bitmap_lba = 2050, block_bitmap_sects = 1, inode_bitmap_lba = 2051, inode_bitmap_sects = 1,
     inode_table_lba = 2052, inode_table_sects = 608, data_start_lba = 2660, root_inode_no = 0,
     dir_entry_size = 24\<rparr>"

definition demo_fs :: fsk where
  "demo_fs = kernel.extend demo_kernel (fsk.fields (\<lambda>s. replicate 512 0) 2048 20000 demo_sb
     \<lparr>btmp_bytes_len = 512, bits = replicate 512 0\<rparr> \<lparr>btmp_bytes_len = 512, bits = replicate 512 0\<rparr>
     [] (\<lambda>a. None) [1 \<mapsto> \<lparr>dir_inode = 0, dir_pos = 0, dir_buf = replicate 512 0\<rparr>] (\<lambda>a. None) (replicate 32 \<lparr>fd_pos = 0, fd_flag = 0, fd_inode = 0\<rparr>) [] 2
     (\<lambda>t. [0, 1, 2, -1, -1, -1, -1, -1]) (\<lambda>t. 0) demo_ioq [])"

lemma demo_fs_simps [simp]:
  "disk_image demo_fs = (\<lambda>s. replicate 512 0)" "start_lba demo_fs = 2048"
  "part_sec_cnt demo_fs = 20000" "sb demo_fs = demo_sb" "open_inodes demo_fs = []"
  "block_bitmap demo_fs = \<lparr>btmp_bytes_len = 512, bits = replicate 512 0\<rparr>"
  "inode_bitmap demo_fs = \<lparr>btmp_bytes_len = 512, bits = replicate 512 0\<rparr>"
  "inodes demo_fs = (\<lambda>a. None)" "dirs demo_fs = [1 \<mapsto> \<lparr>dir_inode = 0, dir_pos = 0, dir_buf = replicate 512 0\<rparr>]" "pipes demo_fs = (\<lambda>a. None)"
  "mallocs demo_fs = []" "next_addr demo_fs = 2" "cur demo_fs = 0x1000"
  "file_table demo_fs = replicate 32 \<lparr>fd_pos = 0, fd_flag = 0, fd_inode = 0\<rparr>"
  "fd_table demo_fs = (\<lambda>t. [0, 1, 2, -1, -1, -1, -1, -1])" "cwd_inode_nr demo_fs = (\<lambda>t. 0)"
  "kbd_buf demo_fs = demo_ioq" "screen demo_fs = []"
  "tasks demo_fs = demo_tasks" "intr demo_fs = INTR_ON"
  by (simp_all add: demo_fs_def kernel.defs fsk.defs demo_kernel_def)

lemma demo_fs_ok: "fs_ok demo_fs" "blocks_synced demo_fs" "heap_ok demo_fs" "table_ok demo_fs"
  by (simp_all add: fs_ok_def table_ok_def wf_image_def wf_bitmap_def demo_sb_def blocks_synced_def
      sectors_def heap_ok_def)

section \<open>Results\<close>

text \<open>
  C20: An i-node that was written is what the next open reads. For every i-node in range that is
  not open (and a heap that has memory), whether its slot lies in one sector of the table or across two, \<open>inode_sync\<close> succeeds,
  a later \<open>inode_open\<close> that has to go to the disk returns a fresh object with the same
  number, size and block addresses, open count 1 and writing allowed, and no other i-node of
  the table changes.
\<close>

theorem inode_sync_then_open:
  assumes "table_ok k" "wf_inode i" "i_no i < 4096" "\<not> is_open (i_no i) k" "mallocs k = []"
  shows "\<exists>k1 k2. inode_sync i k = Inr k1 \<and> inode_open (i_no i) k1 = Inr (next_addr k, k2) \<and>
    inodes k2 (next_addr k) = Some (i\<lparr>i_open_cnts := 1, writen_deny := False\<rparr>) \<and>
    (\<forall>m < 4096. m = i_no i \<or> disk_inode k2 m = disk_inode k m)"
proof -
  obtain k1 where k1: "inode_sync i k = Inr k1" "k1 = k\<lparr>disk_image := disk_image k1\<rparr>" "table_ok k1"
    "\<And>m. m < 4096 \<Longrightarrow> disk_inode k1 m = (if m = i_no i then pure_inode i else disk_inode k m)"
    by (rule inode_sync_ok [OF assms(1-3)]) blast
  have f: "inodes k1 = inodes k" "open_inodes k1 = open_inodes k" "mallocs k1 = []" "next_addr k1 = next_addr k"
    by (subst k1(2), simp add: assms(5))+
  have "inode_open (i_no i) k1 = Inr (next_addr k, loaded (i_no i) k1)"
    using inode_open_fresh [OF k1(3) assms(3)] assms(4) by (simp add: f)
  moreover have "\<forall>m < 4096. m = i_no i \<or> disk_inode (loaded (i_no i) k1) m = disk_inode k m"
    using k1(4) by (simp add: disk_inode_def table_region_def loaded_def)
  ultimately show ?thesis using k1(1) k1(4) [OF assms(3)]
    by (simp add: loaded_def f pure_inode_def)
qed

definition demo_inode :: inode where
  "demo_inode = \<lparr>i_no = 20, i_size = 700, i_open_cnts = 3, writen_deny = True,
     i_sectors = [2661, 2662, 0, 0, 0, 0, 0, 0, 0, 0, 0, 0, 0]\<rparr>"

text \<open>The slot of i-node 20 starts at byte 496 of its sector and goes on in the next one.\<close>

lemma inode_sync_then_open_witness:
  "\<exists>k1 k2. inode_sync demo_inode demo_fs = Inr k1 \<and> inode_open 20 k1 = Inr (2, k2) \<and>
    inodes k2 2 = Some (demo_inode\<lparr>i_open_cnts := 1, writen_deny := False\<rparr>)"
proof -
  have "wf_inode demo_inode" "i_no demo_inode = 20" by (simp_all add: demo_inode_def wf_inode_def)
  then show ?thesis using inode_sync_then_open [OF demo_fs_ok(4), of demo_inode] by auto
qed

text \<open>
  Opening and closing is balanced. Opening an i-node and closing the object it returned
  leaves the list of open i-nodes, all i-node objects, the interrupt flag and the disk as
  they were, both when the i-node was open already (the object is shared) and when it had to
  be loaded (the object is freed again).
\<close>

theorem inode_open_close:
  assumes "heap_ok k" "table_ok k" "no < 4096" "mallocs k = []"
  shows "\<exists>a k1 k2. inode_open no k = Inr (a, k1) \<and> inode_close a k1 = Inr k2 \<and>
    map_option i_no (inodes k1 a) = Some (if is_open no k then no else i_no (disk_inode k no)) \<and>
    inodes k2 = inodes k \<and> open_inodes k2 = open_inodes k \<and> intr k2 = intr k \<and>
    disk_image k2 = disk_image k"
proof (cases "is_open no k")
  case True
  obtain a i where a: "a \<in> set (open_inodes k)" "inodes k a = Some i" "i_no i = no"
    "inode_open no k = Inr (a, set_inode a (i\<lparr>i_open_cnts := i_open_cnts i + 1\<rparr>) k)"
    by (rule inode_open_shared [OF assms(1) True])
  have c: "0 < i_open_cnts i" "i_open_cnts i < 2 ^ 32 - 1" using assms(1) a by (auto simp: heap_ok_def)
  then show ?thesis using a True sub32_Suc [OF c(2)]
    by (auto simp: inode_close_def get_inode_def set_inode_def Let_def)
next
  case False
  have na: "inodes k (next_addr k) = None" using assms(1) unfolding heap_ok_def by (metis less_irrefl)
  have "inode_close (next_addr k) (loaded no k) = Inr ((loaded no k)\<lparr>
      open_inodes := remove1 (next_addr k) (open_inodes (loaded no k)),
      inodes := (inodes (loaded no k))(next_addr k := None)\<rparr>)"
    by (rule inode_close_last [of _ _ "(disk_inode k no)\<lparr>i_open_cnts := 1\<rparr>"]) (simp_all add: loaded_def)
  moreover have "(inodes k)(next_addr k := None) = inodes k" using na by auto
  ultimately show ?thesis
    unfolding if_not_P [OF False]
    using inode_open_fresh [OF assms(2,3) False assms(4)] by (simp add: loaded_def)
qed

lemma inode_open_close_witness:
  "\<exists>a k1 k2. inode_open 7 demo_fs = Inr (a, k1) \<and> inode_close a k1 = Inr k2 \<and> open_inodes k2 = []"
proof -
  have "(7 :: nat) < 4096" by simp
  from inode_open_close [OF demo_fs_ok(3,4) this demo_fs_simps(11)] show ?thesis by auto
qed

text \<open>
  C19: Deleting a file gives everything back. \<open>inode_realse\<close> of an i-node that nobody has open, whose
  blocks lie in the data area behind its first block, runs through when the heap has memory, clears exactly the bits of the blocks the i-node owns (the 12 direct ones,
  the table of indirect blocks and the blocks in it) and the bit of the i-node itself, leaves
  the block bitmap on disk equal to the one in memory, clears the slot of the i-node and no
  other one, and leaves no object behind in memory.
\<close>

theorem inode_realse_frees_all:
  assumes "fs_ok k" "blocks_synced k" "heap_ok k" "mallocs k = []"
    and "no < 4096" "\<not> is_open no k" "i_no (disk_inode k no) = no"
    and "\<forall>lba \<in> set (owned_blocks k (disk_inode k no)). lba = 0 \<or> block_idx_ok k lba"
      "i_sectors (disk_inode k no) ! 12 < max_lba"
  shows "\<exists>k'. inode_realse no k = Inr k' \<and> fs_ok k' \<and> blocks_synced k' \<and>
    used (block_bitmap k') = used (block_bitmap k) -
      (\<lambda>lba. lba - data_start_lba (sb k)) ` {lba \<in> set (owned_blocks k (disk_inode k no)). lba \<noteq> 0} \<and>
    used (inode_bitmap k') = used (inode_bitmap k) - {no} \<and>
    inodes k' = inodes k \<and> open_inodes k' = open_inodes k \<and>
    (\<forall>m < 4096. disk_inode k' m = (if m = no then inode_init 0 else disk_inode k m))"
proof -
  have "\<forall>lba \<in> set (owned_blocks k (disk_inode k no)). lba \<noteq> 0 \<longrightarrow> block_idx_ok k lba"
  proof (intro ballI impI)
    fix lba assume "lba \<in> set (owned_blocks k (disk_inode k no))" "lba \<noteq> 0"
    from bspec [OF assms(8) this(1)] \<open>lba \<noteq> 0\<close> show "block_idx_ok k lba" by simp
  qed
  from inode_realse_ok [OF assms(1-6) refl assms(7) this assms(9)] show ?thesis .
qed

text \<open>A file of 13 blocks: the direct ones are 2661 to 2672, the table is 2673, its only entry is 2674.\<close>

definition demo_file_inode :: inode where
  "demo_file_inode = \<lparr>i_no = 0, i_size = 6656, i_open_cnts = 0, writen_deny = False, i_sectors = [2661..<2674]\<rparr>"

definition demo_file_bits :: "u8 list" where
  "demo_file_bits = 0xfe # 0x7f # replicate 510 0"

definition demo_file_image :: image where
  "demo_file_image = (\<lambda>s.
     if s = 2050 then demo_file_bits
     else if s = 2052 then inode_bytes demo_file_inode @ replicate 436 0
     else if s = 2673 then table_bytes (2674 # replicate 127 0)
     else replicate 512 0)"

definition demo_file_fs :: fsk where
  "demo_file_fs = demo_fs\<lparr>disk_image := demo_file_image,
     block_bitmap := \<lparr>btmp_bytes_len = 512, bits = demo_file_bits\<rparr>,
     inode_bitmap := \<lparr>btmp_bytes_len = 512, bits = 1 # replicate 511 0\<rparr>\<rparr>"

lemma demo_file_wf: "wf_inode demo_file_inode"
  by (simp add: wf_inode_def demo_file_inode_def)

lemma demo_file_image_wf: "wf_image demo_file_image"
  using length_inode_bytes [OF demo_file_wf]
  by (simp add: wf_image_def demo_file_image_def demo_file_bits_def)

lemma demo_file_fs_ok: "fs_ok demo_file_fs" "blocks_synced demo_file_fs" "heap_ok demo_file_fs"
  using demo_file_image_wf
  by (simp_all add: demo_file_fs_def fs_ok_def table_ok_def wf_bitmap_def demo_sb_def blocks_synced_def
      sectors_def heap_ok_def demo_file_bits_def demo_file_image_def)

lemma demo_file_disk_inode: "disk_inode demo_file_fs 0 = demo_file_inode"
proof -
  have "table_region demo_file_fs = demo_file_image 2052 @ sectors demo_file_image 2053 607"
    by (simp add: table_region_def demo_file_fs_def demo_sb_def sectors_def upt_conv_Cons)
  then show ?thesis
    using length_inode_bytes [OF demo_file_wf] read_inode_bytes_append [OF demo_file_wf, of "[]"]
    by (simp add: disk_inode_def slice_def demo_file_image_def)
qed

lemma demo_file_owned: "{lba \<in> set (owned_blocks demo_file_fs demo_file_inode). lba \<noteq> 0} = {2661..2674}"
proof -
  have "read_table 0 128 (demo_file_image 2673) = 2674 # replicate 127 0"
    using read_table_bytes [of "2674 # replicate 127 0" "[]"] by (simp add: demo_file_image_def)
  then have "owned_blocks demo_file_fs demo_file_inode = 2673 # [2661..<2673] @ 2674 # replicate 127 0"
    by (simp add: owned_blocks_def demo_file_inode_def demo_file_fs_def sectors_def upt_conv_Cons)
  then show ?thesis unfolding \<open>owned_blocks _ _ = _\<close> by (auto simp del: upt_rec_numeral)
qed

lemma demo_file_used: "{1..14} \<subseteq> used (block_bitmap demo_file_fs)"
proof
  fix i :: nat
  assume "i \<in> {1..14}"
  then have "i \<in> set [1..<15]" by simp
  moreover have "list_all (\<lambda>i. i \<in> used (block_bitmap demo_file_fs)) [1..<15]"
    by (simp add: upt_conv_Cons used_def nbits_def bit_at_def demo_file_fs_def demo_file_bits_def)
  ultimately show "i \<in> used (block_bitmap demo_file_fs)" unfolding list_all_iff by blast
qed

lemma inode_realse_frees_all_witness:
  "\<exists>k'. inode_realse 0 demo_file_fs = Inr k' \<and> {1..14} \<subseteq> used (block_bitmap demo_file_fs) \<and>
    used (block_bitmap k') = used (block_bitmap demo_file_fs) - {1..14} \<and>
    used (inode_bitmap k') = used (inode_bitmap demo_file_fs) - {0}"
proof -
  note o = demo_file_owned
  have "lba = 0 \<or> block_idx_ok demo_file_fs lba" if "lba \<in> set (owned_blocks demo_file_fs demo_file_inode)" for lba
  proof (cases "lba = 0")
    case False
    then have "lba \<in> {2661..2674}" using that o by blast
    then show ?thesis by (simp add: block_idx_ok_def demo_file_fs_def demo_sb_def nbits_def) linarith
  qed simp
  moreover have "i_sectors demo_file_inode ! 12 < max_lba" "i_no demo_file_inode = 0"
    by (simp_all add: demo_file_inode_def)
  moreover have "mallocs demo_file_fs = []" "\<not> is_open 0 demo_file_fs" by (simp_all add: demo_file_fs_def)
  ultimately obtain k' where k': "inode_realse 0 demo_file_fs = Inr k'"
    "used (block_bitmap k') = used (block_bitmap demo_file_fs) -
      (\<lambda>lba. lba - data_start_lba (sb demo_file_fs)) ` {2661..2674}"
    "used (inode_bitmap k') = used (inode_bitmap demo_file_fs) - {0}"
    using inode_realse_frees_all [OF demo_file_fs_ok, of 0] unfolding demo_file_disk_inode o by auto
  have "(\<lambda>lba. lba - data_start_lba (sb demo_file_fs)) ` {2661..2674} = {1 :: nat..14}"
  proof -
    have "data_start_lba (sb demo_file_fs) = 2660" by (simp add: demo_file_fs_def demo_sb_def)
    then show ?thesis
      by (auto simp: image_iff intro!: bexI [of _ "_ + 2660"])
  qed
  then show ?thesis using k' demo_file_used by metis
qed

end
