(* ===== verification/Dir.thy ===== *)
theory Dir
  imports Inode
begin

text \<open>
  \<open>fs/dir.c\<close> and the allocation of i-nodes and blocks of \<open>fs/file.c\<close>.

  A directory is a file of 24-byte entries, 21 to a sector; an entry of type 0 is free. Every
  routine first collects the addresses of the directory's blocks in \<open>all_blocks\<close> (12 direct
  ones and the 128 of the indirect table, 0 for none), so its loops run over this list here.
  Names are lists of characters without the terminating 0.
\<close>

section \<open>Numbers of i-nodes and blocks\<close>

definition inode_bitmap_alloc :: "fsk \<Rightarrow> (int \<times> fsk) res" where
  "inode_bitmap_alloc k =
     bnd (bitmap_scan (inode_bitmap k) 1) (\<lambda>bit_idx.
     if bit_idx = -1 then Inr (-1, k)
     else bnd (bitmap_set (inode_bitmap k) (nat bit_idx) 1) (\<lambda>b.
          Inr (bit_idx, k\<lparr>inode_bitmap := b\<rparr>)))"

definition block_bitmap_alloc :: "fsk \<Rightarrow> (int \<times> fsk) res" where
  "block_bitmap_alloc k =
     bnd (bitmap_scan (block_bitmap k) 1) (\<lambda>bit_idx.
     if bit_idx = -1 then Inr (-1, k)
     else bnd (bitmap_set (block_bitmap k) (nat bit_idx) 1) (\<lambda>b.
          Inr (int (data_start_lba (sb k)) + bit_idx, k\<lparr>block_bitmap := b\<rparr>)))"

text \<open>
  A new block, and the sector of the bitmap with its bit written to disk: the steps that
  follow every call of \<open>block_bitmap_alloc\<close>. \<open>ok\<close> is what the caller asserts of the block's index.
\<close>

definition new_block :: "(nat \<Rightarrow> bool) \<Rightarrow> fsk \<Rightarrow> (int \<times> fsk) res" where
  "new_block ok k =
     bnd (block_bitmap_alloc k) (\<lambda>(block_lba, k).
     if block_lba = -1 then Inr (-1, k)
     else let block_bitmap_idx = sub32 (nat block_lba) (data_start_lba (sb k))
          in ASSERT (ok block_bitmap_idx) ''block_bitmap_idx''
              (bnd (bitmap_sync block_bitmap_idx BLOCK_BITMAP k) (\<lambda>k. Inr (block_lba, k))))"

section \<open>Opening and closing\<close>

text \<open>The address of the variable \<open>root_dir\<close>.\<close>

abbreviation ROOT_DIR :: nat where "ROOT_DIR \<equiv> 1"

definition get_dir :: "nat \<Rightarrow> fsk \<Rightarrow> dir res" where
  "get_dir a k = (case dirs k a of None \<Rightarrow> Inl (Fault ''dir'') | Some d \<Rightarrow> Inr d)"

definition set_dir :: "nat \<Rightarrow> dir \<Rightarrow> fsk \<Rightarrow> fsk" where
  "set_dir a d k = k\<lparr>dirs := (dirs k)(a \<mapsto> d)\<rparr>"

definition open_root_dir :: "fsk \<Rightarrow> fsk res" where
  "open_root_dir k =
     bnd (inode_open (root_inode_no (sb k)) k) (\<lambda>(i, k).
     bnd (get_dir ROOT_DIR k) (\<lambda>d.
     Inr (set_dir ROOT_DIR (d\<lparr>dir_inode := i, dir_pos := 0\<rparr>) k)))"

definition dir_open :: "nat \<Rightarrow> fsk \<Rightarrow> (nat \<times> fsk) res" where
  "dir_open inode_no k =
     (let (ok, k) = heap_reply k in
      bnd (inode_open inode_no k) (\<lambda>(i, k).
      GUARD ok ''pdir''
       (let a = next_addr k
        in Inr (a, set_dir a \<lparr>dir_inode = i, dir_pos = 0, dir_buf = replicate 512 0\<rparr>
             (k\<lparr>next_addr := next_addr k + 1\<rparr>)))))"

definition dir_close :: "nat \<Rightarrow> fsk \<Rightarrow> fsk res" where
  "dir_close a k =
     (if a = ROOT_DIR then Inr k
      else bnd (get_dir a k) (\<lambda>d.
           bnd (inode_close (dir_inode d) k) (\<lambda>k. Inr (k\<lparr>dirs := (dirs k)(a := None)\<rparr>))))"

definition dir_is_empty :: "nat \<Rightarrow> fsk \<Rightarrow> bool res" where
  "dir_is_empty a k =
     bnd (get_dir a k) (\<lambda>d.
     bnd (get_inode (dir_inode d) k) (\<lambda>i. Inr (i_size i = dir_entry_size (sb k) * 2)))"

section \<open>Entries\<close>

text \<open>
  The number of entries the loops visit in a sector; they step by \<open>sizeof(struct dir_entry)\<close>,
  and must not leave the buffer. \<open>entry_ok\<close> is for the copies of \<open>dir_entry_size\<close> bytes.
\<close>

definition per_sec :: "fsk \<Rightarrow> nat" where
  "per_sec k = SECTOR_SIZE div dir_entry_size (sb k)"

definition per_sec_ok :: "fsk \<Rightarrow> bool" where
  "per_sec_ok k \<longleftrightarrow> dir_entry_size (sb k) \<noteq> 0 \<and> per_sec k * DIR_ENTRY_BYTES \<le> SECTOR_SIZE"

definition entry_ok :: "fsk \<Rightarrow> bool" where
  "entry_ok k \<longleftrightarrow> dir_entry_size (sb k) \<le> DIR_ENTRY_BYTES"

definition entry_name :: "u8 list \<Rightarrow> nat \<Rightarrow> u8 list" where
  "entry_name sec j = cstr (drop (j * DIR_ENTRY_BYTES) sec)"

definition entry_at :: "u8 list \<Rightarrow> nat \<Rightarrow> dir_entry" where
  "entry_at sec j = read_dir_entry (drop (j * DIR_ENTRY_BYTES) sec)"

text \<open>The bytes of an entry that are copied.\<close>

definition entry_bytes :: "dir_entry \<Rightarrow> fsk \<Rightarrow> u8 list" where
  "entry_bytes e k = take (dir_entry_size (sb k)) (dir_entry_bytes e)"

section \<open>Search\<close>

fun search_blocks :: "u8 list \<Rightarrow> nat list \<Rightarrow> fsk \<Rightarrow> dir_entry option res" where
  "search_blocks nm [] k = Inr None"
| "search_blocks nm (b # bs) k =
     (if b = 0 then search_blocks nm bs k
      else bnd (disk_read b 1 k) (\<lambda>sec.
        case find (\<lambda>j. entry_name sec j = nm) [0..<per_sec k] of
          Some j \<Rightarrow> GUARD (entry_ok k) ''dir_e'' (Inr (Some (entry_at sec j)))
        | None \<Rightarrow> search_blocks nm bs k))"

definition search_dir_entry :: "nat \<Rightarrow> u8 list \<Rightarrow> fsk \<Rightarrow> (dir_entry option \<times> fsk) res" where
  "search_dir_entry pdir nm k =
     (let (ok, k) = heap_reply k in
      if \<not> ok then Inr (None, k)
      else bnd (get_dir pdir k) (\<lambda>d.
           bnd (get_inode (dir_inode d) k) (\<lambda>i.
           bnd (all_blocks i k) (\<lambda>bs.
           let (ok, k) = heap_reply k in
           GUARD (per_sec_ok k) ''buf''
            (GUARD (ok \<or> (\<forall>b \<in> set bs. b = 0)) ''buf''
              (bnd (search_blocks nm bs k) (\<lambda>e. Inr (e, k))))))))"

section \<open>A new entry\<close>

definition set_sector :: "nat \<Rightarrow> nat \<Rightarrow> nat \<Rightarrow> fsk \<Rightarrow> fsk res" where
  "set_sector a j lba k = bnd (get_inode a k) (\<lambda>i.
     GUARD (j < length (i_sectors i)) ''i_sectors''
      (Inr (set_inode a (i\<lparr>i_sectors := (i_sectors i)[j := lba]\<rparr>) k)))"

definition add_size :: "nat \<Rightarrow> nat \<Rightarrow> fsk \<Rightarrow> fsk res" where
  "add_size a n k = bnd (get_inode a k) (\<lambda>i.
     Inr (set_inode a (i\<lparr>i_size := (i_size i + n) mod 2 ^ 32\<rparr>) k))"

text \<open>The indirect table, as it is written from \<open>all_blocks + 12\<close>.\<close>

definition write_table :: "nat \<Rightarrow> nat list \<Rightarrow> fsk \<Rightarrow> fsk res" where
  "write_table a all k = bnd (get_inode a k) (\<lambda>i.
     disk_write (i_sectors i ! 12) (table_bytes (drop 12 all)) 1 k)"

text \<open>
  The first address that is 0 gets a block: a direct one, or, at index 12, the indirect table
  and its first block, or a further block of the table. The flag tells whether there was one.
\<close>

definition attach_block :: "nat \<Rightarrow> nat list \<Rightarrow> nat \<Rightarrow> fsk \<Rightarrow> (nat list option \<times> fsk) res" where
  "attach_block a all block_idx k =
     bnd (new_block (\<lambda>idx. idx \<noteq> 2 ^ 32 - 1) k) (\<lambda>(block_lba, k).
     if block_lba = -1 then Inr (None, k)
     else if block_idx < 12
     then bnd (set_sector a block_idx (nat block_lba) k) (\<lambda>k. Inr (Some (all[block_idx := nat block_lba]), k))
     else if block_idx = 12
     then bnd (set_sector a 12 (nat block_lba) k) (\<lambda>k.
          bnd (new_block (\<lambda>idx. idx \<noteq> 2 ^ 32 - 1) k) (\<lambda>(lba2, k).
          if lba2 = -1
          then bnd (bitmap_set (block_bitmap k) (sub32 (nat block_lba) (data_start_lba (sb k))) 0) (\<lambda>b.
               bnd (set_sector a 12 0 (k\<lparr>block_bitmap := b\<rparr>)) (\<lambda>k. Inr (None, k)))
          else let all = all[12 := nat lba2] in
               bnd (write_table a all k) (\<lambda>k. Inr (Some all, k))))
     else let all = all[block_idx := nat block_lba] in
          bnd (write_table a all k) (\<lambda>k. Inr (Some all, k)))"

text \<open>The loop over the blocks; \<open>todo\<close> are the indices that are left.\<close>

fun sync_blocks :: "nat \<Rightarrow> dir_entry \<Rightarrow> nat list \<Rightarrow> nat list \<Rightarrow> fsk \<Rightarrow> (bool \<times> fsk) res" where
  "sync_blocks a p_de all [] k = Inr (False, k)"
| "sync_blocks a p_de all (block_idx # todo) k =
     (if all ! block_idx = 0
      then bnd (attach_block a all block_idx k) (\<lambda>(r, k).
           case r of None \<Rightarrow> Inr (False, k)
           | Some all \<Rightarrow>
               GUARD (entry_ok k) ''p_de''
                (bnd (disk_write (all ! block_idx) (splice 0 (entry_bytes p_de k) (replicate SECTOR_SIZE 0)) 1 k) (\<lambda>k.
                 bnd (add_size a (dir_entry_size (sb k)) k) (\<lambda>k. Inr (True, k)))))
      else bnd (disk_read (all ! block_idx) 1 k) (\<lambda>sec.
           case find (\<lambda>j. f_type (entry_at sec j) = 0) [0..<per_sec k] of
             Some j \<Rightarrow>
               GUARD (entry_ok k) ''p_de''
                (bnd (disk_write (all ! block_idx)
                       (splice (j * DIR_ENTRY_BYTES) (entry_bytes p_de k) sec) 1 k) (\<lambda>k.
                 bnd (add_size a (dir_entry_size (sb k)) k) (\<lambda>k. Inr (True, k))))
           | None \<Rightarrow> sync_blocks a p_de all todo k))"

definition sync_dir_entry :: "nat \<Rightarrow> dir_entry \<Rightarrow> fsk \<Rightarrow> (bool \<times> fsk) res" where
  "sync_dir_entry parent_dir p_de k =
     bnd (get_dir parent_dir k) (\<lambda>d.
     bnd (get_inode (dir_inode d) k) (\<lambda>i.
     GUARD (per_sec_ok k) ''io_buf''
      (ASSERT (i_size i mod dir_entry_size (sb k) = 0) ''dir_size % dir_entry_size == 0''
        (sync_blocks (dir_inode d) p_de (take 12 (i_sectors i) @ replicate 128 0) [0..<140] k))))"

section \<open>Removal of an entry\<close>

abbreviation DOT :: "u8 list" where "DOT \<equiv> [0x2e]"
abbreviation DOTDOT :: "u8 list" where "DOTDOT \<equiv> [0x2e, 0x2e]"

text \<open>
  One sector: whether it is the directory's first one (it has the entry \<open>.\<close>), how many entries
  other than \<open>.\<close> and \<open>..\<close> it has, and which of these has the i-node number looked for.
\<close>

fun scan_sector :: "u8 list \<Rightarrow> nat \<Rightarrow> nat list \<Rightarrow> bool \<Rightarrow> nat \<Rightarrow> nat option \<Rightarrow> (bool \<times> nat \<times> nat option) res" where
  "scan_sector sec inode_no [] first cnt found = Inr (first, cnt, found)"
| "scan_sector sec inode_no (j # js) first cnt found =
     (if f_type (entry_at sec j) \<noteq> 0
      then if entry_name sec j = DOT then scan_sector sec inode_no js True cnt found
           else if entry_name sec j \<noteq> DOTDOT
           then if de_i_no (entry_at sec j) = inode_no
                then ASSERT (found = None) ''dir_entry_found == NULL''
                       (scan_sector sec inode_no js first (cnt + 1) (Some j))
                else scan_sector sec inode_no js first (cnt + 1) found
           else scan_sector sec inode_no js first cnt found
      else scan_sector sec inode_no js first cnt found)"

text \<open>The block of the last entry in it is taken away from the directory.\<close>

definition drop_block :: "nat \<Rightarrow> nat list \<Rightarrow> nat \<Rightarrow> fsk \<Rightarrow> fsk res" where
  "drop_block a all block_idx k =
     bnd (free_block (all ! block_idx) k) (\<lambda>k.
     if block_idx < 12 then set_sector a block_idx 0 k
     else let indirect_blocks = length (filter (\<lambda>b. b \<noteq> 0) (drop 12 all)) in
          ASSERT (indirect_blocks \<ge> 1) ''indirect_blocks >= 1''
           (bnd (write_table a (all[block_idx := 0]) k) (\<lambda>k.
            if indirect_blocks > 1 then Inr k
            else bnd (get_inode a k) (\<lambda>i.
                 let idx = sub32 (i_sectors i ! 12) (data_start_lba (sb k)) in
                 bnd (bitmap_set (block_bitmap k) idx 0) (\<lambda>b.
                 bnd (bitmap_sync idx BLOCK_BITMAP (k\<lparr>block_bitmap := b\<rparr>)) (\<lambda>k.
                 set_sector a 12 0 k))))))"

fun delete_in_blocks :: "nat \<Rightarrow> nat \<Rightarrow> nat list \<Rightarrow> nat list \<Rightarrow> fsk \<Rightarrow> (bool \<times> fsk) res" where
  "delete_in_blocks a inode_no all [] k = Inr (False, k)"
| "delete_in_blocks a inode_no all (block_idx # todo) k =
     (if all ! block_idx = 0 then delete_in_blocks a inode_no all todo k
      else bnd (disk_read (all ! block_idx) 1 k) (\<lambda>sec.
           bnd (scan_sector sec inode_no [0..<per_sec k] False 0 None) (\<lambda>(first, cnt, found).
           case found of None \<Rightarrow> delete_in_blocks a inode_no all todo k
           | Some j \<Rightarrow>
               ASSERT (cnt \<ge> 1) ''dir_entry_cnt >= 1''
                (bnd (if cnt = 1 \<and> \<not> first then drop_block a all block_idx k
                      else GUARD (j * DIR_ENTRY_BYTES + dir_entry_size (sb k) \<le> 2 * SECTOR_SIZE) ''io_buf''
                        (disk_write (all ! block_idx)
                          (splice (j * DIR_ENTRY_BYTES) (replicate (dir_entry_size (sb k)) 0) sec) 1 k)) (\<lambda>k.
                 bnd (get_inode a k) (\<lambda>i.
                 ASSERT (i_size i \<ge> dir_entry_size (sb k)) ''dir_inode->i_size >= dir_entry_size''
                  (let i = i\<lparr>i_size := i_size i - dir_entry_size (sb k)\<rparr>
                   in bnd (inode_sync i (set_inode a i k)) (\<lambda>k. Inr (True, k)))))))))"

definition delete_dir_entry :: "nat \<Rightarrow> nat \<Rightarrow> fsk \<Rightarrow> (bool \<times> fsk) res" where
  "delete_dir_entry pdir inode_no k =
     bnd (get_dir pdir k) (\<lambda>d.
     bnd (get_inode (dir_inode d) k) (\<lambda>i.
     bnd (all_blocks i k) (\<lambda>all.
     GUARD (per_sec_ok k) ''io_buf'' (delete_in_blocks (dir_inode d) inode_no all [0..<140] k))))"

section \<open>Reading a directory\<close>

text \<open>
  \<open>dir_read\<close> starts at the first entry each time and skips the entries in front of \<open>dir_pos\<close>;
  \<open>pos\<close> is the position of the next entry it comes to.
\<close>

fun scan_read :: "u8 list \<Rightarrow> nat \<Rightarrow> nat \<Rightarrow> nat list \<Rightarrow> nat \<Rightarrow> (nat \<times> nat option) res" where
  "scan_read sec dpos sz [] pos = Inr (pos, None)"
| "scan_read sec dpos sz (j # js) pos =
     (if f_type (entry_at sec j) \<noteq> 0
      then if pos < dpos then scan_read sec dpos sz js (pos + sz)
           else ASSERT (pos = dpos) ''cur_dir_entry_pos == dir->dir_pos'' (Inr (pos, Some j))
      else scan_read sec dpos sz js pos)"

text \<open>The loop has no end of its own: behind the last block it reads past \<open>all_blocks\<close>.\<close>

fun read_blocks :: "nat \<Rightarrow> nat list \<Rightarrow> nat \<Rightarrow> fsk \<Rightarrow> (u8 list \<times> nat) res" where
  "read_blocks dpos [] pos k = Inl (Fault ''all_blocks'')"
| "read_blocks dpos (b # bs) pos k =
     (if b = 0 then read_blocks dpos bs pos k
      else bnd (disk_read b 1 k) (\<lambda>sec.
           bnd (scan_read sec dpos (dir_entry_size (sb k)) [0..<per_sec k] pos) (\<lambda>(pos, found).
           case found of Some j \<Rightarrow> Inr (sec, j) | None \<Rightarrow> read_blocks dpos bs pos k)))"

definition dir_read :: "nat \<Rightarrow> fsk \<Rightarrow> (dir_entry option \<times> fsk) res" where
  "dir_read a k =
     bnd (get_dir a k) (\<lambda>d.
     bnd (get_inode (dir_inode d) k) (\<lambda>i.
     bnd (all_blocks i k) (\<lambda>all.
     GUARD (per_sec_ok k) ''dir_buf''
      (if dir_pos d < i_size i
       then bnd (read_blocks (dir_pos d) all 0 k) (\<lambda>(sec, j).
            Inr (Some (entry_at sec j),
                 set_dir a (d\<lparr>dir_buf := sec, dir_pos := (dir_pos d + dir_entry_size (sb k)) mod 2 ^ 32\<rparr>) k))
       else Inr (None, k)))))"

definition dir_remove :: "nat \<Rightarrow> nat \<Rightarrow> fsk \<Rightarrow> (int \<times> fsk) res" where
  "dir_remove parent_dir child_dir k =
     bnd (get_dir child_dir k) (\<lambda>d.
     bnd (get_inode (dir_inode d) k) (\<lambda>child_dir_inode.
     ASSERT (\<forall>b \<in> set (tl (i_sectors child_dir_inode)). b = 0) ''child_dir_inode->i_sectors[block_idx] == 0''
      (let (ok, k) = heap_reply k in
       if \<not> ok then Inr (-1, k)
       else bnd (delete_dir_entry parent_dir (i_no child_dir_inode) k) (\<lambda>(_, k).
            bnd (inode_realse (i_no child_dir_inode) k) (\<lambda>k. Inr (0, k))))))"

section \<open>Reading and writing whole sectors\<close>

lemma sectors_put_same:
  assumes "wf_image d" "length bs = n * SECTOR_SIZE"
  shows "sectors (put_sectors d L bs) L n = bs"
proof -
  have s: "splice 0 bs (sectors d L n) = bs" using assms by (intro splice_0_all) simp
  from sectors_rewrite [OF assms(1) order_refl order_refl, of 0 bs n L] show ?thesis
    using assms(2) by (simp add: s)
qed

lemma lba_ok_region: "L + n \<le> max_lba \<Longrightarrow> 0 < n \<Longrightarrow> lba_ok L n"
proof -
  assume a: "L + n \<le> max_lba" "0 < n"
  have "(n - 1) div 256 * 256 \<le> n - 1" by (rule div_times_less_eq_dividend)
  then have "256 * ((n - 1) div 256) < n" using a(2) by linarith
  then show "lba_ok L n" using a by (simp add: lba_ok_def)
qed

lemma write_region:
  assumes wf: "wf_image (disk_image k)" and n: "0 < n" "L + n \<le> max_lba" and len: "n * SECTOR_SIZE \<le> length bs"
  shows "\<exists>d. disk_write L bs n k = Inr (k\<lparr>disk_image := d\<rparr>) \<and> wf_image d \<and>
    sectors d L n = take (n * SECTOR_SIZE) bs \<and>
    (\<forall>T N. T + N \<le> L \<or> L + n \<le> T \<longrightarrow> sectors d T N = sectors (disk_image k) T N)"
proof -
  let ?d = "put_sectors (disk_image k) L (take (n * SECTOR_SIZE) bs)"
  have l: "length (take (n * SECTOR_SIZE) bs) = n * SECTOR_SIZE" using len by simp
  have "disk_write L bs n k = Inr (k\<lparr>disk_image := ?d\<rparr>)"
    using lba_ok_region [OF n(2,1)] by (simp add: disk_write_def)
  moreover have "wf_image ?d" by (rule length_put_sectors [OF wf l])
  moreover have "sectors ?d L n = take (n * SECTOR_SIZE) bs" by (rule sectors_put_same [OF wf l])
  moreover have "sectors ?d T N = sectors (disk_image k) T N" if "T + N \<le> L \<or> L + n \<le> T" for T N
    using that l by (intro sectors_put_other) auto
  ultimately show ?thesis by blast
qed

lemma disk_read_region: "0 < n \<Longrightarrow> L + n \<le> max_lba \<Longrightarrow> disk_read L n k = Inr (sectors (disk_image k) L n)"
  by (simp add: disk_read_def lba_ok_region)

end
