(* ===== verification/File.thy ===== *)
theory File
  imports Dir
begin

text \<open>
  \<open>fs/file.c\<close>: the table of open files, and creating, opening, closing, reading and writing
  files. A pointer to a \<open>struct file\<close> is an index of \<open>file_table\<close>; a buffer that is written to a
  file is the list of its \<open>count\<close> bytes, a buffer that is filled is a result.
\<close>

abbreviation MAX_FILES_OPEN :: nat where "MAX_FILES_OPEN \<equiv> 32"

abbreviation O_WRONLY :: nat where "O_WRONLY \<equiv> 1"
abbreviation O_RDWR :: nat where "O_RDWR \<equiv> 2"
abbreviation O_CREATE :: nat where "O_CREATE \<equiv> 4"

section \<open>File descriptors\<close>

definition get_file :: "nat \<Rightarrow> fsk \<Rightarrow> ofile res" where
  "get_file fd k = GUARD (fd < length (file_table k)) ''file_table'' (Inr (file_table k ! fd))"

definition set_file :: "nat \<Rightarrow> ofile \<Rightarrow> fsk \<Rightarrow> fsk" where
  "set_file fd f k = k\<lparr>file_table := (file_table k)[fd := f]\<rparr>"

definition get_free_slot_in_global :: "fsk \<Rightarrow> int" where
  "get_free_slot_in_global k =
     (case find (\<lambda>fd_idx. fd_inode (file_table k ! fd_idx) = 0) [3..<MAX_FILES_OPEN] of
        Some fd_idx \<Rightarrow> int fd_idx | None \<Rightarrow> -1)"

definition pcb_fd_install :: "int \<Rightarrow> fsk \<Rightarrow> int \<times> fsk" where
  "pcb_fd_install global_fd_idx k =
     (let c = running_thread k in
      case find (\<lambda>local_fd_idx. fd_table k c ! local_fd_idx = -1) [3..<MAX_FILES_OPEN_PER_PROC] of
        Some local_fd_idx \<Rightarrow> (int local_fd_idx,
          k\<lparr>fd_table := (fd_table k)(c := (fd_table k c)[local_fd_idx := global_fd_idx])\<rparr>)
      | None \<Rightarrow> (-1, k))"

section \<open>Creating, opening, closing\<close>

text \<open>The steps of the label \<open>rollback\<close>, which fall through from \<open>step\<close> down.\<close>

definition create_rollback :: "nat \<Rightarrow> nat \<Rightarrow> nat \<Rightarrow> nat \<Rightarrow> fsk \<Rightarrow> (int \<times> fsk) res" where
  "create_rollback step fd_idx a inode_no k =
     (let k = (if step \<ge> 3 then set_file fd_idx \<lparr>fd_pos = 0, fd_flag = 0, fd_inode = 0\<rparr> k else k);
          k = (if step \<ge> 2 then k\<lparr>inodes := (inodes k)(a := None)\<rparr> else k)
      in bnd (bitmap_set (inode_bitmap k) inode_no 0) (\<lambda>b. Inr (-1, k\<lparr>inode_bitmap := b\<rparr>)))"

definition file_create :: "nat \<Rightarrow> u8 list \<Rightarrow> nat \<Rightarrow> fsk \<Rightarrow> (int \<times> fsk) res" where
  "file_create parent_dir nm flag k =
     (let (ok, k) = heap_reply k in
      if \<not> ok then Inr (-1, k)
      else bnd (inode_bitmap_alloc k) (\<lambda>(r, k).
        if r = -1 then Inr (-1, k)
        else let inode_no = nat r; (ok, k) = heap_reply k in
        if \<not> ok then create_rollback 1 0 0 inode_no k
        else let a = next_addr k;
                 k = set_inode a (inode_init inode_no) (k\<lparr>next_addr := next_addr k + 1\<rparr>);
                 fd_idx = get_free_slot_in_global k
        in if fd_idx = -1 then create_rollback 2 0 a inode_no k
        else let fd_idx = nat fd_idx;
                 k = set_file fd_idx \<lparr>fd_pos = 0, fd_flag = flag, fd_inode = a\<rparr> k
        in bnd (create_dir_entry nm inode_no FT_REGULAR zero_entry) (\<lambda>new_dir_entry.
           bnd (sync_dir_entry parent_dir new_dir_entry k) (\<lambda>(ok, k).
           if \<not> ok then create_rollback 3 fd_idx a inode_no k
           else bnd (get_dir parent_dir k) (\<lambda>d.
             bnd (get_inode (dir_inode d) k) (\<lambda>i.
             bnd (inode_sync i k) (\<lambda>k.
             bnd (get_inode a k) (\<lambda>i.
             bnd (inode_sync i k) (\<lambda>k.
             bnd (bitmap_sync inode_no INODE_BITMAP k) (\<lambda>k.
             let k = set_inode a (i\<lparr>i_open_cnts := 1\<rparr>) (k\<lparr>open_inodes := a # open_inodes k\<rparr>)
             in Inr (pcb_fd_install (int fd_idx) k)))))))))))"

definition file_open :: "nat \<Rightarrow> nat \<Rightarrow> fsk \<Rightarrow> (int \<times> fsk) res" where
  "file_open inode_no flag k =
     (let fd_idx = get_free_slot_in_global k in
      if fd_idx = -1 then Inr (-1, k)
      else bnd (inode_open inode_no k) (\<lambda>(a, k).
        let k = set_file (nat fd_idx) \<lparr>fd_pos = 0, fd_flag = flag, fd_inode = a\<rparr> k in
        if flag AND O_WRONLY \<noteq> 0 \<or> flag AND O_RDWR \<noteq> 0
        then let (old_statu, k) = intr_disable k in
          bnd (get_inode a k) (\<lambda>i.
          if \<not> writen_deny i
          then let k = set_inode a (i\<lparr>writen_deny := True\<rparr>) k
               in Inr (pcb_fd_install fd_idx (snd (intr_set_status old_statu k)))
          else Inr (-1, snd (intr_set_status old_statu k)))
        else Inr (pcb_fd_install fd_idx k)))"

definition file_close :: "nat \<Rightarrow> fsk \<Rightarrow> (int \<times> fsk) res" where
  "file_close fd k =
     bnd (get_file fd k) (\<lambda>f.
     bnd (get_inode (fd_inode f) k) (\<lambda>i.
     bnd (inode_close (fd_inode f) (set_inode (fd_inode f) (i\<lparr>writen_deny := False\<rparr>) k)) (\<lambda>k.
     Inr (0, set_file fd (f\<lparr>fd_inode := 0\<rparr>) k))))"

section \<open>Writing\<close>

text \<open>
  The loops that give the file new blocks, at the indices \<open>todo\<close>. The address of a direct
  block goes into the i-node at once.
\<close>

fun grow_blocks :: "nat \<Rightarrow> nat list \<Rightarrow> nat list \<Rightarrow> fsk \<Rightarrow> (nat list option \<times> fsk) res" where
  "grow_blocks a all [] k = Inr (Some all, k)"
| "grow_blocks a all (block_idx # todo) k =
     bnd (new_block (\<lambda>idx. True) k) (\<lambda>(block_lba, k).
     if block_lba = -1 then Inr (None, k)
     else bnd (if block_idx < 12
               then bnd (get_inode a k) (\<lambda>i.
                    ASSERT (i_sectors i ! block_idx = 0) ''file->fd_inode->i_sectors[block_idx] == 0''
                      (set_sector a block_idx (nat block_lba) k))
               else Inr k)
          (grow_blocks a (all[block_idx := nat block_lba]) todo))"

definition read_indirect :: "inode \<Rightarrow> fsk \<Rightarrow> nat list res" where
  "read_indirect i k = bnd (disk_read (i_sectors i ! 12) 1 k) (\<lambda>bs. Inr (read_table 0 128 bs))"

text \<open>The new blocks, and then the indirect table written to \<open>table\<close>.\<close>

definition grow_table :: "nat \<Rightarrow> nat \<Rightarrow> nat list \<Rightarrow> nat list \<Rightarrow> fsk \<Rightarrow> (nat list option \<times> fsk) res" where
  "grow_table a table all todo k =
     bnd (grow_blocks a all todo k) (\<lambda>(r, k).
     case r of None \<Rightarrow> Inr (None, k)
     | Some all \<Rightarrow> bnd (disk_write table (table_bytes (drop 12 all)) 1 k) (\<lambda>k. Inr (Some all, k)))"

text \<open>
  The addresses of the blocks that will be written go into \<open>all_blocks\<close>; \<open>has\<close> blocks are in
  use and \<open>will\<close> are needed.
\<close>

definition collect_blocks :: "nat \<Rightarrow> nat \<Rightarrow> nat \<Rightarrow> fsk \<Rightarrow> (nat list option \<times> fsk) res" where
  "collect_blocks a has will k =
     bnd (get_inode a k) (\<lambda>i.
     let all = replicate 140 0; sectors = i_sectors i in
     if sub32 will has = 0
     then if will \<le> 12 then Inr (Some (all[will - 1 := sectors ! (will - 1)]), k)
          else ASSERT (sectors ! 12 \<noteq> 0) ''file->fd_inode->i_sectors[12] != 0''
                (bnd (read_indirect i k) (\<lambda>t. Inr (Some (take 12 all @ t), k)))
     else if will \<le> 12
     then ASSERT (sectors ! (has - 1) \<noteq> 0) ''file->fd_inode->i_sectors[block_idx] != 0''
           (grow_blocks a (all[has - 1 := sectors ! (has - 1)]) [has..<will] k)
     else if has \<le> 12
     then bnd (new_block (\<lambda>idx. True) k) (\<lambda>(block_lba, k).
          if block_lba = -1 then Inr (None, k)
          else ASSERT (sectors ! 12 = 0) ''file->fd_inode->i_sectors[12] == 0''
                (bnd (set_sector a 12 (nat block_lba) k)
                  (grow_table a (nat block_lba) (all[has - 1 := sectors ! (has - 1)]) [has..<will])))
     else ASSERT (sectors ! 12 \<noteq> 0) ''file->fd_inode->i_sectors[12] != 0''
           (bnd (read_indirect i k) (\<lambda>t. grow_table a (sectors ! 12) (take 12 all @ t) [has..<will] k)))"

text \<open>The loop that writes; \<open>src\<close> is what is left to write, \<open>first\<close> is \<open>first_write_block\<close>.\<close>

function write_chunks :: "nat \<Rightarrow> nat list \<Rightarrow> bool \<Rightarrow> u8 list \<Rightarrow> fsk \<Rightarrow> fsk res" where
  "write_chunks fd all first src k =
     (if src = [] then Inr k
      else bnd (get_file fd k) (\<lambda>f.
           bnd (get_inode (fd_inode f) k) (\<lambda>i.
           let sec_idx = i_size i div BLOCK_SIZE;
               sec_off_bytes = i_size i mod BLOCK_SIZE;
               chunk_size = min (length src) (BLOCK_SIZE - sec_off_bytes)
           in GUARD (sec_idx < length all) ''all_blocks''
            (bnd (if first then disk_read (all ! sec_idx) 1 k else Inr (replicate SECTOR_SIZE 0)) (\<lambda>sec.
             bnd (disk_write (all ! sec_idx) (splice sec_off_bytes (take chunk_size src) sec) 1 k) (\<lambda>k.
             write_chunks fd all False (drop chunk_size src)
               (set_file fd (f\<lparr>fd_pos := (fd_pos f + chunk_size) mod 2 ^ 32\<rparr>)
                 (set_inode (fd_inode f) (i\<lparr>i_size := (i_size i + chunk_size) mod 2 ^ 32\<rparr>) k))))))))"
  by pat_completeness auto
termination
  by (relation "measure (\<lambda>(fd, all, first, src, k). length src)") (auto simp: min_def)

declare write_chunks.simps [simp del]

definition file_write :: "nat \<Rightarrow> u8 list \<Rightarrow> fsk \<Rightarrow> (int \<times> fsk) res" where
  "file_write fd src k =
     bnd (get_file fd k) (\<lambda>f.
     let a = fd_inode f; count = length src in
     bnd (get_inode a k) (\<lambda>i.
     if (i_size i + count) mod 2 ^ 32 > 140 * BLOCK_SIZE then Inr (-1, k)
     else let (ok, k) = heap_reply k in
     if \<not> ok then Inr (-1, k)
     else let (ok, k) = heap_reply k in
     if \<not> ok then Inr (-1, k)
     else bnd (if i_sectors i ! 0 = 0
               then bnd (new_block (\<lambda>idx. idx \<noteq> 0) k) (\<lambda>(block_lba, k).
                    if block_lba = -1 then Inr (False, k)
                    else bnd (set_sector a 0 (nat block_lba) k) (\<lambda>k. Inr (True, k)))
               else Inr (True, k)) (\<lambda>(ok, k).
       if \<not> ok then Inr (-1, k)
       else let has = i_size i div BLOCK_SIZE + 1;
                will = (i_size i + count) mod 2 ^ 32 div BLOCK_SIZE + 1
       in ASSERT (will \<le> 140) ''file_will_use_blocks <= 140''
           (bnd (collect_blocks a has will k) (\<lambda>(r, k).
            case r of None \<Rightarrow> Inr (-1, k)
            | Some all \<Rightarrow>
                bnd (write_chunks fd all True src (set_file fd (f\<lparr>fd_pos := sub32 (i_size i) 1\<rparr>) k)) (\<lambda>k.
                bnd (get_inode a k) (\<lambda>i.
                bnd (inode_sync i k) (\<lambda>k. Inr (int count, k)))))))))"

section \<open>Reading\<close>

text \<open>The addresses of the blocks from \<open>start\<close> to \<open>fin\<close>; entries that are not needed stay 0.\<close>

definition blocks_to_read :: "inode \<Rightarrow> nat \<Rightarrow> nat \<Rightarrow> fsk \<Rightarrow> nat list res" where
  "blocks_to_read i start fin k =
     (let direct = map (\<lambda>j. if start \<le> j \<and> j \<le> fin then i_sectors i ! j else 0) [0..<12] in
      if sub32 fin start = 0
      then if fin < 12 then Inr (direct @ replicate 128 0)
           else bnd (read_indirect i k) (\<lambda>t. Inr (replicate 12 0 @ t))
      else if fin < 12 then Inr (direct @ replicate 128 0)
      else if start < 12
      then ASSERT (i_sectors i ! 12 \<noteq> 0) ''file->fd_inode->i_sectors[12] != 0''
            (bnd (read_indirect i k) (\<lambda>t. Inr (direct @ t)))
      else ASSERT (i_sectors i ! 12 \<noteq> 0) ''file->fd_inode->i_sectors[12] != 0''
            (bnd (read_indirect i k) (\<lambda>t. Inr (replicate 12 0 @ t))))"

function read_chunks :: "nat \<Rightarrow> nat list \<Rightarrow> nat \<Rightarrow> fsk \<Rightarrow> (u8 list \<times> fsk) res" where
  "read_chunks fd all size_left k =
     (if size_left = 0 then Inr ([], k)
      else bnd (get_file fd k) (\<lambda>f.
           let sec_idx = fd_pos f div SECTOR_SIZE;
               sec_off_bytes = fd_pos f mod SECTOR_SIZE;
               chunk_size = min size_left (SECTOR_SIZE - sec_off_bytes)
           in GUARD (sec_idx < length all) ''all_blocks''
            (bnd (disk_read (all ! sec_idx) 1 k) (\<lambda>sec.
             bnd (read_chunks fd all (size_left - chunk_size)
                   (set_file fd (f\<lparr>fd_pos := (fd_pos f + chunk_size) mod 2 ^ 32\<rparr>) k)) (\<lambda>(rest, k).
             Inr (slice sec_off_bytes chunk_size sec @ rest, k))))))"
  by pat_completeness auto
termination
  by (relation "measure (\<lambda>(fd, all, size_left, k). size_left)") (auto simp: min_def)

declare read_chunks.simps [simp del]

definition file_read :: "nat \<Rightarrow> nat \<Rightarrow> fsk \<Rightarrow> (int \<times> u8 list \<times> fsk) res" where
  "file_read fd count k =
     bnd (get_file fd k) (\<lambda>f.
     bnd (get_inode (fd_inode f) k) (\<lambda>i.
     let past_end = (fd_pos f + count) mod 2 ^ 32 > i_size i;
         size = (if past_end then sub32 (i_size i) (fd_pos f) else count)
     in if past_end \<and> size = 0 then Inr (-1, [], k)
     else let (ok, k) = heap_reply k in
     if \<not> ok then Inr (-1, [], k)
     else let (ok, k) = heap_reply k in
     if \<not> ok then Inr (-1, [], k)
     else let start = fd_pos f div BLOCK_SIZE; fin = (fd_pos f + size) mod 2 ^ 32 div BLOCK_SIZE
     in ASSERT (start < 139 \<and> fin < 139) ''block_read_start_idx < 139 && block_read_end_idx < 139''
         (bnd (blocks_to_read i start fin k) (\<lambda>all.
          bnd (read_chunks fd all size k) (\<lambda>(bs, k). Inr (int size, bs, k))))))"

end
