(* ===== verification/Pipe.thy ===== *)
theory Pipe
  imports File
begin

text \<open>
  \<open>shell/pipe.c\<close>: pipes. An entry of the file table is a pipe when its \<open>fd_flag\<close> is \<open>PIPE_FLAG\<close>;
  then \<open>fd_pos\<close> counts the descriptors that refer to it and \<open>fd_inode\<close> is the address of a ring
  buffer, which lives on a kernel page of its own.
\<close>

abbreviation PIPE_FLAG :: nat where "PIPE_FLAG \<equiv> 0xffffffff"

section \<open>Definitions\<close>

text \<open>From \<open>fs/fs.c\<close>; the check lets the index 32 pass, which is behind the table.\<close>

definition fd_local2global :: "nat \<Rightarrow> fsk \<Rightarrow> nat res" where
  "fd_local2global local_fd k =
     (let t = fd_table k (running_thread k) in
      GUARD (local_fd < length t) ''fd_table''
       (let global_fd = t ! local_fd in
        ASSERT (global_fd \<ge> 0 \<and> global_fd \<le> int MAX_FILES_OPEN) ''global_fd >= 0 && global_fd <= MAX_FILES_OPEN''
         (Inr (nat global_fd))))"

definition is_pipe :: "nat \<Rightarrow> fsk \<Rightarrow> bool res" where
  "is_pipe local_fd k =
     bnd (fd_local2global local_fd k) (\<lambda>global_fd.
     bnd (get_file global_fd k) (\<lambda>f. Inr (fd_flag f = PIPE_FLAG)))"

text \<open>
  \<open>get_kernel_pages\<close> clears the page it returns; whether there is one is decided by the list
  \<open>mallocs\<close>, as for \<open>sys_malloc\<close>. The result has the two descriptors of \<open>pipefd\<close>.
\<close>

definition sys_pipe :: "fsk \<Rightarrow> (int \<times> (int \<times> int) option \<times> fsk) res" where
  "sys_pipe k =
     (let global_fd = get_free_slot_in_global k in
      GUARD (global_fd \<noteq> -1) ''file_table''
       (let (ok, k) = heap_reply k in
        bnd (get_file (nat global_fd) k) (\<lambda>f.
        if \<not> ok then Inr (-1, None, set_file (nat global_fd) (f\<lparr>fd_inode := 0\<rparr>) k)
        else let a = next_addr k;
                 q = ioqueue_init \<lparr>ioq_lock = lock_init, producer = None, consumer = None,
                       buf = replicate bufsize 0, ioq_head = 0, ioq_tail = 0\<rparr>;
                 k = k\<lparr>next_addr := next_addr k + 1, pipes := (pipes k)(a \<mapsto> q)\<rparr>;
                 k = set_file (nat global_fd) \<lparr>fd_pos = 2, fd_flag = PIPE_FLAG, fd_inode = a\<rparr> k;
                 (fd0, k) = pcb_fd_install global_fd k;
                 (fd1, k) = pcb_fd_install global_fd k
             in Inr (0, Some (fd0, fd1), k))))"

definition get_pipe :: "nat \<Rightarrow> fsk \<Rightarrow> ioqueue res" where
  "get_pipe a k = (case pipes k a of None \<Rightarrow> Inl (Fault ''ioq'') | Some q \<Rightarrow> Inr q)"

text \<open>
  The loops that take bytes out of a ring and put bytes into it. A thread that would have to
  wait for the other side stops there.
\<close>

fun take_bytes :: "nat \<Rightarrow> ioqueue \<Rightarrow> 'a kernel_scheme \<Rightarrow> (u8 list \<times> ioqueue \<times> 'a kernel_scheme) res" where
  "take_bytes 0 q k = Inr ([], q, k)"
| "take_bytes (Suc n) q k =
     bnd (ioq_getchar q k) (\<lambda>(r, q, k).
     case r of None \<Rightarrow> Inl (Block ''consumer'')
     | Some b \<Rightarrow> bnd (take_bytes n q k) (\<lambda>(bs, q, k). Inr (b # bs, q, k)))"

fun put_bytes :: "u8 list \<Rightarrow> ioqueue \<Rightarrow> 'a kernel_scheme \<Rightarrow> (ioqueue \<times> 'a kernel_scheme) res" where
  "put_bytes [] q k = Inr (q, k)"
| "put_bytes (b # bs) q k =
     bnd (ioq_putchar b q k) (\<lambda>(done, q, k).
     if \<not> done then Inl (Block ''producer'') else put_bytes bs q k)"

definition pipe_read :: "nat \<Rightarrow> nat \<Rightarrow> fsk \<Rightarrow> (nat \<times> u8 list \<times> fsk) res" where
  "pipe_read fd count k =
     bnd (fd_local2global fd k) (\<lambda>global_fd.
     bnd (get_file global_fd k) (\<lambda>f.
     bnd (get_pipe (fd_inode f) k) (\<lambda>ioq.
     let ioq_len = ioq_lenth ioq;
         size = (if ioq_len > count then count else ioq_len)
     in bnd (take_bytes size ioq k) (\<lambda>(bs, ioq, k).
        Inr (size, bs, k\<lparr>pipes := (pipes k)(fd_inode f \<mapsto> ioq)\<rparr>)))))"

definition pipe_write :: "nat \<Rightarrow> u8 list \<Rightarrow> fsk \<Rightarrow> (nat \<times> fsk) res" where
  "pipe_write fd bs k =
     bnd (fd_local2global fd k) (\<lambda>global_fd.
     bnd (get_file global_fd k) (\<lambda>f.
     bnd (get_pipe (fd_inode f) k) (\<lambda>ioq.
     let ioq_left = bufsize - ioq_lenth ioq;
         size = (if ioq_left > length bs then length bs else ioq_left)
     in bnd (put_bytes (take size bs) ioq k) (\<lambda>(ioq, k).
        Inr (size, k\<lparr>pipes := (pipes k)(fd_inode f \<mapsto> ioq)\<rparr>)))))"

definition sys_fd_redirect :: "nat \<Rightarrow> nat \<Rightarrow> fsk \<Rightarrow> fsk res" where
  "sys_fd_redirect old_local_fd new_local_fd k =
     (let c = running_thread k; t = fd_table k c in
      GUARD (old_local_fd < length t) ''fd_table''
       (if new_local_fd < 3
        then Inr (k\<lparr>fd_table := (fd_table k)(c := t[old_local_fd := int new_local_fd])\<rparr>)
        else GUARD (new_local_fd < length t) ''fd_table''
              (Inr (k\<lparr>fd_table := (fd_table k)(c := t[old_local_fd := t ! new_local_fd])\<rparr>))))"

end
