(* ===== verification/Path.thy ===== *)
theory Path
  imports Fsdata
begin

text \<open>
  The path routines of \<open>fs/fs.c\<close> that do not touch the disk: \<open>path_parse\<close>, \<open>path_depth_cnt\<close>,
  the string operations on paths, and the reversal at the end of \<open>sys_getcwd\<close>. A path is the
  list of its characters without the terminating 0.
\<close>

abbreviation SLASH :: u8 where "SLASH \<equiv> 0x2f"
abbreviation MAX_PATH_LEN :: nat where "MAX_PATH_LEN \<equiv> 512"

section \<open>Definitions\<close>

text \<open>
  \<open>path_parse\<close>: the characters it stores into \<open>name_store\<close>, and the pointer it returns, which is
  \<open>NULL\<close> at the end of the path. It neither terminates nor limits the name; the callers clear
  their buffer of 16 bytes first.
\<close>

definition path_parse :: "u8 list \<Rightarrow> u8 list \<times> u8 list option" where
  "path_parse path_name =
     (let path_name = (if path_name \<noteq> [] \<and> hd path_name = SLASH
                       then dropWhile (\<lambda>c. c = SLASH) (tl path_name) else path_name);
          name_store = takeWhile (\<lambda>c. c \<noteq> SLASH) path_name;
          path_name = dropWhile (\<lambda>c. c \<noteq> SLASH) path_name
      in (name_store, if path_name = [] then None else Some path_name))"

text \<open>The statements \<open>memset(name, 0, ...); if (p) p = path_parse(p, name);\<close> of the loops.\<close>

definition next_name :: "u8 list option \<Rightarrow> u8 list \<times> u8 list option" where
  "next_name p = (case p of None \<Rightarrow> ([], None) | Some p \<Rightarrow> path_parse p)"

text \<open>What is left to parse; it shrinks with each name.\<close>

definition path_left :: "u8 list option \<Rightarrow> nat" where
  "path_left p = (case p of None \<Rightarrow> 0 | Some p \<Rightarrow> Suc (length p))"

lemma dropWhile_tl: "c # cs = xs \<Longrightarrow> P c \<Longrightarrow> dropWhile P (tl xs) = dropWhile P xs"
  by auto

lemma path_parse_skip:
  "path_parse p = (takeWhile (\<lambda>c. c \<noteq> SLASH) (dropWhile (\<lambda>c. c = SLASH) p),
     if dropWhile (\<lambda>c. c \<noteq> SLASH) (dropWhile (\<lambda>c. c = SLASH) p) = [] then None
     else Some (dropWhile (\<lambda>c. c \<noteq> SLASH) (dropWhile (\<lambda>c. c = SLASH) p)))"
proof -
  have "(if p \<noteq> [] \<and> hd p = SLASH then dropWhile (\<lambda>c. c = SLASH) (tl p) else p) = dropWhile (\<lambda>c. c = SLASH) p"
    by (cases p) auto
  then show ?thesis by (simp only: path_parse_def Let_def)
qed

lemma next_name_left: "p \<noteq> None \<Longrightarrow> path_left (snd (next_name p)) < path_left p"
proof (cases p)
  case (Some q)
  then show ?thesis
  proof (cases q)
    case (Cons c cs)
    have "length (dropWhile (\<lambda>c. c \<noteq> SLASH) (dropWhile (\<lambda>c. c = SLASH) q)) \<le> length cs"
      using Cons by (auto intro: order_trans length_dropWhile_le)
    then show ?thesis using Some Cons by (simp add: next_name_def path_left_def path_parse_skip)
  qed (simp add: next_name_def path_left_def path_parse_skip)
qed simp

text \<open>
  \<open>path_depth_cnt\<close>. Before the first call of \<open>path_parse\<close> the buffer \<open>name\<close> is not initialised,
  so its first character means nothing when the path has no name in it.
\<close>

function depth_from :: "u8 list \<Rightarrow> u8 list option \<Rightarrow> nat \<Rightarrow> nat res" where
  "depth_from nm p depth =
     (if nm = [] then Inr depth
      else GUARD (length (fst (next_name p)) \<le> MAX_FILENAME_LEN) ''name''
             (depth_from (fst (next_name p)) (snd (next_name p)) (depth + 1)))"
  by pat_completeness auto
termination
proof (relation "measures [\<lambda>(nm, p, depth). path_left p, \<lambda>(nm, p, depth). length nm]")
  fix nm :: "u8 list" and p depth
  assume "nm \<noteq> []"
  then show "((fst (next_name p), snd (next_name p), depth + 1), nm, p, depth)
      \<in> measures [\<lambda>(nm, p, depth). path_left p, \<lambda>(nm, p, depth). length nm]"
    using next_name_left [of p] by (cases p) (auto simp: next_name_def path_left_def)
qed simp

definition path_depth_cnt :: "u8 list \<Rightarrow> nat res" where
  "path_depth_cnt path_name =
     (let (nm, p) = path_parse path_name
      in GUARD (nm \<noteq> [] \<and> length nm \<le> MAX_FILENAME_LEN) ''name'' (depth_from nm p 0))"

text \<open>\<open>strrchr(s, '/') + 1\<close>, and \<open>strrchr(s, '/')\<close> with what is in front of it.\<close>

definition after_slash :: "u8 list \<Rightarrow> u8 list" where
  "after_slash s = rev (takeWhile (\<lambda>c. c \<noteq> SLASH) (rev s))"

definition last_slash :: "u8 list \<Rightarrow> u8 list" where
  "last_slash s = SLASH # after_slash s"

text \<open>
  The last loop of \<open>sys_getcwd\<close>: it copies the part from the last slash on to the end of the
  result and cuts it off, as long as there is a slash.
\<close>

function reverse_path :: "u8 list \<Rightarrow> u8 list" where
  "reverse_path full_path_reverse =
     (if SLASH \<in> set full_path_reverse
      then last_slash full_path_reverse @
           reverse_path (take (length full_path_reverse - length (last_slash full_path_reverse)) full_path_reverse)
      else [])"
  by pat_completeness auto
termination
proof (relation "measure length")
  fix s :: "u8 list"
  assume "SLASH \<in> set s"
  then have "0 < length s" by auto
  then show "(take (length s - length (last_slash s)) s, s) \<in> measure length"
    by (cases s) (simp_all add: last_slash_def)
qed simp

declare depth_from.simps [simp del] reverse_path.simps [simp del]

section \<open>The names of a path\<close>

text \<open>
  A reference: reading the path from left to right, a slash ends the current name; empty names
  do not count. And the path with the given names.
\<close>

fun names_from :: "u8 list \<Rightarrow> u8 list \<Rightarrow> u8 list list" where
  "names_from nm [] = (if nm = [] then [] else [nm])"
| "names_from nm (c # cs) =
     (if c = SLASH then (if nm = [] then names_from [] cs else nm # names_from [] cs)
      else names_from (nm @ [c]) cs)"

definition path_names :: "u8 list \<Rightarrow> u8 list list" where
  "path_names p = names_from [] p"

definition path_of :: "u8 list list \<Rightarrow> u8 list" where
  "path_of ns = concat (map (Cons SLASH) ns)"

lemma names_from_step:
  "names_from nm p = (let n = nm @ takeWhile (\<lambda>c. c \<noteq> SLASH) p
     in (if n = [] then [] else [n]) @ path_names (dropWhile (\<lambda>c. c \<noteq> SLASH) p))"
proof (induction p arbitrary: nm)
  case Nil
  then show ?case by (simp add: path_names_def)
next
  case (Cons c cs)
  then show ?case by (auto simp: path_names_def Let_def)
qed

lemma path_names_skip: "path_names (dropWhile (\<lambda>c. c = SLASH) p) = path_names p"
  by (induction p) (auto simp: path_names_def)

text \<open>\<open>path_parse\<close> takes the first name off.\<close>

lemma path_parse_names:
  assumes "path_parse p = (nm, r)"
  shows "path_names p = (if nm = [] then [] else nm # (case r of None \<Rightarrow> [] | Some q \<Rightarrow> path_names q))"
    "SLASH \<notin> set nm" "nm = [] \<Longrightarrow> r = None"
proof -
  let ?q = "dropWhile (\<lambda>c. c = SLASH) p"
  have a: "nm = takeWhile (\<lambda>c. c \<noteq> SLASH) ?q"
    "r = (if dropWhile (\<lambda>c. c \<noteq> SLASH) ?q = [] then None else Some (dropWhile (\<lambda>c. c \<noteq> SLASH) ?q))"
    using assms by (simp_all add: path_parse_skip split: if_splits)
  show "SLASH \<notin> set nm" using a(1) by (auto dest: set_takeWhileD)
  have e: "?q = []" if "nm = []"
  proof (rule ccontr)
    assume "?q \<noteq> []"
    then have "hd ?q \<noteq> SLASH" using hd_dropWhile [of "\<lambda>c. c = SLASH" p] by blast
    then show False using that a(1) \<open>?q \<noteq> []\<close> by (cases ?q) auto
  qed
  show "nm = [] \<Longrightarrow> r = None" using a(2) e by (simp del: dropWhile_eq_Nil_conv)
  have "path_names p = names_from [] ?q" by (subst path_names_skip [symmetric]) (rule path_names_def)
  also have "\<dots> = (if nm = [] then [] else [nm]) @ path_names (dropWhile (\<lambda>c. c \<noteq> SLASH) ?q)"
    using names_from_step [of "[]" ?q] a(1) by (simp add: Let_def)
  finally have f: "path_names p = (if nm = [] then [] else [nm]) @ path_names (dropWhile (\<lambda>c. c \<noteq> SLASH) ?q)" .
  show "path_names p = (if nm = [] then [] else nm # (case r of None \<Rightarrow> [] | Some q \<Rightarrow> path_names q))"
  proof (cases "nm = []")
    case True
    then show ?thesis using f e by (simp add: path_names_def)
  next
    case False
    have "path_names [] = []" by (simp add: path_names_def)
    then show ?thesis unfolding f a(2) using False
      by (cases "dropWhile (\<lambda>c. c \<noteq> SLASH) ?q = []") (simp_all only: if_True if_False option.case append.simps simp_thms)
  qed
qed

lemma depth_from_names:
  "depth_from nm p depth =
    (let ns = (if nm = [] then [] else (case p of None \<Rightarrow> [] | Some q \<Rightarrow> path_names q)) in
     GUARD (\<forall>n \<in> set ns. length n \<le> MAX_FILENAME_LEN) ''name''
       (Inr (depth + (if nm = [] then 0 else 1) + length ns)))"
proof (induction nm p depth rule: depth_from.induct)
  case (1 nm p depth)
  show ?case
  proof (cases "nm = []")
    case True
    then show ?thesis by (simp add: depth_from.simps [of "[]"])
  next
    case False
    show ?thesis
    proof (cases p)
      case None
      then show ?thesis using False
        by (simp add: next_name_def depth_from.simps [of "[]"] depth_from.simps [of nm])
    next
      case (Some q)
      obtain n r where nr: "path_parse q = (n, r)" by fastforce
      have ih: "depth_from n r (Suc depth) =
        (let ns = (if n = [] then [] else (case r of None \<Rightarrow> [] | Some q \<Rightarrow> path_names q)) in
         GUARD (\<forall>n \<in> set ns. length n \<le> MAX_FILENAME_LEN) ''name''
           (Inr (Suc depth + (if n = [] then 0 else 1) + length ns)))"
        using 1 False Some nr by (simp add: next_name_def)
      show ?thesis using False Some nr path_parse_names(1) [OF nr]
        by (subst depth_from.simps) (auto simp: next_name_def ih GUARD_def Let_def)
    qed
  qed
qed

lemma reverse_path_of:
  "\<forall>n \<in> set ns. SLASH \<notin> set n \<Longrightarrow> reverse_path (path_of ns) = path_of (rev ns)"
proof (induction ns rule: rev_induct)
  case Nil
  then show ?case by (simp add: path_of_def reverse_path.simps [of "[]"])
next
  case (snoc n ns)
  have "after_slash (path_of (ns @ [n])) = n"
    using snoc.prems by (simp add: after_slash_def path_of_def takeWhile_append)
  then have l: "last_slash (path_of (ns @ [n])) = SLASH # n" by (simp add: last_slash_def)
  have "reverse_path (path_of (ns @ [n])) = (SLASH # n) @ reverse_path (path_of ns)"
    by (subst reverse_path.simps) (simp only: l, simp add: path_of_def)
  then show ?case using snoc by (simp add: path_of_def)
qed

section \<open>Results\<close>

text \<open>
  C26: \<open>path_depth_cnt\<close> counts the names of a path. It agrees with a scanner that reads the path
  once from left to right and counts the names between the slashes, however many slashes there
  are in a row; it leaves its buffer of 16 bytes exactly when some name is longer, and it reads
  uninitialised memory when the path has no name.
\<close>

theorem path_depth_cnt_counts_names:
  "path_depth_cnt p =
    (if path_names p \<noteq> [] \<and> (\<forall>n \<in> set (path_names p). length n \<le> 16) then Inr (length (path_names p))
     else Inl (Fault ''name''))"
proof -
  obtain nm r where nr: "path_parse p = (nm, r)" by fastforce
  show ?thesis using path_parse_names(1) [OF nr]
    by (auto simp: path_depth_cnt_def nr depth_from_names GUARD_def Let_def)
qed

lemma path_depth_cnt_counts_names_witness:
  "path_depth_cnt [SLASH, SLASH, 0x61, SLASH, 0x62, 0x63, SLASH] = Inr 2"
  using path_depth_cnt_counts_names [of "[SLASH, SLASH, 0x61, SLASH, 0x62, 0x63, SLASH]"]
  by (simp add: path_names_def)

text \<open>
  The last loop of \<open>sys_getcwd\<close> turns a path around: from the names it collected from the
  working directory up to the root, each with a slash in front, it makes the path from the root
  down, and applied again it gives the collected path back.
\<close>

theorem reverse_path_turns_around:
  assumes "\<forall>n \<in> set ns. SLASH \<notin> set n"
  shows "reverse_path (path_of ns) = path_of (rev ns) \<and> reverse_path (reverse_path (path_of ns)) = path_of ns"
  using reverse_path_of [OF assms] reverse_path_of [of "rev ns"] assms by simp

lemma reverse_path_turns_around_witness:
  "reverse_path (path_of [[0x63], [0x62, 0x62], [0x61]]) = path_of [[0x61], [0x62, 0x62], [0x63]]"
  using reverse_path_turns_around [of "[[0x63], [0x62, 0x62], [0x61]]"] by simp

end
