(* ===== verification/Fs.thy ===== *)
theory Fs
  imports Pipe Path
begin

text \<open>
  \<open>fs/fs.c\<close>: the search for a path and the system calls on files and directories. The
  descriptor, the path and the buffers are arguments; a result \<open>-1\<close> is the number -1.
\<close>

section \<open>The search\<close>

record path_search_record =
  searched_path :: "u8 list"
  psr_parent_dir :: nat
  psr_file_type :: file_type

definition empty_record :: path_search_record where
  "empty_record = \<lparr>searched_path = [], psr_parent_dir = 0, psr_file_type = FT_UNKOWN\<rparr>"

definition is_root_path :: "u8 list \<Rightarrow> bool" where
  "is_root_path p \<longleftrightarrow> p = [SLASH] \<or> p = SLASH # DOT \<or> p = SLASH # DOTDOT"

text \<open>
  The loop of \<open>search_file\<close>: \<open>nm\<close> is the name to look for in the directory \<open>psr_parent_dir r\<close>,
  \<open>p\<close> the path behind it, \<open>parent_no\<close> the i-node of the directory's parent, \<open>e_no\<close> the i-node
  number in \<open>dir_e\<close>, which is not initialised before the first entry is found.
\<close>

function search_from ::
    "u8 list \<Rightarrow> u8 list option \<Rightarrow> path_search_record \<Rightarrow> nat \<Rightarrow> nat option \<Rightarrow> fsk \<Rightarrow> (int \<times> path_search_record \<times> fsk) res" where
  "search_from nm p r parent_no e_no k =
     (if nm = []
      then bnd (dir_close (psr_parent_dir r) k) (\<lambda>k.
           bnd (dir_open parent_no k) (\<lambda>(d, k).
           case e_no of None \<Rightarrow> Inl (Fault ''dir_e'')
           | Some n \<Rightarrow> Inr (int n, r\<lparr>psr_parent_dir := d, psr_file_type := FT_DIRECTORY\<rparr>, k)))
      else ASSERT (length (searched_path r) < MAX_PATH_LEN) ''strlen(searched_record->searched_path) < MAX_PATH_LEN''
       (GUARD (length nm < MAX_FILENAME_LEN \<and> length (searched_path r) + 1 + length nm < MAX_PATH_LEN) ''searched_path''
        (let r = r\<lparr>searched_path := searched_path r @ SLASH # nm\<rparr> in
         bnd (search_dir_entry (psr_parent_dir r) nm k) (\<lambda>(found, k).
         case found of
           None \<Rightarrow> Inr (-1, r, k)
         | Some e \<Rightarrow>
             GUARD (length (fst (next_name p)) \<le> MAX_FILENAME_LEN) ''name''
              (if f_type e = ft_code FT_DIRECTORY
               then bnd (get_dir (psr_parent_dir r) k) (\<lambda>d.
                    bnd (get_inode (dir_inode d) k) (\<lambda>i.
                    bnd (dir_close (psr_parent_dir r) k) (\<lambda>k.
                    bnd (dir_open (de_i_no e) k) (\<lambda>(d, k).
                    search_from (fst (next_name p)) (snd (next_name p)) (r\<lparr>psr_parent_dir := d\<rparr>)
                      (i_no i) (Some (de_i_no e)) k))))
               else if f_type e = ft_code FT_REGULAR
               then Inr (int (de_i_no e), r\<lparr>psr_file_type := FT_REGULAR\<rparr>, k)
               else search_from (fst (next_name p)) (snd (next_name p)) r parent_no (Some (de_i_no e)) k)))))"
  by pat_completeness auto
termination
proof (relation "measures [\<lambda>(nm, p, _). path_left p, \<lambda>(nm, p, _). length nm]", goal_cases)
  case 1
  show ?case by simp
next
  case (2 nm p)
  then show ?case using next_name_left [of p] by (cases p) (auto simp: next_name_def path_left_def)
next
  case (3 nm p)
  then show ?case using next_name_left [of p] by (cases p) (auto simp: next_name_def path_left_def)
qed

declare search_from.simps [simp del]

definition search_file :: "u8 list \<Rightarrow> path_search_record \<Rightarrow> fsk \<Rightarrow> (int \<times> path_search_record \<times> fsk) res" where
  "search_file path_name r k =
     (if is_root_path path_name
      then Inr (0, r\<lparr>psr_parent_dir := ROOT_DIR, psr_file_type := FT_DIRECTORY, searched_path := []\<rparr>, k)
      else ASSERT (path_name \<noteq> [] \<and> hd path_name = SLASH \<and> length path_name > 1 \<and> length path_name < MAX_PATH_LEN)
             ''path_name[0] == '/' && path_len > 1 && path_len < MAX_PATH_LEN''
           (let r = r\<lparr>psr_parent_dir := ROOT_DIR, psr_file_type := FT_UNKOWN\<rparr>;
                (nm, p) = path_parse path_name
            in GUARD (length nm \<le> MAX_FILENAME_LEN) ''name'' (search_from nm p r 0 None k)))"

section \<open>Files\<close>

definition sys_open :: "u8 list \<Rightarrow> nat \<Rightarrow> fsk \<Rightarrow> (int \<times> fsk) res" where
  "sys_open path_name flags k =
     GUARD (path_name \<noteq> []) ''path_name''
      (if List.last path_name = SLASH then Inr (-1, k)
       else ASSERT (flags \<le> 7) ''flags <= 7''
        (bnd (path_depth_cnt path_name) (\<lambda>path_name_depth.
         bnd (search_file path_name empty_record k) (\<lambda>(inode_no, r, k).
         let found = (inode_no \<noteq> -1) in
         if psr_file_type r = FT_DIRECTORY
         then bnd (dir_close (psr_parent_dir r) k) (\<lambda>k. Inr (-1, k))
         else bnd (path_depth_cnt (searched_path r)) (\<lambda>path_searched_depth.
           if path_name_depth \<noteq> path_searched_depth
           then bnd (dir_close (psr_parent_dir r) k) (\<lambda>k. Inr (-1, k))
           else if \<not> found \<and> flags AND O_CREATE = 0
           then bnd (dir_close (psr_parent_dir r) k) (\<lambda>k. Inr (-1, k))
           else if found \<and> flags AND O_CREATE \<noteq> 0
           then bnd (dir_close (psr_parent_dir r) k) (\<lambda>k. Inr (-1, k))
           else if flags AND O_CREATE = O_CREATE
           then GUARD (SLASH \<in> set (searched_path r)) ''strrchr''
                 (bnd (file_create (psr_parent_dir r) (after_slash (searched_path r)) flags k) (\<lambda>(fd, k).
                  bnd (dir_close (psr_parent_dir r) k) (\<lambda>k. Inr (fd, k))))
           else file_open (nat inode_no) flags k)))))"

definition sys_close :: "int \<Rightarrow> fsk \<Rightarrow> (int \<times> fsk) res" where
  "sys_close fd k =
     (if fd > 2
      then bnd (fd_local2global (nat fd) k) (\<lambda>global_fd.
           bnd (is_pipe (nat fd) k) (\<lambda>pipe.
           bnd (if pipe
                then bnd (get_file global_fd k) (\<lambda>f.
                     let n = sub32 (fd_pos f) 1 in
                     if n = 0
                     then Inr (0, set_file global_fd (f\<lparr>fd_pos := n, fd_inode := 0\<rparr>)
                            (k\<lparr>pipes := (pipes k)(fd_inode f := None)\<rparr>))
                     else Inr (0, set_file global_fd (f\<lparr>fd_pos := n\<rparr>) k))
                else file_close global_fd k) (\<lambda>(ret, k).
           let c = running_thread k
           in Inr (ret, k\<lparr>fd_table := (fd_table k)(c := (fd_table k c)[nat fd := -1])\<rparr>))))
      else Inr (-1, k))"

text \<open>\<open>console_put_str\<close> of \<open>tmp_buf\<close>, which must have a terminating 0.\<close>

definition sys_write :: "int \<Rightarrow> u8 list \<Rightarrow> fsk \<Rightarrow> (int \<times> fsk) res" where
  "sys_write fd bs k =
     (if fd < 0 then Inr (-1, k)
      else bnd (is_pipe (nat fd) k) (\<lambda>pipe.
        if pipe then bnd (pipe_write (nat fd) bs k) (\<lambda>(n, k). Inr (int n, k))
        else if fd = 1
        then GUARD (length bs \<le> 1024) ''tmp_buf''
              (let tmp_buf = bs @ replicate (1024 - length bs) 0 in
               GUARD (0 \<in> set tmp_buf) ''tmp_buf''
                (Inr (int (length bs), k\<lparr>screen := screen k @ cstr tmp_buf\<rparr>)))
        else bnd (fd_local2global (nat fd) k) (\<lambda>global_fd.
             bnd (get_file global_fd k) (\<lambda>wr_file.
             if fd_flag wr_file AND O_WRONLY \<noteq> 0 \<or> fd_flag wr_file AND O_RDWR \<noteq> 0
             then file_write global_fd bs k
             else Inr (-1, k)))))"

definition sys_read :: "int \<Rightarrow> nat \<Rightarrow> fsk \<Rightarrow> (int \<times> u8 list \<times> fsk) res" where
  "sys_read fd count k =
     (if fd < 0 \<or> fd = 1 \<or> fd = 2 then Inr (-1, [], k)
      else bnd (is_pipe (nat fd) k) (\<lambda>pipe.
        if pipe then bnd (pipe_read (nat fd) count k) (\<lambda>(n, bs, k). Inr (int n, bs, k))
        else if fd = 0
        then bnd (take_bytes count (kbd_buf k) k) (\<lambda>(bs, q, k).
             Inr (if bs = [] then -1 else int (length bs), bs, k\<lparr>kbd_buf := q\<rparr>))
        else bnd (fd_local2global (nat fd) k) (\<lambda>global_fd. file_read global_fd count k)))"

text \<open>Conversions to \<open>int32_t\<close>; an addition that overflows has no meaning in C.\<close>

definition s32 :: "nat \<Rightarrow> int" where
  "s32 n = (if n < 2 ^ 31 then int n else int n - 2 ^ 32)"

definition sys_lseek :: "int \<Rightarrow> int \<Rightarrow> nat \<Rightarrow> fsk \<Rightarrow> (int \<times> fsk) res" where
  "sys_lseek fd offset whence k =
     (if fd < 0 then Inr (-1, k)
      else ASSERT (whence > 0 \<and> whence < 4) ''whence > 0 && whence < 4''
       (bnd (fd_local2global (nat fd) k) (\<lambda>global_fd.
        bnd (get_file global_fd k) (\<lambda>pf.
        bnd (get_inode (fd_inode pf) k) (\<lambda>i.
        let file_size = s32 (i_size i);
            new_pos = (if whence = 1 then offset
                       else if whence = 2 then s32 (fd_pos pf) + offset
                       else file_size + offset)
        in GUARD (-(2 ^ 31) \<le> new_pos \<and> new_pos < 2 ^ 31) ''int32_t''
            (if new_pos < 0 \<or> new_pos > file_size - 1 then Inr (-1, k)
             else Inr (new_pos, set_file global_fd (pf\<lparr>fd_pos := nat new_pos\<rparr>) k)))))))"

text \<open>The search of the file table for a file that must not be deleted.\<close>

fun file_in_use :: "nat \<Rightarrow> ofile list \<Rightarrow> fsk \<Rightarrow> bool res" where
  "file_in_use inode_no [] k = Inr False"
| "file_in_use inode_no (f # fs) k =
     (if fd_inode f \<noteq> 0
      then bnd (get_inode (fd_inode f) k) (\<lambda>i. if i_no i = inode_no then Inr True else file_in_use inode_no fs k)
      else file_in_use inode_no fs k)"

definition sys_unlink :: "u8 list \<Rightarrow> fsk \<Rightarrow> (int \<times> fsk) res" where
  "sys_unlink path_name k =
     ASSERT (length path_name \<le> MAX_PATH_LEN) ''strlen(path_name) <= MAX_PATH_LEN''
      (bnd (search_file path_name empty_record k) (\<lambda>(inode_no, r, k).
       ASSERT (inode_no \<noteq> 0) ''inode_no != 0''
        (if inode_no = -1 \<or> psr_file_type r = FT_DIRECTORY
         then bnd (dir_close (psr_parent_dir r) k) (\<lambda>k. Inr (-1, k))
         else bnd (file_in_use (nat inode_no) (take MAX_FILES_OPEN (file_table k)) k) (\<lambda>in_use.
           if in_use then bnd (dir_close (psr_parent_dir r) k) (\<lambda>k. Inr (-1, k))
           else let (ok, k) = heap_reply k in
           if \<not> ok then bnd (dir_close (psr_parent_dir r) k) (\<lambda>k. Inr (-1, k))
           else bnd (delete_dir_entry (psr_parent_dir r) (nat inode_no) k) (\<lambda>(_, k).
                bnd (inode_realse (nat inode_no) k) (\<lambda>k.
                bnd (dir_close (psr_parent_dir r) k) (\<lambda>k. Inr (0, k))))))))"

end
