(* ===== verification/Dircalls.thy ===== *)
theory Dircalls
  imports Fs
begin

text \<open>
  \<open>fs/fs.c\<close>: the system calls on directories, the working directory and the state of a file.
\<close>

section \<open>Making and removing directories\<close>

text \<open>The steps of the label \<open>rollback\<close> of \<open>sys_mkdir\<close>.\<close>

definition mkdir_rollback :: "nat \<Rightarrow> nat \<Rightarrow> path_search_record \<Rightarrow> fsk \<Rightarrow> (int \<times> fsk) res" where
  "mkdir_rollback step inode_no r k =
     bnd (if step \<ge> 2 then bnd (bitmap_set (inode_bitmap k) inode_no 0) (\<lambda>b. Inr (k\<lparr>inode_bitmap := b\<rparr>))
          else Inr k) (\<lambda>k.
     bnd (dir_close (psr_parent_dir r) k) (\<lambda>k. Inr (-1, k)))"

text \<open>The first sector of a new directory, with the entries \<open>.\<close> and \<open>..\<close>.\<close>

definition dot_entry :: "u8 list \<Rightarrow> nat \<Rightarrow> dir_entry" where
  "dot_entry nm no = \<lparr>filename = splice 0 nm (replicate 16 0), de_i_no = no, f_type = ft_code FT_DIRECTORY\<rparr>"

definition dot_sector :: "nat \<Rightarrow> nat \<Rightarrow> u8 list" where
  "dot_sector inode_no parent_no =
     splice 0 (dir_entry_bytes (dot_entry DOT inode_no) @ dir_entry_bytes (dot_entry DOTDOT parent_no))
       (replicate SECTOR_SIZE 0)"

definition sys_mkdir :: "u8 list \<Rightarrow> fsk \<Rightarrow> (int \<times> fsk) res" where
  "sys_mkdir path_name k =
     (let (ok, k) = heap_reply k in
      if \<not> ok then Inr (-1, k)
      else bnd (search_file path_name empty_record k) (\<lambda>(inode_no, r, k).
        if inode_no \<noteq> -1 then mkdir_rollback 1 0 r k
        else bnd (path_depth_cnt path_name) (\<lambda>path_name_depth.
          bnd (path_depth_cnt (searched_path r)) (\<lambda>path_searched_depth.
          if path_name_depth \<noteq> path_searched_depth then mkdir_rollback 1 0 r k
          else let parent_dir = psr_parent_dir r; dirname = after_slash (searched_path r) in
          bnd (inode_bitmap_alloc k) (\<lambda>(no, k).
          if no = -1 then mkdir_rollback 1 0 r k
          else let inode_no = nat no in
          bnd (new_block (\<lambda>idx. idx \<noteq> 0) k) (\<lambda>(block_lba, k).
          if block_lba = -1 then mkdir_rollback 2 inode_no r k
          else bnd (get_dir parent_dir k) (\<lambda>d.
            bnd (get_inode (dir_inode d) k) (\<lambda>parent.
            bnd (disk_write (nat block_lba) (dot_sector inode_no (i_no parent)) 1 k) (\<lambda>k.
            let new_dir_inode = (inode_init inode_no)\<lparr>i_sectors := (replicate 13 0)[0 := nat block_lba],
                  i_size := (2 * dir_entry_size (sb k)) mod 2 ^ 32\<rparr> in
            bnd (create_dir_entry dirname inode_no FT_DIRECTORY zero_entry) (\<lambda>new_dir_entry.
            bnd (sync_dir_entry parent_dir new_dir_entry k) (\<lambda>(ok, k).
            if \<not> ok then mkdir_rollback 2 inode_no r k
            else bnd (get_inode (dir_inode d) k) (\<lambda>parent.
              bnd (inode_sync parent k) (\<lambda>k.
              bnd (inode_sync new_dir_inode k) (\<lambda>k.
              bnd (bitmap_sync inode_no INODE_BITMAP k) (\<lambda>k.
              bnd (dir_close parent_dir k) (\<lambda>k. Inr (0, k)))))))))))))))))"

definition sys_rmdir :: "u8 list \<Rightarrow> fsk \<Rightarrow> (int \<times> fsk) res" where
  "sys_rmdir path_name k =
     bnd (search_file path_name empty_record k) (\<lambda>(inode_no, r, k).
     ASSERT (inode_no \<noteq> 0) ''inode_no != 0''
      (bnd (if inode_no = -1 \<or> psr_file_type r = FT_REGULAR then Inr (-1, k)
            else bnd (dir_open (nat inode_no) k) (\<lambda>(dir2del, k).
                 bnd (dir_is_empty dir2del k) (\<lambda>empty.
                 bnd (if \<not> empty then Inr (-1, k)
                      else bnd (dir_remove (psr_parent_dir r) dir2del k) (\<lambda>(ret, k).
                           Inr (if ret = 0 then 0 else -1, k))) (\<lambda>(retval, k).
                 bnd (dir_close dir2del k) (\<lambda>k. Inr (retval, k)))))) (\<lambda>(retval, k).
       bnd (dir_close (psr_parent_dir r) k) (\<lambda>k. Inr (retval, k)))))"

section \<open>Open directories\<close>

text \<open>The result is an address, 0 for \<open>NULL\<close>.\<close>

definition sys_opendir :: "u8 list \<Rightarrow> fsk \<Rightarrow> (nat \<times> fsk) res" where
  "sys_opendir nm k =
     ASSERT (length nm < MAX_PATH_LEN) ''strlen(name) < MAX_PATH_LEN''
      (if nm \<noteq> [] \<and> hd nm = SLASH \<and> (tl nm = [] \<or> hd (tl nm) = hd DOT)
       then Inr (ROOT_DIR, k)
       else bnd (search_file nm empty_record k) (\<lambda>(inode_no, r, k).
         bnd (if inode_no \<noteq> -1 \<and> psr_file_type r = FT_DIRECTORY then dir_open (nat inode_no) k else Inr (0, k)) (\<lambda>(ret, k).
         bnd (dir_close (psr_parent_dir r) k) (\<lambda>k. Inr (ret, k)))))"

definition sys_closedir :: "nat \<Rightarrow> fsk \<Rightarrow> (int \<times> fsk) res" where
  "sys_closedir d k = (if d \<noteq> 0 then bnd (dir_close d k) (\<lambda>k. Inr (0, k)) else Inr (-1, k))"

definition sys_readdir :: "nat \<Rightarrow> fsk \<Rightarrow> (dir_entry option \<times> fsk) res" where
  "sys_readdir d k = ASSERT (d \<noteq> 0) ''dir != NULL'' (dir_read d k)"

definition sys_rewinddir :: "nat \<Rightarrow> fsk \<Rightarrow> fsk res" where
  "sys_rewinddir d k = bnd (get_dir d k) (\<lambda>x. Inr (set_dir d (x\<lparr>dir_pos := 0\<rparr>) k))"

section \<open>The working directory\<close>

definition get_parent_dir_inode_no :: "nat \<Rightarrow> fsk \<Rightarrow> (nat \<times> fsk) res" where
  "get_parent_dir_inode_no child_inode_no k =
     bnd (inode_open child_inode_no k) (\<lambda>(a, k).
     bnd (get_inode a k) (\<lambda>i.
     let block_lba = i_sectors i ! 0 in
     ASSERT (block_lba \<ge> data_start_lba (sb k)) ''block_lba >= cur_part->sb->data_start_lba''
      (bnd (inode_close a k) (\<lambda>k.
       bnd (disk_read block_lba 1 k) (\<lambda>sec.
       let e = entry_at sec 1 in
       ASSERT (de_i_no e < 4096 \<and> f_type e = ft_code FT_DIRECTORY) ''dir_e[1].i_no < 4096 && dir_e[1].f_type == FT_DIRECTORY''
        (Inr (de_i_no e, k)))))))"

text \<open>The name of the entry with the given i-node number, in the blocks \<open>bs\<close>.\<close>

fun child_name :: "nat \<Rightarrow> nat list \<Rightarrow> fsk \<Rightarrow> u8 list option res" where
  "child_name no [] k = Inr None"
| "child_name no (b # bs) k =
     (if b = 0 then child_name no bs k
      else bnd (disk_read b 1 k) (\<lambda>sec.
           case find (\<lambda>j. de_i_no (entry_at sec j) = no) [0..<per_sec k] of
             Some j \<Rightarrow> Inr (Some (entry_name sec j)) | None \<Rightarrow> child_name no bs k))"

definition get_child_dir_name :: "nat \<Rightarrow> nat \<Rightarrow> u8 list \<Rightarrow> fsk \<Rightarrow> (u8 list option \<times> fsk) res" where
  "get_child_dir_name p_inode_nr c_inode_nr path k =
     bnd (inode_open p_inode_nr k) (\<lambda>(a, k).
     bnd (get_inode a k) (\<lambda>i.
     bnd (all_blocks i k) (\<lambda>bs.
     bnd (inode_close a k) (\<lambda>k.
     GUARD (per_sec_ok k) ''io_buf''
      (bnd (child_name c_inode_nr bs k) (\<lambda>r.
       case r of None \<Rightarrow> Inr (None, k)
       | Some nm \<Rightarrow> GUARD (length path + 1 + length nm < MAX_PATH_LEN) ''full_path_reverse''
                      (Inr (Some (path @ SLASH # nm), k))))))))"

text \<open>
  The walk from the working directory up to the root, which is i-node 0. It has no bound: on a
  disk whose directories point to each other in a circle it goes on until the path is too long.
\<close>

partial_function (option) cwd_from ::
    "nat \<Rightarrow> u8 list \<Rightarrow> fsk \<Rightarrow> (u8 list option \<times> fsk) res option" where
  "cwd_from c path k =
     (if c = 0 then Some (Inr (Some path, k))
      else case get_parent_dir_inode_no c k of
        Inl e \<Rightarrow> Some (Inl e)
      | Inr (p, k) \<Rightarrow>
          (case get_child_dir_name p c path k of
             Inl e \<Rightarrow> Some (Inl e)
           | Inr (None, k) \<Rightarrow> Some (Inr (None, k))
           | Inr (Some path, k) \<Rightarrow> cwd_from p path k))"

text \<open>The result is the string left in \<open>buf\<close>, or \<open>None\<close> for \<open>NULL\<close>.\<close>

definition sys_getcwd :: "nat \<Rightarrow> fsk \<Rightarrow> (u8 list option \<times> fsk) res option" where
  "sys_getcwd buf_size k =
     (let (ok, k) = heap_reply k in
      if \<not> ok then Some (Inr (None, k))
      else let c = cwd_inode_nr k (running_thread k) in
      if \<not> (c \<ge> 0 \<and> c < 4096) then Some (Inl (Panic ''child_inode_nr >= 0 && child_inode_nr < 4096''))
      else if c = 0 then Some (GUARD (buf_size \<ge> 2) ''buf'' (Inr (Some [SLASH], k)))
      else map_option (\<lambda>r. bnd r (\<lambda>(path, k). case path of
             None \<Rightarrow> Inr (None, k)
           | Some p \<Rightarrow> ASSERT (length p \<le> buf_size) ''strlen(full_path_reverse) <= size''
                        (GUARD (length p < buf_size) ''buf'' (Inr (Some (reverse_path p), k)))))
         (cwd_from (nat c) [] k))"

definition sys_chdir :: "u8 list \<Rightarrow> fsk \<Rightarrow> (int \<times> fsk) res" where
  "sys_chdir path k =
     bnd (search_file path empty_record k) (\<lambda>(inode_no, r, k).
     if inode_no \<noteq> -1 \<and> psr_file_type r = FT_DIRECTORY
     then Inr (0, k\<lparr>cwd_inode_nr := (cwd_inode_nr k)(running_thread k := inode_no)\<rparr>)
     else Inr (-1, k))"

record stat =
  st_ino :: nat
  st_size :: nat
  st_filetype :: file_type

definition sys_stat :: "u8 list \<Rightarrow> fsk \<Rightarrow> (stat option \<times> fsk) res" where
  "sys_stat path k =
     (if is_root_path path
      then bnd (get_dir ROOT_DIR k) (\<lambda>d.
           bnd (get_inode (dir_inode d) k) (\<lambda>i.
           Inr (Some \<lparr>st_ino = 0, st_size = i_size i, st_filetype = FT_DIRECTORY\<rparr>, k)))
      else bnd (search_file path empty_record k) (\<lambda>(inode_no, r, k).
           bnd (if inode_no \<noteq> -1
                then bnd (inode_open (nat inode_no) k) (\<lambda>(a, k).
                     bnd (get_inode a k) (\<lambda>i.
                     bnd (inode_close a k) (\<lambda>k.
                     Inr (Some \<lparr>st_ino = nat inode_no, st_size = i_size i, st_filetype = psr_file_type r\<rparr>, k))))
                else Inr (None, k)) (\<lambda>(st, k).
           bnd (dir_close (psr_parent_dir r) k) (\<lambda>k. Inr (st, k)))))"

end
