(* ===== verification/Format.thy ===== *)
theory Format
  imports Dircalls
begin

text \<open>
  \<open>fs/fs.c\<close>: making a file system on a partition, mounting it, and \<open>filesys_init\<close>, which does
  both at boot.
\<close>

section \<open>Definitions\<close>

definition DIV_ROUND_UP :: "nat \<Rightarrow> nat \<Rightarrow> nat" where
  "DIV_ROUND_UP x step = (x + step - 1) div step"

text \<open>
  The super block that \<open>partition_format\<close> computes for a partition of \<open>cnt\<close> sectors from the
  sector \<open>start\<close> on. Subtractions are on \<open>uint32_t\<close>.
\<close>

definition format_free_sects :: "nat \<Rightarrow> nat" where
  "format_free_sects cnt =
     sub32 cnt (1 + 1 + DIV_ROUND_UP MAX_FILES_PER_PART BITS_PER_SECTOR +
       DIV_ROUND_UP (INODE_BYTES * MAX_FILES_PER_PART) SECTOR_SIZE)"

definition block_bitmap_bit_len :: "nat \<Rightarrow> nat" where
  "block_bitmap_bit_len cnt =
     sub32 (format_free_sects cnt) (DIV_ROUND_UP (format_free_sects cnt) BITS_PER_SECTOR)"

definition format_super_block :: "nat \<Rightarrow> nat \<Rightarrow> super_block" where
  "format_super_block start cnt =
     (let bb_sects = DIV_ROUND_UP (block_bitmap_bit_len cnt) BITS_PER_SECTOR;
          ib_sects = DIV_ROUND_UP MAX_FILES_PER_PART BITS_PER_SECTOR;
          it_sects = DIV_ROUND_UP (INODE_BYTES * MAX_FILES_PER_PART) SECTOR_SIZE;
          bb_lba = start + 2;
          ib_lba = bb_lba + bb_sects;
          it_lba = ib_lba + ib_sects
      in \<lparr>magic = 0x20050608, sec_cnt = cnt, inode_cnt = MAX_FILES_PER_PART, part_lba_base = start,
          block_bitmap_lba = bb_lba, block_bitmap_sects = bb_sects,
          inode_bitmap_lba = ib_lba, inode_bitmap_sects = ib_sects,
          inode_table_lba = it_lba, inode_table_sects = it_sects,
          data_start_lba = it_lba + it_sects, root_inode_no = 0, dir_entry_size = DIR_ENTRY_BYTES\<rparr>)"

text \<open>The loop that clears the bits of a byte from \<open>bit_idx\<close> up to and including \<open>top\<close>.\<close>

fun clear_bits :: "nat list \<Rightarrow> u8 \<Rightarrow> u8" where
  "clear_bits [] b = b"
| "clear_bits (bit_idx # todo) b = clear_bits todo (b AND NOT (push_bit bit_idx 1))"

text \<open>The buffer that becomes the block bitmap; it has \<open>n\<close> sectors, all 0 at first.\<close>

definition block_bitmap_buf :: "nat \<Rightarrow> nat \<Rightarrow> u8 list res" where
  "block_bitmap_buf n bit_len =
     (let bytes = (replicate (n * SECTOR_SIZE) 0)[0 := 1];
          last_byte = bit_len div 8;
          last_bit = bit_len mod 8;
          last_size = SECTOR_SIZE - last_byte mod SECTOR_SIZE
      in GUARD (last_byte + last_size \<le> n * SECTOR_SIZE) ''buf''
          (let bytes = splice last_byte (replicate last_size 0xff) bytes
           in Inr (bytes[last_byte := clear_bits [0..<Suc last_bit] (bytes ! last_byte)])))"

text \<open>\<open>pad\<close> stands for the 460 bytes of the super block that are not initialised.\<close>

definition partition_format :: "u8 list \<Rightarrow> nat \<Rightarrow> nat \<Rightarrow> fsk \<Rightarrow> fsk res" where
  "partition_format padding start cnt k =
     (let s = format_super_block start cnt in
      bnd (disk_write (start + 1) (super_block_bytes s padding) 1 k) (\<lambda>k.
      let n = max (max (block_bitmap_sects s) (inode_bitmap_sects s)) (inode_table_sects s);
          (ok, k) = heap_reply k
      in GUARD ok ''buf''
       (bnd (block_bitmap_buf n (block_bitmap_bit_len cnt)) (\<lambda>bytes.
        bnd (disk_write (block_bitmap_lba s) bytes (block_bitmap_sects s) k) (\<lambda>k.
        let zeros = replicate (n * SECTOR_SIZE) 0 in
        bnd (disk_write (inode_bitmap_lba s) (zeros[0 := 1]) (inode_bitmap_sects s) k) (\<lambda>k.
        let root = (inode_init 0)\<lparr>i_size := dir_entry_size s * 2,
                     i_sectors := (replicate 13 0)[0 := data_start_lba s]\<rparr> in
        bnd (disk_write (inode_table_lba s) (splice 0 (inode_bytes root) zeros) (inode_table_sects s) k) (\<lambda>k.
        disk_write (data_start_lba s) (dot_sector 0 0) 1 k)))))))"

text \<open>
  \<open>mount_partition\<close> for the partition it finds. A partition has its name, its first sector and
  its size.
\<close>

definition mount_partition :: "u8 list \<Rightarrow> u8 list \<times> nat \<times> nat \<Rightarrow> fsk \<Rightarrow> (bool \<times> fsk) res" where
  "mount_partition part_name part k =
     (case part of (nm, start, cnt) \<Rightarrow>
      if nm = part_name
      then let k = k\<lparr>start_lba := start, part_sec_cnt := cnt\<rparr>;
               (ok1, k) = heap_reply k;
               (ok2, k) = heap_reply k
           in ASSERT ok2 ''alloc memory failed''
            (GUARD ok1 ''sb_buf''
             (bnd (disk_read (start + 1) 1 k) (\<lambda>sec.
              let s = read_super_block sec;
                  k = k\<lparr>sb := s\<rparr>;
                  (ok, k) = heap_reply k
              in ASSERT ok ''alloc memory failed''
               (bnd (disk_read (block_bitmap_lba s) (block_bitmap_sects s) k) (\<lambda>bb.
                let k = k\<lparr>block_bitmap := \<lparr>btmp_bytes_len = block_bitmap_sects s * SECTOR_SIZE, bits = bb\<rparr>\<rparr>;
                    (ok, k) = heap_reply k
                in ASSERT ok ''alloc memeory failed''
                 (bnd (disk_read (inode_bitmap_lba s) (inode_bitmap_sects s) k) (\<lambda>ib.
                  Inr (True, k\<lparr>inode_bitmap := \<lparr>btmp_bytes_len = inode_bitmap_sects s * SECTOR_SIZE, bits = ib\<rparr>,
                    open_inodes := []\<rparr>))))))))
      else Inr (False, k))"

text \<open>
  \<open>list_traversal(&partition_list, mount_partition, ...)\<close>. Without a partition of that name
  \<open>cur_part\<close> stays \<open>NULL\<close>, which the next statement of \<open>filesys_init\<close> follows.
\<close>

fun mount_first :: "u8 list \<Rightarrow> (u8 list \<times> nat \<times> nat) list \<Rightarrow> fsk \<Rightarrow> fsk res" where
  "mount_first part_name [] k = Inl (Fault ''cur_part'')"
| "mount_first part_name (part # parts) k =
     bnd (mount_partition part_name part k) (\<lambda>(done, k). if done then Inr k else mount_first part_name parts k)"

text \<open>
  The loop of \<open>filesys_init\<close> over the partitions of one disk: one without the magic number of
  this file system gets one.
\<close>

fun format_all :: "u8 list \<Rightarrow> (u8 list \<times> nat \<times> nat) list \<Rightarrow> fsk \<Rightarrow> fsk res" where
  "format_all padding [] k = Inr k"
| "format_all padding ((nm, start, cnt) # parts) k =
     bnd (if cnt \<noteq> 0
          then bnd (disk_read (start + 1) 1 k) (\<lambda>sec.
               if magic (read_super_block sec) = 0x20050608 then Inr k
               else partition_format padding start cnt k)
          else Inr k) (format_all padding parts)"

definition filesys_init :: "u8 list \<Rightarrow> (u8 list \<times> nat \<times> nat) list \<Rightarrow> fsk \<Rightarrow> fsk res" where
  "filesys_init padding parts k =
     (let (ok, k) = heap_reply k in
      ASSERT ok ''malloc failed''
       (bnd (format_all padding parts k) (\<lambda>k.
        bnd (mount_first [0x73, 0x64, 0x62, 0x31] (filter (\<lambda>(nm, start, cnt). cnt \<noteq> 0) parts) k) (\<lambda>k.
        bnd (open_root_dir k) (\<lambda>k.
        Inr (k\<lparr>file_table := map (\<lambda>f. f\<lparr>fd_inode := 0\<rparr>) (file_table k)\<rparr>))))))"

section \<open>The block bitmap of a new file system\<close>

lemma bit_clear_bits: "bit (clear_bits ts w) j \<longleftrightarrow> bit w j \<and> j \<notin> set ts"
proof (induction ts arbitrary: w)
  case (Cons t ts)
  have "bit (push_bit t 1 :: u8) j \<longleftrightarrow> t = j \<and> j < 8" by (auto simp: bit_simps)
  then show ?case using Cons bit_imp_le_length [of w j] by (auto simp: bit_and_iff bit_not_iff)
qed simp

lemma div_mod_less: "(b :: nat) < i \<longleftrightarrow> b div 8 < i div 8 \<or> b div 8 = i div 8 \<and> b mod 8 < i mod 8"
proof -
  have "b = b div 8 * 8 + b mod 8" "i = i div 8 * 8 + i mod 8" "b mod 8 < 8" "i mod 8 < 8" by simp_all
  then show ?thesis by linarith
qed

lemma round_up: "DIV_ROUND_UP b 4096 = b div 4096 + (if b mod 4096 = 0 then 0 else 1)"
proof -
  define q r where "q = b div 4096" and "r = b mod 4096"
  have "b = q * 4096 + r" "r < 4096" by (simp_all add: q_def r_def)
  then show ?thesis unfolding DIV_ROUND_UP_def q_def [symmetric] r_def [symmetric]
    by (intro div_nat_eqI) auto
qed

text \<open>
  Bit 0 is set, the bits 1 to \<open>b\<close> are clear, and the bits behind them up to the end of the
  sector are set. \<open>sects\<close> is the number of sectors that hold \<open>b\<close> bits.
\<close>

lemma block_bitmap_buf_ok:
  assumes b: "8 \<le> b" and n: "DIV_ROUND_UP b 4096 < n"
  obtains bytes where "block_bitmap_buf n b = Inr bytes" "length bytes = n * SECTOR_SIZE"
    "\<And>i. i < DIV_ROUND_UP b 4096 * 4096 \<Longrightarrow> bit (bytes ! (i div 8)) (i mod 8) \<longleftrightarrow> i = 0 \<or> b < i"
proof -
  define L where "L = b div 8"
  define Z where "Z = SECTOR_SIZE - L mod SECTOR_SIZE"
  define S where "S = DIV_ROUND_UP b 4096"
  let ?buf = "(replicate (n * SECTOR_SIZE) 0)[0 := 1] :: u8 list"
  let ?b1 = "splice L (replicate Z 0xff) ?buf"
  let ?b2 = "?b1[L := clear_bits [0..<Suc (b mod 8)] (?b1 ! L)]"
  have L0: "0 < L" using b by (simp add: L_def)
  have LZ: "L + Z = (L div 512 + 1) * 512"
  proof -
    define q r where "q = L div 512" and "r = L mod 512"
    have "L = q * 512 + r" "r < 512" by (simp_all add: q_def r_def)
    then show ?thesis by (simp add: Z_def flip: q_def r_def)
  qed
  have L512: "L div 512 = b div 4096" by (simp add: L_def div_mult2_eq [symmetric])
  have S: "S \<le> b div 4096 + 1" "b div 4096 \<le> S" "b mod 4096 \<noteq> 0 \<Longrightarrow> S = b div 4096 + 1" "b mod 4096 = 0 \<Longrightarrow> S = b div 4096"
    unfolding S_def using round_up [of b] by simp_all
  have le: "L + Z \<le> n * 512"
  proof -
    have "L div 512 + 1 \<le> n" using S(2) n by (simp add: S_def [symmetric] L512)
    then show ?thesis unfolding LZ by (rule mult_le_mono1)
  qed
  have Z: "0 < Z" by (simp add: Z_def)
  have len: "length ?b2 = n * 512" using le by simp
  have run: "block_bitmap_buf n b = Inr ?b2"
    unfolding block_bitmap_buf_def Let_def L_def [symmetric] Z_def [symmetric] by (rule GUARD_True [OF le])
  have nth: "?b2 ! q = (if q = 0 then 1 else if q < L then 0
      else if q = L then clear_bits [0..<Suc (b mod 8)] 0xff else 0xff)" if q: "q < L + Z" for q
  proof -
    have "?b1 ! q = (if q < L then ?buf ! q else 0xff)"
      using q le by (auto simp: splice_def nth_append min_def)
    moreover have "?b1 ! L = 0xff" using le Z by (auto simp: splice_def nth_append min_def)
    ultimately show ?thesis using q le L0 by (auto simp del: upt_Suc)
  qed
  have key: "bit (?b2 ! (i div 8)) (i mod 8) \<longleftrightarrow> i = 0 \<or> b < i" if i: "i < S * 4096" for i
  proof -
    have "i div 8 < S * 512" using i by (simp add: div_less_iff_less_mult)
    show ?thesis
    proof (cases "i div 8 < L + Z")
      case True
      define q m where "q = i div 8" and "m = i mod 8"
      have m: "m < 8" by (simp add: m_def)
      then have ff: "bit (0xff :: u8) m" by (simp only: bit_ff)
      have iq: "i = 0 \<longleftrightarrow> q = 0 \<and> m = 0" using div_mult_mod_eq [of i 8] by (auto simp: q_def m_def)
      have bi: "b < i \<longleftrightarrow> L < q \<or> L = q \<and> b mod 8 < m"
        unfolding div_mod_less [of b i] q_def m_def L_def by simp
      consider "q = 0" | "0 < q" "q < L" | "q = L" | "L < q" by linarith
      then show ?thesis unfolding nth [OF True] iq bi unfolding q_def [symmetric] m_def [symmetric]
      proof cases
        case 3
        then show "bit (if q = 0 then 1 else if q < L then 0
            else if q = L then clear_bits [0..<Suc (b mod 8)] 0xff else (0xff :: u8)) m \<longleftrightarrow>
          q = 0 \<and> m = 0 \<or> L < q \<or> L = q \<and> b mod 8 < m"
          using m L0 ff by (simp add: bit_clear_bits not_le less_Suc_eq_le del: upt_Suc)
      qed (use m L0 ff in \<open>auto simp: bit_1_iff simp del: upt_Suc\<close>)
    next
      case False
      then have "(b div 4096 + 1) * 512 \<le> i div 8" using LZ L512 by simp
      then have "(b div 4096 + 1) * 512 < S * 512" using \<open>i div 8 < S * 512\<close> by linarith
      then show ?thesis using S(1) by simp
    qed
  qed
  show thesis by (rule that [OF run len]) (use key in \<open>simp add: S_def\<close>)
qed

section \<open>Formatting and mounting\<close>

text \<open>The layout: the regions follow each other, and all blocks lie inside the partition.\<close>

lemma format_layout:
  assumes cnt: "700 \<le> cnt" "cnt \<le> max_lba"
    and s_def: "s = format_super_block start cnt" and b_def: "b = block_bitmap_bit_len cnt"
  shows "8 \<le> b" "block_bitmap_sects s = DIV_ROUND_UP b 4096" "0 < block_bitmap_sects s" "block_bitmap_sects s < 608"
    "block_bitmap_lba s = start + 2" "inode_bitmap_lba s = start + 2 + block_bitmap_sects s"
    "inode_table_lba s = start + 3 + block_bitmap_sects s" "data_start_lba s = start + 611 + block_bitmap_sects s"
    "inode_bitmap_sects s = 1" "inode_table_sects s = 608" "dir_entry_size s = 24" "part_lba_base s = start"
    "magic s = 0x20050608" "sec_cnt s = cnt" "inode_cnt s = 4096" "root_inode_no s = 0"
    "data_start_lba s + b \<le> start + cnt"
proof -
  define f where "f = cnt - 611"
  have r: "DIV_ROUND_UP f 4096 \<le> f div 4096 + 1" by (simp add: round_up)
  have f: "format_free_sects cnt = f" using cnt by (simp add: format_free_sects_def DIV_ROUND_UP_def f_def sub32_le)
  have fb: "89 \<le> f" "f < 163840" using cnt by (simp_all add: f_def)
  have q: "f div 4096 < 40" using fb by (simp add: div_less_iff_less_mult)
  have "f div 4096 * 4096 \<le> f" by simp
  then have r2: "DIV_ROUND_UP f 4096 + 8 \<le> f" using r fb q by linarith
  then have b: "b = f - DIV_ROUND_UP f 4096" using fb by (simp add: b_def block_bitmap_bit_len_def f sub32_le)
  show b8: "8 \<le> b" using b r2 by simp
  show bs: "block_bitmap_sects s = DIV_ROUND_UP b 4096" by (simp add: s_def format_super_block_def b_def Let_def)
  have mono: "DIV_ROUND_UP b 4096 \<le> DIV_ROUND_UP f 4096"
    unfolding DIV_ROUND_UP_def using b by (intro div_le_mono) simp
  show "block_bitmap_sects s < 608" using bs mono r q by linarith
  have "4096 \<le> b + 4096 - 1" using b8 by simp
  then have "0 < (b + 4096 - 1) div 4096" by (simp only: div_greater_zero_iff) simp
  then show "0 < block_bitmap_sects s" unfolding bs DIV_ROUND_UP_def .
  show "block_bitmap_lba s = start + 2" "inode_bitmap_lba s = start + 2 + block_bitmap_sects s"
    "inode_table_lba s = start + 3 + block_bitmap_sects s" and ds: "data_start_lba s = start + 611 + block_bitmap_sects s"
    and "inode_bitmap_sects s = 1" "inode_table_sects s = 608" "dir_entry_size s = 24" "part_lba_base s = start"
    "magic s = 0x20050608" "sec_cnt s = cnt" "inode_cnt s = 4096" "root_inode_no s = 0"
    by (simp_all add: s_def format_super_block_def Let_def DIV_ROUND_UP_def)
  show "data_start_lba s + b \<le> start + cnt"
  proof -
    have "b + DIV_ROUND_UP f 4096 = f" "cnt = f + 611" using b r2 cnt(1) by (simp_all add: f_def)
    then show ?thesis unfolding ds bs using mono by linarith
  qed
qed

definition root_inode :: "super_block \<Rightarrow> inode" where
  "root_inode s = (inode_init 0)\<lparr>i_size := dir_entry_size s * 2, i_sectors := (replicate 13 0)[0 := data_start_lba s]\<rparr>"

lemma length_dot_sector [simp]: "length (dot_sector a b) = SECTOR_SIZE"
  by (simp add: dot_sector_def dir_entry_bytes_def dot_entry_def splice_def)

lemma partition_format_ok:
  assumes wf: "wf_image (disk_image k)" and m: "mallocs k = []" and pad: "length padding = 460"
    and cnt: "700 \<le> cnt" "start + cnt \<le> max_lba"
    and s: "s = format_super_block start cnt" and b: "b = block_bitmap_bit_len cnt"
  obtains d bytes where "partition_format padding start cnt k = Inr (k\<lparr>disk_image := d\<rparr>)" "wf_image d"
    "sectors d (start + 1) 1 = super_block_bytes s padding"
    "sectors d (block_bitmap_lba s) (block_bitmap_sects s) = take (block_bitmap_sects s * SECTOR_SIZE) bytes"
    "block_bitmap_sects s * SECTOR_SIZE \<le> length bytes"
    "\<forall>i < block_bitmap_sects s * 4096. bit (bytes ! (i div 8)) (i mod 8) \<longleftrightarrow> i = 0 \<or> b < i"
    "sectors d (inode_bitmap_lba s) 1 = (replicate SECTOR_SIZE 0)[0 := 1]"
    "sectors d (inode_table_lba s) 608 = splice 0 (inode_bytes (root_inode s)) (replicate (608 * SECTOR_SIZE) 0)"
    "sectors d (data_start_lba s) 1 = dot_sector 0 0"
proof -
  have c: "cnt \<le> max_lba" using cnt by simp
  note L = format_layout [OF cnt(1) c s b]
  have n: "max (max (block_bitmap_sects s) 1) 608 = 608" using L(4) by simp
  have ds: "data_start_lba s + 1 \<le> max_lba" using L(1,17) cnt(2) by simp
  have len: "length (super_block_bytes s padding) = SECTOR_SIZE"
    using pad by (simp add: super_block_bytes_def sb_fields_def)
  obtain bytes where bytes: "block_bitmap_buf 608 b = Inr bytes" "length bytes = 608 * SECTOR_SIZE"
    "\<And>i. i < DIV_ROUND_UP b 4096 * 4096 \<Longrightarrow> bit (bytes ! (i div 8)) (i mod 8) \<longleftrightarrow> i = 0 \<or> b < i"
    using L(1,4) by (auto simp: L(2) intro: block_bitmap_buf_ok)
  have le: "block_bitmap_sects s * SECTOR_SIZE \<le> length bytes" using bytes(2) L(4) by simp
  let ?root = "splice 0 (inode_bytes (root_inode s)) (replicate (608 * SECTOR_SIZE) 0)"
  have lr: "length (inode_bytes (root_inode s)) = INODE_BYTES" by (simp add: inode_bytes_def root_inode_def inode_init_def)
  then have lroot: "length ?root = 608 * SECTOR_SIZE" by simp
  have le1: "0 < (1 :: nat)" "start + 1 + 1 \<le> max_lba" "1 * SECTOR_SIZE \<le> length (super_block_bytes s padding)" "wf_image (disk_image k)"
    using cnt len wf by simp_all
  obtain d1 where d1: "disk_write (start + 1) (super_block_bytes s padding) 1 k = Inr (k\<lparr>disk_image := d1\<rparr>)" "wf_image d1"
    "sectors d1 (start + 1) 1 = take (1 * SECTOR_SIZE) (super_block_bytes s padding)"
    "\<forall>T N. T + N \<le> start + 1 \<or> start + 1 + 1 \<le> T \<longrightarrow> sectors d1 T N = sectors (disk_image k) T N"
    using write_region [OF le1(4,1-3)] by (elim exE conjE) (rule that)
  let ?k1 = "k\<lparr>disk_image := d1\<rparr>"
  have le2: "0 < (block_bitmap_sects s)" "block_bitmap_lba s + (block_bitmap_sects s) \<le> max_lba" "(block_bitmap_sects s) * SECTOR_SIZE \<le> length bytes" "wf_image (disk_image ?k1)"
    using d1(2) le L(3-8) ds by simp_all
  obtain d2 where d2: "disk_write (block_bitmap_lba s) bytes (block_bitmap_sects s) ?k1 = Inr (?k1\<lparr>disk_image := d2\<rparr>)" "wf_image d2"
    "sectors d2 (block_bitmap_lba s) (block_bitmap_sects s) = take ((block_bitmap_sects s) * SECTOR_SIZE) bytes"
    "\<forall>T N. T + N \<le> block_bitmap_lba s \<or> block_bitmap_lba s + (block_bitmap_sects s) \<le> T \<longrightarrow> sectors d2 T N = sectors (disk_image ?k1) T N"
    using write_region [OF le2(4,1-3)] by (elim exE conjE) (rule that)
  let ?k2 = "?k1\<lparr>disk_image := d2\<rparr>" and ?z = "(replicate (608 * SECTOR_SIZE) 0)[0 := 1] :: u8 list"
  have le3: "0 < (1 :: nat)" "inode_bitmap_lba s + 1 \<le> max_lba" "1 * SECTOR_SIZE \<le> length ?z" "wf_image (disk_image ?k2)"
    using d2(2) L(3-8) ds by simp_all
  obtain d3 where d3: "disk_write (inode_bitmap_lba s) ?z 1 ?k2 = Inr (?k2\<lparr>disk_image := d3\<rparr>)" "wf_image d3"
    "sectors d3 (inode_bitmap_lba s) 1 = take (1 * SECTOR_SIZE) ?z"
    "\<forall>T N. T + N \<le> inode_bitmap_lba s \<or> inode_bitmap_lba s + 1 \<le> T \<longrightarrow> sectors d3 T N = sectors (disk_image ?k2) T N"
    using write_region [OF le3(4,1-3)] by (elim exE conjE) (rule that)
  let ?k3 = "?k2\<lparr>disk_image := d3\<rparr>"
  have le4: "0 < (608 :: nat)" "inode_table_lba s + 608 \<le> max_lba" "608 * SECTOR_SIZE \<le> length ?root" "wf_image (disk_image ?k3)"
    using d3(2) L(3-8) ds lroot by simp_all
  obtain d4 where d4: "disk_write (inode_table_lba s) ?root 608 ?k3 = Inr (?k3\<lparr>disk_image := d4\<rparr>)" "wf_image d4"
    "sectors d4 (inode_table_lba s) 608 = take (608 * SECTOR_SIZE) ?root"
    "\<forall>T N. T + N \<le> inode_table_lba s \<or> inode_table_lba s + 608 \<le> T \<longrightarrow> sectors d4 T N = sectors (disk_image ?k3) T N"
    using write_region [OF le4(4,1-3)] by (elim exE conjE) (rule that)
  let ?k4 = "?k3\<lparr>disk_image := d4\<rparr>"
  have le5: "0 < (1 :: nat)" "data_start_lba s + 1 \<le> max_lba" "1 * SECTOR_SIZE \<le> length (dot_sector 0 0)" "wf_image (disk_image ?k4)"
    using d4(2) ds by simp_all
  obtain d5 where d5: "disk_write (data_start_lba s) (dot_sector 0 0) 1 ?k4 = Inr (?k4\<lparr>disk_image := d5\<rparr>)" "wf_image d5"
    "sectors d5 (data_start_lba s) 1 = take (1 * SECTOR_SIZE) (dot_sector 0 0)"
    "\<forall>T N. T + N \<le> data_start_lba s \<or> data_start_lba s + 1 \<le> T \<longrightarrow> sectors d5 T N = sectors (disk_image ?k4) T N"
    using write_region [OF le5(4,1-3)] by (elim exE conjE) (rule that)
  have run: "partition_format padding start cnt k = Inr (k\<lparr>disk_image := d5\<rparr>)"
  proof -
    have hr: "heap_reply ?k1 = (True, ?k1)" using m by (simp add: heap_reply_def)
    have "partition_format padding start cnt k = Inr (?k4\<lparr>disk_image := d5\<rparr>)"
      by (simp only: partition_format_def Let_def s [symmetric] b [symmetric] d1(1) bnd_Inr hr prod.case n
          L(9,10) d2(1) d3(1) d4(1) d5(1) bytes(1) root_inode_def [symmetric] GUARD_True)
    then show ?thesis by simp
  qed
  show thesis
  proof (rule that [OF run d5(2)])
    show "sectors d5 (start + 1) 1 = super_block_bytes s padding"
      using d1(3) d2(4) d3(4) d4(4) d5(4) L(3-8) len by simp
    show "sectors d5 (block_bitmap_lba s) (block_bitmap_sects s) = take (block_bitmap_sects s * SECTOR_SIZE) bytes"
      using d2(3) d3(4) d4(4) d5(4) L by simp
    show "sectors d5 (inode_bitmap_lba s) 1 = (replicate SECTOR_SIZE 0)[0 := 1]"
      using d3(3) d4(4) d5(4) L by (simp add: take_update_swap)
    show "sectors d5 (inode_table_lba s) 608 = ?root" using d4(3) d5(4) L(3-8) lroot by (simp del: length_splice)
    show "sectors d5 (data_start_lba s) 1 = dot_sector 0 0" using d5(3) by simp
  qed (use le bytes(3) L(2) in auto)
qed

lemma super_block_small:
  assumes "700 \<le> cnt" "start + cnt \<le> max_lba" "s = format_super_block start cnt"
  shows "\<forall>n \<in> set (sb_fields s). n < 2 ^ 32"
proof -
  have c: "cnt \<le> max_lba" using assms(2) by simp
  note L = format_layout [OF assms(1) c assms(3) refl]
  show ?thesis using L(4-17) assms(2) by (simp add: sb_fields_def)
qed

lemma dot_sector_entries:
  assumes "a < 2 ^ 32" "p < 2 ^ 32"
  shows "entry_name (dot_sector a p) 0 = DOT" "entry_at (dot_sector a p) 0 = dot_entry DOT a"
    "entry_name (dot_sector a p) 1 = DOTDOT" "entry_at (dot_sector a p) 1 = dot_entry DOTDOT p"
proof -
  have w: "wf_dir_entry (dot_entry DOT a)" "wf_dir_entry (dot_entry DOTDOT p)"
    using assms by (simp_all add: wf_dir_entry_def dot_entry_def ft_code_def)
  let ?z = "replicate (SECTOR_SIZE - 48) (0 :: u8)"
  have l: "length (dir_entry_bytes (dot_entry DOT a)) = 24" using w(1) by simp
  have s0: "dot_sector a p = dir_entry_bytes (dot_entry DOT a) @ (dir_entry_bytes (dot_entry DOTDOT p) @ ?z)"
    using w by (simp add: dot_sector_def splice_def)
  have s1: "drop 24 (dot_sector a p) = dir_entry_bytes (dot_entry DOTDOT p) @ ?z" using l by (simp add: s0)
  show "entry_at (dot_sector a p) 0 = dot_entry DOT a"
    unfolding entry_at_def s0 using read_dir_entry_bytes_append [OF w(1)] by simp
  show "entry_at (dot_sector a p) 1 = dot_entry DOTDOT p"
    unfolding entry_at_def using read_dir_entry_bytes_append [OF w(2)] s1 by simp
  show "entry_name (dot_sector a p) 0 = DOT"
    unfolding entry_name_def s0 by (simp add: dir_entry_bytes_def dot_entry_def splice_def cstr_def)
  show "entry_name (dot_sector a p) 1 = DOTDOT"
    unfolding entry_name_def using s1 by (simp add: dir_entry_bytes_def dot_entry_def splice_def cstr_def)
qed

section \<open>Results\<close>

text \<open>
  C27: A partition of at least 700 sectors, all below \<open>max_lba\<close>, that was just formatted can be
  mounted (when the heap has memory), and the mounted file system is sound and empty: the super
  block read back is the one that was computed, the layout is in order, the block bitmap on disk
  is the one in memory, only i-node 0 is in use, and i-node 0 is a directory with the two entries
  \<open>.\<close> and \<open>..\<close>, both of them leading to itself. With \<open>b\<close> data blocks, the bits in use in the block
  bitmap are bit 0 and the bits from \<open>b + 1\<close> on: bit \<open>b\<close>, the first one behind the last block
  \<open>b - 1\<close>, stays clear, although the comment in the code has all bits behind the last block in use.
\<close>

theorem format_then_mount:
  assumes "wf_image (disk_image k)" "mallocs k = []" "length padding = 460" "700 \<le> cnt" "start + cnt \<le> max_lba"
    and "s = format_super_block start cnt" "b = block_bitmap_bit_len cnt"
  shows "\<exists>k1 k2 sec. partition_format padding start cnt k = Inr k1 \<and>
    mount_partition nm (nm, start, cnt) k1 = Inr (True, k2) \<and> sb k2 = s \<and> fs_ok k2 \<and> blocks_synced k2 \<and>
    open_inodes k2 = [] \<and> used (inode_bitmap k2) = {0} \<and>
    used (block_bitmap k2) = {0} \<union> {b<..<block_bitmap_sects s * 4096} \<and>
    disk_inode k2 0 = root_inode s \<and> disk_read (i_sectors (root_inode s) ! 0) 1 k2 = Inr sec \<and>
    entry_name sec 0 = DOT \<and> entry_name sec 1 = DOTDOT \<and>
    de_i_no (entry_at sec 0) = 0 \<and> de_i_no (entry_at sec 1) = 0"
proof -
  have c: "cnt \<le> max_lba" using assms(5) by simp
  note L = format_layout [OF assms(4) c assms(6,7)]
  obtain d bytes where F: "partition_format padding start cnt k = Inr (k\<lparr>disk_image := d\<rparr>)" "wf_image d"
    "sectors d (start + 1) 1 = super_block_bytes s padding"
    "sectors d (block_bitmap_lba s) (block_bitmap_sects s) = take (block_bitmap_sects s * SECTOR_SIZE) bytes"
    "block_bitmap_sects s * SECTOR_SIZE \<le> length bytes"
    "\<forall>i < block_bitmap_sects s * 4096. bit (bytes ! (i div 8)) (i mod 8) \<longleftrightarrow> i = 0 \<or> b < i"
    "sectors d (inode_bitmap_lba s) 1 = (replicate SECTOR_SIZE 0)[0 := 1]"
    "sectors d (inode_table_lba s) 608 = splice 0 (inode_bytes (root_inode s)) (replicate (608 * SECTOR_SIZE) 0)"
    "sectors d (data_start_lba s) 1 = dot_sector 0 0"
    by (rule partition_format_ok [OF assms])
  have ds: "data_start_lba s + 1 \<le> max_lba" using L(1,17) assms(5) by simp
  let ?bb = "\<lparr>btmp_bytes_len = block_bitmap_sects s * SECTOR_SIZE, bits = take (block_bitmap_sects s * SECTOR_SIZE) bytes\<rparr>"
  let ?ib = "\<lparr>btmp_bytes_len = SECTOR_SIZE, bits = (replicate SECTOR_SIZE 0)[0 := 1]\<rparr>"
  let ?k2 = "k\<lparr>disk_image := d, start_lba := start, part_sec_cnt := cnt, sb := s, block_bitmap := ?bb,
     inode_bitmap := ?ib, open_inodes := []\<rparr>"
  have r1: "disk_read (start + 1) 1 k' = Inr (sectors (disk_image k') (start + 1) 1)" for k'
    using assms(4,5) by (intro disk_read_region) simp_all
  have r2: "disk_read (block_bitmap_lba s) (block_bitmap_sects s) k' =
      Inr (sectors (disk_image k') (block_bitmap_lba s) (block_bitmap_sects s))" for k'
    using L(3-8) ds by (intro disk_read_region) simp_all
  have r3: "disk_read (inode_bitmap_lba s) 1 k' = Inr (sectors (disk_image k') (inode_bitmap_lba s) 1)" for k'
    using L(3-8) ds by (intro disk_read_region) simp_all
  have r4: "disk_read (data_start_lba s) 1 k' = Inr (sectors (disk_image k') (data_start_lba s) 1)" for k'
    using ds by (intro disk_read_region) simp_all
  have sbr: "read_super_block (super_block_bytes s padding) = s"
    by (rule read_super_block_bytes [OF super_block_small [OF assms(4-6)]])
  have mount: "mount_partition nm (nm, start, cnt) (k\<lparr>disk_image := d\<rparr>) = Inr (True, ?k2)"
  proof -
    have m: "heap_reply k' = (True, k')" if "mallocs k' = []" for k' using that by (simp add: heap_reply_def)
    show ?thesis unfolding mount_partition_def prod.case Let_def
      using r1 r2 r3 F(3,4,7) sbr L(9) assms(2) by (simp add: m)
  qed
  have ib: "used ?ib = {0}"
  proof -
    have "bit ((replicate 512 0)[0 := 1 :: u8] ! (i div 8)) (i mod 8) \<longleftrightarrow> i = 0" if "i < 4096" for i
    proof (cases "i div 8 = 0")
      case True
      then have "i mod 8 = i" by auto
      then show ?thesis using True by (simp add: bit_1_iff)
    next
      case False
      then have "i \<noteq> 0" by auto
      then show ?thesis using False that by (simp add: div_less_iff_less_mult)
    qed
    then show ?thesis by (auto simp: used_def nbits_def bit_at_def)
  qed
  have bb: "used ?bb = {0} \<union> {b<..<block_bitmap_sects s * 4096}"
  proof -
    have e: "bit (take (block_bitmap_sects s * 512) bytes ! (i div 8)) (i mod 8) \<longleftrightarrow> i = 0 \<or> b < i"
      if "i < block_bitmap_sects s * 4096" for i
      using F(6) that by (simp add: div_less_iff_less_mult)
    show ?thesis
    proof (rule set_eqI)
      fix i show "i \<in> used ?bb \<longleftrightarrow> i \<in> {0} \<union> {b<..<block_bitmap_sects s * 4096}"
        using e [of i] L(3) by (cases "i < block_bitmap_sects s * 4096") (auto simp: used_def nbits_def bit_at_def)
    qed
  qed
  have ok: "fs_ok ?k2"
    using F(2,5) L assms(5) by (auto simp: fs_ok_def table_ok_def wf_bitmap_def)
  have sy: "blocks_synced ?k2" using F(4) by (simp add: blocks_synced_def)
  have di: "disk_inode ?k2 0 = root_inode s"
  proof -
    have w: "wf_inode (root_inode s)" using L(11) ds
      by (auto simp: wf_inode_def root_inode_def inode_init_def dest!: subsetD [OF set_update_subset_insert])
    have l: "length (inode_bytes (root_inode s)) = INODE_BYTES" using w by simp
    have "slice 0 INODE_BYTES (splice 0 (inode_bytes (root_inode s)) (replicate (608 * SECTOR_SIZE) 0)) =
        inode_bytes (root_inode s)"
      using slice_splice_same [of 0 "replicate (608 * SECTOR_SIZE) 0" "inode_bytes (root_inode s)"] l by simp
    then show ?thesis using read_inode_bytes_append [OF w, of "[]"] F(8)
      by (simp add: disk_inode_def table_region_def)
  qed
  have rd: "disk_read (i_sectors (root_inode s) ! 0) 1 ?k2 = Inr (dot_sector 0 0)"
    using r4 [of ?k2] F(9) by (simp add: root_inode_def)
  show ?thesis using F(1) mount ok sy ib bb di rd dot_sector_entries [of 0 0]
    by (intro exI [of _ "k\<lparr>disk_image := d\<rparr>"] exI [of _ ?k2] exI [of _ "dot_sector 0 0"]) (simp add: dot_entry_def)
qed

lemma format_then_mount_witness:
  "\<exists>k1 k2. partition_format (replicate 460 0) 2048 20000 demo_fs = Inr k1 \<and>
    mount_partition [0x61] ([0x61], 2048, 20000) k1 = Inr (True, k2) \<and> fs_ok k2 \<and> used (inode_bitmap k2) = {0}"
proof -
  have w: "wf_image (disk_image demo_fs)" by (simp add: wf_image_def)
  have n: "length (replicate 460 (0 :: u8)) = 460" "(700 :: nat) \<le> 20000" "2048 + 20000 \<le> max_lba" by simp_all
  from format_then_mount [OF w demo_fs_simps(11) n refl refl, of "[0x61]"] show ?thesis
    by (elim exE conjE) (intro exI conjI; assumption)
qed

text \<open>
  The block bitmap of a new file system has one block too many. With \<open>b\<close> blocks behind
  \<open>data_start_lba\<close> the blocks have the numbers 0 to \<open>b - 1\<close>, but the loop that clears the bits of the
  last byte runs one bit too far: bit \<open>b\<close> is clear too (unless \<open>b\<close> fills whole sectors). When the
  bitmap's own size was estimated right, that block is the first sector behind the partition.
\<close>

theorem format_one_block_too_many:
  assumes "700 \<le> cnt" "start + cnt \<le> max_lba"
    and "s = format_super_block start cnt" "b = block_bitmap_bit_len cnt" "b mod 4096 \<noteq> 0"
  shows "\<exists>bytes. block_bitmap_buf 608 b = Inr bytes \<and> b < block_bitmap_sects s * 4096 \<and>
    \<not> bit_at \<lparr>btmp_bytes_len = block_bitmap_sects s * SECTOR_SIZE, bits = bytes\<rparr> b \<and>
    data_start_lba s + b \<le> start + cnt \<and>
    (block_bitmap_sects s = DIV_ROUND_UP (cnt - 611) 4096 \<longrightarrow> data_start_lba s + b = start + cnt)"
proof -
  have c: "cnt \<le> max_lba" using assms(2) by simp
  note L = format_layout [OF assms(1) c assms(3,4)]
  obtain bytes where bytes: "block_bitmap_buf 608 b = Inr bytes"
    "\<And>i. i < DIV_ROUND_UP b 4096 * 4096 \<Longrightarrow> bit (bytes ! (i div 8)) (i mod 8) \<longleftrightarrow> i = 0 \<or> b < i"
    using L(1,4) by (auto simp: L(2) intro: block_bitmap_buf_ok)
  have lt: "b < DIV_ROUND_UP b 4096 * 4096"
  proof -
    have "b = b div 4096 * 4096 + b mod 4096" "b mod 4096 < 4096" by simp_all
    then show ?thesis using assms(5) by (simp add: round_up)
  qed
  have eq: "data_start_lba s + b = start + cnt" if q: "block_bitmap_sects s = DIV_ROUND_UP (cnt - 611) 4096"
  proof -
    have f: "format_free_sects cnt = cnt - 611"
      using assms(1) c by (simp add: format_free_sects_def DIV_ROUND_UP_def sub32_le)
    have "(cnt - 611) div 4096 < cnt - 611" using assms(1) by (intro div_less_dividend) simp_all
    then have "DIV_ROUND_UP (cnt - 611) 4096 \<le> cnt - 611" by (simp add: round_up)
    then have "b = cnt - 611 - block_bitmap_sects s"
      using c by (simp add: assms(4) block_bitmap_bit_len_def f sub32_le q)
    then show ?thesis using L(8) \<open>DIV_ROUND_UP (cnt - 611) 4096 \<le> cnt - 611\<close> assms(1) q by simp
  qed
  show ?thesis using bytes lt L(1,2,17) eq by (auto simp: bit_at_def)
qed

lemma format_one_block_too_many_witness:
  "block_bitmap_bit_len 20000 = 19384 \<and> data_start_lba (format_super_block 2048 20000) + 19384 = 2048 + 20000 \<and>
    (\<exists>bytes. block_bitmap_buf 608 19384 = Inr bytes \<and>
      \<not> bit_at \<lparr>btmp_bytes_len = 5 * SECTOR_SIZE, bits = bytes\<rparr> 19384)"
proof -
  have b: "19384 = block_bitmap_bit_len 20000"
    by (simp add: block_bitmap_bit_len_def format_free_sects_def DIV_ROUND_UP_def sub32_le)
  have s: "block_bitmap_sects (format_super_block 2048 20000) = 5"
    using b by (simp add: format_super_block_def Let_def DIV_ROUND_UP_def)
  have e: "(5 :: nat) = DIV_ROUND_UP (20000 - 611) 4096" by (simp add: DIV_ROUND_UP_def)
  have n: "(700 :: nat) \<le> 20000" "2048 + 20000 \<le> max_lba" "(19384 :: nat) mod 4096 \<noteq> 0" by simp_all
  from format_one_block_too_many [OF n(1,2) refl b n(3), unfolded s] show ?thesis
    using b e by auto
qed

end
