(* ===== verification/Dirspec.thy ===== *)
theory Dirspec
  imports Dir "HOL-Library.Multiset"
begin

text \<open>
  What the directory operations do, in terms of the list of a directory's entries. \<open>live d bs\<close> is
  the list of the entries in use in the blocks \<open>bs\<close> on the disk \<open>d\<close>. On directories without an
  indirect table, \<open>search_dir_entry\<close> looks a name up in this list, \<open>sync_dir_entry\<close> inserts an
  entry and \<open>delete_dir_entry\<close> takes one out.
\<close>

section \<open>The entries of a sector\<close>

lemma of_nat_256 [simp]: "(of_nat (256 * n) :: u8) = 0"
proof -
  have "(256 :: u8) = 0" by simp
  then show ?thesis by (simp only: of_nat_mult of_nat_numeral mult_zero_left)
qed

lemma unat_u8: "unat (w :: u8) < 256"
  using unsigned_less [of w, where 'a = nat] by simp

lemma le32_rd32:
  assumes "off + 4 \<le> length bs"
  shows "le32 (rd32 bs off) = slice off 4 bs"
proof -
  define b where "b i = unat (bs ! (off + i))" for i
  have b: "b i < 256" for i by (simp add: b_def unat_u8)
  have r: "rd32 bs off = b 0 + 256 * (b 1 + 256 * (b 2 + 256 * b 3))"
    by (simp add: rd32_def b_def)
  have d1: "(b 0 + 256 * X) div 256 = X" for X using b [of 0] by simp
  have d2: "(b 1 + 256 * X) div 256 = X" for X using b [of 1] by simp
  have d3: "(b 2 + 256 * X) div 256 = X" for X using b [of 2] by simp
  have e: "rd32 bs off div 256 = b 1 + 256 * (b 2 + 256 * b 3)"
    "rd32 bs off div 65536 = b 2 + 256 * b 3" "rd32 bs off div 16777216 = b 3"
  proof -
    show "rd32 bs off div 256 = b 1 + 256 * (b 2 + 256 * b 3)" unfolding r by (rule d1)
    then have "rd32 bs off div 256 div 256 = b 2 + 256 * b 3" using d2 by metis
    then show "rd32 bs off div 65536 = b 2 + 256 * b 3" by (simp flip: div_mult2_eq)
    then have "rd32 bs off div 65536 div 256 = b 3" using d3 by metis
    then show "rd32 bs off div 16777216 = b 3" by (simp flip: div_mult2_eq)
  qed
  have w: "(of_nat (b i) :: u8) = bs ! (off + i)" for i by (simp add: b_def)
  have "le32 (rd32 bs off) = [bs ! off, bs ! (off + 1), bs ! (off + 2), bs ! (off + 3)]"
    unfolding le32_def e using w [of 0] w [of 1] w [of 2] w [of 3]
    by (subst r) (simp only: of_nat_add of_nat_256 add_0_right)
  also have "\<dots> = slice off 4 bs"
    using assms by (intro nth_equalityI) (auto simp: slice_def less_Suc_eq numeral_eq_Suc)
  finally show ?thesis .
qed

text \<open>The 24 bytes of an entry.\<close>

lemma dir_entry_bytes_read:
  assumes "24 \<le> length bs"
  shows "dir_entry_bytes (read_dir_entry bs) = take 24 bs"
proof -
  have "dir_entry_bytes (read_dir_entry bs) = take 16 bs @ take 4 (drop 16 bs) @ take 4 (drop 20 bs)"
    using assms le32_rd32 [of 16 bs] le32_rd32 [of 20 bs]
    by (simp add: dir_entry_bytes_def read_dir_entry_def slice_def)
  also have "\<dots> = take 24 bs" using take_add [of 16 8 bs] take_add [of 4 4 "drop 16 bs"] by simp
  finally show ?thesis .
qed

definition name_of :: "dir_entry \<Rightarrow> u8 list" where
  "name_of e = cstr (dir_entry_bytes e)"

definition sec_entries :: "u8 list \<Rightarrow> dir_entry list" where
  "sec_entries sec = map (entry_at sec) [0..<21]"

definition entry_sane :: "dir_entry \<Rightarrow> bool" where
  "entry_sane e \<longleftrightarrow> wf_dir_entry e \<and> f_type e \<le> 2 \<and> (f_type e = 0 \<longrightarrow> name_of e = [])"

text \<open>
  A name ends inside its entry, since the type is a small number, whose last bytes are 0.
\<close>

lemma cstr_append: "0 \<in> set xs \<Longrightarrow> cstr (xs @ ys) = cstr xs"
  by (simp add: cstr_def takeWhile_append1)

lemma small_has_zero: "f_type e \<le> 2 \<Longrightarrow> 0 \<in> set (dir_entry_bytes e)"
  by (simp add: dir_entry_bytes_def le32_def)

lemma entry_name_at:
  assumes "length sec = SECTOR_SIZE" "j < 21" "f_type (entry_at sec j) \<le> 2"
  shows "entry_name sec j = name_of (entry_at sec j)"
proof -
  have l: "24 \<le> length (drop (j * 24) sec)" using assms(1,2) by simp
  have b: "dir_entry_bytes (entry_at sec j) = take 24 (drop (j * 24) sec)"
    unfolding entry_at_def by (rule dir_entry_bytes_read [OF l])
  have "entry_name sec j = cstr (take 24 (drop (j * 24) sec) @ drop 24 (drop (j * 24) sec))"
    by (simp only: entry_name_def append_take_drop_id)
  also have "\<dots> = cstr (take 24 (drop (j * 24) sec))"
    using small_has_zero [OF assms(3)] by (intro cstr_append) (simp only: b)
  finally show ?thesis by (simp only: name_of_def b)
qed

lemma wf_entry_at: "length sec = SECTOR_SIZE \<Longrightarrow> j < 21 \<Longrightarrow> wf_dir_entry (entry_at sec j)"
  using rd32_less [of "drop (j * 24) sec"] by (simp add: wf_dir_entry_def entry_at_def read_dir_entry_def)

text \<open>Writing an entry changes the entry at its place.\<close>

lemma read_dir_entry_slice:
  assumes "off + 24 \<le> length bs"
  shows "read_dir_entry (drop off bs) = read_dir_entry (slice off 24 bs)"
  using assms by (simp add: read_dir_entry_def slice_def rd32_def)

lemma sec_entries_splice:
  assumes "length sec = SECTOR_SIZE" "j < 21" "wf_dir_entry e"
  shows "sec_entries (splice (j * 24) (dir_entry_bytes e) sec) = (sec_entries sec)[j := e]"
proof (rule nth_equalityI)
  fix i assume "i < length (sec_entries (splice (j * 24) (dir_entry_bytes e) sec))"
  then have i: "i < 21" by (simp add: sec_entries_def)
  have le: "j * 24 + length (dir_entry_bytes e) \<le> length sec" using assms by simp
  have li: "i * 24 + 24 \<le> length sec" using i assms(1) by simp
  have "entry_at (splice (j * 24) (dir_entry_bytes e) sec) i = (if i = j then e else entry_at sec i)"
  proof (cases "i = j")
    case True
    have "slice (j * 24) 24 (splice (j * 24) (dir_entry_bytes e) sec) = dir_entry_bytes e"
      using slice_splice_same [of "j * 24" sec "dir_entry_bytes e"] assms by simp
    then show ?thesis using True read_dir_entry_bytes_append [OF assms(3), of "[]"] le li
      by (simp add: entry_at_def read_dir_entry_slice [of "j * 24" "splice (j * 24) (dir_entry_bytes e) sec"])
  next
    case False
    then have "i * 24 + 24 \<le> j * 24 \<or> j * 24 + length (dir_entry_bytes e) \<le> i * 24"
      using assms(3) by (simp add: length_dir_entry_bytes) linarith
    then have "slice (i * 24) 24 (splice (j * 24) (dir_entry_bytes e) sec) = slice (i * 24) 24 sec"
      by (rule slice_splice_other [OF _ le])
    then show ?thesis using False le li by (simp add: entry_at_def read_dir_entry_slice)
  qed
  then show "sec_entries (splice (j * 24) (dir_entry_bytes e) sec) ! i = (sec_entries sec)[j := e] ! i"
    using i assms(2) by (simp add: sec_entries_def nth_list_update)
qed (simp add: sec_entries_def)

lemma length_sec_entries [simp]: "length (sec_entries sec) = 21"
  by (simp add: sec_entries_def)

lemma sec_entries_nth: "j < 21 \<Longrightarrow> sec_entries sec ! j = entry_at sec j"
  by (simp add: sec_entries_def)

lemma sec_entries_zero: "sec_entries (replicate SECTOR_SIZE 0) = replicate 21 zero_entry"
proof (rule nth_equalityI)
  fix i assume "i < length (sec_entries (replicate SECTOR_SIZE 0))"
  then have i: "i < 21" by simp
  then show "sec_entries (replicate SECTOR_SIZE 0) ! i = replicate 21 zero_entry ! i"
    by (simp add: sec_entries_def entry_at_def read_dir_entry_def zero_entry_def rd32_zeros)
qed simp

lemma zero_entry_sane [simp]: "entry_sane zero_entry"
  by (simp add: entry_sane_def zero_entry_def wf_dir_entry_def name_of_def dir_entry_bytes_def cstr_def)

section \<open>The entries of a directory\<close>

definition dir_entries :: "image \<Rightarrow> nat list \<Rightarrow> dir_entry list" where
  "dir_entries d bs = concat (map (\<lambda>b. if b = 0 then [] else sec_entries (sectors d b 1)) bs)"

definition live :: "image \<Rightarrow> nat list \<Rightarrow> dir_entry list" where
  "live d bs = filter (\<lambda>e. f_type e \<noteq> 0) (dir_entries d bs)"

definition find_name :: "u8 list \<Rightarrow> dir_entry list \<Rightarrow> dir_entry option" where
  "find_name nm es = find (\<lambda>e. name_of e = nm) es"

definition sane_blocks :: "image \<Rightarrow> nat list \<Rightarrow> bool" where
  "sane_blocks d bs \<longleftrightarrow> (\<forall>e \<in> set (dir_entries d bs). entry_sane e)"

lemma dir_entries_simps [simp]:
  "dir_entries d [] = []"
  "dir_entries d (b # bs) = (if b = 0 then [] else sec_entries (sectors d b 1)) @ dir_entries d bs"
  "dir_entries d (bs @ cs) = dir_entries d bs @ dir_entries d cs"
  "dir_entries d (replicate n 0) = []"
  by (simp_all add: dir_entries_def)

lemma live_simps [simp]:
  "live d [] = []" "live d (0 # bs) = live d bs" "live d (bs @ cs) = live d bs @ live d cs"
  by (simp_all add: live_def)

lemma sane_blocks_simps [simp]:
  "sane_blocks d []" "sane_blocks d (0 # bs) \<longleftrightarrow> sane_blocks d bs"
  "sane_blocks d (bs @ cs) \<longleftrightarrow> sane_blocks d bs \<and> sane_blocks d cs"
  "b \<noteq> 0 \<Longrightarrow> sane_blocks d (b # bs) \<longleftrightarrow> (\<forall>e \<in> set (sec_entries (sectors d b 1)). entry_sane e) \<and> sane_blocks d bs"
  by (auto simp: sane_blocks_def)

lemma dir_entries_cong:
  "\<forall>b \<in> set bs. b \<noteq> 0 \<longrightarrow> sectors d' b 1 = sectors d b 1 \<Longrightarrow> dir_entries d' bs = dir_entries d bs"
  by (induction bs) auto

lemma find_append: "find P (xs @ ys) = (case find P xs of None \<Rightarrow> find P ys | Some x \<Rightarrow> Some x)"
  by (induction xs) auto

lemma find_map_index: "find P (map f xs) = map_option f (find (\<lambda>j. P (f j)) xs)"
  by (induction xs) auto

lemma find_cong_upt: "(\<And>j. j < n \<Longrightarrow> P j \<longleftrightarrow> Q j) \<Longrightarrow> find P [0..<n] = find Q [0..<n]"
  by (rule find_cong) auto

text \<open>A free entry has no name, so a lookup only sees the entries in use.\<close>

lemma find_live:
  assumes "nm \<noteq> []" "\<forall>e \<in> set es. entry_sane e"
  shows "find_name nm (filter (\<lambda>e. f_type e \<noteq> 0) es) = find_name nm es"
  using assms(2) by (induction es) (use assms(1) in \<open>auto simp: find_name_def entry_sane_def\<close>)

lemma per_sec_24: "dir_entry_size (sb k) = 24 \<Longrightarrow> per_sec k = 21 \<and> per_sec_ok k \<and> entry_ok k"
  by (simp add: per_sec_def per_sec_ok_def entry_ok_def)

definition readable :: "nat list \<Rightarrow> bool" where
  "readable bs \<longleftrightarrow> (\<forall>b \<in> set bs. b \<noteq> 0 \<longrightarrow> b + 1 \<le> max_lba)"

lemma search_blocks_find:
  assumes "dir_entry_size (sb k) = 24" "wf_image (disk_image k)" "readable bs" "sane_blocks (disk_image k) bs"
  shows "search_blocks nm bs k = Inr (find_name nm (dir_entries (disk_image k) bs))"
  using assms(3,4)
proof (induction bs)
  case Nil
  then show ?case by (simp add: find_name_def)
next
  case (Cons b bs)
  show ?case
  proof (cases "b = 0")
    case True
    then show ?thesis using Cons by (simp add: readable_def)
  next
    case False
    let ?sec = "sectors (disk_image k) b 1"
    have ih: "search_blocks nm bs k = Inr (find_name nm (dir_entries (disk_image k) bs))"
      using Cons False by (simp add: readable_def)
    have rd: "disk_read b 1 k = Inr ?sec" using Cons.prems(1) False by (intro disk_read_region) (simp_all add: readable_def)
    have len: "length ?sec = SECTOR_SIZE" using assms(2) by simp
    have sane: "f_type (entry_at ?sec j) \<le> 2" if "j < 21" for j
      using Cons.prems(2) False that by (auto simp: sec_entries_def entry_sane_def)
    have "find (\<lambda>j. entry_name ?sec j = nm) [0..<21] = find (\<lambda>j. name_of (entry_at ?sec j) = nm) [0..<21]"
      by (rule find_cong_upt) (simp only: entry_name_at [OF len _ sane])
    then have "find_name nm (sec_entries ?sec) = map_option (entry_at ?sec) (find (\<lambda>j. entry_name ?sec j = nm) [0..<21])"
      by (simp add: find_name_def sec_entries_def find_map_index del: upt_rec_numeral upt_Suc)
    then have "find_name nm (dir_entries (disk_image k) (b # bs)) =
        (case find (\<lambda>j. entry_name ?sec j = nm) [0..<21] of
           Some j \<Rightarrow> Some (entry_at ?sec j) | None \<Rightarrow> find_name nm (dir_entries (disk_image k) bs))"
      using False by (simp add: find_name_def find_append split: option.splits)
    then show ?thesis using False rd ih per_sec_24 [OF assms(1)]
      by (simp del: dir_entries_simps upt_rec_numeral upt_Suc split: option.splits)
  qed
qed

section \<open>Sound directories\<close>

text \<open>
  A directory of at most 12 blocks: its blocks are different and in use, its entries sound, and
  its size counts the entries in use.
\<close>

definition block_in_use :: "fsk \<Rightarrow> nat \<Rightarrow> bool" where
  "block_in_use k b \<longleftrightarrow> data_start_lba (sb k) \<le> b \<and> b - data_start_lba (sb k) \<in> used (block_bitmap k)"

definition blocks_fit :: "fsk \<Rightarrow> bool" where
  "blocks_fit k \<longleftrightarrow> 0 < data_start_lba (sb k) \<and> data_start_lba (sb k) + nbits (block_bitmap k) \<le> max_lba"

definition dir_ok :: "fsk \<Rightarrow> inode \<Rightarrow> bool" where
  "dir_ok k i \<longleftrightarrow> wf_inode i \<and> i_sectors i ! 12 = 0 \<and>
     distinct (filter (\<lambda>b. b \<noteq> 0) (take 12 (i_sectors i))) \<and>
     (\<forall>b \<in> set (take 12 (i_sectors i)). b \<noteq> 0 \<longrightarrow> block_in_use k b) \<and>
     sane_blocks (disk_image k) (take 12 (i_sectors i)) \<and>
     i_size i = 24 * length (live (disk_image k) (take 12 (i_sectors i)))"

abbreviation entries_of :: "fsk \<Rightarrow> inode \<Rightarrow> dir_entry list" where
  "entries_of k i \<equiv> live (disk_image k) (take 12 (i_sectors i))"

lemma block_in_use_le: "blocks_fit k \<Longrightarrow> block_in_use k b \<Longrightarrow> b + 1 \<le> max_lba"
  by (auto simp: blocks_fit_def block_in_use_def used_def)

lemma dir_ok_readable: "dir_ok k i \<Longrightarrow> blocks_fit k \<Longrightarrow> readable (take 12 (i_sectors i))"
  using block_in_use_le by (auto simp: dir_ok_def readable_def)

lemma search_dir_entry_find:
  assumes "fs_ok k" "blocks_fit k" "mallocs k = []" "dirs k pd = Some dd" "inodes k (dir_inode dd) = Some i" "dir_ok k i" "nm \<noteq> []"
  shows "search_dir_entry pd nm k = Inr (find_name nm (entries_of k i), k)"
proof -
  have de: "dir_entry_size (sb k) = 24" and wf: "wf_image (disk_image k)" using assms(1) by (simp_all add: fs_ok_def table_ok_def)
  let ?bs = "take 12 (i_sectors i)"
  have ab: "all_blocks i k = Inr (?bs @ replicate 128 0)" using assms(6) by (simp add: all_blocks_def dir_ok_def)
  have sane: "sane_blocks (disk_image k) ?bs" using assms(6) by (simp add: dir_ok_def)
  then have sane': "sane_blocks (disk_image k) (?bs @ replicate 128 0)" by (simp add: sane_blocks_def)
  have rd: "readable (?bs @ replicate 128 0)"
    using dir_ok_readable [OF assms(6,2)] by (auto simp: readable_def)
  have "search_blocks nm (?bs @ replicate 128 0) k = Inr (find_name nm (dir_entries (disk_image k) ?bs))"
    using search_blocks_find [OF de wf rd sane'] by simp
  also have "find_name nm (dir_entries (disk_image k) ?bs) = find_name nm (entries_of k i)"
    using find_live [OF assms(7)] sane by (simp add: live_def sane_blocks_def)
  finally show ?thesis using assms(3-5) ab per_sec_24 [OF de]
    by (simp add: search_dir_entry_def heap_reply_def get_dir_def get_inode_def)
qed

section \<open>A new block\<close>

text \<open>\<open>k'\<close> differs from \<open>k\<close> in the block bitmap, on disk and in memory, and in data blocks.\<close>

definition same_but_blocks :: "fsk \<Rightarrow> fsk \<Rightarrow> bool" where
  "same_but_blocks k k' \<longleftrightarrow> k' = k\<lparr>block_bitmap := block_bitmap k', disk_image := disk_image k'\<rparr>"

lemma same_but_blocks_simps:
  assumes "same_but_blocks k k'"
  shows "sb k' = sb k" "inodes k' = inodes k" "dirs k' = dirs k" "mallocs k' = mallocs k" "start_lba k' = start_lba k"
    "part_sec_cnt k' = part_sec_cnt k" "open_inodes k' = open_inodes k" "inode_bitmap k' = inode_bitmap k"
    "next_addr k' = next_addr k" "file_table k' = file_table k" "fd_table k' = fd_table k"
  using assms by (cases k; cases k'; simp add: same_but_blocks_def)+

lemma sub32_add: "ds + i < 2 ^ 32 \<Longrightarrow> sub32 (ds + i) ds = i"
  by (simp add: sub32_le)

lemma new_block_ok:
  assumes ok: "fs_ok k" "blocks_synced k" "blocks_fit k" and free: "used (block_bitmap k) \<noteq> {..<nbits (block_bitmap k)}"
    and okp: "\<forall>i < nbits (block_bitmap k). i \<notin> used (block_bitmap k) \<longrightarrow> okp i"
  shows "\<exists>i k'. new_block okp k = Inr (int (data_start_lba (sb k) + i), k') \<and> i < nbits (block_bitmap k) \<and>
    i \<notin> used (block_bitmap k) \<and> fs_ok k' \<and> blocks_synced k' \<and> blocks_fit k' \<and> same_but_blocks k k' \<and>
    nbits (block_bitmap k') = nbits (block_bitmap k) \<and> used (block_bitmap k') = insert i (used (block_bitmap k)) \<and>
    (\<forall>T N. data_start_lba (sb k) \<le> T \<longrightarrow> sectors (disk_image k') T N = sectors (disk_image k) T N) \<and>
    (\<forall>T N. block_bitmap_lba (sb k) + block_bitmap_sects (sb k) \<le> T \<longrightarrow> sectors (disk_image k') T N = sectors (disk_image k) T N)"
proof -
  let ?ds = "data_start_lba (sb k)"
  have wfb: "wf_bitmap (block_bitmap k)" using ok(1) by (simp add: fs_ok_def)
  obtain i where i: "bitmap_scan (block_bitmap k) 1 = Inr (int i)" "i < nbits (block_bitmap k)" "i \<notin> used (block_bitmap k)"
    using bitmap_scan_one_cases [OF wfb] free by auto
  obtain b k' where s: "bitmap_set (block_bitmap k) i 1 = Inr b"
    "bitmap_sync i BLOCK_BITMAP (k\<lparr>block_bitmap := b\<rparr>) = Inr k'"
    "k' = k\<lparr>block_bitmap := b, disk_image := disk_image k'\<rparr>" "fs_ok k'" "blocks_synced k'"
    "nbits b = nbits (block_bitmap k)"
    "used b = (if (1::nat) = 1 then insert i (used (block_bitmap k)) else used (block_bitmap k) - {i})"
    "\<And>T N. block_bitmap_lba (sb k) + block_bitmap_sects (sb k) \<le> T \<Longrightarrow>
       sectors (disk_image k') T N = sectors (disk_image k) T N"
    by (rule block_bit_sync [OF ok(1,2) i(2), of 1]) (simp, blast)
  have bk: "block_bitmap k' = b" using s(3) by (metis fsk.select_convs(5) fsk.surjective fsk.update_convs(1,5))
  have same: "same_but_blocks k k'" unfolding same_but_blocks_def bk by (rule s(3))
  have lt: "?ds + i < 2 ^ 32" using ok(3) i(2) by (simp add: blocks_fit_def)
  have run: "new_block okp k = Inr (int (?ds + i), k')"
    using i(1) s(1,2) sub32_add [OF lt] okp i(2,3)
    by (simp add: new_block_def block_bitmap_alloc_def Let_def flip: of_nat_add)
  have fit: "blocks_fit k'" using ok(3) s(6) same_but_blocks_simps [OF same] by (simp add: blocks_fit_def bk)
  have le: "block_bitmap_lba (sb k) + block_bitmap_sects (sb k) \<le> ?ds" using ok(1) by (simp add: fs_ok_def)
  have "\<forall>T N. ?ds \<le> T \<longrightarrow> sectors (disk_image k') T N = sectors (disk_image k) T N"
    using s(8) le by (meson order_trans)
  then show ?thesis using run i(2,3) s(4-8) same fit bk
    by (intro exI [of _ i] exI [of _ k']) simp
qed

section \<open>Adding an entry\<close>

lemma live_zero: "filter (\<lambda>e. f_type e \<noteq> 0) (replicate n zero_entry) = []"
  by (simp add: zero_entry_def)

lemma live_one: "b \<noteq> 0 \<Longrightarrow> live d [b] = filter (\<lambda>e. f_type e \<noteq> 0) (sec_entries (sectors d b 1))"
  by (simp add: live_def)

text \<open>The list of entries in use, with one more at some place.\<close>

definition inserted :: "'b \<Rightarrow> 'b list \<Rightarrow> 'b list \<Rightarrow> bool" where
  "inserted e es es' \<longleftrightarrow> (\<exists>xs ys. es = xs @ ys \<and> es' = xs @ e # ys)"

lemma inserted_mset: "inserted e es es' \<Longrightarrow> mset es' = add_mset e (mset es)"
  by (auto simp: inserted_def)

lemma inserted_length: "inserted e es es' \<Longrightarrow> length es' = Suc (length es)"
  by (auto simp: inserted_def)

lemma inserted_context: "inserted e es es' \<Longrightarrow> inserted e (as @ es @ bs) (as @ es' @ bs)"
proof -
  assume "inserted e es es'"
  then obtain xs ys where "es = xs @ ys" "es' = xs @ e # ys" by (auto simp: inserted_def)
  then have "as @ es @ bs = (as @ xs) @ (ys @ bs)" "as @ es' @ bs = (as @ xs) @ e # (ys @ bs)" by simp_all
  then show ?thesis unfolding inserted_def by blast
qed

lemma inserted_update:
  assumes "j < length es" "f_type (es ! j) = 0" "f_type e \<noteq> 0"
  shows "inserted e (filter (\<lambda>e. f_type e \<noteq> 0) es) (filter (\<lambda>e. f_type e \<noteq> 0) (es[j := e]))"
proof -
  have "es = take j es @ es ! j # drop (Suc j) es" using assms(1) by (rule id_take_nth_drop)
  then have "filter (\<lambda>e. f_type e \<noteq> 0) es =
      filter (\<lambda>e. f_type e \<noteq> 0) (take j es) @ filter (\<lambda>e. f_type e \<noteq> 0) (drop (Suc j) es)"
    using assms(2) by (metis (mono_tags, lifting) filter.simps(2) filter_append)
  moreover have "filter (\<lambda>e. f_type e \<noteq> 0) (es[j := e]) =
      filter (\<lambda>e. f_type e \<noteq> 0) (take j es) @ e # filter (\<lambda>e. f_type e \<noteq> 0) (drop (Suc j) es)"
    using assms(1,3) by (simp add: upd_conv_take_nth_drop)
  ultimately show ?thesis unfolding inserted_def by blast
qed

lemma find_name_inserted:
  assumes "inserted e es es'" "find_name (name_of e) es = None"
  shows "find_name nm es' = (if nm = name_of e then Some e else find_name nm es)"
proof -
  obtain xs ys where "es = xs @ ys" "es' = xs @ e # ys" using assms(1) by (auto simp: inserted_def)
  then show ?thesis using assms(2) by (auto simp: find_name_def find_append split: option.splits)
qed

text \<open>Writing a sector of the data region.\<close>

lemma data_write:
  assumes "fs_ok k" "blocks_synced k" "data_start_lba (sb k) \<le> b" "b + 1 \<le> max_lba" "length bs = SECTOR_SIZE"
  shows "\<exists>d. disk_write b bs 1 k = Inr (k\<lparr>disk_image := d\<rparr>) \<and> fs_ok (k\<lparr>disk_image := d\<rparr>) \<and>
    blocks_synced (k\<lparr>disk_image := d\<rparr>) \<and> sectors d b 1 = bs \<and>
    (\<forall>T. T \<noteq> b \<longrightarrow> sectors d T 1 = sectors (disk_image k) T 1) \<and>
    (\<forall>T N. T + N \<le> data_start_lba (sb k) \<longrightarrow> sectors d T N = sectors (disk_image k) T N)"
proof -
  have wf: "wf_image (disk_image k)" using assms(1) by (simp add: fs_ok_def table_ok_def)
  have p: "0 < (1 :: nat)" "1 * SECTOR_SIZE \<le> length bs" using assms(5) by simp_all
  obtain d where d: "disk_write b bs 1 k = Inr (k\<lparr>disk_image := d\<rparr>)" "wf_image d"
    "sectors d b 1 = take (1 * SECTOR_SIZE) bs"
    "\<forall>T N. T + N \<le> b \<or> b + 1 \<le> T \<longrightarrow> sectors d T N = sectors (disk_image k) T N"
    using write_region [OF wf p(1) assms(4) p(2)] by (elim exE conjE) (rule that)
  have low: "\<forall>T N. T + N \<le> data_start_lba (sb k) \<longrightarrow> sectors d T N = sectors (disk_image k) T N"
    using d(4) assms(3) by (meson order_trans)
  have oth: "\<forall>T. T \<noteq> b \<longrightarrow> sectors d T 1 = sectors (disk_image k) T 1"
  proof (intro allI impI)
    fix T assume "T \<noteq> b"
    then have "T + 1 \<le> b \<or> b + 1 \<le> T" by linarith
    then show "sectors d T 1 = sectors (disk_image k) T 1" using d(4) by blast
  qed
  have ok: "fs_ok (k\<lparr>disk_image := d\<rparr>)" using assms(1) d(2) by (simp add: fs_ok_def table_ok_def)
  have "block_bitmap_lba (sb k) + block_bitmap_sects (sb k) \<le> data_start_lba (sb k)"
    using assms(1) by (simp add: fs_ok_def)
  then have sy: "blocks_synced (k\<lparr>disk_image := d\<rparr>)" using assms(2) low by (simp add: blocks_synced_def)
  have same: "sectors d b 1 = bs" using d(3) assms(5) by simp
  show ?thesis using d(1) ok sy same oth low by blast
qed

definition entry_added :: "fsk \<Rightarrow> nat \<Rightarrow> inode \<Rightarrow> dir_entry \<Rightarrow> fsk \<Rightarrow> bool" where
  "entry_added k a i e k' \<longleftrightarrow>
     (\<exists>i'. inodes k' = (inodes k)(a \<mapsto> i') \<and> i_no i' = i_no i \<and> i_open_cnts i' = i_open_cnts i \<and> dir_ok k' i' \<and>
       inserted e (entries_of k i) (entries_of k' i')) \<and>
     fs_ok k' \<and> blocks_synced k' \<and> blocks_fit k' \<and> sb k' = sb k \<and> dirs k' = dirs k \<and> mallocs k' = mallocs k \<and>
     open_inodes k' = open_inodes k \<and> inode_bitmap k' = inode_bitmap k \<and> table_region k' = table_region k \<and>
     (\<forall>b. block_in_use k b \<and> b \<notin> set (take 12 (i_sectors i)) \<longrightarrow>
        block_in_use k' b \<and> sectors (disk_image k') b 1 = sectors (disk_image k) b 1)"

lemma length_dir_entries: "length (dir_entries d bs) \<le> 21 * length bs"
  by (induction bs) auto

lemma length_live: "length (live d bs) \<le> 21 * length bs"
  unfolding live_def using length_filter_le length_dir_entries by (rule le_trans)

lemma split_at: "m < length bs \<Longrightarrow> bs = take m bs @ [bs ! m] @ drop (Suc m) bs"
  using id_take_nth_drop [of m bs] by simp

text \<open>
  The list of a directory's entries after one block has been rewritten or put in; \<open>b\<close> occurs
  nowhere else.
\<close>

lemma rewrite_block:
  assumes m: "m < length bs" and b: "b \<noteq> 0" "b \<notin> set (take m bs)" "b \<notin> set (drop (Suc m) bs)"
    and d: "\<forall>T. T \<noteq> b \<longrightarrow> sectors d' T 1 = sectors d T 1"
    and ins: "inserted e (live d [bs ! m]) (live d' [b])"
    and sane: "sane_blocks d bs" "\<forall>e \<in> set (sec_entries (sectors d' b 1)). entry_sane e"
  shows "inserted e (live d bs) (live d' (bs[m := b]))" "sane_blocks d' (bs[m := b])"
proof -
  let ?p = "take m bs" and ?q = "drop (Suc m) bs"
  have e: "dir_entries d' ?p = dir_entries d ?p" "dir_entries d' ?q = dir_entries d ?q"
    using d b by (intro dir_entries_cong; auto)+
  have bs: "bs = ?p @ [bs ! m] @ ?q" "bs[m := b] = ?p @ [b] @ ?q"
    using split_at [OF m] m by (simp_all add: upd_conv_take_nth_drop)
  have l: "live d bs = live d ?p @ live d [bs ! m] @ live d ?q" by (subst bs(1)) (simp only: live_simps)
  have "live d' (bs[m := b]) = live d ?p @ live d' [b] @ live d ?q"
    by (subst bs(2)) (simp only: live_simps, simp add: live_def e)
  then show "inserted e (live d bs) (live d' (bs[m := b]))"
    unfolding l using inserted_context [OF ins] by simp
  have "sane_blocks d (?p @ [bs ! m] @ ?q)" by (rule subst [where P = "sane_blocks d", OF bs(1) sane(1)])
  then have "sane_blocks d ?p" "sane_blocks d ?q" by (simp_all only: sane_blocks_simps)
  then have "sane_blocks d' ?p" "sane_blocks d' ?q" using e by (simp_all add: sane_blocks_def)
  then show "sane_blocks d' (bs[m := b])" using sane(2) b(1) by (subst bs(2)) simp
qed

lemma distinct_exchange:
  "distinct (filter P (xs @ [x] @ ys)) \<Longrightarrow> b \<notin> set xs \<Longrightarrow> b \<notin> set ys \<Longrightarrow> distinct (filter P (xs @ [b] @ ys))"
  by (auto split: if_splits)

text \<open>
  The last steps of \<open>sync_dir_entry\<close>: the sector with the new entry is written and the size goes
  up. \<open>k1\<close> is the state in which the directory's block \<open>m\<close> is \<open>b\<close>.
\<close>

lemma finish_entry:
  assumes i: "dir_ok k i" "inodes k a = Some i"
    and k1: "fs_ok k1" "blocks_synced k1" "blocks_fit k1" "sb k1 = sb k" "dirs k1 = dirs k" "mallocs k1 = mallocs k"
      "open_inodes k1 = open_inodes k" "inode_bitmap k1 = inode_bitmap k" "table_region k1 = table_region k"
      "inodes k1 = (inodes k)(a \<mapsto> i\<lparr>i_sectors := (i_sectors i)[m := b]\<rparr>)"
      "used (block_bitmap k) \<subseteq> used (block_bitmap k1)" "block_in_use k1 b"
      "\<forall>T. data_start_lba (sb k) \<le> T \<longrightarrow> sectors (disk_image k1) T 1 = sectors (disk_image k) T 1"
    and m: "m < 12" "b \<noteq> 0" "\<forall>n < 12. n \<noteq> m \<longrightarrow> i_sectors i ! n \<noteq> b"
      "\<forall>c. block_in_use k c \<and> c \<notin> set (take 12 (i_sectors i)) \<longrightarrow> c \<noteq> b"
    and sec: "length sec = SECTOR_SIZE" "\<forall>e \<in> set (sec_entries sec). entry_sane e"
      "inserted e (live (disk_image k) [i_sectors i ! m]) (filter (\<lambda>e. f_type e \<noteq> 0) (sec_entries sec))"
  shows "\<exists>k'. bnd (disk_write b sec 1 k1) (\<lambda>k. bnd (add_size a (dir_entry_size (sb k)) k) (\<lambda>k. Inr (True, k))) = Inr (True, k') \<and>
    entry_added k a i e k'"
proof -
  let ?bs = "take 12 (i_sectors i)" and ?ds = "data_start_lba (sb k)"
  have len13: "length (i_sectors i) = 13" and wfi: "wf_inode i" using i(1) by (simp_all add: dir_ok_def wf_inode_def)
  have de: "dir_entry_size (sb k) = 24" using k1(1,4) by (simp add: fs_ok_def)
  have b: "?ds \<le> b" "b + 1 \<le> max_lba" using k1(3,4,12) block_in_use_le by (auto simp: block_in_use_def)
  obtain d where d: "disk_write b sec 1 k1 = Inr (k1\<lparr>disk_image := d\<rparr>)" "fs_ok (k1\<lparr>disk_image := d\<rparr>)"
    "blocks_synced (k1\<lparr>disk_image := d\<rparr>)" "sectors d b 1 = sec"
    "\<forall>T. T \<noteq> b \<longrightarrow> sectors d T 1 = sectors (disk_image k1) T 1"
    "\<forall>T N. T + N \<le> data_start_lba (sb k1) \<longrightarrow> sectors d T N = sectors (disk_image k1) T N"
    using data_write [OF k1(1,2) _ b(2) sec(1)] b(1) unfolding k1(4) by blast
  have use: "block_in_use k1 c" if "block_in_use k c" for c
    using that k1(4,11) by (auto simp: block_in_use_def)
  have bu: "\<forall>c \<in> set ?bs. c \<noteq> 0 \<longrightarrow> block_in_use k c" using i(1) by (simp add: dir_ok_def)
  have pre: "dir_entries (disk_image k1) cs = dir_entries (disk_image k) cs" if "set cs \<subseteq> set ?bs" for cs
    using k1(13) bu that by (intro dir_entries_cong) (auto simp: block_in_use_def)
  have mem: "i_sectors i ! m \<in> set ?bs" using m(1) len13 by (simp add: in_set_conv_nth) (metis nth_take)
  have ins: "inserted e (live (disk_image k1) [?bs ! m]) (live d [b])"
    using sec(3) live_one [OF m(2)] d(4) m(1) pre [of "[i_sectors i ! m]"] mem by (simp add: live_def)
  have sane: "sane_blocks (disk_image k1) ?bs" using i(1) pre [of ?bs] by (simp add: dir_ok_def sane_blocks_def)
  have sn: "\<forall>e \<in> set (sec_entries (sectors d b 1)). entry_sane e" using sec(2) d(4) by simp
  have nb: "b \<notin> set (take m ?bs)" "b \<notin> set (drop (Suc m) ?bs)"
    using m(1,3) len13 by (auto simp: in_set_conv_nth)
  have lm: "m < length ?bs" using m(1) len13 by simp
  note R = rewrite_block [OF lm m(2) nb d(5) ins sane sn]
  let ?i' = "i\<lparr>i_sectors := (i_sectors i)[m := b], i_size := (i_size i + 24) mod 2 ^ 32\<rparr>"
  let ?k' = "k1\<lparr>disk_image := d, inodes := (inodes k)(a \<mapsto> ?i')\<rparr>"
  have run: "bnd (disk_write b sec 1 k1) (\<lambda>k. bnd (add_size a (dir_entry_size (sb k)) k) (\<lambda>k. Inr (True, k))) = Inr (True, ?k')"
    using d(1) k1(4,10) de by (simp add: add_size_def get_inode_def set_inode_def)
  have t12: "take 12 ((i_sectors i)[m := b]) = ?bs[m := b]" using m(1) by (simp add: take_update_swap)
  have ins': "inserted e (entries_of k i) (live d (?bs[m := b]))"
    using R(1) pre [of ?bs] by (simp add: live_def)
  have size: "(i_size i + 24) mod 2 ^ 32 = 24 * length (live d (?bs[m := b]))"
  proof -
    have "i_size i = 24 * length (entries_of k i)" using i(1) by (simp add: dir_ok_def)
    moreover have "length (entries_of k i) \<le> 21 * 12" using length_live [of "disk_image k" ?bs] len13 by simp
    ultimately show ?thesis using inserted_length [OF ins'] by simp
  qed
  have bound: "\<forall>s \<in> set ((i_sectors i)[m := b]). s < 2 ^ 32"
    using wfi b(2) by (auto simp: wf_inode_def dest!: subsetD [OF set_update_subset_insert])
  have dist: "distinct (filter (\<lambda>b. b \<noteq> 0) (?bs[m := b]))"
  proof -
    have "?bs = take m ?bs @ [?bs ! m] @ drop (Suc m) ?bs" by (rule split_at [OF lm])
    moreover have "distinct (filter (\<lambda>b. b \<noteq> 0) ?bs)" using i(1) by (simp add: dir_ok_def)
    ultimately have "distinct (filter (\<lambda>b. b \<noteq> 0) (take m ?bs @ [?bs ! m] @ drop (Suc m) ?bs))" by metis
    then have "distinct (filter (\<lambda>b. b \<noteq> 0) (take m ?bs @ [b] @ drop (Suc m) ?bs))"
      using nb by (rule distinct_exchange)
    then show ?thesis using lm by (simp add: upd_conv_take_nth_drop)
  qed
  have ok': "dir_ok ?k' ?i'"
  proof -
    have "wf_inode ?i'" using wfi bound by (simp add: wf_inode_def)
    moreover have "i_sectors ?i' ! 12 = 0" using i(1) m(1) by (simp add: dir_ok_def)
    moreover have "block_in_use ?k' c" if "c \<in> set (?bs[m := b])" "c \<noteq> 0" for c
    proof -
      have "c = b \<or> c \<in> set ?bs" using that(1) set_update_subset_insert by fast
      then have "block_in_use k1 c" using k1(12) use bu that(2) by blast
      then show ?thesis by (simp add: block_in_use_def)
    qed
    ultimately show ?thesis using dist R(2) size by (simp add: dir_ok_def t12)
  qed
  have fs': "fs_ok ?k'" "blocks_synced ?k'" "blocks_fit ?k'"
    using d(2,3) k1(3) by (simp_all add: fs_ok_def table_ok_def blocks_synced_def blocks_fit_def)
  have tr: "table_region ?k' = table_region k"
  proof -
    have "inode_table_lba (sb k1) + 608 \<le> data_start_lba (sb k1)" using k1(1) by (simp add: fs_ok_def)
    then show ?thesis using d(6) k1(9) by (simp add: table_region_def)
  qed
  have other: "block_in_use ?k' c \<and> sectors (disk_image ?k') c 1 = sectors (disk_image k) c 1"
    if c: "block_in_use k c" "c \<notin> set ?bs" for c
  proof -
    have "block_in_use k1 c" "c \<noteq> b" "?ds \<le> c" using use c m(4) by (auto simp: block_in_use_def)
    then show ?thesis using d(5) k1(13) by (simp add: block_in_use_def)
  qed
  have "entry_added k a i e ?k'"
    unfolding entry_added_def
  proof (intro conjI exI [of _ ?i'])
    show "inserted e (entries_of k i) (entries_of ?k' ?i')" using ins' by (simp add: t12)
  qed (use fs' ok' tr other k1 in \<open>simp_all\<close>)
  with run show ?thesis by blast
qed

lemma distinct_filter_nth:
  "distinct (filter P xs) \<Longrightarrow> i < length xs \<Longrightarrow> j < length xs \<Longrightarrow> i \<noteq> j \<Longrightarrow> xs ! i = xs ! j \<Longrightarrow> \<not> P (xs ! i)"
proof (induction xs arbitrary: i j)
  case (Cons x xs)
  show ?case
  proof (cases i; cases j)
    fix i' j' assume "i = Suc i'" "j = Suc j'"
    then show ?thesis using Cons.IH [of i' j'] Cons.prems by (auto split: if_splits)
  qed (use Cons.prems in \<open>auto split: if_splits\<close>)
qed simp

text \<open>Case 1: the block is there and has a free entry.\<close>

lemma sync_in_block:
  assumes k: "fs_ok k" "blocks_synced k" "blocks_fit k" and i: "dir_ok k i" "inodes k a = Some i"
    and m: "m < 12" "i_sectors i ! m \<noteq> 0"
    and e: "entry_sane e" "f_type e \<noteq> 0"
    and free: "find (\<lambda>j. f_type (entry_at (sectors (disk_image k) (i_sectors i ! m) 1) j) = 0) [0..<21] = Some j"
    and all: "all = take 12 (i_sectors i) @ replicate 128 0"
  shows "\<exists>k'. sync_blocks a e all (m # todo) k = Inr (True, k') \<and> entry_added k a i e k'"
proof -
  let ?b = "i_sectors i ! m" and ?d = "disk_image k"
  let ?sec = "sectors ?d ?b 1"
  have len13: "length (i_sectors i) = 13" using i(1) by (simp add: dir_ok_def wf_inode_def)
  have de: "dir_entry_size (sb k) = 24" and wf: "wf_image ?d" using k(1) by (simp_all add: fs_ok_def table_ok_def)
  have j: "j < 21" "f_type (entry_at ?sec j) = 0"
    using free by (auto simp: find_Some_iff simp del: upt_rec_numeral)
  have allm: "all ! m = ?b" using all m(1) len13 by (simp add: nth_append)
  have mem: "?b \<in> set (take 12 (i_sectors i))" using m(1) len13 by (simp add: in_set_conv_nth) (metis nth_take)
  have use: "block_in_use k ?b" using i(1) mem m(2) by (simp add: dir_ok_def)
  have rd: "disk_read ?b 1 k = Inr ?sec" using block_in_use_le [OF k(3) use] by (intro disk_read_region) simp_all
  have ls: "length ?sec = SECTOR_SIZE" using wf by simp
  have we: "wf_dir_entry e" using e(1) by (simp add: entry_sane_def)
  let ?new = "splice (j * DIR_ENTRY_BYTES) (dir_entry_bytes e) ?sec"
  have ln: "length ?new = SECTOR_SIZE" using ls j(1) we by simp
  have se: "sec_entries ?new = (sec_entries ?sec)[j := e]" by (rule sec_entries_splice [OF ls j(1) we])
  have "sane_blocks ?d [?b]"
    using i(1) mem m(2) by (auto simp: dir_ok_def sane_blocks_def dir_entries_def)
  then have sane: "\<forall>e \<in> set (sec_entries ?sec). entry_sane e" using m(2) by simp
  have ins: "inserted e (live ?d [?b]) (filter (\<lambda>e. f_type e \<noteq> 0) (sec_entries ?new))"
    unfolding live_one [OF m(2)] se using j e(2) by (intro inserted_update) (simp_all add: sec_entries_nth)
  have sn: "\<forall>e \<in> set (sec_entries ?new). entry_sane e"
    unfolding se using sane e(1) set_update_subset_insert by fast
  have dist: "\<forall>n < 12. n \<noteq> m \<longrightarrow> i_sectors i ! n \<noteq> ?b"
  proof (intro allI impI notI)
    fix n assume n: "n < 12" "n \<noteq> m" "i_sectors i ! n = ?b"
    have "distinct (filter (\<lambda>b. b \<noteq> 0) (take 12 (i_sectors i)))" using i(1) by (simp add: dir_ok_def)
    from distinct_filter_nth [OF this, of n m] show False using n m len13 by simp
  qed
  have eb: "entry_bytes e k = dir_entry_bytes e" using we by (simp add: entry_bytes_def de)
  have run: "sync_blocks a e all (m # todo) k =
      bnd (disk_write ?b ?new 1 k) (\<lambda>k. bnd (add_size a (dir_entry_size (sb k)) k) (\<lambda>k. Inr (True, k)))"
    using allm m(2) rd free per_sec_24 [OF de] by (simp add: eb del: upt_rec_numeral One_nat_def)
  show ?thesis unfolding run
    by (rule finish_entry [OF i k, where m = m and sec = ?new]) (use m mem use ln sn ins dist in \<open>auto simp: i\<close>)
qed

text \<open>Case 2: the block is new.\<close>

lemma sync_new_block:
  assumes k: "fs_ok k" "blocks_synced k" "blocks_fit k" and i: "dir_ok k i" "inodes k a = Some i"
    and m: "m < 12" "i_sectors i ! m = 0"
    and e: "entry_sane e" "f_type e \<noteq> 0"
    and free: "used (block_bitmap k) \<noteq> {..<nbits (block_bitmap k)}"
    and all: "all = take 12 (i_sectors i) @ replicate 128 0"
  shows "\<exists>k'. sync_blocks a e all (m # todo) k = Inr (True, k') \<and> entry_added k a i e k'"
proof -
  let ?ds = "data_start_lba (sb k)"
  have len13: "length (i_sectors i) = 13" using i(1) by (simp add: dir_ok_def wf_inode_def)
  have de: "dir_entry_size (sb k) = 24" using k(1) by (simp add: fs_ok_def)
  have allm: "all ! m = 0" "m < length all" using all m len13 by (simp_all add: nth_append)
  obtain n k1 where n: "new_block (\<lambda>idx. idx \<noteq> 2 ^ 32 - 1) k = Inr (int (?ds + n), k1)" "n < nbits (block_bitmap k)"
    "n \<notin> used (block_bitmap k)" "fs_ok k1" "blocks_synced k1" "blocks_fit k1" "same_but_blocks k k1"
    "nbits (block_bitmap k1) = nbits (block_bitmap k)" "used (block_bitmap k1) = insert n (used (block_bitmap k))"
    "\<forall>T N. ?ds \<le> T \<longrightarrow> sectors (disk_image k1) T N = sectors (disk_image k) T N"
    "\<forall>T N. block_bitmap_lba (sb k) + block_bitmap_sects (sb k) \<le> T \<longrightarrow> sectors (disk_image k1) T N = sectors (disk_image k) T N"
  proof -
    have "\<forall>i < nbits (block_bitmap k). i \<notin> used (block_bitmap k) \<longrightarrow> i \<noteq> 2 ^ 32 - 1"
      using k(3) by (auto simp: blocks_fit_def)
    from new_block_ok [of k "\<lambda>idx. idx \<noteq> 2 ^ 32 - 1", OF k free this] show thesis by (elim exE conjE) (rule that)
  qed
  note same = same_but_blocks_simps [OF n(7)]
  let ?b = "?ds + n" and ?new = "splice 0 (dir_entry_bytes e) (replicate SECTOR_SIZE 0)"
  have we: "wf_dir_entry e" using e(1) by (simp add: entry_sane_def)
  have ln: "length ?new = SECTOR_SIZE" using we by simp
  have se: "sec_entries ?new = e # replicate 20 zero_entry"
    using sec_entries_splice [of "replicate SECTOR_SIZE 0" 0 e] we sec_entries_zero replicate_Suc [of 20 zero_entry]
    by simp
  let ?k2 = "set_inode a (i\<lparr>i_sectors := (i_sectors i)[m := ?b]\<rparr>) k1"
  have att: "attach_block a all m k = Inr (Some (all[m := ?b]), ?k2)"
  proof -
    have e1: "int (?ds + n) \<noteq> -1" "nat (int (?ds + n)) = ?ds + n" by simp_all
    show ?thesis unfolding attach_block_def n(1) bnd_Inr prod.case if_not_P [OF e1(1)] if_P [OF m(1)] e1(2)
      using len13 m(1) i(2) same(2) by (simp add: set_sector_def get_inode_def)
  qed
  have eb: "entry_bytes e ?k2 = dir_entry_bytes e" using we same(1) by (simp add: entry_bytes_def de set_inode_def)
  have ek: "entry_ok ?k2" using same(1) by (simp add: entry_ok_def de set_inode_def)
  have run: "sync_blocks a e all (m # todo) k =
      bnd (disk_write ?b ?new 1 ?k2) (\<lambda>k. bnd (add_size a (dir_entry_size (sb k)) k) (\<lambda>k. Inr (True, k)))"
    using allm att ek by (simp add: eb del: One_nat_def)
  have fs2: "fs_ok ?k2" "blocks_synced ?k2" "blocks_fit ?k2"
    using n(4-6) by (simp_all add: fs_ok_def table_ok_def blocks_synced_def blocks_fit_def set_inode_def)
  have use: "block_in_use ?k2 ?b" using n(9) same(1) by (simp add: block_in_use_def set_inode_def)
  have not_use: "\<not> block_in_use k ?b" using n(3) by (simp add: block_in_use_def)
  have ds0: "0 < ?ds" using k(3) by (simp add: blocks_fit_def)
  have fresh: "\<forall>j < 12. j \<noteq> m \<longrightarrow> i_sectors i ! j \<noteq> ?b"
  proof (intro allI impI notI)
    fix j assume j: "j < 12" "j \<noteq> m" "i_sectors i ! j = ?b"
    then have "?b \<in> set (take 12 (i_sectors i))" using len13 by (simp add: in_set_conv_nth) (metis nth_take)
    moreover have "?b \<noteq> 0" using ds0 by simp
    ultimately have "block_in_use k ?b" using i(1) unfolding dir_ok_def by blast
    then show False using not_use by contradiction
  qed
  have tr: "table_region ?k2 = table_region k"
  proof -
    have "inode_table_lba (sb k) + 608 \<le> ?ds" using k(1) by (simp add: fs_ok_def)
    have "block_bitmap_lba (sb k) + block_bitmap_sects (sb k) \<le> inode_table_lba (sb k)" using k(1) by (simp add: fs_ok_def)
    then show ?thesis using n(11) same(1) by (simp add: table_region_def set_inode_def)
  qed
  show ?thesis unfolding run
  proof (rule finish_entry [OF i fs2, where m = m and sec = ?new])
    show "inserted e (live (disk_image k) [i_sectors i ! m]) (filter (\<lambda>e. f_type e \<noteq> 0) (sec_entries ?new))"
      unfolding se using m(2) e(2) live_zero [of 20] by (simp add: inserted_def)
    show "\<forall>e \<in> set (sec_entries ?new). entry_sane e"
      unfolding se using e(1) by auto
    show "\<forall>c. block_in_use k c \<and> c \<notin> set (take 12 (i_sectors i)) \<longrightarrow> c \<noteq> ?b" using not_use by blast
    show "\<forall>T. ?ds \<le> T \<longrightarrow> sectors (disk_image ?k2) T 1 = sectors (disk_image k) T 1" using n(10) by (simp add: set_inode_def)
  qed (use m use ln fresh tr same n(9) ds0 in \<open>auto simp: set_inode_def\<close>)
qed

text \<open>The loop: full blocks are passed over until one of the two cases applies.\<close>

definition has_room :: "fsk \<Rightarrow> inode \<Rightarrow> nat \<Rightarrow> bool" where
  "has_room k i m \<longleftrightarrow> m < 12 \<and> (i_sectors i ! m = 0 \<or>
     (\<exists>e \<in> set (sec_entries (sectors (disk_image k) (i_sectors i ! m) 1)). f_type e = 0))"

lemma sync_blocks_ok:
  assumes k: "fs_ok k" "blocks_synced k" "blocks_fit k" and i: "dir_ok k i" "inodes k a = Some i"
    and e: "entry_sane e" "f_type e \<noteq> 0"
    and free: "used (block_bitmap k) \<noteq> {..<nbits (block_bitmap k)}"
    and all: "all = take 12 (i_sectors i) @ replicate 128 0"
  shows "m \<le> m' \<Longrightarrow> has_room k i m' \<Longrightarrow> \<exists>k'. sync_blocks a e all [m..<140] k = Inr (True, k') \<and> entry_added k a i e k'"
proof (induction "12 - m" arbitrary: m rule: less_induct)
  case less
  have m: "m < 12" using less.prems by (simp add: has_room_def)
  have up: "[m..<140] = m # [Suc m..<140]" using m by (intro upt_conv_Cons) simp
  show ?case
  proof (cases "i_sectors i ! m = 0")
    case True
    from sync_new_block [OF k i m True e free all] show ?thesis unfolding up .
  next
    case False
    let ?sec = "sectors (disk_image k) (i_sectors i ! m) 1"
    show ?thesis
    proof (cases "find (\<lambda>j. f_type (entry_at ?sec j) = 0) [0..<21]")
      case (Some j)
      from sync_in_block [OF k i m False e Some all] show ?thesis unfolding up .
    next
      case None
      have ne: "m \<noteq> m'"
      proof
        assume "m = m'"
        then obtain x where "x \<in> set (sec_entries ?sec)" "f_type x = 0" using less.prems(2) False by (auto simp: has_room_def)
        then show False using None by (auto simp: find_None_iff sec_entries_def)
      qed
      have len13: "length (i_sectors i) = 13" using i(1) by (simp add: dir_ok_def wf_inode_def)
      have mem: "i_sectors i ! m \<in> set (take 12 (i_sectors i))" using m len13 by (simp add: in_set_conv_nth) (metis nth_take)
      have allm: "all ! m = i_sectors i ! m" using all m len13 by (simp add: nth_append)
      have de: "dir_entry_size (sb k) = 24" using k(1) by (simp add: fs_ok_def)
      have "block_in_use k (i_sectors i ! m)" using i(1) mem False by (simp add: dir_ok_def)
      then have rd: "disk_read (i_sectors i ! m) 1 k = Inr ?sec"
        using block_in_use_le [OF k(3)] by (intro disk_read_region) simp_all
      have "sync_blocks a e all (m # [Suc m..<140]) k = sync_blocks a e all [Suc m..<140] k"
        using allm False rd None per_sec_24 [OF de] by (simp del: upt_rec_numeral One_nat_def upt_Suc)
      moreover have "12 - Suc m < 12 - m" "Suc m \<le> m'" using m ne less.prems(1) by simp_all
      ultimately show ?thesis using less.hyps [OF _ _ less.prems(2)] unfolding up by simp
    qed
  qed
qed

lemma sync_dir_entry_ok:
  assumes k: "fs_ok k" "blocks_synced k" "blocks_fit k" and d: "dirs k pd = Some dd" "inodes k (dir_inode dd) = Some i" "dir_ok k i"
    and e: "entry_sane e" "f_type e \<noteq> 0"
    and free: "used (block_bitmap k) \<noteq> {..<nbits (block_bitmap k)}" "has_room k i m"
  shows "\<exists>k'. sync_dir_entry pd e k = Inr (True, k') \<and> entry_added k (dir_inode dd) i e k'"
proof -
  have de: "dir_entry_size (sb k) = 24" using k(1) by (simp add: fs_ok_def)
  have "i_size i mod 24 = 0" using d(3) by (simp add: dir_ok_def)
  then show ?thesis
    using sync_blocks_ok [OF k d(3,2) e free(1) refl le0 free(2)] d(1,2) per_sec_24 [OF de]
    by (simp add: sync_dir_entry_def get_dir_def get_inode_def de del: upt_rec_numeral)
qed

section \<open>Removing an entry\<close>

definition plain :: "dir_entry \<Rightarrow> bool" where
  "plain e \<longleftrightarrow> f_type e \<noteq> 0 \<and> name_of e \<noteq> DOT \<and> name_of e \<noteq> DOTDOT"

definition wanted :: "nat \<Rightarrow> dir_entry \<Rightarrow> bool" where
  "wanted no e \<longleftrightarrow> plain e \<and> de_i_no e = no"

text \<open>What the loop over one sector finds, when at most one entry has the number.\<close>

lemma scan_sector_ok:
  assumes "length sec = SECTOR_SIZE" "\<forall>j \<in> set js. j < 21 \<and> f_type (entry_at sec j) \<le> 2"
    and "length (filter (\<lambda>j. wanted no (entry_at sec j)) js) \<le> (if found = None then 1 else 0)"
  shows "scan_sector sec no js first cnt found = Inr
    (first \<or> (\<exists>j \<in> set js. f_type (entry_at sec j) \<noteq> 0 \<and> name_of (entry_at sec j) = DOT),
     cnt + length (filter (\<lambda>j. plain (entry_at sec j)) js),
     if found = None then find (\<lambda>j. wanted no (entry_at sec j)) js else found)"
  using assms(2,3)
proof (induction js arbitrary: first cnt found)
  case Nil
  then show ?case by simp
next
  case (Cons j js)
  have n: "entry_name sec j = name_of (entry_at sec j)"
    using Cons.prems(1) entry_name_at [OF assms(1)] by simp
  show ?case
  proof (cases "wanted no (entry_at sec j)")
    case True
    then have f: "found = None" "filter (\<lambda>j. wanted no (entry_at sec j)) js = []"
      using Cons.prems(2) by (simp_all split: if_splits)
    then show ?thesis using True Cons.prems(1) Cons.IH [of "Some j" first "cnt + 1"]
      by (auto simp: n wanted_def plain_def)
  next
    case False
    have a: "\<forall>j \<in> set js. j < 21 \<and> f_type (entry_at sec j) \<le> 2" using Cons.prems(1) by simp
    have b: "length (filter (\<lambda>j. wanted no (entry_at sec j)) js) \<le> (if found = None then 1 else 0)"
      using Cons.prems(2) False by simp
    show ?thesis using False Cons.IH [OF a b]
      by (auto simp: n wanted_def plain_def)
  qed
qed

lemma filter_map_upt: "filter P (sec_entries sec) = map (entry_at sec) (filter (\<lambda>j. P (entry_at sec j)) [0..<21])"
  by (simp add: sec_entries_def filter_map comp_def del: upt_rec_numeral)

text \<open>The directory as a whole: \<open>.\<close> is in its first block, and so is \<open>..\<close>.\<close>

definition dots_ok :: "fsk \<Rightarrow> inode \<Rightarrow> bool" where
  "dots_ok k i \<longleftrightarrow> (\<forall>b \<in> set (take 12 (i_sectors i)). b \<noteq> 0 \<longrightarrow>
     (b = data_start_lba (sb k) \<or> (\<exists>e \<in> set (live (disk_image k) [b]). name_of e = DOTDOT) \<longrightarrow>
       (\<exists>e \<in> set (live (disk_image k) [b]). name_of e = DOT)))"

definition entry_removed :: "fsk \<Rightarrow> nat \<Rightarrow> inode \<Rightarrow> dir_entry \<Rightarrow> fsk \<Rightarrow> bool" where
  "entry_removed k a i e k' \<longleftrightarrow>
     (\<exists>i'. inodes k' = (inodes k)(a \<mapsto> i') \<and> i_no i' = i_no i \<and> dir_ok k' i' \<and>
       inserted e (entries_of k' i') (entries_of k i) \<and> disk_inode k' (i_no i) = pure_inode i') \<and>
     fs_ok k' \<and> blocks_synced k' \<and> blocks_fit k' \<and> sb k' = sb k \<and> dirs k' = dirs k \<and> mallocs k' = mallocs k \<and>
     open_inodes k' = open_inodes k \<and> inode_bitmap k' = inode_bitmap k \<and>
     (\<forall>b. block_in_use k b \<and> b \<notin> set (take 12 (i_sectors i)) \<longrightarrow>
        block_in_use k' b \<and> sectors (disk_image k') b 1 = sectors (disk_image k) b 1)"

lemma removed_block:
  assumes m: "m < length bs" and b: "bs ! m = b" "b \<noteq> 0" "b \<notin> set (take m bs)" "b \<notin> set (drop (Suc m) bs)"
    and d: "\<forall>T. T \<noteq> b \<longrightarrow> dir_entries d' [T] = dir_entries d [T]"
    and ins: "inserted e (live d' [b']) (live d [b])" and b': "b' = b \<or> b' = 0"
    and sane: "sane_blocks d bs" "\<forall>e \<in> set (dir_entries d' [b']). entry_sane e"
  shows "inserted e (live d' (bs[m := b'])) (live d bs)" "sane_blocks d' (bs[m := b'])"
proof -
  let ?p = "take m bs" and ?q = "drop (Suc m) bs"
  have c: "dir_entries d' cs = dir_entries d cs" if "b \<notin> set cs" for cs
    using that d by (induction cs) (auto simp: dir_entries_def)
  have e: "dir_entries d' ?p = dir_entries d ?p" "dir_entries d' ?q = dir_entries d ?q"
    using c b(3,4) by simp_all
  have bs: "bs = ?p @ [b] @ ?q" "bs[m := b'] = ?p @ [b'] @ ?q"
    using split_at [OF m] m b(1) by (simp_all add: upd_conv_take_nth_drop)
  have l: "live d bs = live d ?p @ live d [b] @ live d ?q" by (subst bs(1)) (simp only: live_simps)
  have "live d' (bs[m := b']) = live d ?p @ live d' [b'] @ live d ?q"
    by (subst bs(2)) (simp only: live_simps, simp add: live_def e)
  then show "inserted e (live d' (bs[m := b'])) (live d bs)" unfolding l using inserted_context [OF ins] by simp
  have "sane_blocks d (?p @ [b] @ ?q)" by (rule subst [where P = "sane_blocks d", OF bs(1) sane(1)])
  then have "sane_blocks d' ?p" "sane_blocks d' ?q"
    using e by (simp_all only: sane_blocks_simps) (simp_all add: sane_blocks_def)
  moreover have "sane_blocks d' [b']" using sane(2) by (simp only: sane_blocks_def)
  ultimately have "sane_blocks d' (?p @ [b'] @ ?q)" by (simp only: sane_blocks_simps(3))
  then show "sane_blocks d' (bs[m := b'])" by (simp only: bs(2))
qed

lemma distinct_without:
  "distinct (filter P (xs @ [x] @ ys)) \<Longrightarrow> \<not> P y \<Longrightarrow> distinct (filter P (xs @ [y] @ ys))"
  by (auto split: if_splits)

text \<open>
  The last steps of \<open>delete_dir_entry\<close>. In \<open>k1\<close> the entry is gone from block \<open>m\<close> of the directory,
  or the block is gone.
\<close>

lemma finish_removal:
  assumes k: "fs_ok k" and i: "dir_ok k i" "inodes k a = Some i" "i_no i < 4096"
    and k1: "fs_ok k1" "blocks_synced k1" "blocks_fit k1" "sb k1 = sb k" "dirs k1 = dirs k" "mallocs k1 = mallocs k"
      "open_inodes k1 = open_inodes k" "inode_bitmap k1 = inode_bitmap k"
      "inodes k1 = (inodes k)(a \<mapsto> i\<lparr>i_sectors := (i_sectors i)[m := b']\<rparr>)"
      "\<forall>c. block_in_use k c \<and> c \<noteq> b \<longrightarrow> block_in_use k1 c \<and> sectors (disk_image k1) c 1 = sectors (disk_image k) c 1"
    and m: "m < 12" "b = i_sectors i ! m" "b \<noteq> 0" "b' = b \<and> block_in_use k1 b \<or> b' = 0"
    and ins: "inserted e (live (disk_image k1) [b']) (live (disk_image k) [b])"
      "\<forall>e \<in> set (dir_entries (disk_image k1) [b']). entry_sane e"
  shows "\<exists>k'. bnd (get_inode a k1) (\<lambda>i.
      ASSERT (i_size i \<ge> dir_entry_size (sb k1)) ''dir_inode->i_size >= dir_entry_size''
       (let i = i\<lparr>i_size := i_size i - dir_entry_size (sb k1)\<rparr>
        in bnd (inode_sync i (set_inode a i k1)) (\<lambda>k. Inr (True, k)))) = Inr (True, k') \<and> entry_removed k a i e k'"
proof -
  let ?bs = "take 12 (i_sectors i)"
  have len13: "length (i_sectors i) = 13" and wfi: "wf_inode i" using i(1) by (simp_all add: dir_ok_def wf_inode_def)
  have de: "dir_entry_size (sb k1) = 24" using k1(1) by (simp add: fs_ok_def)
  have bu: "\<forall>c \<in> set ?bs. c \<noteq> 0 \<longrightarrow> block_in_use k c" using i(1) by (simp add: dir_ok_def)
  have lm: "m < length ?bs" using m(1) len13 by simp
  have dist: "distinct (filter (\<lambda>b. b \<noteq> 0) ?bs)" using i(1) by (simp add: dir_ok_def)
  have bs: "?bs = take m ?bs @ [b] @ drop (Suc m) ?bs" using split_at [OF lm] m(1,2) by simp
  have dist': "distinct (filter (\<lambda>b. b \<noteq> 0) (take m ?bs @ [b] @ drop (Suc m) ?bs))" using dist bs by metis
  then have nb: "b \<notin> set (take m ?bs)" "b \<notin> set (drop (Suc m) ?bs)" using m(3) by auto
  define R where "R = {c. c \<noteq> 0 \<and> c \<in> set ?bs}"
  define d1 where "d1 = (\<lambda>T. if T \<in> R then disk_image k1 T else disk_image k T)"
  have sec1: "sectors d T 1 = d T" for d T by (simp add: sectors_def)
  have kept: "disk_image k1 c = disk_image k c" if "c \<in> set ?bs" "c \<noteq> 0" "c \<noteq> b" for c
    using k1(10) bu that unfolding sec1 by blast
  have dT: "\<forall>T. T \<noteq> b \<longrightarrow> dir_entries d1 [T] = dir_entries (disk_image k) [T]"
    using kept by (auto simp: d1_def R_def sec1 simp del: One_nat_def)
  have same: "dir_entries (disk_image k1) cs = dir_entries d1 cs" if "set cs \<subseteq> set ?bs \<union> {0}" for cs
    using that by (intro dir_entries_cong) (auto simp: d1_def R_def sec1 simp del: One_nat_def)
  have bm: "b \<in> set ?bs" using lm m(1,2) by (metis nth_mem nth_take)
  have b'm: "set [b'] \<subseteq> set ?bs \<union> {0}" using m(4) bm by auto
  have ins': "inserted e (live d1 [b']) (live (disk_image k) [b])" using ins(1) same [OF b'm] by (simp add: live_def)
  have sn': "\<forall>e \<in> set (dir_entries d1 [b']). entry_sane e" using ins(2) same [OF b'm] by simp
  have bmm: "?bs ! m = b" using m(1,2) by simp
  have sane: "sane_blocks (disk_image k) ?bs" using i(1) by (simp add: dir_ok_def)
  have b'b: "b' = b \<or> b' = 0" using m(4) by blast
  note R = removed_block [OF lm bmm m(3) nb dT ins' b'b sane sn']
  have upd: "set (?bs[m := b']) \<subseteq> set ?bs \<union> {0}" using b'b bm set_update_subset_insert by fast
  have t12: "take 12 ((i_sectors i)[m := b']) = ?bs[m := b']" using m(1) by (simp add: take_update_swap)
  have ins2: "inserted e (live (disk_image k1) (?bs[m := b'])) (entries_of k i)"
    using R(1) same [OF upd] by (simp add: live_def)
  have sane2: "sane_blocks (disk_image k1) (?bs[m := b'])" using R(2) same [OF upd] by (simp add: sane_blocks_def)
  have size: "24 \<le> i_size i" "i_size i - 24 = 24 * length (live (disk_image k1) (?bs[m := b']))"
    using i(1) inserted_length [OF ins2] by (simp_all add: dir_ok_def)
  let ?i' = "i\<lparr>i_sectors := (i_sectors i)[m := b'], i_size := i_size i - 24\<rparr>"
  have "\<forall>s \<in> set ((i_sectors i)[m := b']). s < 2 ^ 32"
    using wfi b'b m(1,2) len13 by (auto simp: wf_inode_def dest!: subsetD [OF set_update_subset_insert])
  then have wfi': "wf_inode ?i'" using wfi by (auto simp: wf_inode_def intro: le_less_trans [OF diff_le_self])
  let ?k2 = "set_inode a ?i' k1"
  have tok: "table_ok ?k2" using k1(1) by (simp add: fs_ok_def table_ok_def set_inode_def)
  obtain k' where k': "inode_sync ?i' ?k2 = Inr k'" "k' = ?k2\<lparr>disk_image := disk_image k'\<rparr>" "table_ok k'"
    "\<And>m. m < 4096 \<Longrightarrow> disk_inode k' m = (if m = i_no ?i' then pure_inode ?i' else disk_inode ?k2 m)"
    "\<And>T N. T + N \<le> inode_table_lba (sb ?k2) \<or> inode_table_lba (sb ?k2) + INODE_TABLE_SECTS \<le> T \<Longrightarrow>
       sectors (disk_image k') T N = sectors (disk_image ?k2) T N"
  proof -
    have n: "i_no ?i' < 4096" using i(3) by simp
    show thesis by (rule inode_sync_ok [OF tok wfi' n]) (rule that; assumption)
  qed
  have f: "sb k' = sb k" "dirs k' = dirs k" "mallocs k' = mallocs k" "open_inodes k' = open_inodes k" "inode_bitmap k' = inode_bitmap k"
    "inodes k' = (inodes k)(a \<mapsto> ?i')" "block_bitmap k' = block_bitmap k1" "start_lba k' = start_lba k1" "part_sec_cnt k' = part_sec_cnt k1"
    using k1(4-9) by (subst k'(2), simp add: set_inode_def)+
  have low: "inode_table_lba (sb k) + 608 \<le> data_start_lba (sb k)"
    "block_bitmap_lba (sb k) + block_bitmap_sects (sb k) \<le> inode_table_lba (sb k)"
    using k by (simp_all add: fs_ok_def)
  have dat: "sectors (disk_image k') T 1 = sectors (disk_image k1) T 1" if "data_start_lba (sb k) \<le> T" for T
    using k'(5) [of T 1] that low(1) k1(4) by (simp add: set_inode_def)
  have fs': "fs_ok k'" "blocks_synced k'" "blocks_fit k'"
    using k1(1-4,8) k'(3) k'(5) [of "block_bitmap_lba (sb k)" "block_bitmap_sects (sb k)"] low(2)
    by (simp_all add: fs_ok_def f blocks_synced_def blocks_fit_def set_inode_def)
  have use': "block_in_use k' c \<longleftrightarrow> block_in_use k1 c" for c by (simp add: block_in_use_def f k1(4))
  have ent: "dir_entries (disk_image k') (?bs[m := b']) = dir_entries (disk_image k1) (?bs[m := b'])"
  proof (intro dir_entries_cong ballI impI)
    fix c assume c: "c \<in> set (?bs[m := b'])" "c \<noteq> 0"
    then have "block_in_use k c" using upd bu by blast
    then show "sectors (disk_image k') c 1 = sectors (disk_image k1) c 1" by (intro dat) (simp add: block_in_use_def)
  qed
  have use1: "block_in_use k1 c" if c: "c \<in> set (?bs[m := b'])" "c \<noteq> 0" for c
  proof (cases "c = b")
    case True
    have "b \<notin> set (?bs[m := 0])"
    proof -
      have "?bs[m := 0] = take m ?bs @ [0] @ drop (Suc m) ?bs" using lm by (simp add: upd_conv_take_nth_drop)
      then show ?thesis using nb m(3) by simp
    qed
    then show ?thesis using c True m(4) by auto
  next
    case False
    have "block_in_use k c" using c upd bu by blast
    then show ?thesis using k1(10) False by blast
  qed
  have ok': "dir_ok k' ?i'"
  proof -
    have "i_sectors ?i' ! 12 = 0" using i(1) m(1) by (simp add: dir_ok_def)
    moreover have "distinct (filter (\<lambda>b. b \<noteq> 0) (?bs[m := b']))"
    proof (cases "b' = b")
      case True
      then show ?thesis using dist bmm by (simp add: list_update_same_conv [THEN iffD2, OF lm])
    next
      case False
      then have "b' = 0" using b'b by blast
      then have "distinct (filter (\<lambda>b. b \<noteq> 0) (take m ?bs @ [b'] @ drop (Suc m) ?bs))"
        using distinct_without [OF dist', of b'] by blast
      then show ?thesis using lm by (simp only: upd_conv_take_nth_drop append.simps)
    qed
    ultimately show ?thesis using wfi' sane2 size(2) use1 ent
      by (simp add: dir_ok_def t12 use' sane_blocks_def live_def)
  qed
  have "entry_removed k a i e k'"
    unfolding entry_removed_def
  proof (intro conjI exI [of _ ?i'])
    show "inserted e (entries_of k' ?i') (entries_of k i)" using ins2 ent by (simp add: t12 live_def)
    show "disk_inode k' (i_no i) = pure_inode ?i'" using k'(4) [of "i_no i"] i(3) by simp
    show "\<forall>c. block_in_use k c \<and> c \<notin> set ?bs \<longrightarrow> block_in_use k' c \<and> sectors (disk_image k') c 1 = sectors (disk_image k) c 1"
    proof (intro allI impI)
      fix c assume c: "block_in_use k c \<and> c \<notin> set ?bs"
      then have "c \<noteq> b" "data_start_lba (sb k) \<le> c" using bm by (auto simp: block_in_use_def)
      then show "block_in_use k' c \<and> sectors (disk_image k') c 1 = sectors (disk_image k) c 1"
        using c k1(10) dat by (simp add: use')
    qed
  qed (use fs' ok' f in \<open>simp_all\<close>)
  moreover have "bnd (get_inode a k1) (\<lambda>i.
      ASSERT (i_size i \<ge> dir_entry_size (sb k1)) ''dir_inode->i_size >= dir_entry_size''
       (let i = i\<lparr>i_size := i_size i - dir_entry_size (sb k1)\<rparr>
        in bnd (inode_sync i (set_inode a i k1)) (\<lambda>k. Inr (True, k)))) = Inr (True, k')"
    using k1(9) size(1) k'(1) by (simp add: get_inode_def de)
  ultimately show ?thesis by blast
qed

end
