(* ===== verification/Dirremove.thy ===== *)
theory Dirremove
  imports Dirspec
begin

text \<open>
  \<open>sync_dir_entry\<close> and \<open>delete_dir_entry\<close> of \<open>fs/dir.c\<close> as operations on the list of the entries of a
  directory: the loop of \<open>delete_dir_entry\<close>, and the results about adding and removing a name.
\<close>

section \<open>The block with the entry\<close>

lemma filter_removed:
  assumes "j < length es" "f_type (es ! j) \<noteq> 0" "f_type z = 0"
  shows "inserted (es ! j) (filter (\<lambda>e. f_type e \<noteq> 0) (es[j := z])) (filter (\<lambda>e. f_type e \<noteq> 0) es)"
  using inserted_update [of j "es[j := z]" "es ! j"] assms by simp

lemma f_type_zero [simp]: "f_type zero_entry = 0"
  by (simp add: zero_entry_def)

text \<open>What the loop sees in one block that has no entry with the number.\<close>

lemma delete_skip:
  assumes wf: "wf_image (disk_image k)" and de: "dir_entry_size (sb k) = 24"
    and b: "b \<noteq> 0 \<Longrightarrow> b + 1 \<le> max_lba" "b \<noteq> 0 \<Longrightarrow> \<forall>e \<in> set (sec_entries (sectors (disk_image k) b 1)). entry_sane e"
      "b \<noteq> 0 \<Longrightarrow> \<forall>e \<in> set (live (disk_image k) [b]). \<not> wanted no e"
    and m: "all ! m = b"
  shows "delete_in_blocks a no all (m # todo) k = delete_in_blocks a no all todo k"
proof (cases "b = 0")
  case False
  let ?sec = "sectors (disk_image k) b 1"
  have len: "length ?sec = SECTOR_SIZE" using wf by simp
  have t: "\<forall>j \<in> set [0..<21]. j < 21 \<and> f_type (entry_at ?sec j) \<le> 2"
    using b(2) [OF False] by (auto simp: sec_entries_def entry_sane_def)
  have nw: "\<not> wanted no (entry_at ?sec j)" if j: "j < 21" for j
  proof
    assume w: "wanted no (entry_at ?sec j)"
    have "entry_at ?sec j \<in> set (sec_entries ?sec)" using j by (simp add: sec_entries_def)
    then have "entry_at ?sec j \<in> set (live (disk_image k) [b])"
      using w False by (simp add: live_one wanted_def plain_def)
    then show False using b(3) [OF False] w by blast
  qed
  then have z: "filter (\<lambda>j. wanted no (entry_at ?sec j)) [0..<21] = []" by (auto simp: filter_empty_conv)
  have "find (\<lambda>j. wanted no (entry_at ?sec j)) [0..<21] = None" using nw by (auto simp: find_None_iff)
  then obtain f c where s: "scan_sector ?sec no [0..<21] False 0 None = Inr (f, c, None)"
    using scan_sector_ok [OF len t, of no None False 0] z by (simp del: upt_rec_numeral)
  have "disk_read b 1 k = Inr ?sec" using b(1) [OF False] by (intro disk_read_region) simp_all
  then show ?thesis using False m s per_sec_24 [OF de] by (simp del: upt_rec_numeral)
qed (use m in simp)

lemma delete_skip_all:
  assumes "M \<le> 140" "m \<le> M" "\<And>n. m \<le> n \<Longrightarrow> n < M \<Longrightarrow> delete_in_blocks a no all (n # [Suc n..<140]) k = delete_in_blocks a no all [Suc n..<140] k"
  shows "delete_in_blocks a no all [m..<140] k = delete_in_blocks a no all [M..<140] k"
  using assms(2,3)
proof (induction rule: inc_induct)
  case (step n)
  have "[n..<140] = n # [Suc n..<140]" using step.hyps assms(1) by (intro upt_conv_Cons) simp
  then show ?case using step by simp
qed simp

text \<open>Writing zeros over the entry, or giving the block back.\<close>

lemma zero_entry_bytes: "dir_entry_bytes zero_entry = replicate 24 0"
proof -
  have "le32 0 = replicate 4 0" by (rule nth_equalityI) (auto simp: le32_def nth_Cons split: nat.splits)
  then show ?thesis using replicate_add [of 16 8 "0 :: u8"] replicate_add [of 4 4 "0 :: u8"]
    by (simp add: dir_entry_bytes_def zero_entry_def)
qed

lemma find_filter: "filter P xs = x # ys \<Longrightarrow> find P xs = Some x"
  by (induction xs) (auto split: if_splits)

lemma wf_zero_entry: "wf_dir_entry zero_entry"
  by (simp add: wf_dir_entry_def zero_entry_def)

lemma delete_at:
  assumes k: "fs_ok k" "blocks_synced k" "blocks_fit k" and i: "dir_ok k i" "inodes k a = Some i" "i_no i < 4096" "dots_ok k i"
    and m: "m < 12" "i_sectors i ! m = b" "b \<noteq> 0"
    and e: "filter (wanted no) (live (disk_image k) [b]) = [e]"
    and all: "all = take 12 (i_sectors i) @ replicate 128 0"
  shows "\<exists>k'. delete_in_blocks a no all (m # todo) k = Inr (True, k') \<and> entry_removed k a i e k'"
proof -
  let ?sec = "sectors (disk_image k) b 1" and ?ds = "data_start_lba (sb k)"
  have wf: "wf_image (disk_image k)" and de: "dir_entry_size (sb k) = 24" using k(1) by (simp_all add: fs_ok_def table_ok_def)
  have len: "length ?sec = SECTOR_SIZE" using wf by simp
  have len13: "length (i_sectors i) = 13" using i(1) by (simp add: dir_ok_def wf_inode_def)
  have mem: "b \<in> set (take 12 (i_sectors i))" using m len13 by (auto simp: in_set_conv_nth)
  have use: "block_in_use k b" using i(1) mem m(3) by (simp add: dir_ok_def)
  then have bds: "?ds \<le> b" "b + 1 \<le> max_lba" using block_in_use_le [OF k(3)] by (auto simp: block_in_use_def)
  have sane: "\<forall>x \<in> set (sec_entries ?sec). entry_sane x"
    using i(1) mem m(3) by (auto simp: dir_ok_def sane_blocks_def dir_entries_def)
  have t: "\<forall>j \<in> set [0..<21]. j < 21 \<and> f_type (entry_at ?sec j) \<le> 2"
    using sane by (auto simp: sec_entries_def entry_sane_def)
  let ?ws = "filter (\<lambda>j. wanted no (entry_at ?sec j)) [0..<21]"
  have ws: "map (entry_at ?sec) ?ws = [e]"
  proof -
    have "filter (wanted no) (live (disk_image k) [b]) = filter (wanted no) (sec_entries ?sec)"
      unfolding live_one [OF m(3)] filter_filter by (rule filter_cong) (auto simp: wanted_def plain_def)
    then show ?thesis using e by (simp only: filter_map_upt)
  qed
  then obtain j where j: "?ws = [j]" "entry_at ?sec j = e" by (cases ?ws) auto
  have jm: "j \<in> set ?ws" unfolding j(1) by simp
  then have j21: "j < 21" "wanted no e" using j(2) by auto
  have fnd: "find (\<lambda>j. wanted no (entry_at ?sec j)) [0..<21] = Some j"
    using j(1) by (rule find_filter)
  define first where "first = (\<exists>j \<in> set [0..<21]. f_type (entry_at ?sec j) \<noteq> 0 \<and> name_of (entry_at ?sec j) = DOT)"
  define cnt where "cnt = length (filter (\<lambda>j. plain (entry_at ?sec j)) [0..<21])"
  have sc: "scan_sector ?sec no [0..<21] False 0 None = Inr (first, cnt, Some j)"
    using scan_sector_ok [OF len t, of no None False 0] j(1) fnd
    by (simp add: first_def cnt_def del: upt_rec_numeral set_upt)
  have pl: "filter plain (sec_entries ?sec) = map (entry_at ?sec) (filter (\<lambda>j. plain (entry_at ?sec j)) [0..<21])"
    by (rule filter_map_upt)
  have em: "e \<in> set (filter plain (sec_entries ?sec))" using j j21 by (auto simp: sec_entries_def wanted_def simp del: upt_rec_numeral)
  then have c1: "cnt \<ge> 1" unfolding cnt_def using pl by (metis One_nat_def Suc_leI length_greater_0_conv length_map length_pos_if_in_set)
  have rd: "disk_read b 1 k = Inr ?sec" using bds(2) by (intro disk_read_region) simp_all
  let ?fin = "\<lambda>k. bnd (get_inode a k) (\<lambda>i.
      ASSERT (i_size i \<ge> dir_entry_size (sb k)) ''dir_inode->i_size >= dir_entry_size''
       (let i = i\<lparr>i_size := i_size i - dir_entry_size (sb k)\<rparr>
        in bnd (inode_sync i (set_inode a i k)) (\<lambda>k. Inr (True, k))))"
  have am: "all ! m = b" using m all len13 by (simp add: nth_append)
  have run: "delete_in_blocks a no all (m # todo) k =
      bnd (if cnt = 1 \<and> \<not> first then drop_block a all m k
           else disk_write b (splice (j * DIR_ENTRY_BYTES) (replicate 24 0) ?sec) 1 k) ?fin"
    using am m(3) rd sc c1 j21(1) per_sec_24 [OF de] de by (simp del: upt_rec_numeral set_upt)
  let ?fin' = "\<lambda>k1. \<exists>k'. ?fin k1 = Inr (True, k') \<and> entry_removed k a i e k'"
  show ?thesis
  proof (cases "cnt = 1 \<and> \<not> first")
    case True
    have noDOT: "name_of x \<noteq> DOT" if "x \<in> set (live (disk_image k) [b])" for x
      using that True by (auto simp: first_def live_one [OF m(3)] sec_entries_def simp del: upt_rec_numeral)
    have bne: "b \<noteq> ?ds \<and> (\<forall>x \<in> set (live (disk_image k) [b]). name_of x \<noteq> DOTDOT)"
      using i(4) mem m(3) noDOT unfolding dots_ok_def by blast
    have "live (disk_image k) [b] = filter plain (sec_entries ?sec)"
      unfolding live_one [OF m(3)] using noDOT bne
      by (intro filter_cong refl) (auto simp: plain_def live_one [OF m(3)])
    moreover have "length (filter plain (sec_entries ?sec)) = 1" using True unfolding pl cnt_def by simp
    ultimately have le: "live (disk_image k) [b] = [e]" using em
      by (metis One_nat_def Suc_length_conv length_0_conv in_set_replicate length_greater_0_conv list.set_cases list.size(3) set_ConsD list.distinct(1) nat.inject)
    have bi: "block_idx_ok k b" using use bne bds k(3)
      by (auto simp: block_idx_ok_def block_in_use_def used_def)
    obtain k0 where k0: "free_block b k = Inr k0" "fs_ok k0" "blocks_synced k0"
      "k0 = k\<lparr>block_bitmap := block_bitmap k0, disk_image := disk_image k0\<rparr>"
      "nbits (block_bitmap k0) = nbits (block_bitmap k)" "used (block_bitmap k0) = used (block_bitmap k) - {b - ?ds}"
      "\<And>T N. block_bitmap_lba (sb k) + block_bitmap_sects (sb k) \<le> T \<Longrightarrow>
         sectors (disk_image k0) T N = sectors (disk_image k) T N"
      by (rule free_block_ok [OF k(1,2) bi]) (rule that; assumption)
    note f0 = same_but_blocks_simps [OF k0(4) [folded same_but_blocks_def]]
    let ?k1 = "set_inode a (i\<lparr>i_sectors := (i_sectors i)[m := 0]\<rparr>) k0"
    have "drop_block a all m k = Inr ?k1"
      using am k0(1) m(1) f0(2) i(2) len13 by (simp add: drop_block_def set_sector_def get_inode_def)
    moreover have "?fin' ?k1"
    proof (rule finish_removal [OF k(1) i(1-3), where b' = 0 and m = m and b = b])
      have "block_bitmap_lba (sb k) + block_bitmap_sects (sb k) \<le> ?ds" using k(1) by (simp add: fs_ok_def)
      then show "\<forall>c. block_in_use k c \<and> c \<noteq> b \<longrightarrow> block_in_use ?k1 c \<and> sectors (disk_image ?k1) c 1 = sectors (disk_image k) c 1"
        using k0(6,7) bds(1) by (auto simp: block_in_use_def f0 set_inode_def)
      show "inserted e (live (disk_image ?k1) [0]) (live (disk_image k) [b])" by (simp add: le inserted_def)
      show "fs_ok ?k1" "blocks_synced ?k1" "blocks_fit ?k1"
        using k0(2,3,5) k(3) by (simp_all add: fs_ok_def table_ok_def blocks_synced_def blocks_fit_def set_inode_def f0)
    qed (use m in \<open>simp_all add: set_inode_def f0\<close>)
    ultimately show ?thesis using run True by simp
  next
    case False
    let ?sec' = "splice (j * DIR_ENTRY_BYTES) (dir_entry_bytes zero_entry) ?sec"
    have l': "length ?sec' = SECTOR_SIZE" using len j21(1) wf_zero_entry by (simp add: length_dir_entry_bytes)
    obtain d where d: "disk_write b ?sec' 1 k = Inr (k\<lparr>disk_image := d\<rparr>)" "fs_ok (k\<lparr>disk_image := d\<rparr>)"
      "blocks_synced (k\<lparr>disk_image := d\<rparr>)" "sectors d b 1 = ?sec'"
      "\<forall>T. T \<noteq> b \<longrightarrow> sectors d T 1 = sectors (disk_image k) T 1"
      using data_write [OF k(1,2) bds l'] by (elim exE conjE) (rule that)
    let ?k1 = "k\<lparr>disk_image := d\<rparr>"
    have se: "sec_entries ?sec' = (sec_entries ?sec)[j := zero_entry]" by (rule sec_entries_splice [OF len j21(1) wf_zero_entry])
    have "?fin' ?k1"
    proof (rule finish_removal [OF k(1) i(1-3), where b' = b and m = m and b = b])
      have "sec_entries ?sec ! j = e" using j(2) j21(1) by (simp add: sec_entries_nth)
      then show "inserted e (live (disk_image ?k1) [b]) (live (disk_image k) [b])"
        using filter_removed [of j "sec_entries ?sec" zero_entry] j21 m(3)
        by (simp add: live_one d(4) se wanted_def plain_def del: One_nat_def)
      show "\<forall>e \<in> set (dir_entries (disk_image ?k1) [b]). entry_sane e"
        using sane m(3) by (auto simp: d(4) se simp del: One_nat_def dest!: subsetD [OF set_update_subset_insert])
      show "inodes ?k1 = (inodes k)(a \<mapsto> i\<lparr>i_sectors := (i_sectors i)[m := b]\<rparr>)"
        using i(2) m(2) by (auto simp: list_update_id fun_eq_iff)
    qed (use d m use k(3) in \<open>simp_all add: block_in_use_def blocks_fit_def\<close>)
    then show ?thesis using run False d(1) by (auto simp: zero_entry_bytes)
  qed
qed

text \<open>The one block of a directory that has the only entry with a property.\<close>

lemma live_Cons: "live d (b # bs) = live d [b] @ live d bs"
  using live_simps(3) [of d "[b]" bs] by (simp only: append.simps)

lemma only_block:
  "filter P (live d bs) = [e] \<Longrightarrow>
   \<exists>m < length bs. bs ! m \<noteq> 0 \<and> filter P (live d [bs ! m]) = [e] \<and>
     (\<forall>n < length bs. n \<noteq> m \<longrightarrow> filter P (live d [bs ! n]) = [])"
proof (induction bs)
  case (Cons b bs)
  show ?case
  proof (cases "filter P (live d [b]) = []")
    case True
    then have "filter P (live d bs) = [e]" using Cons.prems live_Cons [of d b bs] by (simp only: filter_append append.simps)
    from Cons.IH [OF this] obtain m where m: "m < length bs" "bs ! m \<noteq> 0" "filter P (live d [bs ! m]) = [e]"
      "\<forall>n < length bs. n \<noteq> m \<longrightarrow> filter P (live d [bs ! n]) = []" by blast
    have "filter P (live d [(b # bs) ! n]) = []" if "n < length (b # bs)" "n \<noteq> Suc m" for n
      using that m(4) True by (cases n) auto
    then show ?thesis using m by (intro exI [of _ "Suc m"]) simp
  next
    case False
    then have f: "filter P (live d [b]) = [e]" "filter P (live d bs) = []"
      using Cons.prems live_Cons [of d b bs] by (auto simp only: filter_append append_eq_Cons_conv Nil_is_append_conv)
    have "filter P (live d [bs ! n]) = []" if "n < length bs" for n
    proof -
      have "live d bs = live d (take n bs) @ live d [bs ! n] @ live d (drop (Suc n) bs)"
        by (subst split_at [OF that]) (simp only: live_simps)
      then show ?thesis using f(2) by (simp only: filter_append append_is_Nil_conv)
    qed
    then have "filter P (live d [(b # bs) ! n]) = []" if "n < length (b # bs)" "n \<noteq> 0" for n
      using that by (cases n) auto
    moreover have "b \<noteq> 0" using f(1) by (cases "b = 0") auto
    ultimately show ?thesis using f(1) by (intro exI [of _ 0]) simp
  qed
qed simp

lemma delete_dir_entry_ok:
  assumes k: "fs_ok k" "blocks_synced k" "blocks_fit k" and d: "dirs k pd = Some dd" "inodes k (dir_inode dd) = Some i"
    and i: "dir_ok k i" "i_no i < 4096" "dots_ok k i" and e: "filter (wanted no) (entries_of k i) = [e]"
  shows "\<exists>k'. delete_dir_entry pd no k = Inr (True, k') \<and> entry_removed k (dir_inode dd) i e k'"
proof -
  let ?bs = "take 12 (i_sectors i)" and ?a = "dir_inode dd"
  define all where "all = ?bs @ replicate 128 0"
  have len: "length ?bs = 12" using i(1) by (simp add: dir_ok_def wf_inode_def)
  have de: "dir_entry_size (sb k) = 24" and wf: "wf_image (disk_image k)" using k(1) by (simp_all add: fs_ok_def table_ok_def)
  have "\<exists>m < length ?bs. ?bs ! m \<noteq> 0 \<and> filter (wanted no) (live (disk_image k) [?bs ! m]) = [e] \<and>
      (\<forall>n < length ?bs. n \<noteq> m \<longrightarrow> filter (wanted no) (live (disk_image k) [?bs ! n]) = [])"
    by (rule only_block [OF e])
  then obtain m where m: "m < 12" "i_sectors i ! m \<noteq> 0" "filter (wanted no) (live (disk_image k) [i_sectors i ! m]) = [e]"
    "\<forall>n < 12. n \<noteq> m \<longrightarrow> filter (wanted no) (live (disk_image k) [i_sectors i ! n]) = []"
    using len by auto
  have skip: "delete_in_blocks ?a no all (n # [Suc n..<140]) k = delete_in_blocks ?a no all [Suc n..<140] k" if n: "n < m" for n
  proof (rule delete_skip [OF wf de])
    show "all ! n = i_sectors i ! n" using n m(1) len by (simp add: all_def nth_append)
    have mem: "i_sectors i ! n \<in> set ?bs" using n m(1) len by (auto simp: in_set_conv_nth intro!: exI [of _ n])
    show "i_sectors i ! n + 1 \<le> max_lba" if "i_sectors i ! n \<noteq> 0"
      using dir_ok_readable [OF i(1) k(3)] mem that by (simp add: readable_def)
    show "\<forall>e \<in> set (sec_entries (sectors (disk_image k) (i_sectors i ! n) 1)). entry_sane e" if "i_sectors i ! n \<noteq> 0"
      using i(1) mem that by (auto simp: dir_ok_def sane_blocks_def dir_entries_def)
    show "\<forall>e \<in> set (live (disk_image k) [i_sectors i ! n]). \<not> wanted no e"
      using m(4) [rule_format, of n] m(1) n by (simp add: filter_empty_conv)
  qed
  have up: "[m..<140] = m # [Suc m..<140]" using m(1) by (intro upt_conv_Cons) simp
  have "delete_in_blocks ?a no all [0..<140] k = delete_in_blocks ?a no all [m..<140] k"
    by (rule delete_skip_all) (use m(1) skip in simp_all)
  moreover obtain k' where k': "delete_in_blocks ?a no all [m..<140] k = Inr (True, k')" "entry_removed k ?a i e k'"
    using delete_at [OF k i(1) d(2) i(2,3) m(1) refl m(2,3) all_def] unfolding up by blast
  moreover have "all_blocks i k = Inr all" using i(1) by (simp add: all_blocks_def dir_ok_def all_def)
  ultimately show ?thesis using d per_sec_24 [OF de]
    by (simp add: delete_dir_entry_def get_dir_def get_inode_def del: upt_rec_numeral)
qed

lemma find_name_removed:
  assumes "inserted e es' es" "distinct (map name_of es)"
  shows "find_name nm es' = (if nm = name_of e then None else find_name nm es)"
proof -
  obtain xs ys where es: "es' = xs @ ys" "es = xs @ e # ys" using assms(1) by (auto simp: inserted_def)
  show ?thesis
  proof (cases "nm = name_of e")
    case True
    have "nm \<notin> name_of ` set xs" "nm \<notin> name_of ` set ys" using assms(2) True unfolding es by auto
    then have "find (\<lambda>x. name_of x = nm) xs = None" "find (\<lambda>x. name_of x = nm) ys = None"
      by (auto simp only: find_None_iff image_iff)
    then show ?thesis using True by (simp add: find_name_def es find_append)
  next
    case False
    then have "find (\<lambda>x. name_of x = nm) (e # ys) = find (\<lambda>x. name_of x = nm) ys" by auto
    then show ?thesis using False by (simp only: find_name_def es find_append if_False)
  qed
qed

section \<open>A small directory, for examples\<close>

definition demo_entry :: dir_entry where
  "demo_entry = \<lparr>filename = 97 # replicate 15 0, de_i_no = 7, f_type = 1\<rparr>"

lemma demo_entry_simps [simp]: "entry_sane demo_entry" "f_type demo_entry = 1" "de_i_no demo_entry = 7" "name_of demo_entry = [97]"
  by (simp_all add: demo_entry_def entry_sane_def wf_dir_entry_def name_of_def dir_entry_bytes_def cstr_def)

text \<open>The root directory is empty.\<close>

definition demo_empty :: fsk where
  "demo_empty = demo_fs\<lparr>inodes := [0 \<mapsto> inode_init 0]\<rparr>"

text \<open>The root directory has one entry, in sector 2661.\<close>

definition demo_sec :: "u8 list" where
  "demo_sec = splice 0 (dir_entry_bytes demo_entry) (replicate SECTOR_SIZE 0)"

definition demo_dir_inode :: inode where
  "demo_dir_inode = (inode_init 0)\<lparr>i_size := 24, i_sectors := 2661 # replicate 12 0\<rparr>"

definition demo_one :: fsk where
  "demo_one = demo_fs\<lparr>inodes := [0 \<mapsto> demo_dir_inode],
     block_bitmap := \<lparr>btmp_bytes_len = 512, bits = 2 # replicate 511 0\<rparr>,
     disk_image := \<lambda>s. if s = 2050 then 2 # replicate 511 0 else if s = 2661 then demo_sec else replicate 512 0\<rparr>"

lemma demo_sec_entries: "length demo_sec = SECTOR_SIZE" "sec_entries demo_sec = demo_entry # replicate 20 zero_entry"
proof -
  have w: "wf_dir_entry demo_entry" by (simp add: demo_entry_def wf_dir_entry_def)
  show "length demo_sec = SECTOR_SIZE" using w by (simp add: demo_sec_def)
  have "sec_entries demo_sec = (sec_entries (replicate SECTOR_SIZE 0))[0 := demo_entry]"
    using sec_entries_splice [of "replicate SECTOR_SIZE 0" 0 demo_entry] w by (simp add: demo_sec_def)
  then show "sec_entries demo_sec = demo_entry # replicate 20 zero_entry"
    unfolding sec_entries_zero using replicate_Suc [of 20 zero_entry] by simp
qed

lemma demo_empty_ok: "fs_ok demo_empty" "blocks_synced demo_empty" "blocks_fit demo_empty" "dir_ok demo_empty (inode_init 0)"
  "used (block_bitmap demo_empty) = {}" "entries_of demo_empty (inode_init 0) = []"
  using demo_fs_ok
  by (simp_all add: demo_empty_def fs_ok_def table_ok_def blocks_synced_def blocks_fit_def demo_sb_def nbits_def
      dir_ok_def wf_inode_def inode_init_def sane_blocks_def used_def bit_at_def nth_Cons live_def dir_entries_def)

lemma demo_one_entries: "dir_entries (disk_image demo_one) (take 12 (i_sectors demo_dir_inode)) = demo_entry # replicate 20 zero_entry"
  by (simp add: demo_one_def demo_dir_inode_def sectors_def demo_sec_entries)

lemma demo_one_live: "entries_of demo_one demo_dir_inode = [demo_entry]"
  by (simp add: live_def demo_one_entries zero_entry_def)

lemma demo_one_used: "1 \<in> used (block_bitmap demo_one)"
  by (simp add: demo_one_def used_def nbits_def bit_at_def bit_numeral_rec)

lemma demo_one_ok: "fs_ok demo_one" "blocks_synced demo_one" "blocks_fit demo_one"
  by (simp_all add: demo_one_def fs_ok_def table_ok_def wf_image_def wf_bitmap_def demo_sb_def blocks_synced_def
      blocks_fit_def nbits_def sectors_def demo_sec_entries)

lemma demo_one_dir: "dir_ok demo_one demo_dir_inode" "dots_ok demo_one demo_dir_inode"
proof -
  have b: "set (take 12 (i_sectors demo_dir_inode)) = {2661, 0}" by (simp add: demo_dir_inode_def)
  have sd: "data_start_lba (sb demo_one) = 2660" by (simp add: demo_one_def demo_sb_def)
  have l1: "live (disk_image demo_one) [2661] = [demo_entry]"
    using demo_one_live by (simp add: demo_dir_inode_def live_def)
  show "dots_ok demo_one demo_dir_inode"
    unfolding dots_ok_def b using l1 by (simp add: sd del: dir_entries_simps)
  have "block_in_use demo_one 2661" using demo_one_used by (simp add: block_in_use_def sd)
  then show "dir_ok demo_one demo_dir_inode"
    using demo_one_live demo_one_entries unfolding dir_ok_def sane_blocks_def b
    by (simp add: wf_inode_def demo_dir_inode_def inode_init_def)
qed

section \<open>Results\<close>

text \<open>
  C32: A name that is added to a directory is found. When the heap has memory, in a sound directory without that name and
  with room for one more entry, on a disk with a free block, \<open>sync_dir_entry\<close> succeeds, the size
  of the directory grows by one entry and it stays sound; afterwards \<open>search_dir_entry\<close> finds the
  new entry under its name and for every other name what it found before. The blocks of other
  files are as before.
\<close>

theorem sync_dir_entry_adds_name:
  assumes "fs_ok k" "blocks_synced k" "blocks_fit k" "mallocs k = []" "dirs k pd = Some dd"
    "inodes k (dir_inode dd) = Some i" "dir_ok k i" "entry_sane e" "f_type e \<noteq> 0"
    "used (block_bitmap k) \<noteq> {..<nbits (block_bitmap k)}" "has_room k i m"
    "find_name (name_of e) (entries_of k i) = None"
  shows "\<exists>k' i'. sync_dir_entry pd e k = Inr (True, k') \<and> inodes k' (dir_inode dd) = Some i' \<and> dir_ok k' i' \<and>
    i_size i' = i_size i + 24 \<and>
    (\<forall>nm. nm \<noteq> [] \<longrightarrow> (\<exists>r. search_dir_entry pd nm k = Inr (r, k) \<and>
       search_dir_entry pd nm k' = Inr (if nm = name_of e then Some e else r, k'))) \<and>
    (\<forall>b. block_in_use k b \<and> b \<notin> set (take 12 (i_sectors i)) \<longrightarrow>
       block_in_use k' b \<and> sectors (disk_image k') b 1 = sectors (disk_image k) b 1)"
proof -
  obtain k' where r: "sync_dir_entry pd e k = Inr (True, k')" "entry_added k (dir_inode dd) i e k'"
    using sync_dir_entry_ok [OF assms(1-3,5-11)] by blast
  obtain i' where i': "inodes k' = (inodes k)(dir_inode dd \<mapsto> i')" "dir_ok k' i'" "inserted e (entries_of k i) (entries_of k' i')"
    and f: "fs_ok k'" "blocks_synced k'" "blocks_fit k'" "dirs k' = dirs k" "mallocs k' = mallocs k"
      "\<forall>b. block_in_use k b \<and> b \<notin> set (take 12 (i_sectors i)) \<longrightarrow>
         block_in_use k' b \<and> sectors (disk_image k') b 1 = sectors (disk_image k) b 1"
    using r(2) unfolding entry_added_def by blast
  have at: "inodes k' (dir_inode dd) = Some i'" by (simp add: i'(1))
  have "search_dir_entry pd nm k = Inr (find_name nm (entries_of k i), k) \<and>
      search_dir_entry pd nm k' = Inr (if nm = name_of e then Some e else find_name nm (entries_of k i), k')" if "nm \<noteq> []" for nm
  proof -
    have m': "mallocs k' = []" "dirs k' pd = Some dd" using f(4,5) assms(4,5) by simp_all
    show ?thesis
      using search_dir_entry_find [OF assms(1,3,4,5,6,7) that] search_dir_entry_find [OF f(1,3) m' at i'(2) that]
        find_name_inserted [OF i'(3) assms(12), of nm] by simp
  qed
  moreover have "i_size i' = i_size i + 24" using assms(7) i'(2) inserted_length [OF i'(3)] by (simp add: dir_ok_def)
  ultimately show ?thesis using r(1) at i'(2) f(6) by blast
qed

theorem sync_dir_entry_adds_name_witness:
  "\<exists>k' i'. sync_dir_entry 1 demo_entry demo_empty = Inr (True, k') \<and> inodes k' 0 = Some i' \<and> dir_ok k' i' \<and>
     i_size i' = 24 \<and> search_dir_entry 1 [97] k' = Inr (Some demo_entry, k')"
proof -
  let ?dd = "\<lparr>dir_inode = 0, dir_pos = 0, dir_buf = replicate 512 0\<rparr>" and ?i = "inode_init 0"
  have d: "mallocs demo_empty = []" "dirs demo_empty 1 = Some ?dd" "inodes demo_empty (dir_inode ?dd) = Some ?i"
    "f_type demo_entry \<noteq> 0" "used (block_bitmap demo_empty) \<noteq> {..<nbits (block_bitmap demo_empty)}"
    "has_room demo_empty ?i 0" "find_name (name_of demo_entry) (entries_of demo_empty ?i) = None"
    by (simp_all add: demo_empty_ok has_room_def find_name_def) (auto simp: demo_empty_def nbits_def inode_init_def lessThan_empty_iff dest: sym)
  from sync_dir_entry_adds_name [OF demo_empty_ok(1-3) d(1-3) demo_empty_ok(4) demo_entry_simps(1) d(4-7)]
  obtain k' i' where *: "sync_dir_entry 1 demo_entry demo_empty = Inr (True, k')" "inodes k' (dir_inode ?dd) = Some i'" "dir_ok k' i'"
    "i_size i' = i_size ?i + 24"
    "\<forall>nm. nm \<noteq> [] \<longrightarrow> (\<exists>r. search_dir_entry 1 nm demo_empty = Inr (r, demo_empty) \<and>
       search_dir_entry 1 nm k' = Inr (if nm = name_of demo_entry then Some demo_entry else r, k'))" by blast
  from *(5) [rule_format, of "[97]"] *(1-4) show ?thesis by (auto simp: inode_init_def)
qed

text \<open>
  C33: A name that is removed from a directory is gone. When the heap has memory and exactly one entry of a sound directory
  with different names, other than \<open>.\<close> and \<open>..\<close>, has the given i-node number, \<open>delete_dir_entry\<close>
  succeeds, whether it only clears the entry or gives the entry's block back; the size of the
  directory shrinks by one entry and it stays sound, its i-node on disk is the one in memory,
  and \<open>search_dir_entry\<close> finds every name it found before except the one of that entry. The blocks
  of other files are as before.
\<close>

theorem delete_dir_entry_removes_name:
  assumes "fs_ok k" "blocks_synced k" "blocks_fit k" "mallocs k = []" "dirs k pd = Some dd"
    "inodes k (dir_inode dd) = Some i" "dir_ok k i" "i_no i < 4096" "dots_ok k i"
    "filter (wanted no) (entries_of k i) = [e]" "distinct (map name_of (entries_of k i))"
  shows "\<exists>k' i'. delete_dir_entry pd no k = Inr (True, k') \<and> inodes k' (dir_inode dd) = Some i' \<and> dir_ok k' i' \<and>
    i_size i = i_size i' + 24 \<and> disk_inode k' (i_no i) = pure_inode i' \<and>
    (\<forall>nm. nm \<noteq> [] \<longrightarrow> (\<exists>r. search_dir_entry pd nm k = Inr (r, k) \<and>
       search_dir_entry pd nm k' = Inr (if nm = name_of e then None else r, k'))) \<and>
    (\<forall>b. block_in_use k b \<and> b \<notin> set (take 12 (i_sectors i)) \<longrightarrow>
       block_in_use k' b \<and> sectors (disk_image k') b 1 = sectors (disk_image k) b 1)"
proof -
  obtain k' where r: "delete_dir_entry pd no k = Inr (True, k')" "entry_removed k (dir_inode dd) i e k'"
    using delete_dir_entry_ok [OF assms(1-3,5-10)] by blast
  obtain i' where i': "inodes k' = (inodes k)(dir_inode dd \<mapsto> i')" "dir_ok k' i'" "inserted e (entries_of k' i') (entries_of k i)"
      "disk_inode k' (i_no i) = pure_inode i'"
    and f: "fs_ok k'" "blocks_synced k'" "blocks_fit k'" "dirs k' = dirs k" "mallocs k' = mallocs k"
      "\<forall>b. block_in_use k b \<and> b \<notin> set (take 12 (i_sectors i)) \<longrightarrow>
         block_in_use k' b \<and> sectors (disk_image k') b 1 = sectors (disk_image k) b 1"
    using r(2) unfolding entry_removed_def by blast
  have at: "inodes k' (dir_inode dd) = Some i'" by (simp add: i'(1))
  have "search_dir_entry pd nm k = Inr (find_name nm (entries_of k i), k) \<and>
      search_dir_entry pd nm k' = Inr (if nm = name_of e then None else find_name nm (entries_of k i), k')" if "nm \<noteq> []" for nm
  proof -
    have m': "mallocs k' = []" "dirs k' pd = Some dd" using f(4,5) assms(4,5) by simp_all
    show ?thesis
      using search_dir_entry_find [OF assms(1,3,4,5,6,7) that] search_dir_entry_find [OF f(1,3) m' at i'(2) that]
        find_name_removed [OF i'(3) assms(11), of nm] by simp
  qed
  moreover have "i_size i = i_size i' + 24" using assms(7) i'(2) inserted_length [OF i'(3)] by (simp add: dir_ok_def)
  ultimately show ?thesis using r(1) at i'(2,4) f(6) by blast
qed

theorem delete_dir_entry_removes_name_witness:
  "\<exists>k' i'. delete_dir_entry 1 7 demo_one = Inr (True, k') \<and> inodes k' 0 = Some i' \<and> dir_ok k' i' \<and>
     i_size i' = 0 \<and> search_dir_entry 1 [97] k' = Inr (None, k')"
proof -
  let ?dd = "\<lparr>dir_inode = 0, dir_pos = 0, dir_buf = replicate 512 0\<rparr>" and ?i = demo_dir_inode
  have d: "mallocs demo_one = []" "dirs demo_one 1 = Some ?dd" "inodes demo_one (dir_inode ?dd) = Some ?i"
    by (simp_all add: demo_one_def)
  have n: "i_no ?i < 4096" "i_size ?i = 24" by (simp_all add: demo_dir_inode_def inode_init_def)
  have w: "filter (wanted 7) (entries_of demo_one ?i) = [demo_entry]" "distinct (map name_of (entries_of demo_one ?i))"
    unfolding demo_one_live by (simp_all add: wanted_def plain_def)
  from delete_dir_entry_removes_name [OF demo_one_ok d demo_one_dir(1) n(1) demo_one_dir(2) w]
  obtain k' i' where *: "delete_dir_entry 1 7 demo_one = Inr (True, k')" "inodes k' (dir_inode ?dd) = Some i'" "dir_ok k' i'"
    "i_size ?i = i_size i' + 24"
    "\<forall>nm. nm \<noteq> [] \<longrightarrow> (\<exists>r. search_dir_entry 1 nm demo_one = Inr (r, demo_one) \<and>
       search_dir_entry 1 nm k' = Inr (if nm = name_of demo_entry then None else r, k'))" by blast
  from *(5) [rule_format, of "[97]"] *(1-4) n(2) show ?thesis by auto
qed

end
