(* ===== verification/Washpath.thy ===== *)
theory Washpath
  imports Path Dir
begin

text \<open>
  \<open>wash_path\<close> of \<open>shell/buildin_cmd.c\<close>: the shell removes the names \<open>.\<close> and \<open>..\<close> from an absolute
  path before it hands the path to the kernel, whose search only follows plain names. The
  reference reads the names of the path from left to right and keeps a stack of directories.
\<close>

section \<open>Definitions\<close>

text \<open>
  One round of the loop on the result so far. \<open>strrchr\<close> finds the last slash; it is cut off
  with the name behind it, unless it is the first character.
\<close>

definition wash_step :: "u8 list \<Rightarrow> u8 list \<Rightarrow> u8 list res" where
  "wash_step nm new_abs_path =
     (if nm = DOTDOT
      then let slash_ptr = length new_abs_path - length (last_slash new_abs_path)
           in Inr (if slash_ptr \<noteq> 0 then take slash_ptr new_abs_path else take (slash_ptr + 1) new_abs_path)
      else if nm \<noteq> DOT
      then let new_abs_path = (if new_abs_path \<noteq> [SLASH] then new_abs_path @ [SLASH] else new_abs_path) @ nm
           in GUARD (length new_abs_path < MAX_PATH_LEN) ''new_abs_path'' (Inr new_abs_path)
      else Inr new_abs_path)"

function wash_from :: "u8 list \<Rightarrow> u8 list option \<Rightarrow> u8 list \<Rightarrow> u8 list res" where
  "wash_from nm sub_path new_abs_path =
     (if nm = [] then Inr new_abs_path
      else bnd (wash_step nm new_abs_path) (\<lambda>new_abs_path.
           GUARD (length (fst (next_name sub_path)) < MAX_PATH_LEN) ''name''
             (wash_from (fst (next_name sub_path)) (snd (next_name sub_path)) new_abs_path)))"
  by pat_completeness auto
termination
proof (relation "measures [\<lambda>(nm, p, new). path_left p, \<lambda>(nm, p, new). length nm]")
  fix nm :: "u8 list" and p and new1 new2 :: "u8 list"
  assume "nm \<noteq> []"
  then show "((fst (next_name p), snd (next_name p), new2), nm, p, new1)
      \<in> measures [\<lambda>(nm, p, new). path_left p, \<lambda>(nm, p, new). length nm]"
    using next_name_left [of p] by (cases p) (auto simp: next_name_def path_left_def)
qed simp

declare wash_from.simps [simp del]

definition wash_path :: "u8 list \<Rightarrow> u8 list res" where
  "wash_path old_abs_path =
     ASSERT (old_abs_path \<noteq> [] \<and> hd old_abs_path = SLASH) ''old_abs_path[0] == /''
      (let (nm, sub_path) = path_parse old_abs_path in
       GUARD (length nm < MAX_PATH_LEN) ''name''
        (if nm = [] then Inr [SLASH] else wash_from nm sub_path [SLASH]))"

section \<open>The reference\<close>

fun enter :: "u8 list list \<Rightarrow> u8 list \<Rightarrow> u8 list list" where
  "enter st n = (if n = DOTDOT then butlast st else if n = DOT then st else st @ [n])"

definition resolve :: "u8 list list \<Rightarrow> u8 list list" where
  "resolve ns = foldl enter [] ns"

definition abs_path_of :: "u8 list list \<Rightarrow> u8 list" where
  "abs_path_of st = (if st = [] then [SLASH] else path_of st)"

definition name_ok :: "u8 list \<Rightarrow> bool" where
  "name_ok n \<longleftrightarrow> n \<noteq> [] \<and> SLASH \<notin> set n"

declare enter.simps [simp del]

lemma path_of_simps [simp]: "path_of [] = []" "path_of (n # ns) = SLASH # n @ path_of ns"
  "path_of (xs @ ys) = path_of xs @ path_of ys"
  by (simp_all add: path_of_def)

lemma path_of_nonempty: "path_of ns = [] \<longleftrightarrow> ns = []"
  by (cases ns) simp_all

lemma names_ok: "SLASH \<notin> set nm \<Longrightarrow> \<forall>n \<in> set (names_from nm p). name_ok n"
proof (induction p arbitrary: nm)
  case (Cons c cs)
  show ?case using Cons.prems Cons.IH [of "[]"] Cons.IH [of "nm @ [c]"] by (simp add: name_ok_def)
qed (simp add: name_ok_def)

lemma length_names: "length (path_of (names_from nm p)) \<le> 1 + length nm + length p"
proof (induction p arbitrary: nm)
  case (Cons c cs)
  show ?case using Cons.IH [of "[]"] Cons.IH [of "nm @ [c]"] by auto
qed simp

lemma length_abs_names: "p \<noteq> [] \<Longrightarrow> hd p = SLASH \<Longrightarrow> length (path_of (path_names p)) \<le> length p"
  using length_names [of "[]" "tl p"] by (cases p) (simp_all add: path_names_def)

lemma names_from_name: "SLASH \<notin> set n \<Longrightarrow> names_from nm (n @ p) = names_from (nm @ n) p"
  by (induction n arbitrary: nm) auto

lemma path_names_path_of: "\<forall>n \<in> set ns. name_ok n \<Longrightarrow> path_names (path_of ns) = ns"
proof (induction ns)
  case (Cons n ns)
  then have "names_from [] (n @ path_of ns) = names_from n (path_of ns)"
    using names_from_name [of n "[]"] by (simp add: name_ok_def)
  also have "\<dots> = n # path_names (path_of ns)"
    using Cons.prems by (cases ns) (auto simp: path_names_def name_ok_def)
  finally show ?case using Cons by (simp add: path_names_def)
qed (simp add: path_names_def)

lemma path_names_abs: "\<forall>n \<in> set ns. name_ok n \<Longrightarrow> path_names (abs_path_of ns) = ns"
  using path_names_path_of by (auto simp: abs_path_of_def path_names_def)

lemma enter_ok: "\<forall>n \<in> set st. name_ok n \<Longrightarrow> name_ok n \<Longrightarrow> \<forall>n \<in> set (enter st n). name_ok n"
  by (auto simp: enter.simps dest: in_set_butlastD)

lemma length_enter: "length (path_of (enter st n)) \<le> length (path_of st) + length (path_of [n])"
proof (cases st rule: rev_cases)
  case (snoc xs x)
  then show ?thesis by (simp add: enter.simps)
qed (simp add: enter.simps)

lemma enter_plain: "DOT \<notin> set st \<Longrightarrow> DOTDOT \<notin> set st \<Longrightarrow> DOT \<notin> set (enter st n) \<and> DOTDOT \<notin> set (enter st n)"
  by (auto simp: enter.simps dest: in_set_butlastD)

lemma resolve_plain: "DOT \<notin> set (resolve ns)" "DOTDOT \<notin> set (resolve ns)"
proof -
  have "DOT \<notin> set (resolve ns) \<and> DOTDOT \<notin> set (resolve ns)"
    by (induction ns rule: rev_induct) (simp_all add: resolve_def enter_plain)
  then show "DOT \<notin> set (resolve ns)" "DOTDOT \<notin> set (resolve ns)" by simp_all
qed

lemma resolve_ok: "\<forall>n \<in> set ns. name_ok n \<Longrightarrow> \<forall>n \<in> set (resolve ns). name_ok n"
proof (induction ns rule: rev_induct)
  case (snoc n ns)
  then show ?case using enter_ok [of "resolve ns" n] by (simp add: resolve_def)
qed (simp add: resolve_def)

lemma resolve_fixed: "DOT \<notin> set ns \<Longrightarrow> DOTDOT \<notin> set ns \<Longrightarrow> resolve ns = ns"
proof (induction ns rule: rev_induct)
  case (snoc n ns)
  then have "n \<noteq> DOT" "n \<noteq> DOTDOT" by auto
  then show ?case using snoc by (simp add: resolve_def enter.simps)
qed (simp add: resolve_def)

lemma length_resolve: "length (path_of (resolve ns)) \<le> length (path_of ns)"
proof (induction ns rule: rev_induct)
  case (snoc n ns)
  then show ?case using length_enter [of "resolve ns" n] by (simp add: resolve_def)
qed (simp add: resolve_def)

section \<open>The loop follows the reference\<close>

lemma last_slash_name: "SLASH \<notin> set n \<Longrightarrow> last_slash (xs @ SLASH # n) = SLASH # n"
  by (simp add: last_slash_def after_slash_def takeWhile_append)

lemma wash_step_enter:
  assumes "\<forall>n \<in> set st. name_ok n" "name_ok n" "length (path_of st) + length (path_of [n]) < MAX_PATH_LEN"
  shows "wash_step n (abs_path_of st) = Inr (abs_path_of (enter st n))"
proof -
  consider "n = DOTDOT" | "n = DOT" | "n \<noteq> DOTDOT" "n \<noteq> DOT" by blast
  then show ?thesis
  proof cases
    case 1
    show ?thesis
    proof (cases st rule: rev_cases)
      case Nil
      then show ?thesis using 1 last_slash_name [of "[]" "[]"] by (simp add: wash_step_def abs_path_of_def enter.simps)
    next
      case (snoc xs x)
      then have "SLASH \<notin> set x" using assms(1) by (simp add: name_ok_def)
      then have "last_slash (path_of st) = SLASH # x" using last_slash_name [of x "path_of xs"] snoc by simp
      moreover have "path_of st \<noteq> []" using snoc by simp
      ultimately show ?thesis using 1 snoc path_of_nonempty [of xs]
        by (auto simp: wash_step_def abs_path_of_def enter.simps)
    qed
  next
    case 3
    have "path_of st \<noteq> [SLASH]" using assms(1) by (cases st) (auto simp: name_ok_def)
    then show ?thesis using 3 assms(3) by (auto simp: wash_step_def abs_path_of_def enter.simps)
  qed (simp add: wash_step_def enter.simps)
qed

lemma wash_from_resolve:
  assumes "\<forall>n \<in> set st. name_ok n" "SLASH \<notin> set nm"
    "length (path_of st) + length (path_of (if nm = [] then [] else nm # (case p of None \<Rightarrow> [] | Some q \<Rightarrow> path_names q))) < MAX_PATH_LEN"
  shows "wash_from nm p (abs_path_of st) =
    Inr (abs_path_of (foldl enter st (if nm = [] then [] else nm # (case p of None \<Rightarrow> [] | Some q \<Rightarrow> path_names q))))"
  using assms
proof (induction nm p "abs_path_of st" arbitrary: st rule: wash_from.induct)
  case (1 nm p st)
  show ?case
  proof (cases "nm = []")
    case False
    obtain n r where nr: "next_name p = (n, r)" by fastforce
    have ns: "(case p of None \<Rightarrow> [] | Some q \<Rightarrow> path_names q) =
        (if n = [] then [] else n # (case r of None \<Rightarrow> [] | Some q \<Rightarrow> path_names q))" "SLASH \<notin> set n"
      using nr path_parse_names [of _ n r] by (cases p; simp add: next_name_def)+
    let ?ns = "if n = [] then [] else n # (case r of None \<Rightarrow> [] | Some q \<Rightarrow> path_names q)"
    have nm: "name_ok nm" using False 1(3) by (simp add: name_ok_def)
    have len: "length (path_of st) + length (path_of [nm]) + length (path_of ?ns) < MAX_PATH_LEN"
      using 1(4) False unfolding ns(1) by simp
    have step: "wash_step nm (abs_path_of st) = Inr (abs_path_of (enter st nm))"
      using wash_step_enter [OF 1(2) nm] len by simp
    have "length n < MAX_PATH_LEN" using len by (auto split: if_splits)
    moreover have "wash_from n r (abs_path_of (enter st nm)) = Inr (abs_path_of (foldl enter (enter st nm) ?ns))"
      by (rule 1(1) [OF False, unfolded nr fst_conv snd_conv])
        (use step enter_ok [OF 1(2) nm] ns(2) len length_enter [of st nm] in simp_all)
    ultimately show ?thesis using False unfolding ns(1) by (simp add: wash_from.simps [of nm] step nr)
  qed (simp add: wash_from.simps [of "[]"])
qed

lemma wash_path_resolve:
  assumes "p \<noteq> []" "hd p = SLASH" "length p < MAX_PATH_LEN"
  shows "wash_path p = Inr (abs_path_of (resolve (path_names p)))"
proof -
  obtain nm r where nr: "path_parse p = (nm, r)" by fastforce
  note ns = path_parse_names [OF nr]
  have "length (path_of (path_names p)) < MAX_PATH_LEN" using length_abs_names [OF assms(1,2)] assms(3) by simp
  then have len: "length (path_of (if nm = [] then [] else nm # (case r of None \<Rightarrow> [] | Some q \<Rightarrow> path_names q))) < MAX_PATH_LEN"
    unfolding ns(1) .
  then have "length nm < MAX_PATH_LEN" by (auto split: if_splits)
  moreover have "wash_from nm r [SLASH] = Inr (abs_path_of (resolve (path_names p)))"
    using wash_from_resolve [of "[]" nm r] ns(2) len unfolding ns(1) by (simp add: abs_path_of_def resolve_def)
  moreover have "resolve (path_names p) = []" if "nm = []" using that ns(1) by (simp add: resolve_def)
  ultimately show ?thesis using assms(1,2) nr by (auto simp: wash_path_def abs_path_of_def)
qed

section \<open>Results\<close>

text \<open>
  C29: The shell's cleaning of paths is the usual meaning of \<open>.\<close> and \<open>..\<close>. For every absolute path
  that fits its buffer \<open>wash_path\<close> writes the path of the directories that a reader of the names
  from left to right ends up with, who ignores \<open>.\<close> and goes up one directory on \<open>..\<close> (staying in
  the root there); the result has none of the two names left, is not longer than the path, and
  washing it again changes nothing.
\<close>

theorem wash_path_resolves_dots:
  assumes "p \<noteq> []" "hd p = SLASH" "length p < 512"
  shows "\<exists>q. wash_path p = Inr q \<and> path_names q = resolve (path_names p) \<and> DOT \<notin> set (path_names q) \<and>
    DOTDOT \<notin> set (path_names q) \<and> length q \<le> length p \<and> wash_path q = Inr q"
proof -
  let ?st = "resolve (path_names p)" let ?q = "abs_path_of ?st"
  have ok: "\<forall>n \<in> set ?st. name_ok n" using names_ok [of "[]" p] by (intro resolve_ok) (simp add: path_names_def)
  have nq: "path_names ?q = ?st" by (rule path_names_abs [OF ok])
  have "length (path_of ?st) \<le> length p"
    using length_resolve [of "path_names p"] length_abs_names [OF assms(1,2)] by simp
  then have lq: "length ?q \<le> length p" using assms(1) by (cases p) (simp_all add: abs_path_of_def)
  have "?q \<noteq> [] \<and> hd ?q = SLASH" by (cases ?st) (simp_all add: abs_path_of_def)
  then have "wash_path ?q = Inr ?q"
    using wash_path_resolve [of ?q] lq assms(3) nq resolve_fixed [OF resolve_plain] by simp
  then show ?thesis using wash_path_resolve [OF assms] nq lq resolve_plain [of "path_names p"] by auto
qed

lemma wash_path_resolves_dots_witness:
  "\<exists>q. wash_path [SLASH, 0x61, SLASH, 0x2e, SLASH, 0x62, SLASH, 0x2e, 0x2e, SLASH, SLASH, 0x63] = Inr q \<and>
    path_names q = [[0x61], [0x63]] \<and> wash_path q = Inr q"
  using wash_path_resolves_dots [of "[SLASH, 0x61, SLASH, 0x2e, SLASH, 0x62, SLASH, 0x2e, 0x2e, SLASH, SLASH, 0x63]"]
  by (auto simp: path_names_def resolve_def enter.simps)

end
