(* ===== verification/CString.thy ===== *)
theory CString
  imports Fsdata
begin

text \<open>
  \<open>lib/string.c\<close>, the string and memory routines that kernel and user programs share. A pointer is
  a buffer together with an offset into it; an access behind the end of the buffer is a
  \<open>Fault\<close>. No caller passes \<open>NULL\<close>, and the two buffers of the copying routines are different
  objects. A \<open>char\<close> is signed on the target, a \<open>uint8_t\<close> is not.
\<close>

section \<open>Definitions\<close>

definition at :: "u8 list \<Rightarrow> nat \<Rightarrow> u8 res" where
  "at s i = GUARD (i < length s) ''string'' (Inr (s ! i))"

fun memset :: "u8 list \<Rightarrow> nat \<Rightarrow> u8 \<Rightarrow> nat \<Rightarrow> u8 list res" where
  "memset dst d value 0 = Inr dst"
| "memset dst d value (Suc n) = GUARD (d < length dst) ''string'' (memset (dst[d := value]) (Suc d) value n)"

fun memcpy :: "u8 list \<Rightarrow> nat \<Rightarrow> u8 list \<Rightarrow> nat \<Rightarrow> nat \<Rightarrow> u8 list res" where
  "memcpy dst d src s 0 = Inr dst"
| "memcpy dst d src s (Suc n) =
     bnd (at src s) (\<lambda>c. GUARD (d < length dst) ''string'' (memcpy (dst[d := c]) (Suc d) src (Suc s) n))"

fun memcmp :: "u8 list \<Rightarrow> nat \<Rightarrow> u8 list \<Rightarrow> nat \<Rightarrow> nat \<Rightarrow> int res" where
  "memcmp a i b j 0 = Inr 0"
| "memcmp a i b j (Suc n) =
     bnd (at a i) (\<lambda>x. bnd (at b j) (\<lambda>y.
     if x \<noteq> y then Inr (if x > y then 1 else -1) else memcmp a (Suc i) b (Suc j) n))"

text \<open>The loops below run until they find the 0, at most to the end of the buffer.\<close>

function strcpy :: "u8 list \<Rightarrow> nat \<Rightarrow> u8 list \<Rightarrow> nat \<Rightarrow> u8 list res" where
  "strcpy dst d src s =
     (if s < length src
      then GUARD (d < length dst) ''string''
            (if src ! s = 0 then Inr (dst[d := src ! s]) else strcpy (dst[d := src ! s]) (Suc d) src (Suc s))
      else Inl (Fault ''string''))"
  by pat_completeness auto
termination by (relation "measure (\<lambda>(dst, d, src, s). length src - s)") auto

function strlen :: "u8 list \<Rightarrow> nat \<Rightarrow> nat res" where
  "strlen str p =
     (if p < length str
      then (if str ! p = 0 then Inr 0 else bnd (strlen str (Suc p)) (\<lambda>n. Inr (Suc n)))
      else Inl (Fault ''string''))"
  by pat_completeness auto
termination by (relation "measure (\<lambda>(str, p). length str - p)") auto

function strcmp :: "u8 list \<Rightarrow> nat \<Rightarrow> u8 list \<Rightarrow> nat \<Rightarrow> int res" where
  "strcmp a i b j =
     (if i < length a \<and> j < length b
      then (if a ! i \<noteq> 0 \<and> a ! i = b ! j then strcmp a (Suc i) b (Suc j)
            else Inr (if sint (a ! i) < sint (b ! j) then -1 else if sint (a ! i) > sint (b ! j) then 1 else 0))
      else Inl (Fault ''string''))"
  by pat_completeness auto
termination by (relation "measure (\<lambda>(a, i, b, j). length a - i)") auto

text \<open>
  The comparison \<open>*str == ch\<close> is between a signed and an unsigned character. The result is the
  offset of the character, \<open>None\<close> for \<open>NULL\<close>.
\<close>

definition char_is :: "u8 \<Rightarrow> u8 \<Rightarrow> bool" where
  "char_is c ch \<longleftrightarrow> sint c = uint ch"

function strchr :: "u8 list \<Rightarrow> nat \<Rightarrow> u8 \<Rightarrow> nat option res" where
  "strchr str p ch =
     (if p < length str
      then (if str ! p = 0 then Inr None else if char_is (str ! p) ch then Inr (Some p) else strchr str (Suc p) ch)
      else Inl (Fault ''string''))"
  by pat_completeness auto
termination by (relation "measure (\<lambda>(str, p, ch). length str - p)") auto

function strrchr_from :: "u8 list \<Rightarrow> nat \<Rightarrow> u8 \<Rightarrow> nat option \<Rightarrow> nat option res" where
  "strrchr_from str p ch last_char =
     (if p < length str
      then (if str ! p = 0 then Inr last_char
            else strrchr_from str (Suc p) ch (if char_is (str ! p) ch then Some p else last_char))
      else Inl (Fault ''string''))"
  by pat_completeness auto
termination by (relation "measure (\<lambda>(str, p, ch, l). length str - p)") auto

definition strrchr :: "u8 list \<Rightarrow> nat \<Rightarrow> u8 \<Rightarrow> nat option res" where
  "strrchr str p ch = strrchr_from str p ch None"

definition strcat :: "u8 list \<Rightarrow> nat \<Rightarrow> u8 list \<Rightarrow> nat \<Rightarrow> u8 list res" where
  "strcat dst d src s = bnd (strlen dst d) (\<lambda>n. strcpy dst (d + n) src s)"

function strchrs_from :: "u8 list \<Rightarrow> nat \<Rightarrow> u8 \<Rightarrow> nat \<Rightarrow> nat res" where
  "strchrs_from str p ch ch_cnt =
     (if p < length str
      then (if str ! p = 0 then Inr ch_cnt
            else strchrs_from str (Suc p) ch (if char_is (str ! p) ch then ch_cnt + 1 else ch_cnt))
      else Inl (Fault ''string''))"
  by pat_completeness auto
termination by (relation "measure (\<lambda>(str, p, ch, n). length str - p)") auto

definition strchrs :: "u8 list \<Rightarrow> nat \<Rightarrow> u8 \<Rightarrow> nat res" where
  "strchrs str p ch = strchrs_from str p ch 0"

declare strcpy.simps [simp del] strlen.simps [simp del] strcmp.simps [simp del] strchr.simps [simp del]
  strrchr_from.simps [simp del] strchrs_from.simps [simp del]

section \<open>Buffers and strings\<close>

text \<open>The string at an offset, and what it means that there is one.\<close>

definition str_at :: "u8 list \<Rightarrow> nat \<Rightarrow> u8 list" where
  "str_at s i = cstr (drop i s)"

definition terminated :: "u8 list \<Rightarrow> nat \<Rightarrow> bool" where
  "terminated s i \<longleftrightarrow> 0 \<in> set (drop i s)"

lemma terminated_less: "terminated s i \<Longrightarrow> i < length s"
  by (rule ccontr) (simp add: terminated_def)

lemma terminated_Suc: "terminated s i \<Longrightarrow> s ! i \<noteq> 0 \<Longrightarrow> terminated s (Suc i)"
  using Cons_nth_drop_Suc [OF terminated_less, of s i] by (auto simp: terminated_def) (metis set_ConsD)

lemma str_at_step: "i < length s \<Longrightarrow> str_at s i = (if s ! i = 0 then [] else s ! i # str_at s (Suc i))"
  by (simp add: str_at_def cstr_def Cons_nth_drop_Suc [symmetric])

lemma terminated_induct [consumes 1, case_names zero more]:
  assumes "terminated s i"
    and "\<And>i. i < length s \<Longrightarrow> s ! i = 0 \<Longrightarrow> P i"
    and "\<And>i. i < length s \<Longrightarrow> s ! i \<noteq> 0 \<Longrightarrow> terminated s (Suc i) \<Longrightarrow> P (Suc i) \<Longrightarrow> P i"
  shows "P i"
  using assms(1)
proof (induction "length s - i" arbitrary: i rule: less_induct)
  case less
  note lt = terminated_less [OF less.prems]
  show ?case
  proof (cases "s ! i = 0")
    case False
    have "length s - Suc i < length s - i" using lt by simp
    then show ?thesis using assms(3) [OF lt False] less.hyps terminated_Suc [OF less.prems False] by blast
  qed (use assms(2) lt in blast)
qed

lemma strlen_str: "terminated s i \<Longrightarrow> strlen s i = Inr (length (str_at s i))"
  by (induction rule: terminated_induct) (simp_all add: strlen.simps [of s] str_at_step)

lemma strlen_end: "terminated s i \<Longrightarrow> i + length (str_at s i) < length s \<and> s ! (i + length (str_at s i)) = 0"
proof (induction rule: terminated_induct)
  case (more i)
  then show ?case by (subst (1 2) str_at_step [of i]) simp_all
qed (simp add: str_at_step)

lemma str_at_unterminated: "\<not> terminated s i \<Longrightarrow> strlen s i = Inl (Fault ''string'')"
proof (induction "length s - i" arbitrary: i rule: less_induct)
  case less
  show ?case
  proof (cases "i < length s")
    case True
    have "s ! i \<noteq> 0 \<and> \<not> terminated s (Suc i)"
      using less.prems True Cons_nth_drop_Suc [OF True, symmetric] by (auto simp: terminated_def)
    moreover have "length s - Suc i < length s - i" using True by simp
    ultimately show ?thesis using less.hyps [of "Suc i"] True by (simp add: strlen.simps [of s i])
  qed (simp add: strlen.simps)
qed

lemma strlen_eq: "strlen s i = (if terminated s i then Inr (length (str_at s i)) else Inl (Fault ''string''))"
  by (simp add: strlen_str str_at_unterminated)

text \<open>The copying routines write the string with its 0 when it fits, and only there.\<close>

lemma strcpy_str:
  assumes "terminated src s"
  shows "strcpy dst d src s =
    (if d + length (str_at src s) < length dst then Inr (splice d (str_at src s @ [0]) dst) else Inl (Fault ''string''))"
  using assms
proof (induction arbitrary: dst d rule: terminated_induct)
  case (zero s)
  then show ?case
    by (simp add: strcpy.simps [of dst d] str_at_step splice_def GUARD_def upd_conv_take_nth_drop)
next
  case (more s)
  have step: "strcpy dst d src s = GUARD (d < length dst) ''string'' (strcpy (dst[d := src ! s]) (Suc d) src (Suc s))"
    using more.hyps(1,2) by (simp add: strcpy.simps [of dst d src s])
  have "splice (Suc d) xs (dst[d := c]) = splice d (c # xs) dst" if "d < length dst" for xs c
    using that by (simp add: splice_def take_Suc_conv_app_nth)
  then show ?case unfolding step using more.IH more.hyps(1,2) str_at_step [of s src]
    by (simp add: GUARD_def)
qed

lemma strchr_str:
  assumes "terminated str p" "unat ch < 128"
  shows "strchr str p ch =
    (if ch \<in> set (str_at str p) then Inr (Some (p + length (takeWhile (\<lambda>c. c \<noteq> ch) (str_at str p)))) else Inr None)"
  using assms(1)
proof (induction rule: terminated_induct)
  case (zero p)
  then show ?case by (simp add: strchr.simps [of str p] str_at_step)
next
  case (more p)
  have "int (unat ch) < 128" using assms(2) by linarith
  then have "uint ch < 128" by simp
  then have "sint ch = uint ch"
    using signed_take_bit_int_eq_self [of 7 "uint ch"] uint_ge_0 [of ch] by (simp add: sint_uint)
  then have "char_is c ch \<longleftrightarrow> c = ch" for c
    unfolding char_is_def by (metis signed_word_eqI)
  then show ?case using more by (simp add: strchr.simps [of str p] str_at_step [of p])
qed

end
