(* ===== verification/Stdio.thy ===== *)
theory Stdio
  imports CString
begin

text \<open>
  \<open>lib/stdio.c\<close>: the formatted output. \<open>vsprintf\<close> writes into a buffer that the caller has to clear,
  because it does not store a terminating 0 itself.
\<close>

section \<open>Definitions\<close>

text \<open>The digits of \<open>itoa\<close>, from the most significant one on.\<close>

definition digit_char :: "nat \<Rightarrow> u8" where
  "digit_char m = (if m < 10 then of_nat m + 0x30 else of_nat m - 10 + 0x41)"

function itoa :: "nat \<Rightarrow> nat \<Rightarrow> u8 list res" where
  "itoa value base =
     (if base < 2 then Inl (Fault ''itoa'')
      else let m = value mod base; i = value div base in
        bnd (if i \<noteq> 0 then itoa i base else Inr []) (\<lambda>ds. Inr (ds @ [digit_char m])))"
  by pat_completeness auto
termination
proof (relation "measure fst")
  fix v base m i :: nat
  assume "\<not> base < 2" "i = v div base" "i \<noteq> 0"
  then show "((i, base), v, base) \<in> measure fst"
    by (cases "v = 0") (simp_all add: div_less_dividend)
qed simp

declare itoa.simps [simp del]

text \<open>
  The variable arguments: 32-bit values and strings. Reading past the last one, or one as the
  other kind, is a fault.
\<close>

datatype va_arg = IntArg u32 | StrArg "u8 list"

text \<open>\<open>*(buf_ptr++) = c\<close> for each character of \<open>cs\<close>.\<close>

definition emit :: "u8 list \<Rightarrow> u8 list \<times> nat \<Rightarrow> (u8 list \<times> nat) res" where
  "emit cs sp = GUARD (snd sp + length cs \<le> length (fst sp)) ''str'' (Inr (splice (snd sp) cs (fst sp), snd sp + length cs))"

definition int_arg :: "va_arg list \<Rightarrow> (u32 \<times> va_arg list) res" where
  "int_arg ap = (case ap of IntArg w # ap' \<Rightarrow> Inr (w, ap') | _ \<Rightarrow> Inl (Fault ''va_arg''))"

definition str_arg :: "va_arg list \<Rightarrow> (u8 list \<times> va_arg list) res" where
  "str_arg ap = (case ap of StrArg s # ap' \<Rightarrow> Inr (s, ap') | _ \<Rightarrow> Inl (Fault ''va_arg''))"

text \<open>
  One conversion, for the character behind the \<open>%\<close>; \<open>None\<close> when the \<open>switch\<close> has no case for it.
  \<open>strcpy\<close> of a string also stores its 0.
\<close>

definition convert :: "u8 \<Rightarrow> va_arg list \<Rightarrow> u8 list \<times> nat \<Rightarrow> (va_arg list \<times> u8 list \<times> nat) res option" where
  "convert c ap sp =
     (if c = 0x78 then Some (bnd (int_arg ap) (\<lambda>(w, ap). bnd (itoa (unat w) 16) (\<lambda>ds. bnd (emit ds sp) (\<lambda>sp. Inr (ap, sp)))))
      else if c = 0x73 then Some (bnd (str_arg ap) (\<lambda>(s, ap). bnd (emit (s @ [0]) sp) (\<lambda>(str, p). Inr (ap, str, p - 1))))
      else if c = 0x63 then Some (bnd (int_arg ap) (\<lambda>(w, ap). bnd (emit [ucast w] sp) (\<lambda>sp. Inr (ap, sp))))
      else if c = 0x64 then Some (bnd (int_arg ap) (\<lambda>(w, ap).
        let neg = sint w < 0; w = (if neg then 0 - w else w) in
        bnd (if neg then emit [0x2d] sp else Inr sp) (\<lambda>sp.
        bnd (itoa (unat w) 10) (\<lambda>ds. bnd (emit ds sp) (\<lambda>sp. Inr (ap, sp))))))
      else None)"

text \<open>
  The loop over the format. An unknown conversion is not consumed: the character is then looked
  at again as an ordinary one, or as the next \<open>%\<close>.
\<close>

function format_loop :: "u8 list \<Rightarrow> va_arg list \<Rightarrow> u8 list \<times> nat \<Rightarrow> (u8 list \<times> nat) res" where
  "format_loop fmt ap sp =
     (case fmt of
        [] \<Rightarrow> Inr sp
      | c # rest \<Rightarrow>
          if c \<noteq> 0x25 then bnd (emit [c] sp) (\<lambda>sp. format_loop rest ap sp)
          else (case rest of
                  [] \<Rightarrow> Inr sp
                | d # rest' \<Rightarrow>
                    (case convert d ap sp of
                       Some r \<Rightarrow> bnd r (\<lambda>(ap, sp). format_loop rest' ap sp)
                     | None \<Rightarrow> format_loop rest ap sp)))"
  by pat_completeness auto
termination by (relation "measure (\<lambda>(fmt, ap, sp). length fmt)") auto

declare format_loop.simps [simp del]

text \<open>The buffer after the call and the returned \<open>strlen(str)\<close>.\<close>

definition vsprintf :: "u8 list \<Rightarrow> u8 list \<Rightarrow> va_arg list \<Rightarrow> (u8 list \<times> nat) res" where
  "vsprintf str format ap =
     bnd (format_loop format ap (str, 0)) (\<lambda>(str, p). bnd (strlen str 0) (\<lambda>n. Inr (str, n)))"

definition sprintf :: "u8 list \<Rightarrow> u8 list \<Rightarrow> va_arg list \<Rightarrow> (u8 list \<times> nat) res" where
  "sprintf buf format args = vsprintf buf format args"

text \<open>
  What \<open>printf\<close> hands to \<open>write\<close>, from its buffer of 1204 bytes, and what \<open>printk\<close> prints, from one
  of 1024.
\<close>

definition printf_text :: "u8 list \<Rightarrow> va_arg list \<Rightarrow> u8 list res" where
  "printf_text format args =
     bnd (vsprintf (replicate 1204 0) format args) (\<lambda>(buf, n). Inr (take n buf))"

definition printk_text :: "u8 list \<Rightarrow> va_arg list \<Rightarrow> u8 list res" where
  "printk_text format args =
     bnd (vsprintf (replicate 1024 0) format args) (\<lambda>(buf, n). Inr (take n buf))"

section \<open>Digits\<close>

definition digit_val :: "u8 \<Rightarrow> nat option" where
  "digit_val c =
     (if 0x30 \<le> c \<and> c \<le> 0x39 then Some (unat c - 0x30)
      else if 0x41 \<le> c \<and> c \<le> 0x46 then Some (unat c - 0x41 + 10) else None)"

text \<open>The number a string of digits below \<open>base\<close> denotes; other strings, and the empty one, denote none.\<close>

definition add_digit :: "nat \<Rightarrow> nat option \<Rightarrow> u8 \<Rightarrow> nat option" where
  "add_digit base acc c =
     (case (acc, digit_val c) of (Some n, Some v) \<Rightarrow> if v < base then Some (base * n + v) else None | _ \<Rightarrow> None)"

definition number :: "nat \<Rightarrow> u8 list \<Rightarrow> nat option" where
  "number base ds = (if ds = [] then None else foldl (add_digit base) (Some 0) ds)"

lemma number_snoc: "number base ds = Some n \<Longrightarrow> number base (ds @ [d]) = add_digit base (Some n) d"
  by (auto simp: number_def split: if_splits)

lemma digit_char_numbers:
  assumes "m < 16"
  shows "unat (digit_char m) = (if m < 10 then m + 0x30 else m + 0x37)" "digit_val (digit_char m) = Some m" "digit_char m \<noteq> 0"
proof -
  have "of_nat m - 10 + 0x41 = (of_nat (m + 0x37) :: u8)" "of_nat m + 0x30 = (of_nat (m + 0x30) :: u8)" by simp_all
  then show u: "unat (digit_char m) = (if m < 10 then m + 0x30 else m + 0x37)"
    using assms by (simp add: digit_char_def unsigned_of_nat take_bit_nat_eq_self del: of_nat_add)
  show "digit_val (digit_char m) = Some m" using u assms by (simp add: digit_val_def word_le_nat_alt)
  show "digit_char m \<noteq> 0" using u by (auto split: if_splits)
qed

lemma itoa_number:
  assumes "2 \<le> base" "base \<le> 16"
  shows "\<exists>ds. itoa v base = Inr ds \<and> number base ds = Some v \<and> ds \<noteq> [] \<and> set ds \<subseteq> digit_char ` {..<base} \<and>
    (v \<noteq> 0 \<longrightarrow> hd ds \<noteq> digit_char 0) \<and> (\<forall>k. v < base ^ Suc k \<longrightarrow> length ds \<le> Suc k)"
proof (induction v rule: less_induct)
  case (less v)
  have m: "v mod base < 16" "v mod base < base" using assms by (auto intro: less_le_trans [OF mod_less_divisor])
  show ?case
  proof (cases "v div base = 0")
    case True
    then have "v < base" using assms by (simp add: div_eq_0_iff)
    moreover have "digit_char v \<noteq> digit_char 0" if "v \<noteq> 0"
      using digit_char_numbers(2) [of v] digit_char_numbers(2) [of 0] m(1) that \<open>v < base\<close> by auto
    ultimately show ?thesis using assms True m digit_char_numbers(2) [OF m(1)]
      by (subst itoa.simps) (auto simp: number_def add_digit_def Let_def)
  next
    case False
    then have "v \<noteq> 0" by (metis div_0)
    then have "v div base < v" using assms by (intro div_less_dividend) auto
    from less.IH [OF this] obtain ds where ds: "itoa (v div base) base = Inr ds" "number base ds = Some (v div base)" "ds \<noteq> []"
      "set ds \<subseteq> digit_char ` {..<base}" "hd ds \<noteq> digit_char 0" "\<forall>k. v div base < base ^ Suc k \<longrightarrow> length ds \<le> Suc k"
      using False by blast
    have "itoa v base = Inr (ds @ [digit_char (v mod base)])"
      using assms False ds(1) by (subst itoa.simps) (simp add: Let_def)
    moreover have "length (ds @ [digit_char (v mod base)]) \<le> Suc k" if "v < base ^ Suc k" for k
    proof (cases k)
      case 0
      then show ?thesis using that False by (simp add: div_eq_0_iff)
    next
      case (Suc j)
      have "v div base < base ^ Suc j" using that assms Suc by (simp add: less_mult_imp_div_less mult.commute)
      then show ?thesis using ds(6) Suc by simp
    qed
    moreover have "number base (ds @ [digit_char (v mod base)]) = Some v"
      using number_snoc [OF ds(2)] digit_char_numbers(2) [OF m(1)] m(2) by (simp add: add_digit_def)
    ultimately show ?thesis using ds m by (intro exI [of _ "ds @ [digit_char (v mod base)]"]) auto
  qed
qed

section \<open>Output into a cleared buffer\<close>

text \<open>The text \<open>xs\<close> in a buffer of \<open>n\<close> bytes that is clear behind it.\<close>

definition text_in :: "nat \<Rightarrow> u8 list \<Rightarrow> u8 list" where
  "text_in n xs = xs @ replicate (n - length xs) 0"

lemma emit_text:
  "length xs + length cs \<le> n \<Longrightarrow>
   emit cs (text_in n xs, length xs) = Inr (text_in n (xs @ cs), length (xs @ cs))"
  by (simp add: emit_def text_in_def splice_def)

lemma strlen_text:
  assumes "0 \<notin> set xs" "length xs < n"
  shows "strlen (text_in n xs) 0 = Inr (length xs)"
proof -
  obtain k where k: "n - length xs = Suc k" using assms(2) by (cases "n - length xs") auto
  have "cstr (text_in n xs) = xs"
    unfolding text_in_def k cstr_def using assms(1) by (subst takeWhile_append2) auto
  moreover have "terminated (text_in n xs) 0" by (simp add: terminated_def text_in_def k)
  ultimately show ?thesis using strlen_str by (simp add: str_at_def)
qed

text \<open>Reading a decimal number with its sign.\<close>

definition read_int :: "u8 list \<Rightarrow> int option" where
  "read_int ds =
     (if ds \<noteq> [] \<and> hd ds = 0x2d then map_option (\<lambda>n. - int n) (number 10 (tl ds)) else map_option int (number 10 ds))"

lemma itoa_chars:
  assumes "2 \<le> base" "base \<le> 16" "itoa v base = Inr ds"
  shows "0 \<notin> set ds" "0x2d \<notin> set ds"
proof -
  have sub: "set ds \<subseteq> digit_char ` {..<base}" using itoa_number [OF assms(1,2), of v] assms(3) by auto
  have "unat c \<ge> 0x30" if c: "c \<in> set ds" for c
  proof -
    have "c \<in> digit_char ` {..<base}" using sub c by blast
    then obtain m where "c = digit_char m" "m < base" by (elim imageE) simp
    then have "m < 16" "c = digit_char m" using assms(2) by simp_all
    then show ?thesis using digit_char_numbers(1) [of m] by simp
  qed
  then show "0 \<notin> set ds" "0x2d \<notin> set ds" by fastforce+
qed

lemma pos_word: "0 \<le> sint (w :: u32) \<Longrightarrow> sint w = int (unat w)"
proof -
  assume p: "0 \<le> sint w"
  have e: "w = word_of_int (sint w)" by simp
  have "uint w = take_bit 32 (sint w)" by (subst e) (simp only: unsigned_of_int, simp)
  moreover have "take_bit 32 (sint w) = sint w"
    using p sint_range_size [of w] by (intro take_bit_int_eq_self) (simp_all add: word_size)
  ultimately show ?thesis by simp
qed

lemma neg_word: "sint (w :: u32) < 0 \<Longrightarrow> int (unat (0 - w)) = - sint w"
proof -
  assume n: "sint w < 0"
  have r: "- 2147483648 \<le> sint w" "sint w < 2147483648" using sint_range_size [of w] by (simp_all add: word_size)
  have e: "0 - w = word_of_int (- sint w)" by simp
  have "uint (0 - w) = take_bit 32 (- sint w)" unfolding e by (simp only: unsigned_of_int) simp
  then have "int (unat (0 - w)) = take_bit 32 (- sint w)" by simp
  also have "\<dots> = - sint w" using n r by (intro take_bit_int_eq_self) auto
  finally show ?thesis .
qed

lemma itoa_word:
  assumes "base = 10 \<and> k = 10 \<or> base = 16 \<and> k = 8"
  shows "\<exists>ds. itoa (unat (w :: u32)) base = Inr ds \<and> number base ds = Some (unat w) \<and> ds \<noteq> [] \<and> length ds \<le> k \<and>
    0 \<notin> set ds \<and> 0x2d \<notin> set ds"
proof -
  obtain ds where ds: "itoa (unat w) base = Inr ds" "number base ds = Some (unat w)" "ds \<noteq> []"
    "\<And>k. unat w < base ^ Suc k \<Longrightarrow> length ds \<le> Suc k"
    using itoa_number [of base "unat w"] assms by auto
  have "unat w < 4294967296" using unsigned_less [of w, where 'a = nat] by simp
  then have "unat w < base ^ Suc (k - 1)" using assms by auto
  then have "length ds \<le> k" using ds(4) [of "k - 1"] assms by auto
  then show ?thesis using ds(1-3) itoa_chars [OF _ _ ds(1)] assms by auto
qed

section \<open>Results\<close>

text \<open>
  C28: A number that is printed can be read back. Into a cleared buffer of at least 12 bytes,
  \<open>vsprintf\<close> with the format \<open>%d\<close> writes at most 11 characters, a sign or none and digits 0 to 9, that
  denote the signed value of the argument, for every 32-bit value including the smallest one,
  whose negation overflows, and with \<open>%x\<close> at most 8 digits, 0 to 9 and A to F, that denote its
  unsigned value in base 16 (the reader fails on all other characters); the call returns the
  length of the text, and the buffer is untouched behind it.
\<close>

theorem printed_number_reads_back:
  assumes "12 \<le> n"
  shows "(\<exists>ds. vsprintf (replicate n 0) [0x25, 0x64] [IntArg w] = Inr (text_in n ds, length ds) \<and>
      length ds \<le> 11 \<and> read_int ds = Some (sint w)) \<and>
    (\<exists>ds. vsprintf (replicate n 0) [0x25, 0x78] [IntArg w] = Inr (text_in n ds, length ds) \<and>
      length ds \<le> 8 \<and> number 16 ds = Some (unat w))"
proof (intro conjI)
  have start: "replicate n 0 = text_in n []" by (simp add: text_in_def)
  let ?neg = "sint w < 0" let ?w = "if sint w < 0 then 0 - w else w"
  let ?sign = "if ?neg then [0x2d] else [] :: u8 list"
  obtain ds where ds: "itoa (unat ?w) 10 = Inr ds" "number 10 ds = Some (unat ?w)" "ds \<noteq> []" "length ds \<le> 10"
    "0 \<notin> set ds" "0x2d \<notin> set ds" using itoa_word [of 10 10 ?w] by auto
  have e1: "(if ?neg then emit [0x2d] (text_in n [], 0) else Inr (text_in n [], 0)) = Inr (text_in n ?sign, length ?sign)"
    using emit_text [of "[]" "[0x2d]" n] assms by simp
  have e2: "emit ds (text_in n ?sign, length ?sign) = Inr (text_in n (?sign @ ds), length (?sign @ ds))"
    by (rule emit_text) (use ds(4) assms in simp)
  have "format_loop [0x25, 0x64] [IntArg w] (replicate n 0, 0) = Inr (text_in n (?sign @ ds), length (?sign @ ds))"
    unfolding start
    by (subst format_loop.simps, simp only: list.case convert_def int_arg_def va_arg.case bnd_Inr prod.case Let_def e1 ds(1) e2)
      (simp add: format_loop.simps [of "[]"] bnd_def)
  moreover have "strlen (text_in n (?sign @ ds)) 0 = Inr (length (?sign @ ds))"
    by (rule strlen_text) (use ds assms in simp_all)
  moreover have "read_int (?sign @ ds) = Some (sint w)"
  proof (cases ?neg)
    case True
    then show ?thesis using ds(2) neg_word [OF True] by (simp add: read_int_def)
  next
    case False
    have "hd ds \<noteq> 0x2d" using ds(3,6) by (cases ds) auto
    moreover have "sint w = int (unat w)" using False pos_word by simp
    ultimately show ?thesis using ds(2) False by (simp add: read_int_def)
  qed
  ultimately show "\<exists>ds. vsprintf (replicate n 0) [0x25, 0x64] [IntArg w] = Inr (text_in n ds, length ds) \<and>
      length ds \<le> 11 \<and> read_int ds = Some (sint w)" using ds(4)
    by (intro exI [of _ "?sign @ ds"]) (simp add: vsprintf_def)
  obtain hs where hs: "itoa (unat w) 16 = Inr hs" "number 16 hs = Some (unat w)" "length hs \<le> 8" "0 \<notin> set hs"
    using itoa_word [of 16 8 w] by auto
  have "emit hs (text_in n [], 0) = Inr (text_in n hs, length hs)"
    using emit_text [of "[]" hs n] hs(3) assms by simp
  then have "format_loop [0x25, 0x78] [IntArg w] (replicate n 0, 0) = Inr (text_in n hs, length hs)"
    unfolding start by (subst format_loop.simps) (simp add: convert_def int_arg_def hs(1) format_loop.simps [of "[]"])
  moreover have "strlen (text_in n hs) 0 = Inr (length hs)" by (rule strlen_text) (use hs assms in simp_all)
  ultimately show "\<exists>ds. vsprintf (replicate n 0) [0x25, 0x78] [IntArg w] = Inr (text_in n ds, length ds) \<and>
      length ds \<le> 8 \<and> number 16 ds = Some (unat w)" using hs by (intro exI [of _ hs]) (simp add: vsprintf_def)
qed

lemma printed_number_reads_back_witness:
  "\<exists>ds. vsprintf (replicate 12 0) [0x25, 0x64] [IntArg 0x80000000] = Inr (text_in 12 ds, length ds) \<and>
    read_int ds = Some (- 2147483648)"
  using printed_number_reads_back [of 12 "0x80000000"] by auto

end
