(* ===== verification/Ps.thy ===== *)
theory Ps
  imports Fs Stdio
begin

text \<open>
  \<open>sys_ps\<close> of \<open>thread/thread.c\<close>: the table of the tasks, a line each, in columns of 15 characters.
  A string literal of the source is written as \<open>lit\<close> of an HOL string.
\<close>

definition lit :: "string \<Rightarrow> u8 list" where
  "lit s = map of_char s"

abbreviation NEWLINE :: "u8 list" where "NEWLINE \<equiv> [0x0a]"

definition write_all :: "u8 list \<Rightarrow> fsk \<Rightarrow> fsk res" where
  "write_all bs k = bnd (sys_write 1 bs k) (\<lambda>(_, k). Inr k)"

text \<open>
  \<open>pad_print\<close> on its buffer of \<open>buf_len\<close> bytes: the text, then blanks; the index is 8 bits wide. The
  last byte is not written out.
\<close>

definition pad_print :: "nat \<Rightarrow> u8 list \<Rightarrow> va_arg \<Rightarrow> fsk \<Rightarrow> fsk res" where
  "pad_print buf_len format arg k =
     bnd (sprintf (replicate buf_len 0) format [arg]) (\<lambda>(bf, n).
     let out_pad_0idx = n mod 256;
         bf = take out_pad_0idx bf @ replicate (buf_len - out_pad_0idx) 0x20
     in write_all (take (buf_len - 1) bf) k)"

definition status_text :: "task_status \<Rightarrow> u8 list" where
  "status_text st = (case st of TASK_RUNNING \<Rightarrow> lit ''RUNNING'' | TASK_READY \<Rightarrow> lit ''READY''
     | TASK_BLOCKED \<Rightarrow> lit ''BLOCKED'' | TASK_WAITING \<Rightarrow> lit ''WAITING'' | TASK_HANGING \<Rightarrow> lit ''HANGING''
     | TASK_OVER \<Rightarrow> lit ''OVER'')"

text \<open>
  A pid is read as \<open>int16_t\<close> and promoted to \<open>int\<close>.
\<close>

definition int16_arg :: "int \<Rightarrow> va_arg" where
  "int16_arg i = IntArg (scast (word_of_int i :: 16 word))"

definition elem2thread_info :: "tid \<Rightarrow> fsk \<Rightarrow> fsk res" where
  "elem2thread_info t k =
     (let pthread = tasks k t; nm = lit (name pthread) in
      bnd (pad_print 16 (lit ''%d'') (int16_arg (pid pthread)) k) (\<lambda>k.
      bnd (if parent_pid pthread = -1 then pad_print 16 (lit ''%s'') (StrArg (lit ''NULL'')) k
           else pad_print 16 (lit ''%d'') (int16_arg (parent_pid pthread)) k) (\<lambda>k.
      bnd (pad_print 16 (lit ''%s'') (StrArg (status_text (status pthread))) k) (\<lambda>k.
      bnd (pad_print 16 (lit ''%x'') (IntArg (elapsed_ticks pthread)) k) (\<lambda>k.
      ASSERT (length nm < 16) ''strlen(pthread->name) < 16''
       (bnd (strcat (splice 0 nm (replicate 16 0)) 0 (NEWLINE @ [0]) 0) (\<lambda>out_pad.
        bnd (strlen out_pad 0) (\<lambda>n. write_all (take n out_pad) k))))))))"

text \<open>\<open>list_traversal\<close> with a callback that never stops it.\<close>

fun info_all :: "tid list \<Rightarrow> fsk \<Rightarrow> fsk res" where
  "info_all [] k = Inr k"
| "info_all (t # ts) k = bnd (elem2thread_info t k) (info_all ts)"

definition ps_title :: "u8 list" where
  "ps_title = lit ''PID            PPID           STAT           TICKS          COMMAND'' @ NEWLINE"

definition sys_ps :: "fsk \<Rightarrow> fsk res" where
  "sys_ps k = bnd (write_all ps_title k) (\<lambda>k. info_all (thread_all_list k) k)"

end
