(* ===== verification/Builtin.thy ===== *)
theory Builtin
  imports Dircalls Washpath Ps
begin

text \<open>
  \<open>shell/buildin_cmd.c\<close>: the commands the shell runs itself. \<open>os\<close> is the file system and the running
  process; the stubs of \<open>lib/usr/syscall.c\<close> enter the kernel with the number of the call, so a stub
  is the system call itself. The arguments are the words of the command line. A command that does
  not return (\<open>getcwd\<close> in a directory tree with a circle) has the value \<open>None\<close>.
\<close>

record shellk =
  os :: fsk
  final_path :: "u8 list"
  cwd_cache :: "u8 list"
  str_color :: nat

definition obnd :: "'a res option \<Rightarrow> ('a \<Rightarrow> 'b res option) \<Rightarrow> 'b res option" where
  "obnd m f = (case m of None \<Rightarrow> None | Some (Inl e) \<Rightarrow> Some (Inl e) | Some (Inr x) \<Rightarrow> f x)"

lemma obnd_simps [simp]: "obnd None f = None" "obnd (Some (Inl e)) f = Some (Inl e)" "obnd (Some (Inr x)) f = f x"
  by (simp_all add: obnd_def)

text \<open>\<open>printf\<close>: the text goes to descriptor 1.\<close>

definition printf :: "u8 list \<Rightarrow> va_arg list \<Rightarrow> shellk \<Rightarrow> shellk res" where
  "printf format args s =
     bnd (printf_text format args) (\<lambda>t. bnd (sys_write 1 t (os s)) (\<lambda>(_, k). Inr (s\<lparr>os := k\<rparr>)))"

section \<open>Paths\<close>

definition getcwd :: "nat \<Rightarrow> shellk \<Rightarrow> (u8 list option \<times> shellk) res option" where
  "getcwd n s = obnd (sys_getcwd n (os s)) (\<lambda>(p, k). Some (Inr (p, s\<lparr>os := k\<rparr>)))"

definition make_clear_abs_path :: "u8 list \<Rightarrow> shellk \<Rightarrow> (u8 list \<times> shellk) res option" where
  "make_clear_abs_path path s =
     obnd (if path = [] \<or> hd path \<noteq> SLASH
           then obnd (getcwd MAX_PATH_LEN s) (\<lambda>(p, s). Some (Inr (case p of
                  None \<Rightarrow> ([], s) | Some p \<Rightarrow> (if p \<noteq> [SLASH] then p @ [SLASH] else p, s))))
           else Some (Inr ([], s))) (\<lambda>(abs_path, s).
     Some (GUARD (length abs_path < MAX_PATH_LEN \<and> length (abs_path @ path) < MAX_PATH_LEN) ''abs_path''
       (bnd (wash_path (abs_path @ path)) (\<lambda>p. Inr (p, s)))))"

text \<open>\<open>make_clear_abs_path(path, final_path)\<close>.\<close>

definition set_final_path :: "u8 list \<Rightarrow> shellk \<Rightarrow> shellk res option" where
  "set_final_path path s = obnd (make_clear_abs_path path s) (\<lambda>(p, s). Some (Inr (s\<lparr>final_path := p\<rparr>)))"

section \<open>The commands\<close>

definition buildin_pwd :: "u8 list list \<Rightarrow> shellk \<Rightarrow> shellk res option" where
  "buildin_pwd argv s =
     (if length argv \<noteq> 1 then Some (printf (lit ''pwd: no argument support'' @ NEWLINE) [] s)
      else obnd (getcwd MAX_PATH_LEN s) (\<lambda>(p, s). Some (case p of
        Some p \<Rightarrow> printf (lit ''%s'' @ NEWLINE) [StrArg p] (s\<lparr>final_path := p\<rparr>)
      | None \<Rightarrow> printf (lit ''pwd: get current work directory failed.'' @ NEWLINE) [] s)))"

text \<open>The flag is false for the returned \<open>NULL\<close>.\<close>

definition buildin_cd :: "u8 list list \<Rightarrow> shellk \<Rightarrow> (bool \<times> shellk) res option" where
  "buildin_cd argv s =
     (if length argv > 2
      then Some (bnd (printf (lit ''cd: only support 1 argument'' @ NEWLINE) [] s) (\<lambda>s. Inr (False, s)))
      else obnd (if length argv = 1 then Some (Inr (s\<lparr>final_path := [SLASH]\<rparr>)) else set_final_path (argv ! 1) s) (\<lambda>s.
        Some (bnd (sys_chdir (final_path s) (os s)) (\<lambda>(ret, k).
        let s = s\<lparr>os := k\<rparr> in
        if ret = -1
        then bnd (printf (lit ''cd: no such directory %s'' @ NEWLINE) [StrArg (final_path s)] s) (\<lambda>s. Inr (False, s))
        else Inr (True, s)))))"

text \<open>The options of \<open>ls\<close>: the result is \<open>None\<close> when a message was printed instead.\<close>

fun ls_options :: "u8 list list \<Rightarrow> bool \<Rightarrow> u8 list option \<Rightarrow> shellk \<Rightarrow> ((bool \<times> u8 list option) option \<times> shellk) res" where
  "ls_options [] long_info path_name s = Inr (Some (long_info, path_name), s)"
| "ls_options (a # as) long_info path_name s =
     (if a \<noteq> [] \<and> hd a = 0x2d
      then if a = lit ''-l'' then ls_options as True path_name s
           else if a = lit ''-h''
           then bnd (printf (lit ''usage: -l list all infomation about the file.'' @ NEWLINE @ lit ''-h for help'' @ NEWLINE @
                       lit ''list all files in the current dirctory if no option'' @ NEWLINE) [] s) (\<lambda>s. Inr (None, s))
           else bnd (printf (lit ''ls: invalid option %s'' @ NEWLINE @ lit ''Try `ls -h'' @ [0x27] @ lit '' for more information.'' @ NEWLINE)
                       [StrArg a] s) (\<lambda>s. Inr (None, s))
      else if path_name = None then ls_options as long_info (Some a) s
      else bnd (printf (lit ''ls: only support one path'' @ NEWLINE) [] s) (\<lambda>s. Inr (None, s)))"

definition de_name :: "dir_entry \<Rightarrow> u8 list" where
  "de_name e = cstr (dir_entry_bytes e)"

definition entry_color :: "dir_entry \<Rightarrow> shellk \<Rightarrow> shellk" where
  "entry_color e s = (if f_type e = ft_code FT_DIRECTORY then s\<lparr>str_color := 14\<rparr> else s)"

text \<open>The two loops over the entries; \<open>sub\<close> is the path of the directory with a slash at its end.\<close>

partial_function (option) ls_short :: "nat \<Rightarrow> shellk \<Rightarrow> shellk res option" where
  "ls_short d s =
     (case sys_readdir d (os s) of
        Inl e \<Rightarrow> Some (Inl e)
      | Inr (dir_e, k) \<Rightarrow>
          (case dir_e of
             None \<Rightarrow> Some (printf NEWLINE [] (s\<lparr>os := k\<rparr>))
           | Some e \<Rightarrow>
               (case printf (lit ''%s '') [StrArg (de_name e)] (entry_color e (s\<lparr>os := k\<rparr>)) of
                  Inl x \<Rightarrow> Some (Inl x)
                | Inr s \<Rightarrow> ls_short d (s\<lparr>str_color := 7\<rparr>))))"

definition ls_line :: "u8 list \<Rightarrow> dir_entry \<Rightarrow> shellk \<Rightarrow> (bool \<times> shellk) res" where
  "ls_line sub e s =
     GUARD (length (sub @ de_name e) < MAX_PATH_LEN) ''subpath_name''
      (bnd (sys_stat (sub @ de_name e) (os s)) (\<lambda>(st, k).
       let s = s\<lparr>os := k\<rparr> in
       case st of
         None \<Rightarrow> bnd (printf (lit ''ls: cannot access %s: No such file or directory'' @ NEWLINE) [StrArg (de_name e)] s)
                   (\<lambda>s. Inr (False, s))
       | Some st \<Rightarrow>
           bnd (printf (lit ''%c  i_no[%d]  %d  %s'' @ NEWLINE)
                  [IntArg (if f_type e = ft_code FT_REGULAR then 0x2d else 0x64), IntArg (of_nat (de_i_no e)),
                   IntArg (of_nat (st_size st)), StrArg (de_name e)] (entry_color e s)) (\<lambda>s.
           Inr (True, s\<lparr>str_color := 7\<rparr>))))"

text \<open>The flag is false after an error, which returns from the command at once.\<close>

partial_function (option) ls_long :: "nat \<Rightarrow> u8 list \<Rightarrow> shellk \<Rightarrow> (bool \<times> shellk) res option" where
  "ls_long d sub s =
     (case sys_readdir d (os s) of
        Inl e \<Rightarrow> Some (Inl e)
      | Inr (dir_e, k) \<Rightarrow>
          (case dir_e of
             None \<Rightarrow> Some (Inr (True, s\<lparr>os := k\<rparr>))
           | Some e \<Rightarrow>
               (case ls_line sub e (s\<lparr>os := k\<rparr>) of
                  Inl x \<Rightarrow> Some (Inl x)
                | Inr (ok, s) \<Rightarrow> if ok then ls_long d sub s else Some (Inr (False, s)))))"

definition ls_directory :: "bool \<Rightarrow> u8 list \<Rightarrow> stat \<Rightarrow> shellk \<Rightarrow> shellk res option" where
  "ls_directory long_info path_name st s =
     obnd (Some (sys_opendir path_name (os s))) (\<lambda>(d, k).
     let s = s\<lparr>os := k\<rparr>; sub = (if last path_name \<noteq> SLASH then path_name @ [SLASH] else path_name) in
     obnd (Some (GUARD (path_name \<noteq> [] \<and> length sub < MAX_PATH_LEN) ''subpath_name'' (sys_rewinddir d (os s)))) (\<lambda>k.
     let s = s\<lparr>os := k\<rparr> in
     obnd (if long_info
           then obnd (Some (printf (lit ''total: %d'' @ NEWLINE) [IntArg (of_nat (st_size st))] s)) (ls_long d sub)
           else obnd (ls_short d s) (\<lambda>s. Some (Inr (True, s)))) (\<lambda>(ok, s).
     if \<not> ok then Some (Inr s)
     else obnd (Some (sys_closedir d (os s))) (\<lambda>(_, k). Some (Inr (s\<lparr>os := k\<rparr>))))))"

definition buildin_ls :: "u8 list list \<Rightarrow> shellk \<Rightarrow> shellk res option" where
  "buildin_ls argv s =
     obnd (Some (ls_options (tl argv) False None s)) (\<lambda>(opts, s).
     case opts of
       None \<Rightarrow> Some (Inr s)
     | Some (long_info, path_name) \<Rightarrow>
         obnd (case path_name of
                 None \<Rightarrow> obnd (getcwd MAX_PATH_LEN s) (\<lambda>(p, s). Some (case p of
                           Some p \<Rightarrow> Inr (Some p, s\<lparr>final_path := p\<rparr>)
                         | None \<Rightarrow> bnd (printf (lit ''ls: getcwd for default path failed'' @ NEWLINE) [] s) (\<lambda>s. Inr (None, s))))
               | Some p \<Rightarrow> obnd (set_final_path p s) (\<lambda>s. Some (Inr (Some (final_path s), s)))) (\<lambda>(path_name, s).
         case path_name of
           None \<Rightarrow> Some (Inr s)
         | Some path_name \<Rightarrow>
             obnd (Some (sys_stat path_name (os s))) (\<lambda>(st, k).
             let s = s\<lparr>os := k\<rparr> in
             case st of
               None \<Rightarrow> Some (printf (lit ''ls: cannot access %s: No such file or directory'' @ NEWLINE) [StrArg path_name] s)
             | Some st \<Rightarrow>
                 if st_filetype st = FT_DIRECTORY then ls_directory long_info path_name st s
                 else if long_info
                 then Some (printf (lit ''-  %d  %d  %s'' @ NEWLINE)
                        [IntArg (of_nat (st_ino st)), IntArg (of_nat (st_size st)), StrArg path_name] s)
                 else Some (printf (lit ''%s'' @ NEWLINE) [StrArg path_name] s))))"

definition buildin_ps :: "u8 list list \<Rightarrow> shellk \<Rightarrow> shellk res" where
  "buildin_ps argv s =
     (if length argv \<noteq> 1 then printf (lit ''ps: no argument support!'' @ NEWLINE) [] s
      else bnd (sys_ps (os s)) (\<lambda>k. Inr (s\<lparr>os := k\<rparr>)))"

text \<open>\<open>clear\<close> empties the screen (\<open>cls_screen\<close> of \<open>lib/kernel/print.S\<close>).\<close>

definition buildin_clear :: "u8 list list \<Rightarrow> shellk \<Rightarrow> shellk res" where
  "buildin_clear argv s =
     (if length argv \<noteq> 1 then printf (lit ''clear: no argument support!'' @ NEWLINE) [] s
      else Inr (s\<lparr>os := (os s)\<lparr>screen := []\<rparr>\<rparr>))"

text \<open>
  The common shape of \<open>mkdir\<close>, \<open>rmdir\<close> and \<open>rm\<close>: the system call on the cleaned path, unless that
  is the root, and a message when it fails.
\<close>

definition path_command :: "(u8 list \<Rightarrow> fsk \<Rightarrow> (int \<times> fsk) res) \<Rightarrow> u8 list \<Rightarrow> u8 list \<Rightarrow> shellk \<Rightarrow> (int \<times> shellk) res option" where
  "path_command call msg arg s =
     obnd (set_final_path arg s) (\<lambda>s.
     if final_path s \<noteq> [SLASH]
     then Some (bnd (call (final_path s) (os s)) (\<lambda>(r, k).
          if r = 0 then Inr (0, s\<lparr>os := k\<rparr>)
          else bnd (printf msg [StrArg arg] (s\<lparr>os := k\<rparr>)) (\<lambda>s. Inr (-1, s))))
     else Some (Inr (-1, s)))"

definition buildin_mkdir :: "u8 list list \<Rightarrow> shellk \<Rightarrow> (int \<times> shellk) res option" where
  "buildin_mkdir argv s =
     (if length argv \<noteq> 2
      then Some (bnd (printf (lit ''mkdir: only support one argument'' @ NEWLINE) [] s) (\<lambda>s. Inr (-1, s)))
      else path_command sys_mkdir (lit ''mkdir: create directory %s failed.'' @ NEWLINE) (argv ! 1) s)"

definition buildin_rmdir :: "u8 list list \<Rightarrow> shellk \<Rightarrow> (int \<times> shellk) res option" where
  "buildin_rmdir argv s =
     (if length argv \<noteq> 2
      then Some (bnd (printf (lit ''rmdir: only support one argument'' @ NEWLINE) [] s) (\<lambda>s. Inr (-1, s)))
      else if argv ! 1 = DOT
      then Some (bnd (printf (lit ''rmdir: remove '' @ [0x27, 0x2e, 0x27] @ lit '' failed, Invalid arguments'' @ NEWLINE) [] s)
                   (\<lambda>s. Inr (-1, s)))
      else path_command sys_rmdir (lit ''rmdir: remove %s failed.'' @ NEWLINE) (argv ! 1) s)"

definition buildin_rm :: "u8 list list \<Rightarrow> shellk \<Rightarrow> (int \<times> shellk) res option" where
  "buildin_rm argv s =
     (if length argv \<noteq> 2
      then Some (bnd (printf (lit ''rm: only support one argument'' @ NEWLINE) [] s) (\<lambda>s. Inr (-1, s)))
      else path_command sys_unlink (lit ''rm: delete %s failed.'' @ NEWLINE) (argv ! 1) s)"

text \<open>\<open>sys_help\<close> prints through \<open>printk\<close>, past the descriptors of the process.\<close>

definition sys_help :: "fsk \<Rightarrow> fsk res" where
  "sys_help k =
     bnd (printk_text (lit '' buildin commands:'' @ NEWLINE @
       lit ''    ls: show directory or file information'' @ NEWLINE @
       lit ''    cd: change current work directory'' @ NEWLINE @
       lit ''    mkdir: create a directory'' @ NEWLINE @
       lit ''    rmdir: remove a empty directory'' @ NEWLINE @
       lit ''    pwd: show current work directory'' @ NEWLINE @
       lit ''    ps: show process information'' @ NEWLINE @
       lit ''    clear: clear screen'' @ NEWLINE @
       lit '' short cut key:'' @ NEWLINE @
       lit ''    ctrl + l: clear screen'' @ NEWLINE @
       lit ''    ctrl + u: clear input'' @ NEWLINE) []) (\<lambda>t. Inr (k\<lparr>screen := screen k @ t\<rparr>))"

definition buildin_help :: "u8 list list \<Rightarrow> shellk \<Rightarrow> shellk res" where
  "buildin_help argv s =
     bnd (if length argv \<noteq> 1 then printf (lit ''sorry, only support 1 argument'' @ NEWLINE) [] s else Inr s) (\<lambda>s.
     bnd (sys_help (os s)) (\<lambda>k. Inr (s\<lparr>os := k\<rparr>)))"

end
