(* ===== verification/Cmdline.thy ===== *)
theory Cmdline
  imports CString
begin

text \<open>
  The command line of the shell (\<open>shell/shell.c\<close>): \<open>readline\<close>, which edits the line while it is
  typed, and \<open>cmd_parse\<close>, which cuts it into words in place. The buffer \<open>cmd_line\<close> and the table
  \<open>argv\<close> are given with their sizes; a pointer into \<open>cmd_line\<close> is an offset.
\<close>

abbreviation cmd_len :: nat where "cmd_len \<equiv> 128"
abbreviation MAX_ARG_NR :: nat where "MAX_ARG_NR \<equiv> 16"

section \<open>Editing\<close>

text \<open>What \<open>readline\<close> does on the terminal.\<close>

datatype tty = Putchar u8 | Clear_screen | Promat | Print "u8 list"

abbreviation BS :: u8 where "BS \<equiv> 0x08"
abbreviation LF :: u8 where "LF \<equiv> 0x0a"
abbreviation CR :: u8 where "CR \<equiv> 0x0d"
abbreviation CTRL_L :: u8 where "CTRL_L \<equiv> 0x0b"
abbreviation CTRL_U :: u8 where "CTRL_U \<equiv> 0x14"

text \<open>The loop of \<open>ctrl+u\<close>: \<open>while (pos != buf) { putchar('\b'); *(pos--) = 0; }\<close>.\<close>

fun kill_line :: "u8 list \<Rightarrow> nat \<Rightarrow> u8 list" where
  "kill_line bf 0 = bf"
| "kill_line bf (Suc pos) = kill_line (bf[Suc pos := 0]) pos"

text \<open>
  The loop, fed with the keys that are typed; \<open>read\<close> waits when there is none. A key is stored
  before the position is compared with \<open>count\<close>. The result is the buffer, what went to the
  terminal and the keys that are left; the flag is false when there was no room for the line.
\<close>

fun readline_loop :: "u8 list \<Rightarrow> nat \<Rightarrow> u8 list \<Rightarrow> nat \<Rightarrow> (bool \<times> u8 list \<times> tty list \<times> u8 list) res" where
  "readline_loop [] count bf pos = Inl (Block ''read'')"
| "readline_loop (k # keys) count bf pos =
     GUARD (pos < length bf) ''cmd_line''
      (let bf = bf[pos := k]; more = (\<lambda>out bf pos. bnd (readline_loop keys count bf pos) (\<lambda>(ok, bf, o', ks). Inr (ok, bf, out @ o', ks))) in
       if \<not> pos < count then Inr (False, bf, [], keys)
       else if k = LF \<or> k = CR then Inr (True, bf[pos := 0], [Putchar LF], keys)
       else if k = BS then (if bf ! 0 \<noteq> BS then more [Putchar BS] bf (pos - 1) else more [] bf pos)
       else if k = CTRL_L then
         (let bf = bf[pos := 0] in more [Clear_screen, Promat, Print (cstr bf)] bf pos)
       else if k = CTRL_U then more (replicate pos (Putchar BS)) (kill_line bf pos) 0
       else more [Putchar k] bf (pos + 1))"

definition readline :: "u8 list \<Rightarrow> u8 list \<Rightarrow> nat \<Rightarrow> (bool \<times> u8 list \<times> tty list \<times> u8 list) res" where
  "readline keys bf count = ASSERT (count > 0) ''buf != NULL && count > 0'' (readline_loop keys count bf 0)"

section \<open>Cutting into words\<close>

text \<open>\<open>while (P(*next)) next++;\<close>\<close>

definition skip :: "(u8 \<Rightarrow> bool) \<Rightarrow> u8 list \<Rightarrow> nat \<Rightarrow> nat" where
  "skip P s i = i + length (takeWhile P (drop i s))"

lemma skip_ge: "i \<le> skip P s i"
  by (simp add: skip_def)

lemma skip_stop:
  assumes "skip P s i < length s"
  shows "\<not> P (s ! skip P s i)"
proof -
  have l: "length (takeWhile P (drop i s)) < length (drop i s)" using assms by (simp add: skip_def)
  then have "\<not> P (drop i s ! length (takeWhile P (drop i s)))" by (rule nth_length_takeWhile)
  then show ?thesis using l by (simp add: skip_def)
qed

lemma skip_pass: "i \<le> j \<Longrightarrow> j < skip P s i \<Longrightarrow> P (s ! j)"
proof -
  assume a: "i \<le> j" "j < skip P s i"
  have "j - i < length (takeWhile P (drop i s))" using a by (simp add: skip_def less_diff_conv2 add.commute)
  then have "takeWhile P (drop i s) ! (j - i) \<in> set (takeWhile P (drop i s))"
    "takeWhile P (drop i s) ! (j - i) = drop i s ! (j - i)" using nth_mem takeWhile_nth by blast+
  then have "P (drop i s ! (j - i))" using set_takeWhileD by metis
  moreover have "i \<le> length s" using a by (cases "i \<le> length s") (simp_all add: skip_def)
  ultimately show ?thesis using a(1) by simp
qed

lemma skip_more: "i < length s \<Longrightarrow> P (s ! i) \<Longrightarrow> i < skip P s i"
  by (simp add: skip_def Cons_nth_drop_Suc [symmetric])

text \<open>
  The outer loop. The check of \<open>argc\<close> comes after \<open>argv[argc] = next\<close>.
\<close>

function parse_from :: "u8 \<Rightarrow> u8 list \<Rightarrow> nat \<Rightarrow> nat \<Rightarrow> nat option list \<Rightarrow> (int \<times> nat option list \<times> u8 list) res" where
  "parse_from token s next argc argv =
     (if \<not> next < length s then Inl (Fault ''cmd_str'')
      else if s ! next = 0 then Inr (int argc, argv, s)
      else let n1 = skip (\<lambda>c. c = token) s next in
        if \<not> n1 < length s then Inl (Fault ''cmd_str'')
        else if s ! n1 = 0 then Inr (int argc, argv, s)
        else if \<not> argc < length argv then Inl (Fault ''argv'')
        else let n2 = skip (\<lambda>c. c \<noteq> 0 \<and> c \<noteq> token) s n1 in
          if \<not> n2 < length s then Inl (Fault ''cmd_str'')
          else if argc > MAX_ARG_NR then Inr (-1, argv[argc := Some n1], if s ! n2 \<noteq> 0 then s[n2 := 0] else s)
          else parse_from token (if s ! n2 \<noteq> 0 then s[n2 := 0] else s) (if s ! n2 \<noteq> 0 then n2 + 1 else n2)
                 (argc + 1) (argv[argc := Some n1]))"
  by pat_completeness auto
termination
proof (relation "measure (\<lambda>(token, s, next, argc, argv). length s - next)")
  fix token :: u8 and s :: "u8 list" and i argc n1 n2 :: nat and argv :: "nat option list"
  assume a: "\<not> \<not> i < length s" "n1 = skip (\<lambda>c. c = token) s i" "\<not> \<not> n1 < length s" "s ! n1 \<noteq> 0"
    "n2 = skip (\<lambda>c. c \<noteq> 0 \<and> c \<noteq> token) s n1" "\<not> \<not> n2 < length s"
  have "s ! n1 \<noteq> token" using skip_stop [of "\<lambda>c. c = token" s i] a by simp
  then have "n1 < n2" unfolding a(5) using a(3,4) by (intro skip_more) simp_all
  moreover have "i \<le> n1" unfolding a(2) by (rule skip_ge)
  ultimately show "((token, if s ! n2 \<noteq> 0 then s[n2 := 0] else s, if s ! n2 \<noteq> 0 then n2 + 1 else n2, argc + 1,
      argv[argc := Some n1]), token, s, i, argc, argv) \<in> measure (\<lambda>(token, s, next, argc, argv). length s - next)"
    using a(6) by auto
qed simp

declare parse_from.simps [simp del]

definition cmd_parse :: "u8 list \<Rightarrow> u8 \<Rightarrow> (int \<times> nat option list \<times> u8 list) res" where
  "cmd_parse cmd_str token = parse_from token cmd_str 0 0 (replicate MAX_ARG_NR None)"

section \<open>The words of a line\<close>

text \<open>A reference: reading the line once, a separator ends the word that has been read so far.\<close>

fun words_from :: "u8 \<Rightarrow> u8 list \<Rightarrow> u8 list \<Rightarrow> u8 list list" where
  "words_from token w [] = (if w = [] then [] else [w])"
| "words_from token w (c # cs) =
     (if c = token then (if w = [] then words_from token [] cs else w # words_from token [] cs)
      else words_from token (w @ [c]) cs)"

definition words :: "u8 \<Rightarrow> u8 list \<Rightarrow> u8 list list" where
  "words token line = words_from token [] line"

lemma words_Nil [simp]: "words token [] = []"
  by (simp add: words_def)

lemma words_skip: "words token (dropWhile (\<lambda>c. c = token) l) = words token l"
  by (induction l) (auto simp: words_def)

lemma words_from_word: "token \<notin> set xs \<Longrightarrow> words_from token w (xs @ ys) = words_from token (w @ xs) ys"
  by (induction xs arbitrary: w) auto

lemma words_word:
  assumes "token \<notin> set w" "w \<noteq> []"
  shows "words token (w @ token # l) = w # words token l" "words token w = [w]"
  using words_from_word [OF assms(1), of "[]" "token # l"] words_from_word [OF assms(1), of "[]" "[]"] assms(2)
  by (simp_all add: words_def)

lemma str_at_skip:
  assumes "token \<noteq> 0" "i \<le> length s"
  shows "str_at s (skip (\<lambda>c. c = token) s i) = dropWhile (\<lambda>c. c = token) (str_at s i)"
proof -
  have "cstr (drop (length (takeWhile (\<lambda>c. c = token) xs)) xs) = dropWhile (\<lambda>c. c = token) (cstr xs)" for xs
    using assms(1) by (induction xs) (simp_all add: cstr_def)
  from this [of "drop i s"] show ?thesis by (simp add: str_at_def skip_def add.commute)
qed

text \<open>The word that starts at an offset, and the rest of the string behind it.\<close>

lemma str_at_word:
  assumes "n = skip (\<lambda>c. c \<noteq> 0 \<and> c \<noteq> token) s i" "n < length s"
  shows "str_at s i = take (n - i) (drop i s) @ str_at s n" "token \<notin> set (take (n - i) (drop i s))"
    "0 \<notin> set (take (n - i) (drop i s))" "s ! n = 0 \<Longrightarrow> str_at s n = []" "s ! n \<noteq> 0 \<Longrightarrow> s ! n = token"
proof -
  let ?P = "\<lambda>c. c \<noteq> 0 \<and> c \<noteq> token"
  have n: "n = i + length (takeWhile ?P (drop i s))" using assms(1) by (simp add: skip_def)
  have w: "take (n - i) (drop i s) = takeWhile ?P (drop i s)" by (simp add: n takeWhile_eq_take [symmetric])
  show "token \<notin> set (take (n - i) (drop i s))" "0 \<notin> set (take (n - i) (drop i s))"
    unfolding w by (auto dest: set_takeWhileD)
  have "cstr xs = takeWhile ?P xs @ cstr (drop (length (takeWhile ?P xs)) xs)" for xs
    by (induction xs) (auto simp: cstr_def)
  from this [of "drop i s"] show "str_at s i = take (n - i) (drop i s) @ str_at s n"
    unfolding w by (simp add: str_at_def n add.commute)
  show "s ! n = 0 \<Longrightarrow> str_at s n = []" using assms(2) by (simp add: str_at_step)
  show "s ! n \<noteq> 0 \<Longrightarrow> s ! n = token" using skip_stop [of ?P s i] assms by simp
qed

lemma terminated_skip:
  assumes "terminated s i" "\<And>c. P c \<Longrightarrow> c \<noteq> 0"
  shows "skip P s i < length s" "terminated s (skip P s i)"
proof -
  have "0 \<in> set (drop (length (takeWhile P xs)) xs)" if "0 \<in> set xs" for xs
    using that assms(2) by (induction xs) auto
  from this [of "drop i s"] show t: "terminated s (skip P s i)"
    using assms(1) by (simp add: terminated_def skip_def add.commute)
  show "skip P s i < length s" by (rule terminated_less [OF t])
qed

lemma str_at_prefix:
  assumes "\<forall>j. i \<le> j \<and> j \<le> n \<longrightarrow> s' ! j = s ! j" "length s' = length s" "n < length s" "i \<le> n" "s ! n = 0"
  shows "str_at s' i = str_at s i"
  using assms(4,1)
proof (induction rule: inc_induct)
  case base
  then show ?case using assms(2,3,5) by (simp add: str_at_step)
next
  case (step i)
  then have "str_at s' (Suc i) = str_at s (Suc i)" by simp
  moreover have "s' ! i = s ! i" using step by simp
  ultimately show ?case using step(2) assms(2,3) str_at_step [of i s] str_at_step [of i s'] by simp
qed

lemma str_at_upd_behind: "n < i \<Longrightarrow> str_at (s[n := c]) i = str_at s i"
  by (simp add: str_at_def drop_update_cancel)

text \<open>What the rest of the run adds, and that it does not touch what lies in front of it.\<close>

definition parsed :: "u8 list \<Rightarrow> nat \<Rightarrow> u8 list list \<Rightarrow> nat \<Rightarrow> nat option list \<Rightarrow> nat option list \<Rightarrow> u8 list \<Rightarrow> bool" where
  "parsed s next ws argc argv argv' s' \<longleftrightarrow> length s' = length s \<and> length argv' = length argv \<and>
     (\<forall>j < length s. j < next \<or> j = next \<and> s ! next = 0 \<longrightarrow> s' ! j = s ! j) \<and>
     (\<forall>i. i < argc \<or> argc + length ws \<le> i \<longrightarrow> argv' ! i = argv ! i) \<and>
     (\<forall>i < length ws. \<exists>off. argv' ! (argc + i) = Some off \<and> terminated s' off \<and> str_at s' off = ws ! i)"

lemma parsed_none: "parsed s i [] argc argv argv s"
  by (simp add: parsed_def)

lemma parsed_word:
  assumes p: "parsed s2 n3 ws (Suc argc) (argv[argc := Some n1]) argv' s'"
    and s2: "length s2 = length s" "\<forall>j < length s. j < n2 \<longrightarrow> s2 ! j = s ! j" "s2 ! n2 = 0" "n2 < length s"
    and n: "i \<le> n1" "n1 \<le> n2" "n2 < n3 \<or> n3 = n2" "\<not> (i = n2 \<and> s ! i = 0)" "n1 < n2" "argc < length argv"
    and w: "str_at s2 n1 = w"
  shows "parsed s i (w # ws) argc argv argv' s'"
proof -
  have keep: "s' ! j = s2 ! j" if "j \<le> n2" for j
  proof -
    have "j < length s2" using that s2(1,4) by simp
    moreover have "j < n3 \<or> j = n3 \<and> s2 ! n3 = 0" using that n(3) s2(3) by (cases "j = n3") auto
    ultimately show ?thesis using p unfolding parsed_def by blast
  qed
  have len: "length s' = length s" "length argv' = length argv" using p s2(1) by (simp_all add: parsed_def)
  have "str_at s' n1 = w"
    using str_at_prefix [of n1 n2 s' s2] keep len s2 n(2) w by simp
  moreover have "terminated s' n1"
  proof -
    have "drop n1 s' ! (n2 - n1) = 0" "n2 - n1 < length (drop n1 s')" using keep [of n2] s2 len n(2) by simp_all
    then show ?thesis unfolding terminated_def by (metis nth_mem)
  qed
  moreover have "argv' ! argc = Some n1"
    using p n(6) unfolding parsed_def by (metis lessI nth_list_update_eq)
  ultimately have "\<exists>off. argv' ! (argc + k) = Some off \<and> terminated s' off \<and> str_at s' off = (w # ws) ! k"
    if "k < length (w # ws)" for k
    using p that unfolding parsed_def by (cases k) (auto simp: add.commute)
  moreover have "argv' ! k = argv ! k" if "k < argc \<or> argc + length (w # ws) \<le> k" for k
  proof -
    have "argv' ! k = argv[argc := Some n1] ! k" using p that unfolding parsed_def by auto
    then show ?thesis using that by auto
  qed
  moreover have "s' ! j = s ! j" if "j < length s" "j < i \<or> j = i \<and> s ! i = 0" for j
  proof -
    have "j < n2" using that n by auto
    then show ?thesis using keep [of j] s2(2) that(1) by simp
  qed
  ultimately show ?thesis using len by (simp add: parsed_def)
qed

lemma parse_from_words:
  assumes "terminated s next" "token \<noteq> 0" "argc \<le> length argv" "length argv \<le> MAX_ARG_NR"
  shows "(let ws = words token (str_at s next) in
    if argc + length ws \<le> length argv
    then \<exists>argv' s'. parse_from token s next argc argv = Inr (int (argc + length ws), argv', s') \<and>
           parsed s next ws argc argv argv' s'
    else parse_from token s next argc argv = Inl (Fault ''argv''))"
  using assms
proof (induction token s "next" argc argv rule: parse_from.induct)
  case (1 token s i argc argv)
  note lt = terminated_less [OF "1.prems"(1)]
  define n1 where "n1 = skip (\<lambda>c. c = token) s i"
  define n2 where "n2 = skip (\<lambda>c. c \<noteq> 0 \<and> c \<noteq> token) s n1"
  have n1: "n1 < length s" "terminated s n1" "i \<le> n1" "s ! n1 \<noteq> token"
    using terminated_skip [OF "1.prems"(1), of "\<lambda>c. c = token"] "1.prems"(2) skip_ge [of i "\<lambda>c. c = token" s]
      skip_stop [of "\<lambda>c. c = token" s i] by (auto simp: n1_def)
  have n2: "n2 < length s" "terminated s n2"
    using terminated_skip [OF n1(2), of "\<lambda>c. c \<noteq> 0 \<and> c \<noteq> token"] by (auto simp: n2_def)
  have wi: "words token (str_at s i) = words token (str_at s n1)"
    using str_at_skip [OF "1.prems"(2), of i s] lt by (simp add: n1_def words_skip)
  show ?case
  proof (cases "s ! n1 = 0")
    case True
    then have "str_at s n1 = []" using n1(1) by (simp add: str_at_step)
    then have "words token (str_at s i) = []" using wi by simp
    moreover have "parse_from token s i argc argv = Inr (int argc, argv, s)"
      using lt n1(1) True by (subst parse_from.simps) (simp add: n1_def Let_def)
    ultimately show ?thesis using "1.prems"(3) parsed_none by (simp add: Let_def)
  next
    case False
    have "s ! i \<noteq> 0"
    proof
      assume z: "s ! i = 0"
      then have "skip (\<lambda>c. c = token) s i = i" using "1.prems"(2) lt by (simp add: skip_def Cons_nth_drop_Suc [symmetric])
      then show False using z False by (simp add: n1_def)
    qed
    have "n1 < n2" unfolding n2_def using n1(1,4) False by (intro skip_more) simp_all
    define w where "w = take (n2 - n1) (drop n1 s)"
    note sw = str_at_word [OF n2_def n2(1), folded w_def]
    have wne: "w \<noteq> []" using \<open>n1 < n2\<close> n2(1) by (simp add: w_def)
    define s2 where "s2 = (if s ! n2 \<noteq> 0 then s[n2 := 0] else s)"
    define n3 where "n3 = (if s ! n2 \<noteq> 0 then n2 + 1 else n2)"
    define l where "l = str_at s2 n3"
    have s2: "length s2 = length s" "\<forall>j < length s. j < n2 \<longrightarrow> s2 ! j = s ! j" "s2 ! n2 = 0"
      using n2(1) by (simp_all add: s2_def)
    have ws: "words token (str_at s i) = w # words token l"
    proof (cases "s ! n2 = 0")
      case True
      then have "l = []" "str_at s n1 = w" using sw(1,4) n2(1) by (simp_all add: l_def s2_def n3_def)
      then show ?thesis using wi words_word(2) [OF sw(2) wne] by simp
    next
      case False
      have "str_at s n2 = token # str_at s (Suc n2)" using str_at_step [OF n2(1)] False sw(5) by simp
      moreover have "l = str_at s (Suc n2)" using False by (simp add: l_def s2_def n3_def str_at_upd_behind)
      ultimately show ?thesis using wi sw(1) words_word(1) [OF sw(2) wne] by simp
    qed
    have run: "parse_from token s i argc argv =
        (if argc < length argv then parse_from token s2 n3 (argc + 1) (argv[argc := Some n1]) else Inl (Fault ''argv''))"
      using lt n1(1) n2(1) False \<open>s ! i \<noteq> 0\<close> "1.prems"(4)
      by (subst parse_from.simps) (simp add: n1_def [symmetric] n2_def [symmetric] s2_def n3_def Let_def)
    show ?thesis
    proof (cases "argc < length argv")
      case True
      have t3: "terminated s2 n3"
      proof (cases "s ! n2 = 0")
        case True
        then show ?thesis using n2(2) by (simp add: s2_def n3_def)
      next
        case False
        then show ?thesis using terminated_Suc [OF n2(2)] by (simp add: s2_def n3_def terminated_def drop_update_cancel)
      qed
      have wstr: "str_at s2 n1 = w"
      proof -
        have "str_at s2 n1 = take (n2 - n1) (drop n1 s2) @ str_at s2 n2"
        proof -
          have "cstr (drop n1 s2) = cstr (take (n2 - n1) (drop n1 s2) @ drop n2 s2)"
            using \<open>n1 < n2\<close> append_take_drop_id [of "n2 - n1" "drop n1 s2"] by simp
          moreover have "take (n2 - n1) (drop n1 s2) = w"
            using s2 n2(1) by (intro nth_equalityI) (simp_all add: w_def)
          ultimately show ?thesis using sw(3) by (simp add: str_at_def cstr_def takeWhile_append)
        qed
        moreover have "take (n2 - n1) (drop n1 s2) = w"
          using s2 n2(1) by (intro nth_equalityI) (simp_all add: w_def)
        moreover have "str_at s2 n2 = []" using s2(1,3) n2(1) by (simp add: str_at_step)
        ultimately show ?thesis by simp
      qed
      let ?argv = "argv[argc := Some n1]"
      have ih: "(let ws = words token l in
        if argc + 1 + length ws \<le> length ?argv
        then \<exists>argv' s'. parse_from token s2 n3 (argc + 1) ?argv = Inr (int (argc + 1 + length ws), argv', s') \<and>
               parsed s2 n3 ws (argc + 1) ?argv argv' s'
        else parse_from token s2 n3 (argc + 1) ?argv = Inl (Fault ''argv''))"
        unfolding l_def s2_def n3_def
        by (rule "1.IH" [of n1 n2])
          (use lt n1(1) n2(1) False \<open>s ! i \<noteq> 0\<close> True "1.prems"(2,4) t3 n1_def n2_def in \<open>simp_all add: s2_def n3_def\<close>)
      show ?thesis
      proof (cases "argc + 1 + length (words token l) \<le> length argv")
        case fits: True
        then obtain argv' s' where r: "parse_from token s2 n3 (argc + 1) ?argv = Inr (int (argc + 1 + length (words token l)), argv', s')"
          "parsed s2 n3 (words token l) (Suc argc) ?argv argv' s'" using ih by (auto simp: Let_def)
        have "parsed s i (w # words token l) argc argv argv' s'"
          by (rule parsed_word [OF r(2) s2 n2(1) n1(3)]) (use \<open>n1 < n2\<close> n1(3) True wstr in \<open>auto simp: n3_def\<close>)
        then show ?thesis using fits run True r(1) by (simp add: ws Let_def)
      qed (use ih run True ws in \<open>simp add: Let_def\<close>)
    qed (use run ws "1.prems"(3) in \<open>simp add: Let_def\<close>)
  qed
qed

section \<open>Editing follows a line editor\<close>

text \<open>
  A reference for the keys that do not end the line: backspace takes the last character off,
  \<open>ctrl+u\<close> all of them, \<open>ctrl+l\<close> none, any other key is added.
\<close>

definition edit :: "u8 list \<Rightarrow> u8 \<Rightarrow> u8 list" where
  "edit line k = (if k = BS then butlast line else if k = CTRL_U then [] else if k = CTRL_L then line else line @ [k])"

definition ends_line :: "u8 \<Rightarrow> bool" where
  "ends_line k \<longleftrightarrow> k = LF \<or> k = CR"

lemma length_kill_line [simp]: "length (kill_line bf pos) = length bf"
  by (induction bf pos rule: kill_line.induct) simp_all

text \<open>The buffer holds the line in front of the position, and no control key in it.\<close>

definition holds_line :: "u8 list \<Rightarrow> nat \<Rightarrow> u8 list \<Rightarrow> bool" where
  "holds_line bf pos line \<longleftrightarrow> pos = length line \<and> take pos bf = line \<and> BS \<notin> set line \<and> 0 \<notin> set line"

lemma holds_line_edit:
  assumes "holds_line bf pos line" "pos < length bf" "k \<noteq> 0" "\<not> ends_line k"
  shows "k = BS \<Longrightarrow> (bf[pos := k]) ! 0 \<noteq> BS \<Longrightarrow> holds_line (bf[pos := k]) (pos - 1) (edit line k)"
    "k = BS \<Longrightarrow> (bf[pos := k]) ! 0 = BS \<Longrightarrow> holds_line (bf[pos := k]) pos (edit line k)"
    "k = CTRL_U \<Longrightarrow> holds_line bf' 0 (edit line k)"
    "k = CTRL_L \<Longrightarrow> holds_line (bf[pos := c]) pos (edit line k)"
    "k \<noteq> BS \<Longrightarrow> k \<noteq> CTRL_U \<Longrightarrow> k \<noteq> CTRL_L \<Longrightarrow> holds_line (bf[pos := k]) (pos + 1) (edit line k)"
proof -
  have h: "pos = length line" "take (length line) bf = line" "BS \<notin> set line" "0 \<notin> set line"
    using assms(1) by (auto simp: holds_line_def)
  have tk: "take j (bf[pos := c]) = take j line" if "j \<le> length line" for j c
    using that h(1,2) by (metis min.absorb1 take_take take_update_cancel order_refl)
  show "k = BS \<Longrightarrow> (bf[pos := k]) ! 0 \<noteq> BS \<Longrightarrow> holds_line (bf[pos := k]) (pos - 1) (edit line k)"
    using h tk [of "length line - 1"] by (auto simp: holds_line_def edit_def butlast_conv_take dest: in_set_takeD)
  show "holds_line (bf[pos := k]) pos (edit line k)" if "k = BS" "(bf[pos := k]) ! 0 = BS"
  proof (cases line)
    case (Cons c cs)
    have "(bf[pos := k]) ! 0 = take 1 (bf[pos := k]) ! 0" by simp
    also have "\<dots> = c" using tk [of 1] Cons by simp
    finally show ?thesis using that(2) h(3) Cons by simp
  qed (use h that in \<open>simp add: holds_line_def edit_def\<close>)
  show "k = CTRL_U \<Longrightarrow> holds_line bf' 0 (edit line k)" by (simp add: holds_line_def edit_def)
  show "k = CTRL_L \<Longrightarrow> holds_line (bf[pos := c]) pos (edit line k)"
    using h tk [of "length line"] by (simp add: holds_line_def edit_def)
  show "k \<noteq> BS \<Longrightarrow> k \<noteq> CTRL_U \<Longrightarrow> k \<noteq> CTRL_L \<Longrightarrow> holds_line (bf[pos := k]) (pos + 1) (edit line k)"
    using h assms(2,3) tk [of "length line"] by (auto simp: holds_line_def edit_def take_Suc_conv_app_nth)
qed

lemma readline_loop_line:
  assumes "holds_line bf pos line" "0 \<notin> set keys" "\<forall>k \<in> set keys. \<not> ends_line k" "count \<le> length bf" "ends_line e"
    "\<forall>i \<le> length keys. length (foldl edit line (take i keys)) < count"
  shows "\<exists>bf' out. readline_loop (keys @ e # rest) count bf pos = Inr (True, bf', out, rest) \<and> length bf' = length bf \<and>
    terminated bf' 0 \<and> str_at bf' 0 = foldl edit line keys"
  using assms
proof (induction keys arbitrary: bf pos line)
  case Nil
  have h: "pos = length line" "take pos bf = line" "0 \<notin> set line" "pos < count" "pos < length bf"
    using Nil by (auto simp: holds_line_def)
  have b: "bf[pos := 0] = line @ 0 # drop (Suc pos) bf" using h by (simp add: upd_conv_take_nth_drop)
  have "str_at (bf[pos := 0]) 0 = line" unfolding b str_at_def cstr_def drop_0
    using h(3) by (subst takeWhile_append2) auto
  moreover have "terminated (bf[pos := 0]) 0" by (simp add: terminated_def b)
  ultimately show ?case using h Nil(5) by (auto simp: ends_line_def Let_def)
next
  case (Cons k keys)
  let ?r = "readline_loop (k # keys @ e # rest) count bf pos"
  have h: "pos < count" "pos < length bf" "k \<noteq> 0" "\<not> ends_line k"
    using Cons.prems by (auto simp: holds_line_def)
  have bound: "\<forall>i \<le> length keys. length (foldl edit (edit line k) (take i keys)) < count"
    using Cons.prems(6) by (metis Suc_le_mono foldl_Cons length_Cons take_Suc_Cons)
  have step: "\<exists>bf' out. ?r = Inr (True, bf', out, rest) \<and> length bf' = length bf \<and> terminated bf' 0 \<and>
      str_at bf' 0 = foldl edit line (k # keys)"
    if r: "?r = bnd (readline_loop (keys @ e # rest) count bf1 pos1) (\<lambda>(ok, bf, o', ks). Inr (ok, bf, w @ o', ks))"
      and b: "holds_line bf1 pos1 (edit line k)" "length bf1 = length bf" for bf1 pos1 w
  proof -
    obtain bf' out where "readline_loop (keys @ e # rest) count bf1 pos1 = Inr (True, bf', out, rest)" "length bf' = length bf1"
      "terminated bf' 0" "str_at bf' 0 = foldl edit (edit line k) keys"
      using Cons.IH [OF b(1)] Cons.prems b(2) bound by auto
    then show ?thesis using r b(2) by simp
  qed
  note ed = holds_line_edit [OF Cons.prems(1) h(2-4)]
  consider "k = BS" "(bf[pos := k]) ! 0 \<noteq> BS" | "k = BS" "(bf[pos := k]) ! 0 = BS" | "k = CTRL_U" | "k = CTRL_L"
    | "k \<noteq> BS" "k \<noteq> CTRL_U" "k \<noteq> CTRL_L" by blast
  then have "\<exists>bf' out. ?r = Inr (True, bf', out, rest) \<and> length bf' = length bf \<and> terminated bf' 0 \<and>
      str_at bf' 0 = foldl edit line (k # keys)"
  proof cases
    case 1
    show ?thesis by (rule step [of _ _ "[Putchar BS]", OF _ ed(1) [OF 1]]) (use h 1 in \<open>simp_all add: ends_line_def Let_def\<close>)
  next
    case 2
    show ?thesis by (rule step [of _ _ "[]", OF _ ed(2) [OF 2]]) (use h 2 in \<open>simp_all add: ends_line_def Let_def\<close>)
  next
    case 3
    show ?thesis by (rule step [of "kill_line (bf[pos := k]) pos" 0 "replicate pos (Putchar BS)", OF _ ed(3) [OF 3]]) (use h 3 in \<open>simp_all add: ends_line_def Let_def\<close>)
  next
    case 4
    show ?thesis by (rule step [of _ _ "[Clear_screen, Promat, Print (cstr (bf[pos := 0]))]", OF _ ed(4) [OF 4]]) (use h 4 in \<open>simp_all add: ends_line_def Let_def\<close>)
  next
    case 5
    show ?thesis by (rule step [of _ _ "[Putchar k]", OF _ ed(5) [OF 5]]) (use h 5 in \<open>simp_all add: ends_line_def Let_def\<close>)
  qed
  then show ?case by simp
qed

section \<open>Results\<close>

text \<open>
  C30: \<open>cmd_parse\<close> cuts a command line into its words. For a terminated line with at most 16 words
  it returns their number; \<open>argv[i]\<close> points to a terminated string, which is the \<open>i\<close>-th maximal run
  of characters without a separator, and the other entries of \<open>argv\<close> are \<open>NULL\<close>. With more words
  it writes behind the end of \<open>argv\<close>: the check of the number of arguments comes too late and
  never takes effect.
\<close>

theorem cmd_parse_words:
  assumes "terminated cmd 0" "token \<noteq> 0"
  shows "(let ws = words token (str_at cmd 0) in
    if length ws \<le> 16
    then \<exists>argv cmd'. cmd_parse cmd token = Inr (int (length ws), argv, cmd') \<and> length cmd' = length cmd \<and> length argv = 16 \<and>
      (\<forall>i < length ws. \<exists>off. argv ! i = Some off \<and> terminated cmd' off \<and> str_at cmd' off = ws ! i) \<and>
      (\<forall>i < 16. length ws \<le> i \<longrightarrow> argv ! i = None)
    else cmd_parse cmd token = Inl (Fault ''argv''))"
proof -
  let ?ws = "words token (str_at cmd 0)" let ?argv = "replicate 16 None"
  have r: "if length ?ws \<le> 16
    then \<exists>argv' s'. cmd_parse cmd token = Inr (int (length ?ws), argv', s') \<and> parsed cmd 0 ?ws 0 ?argv argv' s'
    else cmd_parse cmd token = Inl (Fault ''argv'')"
    using parse_from_words [OF assms, of 0 ?argv] by (simp add: cmd_parse_def Let_def split: if_splits)
  show ?thesis
  proof (cases "length ?ws \<le> 16")
    case True
    then obtain argv' s' where p: "cmd_parse cmd token = Inr (int (length ?ws), argv', s')" "parsed cmd 0 ?ws 0 ?argv argv' s'"
      using r by auto
    have "argv' ! i = None" if "i < 16" "length ?ws \<le> i" for i
      using p(2) that unfolding parsed_def by (metis add_0 nth_replicate)
    then show ?thesis using p True by (auto simp: parsed_def Let_def)
  qed (use r in \<open>simp add: Let_def\<close>)
qed

lemma cmd_parse_words_witness:
  "(\<exists>argv cmd'. cmd_parse [0x20, 0x6c, 0x73, 0x20, 0x20, 0x2d, 0x6c, 0] 0x20 = Inr (2, argv, cmd') \<and>
     (\<exists>off. argv ! 1 = Some off \<and> str_at cmd' off = [0x2d, 0x6c])) \<and>
   cmd_parse (concat (replicate 17 [0x61, 0x20]) @ [0]) 0x20 = Inl (Fault ''argv'')"
proof -
  have t: "terminated [0x20, 0x6c, 0x73, 0x20, 0x20, 0x2d, 0x6c, 0] 0" "terminated (concat (replicate 17 [0x61, 0x20]) @ [0]) 0"
    by (simp_all add: terminated_def)
  have w: "words 0x20 (str_at [0x20, 0x6c, 0x73, 0x20, 0x20, 0x2d, 0x6c, 0] 0) = [[0x6c, 0x73], [0x2d, 0x6c]]"
    by (simp add: str_at_def cstr_def words_def)
  have w17: "length (words 0x20 (str_at (concat (replicate 17 [0x61, 0x20]) @ [0]) 0)) = 17"
    by code_simp
  have z: "(0x20 :: u8) \<noteq> 0" and n17: "\<not> (17 :: nat) \<le> 16" and n2: "length [[0x6c, 0x73], [0x2d, 0x6c :: u8]] \<le> 16" by simp_all
  have "cmd_parse (concat (replicate 17 [0x61, 0x20]) @ [0]) 0x20 = Inl (Fault ''argv'')"
    using cmd_parse_words [OF t(2) z] unfolding Let_def w17 if_not_P [OF n17] .
  moreover obtain argv cmd' where r: "cmd_parse [0x20, 0x6c, 0x73, 0x20, 0x20, 0x2d, 0x6c, 0] 0x20 = Inr (int 2, argv, cmd')"
    "\<forall>i < length [[0x6c, 0x73], [0x2d, 0x6c :: u8]]. \<exists>off. argv ! i = Some off \<and> terminated cmd' off \<and>
       str_at cmd' off = [[0x6c, 0x73], [0x2d, 0x6c]] ! i"
    using cmd_parse_words [OF t(1) z] unfolding Let_def w if_P [OF n2] by auto
  moreover have "\<exists>off. argv ! 1 = Some off \<and> str_at cmd' off = [0x2d, 0x6c]" using spec [OF r(2), of 1] by auto
  ultimately show ?thesis by auto
qed

text \<open>
  C31: The line editor of the shell. When the keys in front of a return are not zero, not a
  return themselves, and the edited line stays shorter than \<open>count\<close>, \<open>readline\<close> succeeds, takes
  exactly these keys, never writes behind its buffer, and leaves in it the terminated line that
  the keys edit: a backspace takes off the last character (and does nothing on an empty line),
  \<open>ctrl+u\<close> clears the line, \<open>ctrl+l\<close> leaves it, every other key is added at the end.
\<close>

theorem readline_edits_line:
  assumes "0 \<notin> set keys" "\<forall>k \<in> set keys. \<not> ends_line k" "ends_line e" "0 < count" "count \<le> length bf"
    "\<forall>i \<le> length keys. length (foldl edit [] (take i keys)) < count"
  shows "\<exists>bf' out. readline (keys @ e # rest) bf count = Inr (True, bf', out, rest) \<and> length bf' = length bf \<and>
    terminated bf' 0 \<and> str_at bf' 0 = foldl edit [] keys"
  using readline_loop_line [of bf 0 "[]", OF _ assms(1,2,5,3,6)] assms(4)
  by (simp add: readline_def holds_line_def)

lemma readline_edits_line_witness:
  "\<exists>bf' out. readline [0x6c, BS, BS, 0x6c, 0x78, BS, 0x73, CR, 0x61] (replicate 4 0) 4 = Inr (True, bf', out, [0x61]) \<and>
    str_at bf' 0 = [0x6c, 0x73]"
proof -
  have l: "\<forall>i \<le> length [0x6c, BS, BS, 0x6c, 0x78, BS, 0x73]. length (foldl edit [] (take i [0x6c, BS, BS, 0x6c, 0x78, BS, 0x73])) < 4"
    by (simp add: edit_def take_Cons split: nat.splits)
  show ?thesis
    using readline_edits_line [of "[0x6c, BS, BS, 0x6c, 0x78, BS, 0x73]" CR 4 "replicate 4 0" "[0x61]", OF _ _ _ _ _ l]
    by (auto simp: ends_line_def edit_def)
qed

end
