(* ===== verification/Shell.thy ===== *)
theory Shell
  imports Builtin Cmdline Pipe
begin

text \<open>
  \<open>shell/shell.c\<close>: one turn of the shell's loop. Programs that are loaded from the disk are not part
  of the source: \<open>prog\<close> stands for what starting one (\<open>fork\<close>, and \<open>execv\<close> in the child) and waiting for
  it does; it gets the arguments and the state, and returns the child's pid and status and the
  state when the shell goes on. The keys that are typed are an argument of the turn.
\<close>

type_synonym program = "u8 list list \<Rightarrow> shellk \<Rightarrow> ((u32 \<times> u32) \<times> shellk) res option"

definition print_promat :: "shellk \<Rightarrow> shellk res" where
  "print_promat s =
     bnd (printf (lit ''[unique9@localhost %s]$'') [StrArg (cwd_cache s)] (s\<lparr>str_color := 11\<rparr>)) (\<lambda>s.
     Inr (s\<lparr>str_color := 7\<rparr>))"

text \<open>The terminal while the line is edited; \<open>putchar\<close> writes to the screen directly.\<close>

fun show_tty :: "tty list \<Rightarrow> shellk \<Rightarrow> shellk res" where
  "show_tty [] s = Inr s"
| "show_tty (t # ts) s =
     bnd (case t of
            Putchar c \<Rightarrow> Inr (s\<lparr>os := (os s)\<lparr>screen := screen (os s) @ [c]\<rparr>\<rparr>)
          | Clear_screen \<Rightarrow> Inr (s\<lparr>os := (os s)\<lparr>screen := []\<rparr>\<rparr>)
          | Promat \<Rightarrow> print_promat s
          | Print bf \<Rightarrow> printf (lit ''%s'') [StrArg bf] s) (show_tty ts)"

section \<open>One command\<close>

definition ignore_result :: "('a \<times> shellk) res option \<Rightarrow> shellk res option" where
  "ignore_result r = obnd r (\<lambda>(_, s). Some (Inr s))"

text \<open>The table of the commands of the shell itself.\<close>

definition buildin :: "u8 list list \<Rightarrow> shellk \<Rightarrow> shellk res option option" where
  "buildin argv s =
     (let c = argv ! 0 in
      if c = lit ''ls'' then Some (buildin_ls argv s)
      else if c = lit ''cd''
      then Some (obnd (buildin_cd argv s) (\<lambda>(ok, s). Some (Inr (if ok then s\<lparr>cwd_cache := final_path s\<rparr> else s))))
      else if c = lit ''pwd'' then Some (buildin_pwd argv s)
      else if c = lit ''ps'' then Some (Some (buildin_ps argv s))
      else if c = lit ''clear'' then Some (Some (buildin_clear argv s))
      else if c = lit ''mkdir'' then Some (ignore_result (buildin_mkdir argv s))
      else if c = lit ''rmdir'' then Some (ignore_result (buildin_rmdir argv s))
      else if c = lit ''rm'' then Some (ignore_result (buildin_rm argv s))
      else if c = lit ''help'' then Some (Some (buildin_help argv s))
      else None)"

definition run_program :: "program \<Rightarrow> u8 list list \<Rightarrow> shellk \<Rightarrow> shellk res option" where
  "run_program prog argv s =
     obnd (prog argv s) (\<lambda>((child_pid, st), s).
     Some (if child_pid = -1 then Inl (Panic ''my_shell: no child'')
           else printf (lit ''child_pid is %d, its status: %d'' @ NEWLINE) [IntArg child_pid, IntArg st] s))"

text \<open>A command without a word has a \<open>NULL\<close> in \<open>argv[0]\<close>, which is then read.\<close>

definition cmd_excute :: "program \<Rightarrow> u8 list list \<Rightarrow> shellk \<Rightarrow> shellk res option" where
  "cmd_excute prog argv s =
     (if argv = [] then Some (Inl (Fault ''argv[0]''))
      else obnd (make_clear_abs_path (argv ! 0) s) (\<lambda>(final_path_temp, s).
        case buildin argv s of
          Some r \<Rightarrow> r
        | None \<Rightarrow>
            obnd (Some (sys_stat final_path_temp (os s))) (\<lambda>(st, k).
            let s = s\<lparr>os := k\<rparr> in
            if st \<noteq> None then run_program prog argv s
            else Some (bnd (printf (lit ''I LOVE YOU BUT I DON'' @ [0x27] @ lit ''T KONW YOU !'' @ NEWLINE) [] (s\<lparr>str_color := 12\<rparr>)) (\<lambda>s.
                 Inr (s\<lparr>str_color := 7\<rparr>))))))"

text \<open>\<open>argc = cmd_parse(cmd, argv, ' ');\<close> and the strings \<open>argv\<close> points to.\<close>

definition cmd_words :: "u8 list \<Rightarrow> u8 list list option res" where
  "cmd_words cmd =
     bnd (cmd_parse cmd 0x20) (\<lambda>(argc, argv, cmd').
     Inr (if argc = -1 then None else Some (map (\<lambda>i. str_at cmd' (the (argv ! i))) [0..<nat argc])))"

definition run_cmd :: "program \<Rightarrow> u8 list \<Rightarrow> shellk \<Rightarrow> shellk res option" where
  "run_cmd prog cmd s =
     obnd (Some (cmd_words cmd)) (\<lambda>ws. case ws of
       None \<Rightarrow> Some (Inl (Fault ''argc''))
     | Some argv \<Rightarrow> cmd_excute prog argv s)"

section \<open>One line\<close>

definition u32_of :: "int \<Rightarrow> nat" where
  "u32_of i = nat (i mod 2 ^ 32)"

definition redirect :: "nat \<Rightarrow> int \<Rightarrow> shellk \<Rightarrow> shellk res" where
  "redirect fd to s = bnd (sys_fd_redirect fd (u32_of to) (os s)) (\<lambda>k. Inr (s\<lparr>os := k\<rparr>))"

definition close_fd :: "int \<Rightarrow> shellk \<Rightarrow> shellk res" where
  "close_fd fd s = bnd (sys_close fd (os s)) (\<lambda>(_, k). Inr (s\<lparr>os := k\<rparr>))"

text \<open>
  The commands between the bars. The text in front of a bar becomes a string of its own; \<open>line\<close> is
  the part behind the last bar that has been replaced.
\<close>

function run_pipeline :: "program \<Rightarrow> u8 list \<Rightarrow> shellk \<Rightarrow> (u8 list \<times> shellk) res option" where
  "run_pipeline prog line s =
     (case strchr line 0 0x7c of
        Inl e \<Rightarrow> Some (Inl e)
      | Inr None \<Rightarrow> Some (Inr (line, s))
      | Inr (Some p) \<Rightarrow>
          if p < length line
          then obnd (run_cmd prog (take p line @ [0]) s) (run_pipeline prog (drop (p + 1) line))
          else Some (Inl (Fault ''string'')))"
  by pat_completeness auto
termination by (relation "measure (\<lambda>(prog, line, s). length line)") auto

declare run_pipeline.simps [simp del]

definition run_pipes :: "program \<Rightarrow> u8 list \<Rightarrow> nat \<Rightarrow> shellk \<Rightarrow> shellk res option" where
  "run_pipes prog cmd_line p s =
     obnd (Some (sys_pipe (os s))) (\<lambda>(_, fds, k).
     let (fd0, fd1) = (case fds of Some f \<Rightarrow> f | None \<Rightarrow> (-1, 0)); s = s\<lparr>os := k\<rparr> in
     obnd (Some (redirect 1 fd1 s)) (\<lambda>s.
     obnd (run_cmd prog (take p cmd_line @ [0]) s) (\<lambda>s.
     obnd (Some (redirect 0 fd0 s)) (\<lambda>s.
     obnd (run_pipeline prog (drop (p + 1) cmd_line) s) (\<lambda>(each_cmd, s).
     obnd (Some (redirect 1 1 s)) (\<lambda>s.
     obnd (run_cmd prog each_cmd s) (\<lambda>s.
     Some (bnd (redirect 0 0 s) (\<lambda>s. bnd (close_fd fd0 s) (close_fd fd1))))))))))"

definition run_line :: "program \<Rightarrow> u8 list \<Rightarrow> shellk \<Rightarrow> shellk res option" where
  "run_line prog cmd_line s =
     obnd (Some (at cmd_line 0)) (\<lambda>c.
     if c = 0 then Some (Inr s)
     else obnd (Some (strchr cmd_line 0 0x7c)) (\<lambda>pipe_symbol.
       case pipe_symbol of
         Some p \<Rightarrow> run_pipes prog cmd_line p s
       | None \<Rightarrow>
           obnd (Some (cmd_words cmd_line)) (\<lambda>ws. case ws of
             None \<Rightarrow> Some (printf (lit ''num of arguments exceed %d'' @ NEWLINE) [IntArg 16] s)
           | Some argv \<Rightarrow> cmd_excute prog argv s)))"

text \<open>One turn of \<open>my_shell\<close>; the result has the keys that were typed ahead.\<close>

definition shell_turn :: "program \<Rightarrow> u8 list \<Rightarrow> shellk \<Rightarrow> (u8 list \<times> shellk) res option" where
  "shell_turn prog keys s =
     obnd (Some (print_promat s)) (\<lambda>s.
     let s = s\<lparr>final_path := []\<rparr> in
     obnd (Some (readline keys (replicate cmd_len 0) cmd_len)) (\<lambda>(ok, cmd_line, out, keys).
     obnd (Some (bnd (show_tty out s) (\<lambda>s.
       if ok then Inr s
       else printf (lit ''readline: can`t find enter_key in the cmd_line, max num of char is 128'' @ NEWLINE) [] s)) ) (\<lambda>s.
     obnd (run_line prog cmd_line s) (\<lambda>s. Some (Inr (keys, s))))))"

text \<open>
  \<open>my_shell\<close>: the turns one after the other, for ever. The shell has no command that ends it; all
  that ends it is an access or a check that fails.
\<close>

partial_function (option) my_shell_from :: "program \<Rightarrow> u8 list \<Rightarrow> shellk \<Rightarrow> shellk res option" where
  "my_shell_from prog keys s =
     (case shell_turn prog keys s of
        None \<Rightarrow> None
      | Some r \<Rightarrow> (case r of Inl e \<Rightarrow> Some (Inl e) | Inr (keys, s) \<Rightarrow> my_shell_from prog keys s))"

definition my_shell :: "program \<Rightarrow> u8 list \<Rightarrow> shellk \<Rightarrow> shellk res option" where
  "my_shell prog keys s = my_shell_from prog keys (s\<lparr>cwd_cache := [SLASH]\<rparr>)"

section \<open>Results\<close>

lemma my_shell_from_never_returns: "my_shell_from prog keys s = Some r \<Longrightarrow> \<exists>e. r = Inl e"
  by (rule my_shell_from.raw_induct [where P = "\<lambda>_ _ _ r. \<exists>e. r = Inl e"])
     (auto split: option.splits sum.splits)

lemma my_shell_never_returns: "my_shell prog keys s = Some r \<Longrightarrow> \<exists>e. r = Inl e"
  unfolding my_shell_def by (rule my_shell_from_never_returns)

lemma blanks_skip: "skip (\<lambda>c. c = 0x20) (replicate n 0x20 @ 0 # bs) 0 = n"
  by (induction n) (simp_all add: skip_def)

text \<open>
  A line of blanks stops the shell. The line is not empty, so it is cut into words and
  executed, but it has none; the first thing \<open>cmd_excute\<close> does is to read the path \<open>argv[0]\<close>, which
  is \<open>NULL\<close>, whatever the state and the programs on the disk are.
\<close>

theorem blank_line_reads_null:
  assumes "0 < n"
  shows "run_line prog (replicate n 0x20 @ 0 # bs) s = Some (Inl (Fault ''argv[0]''))"
proof -
  let ?l = "replicate n 0x20 @ 0 # bs"
  obtain m where m: "n = Suc m" using assms by (cases n) auto
  have t: "terminated ?l 0" by (simp add: terminated_def)
  have "str_at ?l 0 = replicate n 0x20" unfolding str_at_def cstr_def drop_0 by (subst takeWhile_append2) auto
  then have "0x7c \<notin> set (str_at ?l 0)" by simp
  then have "strchr ?l 0 0x7c = Inr None" using strchr_str [OF t, of "0x7c"] by simp
  moreover have "cmd_words ?l = Inr (Some [])"
  proof -
    have "l ! 0 = 0x20 \<Longrightarrow> l ! n = 0 \<Longrightarrow> n < length l \<Longrightarrow> skip (\<lambda>c. c = 0x20) l 0 = n \<Longrightarrow>
        parse_from 0x20 l 0 0 (replicate MAX_ARG_NR None) = Inr (0, replicate MAX_ARG_NR None, l)" for l
      by (subst parse_from.simps) (auto simp: Let_def)
    from this [of ?l] have "parse_from 0x20 ?l 0 0 (replicate MAX_ARG_NR None) = Inr (0, replicate MAX_ARG_NR None, ?l)"
      using blanks_skip [of n bs] by (simp add: nth_append assms)
    then show ?thesis by (simp add: cmd_words_def cmd_parse_def)
  qed
  moreover have "at ?l 0 = Inr 0x20" by (simp add: at_def m)
  ultimately show ?thesis by (simp add: run_line_def cmd_excute_def)
qed

lemma blank_line_reads_null_witness:
  "\<forall>s. run_line (\<lambda>argv s. None) [0x20, 0x20, 0x20, 0] s = Some (Inl (Fault ''argv[0]''))"
  using blank_line_reads_null [of 3 "\<lambda>argv s. None" "[]"] by (simp add: numeral_eq_Suc)

end
