(* ===== verification/Ata.thy ===== *)
theory Ata
  imports Inode Stdio
begin

text \<open>
  \<open>device/ide.c\<close>, the rest of the driver (theory \<open>Ide\<close> has the transfers): the channels and
  disks found at the start, the answer to IDENTIFY, the scan of the partition tables and the
  interrupt handler.
\<close>

section \<open>Identification\<close>

text \<open>What \<open>identify_disk\<close> prints: serial number, model, sectors, and the capacity in MB.\<close>

record disk_info =
  di_sn :: "u8 list"
  di_module :: "u8 list"
  di_sectors :: nat
  di_capacity :: nat

definition parse_identify :: "u8 list \<Rightarrow> disk_info res" where
  "parse_identify id_info =
     bnd (swap_paris_bytes (slice (10 * 2) 20 id_info)) (\<lambda>sn.
     bnd (swap_paris_bytes (slice (27 * 2) 40 id_info)) (\<lambda>md.
     let n = rd32 id_info (60 * 2)
     in Inr \<lparr>di_sn = cstr sn, di_module = cstr md, di_sectors = n,
          di_capacity = n * 512 mod 2 ^ 32 div 1024 div 1024\<rparr>))"

definition identify_disk ::
    "channel_dev \<Rightarrow> (access list \<Rightarrow> u8 list) \<Rightarrow> (access list \<Rightarrow> nat \<Rightarrow> u8) \<Rightarrow> (disk_info \<times> access list) res" where
  "identify_disk hdd dev stat =
     (let tr = select_disk hdd @ cmd_out hdd 0xec @ [Disk_done_down] in
      if \<not> fst (busy_wait (stat tr)) then Inl (Panic ''identify failed'')
      else let tr = tr @ read_from_sector hdd 1
           in bnd (parse_identify (dev tr)) (\<lambda>i. Inr (i, tr)))"

section \<open>Partitions\<close>

record partition_table_entry =
  boot_able :: u8
  fs_type :: u8
  pte_start_lba :: u32
  pte_sec_cnt :: u32

text \<open>
  The four entries of a boot sector, at offset 446, of 16 bytes each; the fields for cylinders,
  heads and sectors are not used.
\<close>

definition table_entry :: "u8 list \<Rightarrow> nat \<Rightarrow> partition_table_entry" where
  "table_entry bs i = (let o' = 446 + 16 * i in
     \<lparr>boot_able = bs ! o', fs_type = bs ! (o' + 4), pte_start_lba = of_nat (rd32 bs (o' + 8)),
      pte_sec_cnt = of_nat (rd32 bs (o' + 12))\<rparr>)"

definition partition_table :: "u8 list \<Rightarrow> partition_table_entry list" where
  "partition_table bs = map (table_entry bs) [0..<4]"

record partition =
  part_start :: u32
  part_cnt :: u32
  part_name :: "u8 list"

text \<open>
  The global variables of the scan and the two arrays of the disk. \<open>partition_list\<close> names the
  elements: the disk, and the index of a primary or of a logical partition.
\<close>

datatype part_ref = Prim "u8 list" nat | Logic "u8 list" nat

record scan =
  ext_lba_base :: u32
  p_no :: nat
  l_no :: nat
  prim_parts :: "partition list"
  logic_parts :: "partition list"
  partition_list :: "part_ref list"

text \<open>\<open>sprintf(name, "%s%d", hd->name, n)\<close> into the 8 bytes of \<open>name\<close>.\<close>

definition part_label :: "u8 list \<Rightarrow> nat \<Rightarrow> u8 list res" where
  "part_label hd_name n =
     bnd (sprintf (replicate 8 0) [0x25, 0x73, 0x25, 0x64] [StrArg hd_name, IntArg (of_nat n)]) (\<lambda>(nm, _). Inr (cstr nm))"

definition add_primary :: "u8 list \<Rightarrow> u32 \<Rightarrow> partition_table_entry \<Rightarrow> scan \<Rightarrow> scan res" where
  "add_primary hd_name ext_lba p st =
     GUARD (p_no st < length (prim_parts st)) ''prim_parts''
      (bnd (part_label hd_name (p_no st + 1)) (\<lambda>nm.
       let st = st\<lparr>prim_parts := (prim_parts st)[p_no st :=
                  \<lparr>part_start = ext_lba + pte_start_lba p, part_cnt = pte_sec_cnt p, part_name = nm\<rparr>],
                partition_list := partition_list st @ [Prim hd_name (p_no st)], p_no := p_no st + 1\<rparr>
       in ASSERT (p_no st < 4) ''p_no < 4'' (Inr st)))"

definition add_logical :: "u8 list \<Rightarrow> u32 \<Rightarrow> partition_table_entry \<Rightarrow> scan \<Rightarrow> scan res" where
  "add_logical hd_name ext_lba p st =
     GUARD (l_no st < length (logic_parts st)) ''logic_parts''
      (bnd (part_label hd_name (l_no st + 5)) (\<lambda>nm.
       Inr (st\<lparr>logic_parts := (logic_parts st)[l_no st :=
                  \<lparr>part_start = ext_lba + pte_start_lba p, part_cnt = pte_sec_cnt p, part_name = nm\<rparr>],
                partition_list := partition_list st @ [Logic hd_name (l_no st)], l_no := l_no st + 1\<rparr>)))"

text \<open>\<open>ide_read\<close> of a boot sector.\<close>

definition read_boot_sector :: "image \<Rightarrow> u32 \<Rightarrow> u8 list res" where
  "read_boot_sector d lba = ASSERT (lba_ok (unat lba) 1) ''lba < max_lba'' (Inr (sectors d (unat lba) 1))"

text \<open>
  An extended partition: the first one seen sets the base that the later ones are relative to.
  The result is the sector of its table, the entries there, and the new state.
\<close>

definition open_extended :: "image \<Rightarrow> partition_table_entry \<Rightarrow> scan \<Rightarrow> (u32 \<times> partition_table_entry list \<times> scan) res" where
  "open_extended d p st =
     (let sub = (if ext_lba_base st \<noteq> 0 then pte_start_lba p + ext_lba_base st else pte_start_lba p);
          st = (if ext_lba_base st \<noteq> 0 then st else st\<lparr>ext_lba_base := pte_start_lba p\<rparr>)
      in bnd (read_boot_sector d sub) (\<lambda>bs. Inr (sub, partition_table bs, st)))"

text \<open>
  The loop of \<open>partition_scan\<close> over the entries of the table in sector \<open>ext_lba\<close>. An extended
  partition is scanned by a call of the routine itself, so a disk can send it round for ever:
  then the value is \<open>None\<close>. The routine returns early once there are eight logical
  partitions; its caller goes on with its own table.
\<close>

partial_function (option) scan_entries ::
    "image \<Rightarrow> u8 list \<Rightarrow> u32 \<Rightarrow> partition_table_entry list \<Rightarrow> scan \<Rightarrow> scan res option" where
  "scan_entries d hd_name ext_lba ps st =
     (case ps of
        [] \<Rightarrow> Some (Inr st)
      | p # ps \<Rightarrow>
          if fs_type p = 0x5
          then (case open_extended d p st of
                  Inl e \<Rightarrow> Some (Inl e)
                | Inr (sub, sub_ps, st) \<Rightarrow>
                    Option.bind (scan_entries d hd_name sub sub_ps st) (\<lambda>r.
                      case r of Inl e \<Rightarrow> Some (Inl e) | Inr st \<Rightarrow> scan_entries d hd_name ext_lba ps st))
          else if fs_type p \<noteq> 0
          then (if ext_lba = 0
                then (case add_primary hd_name ext_lba p st of
                        Inl e \<Rightarrow> Some (Inl e) | Inr st \<Rightarrow> scan_entries d hd_name ext_lba ps st)
                else (case add_logical hd_name ext_lba p st of
                        Inl e \<Rightarrow> Some (Inl e)
                      | Inr st \<Rightarrow> if l_no st \<ge> 8 then Some (Inr st) else scan_entries d hd_name ext_lba ps st))
          else scan_entries d hd_name ext_lba ps st)"

definition partition_scan :: "image \<Rightarrow> u8 list \<Rightarrow> u32 \<Rightarrow> scan \<Rightarrow> scan res option" where
  "partition_scan d hd_name ext_lba st =
     (case read_boot_sector d ext_lba of
        Inl e \<Rightarrow> Some (Inl e)
      | Inr bs \<Rightarrow> scan_entries d hd_name ext_lba (partition_table bs) st)"

text \<open>The line of \<open>partition_info\<close>: \<open>"   %s start_lba:0x%x, sec_cnt:0x%x\n"\<close>.\<close>

definition partition_info :: "partition \<Rightarrow> u8 list res" where
  "partition_info p =
     printk_text (map of_char ''   %s start_lba:0x%x, sec_cnt:0x%x'' @ [0x0a])
       [StrArg (part_name p), IntArg (part_start p), IntArg (part_cnt p)]"

section \<open>Channels\<close>

record ide_channel =
  ch_name :: "u8 list"
  ch_port_base :: nat
  irq_no :: nat
  ch_lock :: lock
  expecting_intr :: bool
  disk_done :: semaphore

definition init_channel :: "nat \<Rightarrow> ide_channel" where
  "init_channel channel_no =
     \<lparr>ch_name = map of_char ''ide'' @ [0x30 + of_nat channel_no],
      ch_port_base = (if channel_no = 0 then 0x1f0 else 0x170),
      irq_no = (if channel_no = 0 then 0x20 + 14 else 0x20 + 15),
      ch_lock = lock_init, expecting_intr = False, disk_done = sema_init 0\<rparr>"

text \<open>
  \<open>intr_hd_handler\<close>: it runs for the vectors 0x2e and 0x2f; the last value is the port whose
  read tells the disk that the interrupt was handled.
\<close>

definition intr_hd_handler ::
    "nat \<Rightarrow> ide_channel list \<Rightarrow> 'a kernel_scheme \<Rightarrow> (nat \<times> ide_channel list \<times> 'a kernel_scheme) res" where
  "intr_hd_handler irq channels k =
     ASSERT (irq = 0x2e \<or> irq = 0x2f) ''irq_no == 0x2e || irq_no == 0x2f''
      (let ch_no = irq - 0x2e in
       GUARD (ch_no < length channels) ''channels''
        (let channel = channels ! ch_no in
         ASSERT (irq_no channel = irq) ''channel->irq_no == irq_no''
          (bnd (if expecting_intr channel
                then bnd (sema_up (disk_done channel) k) (\<lambda>(s, k).
                     Inr (channel\<lparr>expecting_intr := False, disk_done := s\<rparr>, k))
                else Inr (channel, k)) (\<lambda>(channel, k).
           Inr (ch_port_base channel + 7, channels[ch_no := channel], k)))))"

text \<open>
  The disks of \<open>ide_init\<close>: \<open>disks\<close> gives for a channel and a device the content of the disk. The
  first disk of a channel is not scanned. The counters start at 0 for every disk; the base of
  the extended partition does not.
\<close>

definition disk_name :: "nat \<Rightarrow> nat \<Rightarrow> u8 list" where
  "disk_name channel_no dev = map of_char ''sd'' @ [0x61 + of_nat (channel_no * 2 + dev)]"

fun scan_disks :: "(nat \<Rightarrow> nat \<Rightarrow> image) \<Rightarrow> nat list \<Rightarrow> scan \<Rightarrow> (nat \<times> scan) list \<Rightarrow> (scan \<times> (nat \<times> scan) list) res option" where
  "scan_disks disks [] st acc = Some (Inr (st, acc))"
| "scan_disks disks (channel_no # cs) st acc =
     (case partition_scan (disks channel_no 1) (disk_name channel_no 1) 0
             (st\<lparr>prim_parts := replicate 4 \<lparr>part_start = 0, part_cnt = 0, part_name = []\<rparr>,
                 logic_parts := replicate 8 \<lparr>part_start = 0, part_cnt = 0, part_name = []\<rparr>\<rparr>) of
        None \<Rightarrow> None
      | Some (Inl e) \<Rightarrow> Some (Inl e)
      | Some (Inr st') \<Rightarrow> scan_disks disks cs (st'\<lparr>p_no := 0, l_no := 0\<rparr>) (acc @ [(channel_no, st')]))"

definition ide_init ::
    "u8 \<Rightarrow> (nat \<Rightarrow> nat \<Rightarrow> image) \<Rightarrow> (ide_channel list \<times> (nat \<times> scan) list) res option" where
  "ide_init hd_cnt disks =
     (let channel_cnt = (unat hd_cnt + 2 - 1) div 2 in
      if hd_cnt = 0 then Some (Inl (Panic ''hd_cnt > 0''))
      else if channel_cnt > 2 then Some (Inl (Fault ''channels''))
      else case scan_disks disks [0..<channel_cnt]
                  \<lparr>ext_lba_base = 0, p_no = 0, l_no = 0, prim_parts = [], logic_parts = [], partition_list = []\<rparr> [] of
             None \<Rightarrow> None
           | Some (Inl e) \<Rightarrow> Some (Inl e)
           | Some (Inr (_, found)) \<Rightarrow> Some (Inr (map init_channel [0..<channel_cnt], found)))"

section \<open>The scan returns\<close>

abbreviation table_of :: "image \<Rightarrow> u32 \<Rightarrow> partition_table_entry list" where
  "table_of d lba \<equiv> partition_table (sectors d (unat lba) 1)"

text \<open>Every extended entry of the disk leads forward, relative to the base \<open>b\<close>.\<close>

definition leads_forward :: "u32 \<Rightarrow> u32 \<Rightarrow> partition_table_entry list \<Rightarrow> bool" where
  "leads_forward b lba ps \<longleftrightarrow> (\<forall>p \<in> set ps. fs_type p = 5 \<longrightarrow> lba < pte_start_lba p + b)"

definition forward :: "u32 \<Rightarrow> image \<Rightarrow> bool" where
  "forward b d \<longleftrightarrow> (\<forall>lba. unat lba \<le> max_lba \<longrightarrow> leads_forward b lba (table_of d lba))"

lemma leads_forward_simps [simp]:
  "leads_forward b lba []"
  "leads_forward b lba (p # ps) \<longleftrightarrow> (fs_type p = 5 \<longrightarrow> lba < pte_start_lba p + b) \<and> leads_forward b lba ps"
  by (simp_all add: leads_forward_def)

text \<open>A run that returns, and keeps the base.\<close>

definition returns :: "u32 \<Rightarrow> scan res option \<Rightarrow> bool" where
  "returns b r \<longleftrightarrow> (\<exists>x. r = Some x \<and> (\<forall>st. x = Inr st \<longrightarrow> ext_lba_base st = b))"

lemma returns_Some [simp]: "returns b (Some x) \<longleftrightarrow> (\<forall>st. x = Inr st \<longrightarrow> ext_lba_base st = b)"
  by (simp add: returns_def)

lemma returns_bind:
  assumes "returns b m" "\<And>st. ext_lba_base st = b \<Longrightarrow> returns b (f st)"
  shows "returns b (Option.bind m (\<lambda>r. case r of Inl e \<Rightarrow> Some (Inl e) | Inr st \<Rightarrow> f st))"
  using assms by (auto simp: returns_def split: sum.splits)

lemma add_keeps_base:
  "add_primary nm lba p st = Inr st' \<Longrightarrow> ext_lba_base st' = ext_lba_base st"
  "add_logical nm lba p st = Inr st' \<Longrightarrow> ext_lba_base st' = ext_lba_base st"
  by (auto simp: add_primary_def add_logical_def res_simps Let_def split_beta)

lemma read_boot_sector_Inr:
  "read_boot_sector d lba = Inr bs \<Longrightarrow> bs = sectors d (unat lba) 1 \<and> unat lba < max_lba"
  by (auto simp: read_boot_sector_def res_simps lba_ok_def)

lemma open_extended_Inr:
  "open_extended d p st = Inr (sub, ps, st') \<Longrightarrow> ps = table_of d sub \<and> unat sub < max_lba \<and>
     (if ext_lba_base st = 0 then sub = pte_start_lba p \<and> st' = st\<lparr>ext_lba_base := pte_start_lba p\<rparr>
      else sub = pte_start_lba p + ext_lba_base st \<and> st' = st)"
  using read_boot_sector_Inr by (auto simp: open_extended_def res_simps Let_def)

text \<open>The step of the loop that is not about an extended partition.\<close>

lemma scan_plain:
  assumes "fs_type p \<noteq> 5" "\<And>st'. ext_lba_base st' = ext_lba_base st \<Longrightarrow> returns b (scan_entries d nm lba ps st')"
    "ext_lba_base st = b \<or> l_no st < 8 \<and> lba = 0"
  shows "returns b (scan_entries d nm lba (p # ps) st)"
  using assms add_keeps_base by (subst scan_entries.simps) (auto split: sum.splits)

lemma scan_entries_returns:
  assumes b: "b \<noteq> 0" and fw: "forward b d"
  shows "ext_lba_base st = b \<Longrightarrow> leads_forward b lba ps \<Longrightarrow> returns b (scan_entries d nm lba ps st)"
proof (induction "max_lba - unat lba" arbitrary: lba ps st rule: less_induct)
  case less
  then show ?case
  proof (induction ps arbitrary: st)
    case Nil
    then show ?case by (simp add: scan_entries.simps)
  next
    case (Cons p ps)
    have tail: "returns b (scan_entries d nm lba ps st')" if "ext_lba_base st' = b" for st'
      by (rule Cons.IH) (use Cons.prems that in auto)
    show ?case
    proof (cases "fs_type p = 5")
      case False
      then show ?thesis using Cons.prems(2) tail by (intro scan_plain) auto
    next
      case True
      show ?thesis
      proof (cases "open_extended d p st")
        case (Inl e)
        then show ?thesis using True by (simp add: scan_entries.simps)
      next
        case (Inr x)
        obtain sub sub_ps st1 where x: "x = (sub, sub_ps, st1)" by (cases x)
        have s: "sub_ps = table_of d sub" "unat sub < max_lba" "sub = pte_start_lba p + b" "st1 = st"
          using open_extended_Inr [OF Inr [unfolded x]] Cons.prems(2) b by auto
        have "lba < sub" using Cons.prems(3) True s(3) by simp
        then have "max_lba - unat sub < max_lba - unat lba" using s(2) by (simp add: word_less_nat_alt)
        moreover have "leads_forward b sub sub_ps" using fw s(1,2) by (simp add: forward_def)
        ultimately have "returns b (scan_entries d nm sub sub_ps st)" using Cons.prems(1,2) by blast
        then show ?thesis using True Inr x s(4) tail
          by (subst scan_entries.simps) (simp add: returns_bind)
      qed
    qed
  qed
qed

text \<open>The first table, while no extended partition was seen.\<close>

lemma scan_first_table:
  assumes "\<forall>p \<in> set ps. fs_type p = 5 \<longrightarrow> pte_start_lba p \<noteq> 0 \<and> forward (pte_start_lba p) d"
    "\<forall>p \<in> set ps. \<forall>q \<in> set ps. fs_type p = 5 \<and> fs_type q = 5 \<longrightarrow> 0 < pte_start_lba q + pte_start_lba p"
  shows "ext_lba_base st = 0 \<Longrightarrow> \<exists>r. scan_entries d nm 0 ps st = Some r"
  using assms
proof (induction ps arbitrary: st)
  case Nil
  then show ?case by (simp add: scan_entries.simps)
next
  case (Cons p ps)
  show ?case
  proof (cases "fs_type p = 5")
    case False
    have "\<exists>r. scan_entries d nm 0 ps st' = Some r" if "ext_lba_base st' = 0" for st'
      by (rule Cons.IH [OF that]) (use Cons.prems in auto)
    then show ?thesis using False Cons.prems(1) add_keeps_base(1)
      by (subst scan_entries.simps) (auto split: sum.splits)
  next
    case True
    let ?b = "pte_start_lba p"
    have b: "?b \<noteq> 0" "forward ?b d" using Cons.prems True by auto
    show ?thesis
    proof (cases "open_extended d p st")
      case (Inl e)
      then show ?thesis using True by (simp add: scan_entries.simps)
    next
      case (Inr x)
      obtain sub sub_ps st1 where x: "x = (sub, sub_ps, st1)" by (cases x)
      have s: "sub_ps = table_of d sub" "unat sub < max_lba" "ext_lba_base st1 = ?b"
        using open_extended_Inr [OF Inr [unfolded x]] Cons.prems(1) by auto
      have "leads_forward ?b 0 ps" using Cons.prems(3) True by (auto simp: leads_forward_def)
      then have "returns ?b (scan_entries d nm 0 ps st')" if "ext_lba_base st' = ?b" for st'
        using scan_entries_returns [OF b that] by blast
      moreover have "leads_forward ?b sub sub_ps" using b(2) s(1,2) by (simp add: forward_def)
      then have "returns ?b (scan_entries d nm sub sub_ps st1)" by (rule scan_entries_returns [OF b s(3)])
      ultimately have "returns ?b (scan_entries d nm 0 (p # ps) st)" using True Inr x
        by (subst scan_entries.simps) (simp add: returns_bind)
      then show ?thesis by (auto simp: returns_def)
    qed
  qed
qed

lemma scan_cycle:
  assumes "scan_entries D N L PS ST = Some x" "fs_type p = 5"
    and op: "\<And>st. ext_lba_base st = 0 \<Longrightarrow> open_extended d p st = Inr (0, p # ps, st)"
  shows "\<not> (D = d \<and> L = 0 \<and> PS = p # ps \<and> ext_lba_base ST = 0)"
proof (rule scan_entries.raw_induct [where P = "\<lambda>D N L PS ST x. \<not> (D = d \<and> L = 0 \<and> PS = p # ps \<and> ext_lba_base ST = 0)",
      OF _ assms(1)])
  fix f D N L PS ST x
  assume ih: "\<And>D N L PS ST x. f D N L PS ST = Some x \<Longrightarrow> \<not> (D = d \<and> L = 0 \<and> PS = p # ps \<and> ext_lba_base ST = 0)"
    and body: "(case PS of [] \<Rightarrow> Some (Inr ST)
      | p # ps \<Rightarrow>
          if fs_type p = 0x5
          then (case open_extended D p ST of
                  Inl e \<Rightarrow> Some (Inl e)
                | Inr (sub, sub_ps, st) \<Rightarrow>
                    Option.bind (f D N sub sub_ps st) (\<lambda>r. case r of Inl e \<Rightarrow> Some (Inl e) | Inr st \<Rightarrow> f D N L ps st))
          else if fs_type p \<noteq> 0
          then (if L = 0
                then (case add_primary N L p ST of Inl e \<Rightarrow> Some (Inl e) | Inr st \<Rightarrow> f D N L ps st)
                else (case add_logical N L p ST of
                        Inl e \<Rightarrow> Some (Inl e)
                      | Inr st \<Rightarrow> if l_no st \<ge> 8 then Some (Inr st) else f D N L ps st))
          else f D N L ps ST) = Some x"
  show "\<not> (D = d \<and> L = 0 \<and> PS = p # ps \<and> ext_lba_base ST = 0)"
  proof
    assume e: "D = d \<and> L = 0 \<and> PS = p # ps \<and> ext_lba_base ST = 0"
    then have "Option.bind (f d N 0 (p # ps) ST) (\<lambda>r. case r of Inl e \<Rightarrow> Some (Inl e) | Inr st \<Rightarrow> f d N 0 ps st) = Some x"
      using body assms(2) op by (simp cong: sum.case_cong)
    then obtain y where "f d N 0 (p # ps) ST = Some y" by (auto simp: Option.bind_eq_Some_conv)
    from ih [OF this] e show False by blast
  qed
qed

section \<open>Example disks\<close>

text \<open>The first sector has one entry, an extended partition that starts at \<open>start\<close>.\<close>

definition demo_mbr :: "u8 \<Rightarrow> u8 list" where
  "demo_mbr start = replicate 446 0 @ [0, 0, 0, 0, 5, 0, 0, 0, start, 0, 0, 0, 10, 0, 0, 0] @ replicate 50 0"

definition demo_disk :: "u8 \<Rightarrow> image" where
  "demo_disk start = (\<lambda>s. if s = 0 then demo_mbr start else replicate 512 0)"

definition no_entry :: partition_table_entry where
  "no_entry = \<lparr>boot_able = 0, fs_type = 0, pte_start_lba = 0, pte_sec_cnt = 0\<rparr>"

lemma demo_tables:
  "table_of (demo_disk start) 0 = [\<lparr>boot_able = 0, fs_type = 5, pte_start_lba = ucast start, pte_sec_cnt = 10\<rparr>,
     no_entry, no_entry, no_entry]"
  "lba \<noteq> 0 \<Longrightarrow> table_of (demo_disk start) lba = [no_entry, no_entry, no_entry, no_entry]"
  by (simp_all add: demo_disk_def demo_mbr_def sectors_def partition_table_def table_entry_def rd32_def nth_append
      no_entry_def upt_rec unat_eq_zero)

section \<open>Results\<close>

text \<open>
  C36: The scan of a disk returns. When the extended partition of the first sector does not start
  there and every extended entry of a partition table leads to a later sector, relative to the
  start of that partition, \<open>partition_scan\<close> returns, with a result or with a failed check; it
  needs no bound on the number of tables. On a disk that sends the scan from the first sector
  back to the first sector it calls itself for ever. (The condition on the links is on every sector
  of the disk. Memory for the boot sectors is taken to be there, and the stack to be deep enough.)
\<close>

theorem partition_scan_returns:
  assumes "ext_lba_base st = 0"
  shows "((\<forall>p \<in> set (table_of d 0). fs_type p = 5 \<longrightarrow> pte_start_lba p \<noteq> 0 \<and> forward (pte_start_lba p) d) \<longrightarrow>
      (\<exists>r. partition_scan d nm 0 st = Some r)) \<and>
    (fs_type (hd (table_of d 0)) = 5 \<and> pte_start_lba (hd (table_of d 0)) = 0 \<longrightarrow> partition_scan d nm 0 st = None)"
proof (intro conjI impI)
  assume f: "\<forall>p \<in> set (table_of d 0). fs_type p = 5 \<longrightarrow> pte_start_lba p \<noteq> 0 \<and> forward (pte_start_lba p) d"
  have "\<forall>p \<in> set (table_of d 0). \<forall>q \<in> set (table_of d 0). fs_type p = 5 \<and> fs_type q = 5 \<longrightarrow>
      0 < pte_start_lba q + pte_start_lba p"
    using f by (auto simp: forward_def leads_forward_def dest!: spec [of _ 0])
  from scan_first_table [OF f this assms] show "\<exists>r. partition_scan d nm 0 st = Some r"
    by (auto simp: partition_scan_def dest!: read_boot_sector_Inr split: sum.splits)
next
  assume c: "fs_type (hd (table_of d 0)) = 5 \<and> pte_start_lba (hd (table_of d 0)) = 0"
  obtain p ps where t: "table_of d 0 = p # ps" by (simp add: partition_table_def upt_rec)
  have r: "read_boot_sector d 0 = Inr (sectors d 0 1)" by (simp add: read_boot_sector_def lba_ok_def)
  have op: "open_extended d p st' = Inr (0, p # ps, st')" if "ext_lba_base st' = 0" for st'
    using c t r that by (simp add: open_extended_def)
  have "scan_entries d nm 0 (p # ps) st \<noteq> Some x" for x
    using scan_cycle [of d nm 0 "p # ps" st x p d ps] assms c t op by auto
  then show "partition_scan d nm 0 st = None" using r t
    by (cases "scan_entries d nm 0 (p # ps) st") (auto simp: partition_scan_def)
qed

definition demo_scan :: scan where
  "demo_scan = \<lparr>ext_lba_base = 0, p_no = 0, l_no = 0, prim_parts = [], logic_parts = [], partition_list = []\<rparr>"

theorem partition_scan_returns_witness:
  "(\<exists>r. partition_scan (demo_disk 100) [] 0 demo_scan = Some r) \<and> partition_scan (demo_disk 0) [] 0 demo_scan = None"
proof -
  have "forward 100 (demo_disk 100)" unfolding forward_def
  proof (intro allI impI)
    fix lba :: u32
    show "leads_forward 100 lba (table_of (demo_disk 100) lba)"
    proof (cases "lba = 0")
      case True
      show ?thesis unfolding True demo_tables(1) by (simp add: no_entry_def)
    next
      case False
      show ?thesis unfolding demo_tables(2) [OF False] by (simp add: no_entry_def)
    qed
  qed
  then show ?thesis
    using partition_scan_returns [of demo_scan "demo_disk 100" "[]"] partition_scan_returns [of demo_scan "demo_disk 0" "[]"]
    unfolding demo_tables by (simp add: demo_scan_def no_entry_def)
qed

text \<open>
  Only the counters start afresh for the next disk. With the base of an earlier disk, the first
  extended partition of a disk is looked for at the wrong sector.
\<close>

lemma second_disk_wrong_sector:
  "ext_lba_base st = b \<Longrightarrow> b \<noteq> 0 \<Longrightarrow> pte_start_lba p + b \<noteq> pte_start_lba p \<and>
   open_extended d p st = bnd (read_boot_sector d (pte_start_lba p + b)) (\<lambda>bs. Inr (pte_start_lba p + b, partition_table bs, st))"
  by (simp add: open_extended_def Let_def)

end
