(* ===== verification/Tss.thy ===== *)
theory Tss
  imports Thread
begin

text \<open>
  \<open>userprog/tss.c\<close>: segment descriptors, and the three that \<open>tss_init\<close> adds to the global
  descriptor table of the boot loader.
\<close>

section \<open>Definitions\<close>

record gdt_desc =
  limit_low_word :: "16 word"
  base_low_word :: "16 word"
  base_mid_byte :: u8
  attr_low_byte :: u8
  limit_high_attr_high :: u8
  base_high_byte :: u8

definition make_gdt_desc :: "u32 \<Rightarrow> u32 \<Rightarrow> u8 \<Rightarrow> u8 \<Rightarrow> gdt_desc" where
  "make_gdt_desc desc_base limit attr_low attr_high =
     \<lparr>limit_low_word = ucast (limit AND 0x0000ffff),
      base_low_word = ucast (desc_base AND 0x0000ffff),
      base_mid_byte = ucast (drop_bit 16 (desc_base AND 0x00ff0000)),
      attr_low_byte = attr_low,
      limit_high_attr_high = ucast (ucast (attr_high AND 0xf0) + drop_bit 16 (limit AND 0x000f0000)),
      base_high_byte = ucast (drop_bit 24 (desc_base AND 0xff000000))\<rparr>"

text \<open>The attributes of \<open>kernel/global.h\<close>.\<close>

definition TSS_ATTR_LOW :: u8 where "TSS_ATTR_LOW = push_bit 7 1 + push_bit 5 0 + push_bit 4 0 + 9"
definition TSS_ATTR_HIGH :: u8 where "TSS_ATTR_HIGH = push_bit 7 1 + push_bit 6 0 + push_bit 5 0 + push_bit 4 0 + 0"
definition GDT_CODE_ATTR_LOW_DPL3 :: u8 where "GDT_CODE_ATTR_LOW_DPL3 = push_bit 7 1 + push_bit 5 3 + push_bit 4 1 + 8"
definition GDT_DATA_ATTR_LOW_DPL3 :: u8 where "GDT_DATA_ATTR_LOW_DPL3 = push_bit 7 1 + push_bit 5 3 + push_bit 4 1 + 2"
definition GDT_ATTR_HIGH :: u8 where "GDT_ATTR_HIGH = push_bit 7 1 + push_bit 6 1 + push_bit 5 0 + push_bit 4 0"

text \<open>The fields of the TSS the code sets; the structure is 27 words long.\<close>

record tss =
  tss_esp0 :: u32
  tss_ss0 :: u32
  tss_io_base :: u32

abbreviation TSS_BYTES :: u32 where "TSS_BYTES \<equiv> 108"

definition set_tss_esp0 :: "tid \<Rightarrow> tss \<Rightarrow> tss" where
  "set_tss_esp0 pthread t = t\<lparr>tss_esp0 := of_nat (pthread + PG_SIZE)\<rparr>"

text \<open>
  \<open>tss_init\<close>: the table lies at 0xc0000900, so that the three descriptors get the places 4, 5
  and 6; then the operand of \<open>lgdt\<close>, and the selector that \<open>ltr\<close> loads. \<open>tss_at\<close> is the address
  of the TSS.
\<close>

definition SELECTOR_TSS :: u32 where "SELECTOR_TSS = push_bit 3 4 + push_bit 2 0 + 0"

definition tss_init :: "u32 \<Rightarrow> gdt_desc list \<Rightarrow> (tss \<times> gdt_desc list \<times> 64 word \<times> u32) res" where
  "tss_init tss_at gdt =
     GUARD (6 < length gdt) ''gdt''
      (let gdt = gdt[(0xc0000920 - 0xc0000900) div 8 := make_gdt_desc tss_at (TSS_BYTES - 1) TSS_ATTR_LOW TSS_ATTR_HIGH];
           gdt = gdt[(0xc0000928 - 0xc0000900) div 8 := make_gdt_desc 0 0xfffff GDT_CODE_ATTR_LOW_DPL3 GDT_ATTR_HIGH];
           gdt = gdt[(0xc0000930 - 0xc0000900) div 8 := make_gdt_desc 0 0xfffff GDT_DATA_ATTR_LOW_DPL3 GDT_ATTR_HIGH]
       in Inr (\<lparr>tss_esp0 = 0, tss_ss0 = push_bit 3 2 + push_bit 2 0 + 0, tss_io_base = TSS_BYTES\<rparr>, gdt,
            push_bit 16 0xc0000900 OR (7 * 8 - 1), SELECTOR_TSS))"

section \<open>What the processor reads\<close>

text \<open>Base, limit in bytes and privilege level of a descriptor, by the processor's manual.\<close>

definition desc_base :: "gdt_desc \<Rightarrow> u32" where
  "desc_base d = ucast (base_low_word d) OR push_bit 16 (ucast (base_mid_byte d)) OR push_bit 24 (ucast (base_high_byte d))"

definition desc_limit :: "gdt_desc \<Rightarrow> u32" where
  "desc_limit d = ucast (limit_low_word d) OR push_bit 16 (ucast (limit_high_attr_high d AND 0x0f))"

definition desc_flags :: "gdt_desc \<Rightarrow> u8 \<times> u8" where
  "desc_flags d = (attr_low_byte d, limit_high_attr_high d AND 0xf0)"

definition desc_dpl :: "gdt_desc \<Rightarrow> nat" where
  "desc_dpl d = unat (drop_bit 5 (attr_low_byte d) AND 3)"

text \<open>The masks of the code, as runs of ones.\<close>

lemma masks:
  "(0x0000ffff :: u32) = mask 16" "(0x00ff0000 :: u32) = push_bit 16 (mask 8)"
  "(0xff000000 :: u32) = push_bit 24 (mask 8)" "(0x000f0000 :: u32) = push_bit 16 (mask 4)"
  "(0xf0 :: u8) = push_bit 4 (mask 4)" "(0x0f :: u8) = mask 4"
  by (simp_all add: mask_eq_exp_minus_1)

lemma bit_desc_base: "bit (desc_base (make_gdt_desc base limit al ah)) n \<longleftrightarrow> n < 32 \<and> bit base n"
  unfolding make_gdt_desc_def desc_base_def gdt_desc.simps masks
  by (cases "24 \<le> n") (auto simp: bit_simps)

lemma make_gdt_desc_base: "desc_base (make_gdt_desc base limit al ah) = base"
  by (rule bit_word_eqI) (simp add: bit_desc_base)

text \<open>The byte that two fields share: the four bits of the limit do not reach those above.\<close>

lemma shared_byte:
  "limit_high_attr_high (make_gdt_desc base limit al ah) =
     (ah AND 0xf0) OR ucast (drop_bit 16 (limit AND 0x000f0000))"
proof -
  have "(ucast (ah AND 0xf0) :: u32) AND drop_bit 16 (limit AND 0x000f0000) = 0"
    unfolding masks by (rule bit_word_eqI) (auto simp: bit_simps)
  then have "(ucast (ah AND 0xf0) :: u32) + drop_bit 16 (limit AND 0x000f0000) =
      ucast (ah AND 0xf0) OR drop_bit 16 (limit AND 0x000f0000)"
    by (simp add: disjunctive_add_eq_or)
  then show ?thesis unfolding make_gdt_desc_def gdt_desc.simps
    by (simp only:) (rule bit_word_eqI, auto simp: bit_simps)
qed

lemma make_gdt_desc_limit: "limit \<le> 0xfffff \<Longrightarrow> desc_limit (make_gdt_desc base limit al ah) = limit"
proof -
  assume "limit \<le> 0xfffff"
  then have "unat limit < 2 ^ 20" by (simp add: word_le_nat_alt)
  then have "take_bit 20 (unat limit) = unat limit" by (simp only: take_bit_nat_eq_self_iff)
  then have "\<not> bit (unat limit) n" if "20 \<le> n" for n using that by (metis bit_take_bit_iff leD)
  then have "\<not> bit limit n" if "20 \<le> n" for n using that by (simp add: bit_unsigned_iff)
  then have high: "n < 20" if "bit limit n" for n using that not_less by blast
  show ?thesis unfolding desc_limit_def shared_byte
    unfolding make_gdt_desc_def gdt_desc.simps masks
    by (rule bit_word_eqI) (auto simp: bit_simps dest: high)
qed

lemma make_gdt_desc_flags: "desc_flags (make_gdt_desc base limit al ah) = (al, ah AND 0xf0)"
proof -
  have "limit_high_attr_high (make_gdt_desc base limit al ah) AND 0xf0 = ah AND 0xf0"
    unfolding shared_byte masks by (rule bit_word_eqI) (auto simp: bit_simps)
  then show ?thesis by (simp add: desc_flags_def make_gdt_desc_def)
qed

section \<open>Results\<close>

text \<open>
  A segment descriptor says what it was made from. The scattered fields that \<open>make_gdt_desc\<close>
  fills give back every base, every limit of 20 bits, and the attributes. In the table after
  \<open>tss_init\<close>, entry 4 is the TSS with its exact size and privilege level 0, and entries 5 and 6
  are the flat code and data segments of the processes, with privilege level 3; all other
  entries are as before.
\<close>

theorem gdt_desc_decodes:
  assumes "limit \<le> 0xfffff" "6 < length gdt"
  shows "desc_base (make_gdt_desc base limit al ah) = base \<and> desc_limit (make_gdt_desc base limit al ah) = limit \<and>
    desc_flags (make_gdt_desc base limit al ah) = (al, ah AND 0xf0) \<and>
    (\<exists>t gdt' op sel. tss_init tss_at gdt = Inr (t, gdt', op, sel) \<and> length gdt' = length gdt \<and>
       desc_base (gdt' ! 4) = tss_at \<and> desc_limit (gdt' ! 4) = 107 \<and> desc_dpl (gdt' ! 4) = 0 \<and>
       desc_base (gdt' ! 5) = 0 \<and> desc_limit (gdt' ! 5) = 0xfffff \<and> desc_dpl (gdt' ! 5) = 3 \<and>
       desc_base (gdt' ! 6) = 0 \<and> desc_limit (gdt' ! 6) = 0xfffff \<and> desc_dpl (gdt' ! 6) = 3 \<and>
       unat sel div 8 = 4 \<and> (\<forall>i. i \<notin> {4, 5, 6} \<longrightarrow> gdt' ! i = gdt ! i))"
proof -
  have dpl: "desc_dpl (make_gdt_desc b l TSS_ATTR_LOW h) = 0" "desc_dpl (make_gdt_desc b l GDT_CODE_ATTR_LOW_DPL3 h) = 3"
    "desc_dpl (make_gdt_desc b l GDT_DATA_ATTR_LOW_DPL3 h) = 3" for b l h
    by (simp_all add: desc_dpl_def make_gdt_desc_def TSS_ATTR_LOW_def GDT_CODE_ATTR_LOW_DPL3_def GDT_DATA_ATTR_LOW_DPL3_def)
  show ?thesis using assms
    by (simp add: make_gdt_desc_base make_gdt_desc_limit make_gdt_desc_flags tss_init_def dpl SELECTOR_TSS_def)
qed

theorem gdt_desc_decodes_witness:
  "desc_limit (make_gdt_desc 0xc0001234 107 TSS_ATTR_LOW TSS_ATTR_HIGH) = 107 \<and>
   (\<exists>t gdt' op sel. tss_init 0xc0001234 (replicate 7 (make_gdt_desc 0 0 0 0)) = Inr (t, gdt', op, sel) \<and>
     desc_base (gdt' ! 4) = 0xc0001234)"
  using gdt_desc_decodes [of 107 "replicate 7 (make_gdt_desc 0 0 0 0)" "0xc0001234" TSS_ATTR_LOW TSS_ATTR_HIGH "0xc0001234"]
  by auto

end
