(* ===== verification/Timer.thy ===== *)
theory Timer
  imports Thread
begin

text \<open>
  \<open>device/timer.c\<close>, the rest (theory \<open>Thread\<close> has the interrupt handler): the programming of the
  interval timer, and sleeping for a number of ticks.
\<close>

section \<open>Definitions\<close>

abbreviation IRQ0_FREQUENCY :: nat where "IRQ0_FREQUENCY \<equiv> 100"
abbreviation INPUT_FREQUENCY :: nat where "INPUT_FREQUENCY \<equiv> 1193180"

text \<open>The bytes written to ports: the control word, then the low and the high byte of the counter.\<close>

definition frequency_set :: "nat \<Rightarrow> u8 \<Rightarrow> u8 \<Rightarrow> u8 \<Rightarrow> 16 word \<Rightarrow> (nat \<times> u8) list" where
  "frequency_set counter_port counter_no rwl counter_mode counter_value =
     [(0x43, push_bit 6 counter_no OR push_bit 4 rwl OR push_bit 1 counter_mode),
      (counter_port, ucast counter_value),
      (counter_port, ucast (drop_bit 8 counter_value))]"

definition timer_init :: "(nat \<times> u8) list \<times> nat" where
  "timer_init = (frequency_set 0x40 0 3 2 (of_nat (INPUT_FREQUENCY div IRQ0_FREQUENCY)), 0x20)"

text \<open>
  \<open>ticks_to_sleep\<close>: each element of the list is the global counter \<open>ticks\<close> when the thread
  looks at it; in between it yields, and the clock counts on. The result is the number of
  yields, \<open>None\<close> when the thread still sleeps after the last look.
\<close>

fun sleep_loop :: "u32 \<Rightarrow> u32 \<Rightarrow> u32 list \<Rightarrow> nat option" where
  "sleep_loop start_ticks sleep_ticks [] = None"
| "sleep_loop start_ticks sleep_ticks (t # ts) =
     (if t - start_ticks < sleep_ticks then map_option Suc (sleep_loop start_ticks sleep_ticks ts) else Some 0)"

definition ticks_to_sleep :: "u32 \<Rightarrow> u32 list \<Rightarrow> nat option" where
  "ticks_to_sleep sleep_ticks ts = (case ts of [] \<Rightarrow> None | t # ts \<Rightarrow> sleep_loop t sleep_ticks ts)"

definition mtime_sleep :: "u32 \<Rightarrow> u32 list \<Rightarrow> nat option res" where
  "mtime_sleep m_seconds ts =
     (let sleep_ticks = (m_seconds + 10 - 1) div 10 in
      ASSERT (sleep_ticks > 0) ''sleep_ticks > 0'' (Inr (ticks_to_sleep sleep_ticks ts)))"

section \<open>Results\<close>

lemma elapsed: "e < 2 ^ 32 \<Longrightarrow> (s + of_nat e - s < (n :: u32)) = (e < unat n)"
  by (simp add: word_less_nat_alt unsigned_of_nat take_bit_nat_eq_self)

lemma sleep_loop_looks:
  "\<forall>e \<in> set es. e < 2 ^ 32 \<Longrightarrow> sleep_loop s n (map (\<lambda>e. s + of_nat e) es) =
     (if \<exists>e \<in> set es. unat n \<le> e then Some (length (takeWhile (\<lambda>e. e < unat n) es)) else None)"
proof (induction es)
  case (Cons e es)
  have "(s + of_nat e - s < n) = (e < unat n)" by (rule elapsed) (use Cons.prems in simp)
  then show ?case using Cons by (auto simp: not_less simp del: add_diff_cancel_left')
qed simp

text \<open>
  C38: A sleeping thread sleeps as long as asked, also when the 32-bit tick counter wraps around.
  When the thread looks at the counter \<open>es\<close> ticks after it went to sleep, it gives up the
  processor at every look before the requested number of ticks has passed and returns at the
  first look after that; \<open>mtime_sleep\<close> asks for the number of ticks of 10 ms that cover its
  milliseconds, and panics for 0.
\<close>

theorem sleeps_until_ticks_passed:
  assumes "\<forall>e \<in> set es. e < 2 ^ 32" "0 < sleep_ticks" "unat ms < 2 ^ 32 - 10"
  shows "ticks_to_sleep sleep_ticks (s # map (\<lambda>e. s + of_nat e) es) =
      (if \<exists>e \<in> set es. unat sleep_ticks \<le> e then Some (length (takeWhile (\<lambda>e. e < unat sleep_ticks) es)) else None) \<and>
    mtime_sleep ms ts = (if ms = 0 then Inl (Panic ''sleep_ticks > 0'')
      else Inr (ticks_to_sleep (of_nat ((unat ms + 9) div 10)) ts))"
proof
  show "ticks_to_sleep sleep_ticks (s # map (\<lambda>e. s + of_nat e) es) =
      (if \<exists>e \<in> set es. unat sleep_ticks \<le> e then Some (length (takeWhile (\<lambda>e. e < unat sleep_ticks) es)) else None)"
    using sleep_loop_looks [OF assms(1)] by (simp add: ticks_to_sleep_def)
  have "unat (ms + 10 - 1) = unat ms + 9" using assms(3) by (simp add: unat_word_ariths)
  then have u: "unat ((ms + 10 - 1) div 10) = (unat ms + 9) div 10" by (simp add: unat_div)
  have "(ms + 10 - 1) div 10 = of_nat (unat ((ms + 10 - 1) div 10))" by simp
  then have "(ms + 10 - 1) div 10 = of_nat ((unat ms + 9) div 10)" unfolding u .
  moreover have "0 < (ms + 10 - 1) div 10 \<longleftrightarrow> ms \<noteq> 0"
    using u by (auto simp: word_less_nat_alt unat_gt_0 [symmetric])
  ultimately show "mtime_sleep ms ts = (if ms = 0 then Inl (Panic ''sleep_ticks > 0'')
      else Inr (ticks_to_sleep (of_nat ((unat ms + 9) div 10)) ts))"
    by (auto simp: mtime_sleep_def Let_def)
qed

theorem sleeps_until_ticks_passed_witness:
  "ticks_to_sleep 3 [0xfffffffe, 0xffffffff, 0, 2] = Some 2 \<and>
   mtime_sleep 25 [0xfffffffe, 0xffffffff, 0, 2] = Inr (Some 2)"
proof -
  have "map (\<lambda>e. 0xfffffffe + of_nat e) [1, 2, 4] = [0xffffffff, 0, 2 :: u32]" by simp
  then show ?thesis
    using sleeps_until_ticks_passed [of "[1, 2, 4]" 3 25 "0xfffffffe" "[0xfffffffe, 0xffffffff, 0, 2]"]
    by (simp only: list.map) simp
qed

end
