(* ===== verification/Paging.thy ===== *)
theory Paging
  imports Sync
begin

text \<open>
  \<open>kernel/memory.c\<close>, the pages: the two pools of physical frames, the pools of virtual
  addresses, the page tables, and the allocation and release of pages on top of them.

  \<open>ram f i\<close> is the \<open>i\<close>-th 32-bit word of the physical frame \<open>f\<close>; \<open>pd_base\<close> is the register CR3
  (the physical address of the page directory in use). All accesses the code makes to page
  directories and tables go through the MMU, as they do in the kernel: \<open>load\<close> and \<open>store\<close>
  translate a virtual address by the tables in \<open>ram\<close>. Addresses are \<open>u32\<close>, 0 is \<open>NULL\<close>.
\<close>

record pool =
  pool_bitmap :: bitmap
  phy_addr_start :: u32
  pool_size :: u32
  pool_lock :: lock

record virtual_addr_pool =
  vaddr_bitmap :: bitmap
  vaddr_start :: u32

datatype pool_flags = PF_KERNEL | PF_USER

record memk = kernel +
  ram :: "nat \<Rightarrow> nat \<Rightarrow> u32"
  pd_base :: u32
  kernel_pool :: pool
  user_pool :: pool
  kernel_vaddr_pool :: virtual_addr_pool
  userprog_vaddr :: "tid \<Rightarrow> virtual_addr_pool"

abbreviation K_HEAP_START :: u32 where "K_HEAP_START \<equiv> 0xc0100000"

section \<open>The MMU\<close>

definition PDE_IDX :: "u32 \<Rightarrow> u32" where
  "PDE_IDX addr = drop_bit 22 (addr AND 0xffc00000)"

definition PTE_IDX :: "u32 \<Rightarrow> u32" where
  "PTE_IDX addr = drop_bit 12 (addr AND 0x003ff000)"

text \<open>A physical address names a word of a frame.\<close>

definition frame_of :: "u32 \<Rightarrow> nat" where
  "frame_of pa = unat (drop_bit 12 pa)"

definition word_of :: "u32 \<Rightarrow> nat" where
  "word_of pa = unat (pa AND 0xfff) div 4"

text \<open>The directory entry and the table entry the processor looks up, and the translation.\<close>

definition pde_at :: "'a memk_scheme \<Rightarrow> u32 \<Rightarrow> u32" where
  "pde_at m va = ram m (frame_of (pd_base m)) (unat (PDE_IDX va))"

definition pte_at :: "'a memk_scheme \<Rightarrow> u32 \<Rightarrow> u32" where
  "pte_at m va = ram m (frame_of (pde_at m va)) (unat (PTE_IDX va))"

definition present :: "u32 \<Rightarrow> bool" where
  "present e \<longleftrightarrow> e AND 1 \<noteq> 0"

definition mmu :: "'a memk_scheme \<Rightarrow> u32 \<Rightarrow> u32 option" where
  "mmu m va =
     (if present (pde_at m va) \<and> present (pte_at m va)
      then Some ((pte_at m va AND 0xfffff000) + (va AND 0xfff)) else None)"

definition load :: "u32 \<Rightarrow> 'a memk_scheme \<Rightarrow> u32 res" where
  "load va m = (case mmu m va of
     None \<Rightarrow> Inl (Fault ''page fault'') | Some pa \<Rightarrow> Inr (ram m (frame_of pa) (word_of pa)))"

definition store :: "u32 \<Rightarrow> u32 \<Rightarrow> 'a memk_scheme \<Rightarrow> 'a memk_scheme res" where
  "store va w m = (case mmu m va of
     None \<Rightarrow> Inl (Fault ''page fault'')
   | Some pa \<Rightarrow> Inr (m\<lparr>ram := (ram m)(frame_of pa := (ram m (frame_of pa))(word_of pa := w))\<rparr>))"

text \<open>\<open>memset(va, 0, PG_SIZE)\<close> of one page.\<close>

definition zero_page :: "u32 \<Rightarrow> 'a memk_scheme \<Rightarrow> 'a memk_scheme res" where
  "zero_page va m = (case mmu m va of
     None \<Rightarrow> Inl (Fault ''page fault'')
   | Some pa \<Rightarrow> Inr (m\<lparr>ram := (ram m)(frame_of pa := (\<lambda>i. if i < 1024 then 0 else ram m (frame_of pa) i))\<rparr>))"

section \<open>Page tables\<close>

definition pte_ptr :: "u32 \<Rightarrow> u32" where
  "pte_ptr vaddr = 0xffc00000 + drop_bit 10 (vaddr AND 0xffc00000) + PTE_IDX vaddr * 4"

definition pde_ptr :: "u32 \<Rightarrow> u32" where
  "pde_ptr vaddr = 0xfffff000 + PDE_IDX vaddr * 4"

definition palloc :: "pool \<Rightarrow> (u32 \<times> pool) res" where
  "palloc m_pool =
     bnd (bitmap_scan (pool_bitmap m_pool) 1) (\<lambda>bit_idx.
     if bit_idx = -1 then Inr (0, m_pool)
     else bnd (bitmap_set (pool_bitmap m_pool) (nat bit_idx) 1) (\<lambda>b.
       Inr (phy_addr_start m_pool + of_int bit_idx * 4096, m_pool\<lparr>pool_bitmap := b\<rparr>)))"

definition page_table_add :: "u32 \<Rightarrow> u32 \<Rightarrow> 'a memk_scheme \<Rightarrow> 'a memk_scheme res" where
  "page_table_add vaddr page_phyaddr m =
     (let pde = pde_ptr vaddr; pte = pte_ptr vaddr in
      bnd (load pde m) (\<lambda>d.
      if d AND 0x00000001 \<noteq> 0
      then bnd (load pte m) (\<lambda>e.
           ASSERT (\<not> (e AND 0x00000001 \<noteq> 0)) ''!(*pte & 0x00000001)''
             (if \<not> (e AND 0x00000001 \<noteq> 0) then store pte (page_phyaddr OR 4 OR 2 OR 1) m
              else Inl (Panic ''pte_repeat'')))
      else bnd (palloc (kernel_pool m)) (\<lambda>(pt_phyaddr, p).
           bnd (store pde (pt_phyaddr OR 4 OR 2 OR 1) (m\<lparr>kernel_pool := p\<rparr>)) (\<lambda>m.
           bnd (zero_page (pte AND 0xfffff000) m) (\<lambda>m.
           bnd (load pte m) (\<lambda>e.
           ASSERT (\<not> (e AND 0x00000001 \<noteq> 0)) ''!(*pte & 0x00000001)''
             (store pte (page_phyaddr OR 4 OR 2 OR 1) m)))))))"

definition addr_v2p :: "u32 \<Rightarrow> 'a memk_scheme \<Rightarrow> u32 res" where
  "addr_v2p vaddr m =
     bnd (load (pte_ptr vaddr) m) (\<lambda>e. Inr ((e AND 0xfffff000) + (vaddr AND 0x00000fff)))"

definition page_table_pte_remove :: "u32 \<Rightarrow> 'a memk_scheme \<Rightarrow> 'a memk_scheme res" where
  "page_table_pte_remove vaddr m =
     (let pte = pte_ptr vaddr in bnd (load pte m) (\<lambda>e. store pte (e AND NOT 1) m))"

section \<open>Pools of frames and of virtual addresses\<close>

definition pool_of :: "pool_flags \<Rightarrow> 'a memk_scheme \<Rightarrow> pool" where
  "pool_of pf m = (case pf of PF_KERNEL \<Rightarrow> kernel_pool m | PF_USER \<Rightarrow> user_pool m)"

definition set_pool :: "pool_flags \<Rightarrow> pool \<Rightarrow> 'a memk_scheme \<Rightarrow> 'a memk_scheme" where
  "set_pool pf p m = (case pf of PF_KERNEL \<Rightarrow> m\<lparr>kernel_pool := p\<rparr> | PF_USER \<Rightarrow> m\<lparr>user_pool := p\<rparr>)"

text \<open>The pool of virtual addresses: the kernel's, or that of the running process.\<close>

definition vpool_of :: "pool_flags \<Rightarrow> 'a memk_scheme \<Rightarrow> virtual_addr_pool" where
  "vpool_of pf m = (case pf of PF_KERNEL \<Rightarrow> kernel_vaddr_pool m | PF_USER \<Rightarrow> userprog_vaddr m (running_thread m))"

definition set_vpool :: "pool_flags \<Rightarrow> virtual_addr_pool \<Rightarrow> 'a memk_scheme \<Rightarrow> 'a memk_scheme" where
  "set_vpool pf v m = (case pf of
     PF_KERNEL \<Rightarrow> m\<lparr>kernel_vaddr_pool := v\<rparr>
   | PF_USER \<Rightarrow> m\<lparr>userprog_vaddr := (userprog_vaddr m)(running_thread m := v)\<rparr>)"

text \<open>The loops \<open>while (cnt < pg_cnt) bitmap_set(..., bit_idx_start + cnt++, value)\<close>.\<close>

fun set_bits :: "bitmap \<Rightarrow> nat \<Rightarrow> nat \<Rightarrow> nat \<Rightarrow> bitmap res" where
  "set_bits b i 0 v = Inr b"
| "set_bits b i (Suc n) v = bnd (bitmap_set b i v) (\<lambda>b. set_bits b (Suc i) n v)"

definition vaddr_get :: "pool_flags \<Rightarrow> nat \<Rightarrow> 'a memk_scheme \<Rightarrow> (u32 \<times> 'a memk_scheme) res" where
  "vaddr_get pf pg_cnt m =
     (let vp = vpool_of pf m in
      bnd (bitmap_scan (vaddr_bitmap vp) pg_cnt) (\<lambda>bit_idx_start.
      if bit_idx_start = -1 then Inr (0, m)
      else bnd (set_bits (vaddr_bitmap vp) (nat bit_idx_start) pg_cnt 1) (\<lambda>b.
        let va = vaddr_start vp + of_int bit_idx_start * 4096;
            m = set_vpool pf (vp\<lparr>vaddr_bitmap := b\<rparr>) m
        in if pf = PF_USER
           then ASSERT (va < 0xc0000000 - 4096) ''(uint32_t)vaddr_start < (0xc0000000 - PG_SIZE)''
                 (Inr (va, m))
           else Inr (va, m))))"

text \<open>
  The loop of \<open>malloc_page\<close>: each page of the range gets a frame. The flag is false when a
  frame could not be had, which ends the loop with what was allocated so far left in place.
\<close>

fun map_pages :: "pool_flags \<Rightarrow> nat \<Rightarrow> u32 \<Rightarrow> 'a memk_scheme \<Rightarrow> (bool \<times> 'a memk_scheme) res" where
  "map_pages pf 0 vaddr m = Inr (True, m)"
| "map_pages pf (Suc cnt) vaddr m =
     bnd (palloc (pool_of pf m)) (\<lambda>(page_phyaddr, p).
     if page_phyaddr = 0 then Inr (False, m)
     else bnd (page_table_add vaddr page_phyaddr (set_pool pf p m)) (map_pages pf cnt (vaddr + 4096)))"

definition malloc_page :: "pool_flags \<Rightarrow> nat \<Rightarrow> 'a memk_scheme \<Rightarrow> (u32 \<times> 'a memk_scheme) res" where
  "malloc_page pf pg_cnt m =
     ASSERT (pg_cnt > 0 \<and> pg_cnt < 3840) ''pg_cnt > 0 && pg_cnt < 3840''
      (bnd (vaddr_get pf pg_cnt m) (\<lambda>(va, m).
       if va = 0 then Inr (0, m)
       else bnd (map_pages pf pg_cnt va m) (\<lambda>(ok, m). Inr (if ok then va else 0, m))))"

fun zero_pages :: "nat \<Rightarrow> u32 \<Rightarrow> 'a memk_scheme \<Rightarrow> 'a memk_scheme res" where
  "zero_pages 0 va m = Inr m"
| "zero_pages (Suc n) va m = bnd (zero_page va m) (zero_pages n (va + 4096))"

definition get_kernel_pages :: "nat \<Rightarrow> 'a memk_scheme \<Rightarrow> (u32 \<times> 'a memk_scheme) res" where
  "get_kernel_pages pg_cnt m =
     bnd (malloc_page PF_KERNEL pg_cnt m) (\<lambda>(vaddr, m).
     if vaddr \<noteq> 0 then bnd (zero_pages pg_cnt vaddr m) (\<lambda>m. Inr (vaddr, m)) else Inr (vaddr, m))"

text \<open>The lock of a pool.\<close>

definition acquire_pool :: "pool_flags \<Rightarrow> 'a memk_scheme \<Rightarrow> 'a memk_scheme res" where
  "acquire_pool pf m =
     bnd (lock_acquire (pool_lock (pool_of pf m)) m) (\<lambda>(l, m).
     Inr (set_pool pf ((pool_of pf m)\<lparr>pool_lock := l\<rparr>) m))"

definition release_pool :: "pool_flags \<Rightarrow> 'a memk_scheme \<Rightarrow> 'a memk_scheme res" where
  "release_pool pf m =
     bnd (lock_release (pool_lock (pool_of pf m)) m) (\<lambda>(l, m).
     Inr (set_pool pf ((pool_of pf m)\<lparr>pool_lock := l\<rparr>) m))"

definition get_user_pages :: "nat \<Rightarrow> 'a memk_scheme \<Rightarrow> (u32 \<times> 'a memk_scheme) res" where
  "get_user_pages pg_cnt m =
     bnd (acquire_pool PF_USER m) (\<lambda>m.
     bnd (malloc_page PF_USER pg_cnt m) (\<lambda>(vaddr, m).
     bnd (if vaddr \<noteq> 0 then zero_pages pg_cnt vaddr m else Inr m) (\<lambda>m.
     bnd (release_pool PF_USER m) (\<lambda>m. Inr (vaddr, m)))))"

text \<open>The common end of the two routines that map one given page.\<close>

definition map_one :: "pool_flags \<Rightarrow> u32 \<Rightarrow> 'a memk_scheme \<Rightarrow> (u32 \<times> 'a memk_scheme) res" where
  "map_one pf vaddr m =
     bnd (palloc (pool_of pf m)) (\<lambda>(page_phyaddr, p).
     if page_phyaddr = 0 then bnd (release_pool pf m) (\<lambda>m. Inr (0, m))
     else bnd (page_table_add vaddr page_phyaddr (set_pool pf p m)) (\<lambda>m.
          bnd (release_pool pf m) (\<lambda>m. Inr (vaddr, m))))"

definition get_a_page :: "pool_flags \<Rightarrow> u32 \<Rightarrow> 'a memk_scheme \<Rightarrow> (u32 \<times> 'a memk_scheme) res" where
  "get_a_page pf vaddr m =
     bnd (acquire_pool pf m) (\<lambda>m.
     let c = running_thread m;
         vp = vpool_of pf m;
         bit_idx = unat (vaddr - vaddr_start vp) div 4096
     in bnd (if pgdir (tasks m c) \<noteq> None \<and> pf = PF_USER then bitmap_set (vaddr_bitmap vp) bit_idx 1
             else if pgdir (tasks m c) = None \<and> pf = PF_KERNEL
             then ASSERT (bit_idx > 0) ''bit_idx > 0'' (bitmap_set (vaddr_bitmap vp) bit_idx 1)
             else Inl (Panic ''get_a_page''))
          (\<lambda>b. map_one pf vaddr (set_vpool pf (vp\<lparr>vaddr_bitmap := b\<rparr>) m)))"

definition get_a_page_without_opvaddrbitmap ::
    "pool_flags \<Rightarrow> u32 \<Rightarrow> 'a memk_scheme \<Rightarrow> (u32 \<times> 'a memk_scheme) res" where
  "get_a_page_without_opvaddrbitmap pf vaddr m = bnd (acquire_pool pf m) (map_one pf vaddr)"

section \<open>Release\<close>

definition pfree :: "u32 \<Rightarrow> 'a memk_scheme \<Rightarrow> 'a memk_scheme res" where
  "pfree pg_phyaddr m =
     (let pf = (if pg_phyaddr \<ge> phy_addr_start (user_pool m) then PF_USER else PF_KERNEL);
          pl = pool_of pf m;
          bit_idx = unat (pg_phyaddr - phy_addr_start pl) div 4096
      in bnd (bitmap_set (pool_bitmap pl) bit_idx 0) (\<lambda>b.
         Inr (set_pool pf (pl\<lparr>pool_bitmap := b\<rparr>) m)))"

definition free_a_phy_addr :: "u32 \<Rightarrow> 'a memk_scheme \<Rightarrow> 'a memk_scheme res" where
  "free_a_phy_addr pg_phyaddr m =
     (let pf = (if pg_phyaddr \<ge> phy_addr_start (user_pool m) then PF_USER else PF_KERNEL);
          mem_pool = pool_of pf m;
          bit_idx = unat (pg_phyaddr - phy_addr_start mem_pool) div 4096
      in bnd (bitmap_set (pool_bitmap mem_pool) bit_idx 0) (\<lambda>b.
         Inr (set_pool pf (mem_pool\<lparr>pool_bitmap := b\<rparr>) m)))"

definition vaddr_remove :: "pool_flags \<Rightarrow> u32 \<Rightarrow> nat \<Rightarrow> 'a memk_scheme \<Rightarrow> 'a memk_scheme res" where
  "vaddr_remove pf vaddr pg_cnt m =
     (let vp = vpool_of pf m;
          bit_idx_start = unat (vaddr - vaddr_start vp) div 4096
      in bnd (set_bits (vaddr_bitmap vp) bit_idx_start pg_cnt 0) (\<lambda>b.
         Inr (set_vpool pf (vp\<lparr>vaddr_bitmap := b\<rparr>) m)))"

text \<open>One of the two loops of \<open>mfree_page\<close>: \<open>ok\<close> is the range of frames it accepts.\<close>

fun unmap_pages :: "('a memk_scheme \<Rightarrow> u32 \<Rightarrow> bool) \<Rightarrow> nat \<Rightarrow> u32 \<Rightarrow> 'a memk_scheme \<Rightarrow> 'a memk_scheme res" where
  "unmap_pages ok 0 vaddr m = Inr m"
| "unmap_pages ok (Suc cnt) vaddr m =
     bnd (addr_v2p vaddr m) (\<lambda>pg_phyaddr.
     ASSERT (pg_phyaddr mod 4096 = 0 \<and> ok m pg_phyaddr) ''pg_phyaddr''
      (bnd (pfree pg_phyaddr m) (\<lambda>m.
       bnd (page_table_pte_remove vaddr m) (unmap_pages ok cnt (vaddr + 4096)))))"

definition in_user_pool :: "'a memk_scheme \<Rightarrow> u32 \<Rightarrow> bool" where
  "in_user_pool m pa \<longleftrightarrow> phy_addr_start (user_pool m) \<le> pa"

definition in_kernel_pool :: "'a memk_scheme \<Rightarrow> u32 \<Rightarrow> bool" where
  "in_kernel_pool m pa \<longleftrightarrow> phy_addr_start (kernel_pool m) \<le> pa \<and> pa < phy_addr_start (user_pool m)"

definition mfree_page :: "pool_flags \<Rightarrow> u32 \<Rightarrow> nat \<Rightarrow> 'a memk_scheme \<Rightarrow> 'a memk_scheme res" where
  "mfree_page pf vaddr pg_cnt m =
     ASSERT (vaddr mod 4096 = 0 \<and> pg_cnt > 0) ''(uint32_t)_vaddr % PG_SIZE == 0 && pg_cnt > 0''
      (bnd (addr_v2p vaddr m) (\<lambda>pg_phyaddr.
       ASSERT (pg_phyaddr mod 4096 = 0 \<and> pg_phyaddr \<ge> 0x102000) ''pg_phyaddr >= 0x102000''
        (bnd (unmap_pages (if pg_phyaddr \<ge> phy_addr_start (user_pool m) then in_user_pool else in_kernel_pool)
                pg_cnt vaddr m)
          (vaddr_remove pf vaddr pg_cnt))))"

section \<open>Addresses as numbers\<close>

lemma and_high: "n < 32 \<Longrightarrow> (x :: u32) AND push_bit n (mask (32 - n)) = push_bit n (drop_bit n x)"
  by (rule bit_word_eqI) (auto simp: bit_simps)

lemma unat_drop: "unat (drop_bit n (x :: u32)) = unat x div 2 ^ n"
  by (subst unat_drop_bit_eq) (rule drop_bit_eq_div)

lemma unat_push_drop: "unat (push_bit n (drop_bit n (x :: u32))) = unat x div 2 ^ n * 2 ^ n"
proof -
  have "unat x div 2 ^ n * 2 ^ n \<le> unat x" by simp
  moreover have "unat x < 2 ^ 32" using unsigned_less [of x, where 'a = nat] by simp
  ultimately have "unat x div 2 ^ n * 2 ^ n < 2 ^ 32" by (rule le_less_trans)
  moreover have "unat (push_bit n (drop_bit n x)) = take_bit 32 (unat x div 2 ^ n * 2 ^ n)"
    by (subst unsigned_push_bit_eq) (simp add: unat_drop push_bit_eq_mult del: drop_bit_eq_div)
  ultimately show ?thesis by (simp add: take_bit_nat_eq_self)
qed

lemma unat_page [simp]: "unat ((x :: u32) AND 0xfffff000) = unat x div 4096 * 4096"
  using and_high [of 12 x] unat_push_drop [of 12 x] by (simp add: mask_eq_exp_minus_1)

lemma unat_4M: "unat ((x :: u32) AND 0xffc00000) = unat x div 4194304 * 4194304"
  using and_high [of 22 x] unat_push_drop [of 22 x] by (simp add: mask_eq_exp_minus_1)

lemma unat_off [simp]: "unat ((x :: u32) AND 0xfff) = unat x mod 4096"
proof -
  have "x AND mask 12 = x mod 2 ^ 12" by (simp only: take_bit_eq_mask [symmetric] take_bit_eq_mod)
  then have "x AND 0xfff = x mod 4096" by (simp add: mask_eq_exp_minus_1)
  then show ?thesis by (simp add: unat_mod)
qed

lemma unat_PDE_IDX [simp]: "unat (PDE_IDX v) = unat v div 4194304"
  by (simp only: PDE_IDX_def unat_drop unat_4M) simp

lemma unat_PTE_IDX [simp]: "unat (PTE_IDX v) = unat v div 4096 mod 1024"
proof -
  have "v AND 0x003ff000 = (v AND 0xfffff000) AND 0x3fffff"
    by (simp add: and.assoc)
  also have "\<dots> = (v AND 0xfffff000) mod 4194304"
  proof -
    have "w AND mask 22 = w mod 2 ^ 22" for w :: u32
      by (simp only: take_bit_eq_mask [symmetric] take_bit_eq_mod)
    then have "w AND 0x3fffff = w mod 4194304" for w :: u32 by (simp add: mask_eq_exp_minus_1)
    then show ?thesis .
  qed
  finally have "unat (PTE_IDX v) = unat v div 4096 * 4096 mod 4194304 div 4096"
    by (simp only: PTE_IDX_def unat_drop unat_mod unat_page) simp
  also have "unat v div 4096 * 4096 mod 4194304 = unat v div 4096 mod 1024 * 4096"
    using mult_mod_left [of "unat v div 4096" 1024 4096] by simp
  finally show ?thesis by simp
qed

lemma frame_of_div: "frame_of x = unat x div 4096"
  by (simp only: frame_of_def unat_drop) simp

lemma word_of_mod: "word_of x = unat x mod 4096 div 4"
  by (simp add: word_of_def)

lemma va_bounds: "unat (v :: u32) < 4294967296" "unat v div 4194304 < 1024" "unat v div 4096 mod 1024 < 1024"
proof -
  show "unat v < 4294967296" using unsigned_less [of v] by simp
  then show "unat v div 4194304 < 1024" by simp
qed simp

lemma unat_pde_ptr: "unat (pde_ptr v) = 0xfffff000 + unat v div 4194304 * 4"
  using va_bounds [of v] by (simp add: pde_ptr_def unat_word_ariths)

lemma unat_pte_ptr:
  "unat (pte_ptr v) = 0xffc00000 + unat v div 4194304 * 4096 + unat v div 4096 mod 1024 * 4"
proof -
  have "unat (drop_bit 10 (v AND 0xffc00000)) = unat v div 4194304 * 4096"
    by (simp only: unat_drop unat_4M) simp
  then show ?thesis using va_bounds [of v] by (simp add: pte_ptr_def unat_word_ariths)
qed

lemma frame_of_page_off [simp]:
  "frame_of ((x AND 0xfffff000) + (y AND 0xfff)) = frame_of x"
  "word_of ((x AND 0xfffff000) + (y AND 0xfff)) = unat y mod 4096 div 4"
proof -
  have x: "unat x < 4294967296" by (rule va_bounds)
  have "unat x div 4096 * 4096 + unat y mod 4096 < 4294967296"
  proof -
    have "unat x div 4096 < 1048576" "unat y mod 4096 < 4096" using x by simp_all
    then show ?thesis by linarith
  qed
  then have "unat ((x AND 0xfffff000) + (y AND 0xfff)) = unat x div 4096 * 4096 + unat y mod 4096"
    by (simp add: unat_word_ariths)
  then show "frame_of ((x AND 0xfffff000) + (y AND 0xfff)) = frame_of x"
    "word_of ((x AND 0xfffff000) + (y AND 0xfff)) = unat y mod 4096 div 4"
    by (simp_all add: frame_of_div word_of_mod)
qed

section \<open>The address space as a map from pages to frames\<close>

definition page_of :: "u32 \<Rightarrow> nat" where
  "page_of va = unat va div 4096"

definition dir_entry_of :: "'a memk_scheme \<Rightarrow> nat \<Rightarrow> u32" where
  "dir_entry_of m i = ram m (frame_of (pd_base m)) i"

definition page_map :: "'a memk_scheme \<Rightarrow> nat \<Rightarrow> nat option" where
  "page_map m p =
     (let d = dir_entry_of m (p div 1024); e = ram m (frame_of d) (p mod 1024)
      in if present d \<and> present e then Some (frame_of e) else None)"

lemma page_of_div_mod: "page_of va div 1024 = unat va div 4194304" "page_of va mod 1024 = unat va div 4096 mod 1024"
  by (simp_all add: page_of_def div_mult2_eq [symmetric])

lemma pde_at_dir: "pde_at m va = dir_entry_of m (page_of va div 1024)"
  by (simp add: pde_at_def dir_entry_of_def page_of_div_mod)

lemma pte_at_tab: "pte_at m va = ram m (frame_of (dir_entry_of m (page_of va div 1024))) (page_of va mod 1024)"
  by (simp add: pte_at_def pde_at_dir page_of_div_mod)

lemma page_of_less: "page_of va < 1048576" "page_of va div 1024 < 1024"
  using va_bounds(1) [of va] by (simp_all add: page_of_def)

lemma mmu_page_map:
  "mmu m va = (case page_map m (page_of va) of None \<Rightarrow> None
     | Some f \<Rightarrow> Some ((pte_at m va AND 0xfffff000) + (va AND 0xfff)))"
  by (simp add: mmu_def page_map_def pde_at_dir pte_at_tab Let_def)

lemma mmu_frame: "mmu m va = Some pa \<Longrightarrow> page_map m (page_of va) = Some (frame_of pa)"
  by (auto simp: mmu_def page_map_def pde_at_dir pte_at_tab Let_def split: if_splits)

text \<open>The last entry of the directory points to the directory itself.\<close>

definition self_map :: "'a memk_scheme \<Rightarrow> bool" where
  "self_map m \<longleftrightarrow> present (dir_entry_of m 1023) \<and> frame_of (dir_entry_of m 1023) = frame_of (pd_base m)"

definition poke :: "nat \<Rightarrow> nat \<Rightarrow> u32 \<Rightarrow> 'a memk_scheme \<Rightarrow> 'a memk_scheme" where
  "poke f i w m = m\<lparr>ram := (ram m)(f := (ram m f)(i := w))\<rparr>"

lemma split_num: "r < b \<Longrightarrow> (q * b + r) div b = q" "r < b \<Longrightarrow> (q * b + r) mod b = (r :: nat)"
  by simp_all

lemma ptr_numbers:
  "page_of (pde_ptr v) = 1048575" "unat (pde_ptr v) mod 4096 div 4 = page_of v div 1024"
  "page_of (pte_ptr v) = 1047552 + page_of v div 1024" "unat (pte_ptr v) mod 4096 div 4 = page_of v mod 1024"
proof -
  note b = va_bounds [of v]
  have "unat (pde_ptr v) = 1048575 * 4096 + unat v div 4194304 * 4" by (simp add: unat_pde_ptr)
  moreover have "unat v div 4194304 * 4 < 4096" using b by simp
  ultimately show "page_of (pde_ptr v) = 1048575" "unat (pde_ptr v) mod 4096 div 4 = page_of v div 1024"
    using split_num [of "unat v div 4194304 * 4" 4096 1048575]
    by (simp_all add: page_of_div_mod(1)) (simp_all add: page_of_def)
  have "unat (pte_ptr v) = (1047552 + unat v div 4194304) * 4096 + unat v div 4096 mod 1024 * 4"
    by (simp add: unat_pte_ptr)
  moreover have "unat v div 4096 mod 1024 * 4 < 4096" using b by simp
  ultimately show "page_of (pte_ptr v) = 1047552 + page_of v div 1024"
    "unat (pte_ptr v) mod 4096 div 4 = page_of v mod 1024"
    using split_num [of "unat v div 4096 mod 1024 * 4" 4096 "1047552 + unat v div 4194304"]
    by (simp_all only: page_of_div_mod) (simp_all add: page_of_def)
qed

lemma mmu_pde_ptr:
  assumes "self_map m"
  shows "\<exists>pa. mmu m (pde_ptr v) = Some pa \<and> frame_of pa = frame_of (pd_base m) \<and> word_of pa = page_of v div 1024"
proof -
  let ?e = "dir_entry_of m 1023"
  have e: "pde_at m (pde_ptr v) = ?e" by (simp add: pde_at_dir ptr_numbers)
  have "pte_at m (pde_ptr v) = ?e"
    using assms by (simp add: pte_at_tab ptr_numbers self_map_def) (simp add: dir_entry_of_def)
  then show ?thesis using assms e by (simp add: mmu_def self_map_def ptr_numbers)
qed

lemma mmu_window:
  assumes "self_map m" "page_of w = 1047552 + page_of v div 1024"
  shows "if present (pde_at m v)
    then \<exists>pa. mmu m w = Some pa \<and> frame_of pa = frame_of (pde_at m v) \<and> word_of pa = unat w mod 4096 div 4
    else mmu m w = None"
proof -
  let ?e = "dir_entry_of m 1023"
  have q: "page_of w div 1024 = 1023" "page_of w mod 1024 = page_of v div 1024"
    using split_num [of "page_of v div 1024" 1024 1023] assms(2) page_of_less(2) [of v] by simp_all
  have e: "pde_at m w = ?e" by (simp add: pde_at_dir q)
  have "pte_at m w = pde_at m v"
    using assms(1) by (simp add: pte_at_tab q self_map_def) (simp add: pde_at_dir dir_entry_of_def)
  then show ?thesis using assms e by (simp add: mmu_def self_map_def)
qed

lemma load_pde: "self_map m \<Longrightarrow> load (pde_ptr v) m = Inr (pde_at m v)"
  using mmu_pde_ptr [of m v] by (auto simp: load_def pde_at_dir dir_entry_of_def)

lemma store_pde:
  "self_map m \<Longrightarrow> store (pde_ptr v) w m = Inr (poke (frame_of (pd_base m)) (page_of v div 1024) w m)"
  using mmu_pde_ptr [of m v] by (auto simp: store_def poke_def)

lemma load_pte:
  "self_map m \<Longrightarrow> load (pte_ptr v) m =
     (if present (pde_at m v) then Inr (pte_at m v) else Inl (Fault ''page fault''))"
  using mmu_window [of m "pte_ptr v" v] by (auto simp: load_def ptr_numbers pte_at_tab pde_at_dir split: if_splits)

lemma store_pte:
  "self_map m \<Longrightarrow> present (pde_at m v) \<Longrightarrow>
   store (pte_ptr v) w m = Inr (poke (frame_of (pde_at m v)) (page_of v mod 1024) w m)"
  using mmu_window [of m "pte_ptr v" v] by (auto simp: store_def ptr_numbers poke_def)

lemma zero_table:
  assumes "self_map m" "present (pde_at m v)"
  shows "zero_page (pte_ptr v AND 0xfffff000) m = Inr (m\<lparr>ram := (ram m)(frame_of (pde_at m v) :=
    (\<lambda>i. if i < 1024 then 0 else ram m (frame_of (pde_at m v)) i))\<rparr>)"
proof -
  have "page_of (pte_ptr v AND 0xfffff000) = page_of (pte_ptr v)" by (simp add: page_of_def)
  then obtain pa where "mmu m (pte_ptr v AND 0xfffff000) = Some pa" "frame_of pa = frame_of (pde_at m v)"
    using mmu_window [of m "pte_ptr v AND 0xfffff000" v] assms by (auto simp: ptr_numbers)
  then show ?thesis by (simp add: zero_page_def cong: if_cong)
qed

section \<open>Frames\<close>

definition frame_nr :: "pool \<Rightarrow> nat \<Rightarrow> nat" where
  "frame_nr p i = frame_of (phy_addr_start p) + i"

definition pool_frames :: "pool \<Rightarrow> nat set" where
  "pool_frames p = frame_nr p ` {i. i < nbits (pool_bitmap p)}"

definition free_frames :: "pool \<Rightarrow> nat set" where
  "free_frames p = frame_nr p ` {i. i < nbits (pool_bitmap p) \<and> i \<notin> used (pool_bitmap p)}"

text \<open>The pool starts at a page boundary behind address 0 and ends inside the 4 GB.\<close>

definition wf_pool :: "pool \<Rightarrow> bool" where
  "wf_pool p \<longleftrightarrow> wf_bitmap (pool_bitmap p) \<and> 0 < phy_addr_start p \<and> unat (phy_addr_start p) mod 4096 = 0 \<and>
     frame_of (phy_addr_start p) + nbits (pool_bitmap p) \<le> 1048576"

lemma free_pool_frames: "free_frames p \<subseteq> pool_frames p"
  by (auto simp: free_frames_def pool_frames_def)

lemma finite_frames [simp]: "finite (pool_frames p)" "finite (free_frames p)"
  by (auto simp: pool_frames_def intro: finite_subset [OF free_pool_frames])

lemma frame_nr_inj [simp]: "frame_nr p i = frame_nr p j \<longleftrightarrow> i = j"
  by (simp add: frame_nr_def)

lemma inj_frame_nr: "inj_on (frame_nr p) A"
  by (simp add: inj_on_def)

text \<open>The physical address of the \<open>i\<close>-th frame of a pool.\<close>

lemma frame_addr:
  assumes "wf_pool p" "i < nbits (pool_bitmap p)"
  shows "unat (phy_addr_start p + of_nat i * 4096) = frame_nr p i * 4096"
    "frame_of (phy_addr_start p + of_nat i * 4096) = frame_nr p i"
    "phy_addr_start p + of_nat i * 4096 \<noteq> 0"
proof -
  have s: "unat (phy_addr_start p) = frame_of (phy_addr_start p) * 4096"
    using assms(1) div_mult_mod_eq [of "unat (phy_addr_start p)" 4096] by (simp add: wf_pool_def frame_of_div)
  have le: "frame_nr p i * 4096 < 2 ^ 32" using assms by (simp add: wf_pool_def frame_nr_def)
  then have "i * 4096 < 2 ^ 32" by (simp add: frame_nr_def)
  then have i: "unat (of_nat i * 4096 :: u32) = i * 4096"
    using unsigned_of_nat [of "i * 4096", where 'a = nat and 'b = 32]
    by (simp add: take_bit_nat_eq_self)
  show a: "unat (phy_addr_start p + of_nat i * 4096) = frame_nr p i * 4096"
    using le by (simp add: unat_word_ariths(1) i s frame_nr_def add_mult_distrib)
  then show "frame_of (phy_addr_start p + of_nat i * 4096) = frame_nr p i" by (simp add: frame_of_div)
  have "phy_addr_start p \<noteq> 0" using assms(1) by (auto simp: wf_pool_def)
  then have "unat (phy_addr_start p) \<noteq> 0" by (simp add: unsigned_eq_0_iff)
  then have "frame_nr p i * 4096 \<noteq> 0" using s by (simp add: frame_nr_def)
  then show "phy_addr_start p + of_nat i * 4096 \<noteq> 0" using a by (metis unsigned_0)
qed

text \<open>Only the bitmap of a pool changes after its set-up.\<close>

definition same_pool :: "pool \<Rightarrow> pool \<Rightarrow> bool" where
  "same_pool p p' \<longleftrightarrow> p' = p\<lparr>pool_bitmap := pool_bitmap p'\<rparr> \<and> pool_frames p' = pool_frames p"

lemma same_pool_refl [simp]: "same_pool p p"
  by (simp add: same_pool_def)

lemma same_pool_trans: "same_pool p q \<Longrightarrow> same_pool q r \<Longrightarrow> same_pool p r"
proof -
  assume a: "same_pool p q" "same_pool q r"
  have "r = q\<lparr>pool_bitmap := pool_bitmap r\<rparr>" "q = p\<lparr>pool_bitmap := pool_bitmap q\<rparr>"
    using a by (simp_all add: same_pool_def)
  then have "r = p\<lparr>pool_bitmap := pool_bitmap r\<rparr>" by (metis pool.surjective pool.update_convs(1))
  then show ?thesis using a by (simp add: same_pool_def)
qed

lemma palloc_full: "wf_pool p \<Longrightarrow> free_frames p = {} \<Longrightarrow> panics (palloc p)"
proof -
  assume p: "wf_pool p" "free_frames p = {}"
  then have "used (pool_bitmap p) = {..<nbits (pool_bitmap p)}"
    by (auto simp: free_frames_def used_def)
  then show ?thesis
    using bitmap_scan_one_cases [of "pool_bitmap p"] p(1)
    by (auto simp: palloc_def wf_pool_def panics_def split: sum.splits stop.splits)
qed

lemma palloc_ok:
  assumes "wf_pool p" "free_frames p \<noteq> {}"
  shows "\<exists>pa p'. palloc p = Inr (pa, p') \<and> wf_pool p' \<and> p' = p\<lparr>pool_bitmap := pool_bitmap p'\<rparr> \<and>
      pa \<noteq> 0 \<and> unat pa mod 4096 = 0 \<and> frame_of pa \<in> free_frames p \<and>
      pool_frames p' = pool_frames p \<and> free_frames p' = free_frames p - {frame_of pa}"
proof -
  have "used (pool_bitmap p) \<noteq> {..<nbits (pool_bitmap p)}" using assms(2) by (auto simp: free_frames_def)
  then obtain s where s: "bitmap_scan (pool_bitmap p) 1 = Inr (int s)" "s < nbits (pool_bitmap p)"
    "s \<notin> used (pool_bitmap p)"
    using bitmap_scan_one_cases [of "pool_bitmap p"] assms by (auto simp: wf_pool_def)
  obtain b where b: "bitmap_set (pool_bitmap p) s 1 = Inr b" "wf_bitmap b"
    "nbits b = nbits (pool_bitmap p)" "used b = insert s (used (pool_bitmap p))"
    using bitmap_set_used_ex [of "pool_bitmap p" s 1] assms s(2) by (auto simp: wf_pool_def)
  note fa = frame_addr [OF assms(1) s(2)]
  let ?pa = "phy_addr_start p + of_nat s * 4096" and ?p = "p\<lparr>pool_bitmap := b\<rparr>"
  have fr: "frame_nr ?p = frame_nr p" by (simp add: fun_eq_iff frame_nr_def)
  have "{i. i < nbits b \<and> i \<notin> used b} =
      {i. i < nbits (pool_bitmap p) \<and> i \<notin> used (pool_bitmap p)} - {s}" using b by auto
  then have free: "free_frames ?p = free_frames p - {frame_of ?pa}"
    by (simp add: free_frames_def fr fa(2) image_set_diff [OF inj_frame_nr])
  show ?thesis
  proof (rule exI [of _ ?pa], rule exI [of _ ?p], intro conjI)
    show "palloc p = Inr (?pa, ?p)" using s b by (simp add: palloc_def)
    show "wf_pool ?p" using assms b by (simp add: wf_pool_def)
    show "pool_frames ?p = pool_frames p" using b fr by (simp add: pool_frames_def)
    show "frame_of ?pa \<in> free_frames p" using fa s by (auto simp: free_frames_def)
    show "unat ?pa mod 4096 = 0" using fa(1) by simp
  qed (use free fa(3) in simp_all)
qed

section \<open>The invariant of the page tables\<close>

text \<open>
  All frames that are in use as the directory, as page tables or behind a page are taken in
  the pools, tables are not the directory, and two directory entries share a table only as
  entries 0 and 768 of the kernel's directory do.
\<close>

definition tables :: "'a memk_scheme \<Rightarrow> nat set" where
  "tables m = {frame_of (dir_entry_of m i) | i. i < 1023 \<and> present (dir_entry_of m i)}"

definition free_mem :: "'a memk_scheme \<Rightarrow> nat set" where
  "free_mem m = free_frames (kernel_pool m) \<union> free_frames (user_pool m)"

definition low_pages :: "nat set" where
  "low_pages = {p. p div 1024 < 1023}"

definition twin :: "nat \<Rightarrow> nat \<Rightarrow> bool" where
  "twin i j \<longleftrightarrow> i = 0 \<and> j = 768 \<or> i = 768 \<and> j = 0"

definition paging_ok :: "'a memk_scheme \<Rightarrow> bool" where
  "paging_ok m \<longleftrightarrow> self_map m \<and> wf_pool (kernel_pool m) \<and> wf_pool (user_pool m) \<and>
     pool_frames (kernel_pool m) \<inter> pool_frames (user_pool m) = {} \<and>
     frame_of (pd_base m) \<notin> tables m \<union> free_mem m \<and> tables m \<inter> free_mem m = {} \<and>
     (\<forall>i j. i < 1023 \<and> j < 1023 \<and> present (dir_entry_of m i) \<and> present (dir_entry_of m j) \<and>
        frame_of (dir_entry_of m i) = frame_of (dir_entry_of m j) \<longrightarrow> i = j \<or> twin i j) \<and>
     (\<forall>p \<in> low_pages. \<forall>f. page_map m p = Some f \<longrightarrow> f \<notin> free_mem m)"

text \<open>Two pages have the same table entry.\<close>

definition same_entry :: "nat \<Rightarrow> nat \<Rightarrow> bool" where
  "same_entry p q \<longleftrightarrow> p mod 1024 = q mod 1024 \<and> (p div 1024 = q div 1024 \<or> twin (p div 1024) (q div 1024))"

lemma frame_of_or7 [simp]: "frame_of (pa OR 7) = frame_of pa"
proof -
  have "drop_bit 12 (pa OR 7) = drop_bit 12 pa" by (simp add: drop_bit_or)
  then show ?thesis by (simp add: frame_of_def)
qed

lemma present_bit: "present e \<longleftrightarrow> bit e 0"
  by (simp add: present_def and_one_eq bit_0 odd_iff_mod_2_eq_one)

lemma present_or7 [simp]: "present (pa OR 7)"
  by (simp only: present_bit bit_or_iff) simp

lemma poke_fields [simp]:
  "pd_base (poke f i w m) = pd_base m" "kernel_pool (poke f i w m) = kernel_pool m"
  "user_pool (poke f i w m) = user_pool m" "kernel_vaddr_pool (poke f i w m) = kernel_vaddr_pool m"
  "userprog_vaddr (poke f i w m) = userprog_vaddr m"
  "ram (poke f i w m) = (ram m)(f := (ram m f)(i := w))"
  "free_mem (poke f i w m) = free_mem m"
  by (simp_all add: poke_def free_mem_def)

lemma poke_only: "poke f i w m = m\<lparr>ram := ram (poke f i w m)\<rparr>"
  by (simp add: poke_def)

lemma low_page_idx: "p \<in> low_pages \<longleftrightarrow> p div 1024 < 1023"
  by (simp add: low_pages_def)

lemma paging_okD:
  assumes "paging_ok m"
  shows "self_map m" "wf_pool (kernel_pool m)" "wf_pool (user_pool m)"
    "pool_frames (kernel_pool m) \<inter> pool_frames (user_pool m) = {}"
    "frame_of (pd_base m) \<notin> tables m" "frame_of (pd_base m) \<notin> free_mem m"
    "tables m \<inter> free_mem m = {}"
    "\<And>i j. i < 1023 \<Longrightarrow> j < 1023 \<Longrightarrow> present (dir_entry_of m i) \<Longrightarrow> present (dir_entry_of m j) \<Longrightarrow>
       frame_of (dir_entry_of m i) = frame_of (dir_entry_of m j) \<Longrightarrow> i = j \<or> twin i j"
    "\<And>p f. p \<in> low_pages \<Longrightarrow> page_map m p = Some f \<Longrightarrow> f \<notin> free_mem m"
  using assms unfolding paging_ok_def by blast+

lemma paging_okI:
  assumes "self_map m" "wf_pool (kernel_pool m)" "wf_pool (user_pool m)"
    "pool_frames (kernel_pool m) \<inter> pool_frames (user_pool m) = {}"
    "frame_of (pd_base m) \<notin> tables m" "frame_of (pd_base m) \<notin> free_mem m"
    "tables m \<inter> free_mem m = {}"
    "\<And>i j. i < 1023 \<Longrightarrow> j < 1023 \<Longrightarrow> present (dir_entry_of m i) \<Longrightarrow> present (dir_entry_of m j) \<Longrightarrow>
       frame_of (dir_entry_of m i) = frame_of (dir_entry_of m j) \<Longrightarrow> i = j \<or> twin i j"
    "\<And>p f. p \<in> low_pages \<Longrightarrow> page_map m p = Some f \<Longrightarrow> f \<notin> free_mem m"
  shows "paging_ok m"
  using assms unfolding paging_ok_def by simp

text \<open>Where the entry of a page lies.\<close>

definition slot :: "'a memk_scheme \<Rightarrow> nat \<Rightarrow> nat \<times> nat" where
  "slot m p = (frame_of (dir_entry_of m (p div 1024)), p mod 1024)"

lemma slot_page_map:
  "slot m q = slot m p \<Longrightarrow> page_map m q \<noteq> None \<Longrightarrow> page_map m p \<noteq> None \<Longrightarrow> page_map m q = page_map m p"
  by (auto simp: slot_def page_map_def Let_def split: if_splits)

text \<open>Directory entries that are present stay.\<close>

definition dir_kept :: "'a memk_scheme \<Rightarrow> 'a memk_scheme \<Rightarrow> bool" where
  "dir_kept m m' \<longleftrightarrow> (\<forall>i. present (dir_entry_of m i) \<longrightarrow> dir_entry_of m' i = dir_entry_of m i)"

lemma dir_kept_slot: "dir_kept m m' \<Longrightarrow> present (dir_entry_of m (p div 1024)) \<Longrightarrow> slot m' p = slot m p"
  by (simp add: dir_kept_def slot_def)

lemma page_map_present: "page_map m p \<noteq> None \<Longrightarrow> present (dir_entry_of m (p div 1024))"
  by (auto simp: page_map_def Let_def split: if_splits)

text \<open>A table entry written in place.\<close>

lemma page_map_poke_table:
  fixes m :: "'a memk_scheme" and w :: u32
  assumes "paging_ok m" "p \<in> low_pages" "present (dir_entry_of m (p div 1024))" "q \<in> low_pages"
  defines "m' \<equiv> poke (frame_of (dir_entry_of m (p div 1024))) (p mod 1024) w m"
  shows "dir_entry_of m' = dir_entry_of m"
    "page_map m' p = (if present w then Some (frame_of w) else None)"
    "\<not> same_entry p q \<Longrightarrow> page_map m' q = page_map m q"
    "page_map m' q = page_map m q \<or> page_map m' q = page_map m' p"
    "page_map m' q = page_map m q \<or> slot m q = slot m p"
proof -
  note D = paging_okD [OF assms(1)]
  have ne: "frame_of (dir_entry_of m (p div 1024)) \<noteq> frame_of (pd_base m)"
    using D(5) assms(2,3) by (auto simp: tables_def low_page_idx)
  show d: "dir_entry_of m' = dir_entry_of m"
    using ne by (auto simp: dir_entry_of_def m'_def fun_eq_iff)
  show pm: "page_map m' p = (if present w then Some (frame_of w) else None)"
    using assms(3) by (simp add: page_map_def d) (simp add: m'_def)
  have ent: "ram m' (frame_of (dir_entry_of m (q div 1024))) (q mod 1024) =
      (if frame_of (dir_entry_of m (q div 1024)) = frame_of (dir_entry_of m (p div 1024)) \<and>
          q mod 1024 = p mod 1024 then w else ram m (frame_of (dir_entry_of m (q div 1024))) (q mod 1024))"
    by (simp add: m'_def)
  show "page_map m' q = page_map m q" if "\<not> same_entry p q"
  proof (cases "present (dir_entry_of m (q div 1024))")
    case True
    then have "\<not> (frame_of (dir_entry_of m (q div 1024)) = frame_of (dir_entry_of m (p div 1024)) \<and>
          q mod 1024 = p mod 1024)"
      using that D(8) [of "p div 1024" "q div 1024"] assms(2-4) by (auto simp: same_entry_def low_page_idx)
    then show ?thesis using ent by (auto simp: page_map_def d)
  qed (simp add: page_map_def d)
  show "page_map m' q = page_map m q \<or> page_map m' q = page_map m' p"
    using ent assms(3) by (auto simp: page_map_def d pm Let_def)
  show "page_map m' q = page_map m q \<or> slot m q = slot m p"
    using ent by (auto simp: page_map_def d slot_def Let_def)
qed

text \<open>The table of a page that has none yet: a frame that nothing uses is cleared and installed.\<close>

definition install_table :: "nat \<Rightarrow> u32 \<Rightarrow> pool \<Rightarrow> 'a memk_scheme \<Rightarrow> 'a memk_scheme" where
  "install_table i w kp m = m\<lparr>kernel_pool := kp, ram := (ram m)
     (frame_of (pd_base m) := (ram m (frame_of (pd_base m)))(i := w),
      frame_of w := (\<lambda>j. if j < 1024 then 0 else ram m (frame_of w) j))\<rparr>"

lemma install_table_ok:
  assumes "paging_ok m" "i < 1023" "\<not> present (dir_entry_of m i)" "present w"
    and w: "frame_of w \<in> free_frames (kernel_pool m)"
    and kp: "wf_pool kp" "pool_frames kp = pool_frames (kernel_pool m)"
      "free_frames kp = free_frames (kernel_pool m) - {frame_of w}"
  defines "m' \<equiv> install_table i w kp m"
  shows "paging_ok m'" "dir_entry_of m' = (dir_entry_of m)(i := w)"
    "\<And>p. p \<in> low_pages \<Longrightarrow> page_map m' p = page_map m p"
proof -
  note D = paging_okD [OF assms(1)]
  have wf: "frame_of w \<noteq> frame_of (pd_base m)" "frame_of w \<notin> tables m"
    using D(6,7) w by (auto simp: free_mem_def)
  show d: "dir_entry_of m' = (dir_entry_of m)(i := w)"
    using wf by (auto simp: dir_entry_of_def m'_def install_table_def fun_eq_iff)
  have pd: "pd_base m' = pd_base m" by (simp add: m'_def install_table_def)
  have fm: "free_mem m' \<subseteq> free_mem m" "frame_of w \<notin> free_mem m'"
  proof -
    have k: "kernel_pool m' = kp" "user_pool m' = user_pool m" by (simp_all add: m'_def install_table_def)
    show "free_mem m' \<subseteq> free_mem m" by (auto simp: free_mem_def k kp)
    have "frame_of w \<notin> free_frames (user_pool m)"
      using w D(4) free_pool_frames [of "kernel_pool m"] free_pool_frames [of "user_pool m"] by blast
    then show "frame_of w \<notin> free_mem m'" by (simp add: free_mem_def k kp)
  qed
  have t: "tables m' = insert (frame_of w) (tables m)"
    using assms(2-4) by (auto simp: tables_def d)
  show pm: "page_map m' p = page_map m p" if p: "p \<in> low_pages" for p
  proof (cases "p div 1024 = i")
    case True
    have "ram m' (frame_of w) (p mod 1024) = 0" by (simp add: m'_def install_table_def)
    then show ?thesis using True assms(3) by (simp add: page_map_def d) (simp add: present_def)
  next
    case False
    have "frame_of (dir_entry_of m (p div 1024)) \<noteq> frame_of w \<and>
        frame_of (dir_entry_of m (p div 1024)) \<noteq> frame_of (pd_base m)" if "present (dir_entry_of m (p div 1024))"
      using wf(2) D(5) that p by (auto simp: tables_def low_page_idx)
    moreover have "ram m' f j = ram m f j" if "f \<noteq> frame_of w" "f \<noteq> frame_of (pd_base m)" for f j
      using that by (simp add: m'_def install_table_def)
    moreover have "dir_entry_of m' (p div 1024) = dir_entry_of m (p div 1024)" using False by (simp add: d)
    ultimately show ?thesis by (auto simp: page_map_def Let_def)
  qed
  have k: "kernel_pool m' = kp" "user_pool m' = user_pool m" by (simp_all add: m'_def install_table_def)
  have tk: "frame_of (dir_entry_of m j) \<noteq> frame_of w" if "j < 1023" "present (dir_entry_of m j)" for j
    using wf(2) that by (auto simp: tables_def)
  show "paging_ok m'"
  proof (rule paging_okI)
    show "self_map m'" using D(1) assms(2) by (simp add: self_map_def d pd)
    show "j = k \<or> twin j k"
      if "j < 1023" "k < 1023" "present (dir_entry_of m' j)" "present (dir_entry_of m' k)"
        "frame_of (dir_entry_of m' j) = frame_of (dir_entry_of m' k)" for j k
      using that D(8) [of j k] tk [of j] tk [of k] unfolding d by (cases "j = i"; cases "k = i"; simp)
    show "f \<notin> free_mem m'" if "p \<in> low_pages" "page_map m' p = Some f" for p f
      using D(9) [of p f] pm [OF that(1)] that fm(1) by auto
    show "tables m' \<inter> free_mem m' = {}" using D(7) fm by (auto simp: t)
    show "frame_of (pd_base m') \<notin> free_mem m'" using D(6) fm by (auto simp: pd)
  qed (use D kp wf in \<open>simp_all add: k t pd\<close>)
qed

lemma poke_table_ok:
  fixes m :: "'a memk_scheme" and w :: u32
  assumes "paging_ok m" "p \<in> low_pages" "present (dir_entry_of m (p div 1024))"
    "present w \<Longrightarrow> frame_of w \<notin> free_mem m"
  defines "m' \<equiv> poke (frame_of (dir_entry_of m (p div 1024))) (p mod 1024) w m"
  shows "paging_ok m'"
proof -
  note D = paging_okD [OF assms(1)]
  note pm = page_map_poke_table [OF assms(1-3), where w = w, folded m'_def]
  have d: "dir_entry_of m' = dir_entry_of m" by (rule pm(1) [OF assms(2)])
  have f: "pd_base m' = pd_base m" "kernel_pool m' = kernel_pool m" "user_pool m' = user_pool m"
    "free_mem m' = free_mem m" by (simp_all add: m'_def)
  have t: "tables m' = tables m" by (simp add: tables_def d)
  show ?thesis
  proof (rule paging_okI)
    show "g \<notin> free_mem m'" if "q \<in> low_pages" "page_map m' q = Some g" for q g
      using pm(2,4) [OF that(1)] that(2) D(9) [OF that(1)] assms(4) by (auto simp: f split: if_splits)
  qed (use D in \<open>simp_all add: self_map_def d f t\<close>)
qed

lemma page_map_None: "present (pde_at m va) \<Longrightarrow> page_map m (page_of va) = None \<longleftrightarrow> \<not> present (pte_at m va)"
  by (simp add: page_map_def pde_at_dir pte_at_tab Let_def)

lemma page_table_add_there:
  assumes "paging_ok m" "page_of va \<in> low_pages" "page_map m (page_of va) = None"
    "frame_of pa \<notin> free_mem m" "present (pde_at m va)"
  defines "m' \<equiv> poke (frame_of (pde_at m va)) (page_of va mod 1024) (pa OR 7) m"
  shows "page_table_add va pa m = Inr m'" "paging_ok m'"
    "page_map m' (page_of va) = Some (frame_of pa)"
    "\<And>q. q \<in> low_pages \<Longrightarrow> \<not> same_entry (page_of va) q \<Longrightarrow> page_map m' q = page_map m q"
    "tables m' = tables m" "dir_entry_of m' = dir_entry_of m"
    "\<And>q. q \<in> low_pages \<Longrightarrow> page_map m' q = page_map m q \<or> slot m q = slot m (page_of va)"
proof -
  note sm = paging_okD(1) [OF assms(1)]
  have np: "\<not> present (pte_at m va)" using page_map_None [OF assms(5)] assms(3) by simp
  have dp: "present (dir_entry_of m (page_of va div 1024))" using assms(5) by (simp add: pde_at_dir)
  show "page_table_add va pa m = Inr m'"
    using assms(5) np sm by (simp add: page_table_add_def load_pde load_pte store_pte m'_def present_def [symmetric])
  note pm = page_map_poke_table [OF assms(1,2) dp, where w = "pa OR 7", folded pde_at_dir, folded m'_def]
  show "page_map m' (page_of va) = Some (frame_of pa)" using pm(2) [OF assms(2)] by simp
  show "tables m' = tables m" using pm(1) [OF assms(2)] by (simp add: tables_def)
  show "dir_entry_of m' = dir_entry_of m" by (rule pm(1) [OF assms(2)])
  show "page_map m' q = page_map m q \<or> slot m q = slot m (page_of va)" if "q \<in> low_pages" for q
    by (rule pm(5) [OF that])
  show "page_map m' q = page_map m q" if "q \<in> low_pages" "\<not> same_entry (page_of va) q" for q
    by (rule pm(3) [OF that])
  show "paging_ok m'"
    using poke_table_ok [OF assms(1,2) dp, of "pa OR 7"] assms(4) by (simp add: m'_def pde_at_dir)
qed

text \<open>Where the page has no table yet.\<close>

lemma page_table_add_new:
  assumes "paging_ok m" "page_of va \<in> low_pages" "page_map m (page_of va) = None"
    "frame_of pa \<notin> free_mem m" "free_frames (kernel_pool m) \<noteq> {}" "\<not> present (pde_at m va)"
  obtains w kp where "wf_pool kp" "frame_of w \<in> free_frames (kernel_pool m)" "pool_frames kp = pool_frames (kernel_pool m)"
    "free_frames kp = free_frames (kernel_pool m) - {frame_of w}" "same_pool (kernel_pool m) kp"
    "page_table_add va pa m = Inr (poke (frame_of w) (page_of va mod 1024) (pa OR 7)
       (install_table (page_of va div 1024) (w OR 7) kp m))"
proof -
  note sm = paging_okD(1) [OF assms(1)]
  obtain w kp where kp: "palloc (kernel_pool m) = Inr (w, kp)" "wf_pool kp"
    "frame_of w \<in> free_frames (kernel_pool m)" "pool_frames kp = pool_frames (kernel_pool m)"
    "free_frames kp = free_frames (kernel_pool m) - {frame_of w}" "same_pool (kernel_pool m) kp"
    using palloc_ok [OF paging_okD(2) [OF assms(1)] assms(5)] unfolding same_pool_def by blast
  let ?i = "page_of va div 1024" and ?w = "w OR 7"
  have i: "?i < 1023" "\<not> present (dir_entry_of m ?i)"
    using assms(2,6) by (simp_all add: low_page_idx pde_at_dir)
  define m1 where "m1 = install_table ?i ?w kp m"
  note it = install_table_ok [OF assms(1) i, of ?w kp, unfolded frame_of_or7, OF present_or7 kp(3,2,4,5), folded m1_def]
  have wd: "frame_of w \<noteq> frame_of (pd_base m)" using paging_okD(6) [OF assms(1)] kp(3) by (auto simp: free_mem_def)
  let ?m0 = "poke (frame_of (pd_base m)) ?i ?w (m\<lparr>kernel_pool := kp\<rparr>)"
  have sm0: "self_map (m\<lparr>kernel_pool := kp\<rparr>)" "self_map ?m0"
    using sm i(1) by (simp_all add: self_map_def dir_entry_of_def)
  have p0: "pde_at ?m0 va = ?w" by (simp add: pde_at_dir dir_entry_of_def)
  have z: "zero_page (pte_ptr va AND 0xfffff000) ?m0 = Inr m1"
    using zero_table [OF sm0(2), of va, unfolded p0, OF present_or7] wd
    by (simp add: m1_def install_table_def poke_def cong: if_cong)
  have p1: "pde_at m1 va = ?w" by (simp add: pde_at_dir it(2))
  have u1: "page_map m1 (page_of va) = None" using it(3) [OF assms(2)] assms(3) by simp
  have np: "\<not> present (pte_at m1 va)" using page_map_None [of m1 va] u1 by (simp add: p1)
  have sm1: "self_map m1" by (rule paging_okD(1) [OF it(1)])
  have "page_table_add va pa m = Inr (poke (frame_of w) (page_of va mod 1024) (pa OR 7) m1)"
    using assms(6) kp(1) sm np sm1 sm0 z
    by (simp add: page_table_add_def [of va pa m] load_pde load_pte store_pde store_pte p1 present_def [symmetric])
  then show thesis using that [OF kp(2-6)] by (simp add: m1_def)
qed

text \<open>
  \<open>page_table_add\<close> maps exactly one page, with or without a new page table.
\<close>

lemma page_table_add_ok:
  assumes "paging_ok m" "page_of va \<in> low_pages" "page_map m (page_of va) = None"
    "frame_of pa \<notin> free_mem m" "free_frames (kernel_pool m) \<noteq> {}"
  shows "\<exists>m'. page_table_add va pa m = Inr m' \<and> paging_ok m' \<and>
    m' = m\<lparr>ram := ram m', kernel_pool := kernel_pool m'\<rparr> \<and>
    page_map m' (page_of va) = Some (frame_of pa) \<and>
    (\<forall>q \<in> low_pages. \<not> same_entry (page_of va) q \<longrightarrow> page_map m' q = page_map m q) \<and>
    (\<forall>q \<in> low_pages. page_map m' q = page_map m q \<or> slot m' q = slot m' (page_of va)) \<and>
    dir_kept m m' \<and> same_pool (kernel_pool m) (kernel_pool m') \<and>
    free_frames (kernel_pool m') \<subseteq> free_frames (kernel_pool m) \<and>
    tables m' \<subseteq> tables m \<union> free_frames (kernel_pool m) \<and>
    card (free_frames (kernel_pool m)) \<le> card (free_frames (kernel_pool m')) + 1 \<and>
    (\<forall>f. f \<notin> free_mem m \<union> tables m \<union> {frame_of (pd_base m)} \<longrightarrow> ram m' f = ram m f)"
proof (cases "present (pde_at m va)")
  case True
  note add = page_table_add_there [OF assms(1-4) True]
  let ?m' = "poke (frame_of (pde_at m va)) (page_of va mod 1024) (pa OR 7) m"
  show ?thesis
  proof (rule exI [of _ ?m'], intro conjI ballI impI allI)
    show "?m' = m\<lparr>ram := ram ?m', kernel_pool := kernel_pool ?m'\<rparr>" by (simp add: poke_def)
    show "page_map ?m' q = page_map m q \<or> slot ?m' q = slot ?m' (page_of va)" if "q \<in> low_pages" for q
      using add(7) [OF that] by (simp add: slot_def add(6))
    show "dir_kept m ?m'" by (simp add: dir_kept_def add(6))
    show "ram ?m' f = ram m f" if "f \<notin> free_mem m \<union> tables m \<union> {frame_of (pd_base m)}" for f
    proof -
      have "frame_of (pde_at m va) \<in> tables m" using True assms(2) by (auto simp: tables_def pde_at_dir low_page_idx)
      then show ?thesis using that by auto
    qed
  qed (use add(1-5) in \<open>simp_all add: same_pool_def\<close>)
next
  case False
  obtain w kp where kp: "wf_pool kp" "frame_of w \<in> free_frames (kernel_pool m)"
    "pool_frames kp = pool_frames (kernel_pool m)" "free_frames kp = free_frames (kernel_pool m) - {frame_of w}"
    "same_pool (kernel_pool m) kp" "page_table_add va pa m = Inr (poke (frame_of w) (page_of va mod 1024) (pa OR 7)
       (install_table (page_of va div 1024) (w OR 7) kp m))"
    by (rule page_table_add_new [OF assms False])
  let ?i = "page_of va div 1024"
  have i: "?i < 1023" "\<not> present (dir_entry_of m ?i)"
    using assms(2) False by (simp_all add: low_page_idx pde_at_dir)
  define m1 where "m1 = install_table ?i (w OR 7) kp m"
  note it = install_table_ok [OF assms(1) i, of "w OR 7" kp, unfolded frame_of_or7, OF present_or7 kp(2,1,3,4), folded m1_def]
  have p1: "pde_at m1 va = w OR 7" by (simp add: pde_at_dir it(2))
  have u1: "page_map m1 (page_of va) = None" using it(3) [OF assms(2)] assms(3) by simp
  have fm: "frame_of pa \<notin> free_mem m1"
    using assms(4) kp(4) by (auto simp: free_mem_def m1_def install_table_def)
  note add = page_table_add_there [OF it(1) assms(2) u1 fm, unfolded p1, OF present_or7]
  let ?m' = "poke (frame_of w) (page_of va mod 1024) (pa OR 7) m1"
  note a6 = add(6) [unfolded frame_of_or7]
  have k1: "kernel_pool m1 = kp" by (simp add: m1_def install_table_def)
  have wf: "frame_of w \<in> free_mem m" using kp(2) by (simp add: free_mem_def)
  show ?thesis
  proof (rule exI [of _ ?m'], intro conjI ballI impI allI)
    show "page_table_add va pa m = Inr ?m'" using kp(6) by (simp add: m1_def)
    show "paging_ok ?m'" using add(2) by simp
    show "page_map ?m' (page_of va) = Some (frame_of pa)" using add(3) by simp
    show "page_map ?m' q = page_map m q" if "q \<in> low_pages" "\<not> same_entry (page_of va) q" for q
      using add(4) [OF that] it(3) [OF that(1)] by simp
    show "?m' = m\<lparr>ram := ram ?m', kernel_pool := kernel_pool ?m'\<rparr>"
      by (simp add: poke_def m1_def install_table_def)
    show "page_map ?m' q = page_map m q \<or> slot ?m' q = slot ?m' (page_of va)" if "q \<in> low_pages" for q
      using add(7) [OF that] it(3) [OF that] by (simp add: slot_def a6)
    show "dir_kept m ?m'" using i(2) by (simp add: dir_kept_def a6 it(2))
    have "tables m1 \<subseteq> tables m \<union> {frame_of w}" by (auto simp: tables_def it(2))
    then show "tables ?m' \<subseteq> tables m \<union> free_frames (kernel_pool m)" using add(5) kp(2) by auto
    show "card (free_frames (kernel_pool m)) \<le> card (free_frames (kernel_pool ?m')) + 1"
      using kp(2,4) by (simp add: k1 card_Diff_singleton)
    show "ram ?m' f = ram m f" if "f \<notin> free_mem m \<union> tables m \<union> {frame_of (pd_base m)}" for f
      using that wf by (auto simp: m1_def install_table_def)
  qed (use kp(4,5) in \<open>auto simp: k1\<close>)
qed

section \<open>Mapping a range of pages\<close>

lemma page_of_next: "page_of va + 1 < 1048576 \<Longrightarrow> page_of (va + 4096) = page_of va + 1"
  by (simp add: page_of_def unat_word_ariths)

lemma same_entry_near: "same_entry p q \<Longrightarrow> p \<le> q \<Longrightarrow> q < p + 3840 \<Longrightarrow> p = q"
proof -
  assume a: "same_entry p q" "p \<le> q" "q < p + 3840"
  have pq: "p = p div 1024 * 1024 + p mod 1024" "q = q div 1024 * 1024 + q mod 1024" by simp_all
  have "p div 1024 = q div 1024" using a pq by (auto simp: same_entry_def twin_def)
  then show ?thesis using a(1) pq by (simp add: same_entry_def)
qed

lemma same_entry_high: "same_entry p q \<Longrightarrow> 1024 \<le> p \<Longrightarrow> 1024 \<le> q \<Longrightarrow> p = q"
proof -
  assume a: "same_entry p q" "1024 \<le> p" "1024 \<le> q"
  have pq: "p = p div 1024 * 1024 + p mod 1024" "q = q div 1024 * 1024 + q mod 1024" by simp_all
  have "p div 1024 \<noteq> 0" "q div 1024 \<noteq> 0" using a by simp_all
  then show ?thesis using a(1) pq by (auto simp: same_entry_def twin_def)
qed

lemma same_entry_sym: "same_entry p q \<Longrightarrow> same_entry q p"
  by (auto simp: same_entry_def twin_def)

lemma pool_of_set_pool [simp]: "pool_of pf (set_pool pf p m) = p"
  by (cases pf) (simp_all add: pool_of_def set_pool_def)

lemma set_pool_ok:
  assumes "paging_ok m" "wf_pool p" "pool_frames p = pool_frames (pool_of pf m)"
    "free_frames p \<subseteq> free_frames (pool_of pf m)"
  shows "paging_ok (set_pool pf p m)" "page_map (set_pool pf p m) = page_map m"
    "free_mem (set_pool pf p m) \<subseteq> free_mem m"
proof -
  note D = paging_okD [OF assms(1)]
  have d: "dir_entry_of (set_pool pf p m) = dir_entry_of m" "pd_base (set_pool pf p m) = pd_base m"
    "ram (set_pool pf p m) = ram m"
    by (cases pf; simp add: set_pool_def dir_entry_of_def fun_eq_iff)+
  show pm: "page_map (set_pool pf p m) = page_map m" by (simp add: fun_eq_iff page_map_def d)
  show fm: "free_mem (set_pool pf p m) \<subseteq> free_mem m"
    using assms(4) by (cases pf) (auto simp: set_pool_def pool_of_def free_mem_def)
  have t: "tables (set_pool pf p m) = tables m" by (simp add: tables_def d)
  show "paging_ok (set_pool pf p m)"
  proof (rule paging_okI)
    show "f \<notin> free_mem (set_pool pf p m)" if "q \<in> low_pages" "page_map (set_pool pf p m) q = Some f" for q f
      using D(9) [of q f] that fm by (auto simp: pm)
    show "tables (set_pool pf p m) \<inter> free_mem (set_pool pf p m) = {}" using D(7) fm by (auto simp: t)
    show "frame_of (pd_base (set_pool pf p m)) \<notin> free_mem (set_pool pf p m)" using D(6) fm by (auto simp: d)
    show "wf_pool (kernel_pool (set_pool pf p m))" "wf_pool (user_pool (set_pool pf p m))"
      using D(2,3) assms(2) by (cases pf; simp add: set_pool_def)+
    show "pool_frames (kernel_pool (set_pool pf p m)) \<inter> pool_frames (user_pool (set_pool pf p m)) = {}"
      using D(4) assms(3) by (cases pf) (simp_all add: set_pool_def pool_of_def)
  qed (use D in \<open>simp_all add: self_map_def d t\<close>)
qed

text \<open>Frames enough for \<open>n\<close> pages, with a page table for each of them at worst.\<close>

definition frames_for :: "pool_flags \<Rightarrow> nat \<Rightarrow> 'a memk_scheme \<Rightarrow> bool" where
  "frames_for pf n m \<longleftrightarrow> (case pf of
     PF_KERNEL \<Rightarrow> 2 * n \<le> card (free_frames (kernel_pool m))
   | PF_USER \<Rightarrow> n \<le> card (free_frames (user_pool m)) \<and> n \<le> card (free_frames (kernel_pool m)))"

text \<open>What a state that only differs in memory and in the two bitmaps of frames keeps.\<close>

definition mem_step :: "'a memk_scheme \<Rightarrow> 'a memk_scheme \<Rightarrow> bool" where
  "mem_step m m' \<longleftrightarrow> m' = m\<lparr>ram := ram m', kernel_pool := kernel_pool m', user_pool := user_pool m'\<rparr> \<and>
     same_pool (kernel_pool m) (kernel_pool m') \<and> same_pool (user_pool m) (user_pool m')"

lemma mem_step_trans: "mem_step a b \<Longrightarrow> mem_step b c \<Longrightarrow> mem_step a c"
proof -
  assume s: "mem_step a b" "mem_step b c"
  have "c = b\<lparr>ram := ram c, kernel_pool := kernel_pool c, user_pool := user_pool c\<rparr>"
    using s(2) by (simp add: mem_step_def)
  also have "\<dots> = a\<lparr>ram := ram c, kernel_pool := kernel_pool c, user_pool := user_pool c\<rparr>"
  proof -
    obtain r k u where "b = a\<lparr>ram := r, kernel_pool := k, user_pool := u\<rparr>"
      using s(1) unfolding mem_step_def by blast
    then show ?thesis by simp
  qed
  finally show ?thesis using s by (auto simp: mem_step_def intro: same_pool_trans)
qed

lemma alloc_frame:
  assumes "paging_ok m" "frames_for pf (Suc n) m"
  obtains pa p where "palloc (pool_of pf m) = Inr (pa, p)" "pa \<noteq> 0"
    "frame_of pa \<in> free_frames (pool_of pf m)"
    "paging_ok (set_pool pf p m)" "page_map (set_pool pf p m) = page_map m" "mem_step m (set_pool pf p m)"
    "frame_of pa \<notin> free_mem (set_pool pf p m)" "free_frames (kernel_pool (set_pool pf p m)) \<noteq> {}"
    "pf = PF_KERNEL \<Longrightarrow> card (free_frames p) + 1 = card (free_frames (pool_of pf m))"
    "free_frames p = free_frames (pool_of pf m) - {frame_of pa}"
proof -
  have wf: "wf_pool (pool_of pf m)" using paging_okD(2,3) [OF assms(1)] by (cases pf) (simp_all add: pool_of_def)
  have ne: "free_frames (pool_of pf m) \<noteq> {}"
    using assms(2) by (cases pf) (auto simp: frames_for_def pool_of_def)
  obtain pa p where p: "palloc (pool_of pf m) = Inr (pa, p)" "wf_pool p"
    "p = (pool_of pf m)\<lparr>pool_bitmap := pool_bitmap p\<rparr>" "pa \<noteq> 0"
    "frame_of pa \<in> free_frames (pool_of pf m)" "pool_frames p = pool_frames (pool_of pf m)"
    "free_frames p = free_frames (pool_of pf m) - {frame_of pa}"
    using palloc_ok [OF wf ne] by blast
  have c: "card (free_frames p) + 1 = card (free_frames (pool_of pf m))"
    using p(5,7) by (metis Suc_eq_plus1 card_Suc_Diff1 finite_frames(2))
  note sp = set_pool_ok [OF assms(1) p(2,6), unfolded p(7), OF Diff_subset]
  have nf: "frame_of pa \<notin> free_mem (set_pool pf p m)"
    using paging_okD(4) [OF assms(1)] p(5,7) free_pool_frames [of "kernel_pool m"] free_pool_frames [of "user_pool m"]
    by (cases pf) (auto simp: free_mem_def set_pool_def pool_of_def)
  have kf: "free_frames (kernel_pool (set_pool pf p m)) \<noteq> {}"
    using assms(2) c by (cases pf) (auto simp: frames_for_def set_pool_def pool_of_def)
  have "same_pool (pool_of pf m) p" using p(3,6) by (simp add: same_pool_def)
  then have ms: "mem_step m (set_pool pf p m)" by (cases pf) (simp_all add: mem_step_def set_pool_def pool_of_def)
  show thesis using that [OF p(1,4,5) sp(1,2) ms nf kf c p(7)] .
qed

lemma map_pages_ok:
  assumes "paging_ok m" "page_of va + n \<le> 1047552" "n < 3840"
    "\<forall>i < n. page_map m (page_of va + i) = None" "frames_for pf n m"
  shows "\<exists>m' fs. map_pages pf n va m = Inr (True, m') \<and> paging_ok m' \<and> mem_step m m' \<and>
    length fs = n \<and> distinct fs \<and> set fs \<subseteq> free_frames (pool_of pf m) \<and>
    tables m' \<subseteq> tables m \<union> free_mem m - set fs \<and> dir_kept m m' \<and>
    (\<forall>q \<in> low_pages. page_map m' q = page_map m q \<or> (\<exists>i < n. slot m' q = slot m' (page_of va + i))) \<and>
    (\<forall>i < n. page_map m' (page_of va + i) = Some (fs ! i)) \<and>
    (\<forall>q \<in> low_pages. (\<forall>i < n. \<not> same_entry (page_of va + i) q) \<longrightarrow> page_map m' q = page_map m q) \<and>
    (\<forall>f. f \<notin> free_mem m \<union> tables m \<union> {frame_of (pd_base m)} \<longrightarrow> ram m' f = ram m f) \<and>
    free_frames (kernel_pool m') \<subseteq> free_frames (kernel_pool m) \<and>
    free_frames (user_pool m') \<subseteq> free_frames (user_pool m) \<and>
    (pf = PF_KERNEL \<longrightarrow> user_pool m' = user_pool m) \<and>
    (\<forall>k. frames_for pf (n + k) m \<longrightarrow> frames_for pf k m')"
  using assms
proof (induction n arbitrary: va m)
  case 0
  have "mem_step m m" by (simp add: mem_step_def)
  then show ?case using 0 by (simp add: dir_kept_def)
next
  case (Suc n)
  let ?p = "page_of va"
  obtain pa p where p: "palloc (pool_of pf m) = Inr (pa, p)" "pa \<noteq> 0"
    "frame_of pa \<in> free_frames (pool_of pf m)"
    "paging_ok (set_pool pf p m)" "page_map (set_pool pf p m) = page_map m" "mem_step m (set_pool pf p m)"
    "frame_of pa \<notin> free_mem (set_pool pf p m)" "free_frames (kernel_pool (set_pool pf p m)) \<noteq> {}"
    "pf = PF_KERNEL \<Longrightarrow> card (free_frames p) + 1 = card (free_frames (pool_of pf m))"
    "free_frames p = free_frames (pool_of pf m) - {frame_of pa}"
    by (rule alloc_frame [OF Suc.prems(1,5)]) blast
  let ?m1 = "set_pool pf p m"
  have low: "?p \<in> low_pages" using Suc.prems(2) by (simp add: low_page_idx)
  have un: "page_map ?m1 ?p = None" using Suc.prems(4) p(5) by (metis add_0_right zero_less_Suc)
  obtain m2 where m2: "page_table_add va pa ?m1 = Inr m2" "paging_ok m2"
    "m2 = ?m1\<lparr>ram := ram m2, kernel_pool := kernel_pool m2\<rparr>"
    "page_map m2 ?p = Some (frame_of pa)"
    "\<And>q. q \<in> low_pages \<Longrightarrow> \<not> same_entry ?p q \<Longrightarrow> page_map m2 q = page_map m q"
    "same_pool (kernel_pool ?m1) (kernel_pool m2)"
    "free_frames (kernel_pool m2) \<subseteq> free_frames (kernel_pool ?m1)"
    "card (free_frames (kernel_pool ?m1)) \<le> card (free_frames (kernel_pool m2)) + 1"
    "tables m2 \<subseteq> tables ?m1 \<union> free_frames (kernel_pool ?m1)"
    "\<And>q. q \<in> low_pages \<Longrightarrow> page_map m2 q = page_map m q \<or> slot m2 q = slot m2 ?p" "dir_kept ?m1 m2"
    "\<And>f. f \<notin> free_mem ?m1 \<union> tables ?m1 \<union> {frame_of (pd_base ?m1)} \<Longrightarrow> ram m2 f = ram ?m1 f"
    using page_table_add_ok [OF p(4) low un p(7,8)] unfolding p(5) by blast
  have u2: "user_pool m2 = user_pool ?m1" by (subst m2(3)) simp
  have ms: "mem_step ?m1 m2" using m2(3,6) u2 by (simp add: mem_step_def)
  have dk: "dir_kept m m2" using m2(11) by (cases pf) (simp_all add: dir_kept_def dir_entry_of_def set_pool_def)
  have t1: "tables ?m1 = tables m" "free_mem ?m1 \<subseteq> free_mem m"
    using p(10) by (cases pf; auto simp: tables_def dir_entry_of_def set_pool_def free_mem_def pool_of_def)+
  have nt: "frame_of pa \<notin> tables m"
    using p(3) paging_okD(7) [OF Suc.prems(1)] by (cases pf) (auto simp: free_mem_def pool_of_def)
  have t2: "tables m2 \<subseteq> tables m \<union> free_mem m - {frame_of pa}" "free_mem m2 \<subseteq> free_mem m - {frame_of pa}"
  proof -
    have "free_frames (kernel_pool ?m1) \<subseteq> free_mem ?m1" by (simp add: free_mem_def)
    then show "tables m2 \<subseteq> tables m \<union> free_mem m - {frame_of pa}" using m2(9) t1 nt p(7) by blast
    have "free_mem m2 \<subseteq> free_mem ?m1" using m2(7) u2 by (auto simp: free_mem_def)
    then show "free_mem m2 \<subseteq> free_mem m - {frame_of pa}" using t1 p(7) by blast
  qed
  have pd2: "pd_base m2 = pd_base m" by (subst m2(3)) (cases pf; simp add: set_pool_def)
  have r2: "ram m2 f = ram m f" if "f \<notin> free_mem m \<union> tables m \<union> {frame_of (pd_base m)}" for f
  proof -
    have "pd_base ?m1 = pd_base m" "ram ?m1 = ram m" by (cases pf; simp add: set_pool_def)+
    then show ?thesis using m2(12) [of f] t1 that by auto
  qed
  have ff: "frames_for pf k m2" if "frames_for pf (Suc k) m" for k
    using that m2(7,8) p(9) u2 p(3,10)
    by (cases pf) (auto simp: frames_for_def set_pool_def pool_of_def card_Diff_singleton)
  have sub2: "free_frames (kernel_pool m2) \<subseteq> free_frames (kernel_pool m)" "free_frames (user_pool m2) \<subseteq> free_frames (user_pool m)"
    "pf = PF_KERNEL \<longrightarrow> user_pool m2 = user_pool m"
    using m2(7) u2 p(10) by (cases pf; auto simp: set_pool_def pool_of_def)+
  show ?case
  proof (cases "n = 0")
    case True
    then show ?thesis using p m2(1,2,4,5,10) t2(1) dk mem_step_trans [OF p(6) ms] r2 ff sub2
      by (intro exI [of _ m2] exI [of _ "[frame_of pa]"]) simp
  next
    case False
    have pn: "page_of (va + 4096) = ?p + 1" using page_of_next Suc.prems(2) by simp
    have un2: "\<forall>i < n. page_map m2 (page_of (va + 4096) + i) = None"
    proof (intro allI impI)
      fix i assume i: "i < n"
      have "\<not> same_entry ?p (?p + Suc i)" using same_entry_near [of ?p "?p + Suc i"] i Suc.prems(3) by auto
      moreover have "?p + Suc i \<in> low_pages" using i Suc.prems(2) by (simp add: low_page_idx)
      ultimately have "page_map m2 (?p + Suc i) = page_map m (?p + Suc i)" by (rule m2(5) [rotated])
      then show "page_map m2 (page_of (va + 4096) + i) = None" using Suc.prems(4) [rule_format, of "Suc i"] i pn by simp
    qed
    obtain m' fs where r: "map_pages pf n (va + 4096) m2 = Inr (True, m')" "paging_ok m'" "mem_step m2 m'"
      "length fs = n" "distinct fs" "set fs \<subseteq> free_frames (pool_of pf m2)"
      "\<forall>i < n. page_map m' (?p + 1 + i) = Some (fs ! i)"
      "\<forall>q \<in> low_pages. (\<forall>i < n. \<not> same_entry (?p + 1 + i) q) \<longrightarrow> page_map m' q = page_map m2 q"
      "tables m' \<subseteq> tables m2 \<union> free_mem m2 - set fs" "dir_kept m2 m'"
      "\<forall>q \<in> low_pages. page_map m' q = page_map m2 q \<or> (\<exists>i < n. slot m' q = slot m' (?p + 1 + i))"
      "\<And>f. f \<notin> free_mem m2 \<union> tables m2 \<union> {frame_of (pd_base m2)} \<Longrightarrow> ram m' f = ram m2 f"
      "free_frames (kernel_pool m') \<subseteq> free_frames (kernel_pool m2)" "free_frames (user_pool m') \<subseteq> free_frames (user_pool m2)"
      "pf = PF_KERNEL \<longrightarrow> user_pool m' = user_pool m2" "\<forall>k. frames_for pf (n + k) m2 \<longrightarrow> frames_for pf k m'"
      using Suc.IH [OF m2(2) _ _ un2 ff [OF Suc.prems(5)]] Suc.prems(2,3) unfolding pn by auto
    have sub: "free_frames (pool_of pf m2) \<subseteq> free_frames (pool_of pf m) - {frame_of pa}"
      using m2(7) u2 p(10) by (cases pf) (auto simp: set_pool_def pool_of_def)
    have stay: "page_map m' ?p = Some (frame_of pa)"
    proof -
      have "\<forall>i < n. \<not> same_entry (?p + 1 + i) ?p"
      proof (intro allI impI notI)
        fix i assume i: "i < n" and "same_entry (?p + 1 + i) ?p"
        from \<open>same_entry (?p + 1 + i) ?p\<close> have "same_entry ?p (?p + 1 + i)" by (rule same_entry_sym)
        from same_entry_near [OF this] i Suc.prems(3) show False by simp
      qed
      then show ?thesis using r(8) low m2(4) by simp
    qed
    have sl: "page_map m' q = page_map m q \<or> (\<exists>i < Suc n. slot m' q = slot m' (?p + i))"
      if q: "q \<in> low_pages" for q
    proof (cases "page_map m' q = page_map m2 q \<and> page_map m2 q \<noteq> page_map m q")
      case True
      then have s2: "slot m2 q = slot m2 ?p" using m2(10) [OF q] by blast
      have "present (dir_entry_of m2 (?p div 1024))" by (rule page_map_present) (simp add: m2(4))
      then have pp: "slot m' ?p = slot m2 ?p" by (rule dir_kept_slot [OF r(10)])
      have "present (dir_entry_of m2 (q div 1024))"
      proof (rule ccontr)
        assume "\<not> ?thesis"
        moreover from this have "\<not> present (dir_entry_of m (q div 1024))" using dk unfolding dir_kept_def by metis
        ultimately show False using True by (simp add: page_map_def)
      qed
      then have "slot m' q = slot m2 q" by (rule dir_kept_slot [OF r(10)])
      then have "slot m' q = slot m' (?p + 0)" using s2 pp by simp
      then show ?thesis by blast
    next
      case False
      then show ?thesis using r(11) q by (metis Suc_less_eq add.assoc plus_1_eq_Suc)
    qed
    have dk': "dir_kept m m'" using dk r(10) unfolding dir_kept_def by metis
    have at: "\<forall>i < Suc n. page_map m' (?p + i) = Some ((frame_of pa # fs) ! i)"
      using r(7) stay by (auto simp: less_Suc_eq_0_disj)
    have other: "page_map m' q = page_map m q"
      if "q \<in> low_pages" "\<forall>i < Suc n. \<not> same_entry (?p + i) q" for q
    proof -
      have "\<not> same_entry ?p q" using that(2) by (metis add_0_right zero_less_Suc)
      moreover have "\<forall>i < n. \<not> same_entry (?p + 1 + i) q" using that(2) by (metis Suc_less_eq add.assoc plus_1_eq_Suc)
      ultimately show ?thesis using r(8) m2(5) that(1) by simp
    qed
    show ?thesis
    proof (intro exI conjI ballI impI allI)
      show "map_pages pf (Suc n) va m = Inr (True, m')" using p(1,2) m2(1) r(1) by simp
      show "paging_ok m'" by (rule r(2))
      show "mem_step m m'" by (rule mem_step_trans [OF p(6) mem_step_trans [OF ms r(3)]])
      show "length (frame_of pa # fs) = Suc n" "distinct (frame_of pa # fs)"
        "set (frame_of pa # fs) \<subseteq> free_frames (pool_of pf m)"
        using r(4-6) sub p(3) by auto
      show "page_map m' (?p + i) = Some ((frame_of pa # fs) ! i)" if "i < Suc n" for i using at that by blast
      show "tables m' \<subseteq> tables m \<union> free_mem m - set (frame_of pa # fs)" using r(9) t2 by auto
      show "ram m' f = ram m f" if "f \<notin> free_mem m \<union> tables m \<union> {frame_of (pd_base m)}" for f
        using r(12) [of f] r2 [OF that] t2 that by (auto simp: pd2)
      show "frames_for pf k m'" if "frames_for pf (Suc n + k) m" for k using r(16) ff [of "n + k"] that by simp
      show "pf = PF_KERNEL \<Longrightarrow> user_pool m' = user_pool m" using r(15) sub2(3) by simp
      show "free_frames (kernel_pool m') \<subseteq> free_frames (kernel_pool m)" "free_frames (user_pool m') \<subseteq> free_frames (user_pool m)"
        using r(13,14) sub2 by auto
    qed (use other sl dk' in blast)+
  qed
qed

section \<open>Ranges of virtual addresses\<close>

lemma set_bits_ok:
  assumes "wf_bitmap b" "i + n \<le> nbits b" "v \<le> 1"
  shows "\<exists>b'. set_bits b i n v = Inr b' \<and> wf_bitmap b' \<and> nbits b' = nbits b \<and>
    used b' = (if v = 1 then used b \<union> {i..<i + n} else used b - {i..<i + n})"
  using assms
proof (induction n arbitrary: b i)
  case 0
  then show ?case by simp
next
  case (Suc n)
  obtain b1 where b1: "bitmap_set b i v = Inr b1" "wf_bitmap b1" "nbits b1 = nbits b"
    "used b1 = (if v = 1 then insert i (used b) else used b - {i})"
    using bitmap_set_used_ex [OF Suc.prems(1) _ Suc.prems(3), of i] Suc.prems(2) by auto
  obtain b' where "set_bits b1 (Suc i) n v = Inr b'" "wf_bitmap b'" "nbits b' = nbits b1"
    "used b' = (if v = 1 then used b1 \<union> {Suc i..<Suc i + n} else used b1 - {Suc i..<Suc i + n})"
    using Suc.IH [OF b1(2), of "Suc i"] Suc.prems(2,3) b1(3) by auto
  moreover have "{i..<i + Suc n} = insert i {Suc i..<Suc i + n}" by auto
  ultimately show ?case using b1 by auto
qed

text \<open>
  The pool of virtual addresses agrees with the page tables: a page whose bit is clear is
  not mapped. The pool of a process goes up to 3 GB, and its last page, the one of the stack that
  \<open>start_process\<close> sets up, is in use.
\<close>

definition vpool_ok :: "pool_flags \<Rightarrow> 'a memk_scheme \<Rightarrow> bool" where
  "vpool_ok pf m \<longleftrightarrow> (let vp = vpool_of pf m; b = vaddr_bitmap vp; p = page_of (vaddr_start vp) in
     wf_bitmap b \<and> 1024 \<le> p \<and> unat (vaddr_start vp) mod 4096 = 0 \<and>
     p + nbits b \<le> (if pf = PF_USER then 786432 else 1047552) \<and>
     (pf = PF_USER \<longrightarrow> (\<forall>i < nbits b. p + i = 786431 \<longrightarrow> i \<in> used b)) \<and>
     (\<forall>i < nbits b. i \<notin> used b \<longrightarrow> page_map m (p + i) = None))"

lemma page_addr:
  assumes "unat v mod 4096 = 0" "page_of v + i < 1048576"
  shows "unat (v + of_nat i * 4096) = (page_of v + i) * 4096" "page_of (v + of_nat i * 4096) = page_of v + i"
proof -
  have s: "unat v = page_of v * 4096"
    using assms(1) div_mult_mod_eq [of "unat v" 4096] by (simp add: page_of_def)
  have le: "(page_of v + i) * 4096 < 2 ^ 32" using assms(2) by simp
  then have "unat (of_nat i * 4096 :: u32) = i * 4096"
    using unsigned_of_nat [of "i * 4096", where 'a = nat and 'b = 32] by (simp add: take_bit_nat_eq_self)
  then show a: "unat (v + of_nat i * 4096) = (page_of v + i) * 4096"
    using le by (simp add: unat_word_ariths(1) s add_mult_distrib)
  then show "page_of (v + of_nat i * 4096) = page_of v + i" by (simp add: page_of_def)
qed

lemma running_set_vpool [simp]: "running_thread (set_vpool pf v m) = running_thread m"
  by (cases pf) (simp_all add: set_vpool_def running_thread_def)

lemma vpool_of_set [simp]: "vpool_of pf (set_vpool pf v m) = v"
  by (cases pf) (simp_all add: vpool_of_def set_vpool_def running_thread_def)

lemma set_vpool_paging [simp]:
  "paging_ok (set_vpool pf v m) = paging_ok m" "page_map (set_vpool pf v m) = page_map m"
  "pool_of pf' (set_vpool pf v m) = pool_of pf' m" "frames_for pf' n (set_vpool pf v m) = frames_for pf' n m"
proof -
  have f: "ram (set_vpool pf v m) = ram m" "pd_base (set_vpool pf v m) = pd_base m"
    "kernel_pool (set_vpool pf v m) = kernel_pool m" "user_pool (set_vpool pf v m) = user_pool m"
    by (cases pf; simp add: set_vpool_def)+
  have d: "dir_entry_of (set_vpool pf v m) = dir_entry_of m" by (simp add: fun_eq_iff dir_entry_of_def f)
  show pm: "page_map (set_vpool pf v m) = page_map m" by (simp add: fun_eq_iff page_map_def d f)
  show "pool_of pf' (set_vpool pf v m) = pool_of pf' m" by (cases pf') (simp_all add: pool_of_def f)
  show "frames_for pf' n (set_vpool pf v m) = frames_for pf' n m"
    by (cases pf') (simp_all add: frames_for_def f)
  show "paging_ok (set_vpool pf v m) = paging_ok m"
    by (simp add: paging_ok_def self_map_def tables_def free_mem_def d f pm)
qed

text \<open>A free run of the pool of a process ends below the page of the stack.\<close>

lemma free_run_below_stack:
  assumes "vpool_ok pf m" "pf = PF_USER" "0 < n" "free_run (vaddr_bitmap (vpool_of pf m)) s n"
  shows "page_of (vaddr_start (vpool_of pf m)) + s + n \<le> 786431"
proof -
  let ?p = "page_of (vaddr_start (vpool_of pf m))" and ?b = "vaddr_bitmap (vpool_of pf m)"
  have top: "?p + nbits ?b \<le> 786432" "\<And>i. i < nbits ?b \<Longrightarrow> ?p + i = 786431 \<Longrightarrow> i \<in> used ?b"
    using assms(1,2) by (simp_all add: vpool_ok_def Let_def)
  have run: "s + n \<le> nbits ?b" "s + n - 1 \<notin> used ?b" using assms(3,4) by (auto simp: free_run_def used_def)
  have "s + n - 1 < nbits ?b" using run(1) assms(3) by linarith
  then have "?p + (s + n - 1) \<noteq> 786431" using top(2) run(2) by blast
  then show ?thesis using top(1) run(1) assms(3) by linarith
qed

lemma vaddr_get_ok:
  assumes "vpool_ok pf m" "0 < n" "\<exists>s. free_run (vaddr_bitmap (vpool_of pf m)) s n"
  obtains va b s where "vaddr_get pf n m = Inr (va, set_vpool pf ((vpool_of pf m)\<lparr>vaddr_bitmap := b\<rparr>) m)"
    "va \<noteq> 0" "unat va mod 4096 = 0" "page_of va = page_of (vaddr_start (vpool_of pf m)) + s"
    "free_run (vaddr_bitmap (vpool_of pf m)) s n" "wf_bitmap b"
    "nbits b = nbits (vaddr_bitmap (vpool_of pf m))" "used b = used (vaddr_bitmap (vpool_of pf m)) \<union> {s..<s + n}"
proof -
  let ?vp = "vpool_of pf m" let ?b = "vaddr_bitmap ?vp"
  have wf: "wf_bitmap ?b" "1024 \<le> page_of (vaddr_start ?vp)" "unat (vaddr_start ?vp) mod 4096 = 0"
    "page_of (vaddr_start ?vp) + nbits ?b \<le> (if pf = PF_USER then 786432 else 1047552)"
    using assms(1) by (simp_all add: vpool_ok_def Let_def)
  obtain s0 where "free_run ?b s0 n" using assms(3) by blast
  then have "s0 < nbits ?b" "s0 \<notin> used ?b" using assms(2) by (auto simp: free_run_def used_def)
  then have "used ?b \<noteq> {..<nbits ?b}" by auto
  then obtain s where s: "bitmap_scan ?b n = Inr (int s)" "free_run ?b s n"
    using bitmap_scan_first_fit [OF wf(1), of n] assms(2,3) by auto
  have le: "s + n \<le> nbits ?b" using s(2) by (simp add: free_run_def)
  obtain b where b: "set_bits ?b s n 1 = Inr b" "wf_bitmap b" "nbits b = nbits ?b"
    "used b = used ?b \<union> {s..<s + n}" using set_bits_ok [OF wf(1) le, of 1] by auto
  let ?va = "vaddr_start ?vp + of_nat s * 4096"
  have lt: "page_of (vaddr_start ?vp) + s < 1048576" using wf(4) le assms(2) by (simp split: if_splits)
  note va = page_addr [OF wf(3) lt]
  have ne: "?va \<noteq> 0" using va(2) wf(2) by (auto simp: page_of_def)
  have "?va < 0xc0000000 - 4096" if "pf = PF_USER"
  proof -
    have "unat ?va < 786431 * 4096"
      using free_run_below_stack [OF assms(1) that assms(2) s(2)] assms(2) va(1) by simp
    then show ?thesis by (simp add: word_less_nat_alt)
  qed
  then have "vaddr_get pf n m = Inr (?va, set_vpool pf (?vp\<lparr>vaddr_bitmap := b\<rparr>) m)"
    using s(1) b(1) by (simp add: vaddr_get_def Let_def)
  then show thesis using that ne va s(2) b(2-4) by simp
qed

text \<open>
  The pages from \<open>p\<close> on are mapped to the frames \<open>fs\<close>, and nothing else uses these frames.
\<close>

definition frames_owned :: "'a memk_scheme \<Rightarrow> nat \<Rightarrow> nat list \<Rightarrow> bool" where
  "frames_owned m p fs \<longleftrightarrow> distinct fs \<and> set fs \<inter> tables m = {} \<and> frame_of (pd_base m) \<notin> set fs \<and>
     (\<forall>i < length fs. page_map m (p + i) = Some (fs ! i)) \<and>
     (\<forall>q \<in> low_pages. \<forall>f \<in> set fs. page_map m q = Some f \<longrightarrow> (\<exists>i < length fs. slot m q = slot m (p + i)))"

lemma frames_owned_only:
  assumes "paging_ok m" "frames_owned m p fs" "1024 \<le> p" "p + length fs \<le> 1047552" "q \<in> low_pages"
    "f \<in> set fs" "page_map m q = Some f"
  shows "q \<in> {p..<p + length fs} \<or> q < 1024 \<and> q + 786432 \<in> {p..<p + length fs}"
proof -
  obtain i where i: "i < length fs" "slot m q = slot m (p + i)"
    using assms(2,5-7) unfolding frames_owned_def by blast
  have "page_map m (p + i) = Some (fs ! i)" using assms(2) i(1) by (simp add: frames_owned_def)
  then have pr: "present (dir_entry_of m (q div 1024))" "present (dir_entry_of m ((p + i) div 1024))"
    using page_map_present [of m q] page_map_present [of m "p + i"] assms(7) by simp_all
  have lt: "q div 1024 < 1023" "(p + i) div 1024 < 1023" using assms(4,5) i(1) by (simp_all add: low_pages_def)
  have "q mod 1024 = (p + i) mod 1024" using i(2) by (simp add: slot_def)
  moreover have "q div 1024 = (p + i) div 1024 \<or> twin (q div 1024) ((p + i) div 1024)"
    using paging_okD(8) [OF assms(1) lt pr] i(2) by (simp add: slot_def)
  ultimately have same: "same_entry q (p + i)" by (simp add: same_entry_def)
  show ?thesis
  proof (cases "1024 \<le> q")
    case True
    then have "q = p + i" using same_entry_high [OF same] assms(3) by simp
    then show ?thesis using i(1) by simp
  next
    case False
    then have "q div 1024 = 0" by simp
    then have "(p + i) div 1024 = 768" using same assms(3) by (auto simp: same_entry_def twin_def)
    then have "p + i = 786432 + (p + i) mod 1024" using div_mult_mod_eq [of "p + i" 1024] by simp
    moreover have "q = (p + i) mod 1024" using False same by (simp add: same_entry_def)
    ultimately show ?thesis using i(1) False by simp
  qed
qed

text \<open>A page request that is served.\<close>

lemma malloc_page_ok:
  assumes "paging_ok m" "vpool_ok pf m" "0 < n" "n < 3840"
    "\<exists>s. free_run (vaddr_bitmap (vpool_of pf m)) s n" "frames_for pf n m"
  shows "\<exists>va m' fs s. malloc_page pf n m = Inr (va, m') \<and> va \<noteq> 0 \<and> unat va mod 4096 = 0 \<and>
    paging_ok m' \<and> vpool_ok pf m' \<and> length fs = n \<and> set fs \<subseteq> free_frames (pool_of pf m) \<and>
    page_of va = page_of (vaddr_start (vpool_of pf m)) + s \<and> vaddr_start (vpool_of pf m') = vaddr_start (vpool_of pf m) \<and>
    free_run (vaddr_bitmap (vpool_of pf m)) s n \<and>
    nbits (vaddr_bitmap (vpool_of pf m')) = nbits (vaddr_bitmap (vpool_of pf m)) \<and>
    used (vaddr_bitmap (vpool_of pf m')) = used (vaddr_bitmap (vpool_of pf m)) \<union> {s..<s + n} \<and>
    same_pool (kernel_pool m) (kernel_pool m') \<and> same_pool (user_pool m) (user_pool m') \<and>
    frames_owned m' (page_of va) fs \<and> (\<forall>i < n. page_map m (page_of va + i) = None) \<and>
    (\<forall>q \<in> low_pages. 1024 \<le> q \<and> q \<notin> {page_of va..<page_of va + n} \<longrightarrow> page_map m' q = page_map m q) \<and>
    tables m' \<subseteq> tables m \<union> free_mem m - set fs \<and>
    (\<forall>f. f \<notin> free_mem m \<union> tables m \<union> {frame_of (pd_base m)} \<longrightarrow> ram m' f = ram m f) \<and>
    free_frames (kernel_pool m') \<subseteq> free_frames (kernel_pool m) \<and>
    free_frames (user_pool m') \<subseteq> free_frames (user_pool m) \<and>
    (pf = PF_KERNEL \<longrightarrow> user_pool m' = user_pool m) \<and>
    (\<forall>k. frames_for pf (n + k) m \<longrightarrow> frames_for pf k m') \<and>
    (\<exists>v. m' = (set_vpool pf v m)\<lparr>ram := ram m', kernel_pool := kernel_pool m', user_pool := user_pool m'\<rparr>)"
proof -
  let ?vp = "vpool_of pf m" let ?s0 = "page_of (vaddr_start ?vp)"
  obtain va b s where va: "vaddr_get pf n m = Inr (va, set_vpool pf (?vp\<lparr>vaddr_bitmap := b\<rparr>) m)"
    "va \<noteq> 0" "unat va mod 4096 = 0" "page_of va = ?s0 + s" "free_run (vaddr_bitmap ?vp) s n" "wf_bitmap b"
    "nbits b = nbits (vaddr_bitmap ?vp)" "used b = used (vaddr_bitmap ?vp) \<union> {s..<s + n}"
    by (rule vaddr_get_ok [OF assms(2,3,5)]) (rule that)
  let ?m1 = "set_vpool pf (?vp\<lparr>vaddr_bitmap := b\<rparr>) m"
  have V: "?s0 + nbits (vaddr_bitmap ?vp) \<le> (if pf = PF_USER then 786432 else 1047552)" "1024 \<le> ?s0"
    "unat (vaddr_start ?vp) mod 4096 = 0"
    "\<And>i. i < nbits (vaddr_bitmap ?vp) \<Longrightarrow> i \<notin> used (vaddr_bitmap ?vp) \<Longrightarrow> page_map m (?s0 + i) = None"
    "pf = PF_USER \<longrightarrow> (\<forall>i < nbits (vaddr_bitmap ?vp). ?s0 + i = 786431 \<longrightarrow> i \<in> used (vaddr_bitmap ?vp))"
    using assms(2) by (simp_all add: vpool_ok_def Let_def)
  have le: "s + n \<le> nbits (vaddr_bitmap ?vp)" using va(5) by (simp add: free_run_def)
  have un: "\<forall>i < n. page_map m (page_of va + i) = None"
    using V(4) va(4,5) by (auto simp: free_run_def used_def add.assoc)
  have top: "page_of va + n \<le> 1047552" using V(1) le va(4) by (simp split: if_splits)
  have m1: "free_mem ?m1 = free_mem m" "tables ?m1 = tables m" "pd_base ?m1 = pd_base m"
    "kernel_pool ?m1 = kernel_pool m" "user_pool ?m1 = user_pool m" "ram ?m1 = ram m"
    by (cases pf; simp add: set_vpool_def free_mem_def tables_def dir_entry_of_def)+
  obtain m' fs where m': "map_pages pf n va ?m1 = Inr (True, m')" "paging_ok m'" "mem_step ?m1 m'"
    "length fs = n" "distinct fs" "set fs \<subseteq> free_frames (pool_of pf m)"
    "\<forall>i < n. page_map m' (page_of va + i) = Some (fs ! i)"
    "\<forall>q \<in> low_pages. (\<forall>i < n. \<not> same_entry (page_of va + i) q) \<longrightarrow> page_map m' q = page_map m q"
    "tables m' \<subseteq> tables m \<union> free_mem m - set fs"
    "\<forall>q \<in> low_pages. page_map m' q = page_map m q \<or> (\<exists>i < n. slot m' q = slot m' (page_of va + i))"
    "\<forall>f. f \<notin> free_mem m \<union> tables m \<union> {frame_of (pd_base m)} \<longrightarrow> ram m' f = ram m f"
    "free_frames (kernel_pool m') \<subseteq> free_frames (kernel_pool m)" "free_frames (user_pool m') \<subseteq> free_frames (user_pool m)"
    "pf = PF_KERNEL \<longrightarrow> user_pool m' = user_pool m" "\<forall>k. frames_for pf (n + k) m \<longrightarrow> frames_for pf k m'"
    using map_pages_ok [of ?m1 va n pf, unfolded m1 set_vpool_paging, OF assms(1) top assms(4) un assms(6)]
    by (elim exE conjE) (rule that)
  obtain r k u where upd: "m' = ?m1\<lparr>ram := r, kernel_pool := k, user_pool := u\<rparr>"
    using m'(3) unfolding mem_step_def by blast
  have shape: "\<exists>v. m' = (set_vpool pf v m)\<lparr>ram := ram m', kernel_pool := kernel_pool m', user_pool := user_pool m'\<rparr>"
    by (rule exI [of _ "?vp\<lparr>vaddr_bitmap := b\<rparr>"]) (simp add: upd)
  have vp': "vpool_of pf m' = ?vp\<lparr>vaddr_bitmap := b\<rparr>" "pd_base m' = pd_base m"
    by (cases pf; simp add: upd vpool_of_def set_vpool_def running_thread_def)+
  have other: "page_map m' q = page_map m q"
    if "q \<in> low_pages" "1024 \<le> q" "q \<notin> {page_of va..<page_of va + n}" for q
  proof -
    have "\<not> same_entry (page_of va + i) q" if i: "i < n" for i
      using same_entry_high [of "page_of va + i" q] V(2) va(4) \<open>1024 \<le> q\<close> \<open>q \<notin> _\<close> i by auto
    then show ?thesis using m'(8) that(1) by blast
  qed
  have un': "page_map m' (?s0 + i) = None" if i: "i < nbits b" "i \<notin> used b" for i
  proof -
    have "?s0 + i \<notin> {page_of va..<page_of va + n}" using i va(4,8) by auto
    moreover have "?s0 + i \<in> low_pages" using i(1) V(1) va(7) by (simp add: low_page_idx split: if_splits)
    ultimately have "page_map m' (?s0 + i) = page_map m (?s0 + i)" using other V(2) by simp
    then show ?thesis using V(4) i va(7,8) by simp
  qed
  have free: "set fs \<subseteq> free_mem m" using m'(6) by (cases pf) (auto simp: free_mem_def pool_of_def)
  have frames_owned: "frames_owned m' (page_of va) fs"
    unfolding frames_owned_def
  proof (intro conjI ballI impI)
    show "frame_of (pd_base m') \<notin> set fs" using paging_okD(6) [OF assms(1)] free vp'(2) by auto
    show "\<exists>i < length fs. slot m' q = slot m' (page_of va + i)"
      if "q \<in> low_pages" "f \<in> set fs" "page_map m' q = Some f" for q f
      using that m'(4,10) paging_okD(9) [OF assms(1) that(1), of f] free by (metis subsetD)
  qed (use m' in auto)
  have "vpool_ok pf m'" using V(1-3,5) va(6,7,8) un' by (simp add: vpool_ok_def vp' Let_def)
  moreover have "malloc_page pf n m = Inr (va, m')"
    using assms(3,4) va(1,2) m'(1) by (simp add: malloc_page_def)
  moreover have "same_pool (kernel_pool m) (kernel_pool m')" "same_pool (user_pool m) (user_pool m')"
    using m'(3) by (simp_all add: mem_step_def m1)
  ultimately show ?thesis using frames_owned other un va(2-5,7,8) m'(2,4,6,9,11-15) shape
    by (intro exI [of _ va] exI [of _ m'] exI [of _ fs] exI [of _ s]) (simp add: vp')
qed

section \<open>Giving pages back\<close>

text \<open>The kernel's frames lie below the user's, and behind the page tables at 1 MB.\<close>

definition pools_split :: "'a memk_scheme \<Rightarrow> bool" where
  "pools_split m \<longleftrightarrow> 0x102 \<le> frame_of (phy_addr_start (kernel_pool m)) \<and>
     frame_of (phy_addr_start (kernel_pool m)) + nbits (pool_bitmap (kernel_pool m)) \<le>
       frame_of (phy_addr_start (user_pool m))"

lemma frame_le: "unat b mod 4096 = 0 \<Longrightarrow> b \<le> a \<longleftrightarrow> frame_of b \<le> frame_of a"
proof -
  assume b: "unat b mod 4096 = 0"
  have e: "unat b = unat b div 4096 * 4096" "unat a = unat a div 4096 * 4096 + unat a mod 4096"
    using b div_mult_mod_eq [of "unat b" 4096] by simp_all
  have "unat a mod 4096 < 4096" by simp
  then have "unat b \<le> unat a \<longleftrightarrow> unat b div 4096 \<le> unat a div 4096" using e by linarith
  then show "b \<le> a \<longleftrightarrow> frame_of b \<le> frame_of a" by (simp add: word_le_nat_alt frame_of_div)
qed

lemma bitmap_set_frame:
  assumes "wf_pool p" "f \<in> pool_frames p" "unat pa = f * 4096"
  shows "\<exists>b. bitmap_set (pool_bitmap p) (unat (pa - phy_addr_start p) div 4096) 0 = Inr b \<and>
    wf_pool (p\<lparr>pool_bitmap := b\<rparr>) \<and> same_pool p (p\<lparr>pool_bitmap := b\<rparr>) \<and>
    free_frames (p\<lparr>pool_bitmap := b\<rparr>) = insert f (free_frames p)"
proof -
  obtain i where i: "i < nbits (pool_bitmap p)" "f = frame_nr p i" using assms(2) by (auto simp: pool_frames_def)
  have st: "unat (phy_addr_start p) = frame_of (phy_addr_start p) * 4096"
    using assms(1) div_mult_mod_eq [of "unat (phy_addr_start p)" 4096] by (simp add: wf_pool_def frame_of_div)
  have "phy_addr_start p \<le> pa" by (simp add: word_le_nat_alt st assms(3) i(2) frame_nr_def)
  then have "unat (pa - phy_addr_start p) = i * 4096"
    using st assms(3) i(2) by (simp add: unat_sub frame_nr_def add_mult_distrib)
  then have idx: "unat (pa - phy_addr_start p) div 4096 = i" by simp
  obtain b where b: "bitmap_set (pool_bitmap p) i 0 = Inr b" "wf_bitmap b" "nbits b = nbits (pool_bitmap p)"
    "used b = used (pool_bitmap p) - {i}"
    using bitmap_set_used_ex [of "pool_bitmap p" i 0] assms(1) i(1) by (auto simp: wf_pool_def)
  have fr: "frame_nr (p\<lparr>pool_bitmap := b\<rparr>) = frame_nr p" by (simp add: fun_eq_iff frame_nr_def)
  have "{j. j < nbits b \<and> j \<notin> used b} = insert i {j. j < nbits (pool_bitmap p) \<and> j \<notin> used (pool_bitmap p)}"
    using b i(1) by auto
  then have "free_frames (p\<lparr>pool_bitmap := b\<rparr>) = insert f (free_frames p)"
    by (simp add: free_frames_def fr i(2))
  then show ?thesis using b assms(1) by (simp add: idx wf_pool_def same_pool_def pool_frames_def fr)
qed

lemma set_pool_free_ok:
  assumes "paging_ok m" "wf_pool p" "same_pool (pool_of pf m) p"
    "free_frames p = insert f (free_frames (pool_of pf m))"
    "f \<notin> tables m" "f \<noteq> frame_of (pd_base m)" "\<forall>q \<in> low_pages. page_map m q \<noteq> Some f"
  shows "paging_ok (set_pool pf p m)" "page_map (set_pool pf p m) = page_map m"
    "tables (set_pool pf p m) = tables m"
proof -
  note D = paging_okD [OF assms(1)]
  have d: "dir_entry_of (set_pool pf p m) = dir_entry_of m" "pd_base (set_pool pf p m) = pd_base m"
    "ram (set_pool pf p m) = ram m"
    by (cases pf; simp add: set_pool_def dir_entry_of_def fun_eq_iff)+
  show pm: "page_map (set_pool pf p m) = page_map m" by (simp add: fun_eq_iff page_map_def d)
  have fm: "free_mem (set_pool pf p m) = insert f (free_mem m)"
    using assms(4) by (cases pf) (auto simp: set_pool_def pool_of_def free_mem_def)
  show t: "tables (set_pool pf p m) = tables m" by (simp add: tables_def d)
  show "paging_ok (set_pool pf p m)"
  proof (rule paging_okI)
    show "g \<notin> free_mem (set_pool pf p m)" if "q \<in> low_pages" "page_map (set_pool pf p m) q = Some g" for q g
      using D(9) [of q g] that assms(7) by (auto simp: pm fm)
    show "wf_pool (kernel_pool (set_pool pf p m))" "wf_pool (user_pool (set_pool pf p m))"
      using D(2,3) assms(2) by (cases pf; simp add: set_pool_def)+
    show "pool_frames (kernel_pool (set_pool pf p m)) \<inter> pool_frames (user_pool (set_pool pf p m)) = {}"
      using D(4) assms(3) by (cases pf) (simp_all add: set_pool_def pool_of_def same_pool_def)
  qed (use D assms(5,6) in \<open>simp_all add: self_map_def d t fm\<close>)
qed

lemma frame_of_clear: "frame_of (e AND NOT 1) = frame_of e" "\<not> present (e AND NOT 1)"
proof -
  have m: "drop_bit 12 (NOT 1 :: u32) = mask 20" by (simp add: mask_eq_exp_minus_1)
  have "drop_bit 12 (e AND NOT 1) = drop_bit 12 e AND mask 20" by (simp only: drop_bit_and m)
  also have "\<dots> = drop_bit 12 e"
    by (rule bit_word_eqI) (auto simp: bit_and_iff bit_mask_iff bit_drop_bit_eq dest: bit_imp_le_length)
  finally have "drop_bit 12 (e AND NOT 1) = drop_bit 12 e" .
  then show "frame_of (e AND NOT 1) = frame_of e" by (simp add: frame_of_def)
  show "\<not> present (e AND NOT 1)" unfolding present_bit by (simp add: bit_and_iff bit_not_iff)
qed

lemma frame_of_clear' [simp]: "frame_of (e AND - 2) = frame_of e" "\<not> present (e AND - 2)"
  using frame_of_clear [of e] by simp_all

text \<open>One round of the loop of \<open>mfree_page\<close>.\<close>

lemma unmap_one:
  assumes "paging_ok m" "pools_split m" "unat va mod 4096 = 0" "page_of va \<in> low_pages"
    "page_map m (page_of va) = Some f" "f \<in> pool_frames (pool_of pf m)"
    "f \<notin> tables m" "f \<noteq> frame_of (pd_base m)"
    "\<forall>q \<in> low_pages. page_map m q = Some f \<longrightarrow> slot m q = slot m (page_of va)"
  shows "\<exists>pa m1 m'. addr_v2p va m = Inr pa \<and> unat pa = f * 4096 \<and>
    (phy_addr_start (user_pool m) \<le> pa \<longleftrightarrow> pf = PF_USER) \<and> phy_addr_start (kernel_pool m) \<le> pa \<and> 0x102000 \<le> pa \<and>
    pfree pa m = Inr m1 \<and> page_table_pte_remove va m1 = Inr m' \<and> paging_ok m' \<and> mem_step m m' \<and>
    tables m' = tables m \<and> pd_base m' = pd_base m \<and> slot m' = slot m \<and>
    free_frames (pool_of pf m') = insert f (free_frames (pool_of pf m)) \<and>
    page_map m' (page_of va) = None \<and>
    (\<forall>q \<in> low_pages. page_map m' q = page_map m q \<or> page_map m' q = None) \<and>
    (\<forall>q \<in> low_pages. \<not> same_entry (page_of va) q \<longrightarrow> page_map m' q = page_map m q)"
proof -
  note D = paging_okD [OF assms(1)]
  let ?e = "pte_at m va" and ?pl = "pool_of pf m"
  have pr: "present (pde_at m va)" "present ?e" "f = frame_of ?e"
    using assms(5) by (auto simp: page_map_def pde_at_dir pte_at_tab Let_def split: if_splits)
  let ?pa = "(?e AND 0xfffff000) + (va AND 0xfff)"
  have a: "addr_v2p va m = Inr ?pa" using load_pte [OF D(1), of va] pr(1) by (simp add: addr_v2p_def)
  have "unat (va AND 0xfff) = 0" using assms(3) by simp
  then have "va AND 0xfff = 0" by (simp only: unsigned_eq_0_iff)
  then have "?pa = ?e AND 0xfffff000" by simp
  then have pa: "unat ?pa = f * 4096" "frame_of ?pa = f" by (simp_all add: pr(3) frame_of_div)
  have wf: "wf_pool ?pl" using D(2,3) by (cases pf) (simp_all add: pool_of_def)
  have al: "unat (phy_addr_start (user_pool m)) mod 4096 = 0" "unat (phy_addr_start (kernel_pool m)) mod 4096 = 0"
    using D(2,3) by (simp_all add: wf_pool_def)
  have fl: "frame_of (phy_addr_start ?pl) \<le> f" "f < frame_of (phy_addr_start ?pl) + nbits (pool_bitmap ?pl)"
    using assms(6) by (auto simp: pool_frames_def frame_nr_def)
  have side: "phy_addr_start (user_pool m) \<le> ?pa \<longleftrightarrow> pf = PF_USER"
    using fl assms(2) unfolding frame_le [OF al(1)] pa(2) by (cases pf) (auto simp: pools_split_def pool_of_def)
  have kp: "phy_addr_start (kernel_pool m) \<le> ?pa"
    using fl assms(2) unfolding frame_le [OF al(2)] pa(2) by (cases pf) (auto simp: pools_split_def pool_of_def)
  have low: "0x102000 \<le> ?pa"
  proof -
    have "0x102 \<le> frame_of ?pa" using kp assms(2) unfolding frame_le [OF al(2)] by (simp add: pools_split_def)
    then show ?thesis using pa by (simp add: word_le_nat_alt)
  qed
  obtain b where b: "bitmap_set (pool_bitmap ?pl) (unat (?pa - phy_addr_start ?pl) div 4096) 0 = Inr b"
    "wf_pool (?pl\<lparr>pool_bitmap := b\<rparr>)" "same_pool ?pl (?pl\<lparr>pool_bitmap := b\<rparr>)"
    "free_frames (?pl\<lparr>pool_bitmap := b\<rparr>) = insert f (free_frames ?pl)"
    using bitmap_set_frame [OF wf assms(6) pa(1)] by blast
  let ?p = "?pl\<lparr>pool_bitmap := b\<rparr>" let ?m1 = "set_pool pf ?p m"
  have fre: "pfree ?pa m = Inr ?m1"
    using b(1) side by (cases pf) (simp_all add: pfree_def Let_def)
  let ?r = "poke (frame_of (pde_at m va)) (page_of va mod 1024) (?e AND NOT 1)"
  have e1: "pde_at ?m1 va = pde_at m va" "pte_at ?m1 va = ?e" "self_map ?m1"
    using D(1) by (cases pf; simp add: set_pool_def pde_at_def pte_at_def self_map_def dir_entry_of_def)+
  have rem: "page_table_pte_remove va ?m1 = Inr (?r ?m1)"
    using pr(1) by (simp add: page_table_pte_remove_def load_pte store_pte e1)
  have swap: "?r ?m1 = set_pool pf ?p (?r m)" by (cases pf) (simp_all add: poke_def set_pool_def)
  have dp: "present (dir_entry_of m (page_of va div 1024))" using pr(1) by (simp add: pde_at_dir)
  note pm = page_map_poke_table [OF assms(1,4) dp, where w = "?e AND NOT 1", folded pde_at_dir]
  have okr: "paging_ok (?r m)" using poke_table_ok [OF assms(1,4) dp, of "?e AND NOT 1"] by (simp add: pde_at_dir)
  have none: "page_map (?r m) (page_of va) = None" using pm(2) [OF assms(4)] by simp
  have tr: "tables (?r m) = tables m" using pm(1) [OF assms(4)] by (simp add: tables_def)
  have nof: "\<forall>q \<in> low_pages. page_map (?r m) q \<noteq> Some f"
  proof (intro ballI notI)
    fix q assume q: "q \<in> low_pages" "page_map (?r m) q = Some f"
    then have "page_map m q = Some f" using pm(4) [OF q(1)] none by auto
    then have "slot m q = slot m (page_of va)" using assms(9) q(1) by blast
    then have "slot (?r m) q = slot (?r m) (page_of va)" using pm(1) [OF q(1)] by (simp add: slot_def)
    then have "ram (?r m) (frame_of (dir_entry_of (?r m) (q div 1024))) (q mod 1024) = ?e AND NOT 1"
      using pm(1) [OF q(1)] by (simp add: slot_def pde_at_dir)
    then show False using q(2) by (simp add: page_map_def Let_def split: if_splits)
  qed
  have pr': "pool_of pf (?r m) = ?pl" by (cases pf) (simp_all add: pool_of_def poke_def)
  note fin = set_pool_free_ok [OF okr b(2), of pf f, unfolded pr' tr poke_fields, OF b(3,4) assms(7,8) nof, folded swap]
  have upd: "?r ?m1 = m\<lparr>ram := ram (?r m), kernel_pool := kernel_pool ?m1, user_pool := user_pool ?m1\<rparr>"
    by (cases pf) (simp_all add: set_pool_def poke_def)
  have k: "kernel_pool (?r ?m1) = kernel_pool ?m1" "user_pool (?r ?m1) = user_pool ?m1"
    "ram (?r ?m1) = ram (?r m)" "pd_base (?r ?m1) = pd_base m" "pool_of pf (?r ?m1) = ?p"
    by (cases pf; simp add: poke_def set_pool_def pool_of_def)+
  have "dir_entry_of (?r ?m1) = dir_entry_of (?r m)" 
    by (rule ext) (simp only: dir_entry_of_def k(3,4), simp)
  then have sl: "slot (?r ?m1) = slot m" using pm(1) [OF assms(4)] by (simp add: fun_eq_iff slot_def)
  have "same_pool (kernel_pool m) (kernel_pool ?m1)" "same_pool (user_pool m) (user_pool ?m1)"
    using b(3) by (cases pf; simp add: set_pool_def pool_of_def)+
  then have ms: "mem_step m (?r ?m1)" using upd k by (simp add: mem_step_def)
  show ?thesis
  proof (intro exI conjI ballI impI)
    show "addr_v2p va m = Inr ?pa" by (rule a)
    show "pfree ?pa m = Inr ?m1" by (rule fre)
    show "page_table_pte_remove va ?m1 = Inr (?r ?m1)" by (rule rem)
    show "paging_ok (?r ?m1)" by (rule fin(1))
    show "page_map (?r ?m1) (page_of va) = None" unfolding fin(2) by (rule none)
    show "page_map (?r ?m1) q = page_map m q \<or> page_map (?r ?m1) q = None" if "q \<in> low_pages" for q
      unfolding fin(2) using pm(4) [OF that] none by auto
    show "page_map (?r ?m1) q = page_map m q" if "q \<in> low_pages" "\<not> same_entry (page_of va) q" for q
      unfolding fin(2) by (rule pm(3) [OF that])
    show "free_frames (pool_of pf (?r ?m1)) = insert f (free_frames ?pl)" unfolding k by (rule b(4))
  qed (use pa side kp low ms fin(3) k sl in simp_all)
qed

lemma same_pool_nbits: "same_pool p p' \<Longrightarrow> nbits (pool_bitmap p') = nbits (pool_bitmap p) \<and> phy_addr_start p' = phy_addr_start p"
proof -
  assume s: "same_pool p p'"
  have "card (pool_frames q) = nbits (pool_bitmap q)" for q
    using card_image [OF inj_frame_nr [of q "{i. i < nbits (pool_bitmap q)}"]] by (simp add: pool_frames_def)
  moreover have "phy_addr_start p' = phy_addr_start p"
    using s by (metis pool.ext_inject pool.surjective pool.update_convs(1) same_pool_def)
  ultimately show ?thesis using s by (metis same_pool_def)
qed

lemma pools_split_step: "pools_split m \<Longrightarrow> mem_step m m' \<Longrightarrow> pools_split m'"
  using same_pool_nbits [of "kernel_pool m" "kernel_pool m'"] same_pool_nbits [of "user_pool m" "user_pool m'"]
  by (simp add: pools_split_def mem_step_def)

lemma frames_owned_head:
  assumes "frames_owned m p (f # fs)"
  shows "page_map m p = Some f" "f \<notin> tables m" "f \<noteq> frame_of (pd_base m)"
    "\<forall>q \<in> low_pages. page_map m q = Some f \<longrightarrow> slot m q = slot m p"
proof -
  have at: "page_map m (p + i) = Some ((f # fs) ! i)" if "i < Suc (length fs)" for i
    using assms that by (auto simp: frames_owned_def)
  show "page_map m p = Some f" using at [of 0] by simp
  show "f \<notin> tables m" "f \<noteq> frame_of (pd_base m)" using assms by (auto simp: frames_owned_def)
  show "\<forall>q \<in> low_pages. page_map m q = Some f \<longrightarrow> slot m q = slot m p"
  proof (intro ballI impI)
    fix q assume q: "q \<in> low_pages" "page_map m q = Some f"
    obtain i where i: "i < Suc (length fs)" "slot m q = slot m (p + i)"
      using assms q unfolding frames_owned_def by (metis length_Cons list.set_intros(1))
    have "page_map m q = page_map m (p + i)" using slot_page_map [OF i(2)] q(2) at [OF i(1)] by simp
    then have "(f # fs) ! i = f" using q(2) at [OF i(1)] by simp
    then have "i = 0" using assms i(1) by (cases i) (auto simp: frames_owned_def)
    then show "slot m q = slot m p" using i(2) by simp
  qed
qed

text \<open>The loop: all pages of an owned range are unmapped and their frames free.\<close>

lemma unmap_pages_ok:
  assumes "paging_ok m" "pools_split m" "unat va mod 4096 = 0" "frames_owned m (page_of va) fs"
    "1024 \<le> page_of va" "page_of va + length fs \<le> 1047552" "set fs \<subseteq> pool_frames (pool_of pf m)"
  shows "\<exists>m'. unmap_pages (if pf = PF_USER then in_user_pool else in_kernel_pool) (length fs) va m = Inr m' \<and>
    paging_ok m' \<and> mem_step m m' \<and> free_frames (pool_of pf m') = free_frames (pool_of pf m) \<union> set fs \<and>
    (\<forall>i < length fs. page_map m' (page_of va + i) = None) \<and>
    (\<forall>q \<in> low_pages. 1024 \<le> q \<and> q \<notin> {page_of va..<page_of va + length fs} \<longrightarrow> page_map m' q = page_map m q) \<and>
    tables m' = tables m \<and> slot m' = slot m \<and> (\<forall>q \<in> low_pages. page_map m' q = page_map m q \<or> page_map m' q = None)"
  using assms
proof (induction fs arbitrary: va m)
  case Nil
  then show ?case by (simp add: mem_step_def)
next
  case (Cons f fs)
  let ?p = "page_of va" and ?ok = "if pf = PF_USER then in_user_pool else in_kernel_pool"
  have O: "distinct (f # fs)" "set (f # fs) \<inter> tables m = {}" "frame_of (pd_base m) \<notin> set (f # fs)"
    "\<And>i. i < Suc (length fs) \<Longrightarrow> page_map m (?p + i) = Some ((f # fs) ! i)"
    "\<And>q g. q \<in> low_pages \<Longrightarrow> g \<in> set (f # fs) \<Longrightarrow> page_map m q = Some g \<Longrightarrow>
       \<exists>i < Suc (length fs). slot m q = slot m (?p + i)"
    using Cons.prems(4) by (auto simp: frames_owned_def)
  have low: "?p + i \<in> low_pages" if "i < Suc (length fs)" for i
    using Cons.prems(6) that by (simp add: low_page_idx)
  note only = frames_owned_head(4) [OF Cons.prems(4)]
  obtain pa m1 m2 where m2: "addr_v2p va m = Inr pa" "unat pa = f * 4096"
    "phy_addr_start (user_pool m) \<le> pa \<longleftrightarrow> pf = PF_USER" "phy_addr_start (kernel_pool m) \<le> pa"
    "pfree pa m = Inr m1" "page_table_pte_remove va m1 = Inr m2" "paging_ok m2" "mem_step m m2"
    "tables m2 = tables m" "pd_base m2 = pd_base m" "slot m2 = slot m"
    "free_frames (pool_of pf m2) = insert f (free_frames (pool_of pf m))" "page_map m2 ?p = None"
    "\<And>q. q \<in> low_pages \<Longrightarrow> page_map m2 q = page_map m q \<or> page_map m2 q = None"
    "\<And>q. q \<in> low_pages \<Longrightarrow> \<not> same_entry ?p q \<Longrightarrow> page_map m2 q = page_map m q"
    using unmap_one [OF Cons.prems(1,2,3) low [of 0, simplified], of f pf] O(2,3) O(4) [of 0] Cons.prems(7) only
    by auto
  have "unat (pa mod 4096) = 0" using m2(2) by (simp add: unat_mod)
  then have okpa: "pa mod 4096 = 0" "?ok m pa"
    using m2(3,4) by (simp_all only: unsigned_eq_0_iff) (cases pf; simp add: in_user_pool_def in_kernel_pool_def not_le)
  have step: "unmap_pages ?ok (length (f # fs)) va m = unmap_pages ?ok (length fs) (va + 4096) m2"
    using m2(1,5,6) okpa by simp
  show ?case
  proof (cases "fs = []")
    case True
    have "page_map m2 q = page_map m q" if "q \<in> low_pages" "1024 \<le> q" "q \<noteq> ?p" for q
      using m2(15) [OF that(1)] same_entry_high [of ?p q] Cons.prems(5) that by blast
    then show ?thesis using True step m2(7-9,11-14) by auto
  next
    case False
    then have pn: "page_of (va + 4096) = ?p + 1" using page_of_next [of va] Cons.prems(6) by (cases fs) auto
    have al: "unat (va + 4096) mod 4096 = 0"
    proof -
      have "unat va + 4096 < 4294967296"
        using Cons.prems(6) False by (cases fs) (auto simp: page_of_def)
      then have "unat (va + 4096) = unat va + 4096" by (simp add: unat_word_ariths)
      then show ?thesis using Cons.prems(3) by simp
    qed
    have far: "\<not> same_entry ?p (?p + 1 + i)" for i
      using same_entry_high [of ?p "?p + 1 + i"] Cons.prems(5) by auto
    have at: "page_map m2 (?p + 1 + i) = Some (fs ! i)" if i: "i < length fs" for i
      using m2(15) [OF _ far, of i] low [of "Suc i"] O(4) [of "Suc i"] i by simp
    have "frames_owned m2 (?p + 1) fs"
      unfolding frames_owned_def
    proof (intro conjI ballI impI)
      show "\<exists>i < length fs. slot m2 q = slot m2 (?p + 1 + i)"
        if q: "q \<in> low_pages" "g \<in> set fs" "page_map m2 q = Some g" for q g
      proof -
        have mq: "page_map m q = Some g" using m2(14) [OF q(1)] q(3) by auto
        obtain i where i: "i < Suc (length fs)" "slot m q = slot m (?p + i)" using O(5) [OF q(1) _ mq] q(2) by auto
        have "page_map m q = page_map m (?p + i)" using slot_page_map [OF i(2)] mq O(4) [OF i(1)] by simp
        then have "(f # fs) ! i = g" using mq O(4) [OF i(1)] by simp
        then obtain j where "i = Suc j" using O(1) q(2) by (cases i) auto
        then show ?thesis using i by (auto simp: m2(11))
      qed
    qed (use O at m2(9,10) in auto)
    moreover have "pools_split m2" using Cons.prems(2) m2(8) by (rule pools_split_step)
    moreover have "set fs \<subseteq> pool_frames (pool_of pf m2)"
      using Cons.prems(7) m2(8) by (cases pf) (auto simp: mem_step_def same_pool_def pool_of_def)
    ultimately obtain m' where m': "unmap_pages ?ok (length fs) (va + 4096) m2 = Inr m'"
      "paging_ok m'" "mem_step m2 m'" "free_frames (pool_of pf m') = free_frames (pool_of pf m2) \<union> set fs"
      "\<forall>i < length fs. page_map m' (?p + 1 + i) = None"
      "\<forall>q \<in> low_pages. 1024 \<le> q \<and> q \<notin> {?p + 1..<?p + 1 + length fs} \<longrightarrow> page_map m' q = page_map m2 q"
      "tables m' = tables m2" "slot m' = slot m2" "\<forall>q \<in> low_pages. page_map m' q = page_map m2 q \<or> page_map m' q = None"
      using Cons.IH [of m2 "va + 4096"] m2(7) al Cons.prems(5,6) unfolding pn by auto
    have none: "page_map m' (?p + i) = None" if "i < Suc (length fs)" for i
      using m'(5,6) low [of 0] m2(13) Cons.prems(5) that by (cases i) auto
    have other: "page_map m' q = page_map m q"
      if "q \<in> low_pages" "1024 \<le> q" "q \<notin> {?p..<?p + Suc (length fs)}" for q
    proof -
      have "\<not> same_entry ?p q" using same_entry_high [of ?p q] Cons.prems(5) that by auto
      then have "page_map m2 q = page_map m q" by (rule m2(15) [OF that(1)])
      moreover have "q \<notin> {?p + 1..<?p + 1 + length fs}" using that(3) by auto
      ultimately show ?thesis using m'(6) that(1,2) by simp
    qed
    have gone: "\<forall>q \<in> low_pages. page_map m' q = page_map m q \<or> page_map m' q = None"
      using m'(9) m2(14) by metis
    show ?thesis
      unfolding step using m'(1,2,4,7,8) mem_step_trans [OF m2(8) m'(3)] none other m2(9,11,12) gone by auto
  qed
qed

lemma mfree_page_ok:
  assumes "paging_ok m" "pools_split m" "vpool_ok pf m" "unat va mod 4096 = 0" "frames_owned m (page_of va) fs" "fs \<noteq> []"
    "set fs \<subseteq> pool_frames (pool_of pf m)"
    "page_of va = page_of (vaddr_start (vpool_of pf m)) + s" "s + length fs \<le> nbits (vaddr_bitmap (vpool_of pf m))"
    "pf = PF_USER \<longrightarrow> page_of va + length fs \<le> 786431"
  shows "\<exists>m'. mfree_page pf va (length fs) m = Inr m' \<and> paging_ok m' \<and> vpool_ok pf m' \<and>
    same_pool (kernel_pool m) (kernel_pool m') \<and> same_pool (user_pool m) (user_pool m') \<and>
    free_frames (pool_of pf m') = free_frames (pool_of pf m) \<union> set fs \<and>
    used (vaddr_bitmap (vpool_of pf m')) = used (vaddr_bitmap (vpool_of pf m)) - {s..<s + length fs} \<and>
    (\<forall>i < length fs. page_map m' (page_of va + i) = None) \<and>
    (\<forall>q \<in> low_pages. 1024 \<le> q \<and> q \<notin> {page_of va..<page_of va + length fs} \<longrightarrow> page_map m' q = page_map m q) \<and>
    tables m' = tables m \<and> slot m' = slot m \<and> (\<forall>q \<in> low_pages. page_map m' q = page_map m q \<or> page_map m' q = None) \<and>
    nbits (vaddr_bitmap (vpool_of pf m')) = nbits (vaddr_bitmap (vpool_of pf m)) \<and>
    vaddr_start (vpool_of pf m') = vaddr_start (vpool_of pf m) \<and>
    (\<exists>v. m' = (set_vpool pf v m)\<lparr>ram := ram m', kernel_pool := kernel_pool m', user_pool := user_pool m'\<rparr>)"
proof -
  let ?vp = "vpool_of pf m" let ?s0 = "page_of (vaddr_start ?vp)"
  let ?ok = "if pf = PF_USER then in_user_pool else in_kernel_pool"
  have V: "?s0 + nbits (vaddr_bitmap ?vp) \<le> (if pf = PF_USER then 786432 else 1047552)" "1024 \<le> ?s0"
    "unat (vaddr_start ?vp) mod 4096 = 0" "wf_bitmap (vaddr_bitmap ?vp)"
    "\<And>i. i < nbits (vaddr_bitmap ?vp) \<Longrightarrow> i \<notin> used (vaddr_bitmap ?vp) \<Longrightarrow> page_map m (?s0 + i) = None"
    "pf = PF_USER \<longrightarrow> (\<forall>i < nbits (vaddr_bitmap ?vp). ?s0 + i = 786431 \<longrightarrow> i \<in> used (vaddr_bitmap ?vp))"
    using assms(3) by (simp_all add: vpool_ok_def Let_def)
  have rng: "1024 \<le> page_of va" "page_of va + length fs \<le> 1047552"
    using V(1,2) assms(8,9) by (simp_all split: if_splits)
  obtain m1 where m1: "unmap_pages ?ok (length fs) va m = Inr m1" "paging_ok m1" "mem_step m m1"
    "free_frames (pool_of pf m1) = free_frames (pool_of pf m) \<union> set fs"
    "\<forall>i < length fs. page_map m1 (page_of va + i) = None"
    "\<forall>q \<in> low_pages. 1024 \<le> q \<and> q \<notin> {page_of va..<page_of va + length fs} \<longrightarrow> page_map m1 q = page_map m q"
    "tables m1 = tables m" "slot m1 = slot m" "\<forall>q \<in> low_pages. page_map m1 q = page_map m q \<or> page_map m1 q = None"
    using unmap_pages_ok [OF assms(1,2,4,5) rng assms(7)] by blast
  obtain f fs' where fs: "fs = f # fs'" using assms(6) by (cases fs) auto
  obtain pa where pa: "addr_v2p va m = Inr pa" "unat pa mod 4096 = 0" "0x102000 \<le> pa"
    "phy_addr_start (user_pool m) \<le> pa \<longleftrightarrow> pf = PF_USER"
  proof -
    have "page_of va \<in> low_pages" using rng(2) fs by (simp add: low_page_idx)
    from unmap_one [OF assms(1,2,4) this frames_owned_head(1) [OF assms(5) [unfolded fs]] _
        frames_owned_head(2-4) [OF assms(5) [unfolded fs]], of pf] assms(7) fs
    show thesis using that by auto
  qed
  obtain r k u where upd: "m1 = m\<lparr>ram := r, kernel_pool := k, user_pool := u\<rparr>"
    using m1(3) unfolding mem_step_def by blast
  have vp1: "vpool_of pf m1 = ?vp" by (cases pf) (simp_all add: upd vpool_of_def running_thread_def)
  have st: "unat (vaddr_start ?vp) = ?s0 * 4096"
    using V(3) div_mult_mod_eq [of "unat (vaddr_start ?vp)" 4096] by (simp add: page_of_def)
  have vs: "unat va = (?s0 + s) * 4096"
    using assms(4,8) div_mult_mod_eq [of "unat va" 4096] by (simp add: page_of_def)
  have "vaddr_start ?vp \<le> va" by (simp add: word_le_nat_alt st vs)
  then have idx: "unat (va - vaddr_start ?vp) div 4096 = s" by (simp add: unat_sub st vs add_mult_distrib)
  obtain b where b: "set_bits (vaddr_bitmap ?vp) s (length fs) 0 = Inr b" "wf_bitmap b"
    "nbits b = nbits (vaddr_bitmap ?vp)" "used b = used (vaddr_bitmap ?vp) - {s..<s + length fs}"
    using set_bits_ok [OF V(4) assms(9), of 0] by auto
  let ?m' = "set_vpool pf (?vp\<lparr>vaddr_bitmap := b\<rparr>) m1"
  have rem: "vaddr_remove pf va (length fs) m1 = Inr ?m'"
    using b(1) by (simp add: vaddr_remove_def Let_def vp1 idx)
  have al: "va mod 4096 = 0" "pa mod 4096 = 0"
  proof -
    have "unat (va mod 4096) = 0" "unat (pa mod 4096) = 0" using assms(4) pa(2) by (simp_all add: unat_mod)
    then show "va mod 4096 = 0" "pa mod 4096 = 0" by (simp_all only: unsigned_eq_0_iff)
  qed
  have run: "mfree_page pf va (length fs) m = Inr ?m'"
    using al pa(1,3,4) m1(1) rem assms(6) by (cases pf) (simp_all add: mfree_page_def)
  have free: "page_map m1 (?s0 + i) = None" if "i < nbits b" "i \<notin> used b" for i
  proof (cases "i \<in> {s..<s + length fs}")
    case True
    then have "?s0 + i = page_of va + (i - s)" "i - s < length fs" using assms(8) by auto
    then show ?thesis using m1(5) by metis
  next
    case False
    have "?s0 + i \<in> low_pages" using that(1) V(1) b(3) by (simp add: low_page_idx split: if_splits)
    moreover have "?s0 + i \<notin> {page_of va..<page_of va + length fs}" using False assms(8) by auto
    ultimately show ?thesis using m1(6) V(2,5) that False b(3,4) by auto
  qed
  have "pf = PF_USER \<longrightarrow> (\<forall>i < nbits b. ?s0 + i = 786431 \<longrightarrow> i \<in> used b)"
    using V(6) b(3,4) assms(8,10) by auto
  then have "vpool_ok pf ?m'" using V(1-3) b free by (simp add: vpool_ok_def Let_def)
  moreover have k: "kernel_pool ?m' = kernel_pool m1" "user_pool ?m' = user_pool m1" "ram ?m' = ram m1" "pd_base ?m' = pd_base m1"
    by (cases pf; simp add: set_vpool_def)+
  moreover have d: "dir_entry_of ?m' = dir_entry_of m1" by (simp add: dir_entry_of_def fun_eq_iff k(3,4))
  moreover have "tables ?m' = tables m" "slot ?m' = slot m"
    using m1(7,8) by (simp_all add: tables_def slot_def fun_eq_iff d)
  moreover have "\<exists>v. ?m' = (set_vpool pf v m)\<lparr>ram := ram ?m', kernel_pool := kernel_pool ?m', user_pool := user_pool ?m'\<rparr>"
    by (rule exI [of _ "?vp\<lparr>vaddr_bitmap := b\<rparr>"], cases pf) (simp_all add: upd set_vpool_def running_thread_def)
  ultimately show ?thesis using run m1(2-6,9) b(3,4)
    by (intro exI [of _ ?m']) (simp add: mem_step_def)
qed

section \<open>The page frames as an allocator\<close>

text \<open>
  One page frame taken from the pool of user frames, and given back by its physical address.
\<close>

definition user_frame_alloc :: "'a memk_scheme \<Rightarrow> (u32 \<times> 'a memk_scheme) res" where
  "user_frame_alloc m = bnd (palloc (user_pool m)) (\<lambda>(pa, p). Inr (pa, m\<lparr>user_pool := p\<rparr>))"

definition user_addrs :: "nat set \<Rightarrow> u32 set" where
  "user_addrs F = {pa. unat pa mod 4096 = 0 \<and> frame_of pa \<in> F}"

definition user_frames_ok :: "'a memk_scheme \<Rightarrow> bool" where
  "user_frames_ok m \<longleftrightarrow> wf_pool (user_pool m)"

lemma frame_of_aligned: "unat a mod 4096 = 0 \<Longrightarrow> unat b mod 4096 = 0 \<Longrightarrow> frame_of a = frame_of b \<Longrightarrow> a = b"
proof -
  assume "unat a mod 4096 = 0" "unat b mod 4096 = 0" "frame_of a = frame_of b"
  then have "unat a = unat b"
    using div_mult_mod_eq [of "unat a" 4096] div_mult_mod_eq [of "unat b" 4096] by (simp add: frame_of_div)
  then show "a = b" by (rule word_unat_eq_iff [THEN iffD2])
qed

lemma user_addrs_insert:
  "unat pa mod 4096 = 0 \<Longrightarrow> user_addrs (insert (frame_of pa) F) = insert pa (user_addrs F)"
proof (rule set_eqI)
  fix x assume "unat pa mod 4096 = 0"
  then show "x \<in> user_addrs (insert (frame_of pa) F) \<longleftrightarrow> x \<in> insert pa (user_addrs F)"
    using frame_of_aligned [of x pa] by (auto simp: user_addrs_def)
qed

lemma user_addrs_remove:
  "unat pa mod 4096 = 0 \<Longrightarrow> user_addrs (F - {frame_of pa}) = user_addrs F - {pa}"
proof (rule set_eqI)
  fix x assume "unat pa mod 4096 = 0"
  then show "x \<in> user_addrs (F - {frame_of pa}) \<longleftrightarrow> x \<in> user_addrs F - {pa}"
    using frame_of_aligned [of x pa] by (auto simp: user_addrs_def)
qed

lemma user_addrs_free:
  "user_addrs (pool_frames p) - user_addrs (pool_frames p - free_frames p) = user_addrs (free_frames p)"
  using free_pool_frames by (auto simp: user_addrs_def)

lemma finite_user_addrs: "finite F \<Longrightarrow> finite (user_addrs F)"
proof -
  assume "finite F"
  moreover have "inj_on frame_of (user_addrs F)"
    by (rule inj_onI) (auto simp: user_addrs_def intro: frame_of_aligned)
  moreover have "frame_of ` user_addrs F \<subseteq> F" by (auto simp: user_addrs_def)
  ultimately show ?thesis by (metis finite_imageD finite_subset)
qed

interpretation user_frames: slots user_frames_ok
  "\<lambda>m. user_addrs (pool_frames (user_pool m))"
  "\<lambda>m. user_addrs (pool_frames (user_pool m) - free_frames (user_pool m))"
  user_frame_alloc pfree
proof
  fix s :: "'a memk_scheme"
  assume ok: "user_frames_ok s"
  then have wf: "wf_pool (user_pool s)" by (simp add: user_frames_ok_def)
  show "finite (user_addrs (pool_frames (user_pool s)))" by (simp add: finite_user_addrs)
  show "user_addrs (pool_frames (user_pool s) - free_frames (user_pool s)) \<subseteq> user_addrs (pool_frames (user_pool s))"
    by (auto simp: user_addrs_def)
  show "\<exists>i s'. user_frame_alloc s = Inr (i, s') \<and> user_frames_ok s' \<and>
      user_addrs (pool_frames (user_pool s')) = user_addrs (pool_frames (user_pool s)) \<and>
      i \<in> user_addrs (pool_frames (user_pool s)) \<and>
      i \<notin> user_addrs (pool_frames (user_pool s) - free_frames (user_pool s)) \<and>
      user_addrs (pool_frames (user_pool s') - free_frames (user_pool s')) =
        insert i (user_addrs (pool_frames (user_pool s) - free_frames (user_pool s)))"
    if ne: "user_addrs (pool_frames (user_pool s) - free_frames (user_pool s)) \<noteq> user_addrs (pool_frames (user_pool s))"
  proof -
    have nf: "free_frames (user_pool s) \<noteq> {}" using ne by auto
    obtain pa p where p: "palloc (user_pool s) = Inr (pa, p)" "wf_pool p" "unat pa mod 4096 = 0"
      "frame_of pa \<in> free_frames (user_pool s)" "pool_frames p = pool_frames (user_pool s)"
      "free_frames p = free_frames (user_pool s) - {frame_of pa}"
      using palloc_ok [OF wf nf] by (elim exE conjE) (rule that)
    have mem: "frame_of pa \<in> pool_frames (user_pool s)" using p(4) free_pool_frames by blast
    then have "user_addrs (pool_frames p - free_frames p) =
        insert pa (user_addrs (pool_frames (user_pool s) - free_frames (user_pool s)))"
    proof -
      have "pool_frames p - free_frames p =
          insert (frame_of pa) (pool_frames (user_pool s) - free_frames (user_pool s))"
        unfolding p(5,6) using mem by blast
      then show ?thesis by (simp only: user_addrs_insert [OF p(3)])
    qed
    then show ?thesis using p mem
      by (intro exI [of _ pa] exI [of _ "s\<lparr>user_pool := p\<rparr>"])
        (simp add: user_frame_alloc_def user_frames_ok_def user_addrs_def)
  qed
  show "panics (user_frame_alloc s)"
    if full: "user_addrs (pool_frames (user_pool s) - free_frames (user_pool s)) = user_addrs (pool_frames (user_pool s))"
  proof -
    have "free_frames (user_pool s) = {}"
    proof (rule ccontr)
      assume nf: "free_frames (user_pool s) \<noteq> {}"
      obtain pa where "unat pa mod 4096 = 0" "frame_of pa \<in> free_frames (user_pool s)"
        using palloc_ok [OF wf nf] by (elim exE conjE) (rule that)
      then have "pa \<in> user_addrs (pool_frames (user_pool s))"
        "pa \<notin> user_addrs (pool_frames (user_pool s) - free_frames (user_pool s))"
        using free_pool_frames by (auto simp: user_addrs_def)
      then show False using full by blast
    qed
    from palloc_full [OF wf this] show ?thesis
      by (auto simp: user_frame_alloc_def panics_def split: sum.splits stop.splits)
  qed
  show "\<exists>s'. pfree i s = Inr s' \<and> user_frames_ok s' \<and>
      user_addrs (pool_frames (user_pool s')) = user_addrs (pool_frames (user_pool s)) \<and>
      user_addrs (pool_frames (user_pool s') - free_frames (user_pool s')) =
        user_addrs (pool_frames (user_pool s) - free_frames (user_pool s)) - {i}"
    if i: "i \<in> user_addrs (pool_frames (user_pool s) - free_frames (user_pool s))" for i
  proof -
    have f: "frame_of i \<in> pool_frames (user_pool s)" "unat i = frame_of i * 4096"
      using i div_mult_mod_eq [of "unat i" 4096] by (auto simp: user_addrs_def frame_of_div)
    obtain b where b: "bitmap_set (pool_bitmap (user_pool s)) (unat (i - phy_addr_start (user_pool s)) div 4096) 0 = Inr b"
      "wf_pool ((user_pool s)\<lparr>pool_bitmap := b\<rparr>)" "same_pool (user_pool s) ((user_pool s)\<lparr>pool_bitmap := b\<rparr>)"
      "free_frames ((user_pool s)\<lparr>pool_bitmap := b\<rparr>) = insert (frame_of i) (free_frames (user_pool s))"
      using bitmap_set_frame [OF wf f] by blast
    have "unat (phy_addr_start (user_pool s)) mod 4096 = 0" using wf by (simp add: wf_pool_def)
    from frame_le [OF this] have "phy_addr_start (user_pool s) \<le> i"
      using f(1) unfolding pool_frames_def frame_nr_def by fastforce
    then have "pfree i s = Inr (s\<lparr>user_pool := (user_pool s)\<lparr>pool_bitmap := b\<rparr>\<rparr>)"
      using b(1) by (simp add: pfree_def pool_of_def set_pool_def)
    moreover have "user_addrs (pool_frames (user_pool s) - insert (frame_of i) (free_frames (user_pool s))) =
        user_addrs (pool_frames (user_pool s) - free_frames (user_pool s)) - {i}"
    proof -
      have "unat i mod 4096 = 0" using i by (simp add: user_addrs_def)
      then show ?thesis by (subst Diff_insert) (rule user_addrs_remove)
    qed
    ultimately show ?thesis using b(2-4)
      by (intro exI [of _ "s\<lparr>user_pool := (user_pool s)\<lparr>pool_bitmap := b\<rparr>\<rparr>"])
        (simp add: user_frames_ok_def same_pool_def)
  qed
qed

section \<open>Setting up the pools\<close>

text \<open>
  \<open>mem_pool_init\<close>: \<open>all_mem\<close> is the amount of memory in bytes; the page counts are \<open>uint16_t\<close>.
  \<open>area\<close> is what the memory from \<open>MEM_BITMAP_BASE\<close> on holds; \<open>bitmap_init\<close> clears the parts
  that become the three bitmaps.
\<close>

type_synonym u16 = "16 word"

definition mem_pool_init :: "u32 \<Rightarrow> u8 list \<Rightarrow> 'a memk_scheme \<Rightarrow> 'a memk_scheme" where
  "mem_pool_init all_mem area m =
     (let page_table_size = 4096 * 256;
          used_mem = page_table_size + 0x100000 :: u32;
          free_mem = all_mem - used_mem;
          all_free_pages = ucast (free_mem div 4096) :: u16;
          kernel_free_pages = all_free_pages div 2;
          user_free_pages = all_free_pages - kernel_free_pages;
          kbm_lenth = unat (kernel_free_pages div 8);
          ubm_lenth = unat (user_free_pages div 8);
          kp_start = used_mem;
          up_start = kp_start + ucast kernel_free_pages * 4096
      in m\<lparr>kernel_pool := \<lparr>pool_bitmap = bitmap_init \<lparr>btmp_bytes_len = kbm_lenth, bits = take kbm_lenth area\<rparr>,
              phy_addr_start = kp_start, pool_size = ucast kernel_free_pages * 4096, pool_lock = lock_init\<rparr>,
            user_pool := \<lparr>pool_bitmap = bitmap_init \<lparr>btmp_bytes_len = ubm_lenth, bits = take ubm_lenth (drop kbm_lenth area)\<rparr>,
              phy_addr_start = up_start, pool_size = ucast user_free_pages * 4096, pool_lock = lock_init\<rparr>,
            kernel_vaddr_pool := \<lparr>vaddr_bitmap = bitmap_init \<lparr>btmp_bytes_len = kbm_lenth,
              bits = take kbm_lenth (drop (kbm_lenth + ubm_lenth) area)\<rparr>, vaddr_start = K_HEAP_START\<rparr>\<rparr>)"

lemma mem_pool_init_unused:
  "used (pool_bitmap (kernel_pool (mem_pool_init all_mem area m))) = {}"
  "used (pool_bitmap (user_pool (mem_pool_init all_mem area m))) = {}"
  "used (vaddr_bitmap (kernel_vaddr_pool (mem_pool_init all_mem area m))) = {}"
  by (simp_all add: mem_pool_init_def Let_def used_init)

text \<open>The free pages as a number: their count is kept modulo \<open>2^16\<close>.\<close>

definition free_pages_of :: "nat \<Rightarrow> nat" where
  "free_pages_of all_mem = (all_mem - 0x200000) div 4096 mod 65536"

lemma unat_ucast_u32: "unat (ucast (k :: u16) :: u32) = unat k"
proof -
  have "unat k < 2 ^ 32" using unsigned_less [of k, where 'a = nat] by simp
  then show ?thesis by (simp add: unsigned_ucast_eq take_bit_nat_eq_self)
qed

lemma page_counts:
  assumes "0x200000 \<le> unat (all_mem :: u32)"
  defines "n \<equiv> free_pages_of (unat all_mem)"
    and "a \<equiv> ucast ((all_mem - 0x200000) div 4096) :: u16"
  shows "unat a = n" "unat (a div 2) = n div 2" "unat (a - a div 2) = n - n div 2"
    "unat (0x200000 + ucast (a div 2) * 4096 :: u32) = 0x200000 + n div 2 * 4096"
proof -
  have "(0x200000 :: u32) \<le> all_mem" using assms(1) by (simp add: word_le_nat_alt)
  then have "unat (all_mem - 0x200000) = unat all_mem - 0x200000" by (simp add: unat_sub)
  then show a: "unat a = n"
    by (simp add: a_def n_def free_pages_of_def unsigned_ucast_eq take_bit_eq_mod unat_div)
  show k: "unat (a div 2) = n div 2" by (simp add: unat_div a)
  have "a div 2 \<le> a" by (simp add: word_le_nat_alt unat_div)
  then show "unat (a - a div 2) = n - n div 2" by (simp add: unat_sub k a)
  have "n < 65536" by (simp add: n_def free_pages_of_def)
  then have b: "n div 2 < 32768" by simp
  have "unat (ucast (a div 2) * 4096 :: u32) = n div 2 * 4096"
    using b by (simp add: unat_word_ariths(2) unat_ucast_u32 k)
  then show "unat (0x200000 + ucast (a div 2) * 4096 :: u32) = 0x200000 + n div 2 * 4096"
    using b by (simp add: unat_word_ariths(1))
qed

lemma mem_pool_init_numbers:
  assumes "0x200000 \<le> unat all_mem" and m': "m' = mem_pool_init all_mem area m" and n: "n = free_pages_of (unat all_mem)"
  shows "phy_addr_start (kernel_pool m') = 0x200000"
    "unat (phy_addr_start (user_pool m')) = 0x200000 + n div 2 * 4096"
    "nbits (pool_bitmap (kernel_pool m')) = n div 2 div 8 * 8"
    "nbits (pool_bitmap (user_pool m')) = (n - n div 2) div 8 * 8"
    "nbits (vaddr_bitmap (kernel_vaddr_pool m')) = n div 2 div 8 * 8"
  using page_counts [OF assms(1)] unfolding n m' mem_pool_init_def Let_def
  by (simp_all add: nbits_def unat_div bitmap_init_def)

section \<open>A small memory, for examples\<close>

text \<open>
  The directory is frame \<open>0x100\<close>; its entry 768 is the table in frame \<open>0x101\<close>, which is empty.
  There are 16 frames for the kernel from 2 MB on, and 16 for processes behind them.
\<close>

definition demo_pool :: "u32 \<Rightarrow> pool" where
  "demo_pool st = \<lparr>pool_bitmap = \<lparr>btmp_bytes_len = 2, bits = [0, 0]\<rparr>, phy_addr_start = st,
     pool_size = 0x10000, pool_lock = lock_init\<rparr>"

definition demo_mem :: memk where
  "demo_mem = kernel.extend demo_kernel (memk.fields
     (\<lambda>f i. if f = 0x100 \<and> i = 1023 then 0x100007 else if f = 0x100 \<and> i = 768 then 0x101007 else 0)
     0x100000 (demo_pool 0x200000) (demo_pool 0x210000)
     \<lparr>vaddr_bitmap = \<lparr>btmp_bytes_len = 2, bits = [0, 0]\<rparr>, vaddr_start = K_HEAP_START\<rparr>
     (\<lambda>t. \<lparr>vaddr_bitmap = \<lparr>btmp_bytes_len = 2, bits = [0, 0]\<rparr>, vaddr_start = 0x8048000\<rparr>))"

lemma demo_mem_simps [simp]:
  "ram demo_mem = (\<lambda>f i. if f = 0x100 \<and> i = 1023 then 0x100007 else if f = 0x100 \<and> i = 768 then 0x101007 else 0)"
  "pd_base demo_mem = 0x100000" "kernel_pool demo_mem = demo_pool 0x200000" "user_pool demo_mem = demo_pool 0x210000"
  "kernel_vaddr_pool demo_mem = \<lparr>vaddr_bitmap = \<lparr>btmp_bytes_len = 2, bits = [0, 0]\<rparr>, vaddr_start = K_HEAP_START\<rparr>"
  by (simp_all add: demo_mem_def kernel.defs memk.defs demo_kernel_def)

lemma used_zero2: "used \<lparr>btmp_bytes_len = 2, bits = [0, 0]\<rparr> = {}"
  using used_init [of "\<lparr>btmp_bytes_len = 2, bits = [0, 0]\<rparr>"] by (simp add: bitmap_init_def numeral_2_eq_2)

lemma demo_nbits [simp]: "nbits \<lparr>btmp_bytes_len = 2, bits = [0, 0 :: u8]\<rparr> = 16"
  by (simp add: nbits_def)

lemma demo_pool_frames [simp]:
  "free_frames (demo_pool st) = {frame_of st..<frame_of st + 16}"
  "pool_frames (demo_pool st) = {frame_of st..<frame_of st + 16}"
proof -
  have "(\<lambda>i. c + i) ` {i. i < 16} = {c..<c + 16}" for c :: nat
    using image_add_atLeastLessThan [of c 0 16]
    by (simp add: lessThan_def [symmetric] lessThan_atLeast0 add.commute)
  then show "free_frames (demo_pool st) = {frame_of st..<frame_of st + 16}"
    "pool_frames (demo_pool st) = {frame_of st..<frame_of st + 16}"
    by (simp_all add: free_frames_def pool_frames_def frame_nr_def used_zero2 demo_pool_def)
qed

lemma demo_dir:
  "dir_entry_of demo_mem i = (if i = 1023 then 0x100007 else if i = 768 then 0x101007 else 0)"
  by (simp add: dir_entry_of_def frame_of_div)

lemma present_numbers [simp]: "present 0x100007" "present 0x101007" "\<not> present 0"
  by (simp_all add: present_def)

lemma demo_page_map: "p \<in> low_pages \<Longrightarrow> page_map demo_mem p = None"
  by (auto simp: page_map_def demo_dir low_page_idx frame_of_div Let_def)

lemma demo_paging_ok: "paging_ok demo_mem" "pools_split demo_mem"
proof -
  have t: "tables demo_mem = {0x101}"
    by (auto simp: tables_def demo_dir frame_of_div split: if_splits intro: exI [of _ 768])
  have wf: "wf_pool (demo_pool 0x200000)" "wf_pool (demo_pool 0x210000)"
    by (simp_all add: wf_pool_def demo_pool_def wf_bitmap_def frame_of_div)
  show "paging_ok demo_mem"
  proof (rule paging_okI)
    show "i = j \<or> twin i j" if "i < 1023" "j < 1023" "present (dir_entry_of demo_mem i)"
      "present (dir_entry_of demo_mem j)" for i j
      using that by (auto simp: demo_dir split: if_splits)
  qed (auto simp: self_map_def demo_dir wf free_mem_def frame_of_div demo_page_map t simp del: demo_mem_simps(1))
  show "pools_split demo_mem" by (simp add: pools_split_def frame_of_div demo_pool_def)
qed

lemma demo_vpool_ok: "vpool_ok PF_KERNEL demo_mem"
proof -
  have "page_map demo_mem (786688 + i) = None" if "i < 16" for i
    by (rule demo_page_map) (use that in \<open>simp add: low_page_idx\<close>)
  then show ?thesis by (simp add: vpool_ok_def Let_def vpool_of_def page_of_def wf_bitmap_def)
qed

lemma demo_run: "n \<le> 16 \<Longrightarrow> free_run (vaddr_bitmap (vpool_of PF_KERNEL demo_mem)) 0 n"
  by (auto simp: vpool_of_def free_run_def bit_at_def nth_Cons split: nat.splits)

section \<open>Results\<close>

text \<open>
  The kernel's own translation is the processor's. With the self-map installed,
  \<open>addr_v2p\<close>, which reads the table entry through the window at \<open>0xffc00000\<close>, returns for every
  mapped address exactly the physical address the MMU translates it to, and it faults when
  the address has no page table.
\<close>

theorem addr_v2p_is_mmu:
  assumes "self_map m"
  shows "(\<forall>pa. mmu m vaddr = Some pa \<longrightarrow> addr_v2p vaddr m = Inr pa) \<and>
    (\<not> present (pde_at m vaddr) \<longrightarrow> addr_v2p vaddr m = Inl (Fault ''page fault''))"
  using load_pte [OF assms, of vaddr] by (auto simp: addr_v2p_def mmu_def split: if_splits)

lemma addr_v2p_is_mmu_witness:
  "addr_v2p 0xfffff000 demo_mem = Inr 0x100000 \<and> addr_v2p 0x8048000 demo_mem = Inl (Fault ''page fault'')"
proof -
  have "mmu demo_mem 0xfffff000 = Some 0x100000"
    by (simp add: mmu_def pde_at_def pte_at_def PDE_IDX_def PTE_IDX_def frame_of_div)
  moreover have "\<not> present (pde_at demo_mem 0x8048000)"
    by (simp add: pde_at_def PDE_IDX_def frame_of_div)
  ultimately show ?thesis
    using addr_v2p_is_mmu [OF paging_okD(1) [OF demo_paging_ok(1)], of "0xfffff000"]
      addr_v2p_is_mmu [OF paging_okD(1) [OF demo_paging_ok(1)], of "0x8048000"] by simp
qed

text \<open>
  Mapping a page changes the address space in that page only. For a page below the window
  of the page tables that is not mapped yet, \<open>page_table_add\<close> succeeds, whether or not it has to
  take a frame for a new page table first; afterwards the page leads to the given frame, every
  other page from 4 MB up leads where it led before, and the invariant of the page tables
  (no frame in use is free, tables are not shared) still holds.
\<close>

theorem page_table_add_maps_one_page:
  assumes "paging_ok m" "page_of vaddr \<in> low_pages" "1024 \<le> page_of vaddr" "page_map m (page_of vaddr) = None"
    "frame_of pa \<notin> free_mem m" "free_frames (kernel_pool m) \<noteq> {}"
  shows "\<exists>m'. page_table_add vaddr pa m = Inr m' \<and> paging_ok m' \<and>
    page_map m' (page_of vaddr) = Some (frame_of pa) \<and>
    (\<forall>q \<in> low_pages. 1024 \<le> q \<and> q \<noteq> page_of vaddr \<longrightarrow> page_map m' q = page_map m q)"
  using page_table_add_ok [OF assms(1,2,4-6)] same_entry_high [OF _ assms(3)] by metis

lemma page_table_add_maps_one_page_witness:
  "\<exists>m'. page_table_add 0x8048000 0x300000 demo_mem = Inr m' \<and> page_map m' 0x8048 = Some 0x300"
proof -
  have p: "page_of 0x8048000 = 0x8048" by (simp add: page_of_def)
  have l: "page_of 0x8048000 \<in> low_pages" by (simp add: p low_page_idx)
  show ?thesis
    using page_table_add_maps_one_page [OF demo_paging_ok(1) l _ demo_page_map [OF l], of "0x300000"]
    by (auto simp: p free_mem_def frame_of_div)
qed

text \<open>
  C23: \<open>malloc_page\<close> hands out fresh memory. When the address pool, of the kernel or of a process,
  has \<open>pg_cnt\<close> pages in a row (fewer than 3840, as the code demands) and there are frames enough (two per page for the kernel, in case each
  needs a page table), it returns a page-aligned address; the pages from there on were not
  mapped before and now lead, in order, to different frames that were free before and that
  hold no page table. No other page leads to one of these frames, but for the first 4 MB, which are
  a second view of the 4 MB from 3 GB on. Every other page from 4 MB up leads where it led
  before, and the invariants of the page tables and of the address pool still hold. (The window
  at 0xffc00000, in which the directory maps itself, is not counted among the pages.)
\<close>

theorem malloc_page_fresh:
  assumes "paging_ok m" "vpool_ok pf m" "0 < pg_cnt" "pg_cnt < 3840"
    "\<exists>s. free_run (vaddr_bitmap (vpool_of pf m)) s pg_cnt" "frames_for pf pg_cnt m"
  shows "\<exists>va m' fs. malloc_page pf pg_cnt m = Inr (va, m') \<and> va \<noteq> 0 \<and> unat va mod 4096 = 0 \<and>
    paging_ok m' \<and> vpool_ok pf m' \<and> length fs = pg_cnt \<and> distinct fs \<and>
    set fs \<subseteq> free_frames (pool_of pf m) \<and> set fs \<inter> tables m' = {} \<and> frame_of (pd_base m') \<notin> set fs \<and>
    (\<forall>i < pg_cnt. page_map m (page_of va + i) = None \<and> page_map m' (page_of va + i) = Some (fs ! i)) \<and>
    (\<forall>q \<in> low_pages. \<forall>f \<in> set fs. page_map m' q = Some f \<longrightarrow>
       q \<in> {page_of va..<page_of va + pg_cnt} \<or> q < 1024 \<and> q + 786432 \<in> {page_of va..<page_of va + pg_cnt}) \<and>
    (\<forall>q \<in> low_pages. 1024 \<le> q \<and> q \<notin> {page_of va..<page_of va + pg_cnt} \<longrightarrow> page_map m' q = page_map m q)"
proof -
  obtain va m' fs s where M: "malloc_page pf pg_cnt m = Inr (va, m')" "va \<noteq> 0" "unat va mod 4096 = 0"
    "paging_ok m'" "vpool_ok pf m'" "length fs = pg_cnt" "set fs \<subseteq> free_frames (pool_of pf m)"
    "page_of va = page_of (vaddr_start (vpool_of pf m)) + s" "free_run (vaddr_bitmap (vpool_of pf m)) s pg_cnt"
    "frames_owned m' (page_of va) fs" "\<forall>i < pg_cnt. page_map m (page_of va + i) = None"
    "\<forall>q \<in> low_pages. 1024 \<le> q \<and> q \<notin> {page_of va..<page_of va + pg_cnt} \<longrightarrow> page_map m' q = page_map m q"
    using malloc_page_ok [OF assms] by (elim exE conjE) (rule that)
  have rng: "1024 \<le> page_of va" "page_of va + length fs \<le> 1047552"
    using assms(2) M(6,8,9) by (simp_all add: vpool_ok_def Let_def free_run_def split: if_splits)
  note O = M(10) [unfolded frames_owned_def] and only = frames_owned_only [OF M(4,10) rng]
  show ?thesis
    by (rule exI [of _ va], rule exI [of _ m'], rule exI [of _ fs])
      (use M(1-7,11,12) O only in \<open>simp only: simp_thms M(6), blast\<close>)
qed

text \<open>A process with the address pool that \<open>create_user_vaddr_bitmap\<close> makes, its stack page in use.\<close>

definition demo_user :: memk where
  "demo_user = demo_mem\<lparr>userprog_vaddr := (\<lambda>t. \<lparr>vaddr_bitmap =
     \<lparr>btmp_bytes_len = 94199, bits = replicate 94198 0 @ [0x80]\<rparr>, vaddr_start = 0x8048000\<rparr>)\<rparr>"

lemma demo_user_same:
  "page_map demo_user = page_map demo_mem" "paging_ok demo_user" "pools_split demo_user"
  "frames_for pf n demo_user = frames_for pf n demo_mem"
proof -
  have d: "dir_entry_of demo_user = dir_entry_of demo_mem" by (simp add: demo_user_def dir_entry_of_def fun_eq_iff)
  show p: "page_map demo_user = page_map demo_mem"
    by (simp add: fun_eq_iff page_map_def d) (simp add: demo_user_def)
  have "paging_ok demo_user = paging_ok demo_mem"
    unfolding paging_ok_def self_map_def tables_def free_mem_def d p by (simp add: demo_user_def)
  then show "paging_ok demo_user" using demo_paging_ok by simp
  show "pools_split demo_user" using demo_paging_ok by (simp add: demo_user_def pools_split_def)
  show "frames_for pf n demo_user = frames_for pf n demo_mem"
    by (cases pf) (simp_all add: demo_user_def frames_for_def)
qed

lemma demo_user_vpool: "vpool_ok PF_USER demo_user" "\<exists>s. free_run (vaddr_bitmap (vpool_of PF_USER demo_user)) s 3"
proof -
  let ?b = "\<lparr>btmp_bytes_len = 94199, bits = replicate 94198 0 @ [0x80 :: u8]\<rparr>"
  have vp: "vpool_of PF_USER demo_user = \<lparr>vaddr_bitmap = ?b, vaddr_start = 0x8048000\<rparr>"
    by (simp add: vpool_of_def demo_user_def)
  have n: "nbits ?b = 753592" by (simp add: nbits_def)
  have "bit_at ?b 753591" by (simp add: bit_at_def nth_append)
  then have top: "753591 \<in> used ?b" by (simp add: used_def n)
  have "page_map demo_user (32840 + i) = None" if "i < 753592" for i
    unfolding demo_user_same by (rule demo_page_map) (use that in \<open>simp add: low_page_idx\<close>)
  then show "vpool_ok PF_USER demo_user"
    using top by (auto simp: vpool_ok_def Let_def vp n page_of_def wf_bitmap_def)
  have "free_run ?b 0 3" by (auto simp: free_run_def n bit_at_def nth_append)
  then show "\<exists>s. free_run (vaddr_bitmap (vpool_of PF_USER demo_user)) s 3" by (auto simp: vp)
qed

lemma malloc_page_fresh_witness:
  "(\<exists>va m' fs. malloc_page PF_KERNEL 3 demo_mem = Inr (va, m') \<and> length fs = 3 \<and> distinct fs \<and>
      set fs \<subseteq> free_frames (kernel_pool demo_mem)) \<and>
   (\<exists>va m' fs. malloc_page PF_USER 3 demo_user = Inr (va, m') \<and> length fs = 3 \<and> distinct fs \<and>
      set fs \<subseteq> free_frames (user_pool demo_user))"
proof -
  have r: "\<exists>s. free_run (vaddr_bitmap (vpool_of PF_KERNEL demo_mem)) s 3" using demo_run [of 3] by auto
  have f: "frames_for PF_KERNEL 3 demo_mem" "frames_for PF_USER 3 demo_user"
    by (simp_all add: demo_user_same) (simp_all add: frames_for_def)
  have n: "(0 :: nat) < 3" "(3 :: nat) < 3840" by simp_all
  note k = malloc_page_fresh [OF demo_paging_ok(1) demo_vpool_ok n r f(1), unfolded pool_of_def pool_flags.case]
  note u = malloc_page_fresh [OF demo_user_same(2) demo_user_vpool(1) n demo_user_vpool(2) f(2), unfolded pool_of_def pool_flags.case]
  obtain va m' fs where "malloc_page PF_KERNEL 3 demo_mem = Inr (va, m')" "length fs = 3" "distinct fs"
    "set fs \<subseteq> free_frames (kernel_pool demo_mem)"
    using k by (elim exE conjE) (rule that)
  moreover obtain va' m'' fs' where "malloc_page PF_USER 3 demo_user = Inr (va', m'')" "length fs' = 3" "distinct fs'"
    "set fs' \<subseteq> free_frames (user_pool demo_user)"
    using u by (elim exE conjE) (rule that)
  ultimately show ?thesis by blast
qed

text \<open>
  C24: \<open>mfree_page\<close> undoes \<open>malloc_page\<close>, for the kernel and for a process. Giving back the pages that
  a request returned (one as in the claim before, that is served) succeeds, when the frames of the
  kernel lie below those of processes as \<open>mem_pool_init\<close> puts them;
  then every page from 4 MB up leads where it led before the request, the address pool has the
  same pages in use as before, and all frames the pages had are free again. (A page table that
  the request had to add stays.)
\<close>

theorem malloc_page_mfree_page:
  assumes "paging_ok m" "pools_split m" "vpool_ok pf m" "0 < pg_cnt" "pg_cnt < 3840"
    "\<exists>s. free_run (vaddr_bitmap (vpool_of pf m)) s pg_cnt" "frames_for pf pg_cnt m"
  shows "\<exists>va m1 m2 fs. malloc_page pf pg_cnt m = Inr (va, m1) \<and> mfree_page pf va pg_cnt m1 = Inr m2 \<and>
    paging_ok m2 \<and> vpool_ok pf m2 \<and> length fs = pg_cnt \<and>
    (\<forall>i < pg_cnt. page_map m1 (page_of va + i) = Some (fs ! i)) \<and> set fs \<subseteq> free_frames (pool_of pf m2) \<and>
    used (vaddr_bitmap (vpool_of pf m2)) = used (vaddr_bitmap (vpool_of pf m)) \<and>
    (\<forall>q \<in> low_pages. 1024 \<le> q \<longrightarrow> page_map m2 q = page_map m q)"
proof -
  obtain va m1 fs s where m1: "malloc_page pf pg_cnt m = Inr (va, m1)" "unat va mod 4096 = 0" "paging_ok m1"
    "vpool_ok pf m1" "length fs = pg_cnt" "set fs \<subseteq> free_frames (pool_of pf m)"
    "page_of va = page_of (vaddr_start (vpool_of pf m)) + s" "vaddr_start (vpool_of pf m1) = vaddr_start (vpool_of pf m)"
    "free_run (vaddr_bitmap (vpool_of pf m)) s pg_cnt"
    "nbits (vaddr_bitmap (vpool_of pf m1)) = nbits (vaddr_bitmap (vpool_of pf m))"
    "used (vaddr_bitmap (vpool_of pf m1)) = used (vaddr_bitmap (vpool_of pf m)) \<union> {s..<s + pg_cnt}"
    "same_pool (kernel_pool m) (kernel_pool m1)" "same_pool (user_pool m) (user_pool m1)"
    "frames_owned m1 (page_of va) fs" "\<forall>i < pg_cnt. page_map m (page_of va + i) = None"
    "\<forall>q \<in> low_pages. 1024 \<le> q \<and> q \<notin> {page_of va..<page_of va + pg_cnt} \<longrightarrow> page_map m1 q = page_map m q"
    using malloc_page_ok [OF assms(1,3-7)] by (elim exE conjE) (rule that)
  have sp: "pools_split m1"
    using assms(2) same_pool_nbits [OF m1(12)] same_pool_nbits [OF m1(13)] by (simp add: pools_split_def)
  have "pool_frames (pool_of pf m1) = pool_frames (pool_of pf m)"
    using m1(12,13) by (cases pf) (simp_all add: pool_of_def same_pool_def)
  then have sub: "set fs \<subseteq> pool_frames (pool_of pf m1)" using m1(6) free_pool_frames by blast
  have le: "s + length fs \<le> nbits (vaddr_bitmap (vpool_of pf m1))" using m1(5,9,10) by (simp add: free_run_def)
  have ne: "fs \<noteq> []" using m1(5) assms(4) by auto
  have below: "pf = PF_USER \<longrightarrow> page_of va + length fs \<le> 786431"
    using free_run_below_stack [OF assms(3) _ assms(4) m1(9)] m1(5,7) by simp
  obtain m2 where m2: "mfree_page pf va (length fs) m1 = Inr m2" "paging_ok m2" "vpool_ok pf m2"
    "free_frames (pool_of pf m2) = free_frames (pool_of pf m1) \<union> set fs"
    "used (vaddr_bitmap (vpool_of pf m2)) = used (vaddr_bitmap (vpool_of pf m1)) - {s..<s + length fs}"
    "\<forall>i < length fs. page_map m2 (page_of va + i) = None"
    "\<forall>q \<in> low_pages. 1024 \<le> q \<and> q \<notin> {page_of va..<page_of va + length fs} \<longrightarrow> page_map m2 q = page_map m1 q"
    using mfree_page_ok [OF m1(3) sp m1(4,2,14) ne sub _ le below, unfolded m1(8), OF m1(7)]
    by (elim exE conjE) (rule that)
  have "s + i \<notin> used (vaddr_bitmap (vpool_of pf m))" if "i < pg_cnt" for i
    using m1(9) that by (simp add: free_run_def used_def)
  then have "used (vaddr_bitmap (vpool_of pf m)) \<inter> {s..<s + pg_cnt} = {}"
    by (metis (no_types, lifting) disjoint_iff atLeastLessThan_iff le_Suc_ex nat_add_left_cancel_less)
  then have u: "used (vaddr_bitmap (vpool_of pf m2)) = used (vaddr_bitmap (vpool_of pf m))"
    using m2(5) m1(5,11) by auto
  have "page_map m2 q = page_map m q" if q: "q \<in> low_pages" "1024 \<le> q" for q
  proof (cases "q \<in> {page_of va..<page_of va + pg_cnt}")
    case True
    then obtain i where "q = page_of va + i" "i < pg_cnt" by (auto dest: le_Suc_ex)
    then show ?thesis using m2(6) m1(5,15) by simp
  next
    case False
    then show ?thesis using m2(7) m1(5,16) q by simp
  qed
  moreover have "\<forall>i < pg_cnt. page_map m1 (page_of va + i) = Some (fs ! i)" using m1(5,14) by (simp add: frames_owned_def)
  ultimately show ?thesis using m1(1,5) m2(1-4) u by (intro exI [of _ va] exI [of _ m1] exI [of _ m2] exI [of _ fs]) simp
qed

lemma malloc_page_mfree_page_witness:
  "(\<exists>va m1 m2 fs. malloc_page PF_KERNEL 2 demo_mem = Inr (va, m1) \<and> mfree_page PF_KERNEL va 2 m1 = Inr m2 \<and>
      length fs = 2 \<and> set fs \<subseteq> free_frames (kernel_pool m2)) \<and>
   (\<exists>va m1 m2 fs. malloc_page PF_USER 3 demo_user = Inr (va, m1) \<and> mfree_page PF_USER va 3 m1 = Inr m2 \<and>
      length fs = 3 \<and> set fs \<subseteq> free_frames (user_pool m2))"
proof -
  have r: "\<exists>s. free_run (vaddr_bitmap (vpool_of PF_KERNEL demo_mem)) s 2" using demo_run [of 2] by auto
  have f: "frames_for PF_KERNEL 2 demo_mem" "frames_for PF_USER 3 demo_user"
    by (simp_all add: demo_user_same) (simp_all add: frames_for_def)
  have n: "(0 :: nat) < 2" "(2 :: nat) < 3840" "(0 :: nat) < 3" "(3 :: nat) < 3840" by simp_all
  note k = malloc_page_mfree_page [OF demo_paging_ok demo_vpool_ok n(1,2) r f(1), unfolded pool_of_def pool_flags.case]
  note u = malloc_page_mfree_page [OF demo_user_same(2,3) demo_user_vpool(1) n(3,4) demo_user_vpool(2) f(2),
      unfolded pool_of_def pool_flags.case]
  show ?thesis using k u by (elim exE conjE) (intro conjI exI; assumption)
qed

lemma halves_sum:
  fixes a b h n :: nat
  assumes "a \<le> h" "b \<le> n - h" "h \<le> a + 7" "n - h \<le> b + 7"
  shows "n \<le> a + b + 14" "h \<le> n \<Longrightarrow> a + b \<le> n" "h \<le> n \<Longrightarrow> h + b \<le> n"
  using assms by linarith+

text \<open>
  C25: The pools that \<open>mem_pool_init\<close> sets up. For every memory size from 2 MB on, all frames of
  the two pools lie behind the page tables and inside the memory, the kernel's below the
  user's, none in both, and all are free. Below 258 MB at most 14 frames of the free memory are
  left out; but the page count is an \<open>uint16_t\<close>, so never more than 65535 frames are managed, and
  a machine with exactly 258 MB gets two empty pools.
\<close>

theorem mem_pool_init_bounds:
  assumes "0x200000 \<le> unat all_mem" "16384 \<le> length area" and m': "m' = mem_pool_init all_mem area m"
  shows "wf_pool (kernel_pool m') \<and> wf_pool (user_pool m') \<and> pools_split m' \<and>
    free_frames (kernel_pool m') = pool_frames (kernel_pool m') \<and> free_frames (user_pool m') = pool_frames (user_pool m') \<and>
    pool_frames (kernel_pool m') \<inter> pool_frames (user_pool m') = {} \<and>
    pool_frames (kernel_pool m') \<union> pool_frames (user_pool m') \<subseteq> {0x200..<unat all_mem div 4096} \<and>
    card (pool_frames (kernel_pool m') \<union> pool_frames (user_pool m')) \<le> 65535 \<and>
    (unat all_mem < 0x10200000 \<longrightarrow> (unat all_mem - 0x200000) div 4096 \<le>
       card (pool_frames (kernel_pool m') \<union> pool_frames (user_pool m')) + 14) \<and>
    (unat all_mem = 0x10200000 \<longrightarrow> pool_frames (kernel_pool m') \<union> pool_frames (user_pool m') = {})"
proof -
  define n where "n = free_pages_of (unat all_mem)"
  note N = mem_pool_init_numbers [OF assms(1) m' n_def]
  note U = mem_pool_init_unused [of all_mem area m, folded m']
  have fr: "pool_frames p = {frame_of (phy_addr_start p)..<frame_of (phy_addr_start p) + nbits (pool_bitmap p)}" for p
    using image_add_atLeastLessThan [of "frame_of (phy_addr_start p)" 0 "nbits (pool_bitmap p)"]
    by (simp add: pool_frames_def frame_nr_def lessThan_def [symmetric] lessThan_atLeast0 add.commute)
  have st: "frame_of (phy_addr_start (kernel_pool m')) = 0x200"
    "frame_of (phy_addr_start (user_pool m')) = 0x200 + n div 2"
    using N(1,2) by (simp_all add: frame_of_div)
  have n: "n < 65536" "n \<le> (unat all_mem - 0x200000) div 4096" "0x200 + n \<le> unat all_mem div 4096"
  proof -
    show "n < 65536" "n \<le> (unat all_mem - 0x200000) div 4096" by (simp_all add: n_def free_pages_of_def)
    then show "0x200 + n \<le> unat all_mem div 4096" using assms(1) by (simp add: div_add1_eq [symmetric]) 
  qed
  let ?K = "{0x200..<0x200 + n div 2 div 8 * 8}" and ?U = "{0x200 + n div 2..<0x200 + n div 2 + (n - n div 2) div 8 * 8}"
  have K: "pool_frames (kernel_pool m') = ?K" "pool_frames (user_pool m') = ?U" unfolding fr st N(3,4) by simp_all
  have free: "free_frames (kernel_pool m') = pool_frames (kernel_pool m')" "free_frames (user_pool m') = pool_frames (user_pool m')"
    by (simp_all add: free_frames_def pool_frames_def U)
  have b: "n div 2 div 8 * 8 \<le> n div 2" "(n - n div 2) div 8 * 8 \<le> n - n div 2"
    "n div 2 \<le> n div 2 div 8 * 8 + 7" "n - n div 2 \<le> (n - n div 2) div 8 * 8 + 7" by linarith+
  have dis: "?K \<inter> ?U = {}" using b(1) by auto
  have card: "card (?K \<union> ?U) = n div 2 div 8 * 8 + (n - n div 2) div 8 * 8" using dis by (simp add: card_Un_disjoint)
  have len: "n div 2 div 8 + (n - n div 2) div 8 \<le> length area" using n(1) assms(2) by linarith
  have wfb: "wf_bitmap (pool_bitmap (kernel_pool m'))" "wf_bitmap (pool_bitmap (user_pool m'))"
    using page_counts [OF assms(1), folded n_def] len
    by (simp_all add: m' mem_pool_init_def Let_def wf_bitmap_def bitmap_init_def unat_div)
  have bb: "0x200 + n div 2 div 8 * 8 \<le> 1048576" "0x200 + n div 2 + (n - n div 2) div 8 * 8 \<le> 1048576"
    using b(1,2) n(1) by linarith+
  have wf: "wf_pool (kernel_pool m')" "wf_pool (user_pool m')"
    unfolding wf_pool_def using wfb N st bb by (simp_all add: word_less_nat_alt)
  have c0: "n = (unat all_mem - 0x200000) div 4096" if "unat all_mem < 0x10200000"
    using that by (simp add: n_def free_pages_of_def)
  have c1: "unat all_mem < 0x10200000 \<longrightarrow> (unat all_mem - 0x200000) div 4096 \<le> card (?K \<union> ?U) + 14"
  proof
    assume "unat all_mem < 0x10200000"
    from c0 [OF this, symmetric] show "(unat all_mem - 0x200000) div 4096 \<le> card (?K \<union> ?U) + 14"
      unfolding card by (simp only: halves_sum [OF b])
  qed
  have c2: "n = 0" if "unat all_mem = 0x10200000" using that by (simp add: n_def free_pages_of_def)
  have hn: "n div 2 \<le> n" by simp
  have hi: "0x200 + n div 2 + (n - n div 2) div 8 * 8 \<le> unat all_mem div 4096"
    using halves_sum(3) [OF b hn] n(3) by linarith
  have lo: "0x200 + n div 2 div 8 * 8 \<le> unat all_mem div 4096"
    using b(1) hn n(3) by (meson add_left_mono le_trans)
  have sub: "?K \<union> ?U \<subseteq> {0x200..<unat all_mem div 4096}"
    by (rule Un_least; rule ivl_subset [THEN iffD2]) (use hi lo in simp_all)
  have c3: "card (?K \<union> ?U) \<le> 65535" unfolding card using halves_sum(2) [OF b hn] n(1) by linarith
  have sp: "pools_split m'" unfolding pools_split_def st N(3) by (intro conjI add_left_mono b(1)) simp
  have c4: "unat all_mem = 0x10200000 \<longrightarrow> ?K \<union> ?U = {}" by (intro impI, drule c2) simp
  show ?thesis unfolding free K by (intro conjI refl wf sp dis sub c1 c3 c4)
qed

lemma mem_pool_init_bounds_witness:
  "card (pool_frames (kernel_pool (mem_pool_init 0x2000000 (replicate 16384 0) demo_mem)) \<union>
     pool_frames (user_pool (mem_pool_init 0x2000000 (replicate 16384 0) demo_mem))) \<ge> 7666 \<and>
   pool_frames (user_pool (mem_pool_init 0x10200000 (replicate 16384 0) demo_mem)) = {}"
  using mem_pool_init_bounds [of "0x2000000" "replicate 16384 0" _ demo_mem, OF _ _ refl]
    mem_pool_init_bounds [of "0x10200000" "replicate 16384 0" _ demo_mem, OF _ _ refl] by simp

text \<open>
  The frames of the processes are handed out one at a time, each to one owner. From any state of
  the pool as many requests succeed as there are free frames; they return all free frames,
  none twice, and the request after the last one panics. A frame that is given back with
  \<open>pfree\<close> right after it was taken leaves the pool's set of frames in use as it was.
\<close>

theorem user_frames_exhaust:
  assumes "wf_pool (user_pool m)"
  shows "(\<exists>pas m'. allocs user_frame_alloc (card (user_addrs (free_frames (user_pool m)))) m = Inr (pas, m') \<and>
      distinct pas \<and> set pas = user_addrs (free_frames (user_pool m)) \<and> panics (user_frame_alloc m')) \<and>
    (\<forall>pa m1. user_frame_alloc m = Inr (pa, m1) \<longrightarrow>
      (\<exists>m2. pfree pa m1 = Inr m2 \<and> user_addrs (pool_frames (user_pool m2) - free_frames (user_pool m2)) =
        user_addrs (pool_frames (user_pool m) - free_frames (user_pool m))))"
proof (intro conjI allI impI)
  have ok: "user_frames_ok m" using assms by (simp add: user_frames_ok_def)
  note free = user_addrs_free [of "user_pool m"]
  show "\<exists>pas m'. allocs user_frame_alloc (card (user_addrs (free_frames (user_pool m)))) m = Inr (pas, m') \<and>
      distinct pas \<and> set pas = user_addrs (free_frames (user_pool m)) \<and> panics (user_frame_alloc m')"
    using user_frames.allocs_exhaust [OF ok, unfolded free]
    by (elim exE conjE) (intro exI conjI; assumption)
  fix pa m1 assume a: "user_frame_alloc m = Inr (pa, m1)"
  have "user_addrs (pool_frames (user_pool m) - free_frames (user_pool m)) \<noteq> user_addrs (pool_frames (user_pool m))"
    using a user_frames.alloc_full [OF ok] by (auto simp: panics_def)
  from user_frames.alloc_release [OF ok a this]
  show "\<exists>m2. pfree pa m1 = Inr m2 \<and> user_addrs (pool_frames (user_pool m2) - free_frames (user_pool m2)) =
        user_addrs (pool_frames (user_pool m) - free_frames (user_pool m))"
    by (elim exE conjE) (intro exI conjI; assumption)
qed

lemma user_frames_exhaust_witness:
  "\<exists>pas m'. allocs user_frame_alloc (card (user_addrs (free_frames (user_pool demo_mem)))) demo_mem = Inr (pas, m') \<and>
    distinct pas \<and> panics (user_frame_alloc m')"
proof -
  have "wf_pool (user_pool demo_mem)" using paging_okD [OF demo_paging_ok(1)] by simp
  from user_frames_exhaust [OF this, THEN conjunct1] show ?thesis
    by (elim exE conjE) (intro exI conjI; assumption)
qed

end
