(* ===== verification/Heap.thy ===== *)
theory Heap
  imports Paging
begin

text \<open>
  \<open>kernel/memory.c\<close>, the second half: \<open>sys_malloc\<close> and \<open>sys_free\<close>. A request of more than
  1024 bytes gets pages of its own; a smaller one gets a block of one of seven sizes, cut from
  a page, the arena.

  The header of an arena lies in the first 12 bytes of its page and is read and written through
  the page tables: word 0 is \<open>desc\<close>, word 1 \<open>cnt\<close> and word 2 \<open>large\<close>. The free list of a
  descriptor is a HOL list of block addresses (theory \<open>Klist\<close> shows what the linked list of
  the kernel does); its links, which the code keeps in the first 8 bytes of a free block, are
  not part of \<open>ram\<close>.
\<close>

section \<open>Descriptors\<close>

abbreviation DESC_CNT :: nat where "DESC_CNT \<equiv> 7"

record mem_block_desc =
  block_size :: u32
  blocks_per_arena :: u32
  free_list :: "u32 list"

text \<open>
  The descriptors of the kernel, at an address the linker chooses, and those in the PCB of each
  process, at the offset that \<open>struct task\<close> gives the field \<open>u_block_descs\<close>. A descriptor is
  24 bytes long: two numbers and the head and the tail of the list, of 8 bytes each.
\<close>

record heapk = memk +
  k_descs_base :: u32
  k_block_descs :: "mem_block_desc list"
  u_block_descs :: "tid \<Rightarrow> mem_block_desc list"

abbreviation DESC_BYTES :: u32 where "DESC_BYTES \<equiv> 24"
abbreviation U_DESCS_OFFSET :: u32 where "U_DESCS_OFFSET \<equiv> 100"
abbreviation ARENA_BYTES :: u32 where "ARENA_BYTES \<equiv> 12"

fun descs_from :: "nat \<Rightarrow> u32 \<Rightarrow> mem_block_desc list" where
  "descs_from 0 sz = []"
| "descs_from (Suc n) sz =
     \<lparr>block_size = sz, blocks_per_arena = (4096 - ARENA_BYTES) div sz, free_list = []\<rparr> # descs_from n (sz * 2)"

definition block_descs_init :: "mem_block_desc list" where
  "block_descs_init = descs_from DESC_CNT 16"

text \<open>The descriptors of a process (\<open>Some\<close> its PCB) or of the kernel (\<open>None\<close>).\<close>

definition descs_of :: "tid option \<Rightarrow> 'a heapk_scheme \<Rightarrow> mem_block_desc list" where
  "descs_of ow m = (case ow of None \<Rightarrow> k_block_descs m | Some t \<Rightarrow> u_block_descs m t)"

definition set_descs :: "tid option \<Rightarrow> mem_block_desc list \<Rightarrow> 'a heapk_scheme \<Rightarrow> 'a heapk_scheme" where
  "set_descs ow ds m = (case ow of
     None \<Rightarrow> m\<lparr>k_block_descs := ds\<rparr> | Some t \<Rightarrow> m\<lparr>u_block_descs := (u_block_descs m)(t := ds)\<rparr>)"

text \<open>The address of a descriptor, and the descriptor at an address.\<close>

definition desc_addr :: "tid option \<Rightarrow> nat \<Rightarrow> 'a heapk_scheme \<Rightarrow> u32" where
  "desc_addr ow i m =
     (case ow of None \<Rightarrow> k_descs_base m | Some t \<Rightarrow> of_nat t + U_DESCS_OFFSET) + of_nat i * DESC_BYTES"

definition desc_at :: "u32 \<Rightarrow> 'a heapk_scheme \<Rightarrow> tid option \<times> nat" where
  "desc_at p m =
     (if p - k_descs_base m < of_nat DESC_CNT * DESC_BYTES
      then (None, unat (p - k_descs_base m) div 24)
      else (Some (unat (p AND 0xfffff000)), unat ((p AND 0xfff) - U_DESCS_OFFSET) div 24))"

definition get_desc :: "u32 \<Rightarrow> 'a heapk_scheme \<Rightarrow> mem_block_desc res" where
  "get_desc p m =
     (let (ow, i) = desc_at p m; ds = descs_of ow m in GUARD (i < length ds) ''a->desc'' (Inr (ds ! i)))"

definition set_free_list :: "u32 \<Rightarrow> u32 list \<Rightarrow> 'a heapk_scheme \<Rightarrow> 'a heapk_scheme" where
  "set_free_list p l m =
     (let (ow, i) = desc_at p m; ds = descs_of ow m in set_descs ow (ds[i := (ds ! i)\<lparr>free_list := l\<rparr>]) m)"

section \<open>Arenas\<close>

definition a_desc :: "u32 \<Rightarrow> 'a heapk_scheme \<Rightarrow> u32 res" where
  "a_desc a m = load a m"

definition a_cnt :: "u32 \<Rightarrow> 'a heapk_scheme \<Rightarrow> u32 res" where
  "a_cnt a m = load (a + 4) m"

definition a_large :: "u32 \<Rightarrow> 'a heapk_scheme \<Rightarrow> u32 res" where
  "a_large a m = load (a + 8) m"

definition arena2block :: "u32 \<Rightarrow> u32 \<Rightarrow> 'a heapk_scheme \<Rightarrow> u32 res" where
  "arena2block a idx m =
     bnd (a_desc a m) (\<lambda>d. bnd (get_desc d m) (\<lambda>desc. Inr (a + ARENA_BYTES + idx * block_size desc)))"

definition block2arena :: "u32 \<Rightarrow> u32" where
  "block2arena b = b AND 0xfffff000"

text \<open>\<open>memset(va, 0, 4 * n)\<close> at an address that is a multiple of 4.\<close>

fun zero_words :: "nat \<Rightarrow> u32 \<Rightarrow> 'a heapk_scheme \<Rightarrow> 'a heapk_scheme res" where
  "zero_words 0 va m = Inr m"
| "zero_words (Suc n) va m = bnd (store va 0 m) (zero_words n (va + 4))"

text \<open>The loop that cuts an arena into blocks and puts them into the free list.\<close>

fun split_arena :: "u32 \<Rightarrow> nat list \<Rightarrow> 'a heapk_scheme \<Rightarrow> 'a heapk_scheme res" where
  "split_arena a [] m = Inr m"
| "split_arena a (block_idx # js) m =
     bnd (arena2block a (of_nat block_idx) m) (\<lambda>b.
     bnd (a_desc a m) (\<lambda>d.
     bnd (get_desc d m) (\<lambda>desc.
     ASSERT (b \<notin> set (free_list desc)) ''!elem_find(&a->desc->free_list, &b->free_elem)''
      (split_arena a js (set_free_list d (free_list desc @ [b]) m)))))"

section \<open>Allocation\<close>

text \<open>Who asks: a process (it has a page directory) or the kernel.\<close>

definition heap_owner :: "'a heapk_scheme \<Rightarrow> tid option" where
  "heap_owner m = (if pgdir (tasks m (running_thread m)) \<noteq> None then Some (running_thread m) else None)"

definition pool_flag :: "tid option \<Rightarrow> pool_flags" where
  "pool_flag ow = (if ow = None then PF_KERNEL else PF_USER)"

text \<open>More than 1024 bytes: the case of pages of its own.\<close>

definition malloc_large :: "pool_flags \<Rightarrow> u32 \<Rightarrow> 'a heapk_scheme \<Rightarrow> (u32 \<times> 'a heapk_scheme) res" where
  "malloc_large PF sz m =
     (let pg_cnt = (sz + ARENA_BYTES + 4096 - 1) div 4096 in
      bnd (malloc_page PF (unat pg_cnt) m) (\<lambda>(a, m).
      if a \<noteq> 0
      then bnd (zero_pages (unat pg_cnt) a m) (\<lambda>m.
           bnd (store (a + 4) pg_cnt m) (\<lambda>m.
           bnd (store a 0 m) (\<lambda>m.
           bnd (store (a + 8) 1 m) (\<lambda>m.
           bnd (release_pool PF m) (\<lambda>m. Inr (a + ARENA_BYTES, m))))))
      else bnd (release_pool PF m) (\<lambda>m. Inr (0, m))))"

text \<open>
  A new arena for the descriptor at \<open>d\<close> when its free list is empty: \<open>False\<close> when there is no
  page. The blocks are put into the list with interrupts off.
\<close>

definition new_arena :: "pool_flags \<Rightarrow> u32 \<Rightarrow> 'a heapk_scheme \<Rightarrow> (bool \<times> 'a heapk_scheme) res" where
  "new_arena PF d m =
     bnd (malloc_page PF 1 m) (\<lambda>(a, m).
     if a = 0 then Inr (False, m)
     else bnd (zero_pages 1 a m) (\<lambda>m.
          bnd (get_desc d m) (\<lambda>desc.
          bnd (store (a + 4) (blocks_per_arena desc) m) (\<lambda>m.
          bnd (store a d m) (\<lambda>m.
          bnd (store (a + 8) 0 m) (\<lambda>m.
          let (old_status, m) = intr_disable m in
          bnd (split_arena a [0..<unat (blocks_per_arena desc)] m) (\<lambda>m.
          Inr (True, snd (intr_set_status old_status m)))))))))"

text \<open>The first block of the free list: it leaves the list, is cleared and counted as in use.\<close>

definition take_block :: "u32 \<Rightarrow> 'a heapk_scheme \<Rightarrow> (u32 \<times> 'a heapk_scheme) res" where
  "take_block d m =
     bnd (get_desc d m) (\<lambda>desc.
     GUARD (free_list desc \<noteq> []) ''list_pop(&desc[desc_idx].free_list)''
      (let b = hd (free_list desc);
           m = set_free_list d (tl (free_list desc)) m
       in bnd (zero_words (unat (block_size desc div 4)) b m) (\<lambda>m.
          let a = block2arena b in
          bnd (a_cnt a m) (\<lambda>n.
          bnd (store (a + 4) (n - 1) m) (\<lambda>m. Inr (b, m))))))"

definition malloc_small :: "pool_flags \<Rightarrow> tid option \<Rightarrow> u32 \<Rightarrow> 'a heapk_scheme \<Rightarrow> (u32 \<times> 'a heapk_scheme) res" where
  "malloc_small PF ow sz m =
     (case find (\<lambda>i. sz \<le> block_size (descs_of ow m ! i)) [0..<DESC_CNT] of
        None \<Rightarrow> Inl (Fault ''desc[DESC_CNT]'')
      | Some desc_idx \<Rightarrow>
          let d = desc_addr ow desc_idx m in
          bnd (get_desc d m) (\<lambda>desc.
          bnd (if free_list desc = [] then new_arena PF d m else Inr (True, m)) (\<lambda>(ok, m).
          if \<not> ok then bnd (release_pool PF m) (\<lambda>m. Inr (0, m))
          else bnd (take_block d m) (\<lambda>(b, m).
               bnd (release_pool PF m) (\<lambda>m. Inr (b, m))))))"

definition sys_malloc :: "u32 \<Rightarrow> 'a heapk_scheme \<Rightarrow> (u32 \<times> 'a heapk_scheme) res" where
  "sys_malloc sz m =
     (let ow = heap_owner m; PF = pool_flag ow in
      if \<not> (sz > 0 \<and> sz < pool_size (pool_of PF m)) then Inr (0, m)
      else bnd (acquire_pool PF m) (\<lambda>m.
           if sz > 1024 then malloc_large PF sz m else malloc_small PF ow sz m))"

section \<open>Release\<close>

text \<open>The loop that takes the blocks of an unused arena out of the free list.\<close>

fun unlink_arena :: "u32 \<Rightarrow> nat list \<Rightarrow> 'a heapk_scheme \<Rightarrow> 'a heapk_scheme res" where
  "unlink_arena a [] m = Inr m"
| "unlink_arena a (bk_idx # js) m =
     bnd (arena2block a (of_nat bk_idx) m) (\<lambda>b.
     bnd (a_desc a m) (\<lambda>d.
     bnd (get_desc d m) (\<lambda>desc.
     ASSERT (b \<in> set (free_list desc)) ''elem_find(&a->desc->free_list, &b->free_elem)''
      (unlink_arena a js (set_free_list d (remove1 b (free_list desc)) m)))))"

definition free_small :: "pool_flags \<Rightarrow> u32 \<Rightarrow> u32 \<Rightarrow> 'a heapk_scheme \<Rightarrow> 'a heapk_scheme res" where
  "free_small pf a b m =
     bnd (a_desc a m) (\<lambda>d.
     bnd (get_desc d m) (\<lambda>desc.
     let m = set_free_list d (free_list desc @ [b]) m in
     bnd (a_cnt a m) (\<lambda>n.
     bnd (store (a + 4) (n + 1) m) (\<lambda>m.
     if n + 1 = blocks_per_arena desc
     then bnd (unlink_arena a [0..<unat (blocks_per_arena desc)] m) (mfree_page pf a 1)
     else Inr m))))"

definition sys_free :: "u32 \<Rightarrow> 'a heapk_scheme \<Rightarrow> 'a heapk_scheme res" where
  "sys_free ptr m =
     ASSERT (ptr \<noteq> 0) ''ptr != NULL''
      (let ow = heap_owner m; pf = pool_flag ow in
       ASSERT (ow = None \<longrightarrow> ptr \<ge> K_HEAP_START) ''(uint32_t)ptr >= K_HEAP_START''
        (bnd (acquire_pool pf m) (\<lambda>m.
         let a = block2arena ptr in
         bnd (a_large a m) (\<lambda>large.
         ASSERT (large = 1 \<or> large = 0) ''a->large == 1 || a->large == 0''
          (bnd (a_desc a m) (\<lambda>d.
           bnd (if d = 0 \<and> large = 1 then bnd (a_cnt a m) (\<lambda>n. mfree_page pf a (unat n) m)
                else free_small pf a ptr m)
            (release_pool pf)))))))"

section \<open>Start\<close>

text \<open>\<open>mem_init\<close>: \<open>mem_bytes_total\<close> is the number the boot loader left at address 0xb00.\<close>

definition mem_init :: "u32 \<Rightarrow> u8 list \<Rightarrow> 'a heapk_scheme \<Rightarrow> 'a heapk_scheme" where
  "mem_init mem_bytes_total area m =
     (mem_pool_init mem_bytes_total area m)\<lparr>k_block_descs := block_descs_init\<rparr>"

section \<open>Data pages\<close>

text \<open>A frame that is neither the page directory nor a page table: writing to it maps nothing.\<close>

definition data_frame :: "nat \<Rightarrow> 'a memk_scheme \<Rightarrow> bool" where
  "data_frame f m \<longleftrightarrow> f \<noteq> frame_of (pd_base m) \<and> f \<notin> tables m"

definition set_frame :: "nat \<Rightarrow> (nat \<Rightarrow> u32) \<Rightarrow> 'a memk_scheme \<Rightarrow> 'a memk_scheme" where
  "set_frame f g m = m\<lparr>ram := (ram m)(f := g)\<rparr>"

lemma set_frame_simps [simp]:
  "ram (set_frame f g m) f = g" "set_frame f h (set_frame f g m) = set_frame f h m"
  "pd_base (set_frame f g m) = pd_base m" "kernel_pool (set_frame f g m) = kernel_pool m"
  "user_pool (set_frame f g m) = user_pool m" "cur (set_frame f g m) = cur m" "tasks (set_frame f g m) = tasks m"
  "set_frame f (ram m f) m = m"
  by (simp_all add: set_frame_def)

lemma poke_set_frame: "poke f i w m = set_frame f ((ram m f)(i := w)) m"
  by (simp add: poke_def set_frame_def)

lemma dir_entry_set_frame: "data_frame f m \<Longrightarrow> dir_entry_of (set_frame f g m) = dir_entry_of m"
  by (auto simp: data_frame_def dir_entry_of_def set_frame_def)

lemma data_frame_set_frame [simp]: "data_frame f m \<Longrightarrow> data_frame f (set_frame f g m)"
  using dir_entry_set_frame [of f m g] by (simp add: data_frame_def tables_def)

lemma page_map_set_frame [simp]:
  "data_frame f m \<Longrightarrow> p \<in> low_pages \<Longrightarrow> page_map (set_frame f g m) p = page_map m p"
proof -
  assume f: "data_frame f m" "p \<in> low_pages"
  have "frame_of (dir_entry_of m (p div 1024)) \<noteq> f" if "present (dir_entry_of m (p div 1024))"
    using f that by (auto simp: data_frame_def tables_def low_pages_def)
  then have "ram (set_frame f g m) (frame_of (dir_entry_of m (p div 1024))) = ram m (frame_of (dir_entry_of m (p div 1024)))"
    if "present (dir_entry_of m (p div 1024))" using that by (simp add: set_frame_def)
  then show ?thesis by (auto simp: page_map_def dir_entry_set_frame [OF f(1)] Let_def)
qed

text \<open>Accesses to a page that is mapped to such a frame.\<close>

definition on_page :: "u32 \<Rightarrow> nat \<Rightarrow> 'a memk_scheme \<Rightarrow> bool" where
  "on_page va f m \<longleftrightarrow> page_of va \<in> low_pages \<and> page_map m (page_of va) = Some f \<and> data_frame f m"

abbreviation word_in :: "u32 \<Rightarrow> nat" where
  "word_in va \<equiv> unat va mod 4096 div 4"

lemma mmu_on_page: "on_page va f m \<Longrightarrow> \<exists>pa. mmu m va = Some pa \<and> frame_of pa = f \<and> word_of pa = word_in va"
  by (auto simp: on_page_def mmu_page_map page_map_def pte_at_tab Let_def split: if_splits)

lemma load_on_page: "on_page va f m \<Longrightarrow> load va m = Inr (ram m f (word_in va))"
  using mmu_on_page [of va f m] by (auto simp: load_def)

lemma store_on_page: "on_page va f m \<Longrightarrow> store va w m = Inr (set_frame f ((ram m f)(word_in va := w)) m)"
  using mmu_on_page [of va f m] by (auto simp: store_def set_frame_def)

lemma on_page_set_frame [simp]: "on_page va f m \<Longrightarrow> on_page va f (set_frame f g m)"
  by (simp add: on_page_def)

lemma on_page_same: "on_page va f m \<Longrightarrow> page_of vb = page_of va \<Longrightarrow> on_page vb f m"
  by (simp add: on_page_def)

text \<open>Words of a page: address \<open>va + 4 * i\<close>, as long as it stays on the page.\<close>

lemma word_step:
  assumes "unat va mod 4096 + k < 4096"
  shows "page_of (va + of_nat k) = page_of va" "unat (va + of_nat k) mod 4096 = unat va mod 4096 + k"
proof -
  obtain q r where qr: "unat va div 4096 = q" "unat va mod 4096 = r" "unat va = q * 4096 + r"
    by (metis div_mult_mod_eq)
  have "q < 1048576" using page_of_less(1) [of va] qr(1) by (simp add: page_of_def)
  moreover have "r + k < 4096" using assms qr(2) by simp
  ultimately have "q * 4096 + r + k < 4294967296" by linarith
  then have "unat va + k < 2 ^ 32" using qr(3) by simp
  then have u: "unat (va + of_nat k) = q * 4096 + (r + k)"
    using qr(3) by (simp add: unat_word_ariths unsigned_of_nat take_bit_nat_eq_self)
  show "page_of (va + of_nat k) = page_of va" "unat (va + of_nat k) mod 4096 = unat va mod 4096 + k"
    unfolding page_of_def u qr(1,2) using assms qr(2) by simp_all
qed

definition zeroed :: "nat \<Rightarrow> nat \<Rightarrow> (nat \<Rightarrow> u32) \<Rightarrow> nat \<Rightarrow> u32" where
  "zeroed i n g = (\<lambda>j. if i \<le> j \<and> j < i + n then 0 else g j)"

lemma zeroed_0 [simp]: "zeroed i 0 g = g"
  by (auto simp: zeroed_def fun_eq_iff)

lemma zeroed_Suc: "zeroed (Suc i) n (g(i := 0)) = zeroed i (Suc n) g"
  by (auto simp: zeroed_def fun_eq_iff)

lemma zero_words_ok:
  "on_page va f m \<Longrightarrow> unat va mod 4 = 0 \<Longrightarrow> unat va mod 4096 + 4 * n \<le> 4096 \<Longrightarrow>
   zero_words n va m = Inr (set_frame f (zeroed (word_in va) n (ram m f)) m)"
proof (induction n arbitrary: va m)
  case 0
  then show ?case by simp
next
  case (Suc n)
  let ?m = "set_frame f ((ram m f)(word_in va := 0)) m"
  have s: "store va 0 m = Inr ?m" by (rule store_on_page [OF Suc.prems(1)])
  have lt: "n = 0 \<or> unat va mod 4096 + 4 < 4096" using Suc.prems(3) by (cases n) auto
  show ?case
  proof (cases "n = 0")
    case True
    then show ?thesis using s zeroed_Suc [of "word_in va" 0 "ram m f"] by simp
  next
    case False
    then have st: "page_of (va + 4) = page_of va" "unat (va + 4) mod 4096 = unat va mod 4096 + 4"
      using word_step [of va 4] lt by simp_all
    have w: "word_in (va + 4) = Suc (word_in va)" unfolding st(2) by simp
    have m4: "unat v mod 4096 mod 4 = unat v mod 4" for v :: u32 by (rule mod_mod_cancel) simp
    have a: "unat (va + 4) mod 4 = 0" using m4 [of "va + 4"] m4 [of va] Suc.prems(2) unfolding st(2) by simp
    have "zero_words n (va + 4) ?m = Inr (set_frame f (zeroed (Suc (word_in va)) n ((ram m f)(word_in va := 0))) m)"
    proof -
      have "on_page (va + 4) f ?m" by (rule on_page_same [OF on_page_set_frame [OF Suc.prems(1)] st(1)])
      from Suc.IH [OF this a] Suc.prems(3) w show ?thesis by (simp add: st(2) fun_upd_def)
    qed
    then show ?thesis using s by (simp add: zeroed_Suc)
  qed
qed

section \<open>Descriptors and locks do not touch memory\<close>

text \<open>A change of the heap state that leaves memory and page tables alone.\<close>

definition same_mem :: "'a memk_scheme \<Rightarrow> 'a memk_scheme \<Rightarrow> bool" where
  "same_mem m m' \<longleftrightarrow> ram m' = ram m \<and> pd_base m' = pd_base m"

lemma same_mem_page:
  assumes "same_mem m m'"
  shows "page_map m' = page_map m" "data_frame f m' = data_frame f m" "on_page va f m' = on_page va f m"
proof -
  have d: "dir_entry_of m' = dir_entry_of m" using assms by (simp add: same_mem_def dir_entry_of_def fun_eq_iff)
  show p: "page_map m' = page_map m" using assms by (simp add: fun_eq_iff page_map_def d same_mem_def)
  show f: "data_frame f m' = data_frame f m" using assms by (simp add: data_frame_def tables_def d same_mem_def)
  show "on_page va f m' = on_page va f m" by (simp add: on_page_def p f)
qed

lemma set_free_list_fields [simp]:
  "ram (set_free_list d l m) = ram m" "pd_base (set_free_list d l m) = pd_base m"
  "kernel_pool (set_free_list d l m) = kernel_pool m" "user_pool (set_free_list d l m) = user_pool m"
  "k_descs_base (set_free_list d l m) = k_descs_base m" "cur (set_free_list d l m) = cur m"
  "tasks (set_free_list d l m) = tasks m"
  by (simp_all add: set_free_list_def set_descs_def split_beta Let_def split: option.splits)

lemma set_frame_heap [simp]:
  "k_descs_base (set_frame f g m) = k_descs_base m" "descs_of ow (set_frame f g m) = descs_of ow m"
  "desc_at d (set_frame f g m) = desc_at d m" "get_desc d (set_frame f g m) = get_desc d m"
  "set_free_list d l (set_frame f g m) = set_frame f g (set_free_list d l m)"
  by (simp_all add: set_frame_def descs_of_def desc_at_def get_desc_def set_free_list_def set_descs_def split_beta Let_def
      split: option.splits)

lemma set_free_list_mem [simp]: "same_mem m (set_free_list d l m)"
  by (simp add: same_mem_def)

definition locked :: "pool_flags \<Rightarrow> 'a memk_scheme \<Rightarrow> 'a memk_scheme" where
  "locked PF m = set_pool PF ((pool_of PF m)\<lparr>pool_lock := lock_taken (cur m) (pool_lock (pool_of PF m))\<rparr>) m"

lemma acquire_pool_free: "lock_free (pool_lock (pool_of PF m)) \<Longrightarrow> acquire_pool PF m = Inr (locked PF m)"
  by (simp add: acquire_pool_def locked_def lock_acquire_free)

lemma locked_fields [simp]:
  "ram (locked PF m) = ram m" "pd_base (locked PF m) = pd_base m" "cur (locked PF m) = cur m" "tasks (locked PF m) = tasks m"
  "same_mem m (locked PF m)"
  by (cases PF; simp add: locked_def set_pool_def same_mem_def)+

lemma locked_heap [simp]:
  "k_descs_base (locked PF m) = k_descs_base m" "k_block_descs (locked PF m) = k_block_descs m"
  "u_block_descs (locked PF m) = u_block_descs m"
  by (cases PF; simp add: locked_def set_pool_def)+

lemma same_descs:
  assumes "k_descs_base m' = k_descs_base m" "k_block_descs m' = k_block_descs m" "u_block_descs m' = u_block_descs m"
  shows "descs_of ow m' = descs_of ow m" "desc_at d m' = desc_at d m" "get_desc d m' = get_desc d m"
    "desc_addr ow i m' = desc_addr ow i m"
proof -
  show o': "descs_of ow m' = descs_of ow m" for ow using assms by (simp add: descs_of_def split: option.splits)
  show a: "desc_at d m' = desc_at d m" using assms by (simp add: desc_at_def)
  show "get_desc d m' = get_desc d m" by (simp only: get_desc_def a o')
  show "desc_addr ow i m' = desc_addr ow i m" using assms by (simp add: desc_addr_def split: option.splits)
qed

lemmas locked_descs [simp] = same_descs [OF locked_heap]

text \<open>Work under the lock that touches frames and free lists, and then the release.\<close>

lemma release_pool_heap:
  assumes "lock_free (pool_lock (pool_of PF m))"
  shows "release_pool PF (set_frame f g (set_free_list d l (locked PF m))) = Inr (set_frame f g (set_free_list d l m))"
proof -
  let ?m = "set_frame f g (set_free_list d l (locked PF m))"
  have p: "pool_of PF ?m = (pool_of PF m)\<lparr>pool_lock := lock_taken (cur m) (pool_lock (pool_of PF m))\<rparr>"
    by (cases PF) (simp_all add: pool_of_def locked_def set_pool_def)
  have "lock_release (pool_lock (pool_of PF ?m)) ?m = Inr (pool_lock (pool_of PF m), ?m)"
    using lock_release_taken [OF assms, of ?m "cur m"] by (simp add: p)
  moreover have "set_pool PF ((pool_of PF ?m)\<lparr>pool_lock := pool_lock (pool_of PF m)\<rparr>) ?m = set_frame f g (set_free_list d l m)"
    unfolding p by (cases PF)
      (simp_all add: pool_of_def locked_def set_pool_def set_frame_def set_free_list_def set_descs_def desc_at_def
        descs_of_def Let_def split_beta split: option.splits)
  ultimately show ?thesis by (simp add: release_pool_def)
qed

text \<open>Reading back a free list.\<close>

lemma desc_at_set_free_list [simp]: "desc_at d (set_free_list e l m) = desc_at d m"
  by (simp add: desc_at_def)

lemma desc_addr_set_free_list [simp]: "desc_addr ow i (set_free_list e l m) = desc_addr ow i m"
  by (simp add: desc_addr_def split: option.splits)

lemma set_free_list_at:
  "desc_at d m = (ow, i) \<Longrightarrow> set_free_list d l m = set_descs ow ((descs_of ow m)[i := (descs_of ow m ! i)\<lparr>free_list := l\<rparr>]) m"
  by (simp add: set_free_list_def Let_def)

lemma descs_set_descs [simp]: "descs_of ow (set_descs ow ds m) = ds" "set_descs ow ds (set_descs ow es m) = set_descs ow ds m"
  by (simp_all add: descs_of_def set_descs_def split: option.splits)

lemma descs_set_free_list:
  "desc_at d m = (ow, i) \<Longrightarrow> descs_of ow (set_free_list d l m) = (descs_of ow m)[i := (descs_of ow m ! i)\<lparr>free_list := l\<rparr>]"
  by (simp add: set_free_list_at)

lemma get_desc_set_free_list:
  assumes "desc_at d m = (ow, i)" "i < length (descs_of ow m)"
  shows "get_desc d (set_free_list d l m) = Inr ((descs_of ow m ! i)\<lparr>free_list := l\<rparr>)"
  using assms by (simp add: get_desc_def descs_set_free_list)

lemma set_free_list_twice:
  assumes "desc_at d m = (ow, i)" "i < length (descs_of ow m)"
  shows "set_free_list d l (set_free_list d k m) = set_free_list d l m"
proof -
  have "desc_at d (set_free_list d k m) = (ow, i)" using assms(1) by simp
  note set_free_list_at [OF this, of l]
  then show ?thesis using assms by (simp add: descs_set_free_list [OF assms(1)]) (simp add: set_free_list_at)
qed

lemma heap_owner_same [simp]:
  "heap_owner (set_frame f g m) = heap_owner m" "heap_owner (set_free_list d l m) = heap_owner m" "heap_owner (locked PF m) = heap_owner m"
  by (simp_all add: heap_owner_def running_thread_def)

lemma pool_of_same [simp]: "pool_of PF (set_frame f g m) = pool_of PF m" "pool_of PF (set_free_list d l m) = pool_of PF m"
  by (simp_all add: pool_of_def split: pool_flags.splits)

section \<open>One block\<close>

lemma arena_words:
  assumes "unat a mod 4096 = 0"
  shows "page_of (a + 4) = page_of a" "page_of (a + 8) = page_of a" "word_in a = 0" "word_in (a + 4) = 1" "word_in (a + 8) = 2"
  using word_step [of a 4] word_step [of a 8] assms by simp_all

lemma block2arena_page [simp]: "unat (block2arena b) mod 4096 = 0" "page_of (block2arena b) = page_of b"
  by (simp_all add: block2arena_def page_of_def)

lemma take_block_ok:
  assumes "get_desc d m = Inr desc" "free_list desc = b # bs" "on_page b f m" "unat b mod 4 = 0"
    and "unat b mod 4096 + 4 * unat (block_size desc div 4) \<le> 4096" "12 \<le> unat b mod 4096"
  shows "take_block d m = Inr (b, set_frame f ((zeroed (word_in b) (unat (block_size desc div 4)) (ram m f))(1 := ram m f 1 - 1))
    (set_free_list d bs m))"
proof -
  let ?n = "unat (block_size desc div 4)" and ?m = "set_free_list d bs m" and ?a = "block2arena b"
  let ?m' = "set_frame f (zeroed (word_in b) ?n (ram m f)) ?m"
  have on: "on_page b f ?m" using assms(3) same_mem_page(3) [OF set_free_list_mem] by blast
  have z: "zero_words ?n b ?m = Inr ?m'" using zero_words_ok [OF on assms(4,5)] by simp
  have a4: "on_page (?a + 4) f ?m'"
    by (rule on_page_same [OF on_page_set_frame [OF on]]) (simp add: arena_words)
  have "1 < word_in b" using assms(6) by (simp add: div_le_mono [of 12 _ 4, simplified])
  then have "zeroed (word_in b) ?n (ram m f) 1 = ram m f 1" by (simp add: zeroed_def)
  then show ?thesis
    using assms(1,2) z load_on_page [OF a4] store_on_page [OF a4]
    by (simp add: take_block_def a_cnt_def arena_words Let_def del: One_nat_def)
qed

lemma free_small_ok:
  assumes "unat a mod 4096 = 0" "on_page a f m" "ram m f 0 = d" "get_desc d m = Inr desc" "ram m f 1 + 1 \<noteq> blocks_per_arena desc"
  shows "free_small pf a b m = Inr (set_frame f ((ram m f)(1 := ram m f 1 + 1)) (set_free_list d (free_list desc @ [b]) m))"
proof -
  let ?m = "set_free_list d (free_list desc @ [b]) m"
  have a4: "on_page (a + 4) f ?m"
    using on_page_same [OF assms(2)] arena_words(1) [OF assms(1)] same_mem_page(3) [OF set_free_list_mem] by blast
  show ?thesis
    using assms load_on_page [OF assms(2)] load_on_page [OF a4] store_on_page [OF a4]
    by (simp add: free_small_def a_desc_def a_cnt_def arena_words Let_def del: One_nat_def)
qed

section \<open>The sizes of blocks\<close>

abbreviation BLOCK_SIZES :: "u32 list" where
  "BLOCK_SIZES \<equiv> [16, 32, 64, 128, 256, 512, 1024]"

lemma size_words: "i < DESC_CNT \<Longrightarrow> unat (BLOCK_SIZES ! i) = 4 * unat (BLOCK_SIZES ! i div 4)"
proof -
  assume "i < DESC_CNT"
  then consider "i = 0" | "i = 1" | "i = 2" | "i = 3" | "i = 4" | "i = 5" | "i = 6" by linarith
  then show ?thesis by cases simp_all
qed

text \<open>The smallest size that is enough.\<close>

definition size_class :: "u32 \<Rightarrow> nat" where
  "size_class sz = length (filter (\<lambda>b. b < sz) BLOCK_SIZES)"

definition descs_ok :: "tid option \<Rightarrow> 'a heapk_scheme \<Rightarrow> bool" where
  "descs_ok ow m \<longleftrightarrow> map block_size (descs_of ow m) = BLOCK_SIZES \<and>
     map blocks_per_arena (descs_of ow m) = map (\<lambda>b. (4096 - ARENA_BYTES) div b) BLOCK_SIZES \<and>
     (\<forall>i < DESC_CNT. desc_at (desc_addr ow i m) m = (ow, i))"

lemma block_descs_init_sizes:
  "map block_size block_descs_init = BLOCK_SIZES"
  "map blocks_per_arena block_descs_init = map (\<lambda>b. (4096 - ARENA_BYTES) div b) BLOCK_SIZES"
  "length block_descs_init = 7"
  by (simp_all add: block_descs_init_def numeral_eq_Suc)

text \<open>The address of a descriptor of the kernel always leads back to it.\<close>

lemma kernel_desc_at: "i < DESC_CNT \<Longrightarrow> desc_at (desc_addr None i m) m = (None, i)"
proof -
  assume i: "i < DESC_CNT"
  have "unat (of_nat i * DESC_BYTES) = i * 24"
    using i by (simp add: unat_word_ariths unsigned_of_nat take_bit_nat_eq_self)
  then show ?thesis using i by (simp add: desc_at_def desc_addr_def word_less_nat_alt)
qed

lemma descs_ok_nth:
  assumes "descs_ok ow m" "i < DESC_CNT"
  shows "length (descs_of ow m) = 7" "block_size (descs_of ow m ! i) = BLOCK_SIZES ! i"
    "blocks_per_arena (descs_of ow m ! i) = (4096 - ARENA_BYTES) div (BLOCK_SIZES ! i)"
proof -
  have e: "map block_size (descs_of ow m) = BLOCK_SIZES"
    "map blocks_per_arena (descs_of ow m) = map (\<lambda>b. (4096 - ARENA_BYTES) div b) BLOCK_SIZES"
    using assms(1) by (simp_all add: descs_ok_def)
  show l: "length (descs_of ow m) = 7" using arg_cong [OF e(1), of length] by simp
  show "block_size (descs_of ow m ! i) = BLOCK_SIZES ! i" using l assms(2) by (simp add: e(1) [symmetric])
  show "blocks_per_arena (descs_of ow m ! i) = (4096 - ARENA_BYTES) div (BLOCK_SIZES ! i)"
  proof -
    have "map blocks_per_arena (descs_of ow m) ! i = map (\<lambda>b. (4096 - ARENA_BYTES) div b) BLOCK_SIZES ! i"
      by (simp only: e(2))
    moreover have "i < length BLOCK_SIZES" using assms(2) by simp
    ultimately show ?thesis using l assms(2) by (simp only: nth_map)
  qed
qed

lemma find_class:
  assumes "descs_ok ow m" "sz \<le> 1024"
  shows "find (\<lambda>i. sz \<le> block_size (descs_of ow m ! i)) [0..<DESC_CNT] = Some (size_class sz)"
    "size_class sz < DESC_CNT" "sz \<le> BLOCK_SIZES ! size_class sz"
    "size_class sz = 0 \<or> BLOCK_SIZES ! size_class sz < 2 * sz"
proof -
  have up: "[0..<DESC_CNT] = [0, 1, 2, 3, 4, 5, 6]" by (simp add: upt_rec)
  consider "sz \<le> 16" | "16 < sz" "sz \<le> 32" | "32 < sz" "sz \<le> 64" | "64 < sz" "sz \<le> 128" | "128 < sz" "sz \<le> 256"
    | "256 < sz" "sz \<le> 512" | "512 < sz" "sz \<le> 1024" using assms(2) by (meson linorder_not_le)
  then have "find (\<lambda>i. sz \<le> BLOCK_SIZES ! i) [0, 1, 2, 3, 4, 5, 6] = Some (size_class sz) \<and> size_class sz < DESC_CNT \<and>
    sz \<le> BLOCK_SIZES ! size_class sz \<and> (size_class sz = 0 \<or> BLOCK_SIZES ! size_class sz < 2 * sz)"
    by cases (auto simp: size_class_def word_less_nat_alt word_le_nat_alt unat_word_ariths)
  moreover have "find (\<lambda>i. sz \<le> block_size (descs_of ow m ! i)) [0, 1, 2, 3, 4, 5, 6] =
      find (\<lambda>i. sz \<le> BLOCK_SIZES ! i) [0, 1, 2, 3, 4, 5, 6]"
    by (rule find_cong) (auto simp: descs_ok_nth(2) [OF assms(1)])
  ultimately show "find (\<lambda>i. sz \<le> block_size (descs_of ow m ! i)) [0..<DESC_CNT] = Some (size_class sz)"
    "size_class sz < DESC_CNT" "sz \<le> BLOCK_SIZES ! size_class sz"
    "size_class sz = 0 \<or> BLOCK_SIZES ! size_class sz < 2 * sz" unfolding up by simp_all
qed

section \<open>A small heap, for examples\<close>

text \<open>
  The first page of the kernel's heap is an arena for blocks of 16 bytes, in frame \<open>0x200\<close>; its
  first two blocks are free.
\<close>

definition demo_heap :: heapk where
  "demo_heap = memk.extend (demo_mem\<lparr>ram := (ram demo_mem)
       (0x101 := (\<lambda>i. if i = 256 then 0x200007 else 0), 0x200 := (\<lambda>i. if i = 0 then 0xc0020000 else if i = 1 then 2 else 7)(2 := 0))\<rparr>)
     (heapk.fields 0xc0020000 (block_descs_init[0 := \<lparr>block_size = 16, blocks_per_arena = 255,
        free_list = [K_HEAP_START + 12, K_HEAP_START + 28]\<rparr>]) (\<lambda>t. block_descs_init))"

lemma demo_heap_simps [simp]:
  "pd_base demo_heap = 0x100000" "kernel_pool demo_heap = demo_pool 0x200000" "user_pool demo_heap = demo_pool 0x210000"
  "tasks demo_heap = demo_tasks" "cur demo_heap = 0x1000" "k_descs_base demo_heap = 0xc0020000"
  "k_block_descs demo_heap = block_descs_init[0 := \<lparr>block_size = 16, blocks_per_arena = 255,
     free_list = [K_HEAP_START + 12, K_HEAP_START + 28]\<rparr>]"
  "ram demo_heap = (ram demo_mem)
       (0x101 := (\<lambda>i. if i = 256 then 0x200007 else 0), 0x200 := (\<lambda>i. if i = 0 then 0xc0020000 else if i = 1 then 2 else 7)(2 := 0))"
  by (simp_all add: demo_heap_def demo_mem_def kernel.defs memk.defs heapk.defs demo_kernel_def)

lemma demo_heap_dir: "dir_entry_of demo_heap i = (if i = 1023 then 0x100007 else if i = 768 then 0x101007 else 0)"
  by (simp add: dir_entry_of_def frame_of_div)

lemma demo_heap_page: "on_page (K_HEAP_START + 12) 0x200 demo_heap"
proof -
  have p: "page_of 3222274060 = 786688" by (simp add: page_of_def)
  have t: "tables demo_heap = {0x101}"
    by (auto simp: tables_def demo_heap_dir frame_of_div split: if_splits intro: exI [of _ 768])
  have "page_map demo_heap 786688 = Some 0x200"
    by (simp add: page_map_def demo_heap_dir frame_of_div present_def)
  then show ?thesis by (simp add: on_page_def p t data_frame_def frame_of_div low_pages_def)
qed

lemma demo_heap_ok: "heap_owner demo_heap = None" "descs_ok None demo_heap"
  using kernel_desc_at [of _ demo_heap]
  by (simp_all add: heap_owner_def running_thread_def demo_tasks_def demo_task_def descs_ok_def descs_of_def
      map_update block_descs_init_sizes)

section \<open>Results\<close>

text \<open>
  C35: A small block is handed out and taken back. When the list of the smallest size that is
  enough has a free block \<open>b\<close>, in an arena with another block in use, \<open>sys_malloc\<close> returns that
  block, cleared, and counts it; \<open>sys_free\<close> of it puts it at the end of the list and counts it
  back. Nothing else changes: the states after the two calls are the state before with that one
  list of that one owner changed, and of the memory only the words of the block and, in between,
  the count of the arena; so all pages lead where they led. (The links of a free list, which the
  code keeps inside the free blocks, are not part of the memory of the model.)
\<close>

theorem malloc_free_block:
  fixes m :: "'a heapk_scheme"
  assumes own: "heap_owner m = ow" "descs_ok ow m" and lock: "lock_free (pool_lock (pool_of (pool_flag ow) m))"
    and sz: "0 < sz" "sz \<le> 1024" "sz < pool_size (pool_of (pool_flag ow) m)"
    and b: "free_list (descs_of ow m ! size_class sz) = b # bs" "on_page b f m" "b \<noteq> 0" "ow = None \<longrightarrow> K_HEAP_START \<le> b"
      "unat b mod 4096 = 12 + j * unat (BLOCK_SIZES ! size_class sz)" "j < unat ((4096 - 12) div (BLOCK_SIZES ! size_class sz))"
    and a: "ram m f 0 = desc_addr ow (size_class sz) m" "ram m f 1 \<noteq> (4096 - 12) div (BLOCK_SIZES ! size_class sz)" "ram m f 2 = 0"
  shows "\<exists>m1 m2. sys_malloc sz m = Inr (b, m1) \<and> sys_free b m1 = Inr m2 \<and>
    (\<forall>w. word_in b \<le> w \<and> w < word_in b + unat (BLOCK_SIZES ! size_class sz) div 4 \<longrightarrow> ram m1 f w = 0) \<and>
    free_list (descs_of ow m1 ! size_class sz) = bs \<and> ram m1 f 1 = ram m f 1 - 1 \<and>
    free_list (descs_of ow m2 ! size_class sz) = bs @ [b] \<and> ram m2 f 1 = ram m f 1 \<and>
    (\<forall>i. i \<noteq> size_class sz \<longrightarrow> descs_of ow m2 ! i = descs_of ow m ! i) \<and>
    (\<forall>g. g \<noteq> f \<longrightarrow> ram m2 g = ram m g) \<and> (\<forall>p \<in> low_pages. page_map m2 p = page_map m p) \<and>
    (let i = size_class sz; ds = descs_of ow m;
         block = {word_in b..<word_in b + unat (BLOCK_SIZES ! i) div 4}
     in m1 = (set_descs ow (ds[i := (ds ! i)\<lparr>free_list := bs\<rparr>]) m)\<lparr>ram := (ram m)(f := (\<lambda>w.
            if w = 1 then ram m f 1 - 1 else if w \<in> block then 0 else ram m f w))\<rparr> \<and>
        m2 = (set_descs ow (ds[i := (ds ! i)\<lparr>free_list := bs @ [b]\<rparr>]) m)\<lparr>ram := (ram m)(f := (\<lambda>w.
            if w \<in> block then 0 else ram m f w))\<rparr>)"
proof -
  let ?i = "size_class sz" let ?s = "BLOCK_SIZES ! size_class sz" let ?PF = "pool_flag ow"
  let ?d = "desc_addr ow ?i m" let ?desc = "descs_of ow m ! ?i"
  note C = find_class [OF own(2) sz(2)] note D = descs_ok_nth [OF own(2) C(2)]
  have at: "desc_at ?d m = (ow, ?i)" using own(2) C(2) by (simp add: descs_ok_def)
  have gd: "get_desc ?d m = Inr ?desc" using C(2) D(1) by (simp add: get_desc_def at)
  obtain e where s: "unat ?s = 4 * e" "unat (?s div 4) = e" using size_words [OF C(2)] by metis
  have bpa: "unat ((4096 - 12) div ?s) * unat ?s \<le> 4084" by (simp add: unat_div)
  have fit: "12 + j * unat ?s + unat ?s \<le> 4096"
  proof -
    have "Suc j * unat ?s \<le> unat ((4096 - 12) div ?s) * unat ?s" using b(6) by (intro mult_le_mono1) simp
    then show ?thesis using bpa by simp
  qed
  have m4: "unat b mod 4 = 0"
  proof -
    have "unat b mod 4096 mod 4 = unat b mod 4" by (rule mod_mod_cancel) simp
    moreover have "(12 + j * (4 * e)) mod 4 = 0" by (simp add: mod_add_eq [symmetric])
    ultimately show ?thesis unfolding b(5) s(1) by simp
  qed
  let ?g1 = "(zeroed (word_in b) e (ram m f))(1 := ram m f 1 - 1)"
  let ?m1 = "set_frame f ?g1 (set_free_list ?d bs m)"
  let ?ml = "locked ?PF m"
  have onl: "on_page b f ?ml" using b(2) same_mem_page(3) [OF locked_fields(5)] by blast
  have tb: "take_block ?d ?ml = Inr (b, set_frame f ?g1 (set_free_list ?d bs ?ml))"
    using take_block_ok [of ?d ?ml ?desc b bs f] gd b(1,5) onl m4 fit s D(2) by simp
  have malloc: "sys_malloc sz m = Inr (b, ?m1)"
    using own(1) sz(1,3) leD [OF sz(2)] lock C(1) gd b(1) tb release_pool_heap [OF lock, of f ?g1 ?d bs]
    by (simp add: sys_malloc_def acquire_pool_free malloc_small_def Let_def del: not_less)
  let ?M = "locked ?PF ?m1"
  have onM: "on_page b f ?M"
    using b(2) same_mem_page(3) [OF locked_fields(5)] same_mem_page(3) [OF set_free_list_mem] on_page_set_frame by blast
  have onA: "on_page (block2arena b) f ?M" by (rule on_page_same [OF onM]) simp
  have onA8: "on_page (block2arena b + 8) f ?M" by (rule on_page_same [OF onA]) (simp add: arena_words)
  have gM: "get_desc ?d ?M = Inr (?desc\<lparr>free_list := bs\<rparr>)"
    using get_desc_set_free_list [OF at] C(2) D(1) by simp
  have w3: "3 \<le> word_in b" using b(5) by simp
  have g1: "?g1 0 = ?d" "?g1 1 = ram m f 1 - 1" "?g1 2 = 0" using w3 a(1,3) by (simp_all add: zeroed_def)
  have fs: "free_small ?PF (block2arena b) b ?M =
      Inr (set_frame f (?g1(1 := ram m f 1)) (set_free_list ?d (bs @ [b]) ?M))"
    using free_small_ok [OF _ onA _ gM, of ?PF b] g1 a(2) D(3) by simp
  let ?m2 = "set_frame f (?g1(1 := ram m f 1)) (set_free_list ?d (bs @ [b]) m)"
  have free: "sys_free b ?m1 = Inr ?m2"
    using own(1) b(3,4) lock fs load_on_page [OF onA] load_on_page [OF onA8] g1
      release_pool_heap [of ?PF ?m1 f "?g1(1 := ram m f 1)" ?d "bs @ [b]"] set_free_list_twice [OF at] C(2) D(1)
    by (simp add: sys_free_def acquire_pool_free a_large_def a_desc_def arena_words Let_def)
  have zero: "\<forall>w. word_in b \<le> w \<and> w < word_in b + unat ?s div 4 \<longrightarrow> ram ?m1 f w = 0"
    using w3 s(1) by (simp add: zeroed_def)
  have lists: "free_list (descs_of ow ?m1 ! ?i) = bs" "free_list (descs_of ow ?m2 ! ?i) = bs @ [b]"
    "\<forall>i. i \<noteq> ?i \<longrightarrow> descs_of ow ?m2 ! i = descs_of ow m ! i"
    using C(2) D(1) by (simp_all add: descs_set_free_list [OF at])
  have pages: "\<forall>p \<in> low_pages. page_map ?m2 p = page_map m p"
  proof
    fix p assume p: "p \<in> low_pages"
    have "data_frame f (set_free_list ?d (bs @ [b]) m)"
      using b(2) same_mem_page(2) [OF set_free_list_mem] by (auto simp: on_page_def)
    from page_map_set_frame [OF this p] show "page_map ?m2 p = page_map m p"
      using same_mem_page(1) [OF set_free_list_mem] by metis
  qed
  have g: "?g1 = (\<lambda>w. if w = 1 then ram m f 1 - 1 else if w \<in> {word_in b..<word_in b + unat ?s div 4} then 0 else ram m f w)"
    "?g1(1 := ram m f 1) = (\<lambda>w. if w \<in> {word_in b..<word_in b + unat ?s div 4} then 0 else ram m f w)"
    using w3 s(1) by (auto simp: zeroed_def fun_eq_iff)
  have "ram (set_descs ow ds m) = ram m" for ds by (cases ow) (simp_all add: set_descs_def)
  then have whole: "?m1 = (set_descs ow ((descs_of ow m)[?i := ?desc\<lparr>free_list := bs\<rparr>]) m)\<lparr>ram := (ram m)(f := ?g1)\<rparr>"
    "?m2 = (set_descs ow ((descs_of ow m)[?i := ?desc\<lparr>free_list := bs @ [b]\<rparr>]) m)\<lparr>ram := (ram m)(f := ?g1(1 := ram m f 1))\<rparr>"
    by (simp_all only: set_free_list_at [OF at] set_frame_def)
  show ?thesis
  proof (intro exI conjI)
    show "sys_malloc sz m = Inr (b, ?m1)" "sys_free b ?m1 = Inr ?m2" by (rule malloc, rule free)
    show "let i = ?i; ds = descs_of ow m; block = {word_in b..<word_in b + unat (BLOCK_SIZES ! i) div 4}
      in ?m1 = (set_descs ow (ds[i := (ds ! i)\<lparr>free_list := bs\<rparr>]) m)\<lparr>ram := (ram m)(f := (\<lambda>w.
            if w = 1 then ram m f 1 - 1 else if w \<in> block then 0 else ram m f w))\<rparr> \<and>
        ?m2 = (set_descs ow (ds[i := (ds ! i)\<lparr>free_list := bs @ [b]\<rparr>]) m)\<lparr>ram := (ram m)(f := (\<lambda>w.
            if w \<in> block then 0 else ram m f w))\<rparr>"
      unfolding Let_def g(1) [symmetric] g(2) [symmetric] by (rule conjI [OF whole])
  qed (use zero lists pages in \<open>simp_all add: set_frame_def\<close>)
qed

lemma malloc_free_block_witness:
  "\<exists>m1 m2. sys_malloc 10 demo_heap = Inr (K_HEAP_START + 12, m1) \<and> sys_free (K_HEAP_START + 12) m1 = Inr m2 \<and>
    free_list (k_block_descs m1 ! 0) = [K_HEAP_START + 28] \<and> ram m1 0x200 1 = 1 \<and>
    free_list (k_block_descs m2 ! 0) = [K_HEAP_START + 28, K_HEAP_START + 12] \<and> ram m2 0x200 1 = 2"
proof -
  have c: "size_class 10 = 0" by (simp add: size_class_def)
  have d: "descs_of None demo_heap ! 0 = \<lparr>block_size = 16, blocks_per_arena = 255,
      free_list = [K_HEAP_START + 12, K_HEAP_START + 28]\<rparr>"
    by (simp add: descs_of_def block_descs_init_sizes)
  have l: "descs_of None x = k_block_descs x" for x :: heapk by (simp add: descs_of_def)
  have p: "lock_free (pool_lock (pool_of (pool_flag None) demo_heap))" "10 < pool_size (pool_of (pool_flag None) demo_heap)"
    by (simp_all add: pool_flag_def pool_of_def demo_pool_def lock_free_def lock_init_def sema_init_def)
  have "\<exists>m1 m2. sys_malloc 10 demo_heap = Inr (K_HEAP_START + 12, m1) \<and> sys_free (K_HEAP_START + 12) m1 = Inr m2 \<and>
    free_list (descs_of None m1 ! 0) = [K_HEAP_START + 28] \<and> ram m1 0x200 1 = ram demo_heap 0x200 1 - 1 \<and>
    free_list (descs_of None m2 ! 0) = [K_HEAP_START + 28] @ [K_HEAP_START + 12] \<and> ram m2 0x200 1 = ram demo_heap 0x200 1"
    using malloc_free_block [OF demo_heap_ok p(1), of 10 "K_HEAP_START + 12" "[K_HEAP_START + 28]" "0x200" 0, unfolded c]
      demo_heap_page p(2) d
    by (fastforce simp: desc_addr_def)
  then show ?thesis by (simp add: l)
qed

end
