(* ===== verification/Task.thy ===== *)
theory Task
  imports Heap Slots Sync
begin

text \<open>
  \<open>thread/thread.c\<close>, the half that theory \<open>Thread\<close> leaves out: process ids, the creation of
  threads, their end, and the search for a thread by its process id.

  A PCB lies at the start of a page whose rest is the kernel stack of the thread. The two
  structures the C code builds on that stack, \<open>struct thread_stack\<close> and \<open>struct intr_stack\<close>,
  are kept in maps from their addresses; everything else of the stack is not modelled.
\<close>

section \<open>The state\<close>

text \<open>
  Code addresses: the routines of the kernel a stack frame can point to, and an address of a
  user program.
\<close>

datatype code = Kernel_thread | Start_process | Idle | Init_process | Intr_exit | Code u32

record intr_stack =
  is_vec_no :: u32
  is_edi :: u32
  is_esi :: u32
  is_ebp :: u32
  is_esp_dummy :: u32
  is_ebx :: u32
  is_edx :: u32
  is_ecx :: u32
  is_eax :: u32
  is_gs :: u32
  is_fs :: u32
  is_es :: u32
  is_ds :: u32
  is_error_code :: u32
  is_eip :: code
  is_cs :: u32
  is_eflags :: u32
  is_esp :: u32
  is_ss :: u32

record thread_stack =
  ts_ebp :: u32
  ts_ebx :: u32
  ts_edi :: u32
  ts_esi :: u32
  ts_eip :: code
  ts_function :: code
  ts_func_arg :: "code option"

text \<open>Their sizes in bytes: 19 and 8 words.\<close>

abbreviation INTR_STACK_BYTES :: nat where "INTR_STACK_BYTES \<equiv> 76"
abbreviation THREAD_STACK_BYTES :: nat where "THREAD_STACK_BYTES \<equiv> 32"

record pid_pool_t =
  pid_bitmap :: bitmap
  pid_start :: u32
  pid_lock :: lock

record thrk = heapk +
  pid_pool :: pid_pool_t
  intr_stacks :: "nat \<Rightarrow> intr_stack"
  thread_stacks :: "nat \<Rightarrow> thread_stack"

section \<open>Process ids\<close>

definition pid_pool_init :: "u8 list \<Rightarrow> pid_pool_t" where
  "pid_pool_init pid_bitmap_bits =
     \<lparr>pid_bitmap = bitmap_init \<lparr>btmp_bytes_len = 128, bits = pid_bitmap_bits\<rparr>, pid_start = 1, pid_lock = lock_init\<rparr>"

definition acquire_pids :: "'a thrk_scheme \<Rightarrow> 'a thrk_scheme res" where
  "acquire_pids m =
     bnd (lock_acquire (pid_lock (pid_pool m)) m) (\<lambda>(l, m). Inr (m\<lparr>pid_pool := (pid_pool m)\<lparr>pid_lock := l\<rparr>\<rparr>))"

definition release_pids :: "'a thrk_scheme \<Rightarrow> 'a thrk_scheme res" where
  "release_pids m =
     bnd (lock_release (pid_lock (pid_pool m)) m) (\<lambda>(l, m). Inr (m\<lparr>pid_pool := (pid_pool m)\<lparr>pid_lock := l\<rparr>\<rparr>))"

definition set_pid_bit :: "nat \<Rightarrow> nat \<Rightarrow> 'a thrk_scheme \<Rightarrow> 'a thrk_scheme res" where
  "set_pid_bit i v m =
     bnd (bitmap_set (pid_bitmap (pid_pool m)) i v) (\<lambda>b. Inr (m\<lparr>pid_pool := (pid_pool m)\<lparr>pid_bitmap := b\<rparr>\<rparr>))"

text \<open>The result type \<open>pid_t\<close> is \<open>int16_t\<close>.\<close>

definition to_pid :: "u32 \<Rightarrow> int" where
  "to_pid w = sint (ucast w :: 16 word)"

definition allocate_pid :: "'a thrk_scheme \<Rightarrow> (int \<times> 'a thrk_scheme) res" where
  "allocate_pid m =
     bnd (acquire_pids m) (\<lambda>m.
     bnd (bitmap_scan (pid_bitmap (pid_pool m)) 1) (\<lambda>bit_idx.
     ASSERT (bit_idx \<noteq> -1) ''bit_idx != -1''
      (bnd (set_pid_bit (nat bit_idx) 1 m) (\<lambda>m.
       bnd (release_pids m) (\<lambda>m.
       Inr (to_pid (pid_start (pid_pool m) + of_int bit_idx), m))))))"

definition release_pid :: "int \<Rightarrow> 'a thrk_scheme \<Rightarrow> 'a thrk_scheme res" where
  "release_pid p m =
     bnd (acquire_pids m) (\<lambda>m.
     let bit_idx = of_int p - pid_start (pid_pool m) in
     bnd (set_pid_bit (unat bit_idx) 0 m) release_pids)"

definition fork_pid :: "'a thrk_scheme \<Rightarrow> (int \<times> 'a thrk_scheme) res" where
  "fork_pid m = allocate_pid m"

section \<open>New threads\<close>

text \<open>
  What a thread does first: interrupts on, then the routine of its stack. The idle thread
  sleeps, and halts the processor with interrupts on when it was woken.
\<close>

definition kernel_thread :: "code \<Rightarrow> code option \<Rightarrow> 'a cpu_scheme \<Rightarrow> (code \<times> code option) \<times> 'a cpu_scheme" where
  "kernel_thread function func_arg k = ((function, func_arg), snd (intr_enable k))"

definition idle_round :: "'a kernel_scheme \<Rightarrow> 'a kernel_scheme res" where
  "idle_round k = bnd (thread_block TASK_BLOCKED k) (\<lambda>k. Inr (k\<lparr>intr := INTR_ON\<rparr>))"

text \<open>
  \<open>self_kstack\<close> is a pointer to words, so subtracting a number of bytes moves it four times
  as far.
\<close>

definition thread_create :: "tid \<Rightarrow> code \<Rightarrow> code option \<Rightarrow> 'a thrk_scheme \<Rightarrow> 'a thrk_scheme" where
  "thread_create pthread function func_arg m =
     (let sp = self_kstack (tasks m pthread) - 4 * INTR_STACK_BYTES;
          sp = sp - 4 * THREAD_STACK_BYTES
      in (set_task pthread (\<lambda>t. t\<lparr>self_kstack := sp\<rparr>) m)\<lparr>thread_stacks := (thread_stacks m)(sp :=
           \<lparr>ts_ebp = 0, ts_ebx = 0, ts_edi = 0, ts_esi = 0, ts_eip = Kernel_thread, ts_function = function,
             ts_func_arg = func_arg\<rparr>)\<rparr>)"

text \<open>\<open>memset(pthread, 0, sizeof(*pthread))\<close>, in the fields and in the maps that are part of the PCB.\<close>

definition zero_task :: task where
  "zero_task = \<lparr>self_kstack = 0, pid = 0, status = TASK_RUNNING, priority = 0, name = [], ticks = 0,
     elapsed_ticks = 0, fd_table = replicate MAX_FILES_OPEN_PER_PROC 0, pgdir = None, cwd_inode_nr = 0,
     parent_pid = 0, exit_status = 0, stack_magic = 0\<rparr>"

definition clear_pcb :: "tid \<Rightarrow> 'a thrk_scheme \<Rightarrow> 'a thrk_scheme" where
  "clear_pcb pthread m = (set_task pthread (\<lambda>t. zero_task) m)
     \<lparr>userprog_vaddr := (userprog_vaddr m)(pthread := \<lparr>vaddr_bitmap = \<lparr>btmp_bytes_len = 0, bits = []\<rparr>, vaddr_start = 0\<rparr>),
      u_block_descs := (u_block_descs m)(pthread :=
        replicate DESC_CNT \<lparr>block_size = 0, blocks_per_arena = 0, free_list = []\<rparr>)\<rparr>"

definition init_task :: "tid \<Rightarrow> string \<Rightarrow> u8 \<Rightarrow> 'a thrk_scheme \<Rightarrow> 'a thrk_scheme res" where
  "init_task pthread nm prio m =
     GUARD (pthread \<noteq> 0) ''pthread''
      (bnd (allocate_pid (clear_pcb pthread m)) (\<lambda>(p, m).
       GUARD (length nm < TASK_NAME_LEN) ''pthread->name''
        (Inr (set_task pthread (\<lambda>t. t\<lparr>pid := p, name := nm,
             status := (if pthread = main_thread m then TASK_RUNNING else TASK_READY),
             priority := prio, self_kstack := pthread + PG_SIZE, ticks := prio, elapsed_ticks := 0,
             pgdir := None, fd_table := [0, 1, 2] @ replicate (MAX_FILES_OPEN_PER_PROC - 3) (-1),
             cwd_inode_nr := 0, parent_pid := -1, stack_magic := 0x20050608\<rparr>) m))))"

text \<open>A thread enters the two queues.\<close>

definition enqueue_all :: "tid \<Rightarrow> 'a kernel_scheme \<Rightarrow> 'a kernel_scheme res" where
  "enqueue_all t k =
     ASSERT (t \<notin> set (thread_all_list k)) ''!elem_find(&thread_all_list, &thread->all_list_tag)''
      (Inr (k\<lparr>thread_all_list := thread_all_list k @ [t]\<rparr>))"

definition enqueue_thread :: "tid \<Rightarrow> 'a kernel_scheme \<Rightarrow> 'a kernel_scheme res" where
  "enqueue_thread t k =
     ASSERT (t \<notin> set (thread_ready_list k)) ''!elem_find(&thread_ready_list, &thread->general_tag)''
      (enqueue_all t (k\<lparr>thread_ready_list := thread_ready_list k @ [t]\<rparr>))"

definition thread_start :: "string \<Rightarrow> u8 \<Rightarrow> code \<Rightarrow> code option \<Rightarrow> 'a thrk_scheme \<Rightarrow> (tid \<times> 'a thrk_scheme) res" where
  "thread_start nm prio function func_arg m =
     bnd (get_kernel_pages 1 m) (\<lambda>(va, m).
     let thread = unat va in
     bnd (init_task thread nm prio m) (\<lambda>m.
     bnd (enqueue_thread thread (thread_create thread function func_arg m)) (\<lambda>m.
     Inr (thread, m))))"

definition make_main_thread :: "'a thrk_scheme \<Rightarrow> 'a thrk_scheme res" where
  "make_main_thread m =
     (let m = m\<lparr>main_thread := running_thread m\<rparr> in
      bnd (init_task (main_thread m) ''main'' 30 m) (\<lambda>m. enqueue_all (main_thread m) m))"

section \<open>The end of a thread\<close>

text \<open>
  With \<open>need_schedule\<close> the caller ends itself: it does not come back from \<open>schedule\<close>, and the
  state is that of the thread that runs next.
\<close>

definition thread_exit :: "tid \<Rightarrow> bool \<Rightarrow> 'a thrk_scheme \<Rightarrow> 'a thrk_scheme res" where
  "thread_exit thread_over need_schedule m =
     (let (_, m) = intr_disable m;
          m = set_task thread_over (\<lambda>t. t\<lparr>status := TASK_OVER\<rparr>) m;
          m = m\<lparr>thread_ready_list := remove1 thread_over (thread_ready_list m)\<rparr>
      in bnd (case pgdir (tasks m thread_over) of
                Some d \<Rightarrow> mfree_page PF_KERNEL (of_nat d) 1 m | None \<Rightarrow> Inr m) (\<lambda>m.
         GUARD (thread_over \<in> set (thread_all_list m)) ''thread_over->all_list_tag''
          (let m = m\<lparr>thread_all_list := remove1 thread_over (thread_all_list m)\<rparr>
           in bnd (release_pid (pid (tasks m thread_over)) m) (\<lambda>m.
              bnd (if thread_over \<noteq> main_thread m then mfree_page PF_KERNEL (of_nat thread_over) 1 m else Inr m) (\<lambda>m.
              if need_schedule then schedule m else Inr m)))))"

definition pid_check :: "'a kernel_scheme \<Rightarrow> tid \<Rightarrow> int \<Rightarrow> bool" where
  "pid_check k pthread p \<longleftrightarrow> pid (tasks k pthread) = p"

definition pid2thread :: "int \<Rightarrow> 'a kernel_scheme \<Rightarrow> tid option" where
  "pid2thread p k = find (\<lambda>t. pid_check k t p) (thread_all_list k)"

section \<open>Process ids as slots\<close>

text \<open>
  The ids of the 1024 bits, and those in use. No two threads are inside the pool's lock between
  two calls, so the lock is free.
\<close>

definition pids_ok :: "'a thrk_scheme \<Rightarrow> bool" where
  "pids_ok m \<longleftrightarrow> wf_bitmap (pid_bitmap (pid_pool m)) \<and> btmp_bytes_len (pid_bitmap (pid_pool m)) = 128 \<and>
     pid_start (pid_pool m) = 1 \<and> lock_free (pid_lock (pid_pool m))"

definition pids_used :: "'a thrk_scheme \<Rightarrow> int set" where
  "pids_used m = (\<lambda>i. int i + 1) ` used (pid_bitmap (pid_pool m))"

definition all_pids :: "int set" where
  "all_pids = {1..1024}"

lemma panics_bnd: "panics m \<Longrightarrow> panics (bnd m f)"
  by (auto simp: panics_def bnd_def split: sum.splits stop.splits)

lemma to_pid_small: "i < 1024 \<Longrightarrow> to_pid (1 + of_nat i) = int i + 1"
proof -
  assume i: "i < 1024"
  have "(1 + of_nat i :: u32) = of_nat (Suc i)" by simp
  moreover have "unat (of_nat (Suc i) :: u32) = Suc i" using i by (simp add: unsigned_of_nat take_bit_nat_eq_self del: of_nat_Suc)
  then have "(ucast (of_nat (Suc i) :: u32) :: 16 word) = of_nat (Suc i)"
    by (metis of_nat_unat)
  moreover have "sint (of_nat (Suc i) :: 16 word) = int (Suc i)"
    using i by (subst signed_of_nat) (simp add: signed_take_bit_int_eq_self)
  ultimately show ?thesis by (simp add: to_pid_def)
qed

lemma all_pids_alt: "all_pids = (\<lambda>i. int i + 1) ` {..<1024}"
proof (intro set_eqI iffI)
  fix p assume "p \<in> all_pids"
  then show "p \<in> (\<lambda>i. int i + 1) ` {..<1024}" by (intro image_eqI [of _ _ "nat (p - 1)"]) (auto simp: all_pids_def)
qed (auto simp: all_pids_def)

definition set_pid_bitmap :: "bitmap \<Rightarrow> 'a thrk_scheme \<Rightarrow> 'a thrk_scheme" where
  "set_pid_bitmap b m = m\<lparr>pid_pool := (pid_pool m)\<lparr>pid_bitmap := b\<rparr>\<rparr>"

lemma pids_ok_set:
  "pids_ok m \<Longrightarrow> wf_bitmap b \<Longrightarrow> btmp_bytes_len b = 128 \<Longrightarrow> pids_ok (set_pid_bitmap b m)"
  by (simp add: pids_ok_def set_pid_bitmap_def)

lemma allocate_pid_run:
  assumes "pids_ok m"
  shows "allocate_pid m = bnd (bitmap_scan (pid_bitmap (pid_pool m)) 1) (\<lambda>i.
     ASSERT (i \<noteq> -1) ''bit_idx != -1'' (bnd (bitmap_set (pid_bitmap (pid_pool m)) (nat i) 1) (\<lambda>b.
       Inr (to_pid (1 + of_int i), set_pid_bitmap b m))))"
proof -
  let ?l = "pid_lock (pid_pool m)"
  have l: "lock_free ?l" "pid_start (pid_pool m) = 1" using assms by (simp_all add: pids_ok_def)
  have r: "lock_release (lock_taken (cur m) ?l) k = Inr (?l, k)" if "cur k = cur m" for k :: "'a thrk_scheme"
    using lock_release_taken [OF l(1) that] .
  show ?thesis using l
    by (cases "bitmap_scan (pid_bitmap (pid_pool m)) 1")
       (simp_all add: allocate_pid_def acquire_pids_def lock_acquire_free set_pid_bit_def release_pids_def r
         set_pid_bitmap_def bnd_def ASSERT_def split: sum.splits)
qed

lemma release_pid_run:
  assumes "pids_ok m" "p \<in> all_pids"
  shows "release_pid p m = bnd (bitmap_set (pid_bitmap (pid_pool m)) (nat (p - 1)) 0) (\<lambda>b. Inr (set_pid_bitmap b m))"
proof -
  let ?l = "pid_lock (pid_pool m)"
  have l: "lock_free ?l" "pid_start (pid_pool m) = 1" using assms by (simp_all add: pids_ok_def)
  have r: "lock_release (lock_taken (cur m) ?l) k = Inr (?l, k)" if "cur k = cur m" for k :: "'a thrk_scheme"
    using lock_release_taken [OF l(1) that] .
  have "(of_int p - 1 :: u32) = of_nat (nat (p - 1))" using assms(2) by (simp add: all_pids_def)
  moreover have "nat (p - 1) < 2 ^ 32" using assms(2) by (auto simp: all_pids_def nat_less_iff)
  ultimately have "unat (of_int p - 1 :: u32) = nat (p - 1)" by (simp only: unsigned_of_nat) (simp add: take_bit_nat_eq_self)
  then show ?thesis using l
    by (simp add: release_pid_def acquire_pids_def lock_acquire_free set_pid_bit_def release_pids_def r
         set_pid_bitmap_def bnd_def split: sum.splits)
qed

lemma set_pid_bitmap_fields [simp]: "pid_bitmap (pid_pool (set_pid_bitmap b m)) = b"
  by (simp add: set_pid_bitmap_def)

interpretation pids: slots pids_ok "\<lambda>m. all_pids" pids_used allocate_pid release_pid
proof
  fix s :: "'a thrk_scheme" and p
  assume ok: "pids_ok s"
  let ?b = "pid_bitmap (pid_pool s)"
  have b: "wf_bitmap ?b" "btmp_bytes_len ?b = 128" and n: "nbits ?b = 1024" using ok by (simp_all add: pids_ok_def nbits_def)
  show "finite all_pids" by (simp add: all_pids_def)
  show "pids_used s \<subseteq> all_pids" using n by (auto simp: pids_used_def all_pids_def used_def)
  have inj: "inj (\<lambda>i. int i + 1)" by (simp add: inj_on_def)
  have full: "pids_used s = all_pids \<longleftrightarrow> used ?b = {..<nbits ?b}"
    unfolding pids_used_def all_pids_alt n by (rule inj_image_eq_iff [OF inj])
  show "panics (allocate_pid s)" if "pids_used s = all_pids"
    using bitmap_scan_one_cases [OF b(1)] that full by (auto simp: allocate_pid_run [OF ok] intro: panics_bnd)
  show "\<exists>i s'. allocate_pid s = Inr (i, s') \<and> pids_ok s' \<and> all_pids = all_pids \<and> i \<in> all_pids \<and>
      i \<notin> pids_used s \<and> pids_used s' = insert i (pids_used s)" if ne: "pids_used s \<noteq> all_pids"
  proof -
    obtain i where i: "bitmap_scan ?b 1 = Inr (int i)" "i < 1024" "i \<notin> used ?b"
      using bitmap_scan_one_cases [OF b(1)] ne full n by auto
    obtain b' where b': "bitmap_set ?b i 1 = Inr b'" "wf_bitmap b'" "btmp_bytes_len b' = 128" "used b' = insert i (used ?b)"
      using bitmap_set_used_ex [OF b(1), of i 1] i(2) n b(2) by auto
    have "allocate_pid s = Inr (int i + 1, set_pid_bitmap b' s)"
      using i(1) b'(1) to_pid_small [OF i(2)] by (simp add: allocate_pid_run [OF ok])
    then show ?thesis using i b' pids_ok_set [OF ok b'(2,3)]
      by (auto simp: all_pids_def pids_used_def)
  qed
  show "\<exists>s'. release_pid p s = Inr s' \<and> pids_ok s' \<and> all_pids = all_pids \<and> pids_used s' = pids_used s - {p}"
    if used: "p \<in> pids_used s"
  proof -
    obtain i where i: "p = int i + 1" "i \<in> used ?b" "i < 1024" using used n by (auto simp: pids_used_def used_def)
    obtain b' where b': "bitmap_set ?b i 0 = Inr b'" "wf_bitmap b'" "btmp_bytes_len b' = 128" "used b' = used ?b - {i}"
      using bitmap_set_used_ex [OF b(1), of i 0] i(3) n b(2) by auto
    have "release_pid p s = Inr (set_pid_bitmap b' s)"
      using i b'(1) release_pid_run [OF ok, of p] by (simp add: all_pids_def)
    then show ?thesis using i(1) b' pids_ok_set [OF ok b'(2,3)] inj
      by (auto simp: pids_used_def image_set_diff inj_on_def)
  qed
qed

section \<open>An example state\<close>

definition zero_intr_stack :: intr_stack where
  "zero_intr_stack = \<lparr>is_vec_no = 0, is_edi = 0, is_esi = 0, is_ebp = 0, is_esp_dummy = 0, is_ebx = 0, is_edx = 0,
     is_ecx = 0, is_eax = 0, is_gs = 0, is_fs = 0, is_es = 0, is_ds = 0, is_error_code = 0, is_eip = Code 0,
     is_cs = 0, is_eflags = 0, is_esp = 0, is_ss = 0\<rparr>"

definition zero_thread_stack :: thread_stack where
  "zero_thread_stack = \<lparr>ts_ebp = 0, ts_ebx = 0, ts_edi = 0, ts_esi = 0, ts_eip = Code 0, ts_function = Code 0,
     ts_func_arg = None\<rparr>"

definition demo_thr :: thrk where
  "demo_thr = heapk.extend (memk.extend demo_mem (heapk.fields 0xc0020000 block_descs_init (\<lambda>t. block_descs_init)))
     (thrk.fields (pid_pool_init (replicate 128 0)) (\<lambda>a. zero_intr_stack) (\<lambda>a. zero_thread_stack))"

lemma demo_thr_simps [simp]: "pid_pool demo_thr = pid_pool_init (replicate 128 0)"
  by (simp add: demo_thr_def heapk.defs memk.defs thrk.defs)

lemma demo_pids: "pids_ok demo_thr" "pids_used demo_thr = {}"
  by (simp_all add: pids_ok_def pids_used_def pid_pool_init_def wf_bitmap_def bitmap_init_def used_def bit_at_def nbits_def
      nth_replicate div_less_iff_less_mult)

section \<open>Results\<close>

text \<open>
  C34: Two living threads never have the same process id. From any state of the pool as many
  requests succeed as there are free ids; they return all free ids from 1 to 1024, none twice,
  and the request after the last one panics. A request on an empty pool, the one of the process
  \<open>init\<close>, gets the id 1. Giving an id back frees that id and no other.
\<close>

theorem pids_never_twice:
  assumes "pids_ok m"
  shows "(\<exists>ps m'. allocs allocate_pid (card (all_pids - pids_used m)) m = Inr (ps, m') \<and> distinct ps \<and>
      set ps = all_pids - pids_used m \<and> panics (allocate_pid m')) \<and>
    (pids_used m = {} \<longrightarrow> (\<exists>m'. allocate_pid m = Inr (1, m') \<and> pids_used m' = {1})) \<and>
    (\<forall>p \<in> pids_used m. \<exists>m'. release_pid p m = Inr m' \<and> pids_used m' = pids_used m - {p})"
proof (intro conjI impI ballI)
  show "\<exists>ps m'. allocs allocate_pid (card (all_pids - pids_used m)) m = Inr (ps, m') \<and> distinct ps \<and>
      set ps = all_pids - pids_used m \<and> panics (allocate_pid m')"
    using pids.allocs_exhaust [OF assms] by blast
  show "\<exists>m'. release_pid p m = Inr m' \<and> pids_used m' = pids_used m - {p}" if "p \<in> pids_used m" for p
    using pids.release_ok [OF assms that] by blast
  assume e: "pids_used m = {}"
  let ?b = "pid_bitmap (pid_pool m)"
  have b: "wf_bitmap ?b" "used ?b = {}" "nbits ?b = 1024" using assms e by (simp_all add: pids_ok_def pids_used_def nbits_def)
  then obtain i where i: "bitmap_scan ?b 1 = Inr (int i)" "\<forall>j < i. j \<in> used ?b"
    using bitmap_scan_one_cases [OF b(1)] lessThan_empty_iff [of "1024 :: nat"] by auto
  then have "i = 0" using b(2) by (cases i) auto
  moreover obtain p m' where "allocate_pid m = Inr (p, m')" "pids_used m' = insert p (pids_used m)"
    using pids.alloc_ok [OF assms] e by (auto simp: all_pids_def)
  ultimately show "\<exists>m'. allocate_pid m = Inr (1, m') \<and> pids_used m' = {1}"
    using i(1) e to_pid_small [of 0] by (auto simp: allocate_pid_run [OF assms] res_simps)
qed

theorem pids_never_twice_witness:
  "\<exists>ps m'. allocs allocate_pid 1024 demo_thr = Inr (ps, m') \<and> distinct ps \<and> set ps = {1..1024} \<and> panics (allocate_pid m')"
  using pids_never_twice [OF demo_pids(1)] by (simp add: demo_pids(2) all_pids_def)

end
