(* ===== verification/Process.thy ===== *)
theory Process
  imports Task Fs
begin

text \<open>
  \<open>userprog/process.c\<close>: page directories and address spaces of processes, their creation and
  the stack frame with which a process enters user mode; and the state of the whole kernel,
  in which memory, threads and the file system meet.
\<close>

section \<open>The state\<close>

text \<open>
  \<open>vbits_at\<close> is the pointer \<open>userprog_vaddr.vaddr_bitmap.bits\<close> of a process, the address of
  the kernel pages that hold the bitmap. \<open>files\<close> is the state of the file system; the fields it
  shares with the rest of the kernel, and the descriptor table and working directory that lie
  in the PCB, are loaded into it before a call of the file system and stored after it.
\<close>

record prock = thrk +
  vbits_at :: "tid \<Rightarrow> u32"
  files :: fsk

definition files_view :: "'a prock_scheme \<Rightarrow> fsk" where
  "files_view m = (files m)\<lparr>intr := intr m, cur := cur m, tasks := tasks m,
     thread_ready_list := thread_ready_list m, thread_all_list := thread_all_list m,
     idle_thread := idle_thread m, main_thread := main_thread m, saved_intr := saved_intr m,
     cr3 := cr3 m, esp0 := esp0 m,
     fsk.fd_table := (\<lambda>t. task.fd_table (tasks m t)), fsk.cwd_inode_nr := (\<lambda>t. int (task.cwd_inode_nr (tasks m t)))\<rparr>"

definition files_back :: "fsk \<Rightarrow> 'a prock_scheme \<Rightarrow> 'a prock_scheme" where
  "files_back k m = m\<lparr>intr := intr k, cur := cur k,
     tasks := (\<lambda>t. (tasks k t)\<lparr>task.fd_table := fsk.fd_table k t, task.cwd_inode_nr := nat (fsk.cwd_inode_nr k t)\<rparr>),
     thread_ready_list := thread_ready_list k, thread_all_list := thread_all_list k,
     idle_thread := idle_thread k, main_thread := main_thread k, saved_intr := saved_intr k,
     cr3 := cr3 k, esp0 := esp0 k, files := k\<rparr>"

definition on_files :: "(fsk \<Rightarrow> ('b \<times> fsk) res) \<Rightarrow> 'a prock_scheme \<Rightarrow> ('b \<times> 'a prock_scheme) res" where
  "on_files f m = bnd (f (files_view m)) (\<lambda>(r, k). Inr (r, files_back k m))"

section \<open>Address spaces\<close>

abbreviation USER_VADDR_START :: u32 where "USER_VADDR_START \<equiv> 0x8048000"
abbreviation USER_STACK3_VADDR :: u32 where "USER_STACK3_VADDR \<equiv> 0xc0000000 - 0x1000"
abbreviation default_prio :: u8 where "default_prio \<equiv> 30"

text \<open>
  \<open>page_dir_activate\<close> on the memory: the processor walks another directory from now on (theory
  \<open>Thread\<close> only records which one).
\<close>

definition load_page_dir :: "tid \<Rightarrow> 'a memk_scheme \<Rightarrow> 'a memk_scheme res" where
  "load_page_dir pthread m =
     bnd (case pgdir (tasks m pthread) of None \<Rightarrow> Inr 0x100000 | Some d \<Rightarrow> addr_v2p (of_nat d) m) (\<lambda>page_dir_phyaddr.
     Inr ((page_dir_activate pthread m)\<lparr>pd_base := page_dir_phyaddr\<rparr>))"

text \<open>\<open>memcpy\<close> of \<open>n\<close> words between addresses that are multiples of 4.\<close>

fun copy_words :: "nat \<Rightarrow> u32 \<Rightarrow> u32 \<Rightarrow> 'a memk_scheme \<Rightarrow> 'a memk_scheme res" where
  "copy_words 0 dst src m = Inr m"
| "copy_words (Suc n) dst src m =
     bnd (load src m) (\<lambda>w. bnd (store dst w m) (copy_words n (dst + 4) (src + 4)))"

definition create_page_dir :: "'a memk_scheme \<Rightarrow> (u32 \<times> 'a memk_scheme) res" where
  "create_page_dir m =
     bnd (get_kernel_pages 1 m) (\<lambda>(page_dir_vaddr, m).
     if page_dir_vaddr = 0 then Inr (0, m)
     else bnd (copy_words 256 (page_dir_vaddr + 0x300 * 4) (0xfffff000 + 0x300 * 4) m) (\<lambda>m.
          bnd (addr_v2p page_dir_vaddr m) (\<lambda>new_page_dir_phyaddr.
          bnd (store (page_dir_vaddr + 1023 * 4) (new_page_dir_phyaddr OR 4 OR 2 OR 1) m) (\<lambda>m.
          Inr (page_dir_vaddr, m)))))"

text \<open>The virtual bitmap of a process: its length in bytes and the pages it is given.\<close>

definition user_bitmap_bytes :: nat where
  "user_bitmap_bytes = unat ((0xc0000000 - USER_VADDR_START) div 4096 div 8)"

definition user_bitmap_pages :: nat where
  "user_bitmap_pages = unat (((0xc0000000 - USER_VADDR_START) div 4096 div 8 + 4096 - 1) div 4096)"

definition create_user_vaddr_bitmap :: "tid \<Rightarrow> 'a prock_scheme \<Rightarrow> 'a prock_scheme res" where
  "create_user_vaddr_bitmap user_prog m =
     bnd (get_kernel_pages user_bitmap_pages m) (\<lambda>(va, m).
     GUARD (va \<noteq> 0) ''vaddr_bitmap.bits''
      (Inr (m\<lparr>vbits_at := (vbits_at m)(user_prog := va),
         userprog_vaddr := (userprog_vaddr m)(user_prog :=
           \<lparr>vaddr_bitmap = \<lparr>btmp_bytes_len = user_bitmap_bytes, bits = replicate user_bitmap_bytes 0\<rparr>,
            vaddr_start = USER_VADDR_START\<rparr>)\<rparr>)))"

section \<open>New processes\<close>

text \<open>
  \<open>SELECTOR_U_CODE\<close>, \<open>SELECTOR_U_DATA\<close> and the flags of \<open>kernel/global.h\<close>.
\<close>

definition SELECTOR_U_CODE :: u32 where "SELECTOR_U_CODE = push_bit 3 5 + push_bit 2 0 + 3"
definition SELECTOR_U_DATA :: u32 where "SELECTOR_U_DATA = push_bit 3 6 + push_bit 2 0 + 3"
definition EFLAGS_USER :: u32 where "EFLAGS_USER = push_bit 9 1 OR push_bit 12 0 OR push_bit 1 1"

text \<open>
  \<open>start_process\<close> runs as the first routine of the new process, with its own page directory.
  It fills the frame that \<open>intr_exit\<close> pops.
\<close>

definition start_process :: "code \<Rightarrow> 'a prock_scheme \<Rightarrow> 'a prock_scheme res" where
  "start_process function m =
     (let c = running_thread m;
          m = set_task c (\<lambda>t. t\<lparr>self_kstack := self_kstack t + 4 * THREAD_STACK_BYTES\<rparr>) m;
          sp = self_kstack (tasks m c)
      in bnd (get_a_page PF_USER USER_STACK3_VADDR m) (\<lambda>(va, m).
         Inr (m\<lparr>intr_stacks := (intr_stacks m)(sp := (intr_stacks m sp)
           \<lparr>is_edi := 0, is_esi := 0, is_ebp := 0, is_esp_dummy := 0,
            is_eax := 0, is_ebx := 0, is_ecx := 0, is_edx := 0, is_gs := 0,
            is_cs := SELECTOR_U_CODE, is_ds := SELECTOR_U_DATA, is_es := SELECTOR_U_DATA,
            is_fs := SELECTOR_U_DATA, is_ss := SELECTOR_U_DATA,
            is_eip := function, is_eflags := EFLAGS_USER, is_esp := va + 4096\<rparr>)\<rparr>)))"

definition process_execute :: "code \<Rightarrow> string \<Rightarrow> 'a prock_scheme \<Rightarrow> 'a prock_scheme res" where
  "process_execute fn nm m =
     bnd (get_kernel_pages 1 m) (\<lambda>(va, m).
     let thread = unat va in
     bnd (init_task thread nm default_prio m) (\<lambda>m.
     bnd (create_user_vaddr_bitmap thread m) (\<lambda>m.
     let m = thread_create thread Start_process (Some fn) m in
     bnd (create_page_dir m) (\<lambda>(d, m).
     let m = set_task thread (\<lambda>t. t\<lparr>pgdir := (if d = 0 then None else Some (unat d))\<rparr>) m;
         m = m\<lparr>u_block_descs := (u_block_descs m)(thread := block_descs_init)\<rparr>;
         (old_status, m) = intr_disable m
     in bnd (enqueue_thread thread m) (\<lambda>m. Inr (snd (intr_set_status old_status m)))))))"

text \<open>
  \<open>thread_init\<close>: process 1 is \<open>init\<close>, then the running code becomes the thread \<open>main\<close>, then
  the idle thread is made.
\<close>

definition thread_init :: "u8 list \<Rightarrow> 'a prock_scheme \<Rightarrow> 'a prock_scheme res" where
  "thread_init pid_bitmap_bits m =
     (let m = m\<lparr>thread_ready_list := [], thread_all_list := [], pid_pool := pid_pool_init pid_bitmap_bits\<rparr>
      in bnd (process_execute Init_process ''init'' m) (\<lambda>m.
         bnd (make_main_thread m) (\<lambda>m.
         bnd (thread_start ''idle'' 10 Idle None m) (\<lambda>(t, m).
         Inr (m\<lparr>idle_thread := t\<rparr>)))))"

end
