(* ===== verification/Fork.thy ===== *)
theory Fork
  imports Process Pipe
begin

text \<open>
  \<open>userprog/fork.c\<close>: a child process is a copy of its parent: the page of its PCB and kernel
  stack, the bitmap of its virtual addresses, every page of its user space, and its open files.
\<close>

text \<open>
  \<open>memcpy(child_thread, parent_thread, PG_SIZE)\<close>: the fields of the PCB and what the stack of
  the parent holds, at the same offsets.
\<close>

definition copy_pcb_page :: "tid \<Rightarrow> tid \<Rightarrow> 'a prock_scheme \<Rightarrow> 'a prock_scheme" where
  "copy_pcb_page c p m =
     (let moved = (\<lambda>a. c \<le> a \<and> a < c + PG_SIZE)
      in m\<lparr>tasks := (tasks m)(c := tasks m p),
         userprog_vaddr := (userprog_vaddr m)(c := userprog_vaddr m p),
         u_block_descs := (u_block_descs m)(c := u_block_descs m p),
         vbits_at := (vbits_at m)(c := vbits_at m p),
         intr_stacks := (\<lambda>a. if moved a then intr_stacks m (a - c + p) else intr_stacks m a),
         thread_stacks := (\<lambda>a. if moved a then thread_stacks m (a - c + p) else thread_stacks m a)\<rparr>)"

definition copy_pcb_vaddrbitmap_stack0 :: "tid \<Rightarrow> tid \<Rightarrow> 'a prock_scheme \<Rightarrow> 'a prock_scheme res" where
  "copy_pcb_vaddrbitmap_stack0 child_thread parent_thread m =
     bnd (fork_pid (copy_pcb_page child_thread parent_thread m)) (\<lambda>(p, m).
     let m = set_task child_thread (\<lambda>t. t\<lparr>pid := p, elapsed_ticks := 0, status := TASK_READY, ticks := priority t,
               parent_pid := pid (tasks m parent_thread)\<rparr>) m;
         m = m\<lparr>u_block_descs := (u_block_descs m)(child_thread := block_descs_init)\<rparr>
     in bnd (get_kernel_pages user_bitmap_pages m) (\<lambda>(va, m).
        GUARD (va \<noteq> 0) ''vaddr_bitmap''
         (let m = m\<lparr>vbits_at := (vbits_at m)(child_thread := va)\<rparr> in
          ASSERT (length (name (tasks m child_thread)) < 11) ''strlen(child_thread->name) < 11''
           (Inr (set_task child_thread (\<lambda>t. t\<lparr>name := name t @ ''_fork''\<rparr>) m)))))"

text \<open>One page of the parent: through a page of the kernel into a new page of the child.\<close>

definition copy_page :: "tid \<Rightarrow> tid \<Rightarrow> u32 \<Rightarrow> u32 \<Rightarrow> 'a prock_scheme \<Rightarrow> 'a prock_scheme res" where
  "copy_page child_thread parent_thread buf_page prog_vaddr m =
     bnd (copy_words 1024 buf_page prog_vaddr m) (\<lambda>m.
     bnd (load_page_dir child_thread m) (\<lambda>m.
     bnd (get_a_page_without_opvaddrbitmap PF_USER prog_vaddr m) (\<lambda>(_, m).
     bnd (copy_words 1024 prog_vaddr buf_page m) (load_page_dir parent_thread))))"

fun copy_pages :: "tid \<Rightarrow> tid \<Rightarrow> u32 \<Rightarrow> u32 \<Rightarrow> u8 list \<Rightarrow> nat list \<Rightarrow> 'a prock_scheme \<Rightarrow> 'a prock_scheme res" where
  "copy_pages c p buf_page start bs [] m = Inr m"
| "copy_pages c p buf_page start bs (i # js) m =
     bnd (if bs ! (i div 8) AND bitmap_mask (i mod 8) \<noteq> 0
          then copy_page c p buf_page (of_nat i * 4096 + start) m else Inr m)
      (copy_pages c p buf_page start bs js)"

text \<open>
  The two loops of \<open>copy_body_stack3\<close> visit the bits in order; a byte that is 0 has no bit to
  visit.
\<close>

definition copy_body_stack3 :: "tid \<Rightarrow> tid \<Rightarrow> u32 \<Rightarrow> 'a prock_scheme \<Rightarrow> 'a prock_scheme res" where
  "copy_body_stack3 child_thread parent_thread buf_page m =
     (let vp = userprog_vaddr m parent_thread; b = vaddr_bitmap vp
      in copy_pages child_thread parent_thread buf_page (vaddr_start vp) (bits b)
           [0..<8 * btmp_bytes_len b] m)"

text \<open>
  The child continues in \<open>intr_exit\<close> with the result 0: \<open>switch_to\<close> pops four registers and
  returns to the address right below the interrupt frame.
\<close>

definition build_child_stack :: "tid \<Rightarrow> 'a prock_scheme \<Rightarrow> 'a prock_scheme" where
  "build_child_stack child_thread m =
     (let intr_0_stack = child_thread + PG_SIZE - INTR_STACK_BYTES;
          sp = intr_0_stack - 5 * 4
      in (set_task child_thread (\<lambda>t. t\<lparr>self_kstack := sp\<rparr>) m)
          \<lparr>intr_stacks := (intr_stacks m)(intr_0_stack := (intr_stacks m intr_0_stack)\<lparr>is_eax := 0\<rparr>),
           thread_stacks := (thread_stacks m)(sp := (thread_stacks m sp)\<lparr>ts_eip := Intr_exit\<rparr>)\<rparr>)"

text \<open>
  Every open file of the child has one more user. \<open>is_pipe\<close> looks the descriptor up in the
  table of the running process, the parent, which holds the same entries.
\<close>

fun count_fds :: "nat list \<Rightarrow> int list \<Rightarrow> fsk \<Rightarrow> fsk res" where
  "count_fds [] fds k = Inr k"
| "count_fds (i # js) fds k =
     (let global_idx = fds ! i in
      ASSERT (global_idx < int MAX_FILES_OPEN) ''global_idx < MAX_FILES_OPEN''
       (bnd (if global_idx \<noteq> -1
             then bnd (is_pipe i k) (\<lambda>p.
                  bnd (get_file (nat global_idx) k) (\<lambda>f.
                  if p then Inr (set_file (nat global_idx) (f\<lparr>fd_pos := fd_pos f + 1\<rparr>) k)
                  else bnd (get_inode (fd_inode f) k) (\<lambda>i.
                       Inr (set_inode (fd_inode f) (i\<lparr>i_open_cnts := i_open_cnts i + 1\<rparr>) k))))
             else Inr k)
        (count_fds js fds)))"

definition update_inode_open_cnts :: "tid \<Rightarrow> 'a prock_scheme \<Rightarrow> (unit \<times> 'a prock_scheme) res" where
  "update_inode_open_cnts thread m =
     on_files (\<lambda>k. bnd (count_fds [3..<MAX_FILES_OPEN_PER_PROC] (fsk.fd_table k thread) k) (\<lambda>k. Inr ((), k))) m"

definition copy_process :: "tid \<Rightarrow> tid \<Rightarrow> 'a prock_scheme \<Rightarrow> (int \<times> 'a prock_scheme) res" where
  "copy_process child_thread parent_thread m =
     bnd (get_kernel_pages 1 m) (\<lambda>(buf_page, m).
     if buf_page = 0 then Inr (-1, m)
     else bnd (copy_pcb_vaddrbitmap_stack0 child_thread parent_thread m) (\<lambda>m.
          bnd (create_page_dir m) (\<lambda>(d, m).
          let m = set_task child_thread (\<lambda>t. t\<lparr>pgdir := (if d = 0 then None else Some (unat d))\<rparr>) m in
          if d = 0 then Inr (-1, m)
          else bnd (copy_body_stack3 child_thread parent_thread buf_page m) (\<lambda>m.
               bnd (update_inode_open_cnts child_thread (build_child_stack child_thread m)) (\<lambda>(_, m).
               bnd (mfree_page PF_KERNEL buf_page 1 m) (\<lambda>m. Inr (0, m)))))))"

definition sys_fork :: "'a prock_scheme \<Rightarrow> (int \<times> 'a prock_scheme) res" where
  "sys_fork m =
     (let parent_thread = running_thread m in
      bnd (get_kernel_pages 1 m) (\<lambda>(va, m).
      let child_thread = unat va in
      if va = 0 then Inr (-1, m)
      else ASSERT (intr_get_status m = INTR_OFF \<and> pgdir (tasks m parent_thread) \<noteq> None)
             ''INTR_OFF == intr_get_status() && parent_thread->pgdir != NULL''
           (bnd (copy_process child_thread parent_thread m) (\<lambda>(r, m).
            if r = -1 then Inr (-1, m)
            else bnd (enqueue_thread child_thread m) (\<lambda>m. Inr (pid (tasks m child_thread), m))))))"

end
