(* ===== verification/Waitexit.thy ===== *)
theory Waitexit
  imports Fork Fs
begin

text \<open>
  \<open>userprog/wait_exit.c\<close>: how a process ends. \<open>sys_exit\<close> hands its children to \<open>init\<close>, gives
  back its memory and files, wakes a waiting parent and hangs until \<open>sys_wait\<close> of the parent
  collects its status and its PCB.
\<close>

section \<open>The resources of a process\<close>

text \<open>The frames of one page table, then the table itself, for every table of the user space.\<close>

fun free_ptes :: "u32 \<Rightarrow> nat list \<Rightarrow> 'a memk_scheme \<Rightarrow> 'a memk_scheme res" where
  "free_ptes first_pte [] m = Inr m"
| "free_ptes first_pte (pte_idx # js) m =
     bnd (load (first_pte + of_nat pte_idx * 4) m) (\<lambda>pte.
     bnd (if pte AND 1 \<noteq> 0 then free_a_phy_addr (pte AND 0xfffff000) m else Inr m)
      (free_ptes first_pte js))"

fun free_pdes :: "u32 \<Rightarrow> nat list \<Rightarrow> 'a memk_scheme \<Rightarrow> 'a memk_scheme res" where
  "free_pdes pgdir_vaddr [] m = Inr m"
| "free_pdes pgdir_vaddr (pde_idx # js) m =
     bnd (load (pgdir_vaddr + of_nat pde_idx * 4) m) (\<lambda>pde.
     bnd (if pde AND 1 \<noteq> 0
          then bnd (free_ptes (pte_ptr (of_nat pde_idx * 0x400000)) [0..<1024] m)
                (free_a_phy_addr (pde AND 0xfffff000))
          else Inr m)
      (free_pdes pgdir_vaddr js))"

text \<open>
  The descriptors from 3 on. A pipe whose last user goes gives its page back; the entries of
  the table of descriptors stay, except for the files that \<open>sys_close\<close> closes.
\<close>

fun close_fds :: "nat list \<Rightarrow> fsk \<Rightarrow> fsk res" where
  "close_fds [] k = Inr k"
| "close_fds (local_fd # js) k =
     bnd (if fsk.fd_table k (running_thread k) ! local_fd \<noteq> -1
          then bnd (is_pipe local_fd k) (\<lambda>p.
               if p
               then bnd (fd_local2global local_fd k) (\<lambda>global_idx.
                    bnd (get_file global_idx k) (\<lambda>f.
                    let n = sub32 (fd_pos f) 1 in
                    if n = 0
                    then Inr (set_file global_idx (f\<lparr>fd_pos := n, fd_inode := 0\<rparr>)
                           (k\<lparr>pipes := (pipes k)(fd_inode f := None)\<rparr>))
                    else Inr (set_file global_idx (f\<lparr>fd_pos := n\<rparr>) k)))
               else bnd (sys_close (int local_fd) k) (\<lambda>(_, k). Inr k))
          else Inr k)
      (close_fds js)"

definition release_prog_resource :: "tid \<Rightarrow> 'a prock_scheme \<Rightarrow> 'a prock_scheme res" where
  "release_prog_resource release_thread m =
     (case pgdir (tasks m release_thread) of
        None \<Rightarrow> Inl (Fault ''pgdir_vaddr'')
      | Some pgdir_vaddr \<Rightarrow>
          bnd (free_pdes (of_nat pgdir_vaddr) [0..<768] m) (\<lambda>m.
          let bitmap_pg_cnt = btmp_bytes_len (vaddr_bitmap (userprog_vaddr m release_thread)) div PG_SIZE
          in bnd (mfree_page PF_KERNEL (vbits_at m release_thread) bitmap_pg_cnt m) (\<lambda>m.
             bnd (on_files (\<lambda>k. bnd (close_fds [3..<MAX_FILES_OPEN_PER_PROC] k) (\<lambda>k. Inr ((), k))) m) (\<lambda>(_, m).
             Inr m))))"

section \<open>Children\<close>

definition find_child :: "'a kernel_scheme \<Rightarrow> int \<Rightarrow> tid \<Rightarrow> bool" where
  "find_child k ppid t \<longleftrightarrow> parent_pid (tasks k t) = ppid"

definition find_hanging_child :: "'a kernel_scheme \<Rightarrow> int \<Rightarrow> tid \<Rightarrow> bool" where
  "find_hanging_child k ppid t \<longleftrightarrow> parent_pid (tasks k t) = ppid \<and> status_of k t = TASK_HANGING"

definition init_adopt_a_child :: "int \<Rightarrow> task \<Rightarrow> task" where
  "init_adopt_a_child p t = (if parent_pid t = p then t\<lparr>parent_pid := 1\<rparr> else t)"

definition adopt_children :: "int \<Rightarrow> 'a kernel_scheme \<Rightarrow> 'a kernel_scheme" where
  "adopt_children p k = k\<lparr>tasks := (\<lambda>t.
     if t \<in> set (thread_all_list k) then init_adopt_a_child p (tasks k t) else tasks k t)\<rparr>"

text \<open>
  One round of the loop of \<open>sys_wait\<close>: a hanging child is collected (its process id and its
  status are returned), or there is no child, or the parent sleeps; a sleeping parent starts
  the next round when a child wakes it.
\<close>

datatype wait_outcome = Reaped int int | No_child | Waiting

definition sys_wait :: "'a prock_scheme \<Rightarrow> (wait_outcome \<times> 'a prock_scheme) res" where
  "sys_wait m =
     (let parent_thread = running_thread m; p = pid (tasks m parent_thread) in
      case find (find_hanging_child m p) (thread_all_list m) of
        Some child_thread \<Rightarrow>
          let st = exit_status (tasks m child_thread); child_pid = pid (tasks m child_thread)
          in bnd (thread_exit child_thread False m) (\<lambda>m. Inr (Reaped child_pid st, m))
      | None \<Rightarrow>
          (case find (find_child m p) (thread_all_list m) of
             None \<Rightarrow> Inr (No_child, m)
           | Some _ \<Rightarrow> bnd (thread_block TASK_WAITING m) (\<lambda>m. Inr (Waiting, m))))"

text \<open>The field \<open>exit_status\<close> is 8 bits wide.\<close>

definition to_s8 :: "int \<Rightarrow> int" where
  "to_s8 i = sint (word_of_int i :: 8 word)"

definition sys_exit :: "int \<Rightarrow> 'a prock_scheme \<Rightarrow> 'a prock_scheme res" where
  "sys_exit st m =
     (let child_thread = running_thread m;
          m = set_task child_thread (\<lambda>t. t\<lparr>exit_status := to_s8 st\<rparr>) m
      in if parent_pid (tasks m child_thread) = -1
         then Inl (Panic ''sys_exit: child_thread->parent_pid is -1'')
         else let m = adopt_children (pid (tasks m child_thread)) m
              in bnd (release_prog_resource child_thread m) (\<lambda>m.
                 case pid2thread (parent_pid (tasks m child_thread)) m of
                   None \<Rightarrow> Inl (Fault ''parent_thread'')
                 | Some parent_thread \<Rightarrow>
                     bnd (if status_of m parent_thread = TASK_WAITING then thread_unblock parent_thread m else Inr m)
                      (thread_block TASK_HANGING)))"

end
