(* ===== verification/Exec.thy ===== *)
theory Exec
  imports Process Pipe
begin

text \<open>
  \<open>userprog/exec.c\<close>: a process replaces its program by one from the file system. The file must
  be a 32 bit executable ELF file for the 386; every loadable segment is read to the address
  it asks for, into pages that are allocated where there are none yet.
\<close>

section \<open>ELF files\<close>

definition rd16 :: "u8 list \<Rightarrow> nat \<Rightarrow> nat" where
  "rd16 bs off = unat (bs ! off) + 256 * unat (bs ! (off + 1))"

record Elf32_Ehdr =
  e_ident :: "u8 list"
  e_type :: nat
  e_machine :: nat
  e_version :: nat
  e_entry :: nat
  e_phoff :: nat
  e_shoff :: nat
  e_flags :: nat
  e_ehsize :: nat
  e_phentsize :: nat
  e_phnum :: nat
  e_shentsize :: nat
  e_shnum :: nat
  e_shstrndx :: nat

record Elf32_Phdr =
  p_type :: nat
  p_offset :: nat
  p_vaddr :: nat
  p_paddr :: nat
  p_filesz :: nat
  p_memsz :: nat
  p_flags :: nat
  p_align :: nat

abbreviation EHDR_BYTES :: nat where "EHDR_BYTES \<equiv> 52"
abbreviation PHDR_BYTES :: nat where "PHDR_BYTES \<equiv> 32"
abbreviation PT_LOAD :: nat where "PT_LOAD \<equiv> 1"

text \<open>The headers as the bytes of the file that are read over them.\<close>

definition read_ehdr :: "u8 list \<Rightarrow> Elf32_Ehdr" where
  "read_ehdr bs = \<lparr>e_ident = take 16 bs, e_type = rd16 bs 16, e_machine = rd16 bs 18, e_version = rd32 bs 20,
     e_entry = rd32 bs 24, e_phoff = rd32 bs 28, e_shoff = rd32 bs 32, e_flags = rd32 bs 36,
     e_ehsize = rd16 bs 40, e_phentsize = rd16 bs 42, e_phnum = rd16 bs 44, e_shentsize = rd16 bs 46,
     e_shnum = rd16 bs 48, e_shstrndx = rd16 bs 50\<rparr>"

definition read_phdr :: "u8 list \<Rightarrow> Elf32_Phdr" where
  "read_phdr bs = \<lparr>p_type = rd32 bs 0, p_offset = rd32 bs 4, p_vaddr = rd32 bs 8, p_paddr = rd32 bs 12,
     p_filesz = rd32 bs 16, p_memsz = rd32 bs 20, p_flags = rd32 bs 24, p_align = rd32 bs 28\<rparr>"

definition ELF_MAGIC :: "u8 list" where
  "ELF_MAGIC = [0x7f, 0x45, 0x4c, 0x46, 1, 1, 1]"

definition elf_ok :: "Elf32_Ehdr \<Rightarrow> bool" where
  "elf_ok h \<longleftrightarrow> \<not> (take 7 (e_ident h) \<noteq> ELF_MAGIC \<or> e_type h \<noteq> 2 \<or> e_machine h \<noteq> 3 \<or> e_version h \<noteq> 1 \<or>
     e_phnum h > 1024 \<or> e_phentsize h \<noteq> PHDR_BYTES)"

section \<open>Loading\<close>

text \<open>Bytes that the file system reads to an address of the process.\<close>

definition put_byte :: "u32 \<Rightarrow> nat \<Rightarrow> u8 \<Rightarrow> u32" where
  "put_byte w i b = (w AND NOT (push_bit (8 * i) 0xff)) OR push_bit (8 * i) (ucast b)"

definition store_byte :: "u32 \<Rightarrow> u8 \<Rightarrow> 'a memk_scheme \<Rightarrow> 'a memk_scheme res" where
  "store_byte va b m = bnd (load va m) (\<lambda>w. store va (put_byte w (unat (va AND 3)) b) m)"

fun store_bytes :: "u32 \<Rightarrow> u8 list \<Rightarrow> 'a memk_scheme \<Rightarrow> 'a memk_scheme res" where
  "store_bytes va [] m = Inr m"
| "store_bytes va (b # bs) m = bnd (store_byte va b m) (store_bytes (va + 1) bs)"

definition read_file :: "int \<Rightarrow> nat \<Rightarrow> 'a prock_scheme \<Rightarrow> ((int \<times> u8 list) \<times> 'a prock_scheme) res" where
  "read_file fd n m = on_files (\<lambda>k. bnd (sys_read fd n k) (\<lambda>(r, bs, k). Inr ((r, bs), k))) m"

definition seek_file :: "int \<Rightarrow> nat \<Rightarrow> 'a prock_scheme \<Rightarrow> 'a prock_scheme res" where
  "seek_file fd off m = bnd (on_files (sys_lseek fd (s32 off) 1) m) (\<lambda>(_, m). Inr m)"

definition segment_pages :: "u32 \<Rightarrow> u32 \<Rightarrow> u32" where
  "segment_pages filesz vaddr =
     (let size_in_first_page = 4096 - (vaddr AND 0xfff)
      in if filesz > size_in_first_page then 1 + (filesz - size_in_first_page + 4096 - 1) div 4096 else 1)"

text \<open>A page for every address of the segment that has none. \<open>False\<close>: no memory.\<close>

fun segment_alloc :: "nat \<Rightarrow> u32 \<Rightarrow> 'a memk_scheme \<Rightarrow> (bool \<times> 'a memk_scheme) res" where
  "segment_alloc 0 vaddr_page m = Inr (True, m)"
| "segment_alloc (Suc n) vaddr_page m =
     bnd (load (pde_ptr vaddr_page) m) (\<lambda>d.
     bnd (if d AND 1 = 0 then Inr True
          else bnd (load (pte_ptr vaddr_page) m) (\<lambda>e. Inr (e AND 1 = 0))) (\<lambda>absent.
     bnd (if absent
          then bnd (get_a_page PF_USER vaddr_page m) (\<lambda>(va, m). Inr (va \<noteq> 0, m))
          else Inr (True, m)) (\<lambda>(ok, m).
     if ok then segment_alloc n (vaddr_page + 4096) m else Inr (False, m))))"

definition segment_load :: "int \<Rightarrow> nat \<Rightarrow> nat \<Rightarrow> nat \<Rightarrow> 'a prock_scheme \<Rightarrow> (bool \<times> 'a prock_scheme) res" where
  "segment_load fd off filesz vaddr m =
     (let v = of_nat vaddr :: u32 in
      bnd (segment_alloc (unat (segment_pages (of_nat filesz) v)) (v AND 0xfffff000) m) (\<lambda>(ok, m).
      if \<not> ok then Inr (False, m)
      else bnd (seek_file fd off m) (\<lambda>m.
           bnd (read_file fd filesz m) (\<lambda>((_, bs), m).
           bnd (store_bytes v bs m) (\<lambda>m. Inr (True, m))))))"

text \<open>The loop over the program headers; \<open>False\<close> is the jump to \<open>done\<close> with the result -1.\<close>

fun load_segments :: "int \<Rightarrow> nat \<Rightarrow> u32 \<Rightarrow> nat \<Rightarrow> 'a prock_scheme \<Rightarrow> (bool \<times> 'a prock_scheme) res" where
  "load_segments fd 0 off sz m = Inr (True, m)"
| "load_segments fd (Suc n) off sz m =
     bnd (seek_file fd (unat off) m) (\<lambda>m.
     bnd (read_file fd sz m) (\<lambda>((r, bs), m).
     if r \<noteq> int sz then Inr (False, m)
     else let ph = read_phdr (bs @ replicate (PHDR_BYTES - length bs) 0) in
          bnd (if p_type ph = PT_LOAD then segment_load fd (p_offset ph) (p_filesz ph) (p_vaddr ph) m else Inr (True, m))
           (\<lambda>(ok, m). if ok then load_segments fd n (off + of_nat sz) sz m else Inr (False, m))))"

definition load_program :: "u8 list \<Rightarrow> 'a prock_scheme \<Rightarrow> (int \<times> 'a prock_scheme) res" where
  "load_program path_name m =
     bnd (on_files (sys_open path_name 0) m) (\<lambda>(fd, m).
     if fd = -1 then Inr (-1, m)
     else bnd (read_file fd EHDR_BYTES m) (\<lambda>((r, bs), m).
          bnd (if r \<noteq> int EHDR_BYTES then Inr (-1, m)
               else let h = read_ehdr bs in
                    if \<not> elf_ok h then Inr (-1, m)
                    else bnd (load_segments fd (e_phnum h) (of_nat (e_phoff h)) (e_phentsize h) m) (\<lambda>(ok, m).
                         Inr (if ok then s32 (e_entry h) else -1, m))) (\<lambda>(ret, m).
          bnd (on_files (sys_close fd) m) (\<lambda>(_, m). Inr (ret, m)))))"

section \<open>The system call\<close>

text \<open>The length of the array \<open>argv\<close>, which ends with a null pointer; a loop without a bound.\<close>

partial_function (option) count_args :: "u32 \<Rightarrow> nat \<Rightarrow> 'a memk_scheme \<Rightarrow> nat res option" where
  "count_args argv argc m =
     (case load (argv + of_nat argc * 4) m of
        Inl e \<Rightarrow> Some (Inl e)
      | Inr w \<Rightarrow> if w = 0 then Some (Inr argc) else count_args argv (Suc argc) m)"

text \<open>
  The name of the process is the start of the path. On success the process does not return: it
  enters user mode at the entry point with a fresh stack, \<open>argv\<close> in \<open>ebx\<close> and \<open>argc\<close> in
  \<open>ecx\<close>.
\<close>

datatype exec_outcome = Exec_failed | Entered

definition sys_execv :: "u8 list \<Rightarrow> u32 \<Rightarrow> 'a prock_scheme \<Rightarrow> (exec_outcome \<times> 'a prock_scheme) res option" where
  "sys_execv path argv m =
     (case count_args argv 0 m of
        None \<Rightarrow> None
      | Some (Inl e) \<Rightarrow> Some (Inl e)
      | Some (Inr argc) \<Rightarrow>
          Some (bnd (load_program path m) (\<lambda>(entry_point, m).
            if entry_point = -1 then Inr (Exec_failed, m)
            else let c = running_thread m;
                     m = set_task c (\<lambda>t. t\<lparr>name := map (\<lambda>b. char_of (unat b)) (take (TASK_NAME_LEN - 1) path)\<rparr>) m;
                     sp = c + PG_SIZE - INTR_STACK_BYTES
                 in Inr (Entered, m\<lparr>intr_stacks := (intr_stacks m)(sp := (intr_stacks m sp)
                      \<lparr>is_ebx := argv, is_ecx := of_nat argc, is_eip := Code (word_of_int entry_point),
                       is_esp := 0xc0000000\<rparr>)\<rparr>))))"

end
