(* ===== verification/Syscall.thy ===== *)
theory Syscall
  imports Waitexit Exec
begin

text \<open>
  The way of a system call: \<open>lib/usr/syscall.c\<close> loads a number and up to three arguments into
  registers and traps; \<open>syscall_handler\<close> (\<open>kernel/kernel.s\<close>) calls the routine that
  \<open>lib/usr/syscall-init.c\<close> put at that place of \<open>syscall_table\<close>, with the three registers as its
  arguments.
\<close>

section \<open>User side\<close>

datatype SYS_NR = SYS_GETPID | SYS_WRITE | SYS_READ | SYS_MALLOC | SYS_FREE | SYS_FORK | SYS_PUTCHAR
  | SYS_CLEAN | SYS_GETCWD | SYS_OPEN | SYS_CLOSE | SYS_LSEEK | SYS_UNLINK | SYS_MKDIR | SYS_OPENDIR
  | SYS_CLOSEDIR | SYS_CHDIR | SYS_RMDIR | SYS_READDIR | SYS_REWINDDIR | SYS_STAT | SYS_PS | SYS_EXECV
  | SYS_EXIT | SYS_WAIT | SYS_PIPE | SYS_FD_REDIRECT | SYS_HELP

text \<open>The values of the enumeration, in its order.\<close>

definition all_nrs :: "SYS_NR list" where
  "all_nrs = [SYS_GETPID, SYS_WRITE, SYS_READ, SYS_MALLOC, SYS_FREE, SYS_FORK, SYS_PUTCHAR, SYS_CLEAN,
     SYS_GETCWD, SYS_OPEN, SYS_CLOSE, SYS_LSEEK, SYS_UNLINK, SYS_MKDIR, SYS_OPENDIR, SYS_CLOSEDIR,
     SYS_CHDIR, SYS_RMDIR, SYS_READDIR, SYS_REWINDDIR, SYS_STAT, SYS_PS, SYS_EXECV, SYS_EXIT, SYS_WAIT,
     SYS_PIPE, SYS_FD_REDIRECT, SYS_HELP]"

fun index_of :: "'b \<Rightarrow> 'b list \<Rightarrow> nat" where
  "index_of x [] = 0"
| "index_of x (y # ys) = (if x = y then 0 else Suc (index_of x ys))"

definition nr_code :: "SYS_NR \<Rightarrow> u32" where
  "nr_code n = of_nat (index_of n all_nrs)"

text \<open>The registers at the trap; a register a macro does not load is \<open>None\<close>.\<close>

record trap =
  r_eax :: u32
  r_ebx :: "u32 option"
  r_ecx :: "u32 option"
  r_edx :: "u32 option"

definition syscall0 :: "SYS_NR \<Rightarrow> trap" where
  "syscall0 n = \<lparr>r_eax = nr_code n, r_ebx = None, r_ecx = None, r_edx = None\<rparr>"

definition syscall1 :: "SYS_NR \<Rightarrow> u32 \<Rightarrow> trap" where
  "syscall1 n a = \<lparr>r_eax = nr_code n, r_ebx = Some a, r_ecx = None, r_edx = None\<rparr>"

definition syscall2 :: "SYS_NR \<Rightarrow> u32 \<Rightarrow> u32 \<Rightarrow> trap" where
  "syscall2 n a b = \<lparr>r_eax = nr_code n, r_ebx = Some a, r_ecx = Some b, r_edx = None\<rparr>"

definition syscall3 :: "SYS_NR \<Rightarrow> u32 \<Rightarrow> u32 \<Rightarrow> u32 \<Rightarrow> trap" where
  "syscall3 n a b c = \<lparr>r_eax = nr_code n, r_ebx = Some a, r_ecx = Some b, r_edx = Some c\<rparr>"

text \<open>The functions of the user library; arguments of 8 bits are widened.\<close>

definition u_getpid :: trap where "u_getpid = syscall0 SYS_GETPID"
definition u_write :: "u32 \<Rightarrow> u32 \<Rightarrow> u32 \<Rightarrow> trap" where "u_write fd bf cnt = syscall3 SYS_WRITE fd bf cnt"
definition u_read :: "u32 \<Rightarrow> u32 \<Rightarrow> u32 \<Rightarrow> trap" where "u_read fd bf cnt = syscall3 SYS_READ fd bf cnt"
definition u_malloc :: "u32 \<Rightarrow> trap" where "u_malloc sz = syscall1 SYS_MALLOC sz"
definition u_free :: "u32 \<Rightarrow> trap" where "u_free ptr = syscall1 SYS_FREE ptr"
definition u_fork :: trap where "u_fork = syscall0 SYS_FORK"
definition u_putchar :: "u8 \<Rightarrow> trap" where "u_putchar chr = syscall1 SYS_PUTCHAR (scast chr)"
definition u_clear :: trap where "u_clear = syscall0 SYS_CLEAN"
definition u_getcwd :: "u32 \<Rightarrow> u32 \<Rightarrow> trap" where "u_getcwd bf sz = syscall2 SYS_GETCWD bf sz"
definition u_open :: "u32 \<Rightarrow> u8 \<Rightarrow> trap" where "u_open path_name flag = syscall2 SYS_OPEN path_name (ucast flag)"
definition u_close :: "u32 \<Rightarrow> trap" where "u_close fd = syscall1 SYS_CLOSE fd"
definition u_lseek :: "u32 \<Rightarrow> u32 \<Rightarrow> u8 \<Rightarrow> trap" where "u_lseek fd off whence = syscall3 SYS_LSEEK fd off (ucast whence)"
definition u_unlink :: "u32 \<Rightarrow> trap" where "u_unlink path_name = syscall1 SYS_UNLINK path_name"
definition u_mkdir :: "u32 \<Rightarrow> trap" where "u_mkdir path_name = syscall1 SYS_MKDIR path_name"
definition u_opendir :: "u32 \<Rightarrow> trap" where "u_opendir nm = syscall1 SYS_OPENDIR nm"
definition u_closedir :: "u32 \<Rightarrow> trap" where "u_closedir d = syscall1 SYS_CLOSEDIR d"
definition u_chdir :: "u32 \<Rightarrow> trap" where "u_chdir path = syscall1 SYS_CHDIR path"
definition u_rmdir :: "u32 \<Rightarrow> trap" where "u_rmdir path_name = syscall1 SYS_RMDIR path_name"
definition u_readdir :: "u32 \<Rightarrow> trap" where "u_readdir d = syscall1 SYS_READDIR d"
definition u_rewinddir :: "u32 \<Rightarrow> trap" where "u_rewinddir d = syscall1 SYS_REWINDDIR d"
definition u_stat :: "u32 \<Rightarrow> u32 \<Rightarrow> trap" where "u_stat path bf = syscall2 SYS_STAT path bf"
definition u_ps :: trap where "u_ps = syscall0 SYS_PS"
definition u_execv :: "u32 \<Rightarrow> u32 \<Rightarrow> trap" where "u_execv path argv = syscall2 SYS_EXECV path argv"
definition u_exit :: "u32 \<Rightarrow> trap" where "u_exit st = syscall1 SYS_EXIT st"
definition u_wait :: "u32 \<Rightarrow> trap" where "u_wait st = syscall1 SYS_WAIT st"
definition u_pipe :: "u32 \<Rightarrow> trap" where "u_pipe pipefd = syscall1 SYS_PIPE pipefd"
definition u_fd_redirect :: "u32 \<Rightarrow> u32 \<Rightarrow> trap" where "u_fd_redirect old_fd new_fd = syscall2 SYS_FD_REDIRECT old_fd new_fd"
definition u_help :: trap where "u_help = syscall0 SYS_HELP"

section \<open>Kernel side\<close>

datatype routine = Sys_getpid | Sys_write | Sys_read | Sys_malloc | Sys_free | Sys_fork | Sys_putchar
  | Cls_screen | Sys_getcwd | Sys_open | Sys_close | Sys_lseek | Sys_unlink | Sys_mkdir | Sys_opendir
  | Sys_closedir | Sys_chdir | Sys_rmdir | Sys_readdir | Sys_rewinddir | Sys_stat | Sys_ps | Sys_execv
  | Sys_exit | Sys_wait | Sys_pipe | Sys_fd_redirect | Sys_help

abbreviation syscall_nr :: nat where "syscall_nr \<equiv> 32"

definition set_entry :: "SYS_NR \<Rightarrow> routine \<Rightarrow> routine option list \<Rightarrow> routine option list" where
  "set_entry n r table = table[unat (nr_code n) := Some r]"

definition syscall_init :: "routine option list" where
  "syscall_init = foldl (\<lambda>table (n, r). set_entry n r table) (replicate syscall_nr None)
     [(SYS_GETPID, Sys_getpid), (SYS_WRITE, Sys_write), (SYS_READ, Sys_read), (SYS_MALLOC, Sys_malloc),
      (SYS_FREE, Sys_free), (SYS_FORK, Sys_fork), (SYS_PUTCHAR, Sys_putchar), (SYS_CLEAN, Cls_screen),
      (SYS_GETCWD, Sys_getcwd), (SYS_OPEN, Sys_open), (SYS_CLOSE, Sys_close), (SYS_LSEEK, Sys_lseek),
      (SYS_UNLINK, Sys_unlink), (SYS_MKDIR, Sys_mkdir), (SYS_OPENDIR, Sys_opendir),
      (SYS_CLOSEDIR, Sys_closedir), (SYS_CHDIR, Sys_chdir), (SYS_RMDIR, Sys_rmdir),
      (SYS_READDIR, Sys_readdir), (SYS_REWINDDIR, Sys_rewinddir), (SYS_STAT, Sys_stat), (SYS_PS, Sys_ps),
      (SYS_EXECV, Sys_execv), (SYS_EXIT, Sys_exit), (SYS_WAIT, Sys_wait), (SYS_PIPE, Sys_pipe),
      (SYS_FD_REDIRECT, Sys_fd_redirect), (SYS_HELP, Sys_help)]"

text \<open>
  \<open>syscall_handler\<close> calls the address in the word at \<open>syscall_table + eax * 4\<close>, without a check of the
  number. The product is taken modulo \<open>2 ^ 32\<close>. An empty place of the table holds the address 0; the
  words at all other distances from the table are not the table's, \<open>mem\<close> stands for them. The
  registers are the arguments of the routine, in this order.
\<close>

datatype target = Routine routine | Address u32

definition syscall_handler :: "routine option list \<Rightarrow> (u32 \<Rightarrow> u32) \<Rightarrow> trap \<Rightarrow> target \<times> u32 option list" where
  "syscall_handler table mem t =
     (let off = r_eax t * 4
      in (if unat off < 4 * length table
          then (case table ! (unat off div 4) of None \<Rightarrow> Address 0 | Some r \<Rightarrow> Routine r)
          else Address (mem off),
          [r_ebx t, r_ecx t, r_edx t]))"

definition sys_getpid :: "'a kernel_scheme \<Rightarrow> u32" where
  "sys_getpid k = word_of_int (pid (tasks k (running_thread k)))"

section \<open>Results\<close>

text \<open>
  A library function reaches a kernel routine with its arguments, in order, in the first
  registers.
\<close>

definition reaches :: "trap \<Rightarrow> routine \<Rightarrow> u32 list \<Rightarrow> bool" where
  "reaches t r args \<longleftrightarrow>
     (\<forall>mem. syscall_handler syscall_init mem t = (Routine r, take 3 (map Some args @ [None, None, None])))"

lemmas library = u_getpid_def u_write_def u_read_def u_malloc_def u_free_def u_fork_def u_clear_def u_getcwd_def u_close_def u_unlink_def u_mkdir_def u_opendir_def u_closedir_def u_chdir_def u_rmdir_def u_readdir_def u_rewinddir_def u_stat_def u_ps_def u_execv_def u_exit_def u_wait_def u_pipe_def u_fd_redirect_def u_help_def u_putchar_def u_open_def u_lseek_def
lemmas traps = syscall0_def syscall1_def syscall2_def syscall3_def

lemma unat_nr_code: "unat (nr_code n) = index_of n all_nrs"
proof -
  have "index_of n all_nrs < 2 ^ 32" by (cases n) (simp_all add: all_nrs_def)
  then show ?thesis by (simp add: nr_code_def unsigned_of_nat take_bit_nat_eq_self)
qed

lemma syscall_table_eq: "syscall_init = map Some [Sys_getpid, Sys_write, Sys_read, Sys_malloc, Sys_free, Sys_fork,
    Sys_putchar, Cls_screen, Sys_getcwd, Sys_open, Sys_close, Sys_lseek, Sys_unlink, Sys_mkdir, Sys_opendir,
    Sys_closedir, Sys_chdir, Sys_rmdir, Sys_readdir, Sys_rewinddir, Sys_stat, Sys_ps, Sys_execv, Sys_exit,
    Sys_wait, Sys_pipe, Sys_fd_redirect, Sys_help] @ replicate 4 None"
proof -
  have "replicate syscall_nr (None :: routine option) = [None, None, None, None, None, None, None, None, None, None, None, None, None, None, None, None, None, None, None, None, None, None, None, None, None, None, None, None] @ replicate 4 None"
    by (simp add: numeral_eq_Suc)
  then show ?thesis unfolding syscall_init_def set_entry_def unat_nr_code by (simp add: all_nrs_def)
qed

lemma unat_times4: "unat ((w :: u32) * 4) = unat w mod 2 ^ 30 * 4"
proof -
  have "unat (w * 4) = unat w * 4 mod (2 ^ 30 * 4)" by (simp add: unat_word_ariths)
  then show ?thesis by (simp only: mod_mult_mult2)
qed

lemma handler_number:
  "syscall_handler syscall_init mem t =
     (if unat (r_eax t) mod 2 ^ 30 < 28 then Routine (the (syscall_init ! (unat (r_eax t) mod 2 ^ 30)))
      else if unat (r_eax t) mod 2 ^ 30 < 32 then Address 0
      else Address (mem (r_eax t * 4)), [r_ebx t, r_ecx t, r_edx t])"
  by (auto simp: syscall_handler_def Let_def unat_times4 syscall_table_eq nth_append simp del: list.map)

lemma reaches_nr:
  "reaches \<lparr>r_eax = nr_code n, r_ebx = b, r_ecx = c, r_edx = d\<rparr> r args \<longleftrightarrow>
     the (syscall_init ! index_of n all_nrs) = r \<and> [b, c, d] = take 3 (map Some args @ [None, None, None])"
proof -
  have "index_of n all_nrs < 28" by (cases n) (simp_all add: all_nrs_def)
  then have "unat (nr_code n) mod 2 ^ 30 < 28" "unat (nr_code n) mod 2 ^ 30 = index_of n all_nrs"
    by (simp_all add: unat_nr_code)
  then show ?thesis by (simp add: reaches_def handler_number)
qed

text \<open>
  C37: Every function of the user library ends up in the kernel routine of its name, with exactly
  the arguments it was called with, whatever the memory behind the table holds. A program can
  also load any number itself. Only its lowest 30 bits count: the numbers 0 to 27 modulo \<open>2 ^ 30\<close> lead to
  the routines of the table, the numbers 28 to 31 make the kernel call address 0, and all others
  make it call an address taken from the memory around the table.
\<close>

theorem library_calls_reach_kernel:
  "reaches (u_getpid) Sys_getpid [] \<and>
    reaches (u_write a b c) Sys_write [a, b, c] \<and>
    reaches (u_read a b c) Sys_read [a, b, c] \<and>
    reaches (u_malloc a) Sys_malloc [a] \<and>
    reaches (u_free a) Sys_free [a] \<and>
    reaches (u_fork) Sys_fork [] \<and>
    reaches (u_putchar chr) Sys_putchar [scast chr] \<and>
    reaches (u_clear) Cls_screen [] \<and>
    reaches (u_getcwd a b) Sys_getcwd [a, b] \<and>
    reaches (u_open a flag) Sys_open [a, ucast flag] \<and>
    reaches (u_close a) Sys_close [a] \<and>
    reaches (u_lseek a b flag) Sys_lseek [a, b, ucast flag] \<and>
    reaches (u_unlink a) Sys_unlink [a] \<and>
    reaches (u_mkdir a) Sys_mkdir [a] \<and>
    reaches (u_opendir a) Sys_opendir [a] \<and>
    reaches (u_closedir a) Sys_closedir [a] \<and>
    reaches (u_chdir a) Sys_chdir [a] \<and>
    reaches (u_rmdir a) Sys_rmdir [a] \<and>
    reaches (u_readdir a) Sys_readdir [a] \<and>
    reaches (u_rewinddir a) Sys_rewinddir [a] \<and>
    reaches (u_stat a b) Sys_stat [a, b] \<and>
    reaches (u_ps) Sys_ps [] \<and>
    reaches (u_execv a b) Sys_execv [a, b] \<and>
    reaches (u_exit a) Sys_exit [a] \<and>
    reaches (u_wait a) Sys_wait [a] \<and>
    reaches (u_pipe a) Sys_pipe [a] \<and>
    reaches (u_fd_redirect a b) Sys_fd_redirect [a, b] \<and>
    reaches (u_help) Sys_help [] \<and>
    (\<forall>t. let n = unat (r_eax t) mod 2 ^ 30; regs = [r_ebx t, r_ecx t, r_edx t] in
       syscall_handler syscall_init mem t =
         (if n < 28 then Routine (the (syscall_init ! n)) else if n < 32 then Address 0 else Address (mem (of_nat n * 4)), regs))"
proof -
  have "of_nat (unat w mod 2 ^ 30) * 4 = w * 4" for w :: u32
    by (rule word_unat_eq_iff [THEN iffD2])
      (simp add: unat_times4 unsigned_of_nat take_bit_nat_eq_self less_trans [OF mod_less_divisor])
  then show ?thesis
    unfolding library traps reaches_nr by (simp add: handler_number Let_def) (simp add: syscall_table_eq all_nrs_def)
qed

lemma library_calls_reach_kernel_witness:
  "reaches (u_lseek 3 5 1) Sys_lseek [3, 5, 1] \<and>
   syscall_handler syscall_init (\<lambda>_. 7) \<lparr>r_eax = 0x40000000, r_ebx = None, r_ecx = None, r_edx = None\<rparr> =
     (Routine Sys_getpid, [None, None, None])"
proof -
  note all = library_calls_reach_kernel [where flag = 1 and mem = "\<lambda>_. 7"]
  have "reaches (u_lseek 3 5 (1 :: u8)) Sys_lseek [3, 5, ucast (1 :: u8)]" using all by blast
  moreover have "\<forall>t. let n = unat (r_eax t) mod 2 ^ 30; regs = [r_ebx t, r_ecx t, r_edx t] in
       syscall_handler syscall_init (\<lambda>_. 7) t =
         (if n < 28 then Routine (the (syscall_init ! n)) else if n < 32 then Address 0 else Address 7, regs)"
    using all by blast
  then have "syscall_handler syscall_init (\<lambda>_. 7) \<lparr>r_eax = 0x40000000, r_ebx = None, r_ecx = None, r_edx = None\<rparr> =
      (Routine (the (syscall_init ! 0)), [None, None, None])"
    by (elim allE [of _ "\<lparr>r_eax = 0x40000000, r_ebx = None, r_ecx = None, r_edx = None\<rparr>"]) simp
  ultimately show ?thesis by (simp add: syscall_table_eq)
qed

end
