(* ===== verification/Pipeflow.thy ===== *)
theory Pipeflow
  imports Pipe
begin

text \<open>
  What the calls of theory \<open>Pipe\<close> are for: bytes written to one end of a pipe are read, in
  order, at the other. The rings are those of theory \<open>Ioqueue\<close>.
\<close>

section \<open>Bytes through a ring\<close>

text \<open>A ring nobody waits at, with interrupts off, as system calls run.\<close>

lemma put_bytes_idle:
  "ioq_idle q \<Longrightarrow> intr k = INTR_OFF \<Longrightarrow> ioq_lenth q + length bs < bufsize \<Longrightarrow>
   \<exists>q'. put_bytes bs q k = Inr (q', k) \<and> ioq_idle q' \<and> contents q' = contents q @ bs"
proof (induction bs arbitrary: q)
  case Nil
  then show ?case by simp
next
  case (Cons b bs)
  have id: "wf_ioq q" "producer q = None" "consumer q = None" using Cons.prems(1) by (simp_all add: ioq_idle_def)
  have "length (contents q) < bufsize - 1" using Cons.prems(3) by simp
  from ioq_putchar_not_full [OF id(1) Cons.prems(2) this, of b] id(3)
  obtain q' where q': "ioq_putchar b q k = Inr (True, q', k)" "wf_ioq q'" "contents q' = contents q @ [b]"
    "producer q' = producer q" "consumer q' = consumer q" "ioq_lock q' = ioq_lock q" by auto
  have i': "ioq_idle q'" by (rule ioq_idle_cong [OF Cons.prems(1) q'(2,4,5,6)])
  have "ioq_lenth q' = Suc (ioq_lenth q)" using q'(3) length_contents [of q'] by simp
  with Cons.IH [OF i' Cons.prems(2)] Cons.prems(3) q'(1,3) show ?case by auto
qed

lemma take_bytes_idle:
  "ioq_idle q \<Longrightarrow> intr k = INTR_OFF \<Longrightarrow> n \<le> ioq_lenth q \<Longrightarrow>
   \<exists>q'. take_bytes n q k = Inr (take n (contents q), q', k) \<and> ioq_idle q' \<and> contents q' = drop n (contents q)"
proof (induction n arbitrary: q)
  case 0
  then show ?case by simp
next
  case (Suc n)
  have id: "wf_ioq q" "producer q = None" using Suc.prems(1) by (simp_all add: ioq_idle_def)
  obtain b bs where c: "contents q = b # bs" using Suc.prems(3) length_contents [of q] by (cases "contents q") auto
  obtain q' where q': "ioq_getchar_loop q k = Inr (Some b, q', k)" "wf_ioq q'" "contents q' = bs"
    "producer q' = None" "consumer q' = consumer q" "ioq_lock q' = ioq_lock q"
    using ioq_getchar_nonempty [OF id Suc.prems(2) c] by metis
  have i': "ioq_idle q'" using ioq_idle_cong [OF Suc.prems(1) q'(2) _ q'(5,6)] q'(4) id(2) by simp
  have "n \<le> ioq_lenth q'" using q'(3) c Suc.prems(3) length_contents [of q'] length_contents [of q] by simp
  from Suc.IH [OF i' Suc.prems(2) this] q'(1,3) c Suc.prems(2) show ?case
    by (auto simp: ioq_getchar_def intr_get_status_def)
qed

text \<open>One byte too many: the writer goes to sleep.\<close>

lemma put_bytes_append:
  "put_bytes (as @ bs) q k = bnd (put_bytes as q k) (\<lambda>(q, k). put_bytes bs q k)"
proof (induction as arbitrary: q k)
  case Nil
  then show ?case by simp
next
  case (Cons a as)
  then show ?case by (cases "ioq_putchar a q k") (auto simp: split_beta)
qed

lemma ioq_putchar_full:
  assumes "sched_inv k" "intr k = INTR_OFF" "ioq_idle q" "ioq_lenth q = bufsize - 1"
  shows "\<exists>q' k'. ioq_putchar b q k = Inr (False, q', k')"
proof -
  obtain k1 where k1: "thread_block TASK_BLOCKED k = Inr k1"
    using thread_block_inv [OF assms(1), of TASK_BLOCKED] by metis
  have "next_pos (ioq_head q) = ioq_tail q"
    using ioq_full_iff [of q] assms(3,4) by (simp add: ioq_idle_def)
  then show ?thesis using assms(2,3) k1
    by (simp add: ioq_putchar_def ioq_putchar_loop_def ioq_full_def intr_get_status_def lock_acquire_free
        ioq_idle_def ioq_wait_def)
qed

lemma put_bytes_full:
  assumes "sched_inv k" "intr k = INTR_OFF" "ioq_idle q" "ioq_lenth q + length bs = bufsize"
  shows "put_bytes bs q k = Inl (Block ''producer'')"
proof -
  have "ioq_lenth q < bufsize" using assms(3) ioq_lenth_less by (simp add: ioq_idle_def)
  then obtain as b where bs: "bs = as @ [b]" using assms(4) by (cases bs rule: rev_cases) auto
  obtain q' where q': "put_bytes as q k = Inr (q', k)" "ioq_idle q'" "contents q' = contents q @ as"
    using put_bytes_idle [OF assms(3,2), of as] assms(4) bs by auto
  have "ioq_lenth q' = bufsize - 1" using q'(3) assms(4) bs length_contents [of q'] by simp
  with ioq_putchar_full [OF assms(1,2) q'(2)] obtain q'' k'' where "ioq_putchar b q' k = Inr (False, q'', k'')" by blast
  then show ?thesis using q'(1) by (simp add: bs put_bytes_append)
qed

section \<open>The two ends\<close>

text \<open>The descriptor \<open>fd\<close> of the running thread is an end of the pipe at \<open>a\<close>.\<close>

definition pipe_end :: "nat \<Rightarrow> nat \<Rightarrow> fsk \<Rightarrow> bool" where
  "pipe_end fd a k \<longleftrightarrow> (\<exists>g f. fd_local2global fd k = Inr g \<and> get_file g k = Inr f \<and>
     fd_inode f = a \<and> fd_flag f = PIPE_FLAG)"

lemma pipe_end_pipes [simp]: "pipe_end fd a (k\<lparr>pipes := p\<rparr>) = pipe_end fd a k"
  by (simp add: pipe_end_def fd_local2global_def running_thread_def get_file_def Let_def)

lemma pipe_write_idle:
  assumes "pipe_end fd a k" "pipes k a = Some q" "ioq_idle q" "intr k = INTR_OFF" "ioq_lenth q + length bs < bufsize"
  shows "\<exists>q'. pipe_write fd bs k = Inr (length bs, k\<lparr>pipes := (pipes k)(a \<mapsto> q')\<rparr>) \<and>
    ioq_idle q' \<and> contents q' = contents q @ bs"
proof -
  obtain g f where f: "fd_local2global fd k = Inr g" "get_file g k = Inr f" "fd_inode f = a"
    using assms(1) by (auto simp: pipe_end_def)
  obtain q' where q': "put_bytes bs q k = Inr (q', k)" "ioq_idle q'" "contents q' = contents q @ bs"
    using put_bytes_idle [OF assms(3,4,5)] by blast
  have "length bs < bufsize - ioq_lenth q" using assms(5) by linarith
  then have "pipe_write fd bs k = Inr (length bs, k\<lparr>pipes := (pipes k)(a \<mapsto> q')\<rparr>)"
    using f q'(1) assms(2) by (simp add: pipe_write_def get_pipe_def)
  then show ?thesis using q'(2,3) by blast
qed

lemma pipe_read_idle:
  assumes "pipe_end fd a k" "pipes k a = Some q" "ioq_idle q" "intr k = INTR_OFF"
  shows "\<exists>q'. pipe_read fd n k = Inr (min n (ioq_lenth q), take n (contents q), k\<lparr>pipes := (pipes k)(a \<mapsto> q')\<rparr>) \<and>
    ioq_idle q' \<and> contents q' = drop n (contents q)"
proof -
  have "min n (ioq_lenth q) \<le> ioq_lenth q" by simp
  from take_bytes_idle [OF assms(3,4) this] obtain q' where q': "take_bytes (min n (ioq_lenth q)) q k =
      Inr (take n (contents q), q', k)" "ioq_idle q'" "contents q' = drop n (contents q)"
    using length_contents [of q] by (cases "n \<le> ioq_lenth q") (auto simp: min_def)
  obtain g f where f: "fd_local2global fd k = Inr g" "get_file g k = Inr f" "fd_inode f = a"
    using assms(1) by (auto simp: pipe_end_def)
  have "(if ioq_lenth q > n then n else ioq_lenth q) = min n (ioq_lenth q)" by simp
  then have "pipe_read fd n k = Inr (min n (ioq_lenth q), take n (contents q), k\<lparr>pipes := (pipes k)(a \<mapsto> q')\<rparr>)"
    using f q'(1) assms(2) by (simp add: pipe_read_def get_pipe_def Let_def)
  then show ?thesis using q'(2,3) by blast
qed

section \<open>A new pipe\<close>

lemma find_Some_SomeD: "find P [a..<b] = Some i \<Longrightarrow> a \<le> i \<and> i < b \<and> P i"
  by (auto simp: find_Some_iff)

lemma find_ex: "a \<le> i \<Longrightarrow> i < b \<Longrightarrow> P i \<Longrightarrow> \<exists>j. find P [a..<b] = Some j"
  by (cases "find P [a..<b]") (auto simp: find_None_iff)

definition fd_free :: "nat \<Rightarrow> fsk \<Rightarrow> bool" where
  "fd_free i k \<longleftrightarrow> 3 \<le> i \<and> i < MAX_FILES_OPEN_PER_PROC \<and> fd_table k (running_thread k) ! i = -1"

abbreviation fds_ok :: "fsk \<Rightarrow> bool" where
  "fds_ok k \<equiv> length (fd_table k (running_thread k)) = MAX_FILES_OPEN_PER_PROC"

lemma pcb_fd_install_free:
  assumes "fd_free i k" "fds_ok k"
  obtains j where "fd_free j k" "pcb_fd_install g k =
    (int j, k\<lparr>fd_table := (fd_table k)(running_thread k := (fd_table k (running_thread k))[j := g])\<rparr>)"
proof -
  let ?P = "\<lambda>l. fd_table k (running_thread k) ! l = -1"
  obtain j where j: "find ?P [3..<MAX_FILES_OPEN_PER_PROC] = Some j"
    using find_ex [of 3 i MAX_FILES_OPEN_PER_PROC ?P] assms(1) by (auto simp: fd_free_def)
  have "pcb_fd_install g k =
    (int j, k\<lparr>fd_table := (fd_table k)(running_thread k := (fd_table k (running_thread k))[j := g])\<rparr>)"
    unfolding pcb_fd_install_def Let_def j by simp
  with that [of j] find_Some_SomeD [OF j] show thesis by (simp add: fd_free_def)
qed

lemma sys_pipe_ok:
  assumes slot: "get_free_slot_in_global k \<noteq> -1" "length (file_table k) = MAX_FILES_OPEN"
    and fds: "fd_free i k" "fd_free j k" "i \<noteq> j" "fds_ok k" and heap: "fst (heap_reply k)"
  shows "\<exists>fd0 fd1 k1 a q. sys_pipe k = Inr (0, Some (int fd0, int fd1), k1) \<and> fd0 \<noteq> fd1 \<and>
    pipe_end fd0 a k1 \<and> pipe_end fd1 a k1 \<and> pipes k1 a = Some q \<and> ioq_idle q \<and> contents q = [] \<and> intr k1 = intr k"
proof -
  obtain g where g: "get_free_slot_in_global k = int g" "3 \<le> g" "g < MAX_FILES_OPEN"
  proof (cases "find (\<lambda>fd_idx. fd_inode (file_table k ! fd_idx) = 0) [3..<MAX_FILES_OPEN]")
    case None
    then show thesis using slot(1) by (simp only: get_free_slot_in_global_def option.case)
  next
    case (Some g)
    then have "get_free_slot_in_global k = int g" by (simp only: get_free_slot_in_global_def option.case)
    with that [of g] find_Some_SomeD [OF Some] show thesis by blast
  qed
  define h where "h = snd (heap_reply k)"
  have h: "heap_reply k = (True, h)" using heap by (simp add: h_def prod_eq_iff)
  have hf: "file_table h = file_table k" "fd_table h = fd_table k" "running_thread h = running_thread k" "intr h = intr k"
    by (auto simp: h_def heap_reply_def running_thread_def split: list.splits)
  let ?a = "next_addr h"
  let ?q = "ioqueue_init \<lparr>ioq_lock = lock_init, producer = None, consumer = None, buf = replicate bufsize 0,
      ioq_head = 0, ioq_tail = 0\<rparr>"
  define k0 where "k0 = set_file g \<lparr>fd_pos = 2, fd_flag = PIPE_FLAG, fd_inode = ?a\<rparr>
      (h\<lparr>next_addr := Suc ?a, pipes := (pipes h)(?a \<mapsto> ?q)\<rparr>)"
  have k0: "fd_table k0 = fd_table k" "running_thread k0 = running_thread k" "pipes k0 ?a = Some ?q" "intr k0 = intr k"
    "length (file_table k0) = MAX_FILES_OPEN" "file_table k0 ! g = \<lparr>fd_pos = 2, fd_flag = PIPE_FLAG, fd_inode = ?a\<rparr>"
    using g(3) slot(2) hf by (simp_all add: k0_def set_file_def running_thread_def)
  have "fd_free i k0" "fds_ok k0" using fds k0 by (simp_all add: fd_free_def)
  then obtain x where x: "fd_free x k0" "pcb_fd_install (int g) k0 =
    (int x, k0\<lparr>fd_table := (fd_table k0)(running_thread k0 := (fd_table k0 (running_thread k0))[x := int g])\<rparr>)"
    by (rule pcb_fd_install_free)
  define k1 where "k1 = k0\<lparr>fd_table := (fd_table k0)(running_thread k0 := (fd_table k0 (running_thread k0))[x := int g])\<rparr>"
  have k1: "running_thread k1 = running_thread k" by (simp add: k1_def running_thread_def k0(2) [unfolded running_thread_def])
  have t1: "fd_table k1 (running_thread k) = (fd_table k (running_thread k))[x := int g]" by (simp add: k1_def k0)
  obtain l where l: "fd_free l k" "l \<noteq> x" using fds(1-3) by (cases "i = x") auto
  have "fd_free l k1" "fds_ok k1" using l fds(4) k1 t1 by (auto simp: fd_free_def)
  then obtain y where y: "fd_free y k1" "pcb_fd_install (int g) k1 =
    (int y, k1\<lparr>fd_table := (fd_table k1)(running_thread k1 := (fd_table k1 (running_thread k1))[y := int g])\<rparr>)"
    by (rule pcb_fd_install_free)
  define k2 where "k2 = k1\<lparr>fd_table := (fd_table k1)(running_thread k1 := (fd_table k1 (running_thread k1))[y := int g])\<rparr>"
  have xy: "x < MAX_FILES_OPEN_PER_PROC" "y < MAX_FILES_OPEN_PER_PROC" "x \<noteq> y"
    using x(1) y(1) k1 t1 fds(4) g(2) by (auto simp: fd_free_def)
  have k2: "running_thread k2 = running_thread k" "file_table k2 = file_table k0" "pipes k2 = pipes k0" "intr k2 = intr k"
    using k1 k0(4) by (simp_all add: k2_def k1_def running_thread_def)
  have t2: "fd_table k2 (running_thread k) = (fd_table k (running_thread k))[x := int g, y := int g]"
    by (simp add: k2_def k1 t1)
  have e: "pipe_end x ?a k2" "pipe_end y ?a k2"
    using xy k2 t2 fds(4) g(3) k0(5,6) by (simp_all add: pipe_end_def fd_local2global_def get_file_def)
  have "sys_pipe k = Inr (0, Some (int x, int y), k2)"
    using g slot h hf x(2) y(2) unfolding k1_def [symmetric] k2_def [symmetric]
    by (simp add: sys_pipe_def get_file_def Let_def k0_def [symmetric])
  then show ?thesis
    using xy(3) e k2 k0(3) ioq_idle_init by (intro exI [of _ x] exI [of _ y] exI [of _ k2] exI [of _ ?a] exI [of _ ?q]) simp
qed

section \<open>Results\<close>

text \<open>
  C39: A pipe carries data. When the table of open files has a free entry, the kernel a free page,
  and the process two free descriptors, \<open>sys_pipe\<close> returns the two ends of a new pipe; up to 2047
  bytes written to the second end arrive in order at the first, in any two portions in which
  they are read, and no call goes to sleep (interrupts are off, as the system call leaves them).
  The free entry is a condition on the caller: \<open>sys_pipe\<close> does not test for a full table, and then
  writes in front of it, although its comment promises -1.
\<close>

theorem pipe_carries_data:
  assumes "get_free_slot_in_global k \<noteq> -1" "length (file_table k) = MAX_FILES_OPEN"
    and "fd_free i k" "fd_free j k" "i \<noteq> j" "fds_ok k" and "fst (heap_reply k)"
    and off: "intr k = INTR_OFF" and len: "length bs < bufsize"
  shows "\<exists>fd0 fd1 k1 k2 k3 k4. sys_pipe k = Inr (0, Some (int fd0, int fd1), k1) \<and> fd0 \<noteq> fd1 \<and>
    pipe_write fd1 bs k1 = Inr (length bs, k2) \<and>
    pipe_read fd0 n k2 = Inr (min n (length bs), take n bs, k3) \<and>
    pipe_read fd0 (length bs) k3 = Inr (length bs - n, drop n bs, k4)"
proof -
  obtain fd0 fd1 k1 a q where p: "sys_pipe k = Inr (0, Some (int fd0, int fd1), k1)" "fd0 \<noteq> fd1"
    "pipe_end fd0 a k1" "pipe_end fd1 a k1" "pipes k1 a = Some q" "ioq_idle q" "contents q = []" "intr k1 = intr k"
    using sys_pipe_ok [OF assms(1-7)] by metis
  have q0: "ioq_lenth q = 0" using p(7) length_contents [of q] by simp
  obtain q1 where w: "pipe_write fd1 bs k1 = Inr (length bs, k1\<lparr>pipes := (pipes k1)(a \<mapsto> q1)\<rparr>)"
    "ioq_idle q1" "contents q1 = bs"
    using pipe_write_idle [OF p(4,5,6), of bs] off len p(7,8) q0 by auto
  let ?k2 = "k1\<lparr>pipes := (pipes k1)(a \<mapsto> q1)\<rparr>"
  have l1: "ioq_lenth q1 = length bs" using w(3) length_contents [of q1] by simp
  obtain q2 where r: "pipe_read fd0 n ?k2 = Inr (min n (length bs), take n bs, ?k2\<lparr>pipes := (pipes ?k2)(a \<mapsto> q2)\<rparr>)"
    "ioq_idle q2" "contents q2 = drop n bs"
    using pipe_read_idle [of fd0 a ?k2 q1 n] p(3,8) off w(2,3) l1 by auto
  let ?k3 = "?k2\<lparr>pipes := (pipes ?k2)(a \<mapsto> q2)\<rparr>"
  have l2: "ioq_lenth q2 = length bs - n" using r(3) length_contents [of q2] by simp
  obtain k4 where "pipe_read fd0 (length bs) ?k3 = Inr (length bs - n, drop n bs, k4)"
    using pipe_read_idle [of fd0 a ?k3 q2 "length bs"] p(3,8) off r(2,3) l2 by auto
  then show ?thesis using p(1,2) w(1) r(1) by blast
qed

lemma pipe_carries_data_witness:
  "\<exists>fd0 fd1 k1 k2 k3 k4. sys_pipe (demo_fs\<lparr>intr := INTR_OFF\<rparr>) = Inr (0, Some (int fd0, int fd1), k1) \<and>
    pipe_write fd1 [1, 2, 3] k1 = Inr (3, k2) \<and> pipe_read fd0 2 k2 = Inr (2, [1, 2], k3) \<and>
    pipe_read fd0 3 k3 = Inr (1, [3], k4)"
proof -
  let ?k = "demo_fs\<lparr>intr := INTR_OFF\<rparr>"
  have "find (\<lambda>i. fd_inode (file_table ?k ! i) = 0) [3..<MAX_FILES_OPEN] = Some 3"
    by (simp add: upt_conv_Cons)
  then have "get_free_slot_in_global ?k \<noteq> -1" by (simp add: get_free_slot_in_global_def)
  moreover have "fd_free 3 ?k" "fd_free 4 ?k" by (simp_all add: fd_free_def)
  ultimately have ex: "\<exists>fd0 fd1 k1 k2 k3 k4. sys_pipe ?k = Inr (0, Some (int fd0, int fd1), k1) \<and> fd0 \<noteq> fd1 \<and>
    pipe_write fd1 [1, 2, 3] k1 = Inr (length [1, 2, 3 :: u8], k2) \<and>
    pipe_read fd0 2 k2 = Inr (min 2 (length [1, 2, 3 :: u8]), take 2 [1, 2, 3], k3) \<and>
    pipe_read fd0 (length [1, 2, 3 :: u8]) k3 = Inr (length [1, 2, 3 :: u8] - 2, drop 2 [1, 2, 3], k4)"
    by (intro pipe_carries_data [where i = 3 and j = 4]) (simp_all add: heap_reply_def)
  have e: "length [1, 2, 3 :: u8] = 3" "min 2 3 = (2 :: nat)" "take 2 [1, 2, 3 :: u8] = [1, 2]" "3 - 2 = (1 :: nat)"
    "drop 2 [1, 2, 3 :: u8] = [3]" by simp_all
  from ex [unfolded e] show ?thesis by blast
qed

text \<open>
  The room that \<open>pipe_write\<close> computes is one byte more than the ring holds. A write of as
  many bytes as are missing to 2048, or more, does not stop when the ring is full: the writer
  goes to sleep in the middle of the call.
\<close>

theorem pipe_write_can_block:
  assumes "pipe_end fd a k" "pipes k a = Some q" "ioq_idle q" "intr k = INTR_OFF" "sched_inv k"
    and "bufsize \<le> ioq_lenth q + length bs"
  shows "pipe_write fd bs k = Inl (Block ''producer'')"
proof -
  obtain g f where f: "fd_local2global fd k = Inr g" "get_file g k = Inr f" "fd_inode f = a"
    using assms(1) by (auto simp: pipe_end_def)
  let ?n = "bufsize - ioq_lenth q"
  have less: "ioq_lenth q < bufsize" using assms(3) ioq_lenth_less by (simp add: ioq_idle_def)
  then have "ioq_lenth q + length (take ?n bs) = bufsize" using assms(6) by simp
  from put_bytes_full [OF assms(5,4,3) this]
  have "put_bytes (take ?n bs) q k = Inl (Block ''producer'')" .
  moreover have "\<not> ?n > length bs" using assms(6) less by linarith
  ultimately show ?thesis using f assms(2) by (simp add: pipe_write_def get_pipe_def Let_def)
qed

definition demo_pipe :: fsk where
  "demo_pipe = demo_fs\<lparr>intr := INTR_OFF, pipes := [2 \<mapsto> demo_ioq],
     file_table := (file_table demo_fs)[3 := \<lparr>fd_pos = 2, fd_flag = PIPE_FLAG, fd_inode = 2\<rparr>],
     fd_table := (\<lambda>t. [0, 1, 2, 3, 3, -1, -1, -1])\<rparr>"

lemma pipe_write_can_block_witness:
  "pipe_write 4 (replicate 3000 7) demo_pipe = Inl (Block ''producer'')"
proof -
  have "pipe_end 4 2 demo_pipe"
    by (simp add: pipe_end_def demo_pipe_def fd_local2global_def get_file_def)
  moreover have "ioq_idle demo_ioq"
    by (simp add: ioq_idle_def wf_ioq_def demo_ioq_def)
  moreover have "sched_inv demo_pipe"
    by (simp add: sched_inv_def demo_pipe_def demo_fs_def demo_defs kernel.defs fsk.defs)
  ultimately show ?thesis
    by (intro pipe_write_can_block [where a = 2 and q = demo_ioq]) (simp_all add: demo_pipe_def)
qed

end
