(* ===== verification/Filespec.thy ===== *)
theory Filespec
  imports File Dirspec
begin

text \<open>
  A regular file as its users see it, a list of bytes, and proofs that \<open>file_read\<close> of
  \<open>fs/file.c\<close> delivers them. The blocks of a file are the 12 direct ones and the 128 of the
  indirect table; a file of \<open>n\<close> bytes owns the blocks \<open>0\<close> to \<open>n div 512\<close>.
\<close>

section \<open>Bytes in blocks\<close>

definition data :: "image \<Rightarrow> nat list \<Rightarrow> u8 list" where
  "data d bs = concat (map (\<lambda>b. sectors d b 1) bs)"

lemma data_simps [simp]:
  "data d [] = []" "data d (b # bs) = sectors d b 1 @ data d bs" "data d (bs @ cs) = data d bs @ data d cs"
  by (simp_all add: data_def)

lemma length_data [simp]: "wf_image d \<Longrightarrow> length (data d bs) = 512 * length bs"
  by (induction bs) simp_all

lemma data_cong: "\<forall>b \<in> set bs. sectors d b 1 = sectors d' b 1 \<Longrightarrow> data d bs = data d' bs"
  by (induction bs) simp_all

lemma data_split: "j < length bs \<Longrightarrow> data d bs = data d (take j bs) @ sectors d (bs ! j) 1 @ data d (drop (Suc j) bs)"
  by (subst id_take_nth_drop [of j bs]) simp_all

text \<open>A piece of one block.\<close>

lemma data_slice:
  assumes "wf_image d" "j < length bs" "off + m \<le> 512"
  shows "take m (drop (j * 512 + off) (data d bs)) = slice off m (sectors d (bs ! j) 1)"
proof -
  have l: "length (data d (take j bs)) = j * 512" "length (sectors d (bs ! j) 1) = 512" using assms(1,2) by simp_all
  show ?thesis unfolding data_split [OF assms(2)] using l assms(3) by (simp add: slice_def)
qed

text \<open>Bytes put behind the first \<open>off\<close> bytes of block \<open>j\<close>, which occurs once.\<close>

lemma data_put:
  assumes wf: "wf_image d" "wf_image d'" and j: "j < length bs" "distinct bs" and oth: "\<forall>T. T \<noteq> bs ! j \<longrightarrow> sectors d' T 1 = sectors d T 1"
    and new: "take (off + length src) (sectors d' (bs ! j) 1) = take off (sectors d (bs ! j) 1) @ src"
    and le: "off + length src \<le> 512"
  shows "take (j * 512 + off + length src) (data d' bs) = take (j * 512 + off) (data d bs) @ src"
proof -
  have "bs = take j bs @ bs ! j # drop (Suc j) bs" by (rule id_take_nth_drop [OF j(1)])
  then have "distinct (take j bs @ bs ! j # drop (Suc j) bs)" using j(2) by metis
  then have "bs ! j \<notin> set (take j bs)" by simp
  then have "\<forall>b \<in> set (take j bs). sectors d' b 1 = sectors d b 1" using oth by metis
  then have e: "data d' (take j bs) = data d (take j bs)" by (rule data_cong)
  have l: "length (data d (take j bs)) = j * 512" using wf(1) j(1) by simp
  have ls: "length (sectors d' (bs ! j) 1) = 512" "length (sectors d (bs ! j) 1) = 512" using wf by simp_all
  have "take (j * 512 + off + length src) (data d' bs) =
      data d (take j bs) @ take (off + length src) (sectors d' (bs ! j) 1)"
    unfolding data_split [OF j(1), of d'] e using l ls le by (simp add: add.assoc)
  moreover have "take (j * 512 + off) (data d bs) = data d (take j bs) @ take off (sectors d (bs ! j) 1)"
    unfolding data_split [OF j(1), of d] using l ls le by simp
  ultimately show ?thesis unfolding new by simp
qed

section \<open>Files\<close>

text \<open>The addresses of the blocks: 0 where there is none.\<close>

definition file_blocks :: "image \<Rightarrow> inode \<Rightarrow> nat list" where
  "file_blocks d i = take 12 (i_sectors i) @
     (if i_sectors i ! 12 = 0 then replicate 128 0 else read_table 0 128 (sectors d (i_sectors i ! 12) 1))"

definition content :: "image \<Rightarrow> inode \<Rightarrow> u8 list" where
  "content d i = take (i_size i) (data d (file_blocks d i))"

text \<open>
  The first \<open>n\<close> blocks are there, all different, and different from the table, which is there
  when it is needed.
\<close>

definition blocks_ok :: "fsk \<Rightarrow> inode \<Rightarrow> nat \<Rightarrow> bool" where
  "blocks_ok k i n \<longleftrightarrow> wf_inode i \<and> n \<le> 140 \<and> (i_sectors i ! 12 \<noteq> 0 \<longleftrightarrow> n > 12) \<and>
     (n > 12 \<longrightarrow> block_in_use k (i_sectors i ! 12) \<and> i_sectors i ! 12 \<notin> set (take n (file_blocks (disk_image k) i))) \<and>
     (\<forall>b \<in> set (take n (file_blocks (disk_image k) i)). block_in_use k b) \<and>
     (\<forall>b \<in> set (drop n (file_blocks (disk_image k) i)). b = 0) \<and>
     distinct (take n (file_blocks (disk_image k) i))"

definition blocks_of :: "inode \<Rightarrow> nat" where
  "blocks_of i = (if i_sectors i ! 0 = 0 then 0 else i_size i div 512 + 1)"

definition file_ok :: "fsk \<Rightarrow> inode \<Rightarrow> bool" where
  "file_ok k i \<longleftrightarrow> blocks_ok k i (blocks_of i) \<and> (i_sectors i ! 0 = 0 \<longrightarrow> i_size i = 0)"

lemma length_file_blocks: "wf_inode i \<Longrightarrow> length (file_blocks d i) = 140"
  by (simp add: file_blocks_def wf_inode_def)

lemma file_blocks_direct: "wf_inode i \<Longrightarrow> j < 12 \<Longrightarrow> file_blocks d i ! j = i_sectors i ! j"
  by (simp add: file_blocks_def nth_append wf_inode_def)

lemma blocks_ok_nth:
  assumes "blocks_ok k i n" "j < n"
  shows "block_in_use k (file_blocks (disk_image k) i ! j)"
proof -
  have l: "length (file_blocks (disk_image k) i) = 140" "n \<le> 140"
    using assms(1) length_file_blocks by (simp_all add: blocks_ok_def)
  have "file_blocks (disk_image k) i ! j \<in> set (take n (file_blocks (disk_image k) i))"
    using l assms(2) by (simp add: in_set_conv_nth) (metis nth_take)
  then show ?thesis using assms(1) by (simp add: blocks_ok_def)
qed

lemma block_in_use_pos: "blocks_fit k \<Longrightarrow> block_in_use k b \<Longrightarrow> 0 < b"
  by (auto simp: blocks_fit_def block_in_use_def)

lemma read_in_use: "blocks_fit k \<Longrightarrow> block_in_use k b \<Longrightarrow> disk_read b 1 k = Inr (sectors (disk_image k) b 1)"
  using block_in_use_le by (intro disk_read_region) simp_all

section \<open>Reading\<close>

lemma set_file_simps [simp]:
  "disk_image (set_file fd f k) = disk_image k" "inodes (set_file fd f k) = inodes k" "sb (set_file fd f k) = sb k"
  "block_bitmap (set_file fd f k) = block_bitmap k" "file_table (set_file fd f k) = (file_table k)[fd := f]"
  "set_file fd g (set_file fd f k) = set_file fd g k" "mallocs (set_file fd f k) = mallocs k"
  by (simp_all add: set_file_def)

lemma read_chunks_ok:
  assumes "fd < length (file_table k)" "file_table k ! fd = f" "fd_pos f + n < 2 ^ 32"
    and wf: "wf_image (disk_image k)"
    and blk: "\<forall>j. fd_pos f div 512 \<le> j \<and> j * 512 < fd_pos f + n \<longrightarrow>
      j < length all \<and> j < length bs \<and> all ! j = bs ! j \<and> disk_read (bs ! j) 1 k = Inr (sectors (disk_image k) (bs ! j) 1)"
  shows "read_chunks fd all n k =
    Inr (take n (drop (fd_pos f) (data (disk_image k) bs)), if n = 0 then k else set_file fd (f\<lparr>fd_pos := fd_pos f + n\<rparr>) k)"
  using assms
proof (induction n arbitrary: f k rule: less_induct)
  case (less n)
  show ?case
  proof (cases "n = 0")
    case True
    then show ?thesis by (simp add: read_chunks.simps)
  next
    case False
    define q r where "q = fd_pos f div 512" and "r = fd_pos f mod 512"
    have qr: "fd_pos f = q * 512 + r" "r < 512" by (simp_all add: q_def r_def)
    define m where "m = min n (SECTOR_SIZE - r)"
    have m: "0 < m" "r + m \<le> 512" "m \<le> n" using qr(2) False by (auto simp: m_def)
    have "fd_pos f div 512 \<le> q \<and> q * 512 < fd_pos f + n" using qr(1) False by (simp add: q_def)
    from less.prems(5) [rule_format, OF this]
    have b: "q < length all" "q < length bs" "all ! q = bs ! q"
      "disk_read (bs ! q) 1 k = Inr (sectors (disk_image k) (bs ! q) 1)" by blast+
    define f1 where "f1 = f\<lparr>fd_pos := (fd_pos f + m) mod 2 ^ 32\<rparr>"
    define k1 where "k1 = set_file fd f1 k"
    have p: "fd_pos f1 = fd_pos f + m" using less.prems(3) m(3) by (simp add: f1_def)
    have k1: "disk_image k1 = disk_image k" "fd < length (file_table k1)" "file_table k1 ! fd = f1"
      "\<And>b. disk_read b 1 k1 = disk_read b 1 k" using less.prems(1) by (simp_all add: k1_def disk_read_def)
    have e: "fd_pos f1 + (n - m) = fd_pos f + n" using p m(3) by linarith
    have "fd_pos f div 512 \<le> fd_pos f1 div 512" unfolding p by (intro div_le_mono) simp
    then have blk: "\<forall>j. fd_pos f1 div 512 \<le> j \<and> j * 512 < fd_pos f1 + (n - m) \<longrightarrow>
      j < length all \<and> j < length bs \<and> all ! j = bs ! j \<and> disk_read (bs ! j) 1 k1 = Inr (sectors (disk_image k1) (bs ! j) 1)"
      unfolding e k1(1,4) using less.prems(5) by (meson order_trans)
    have le: "n - m < n" "fd_pos f1 + (n - m) < 2 ^ 32" using m(1) False e less.prems(3) by linarith+
    have wf1: "wf_image (disk_image k1)" unfolding k1(1) by (rule less.prems(4))
    from less.IH [OF le(1) k1(2,3) le(2) wf1 blk]
    have ih: "read_chunks fd all (n - m) k1 = Inr (take (n - m) (drop (fd_pos f + m) (data (disk_image k) bs)),
        if n - m = 0 then k1 else set_file fd (f1\<lparr>fd_pos := fd_pos f1 + (n - m)\<rparr>) k1)"
      unfolding p k1(1) .
    have sl: "slice r m (sectors (disk_image k) (bs ! q) 1) = take m (drop (fd_pos f) (data (disk_image k) bs))"
      using data_slice [OF less.prems(4) b(2) m(2)] qr(1) by simp
    have tk: "take n (drop (fd_pos f) xs) = take m (drop (fd_pos f) xs) @ take (n - m) (drop (fd_pos f + m) xs)"
      for xs :: "u8 list"
      using m(3) by (metis add.commute drop_drop le_add_diff_inverse take_add)
    have kk: "(if n - m = 0 then k1 else set_file fd (f1\<lparr>fd_pos := fd_pos f1 + (n - m)\<rparr>) k1) =
        set_file fd (f\<lparr>fd_pos := fd_pos f + n\<rparr>) k"
    proof (cases "n - m = 0")
      case True
      then have "n = m" using m(3) by simp
      then show ?thesis using less.prems(3) by (simp add: k1_def f1_def)
    qed (simp add: k1_def e f1_def [symmetric], simp add: f1_def)
    have ke: "set_file fd (f\<lparr>fd_pos := (fd_pos f + m) mod 4294967296\<rparr>) k = k1" by (simp add: k1_def f1_def)
    show ?thesis
      unfolding read_chunks.simps [of fd all n k]
      using False less.prems(1,2) b ih [unfolded kk]
      by (simp add: get_file_def q_def [symmetric] r_def [symmetric] m_def [symmetric] ke sl tk Let_def del: One_nat_def)
  qed
qed

text \<open>The indirect table of a file that has one.\<close>

lemma read_indirect_ok:
  assumes "blocks_fit k" "blocks_ok k i n" "n > 12"
  shows "read_indirect i k = Inr (drop 12 (file_blocks (disk_image k) i))"
  using assms read_in_use [OF assms(1), of "i_sectors i ! 12"]
  by (simp add: read_indirect_def blocks_ok_def file_blocks_def wf_inode_def)

lemma file_ok_blocks: "file_ok k i \<Longrightarrow> 0 < i_size i \<Longrightarrow> blocks_ok k i (i_size i div 512 + 1)"
  by (auto simp: file_ok_def blocks_of_def split: if_splits)

lemma blocks_to_read_ok:
  assumes fit: "blocks_fit k" and i: "file_ok k i" and r: "start \<le> fin" "fin \<le> i_size i div 512"
  shows "\<exists>all. blocks_to_read i start fin k = Inr all \<and> length all = 140 \<and>
    (\<forall>j. start \<le> j \<and> j \<le> fin \<longrightarrow> all ! j = file_blocks (disk_image k) i ! j)"
proof -
  let ?bs = "file_blocks (disk_image k) i"
  let ?direct = "map (\<lambda>j. if start \<le> j \<and> j \<le> fin then i_sectors i ! j else 0) [0..<12]"
  have wf: "wf_inode i" using i by (simp add: file_ok_def blocks_ok_def)
  have len: "length ?bs = 140" by (rule length_file_blocks [OF wf])
  have d: "?direct ! j = ?bs ! j" if "start \<le> j" "j \<le> fin" "j < 12" for j
    using that file_blocks_direct [OF wf] by simp
  have "i_size i < 2 ^ 32" using wf by (simp add: wf_inode_def)
  then have fin32: "fin < 2 ^ 32" using r(2) by (meson div_le_dividend le_less_trans order_trans)
  show ?thesis
  proof (cases "fin < 12")
    case True
    then have "blocks_to_read i start fin k = Inr (?direct @ replicate 128 0)" by (simp add: blocks_to_read_def Let_def)
    moreover have "length (?direct @ replicate 128 0) = 140" by simp
    moreover have "\<forall>j. start \<le> j \<and> j \<le> fin \<longrightarrow> (?direct @ replicate 128 0) ! j = ?bs ! j"
      using True d by (simp add: nth_append del: upt_rec_numeral)
    ultimately show ?thesis by blast
  next
    case False
    have "12 * 512 \<le> i_size i" using False r(2) by (simp add: less_eq_div_iff_mult_less_eq)
    then have ok: "blocks_ok k i (i_size i div 512 + 1)" "i_size i div 512 + 1 > 12"
      using file_ok_blocks [OF i] False r(2) by simp_all
    have t: "read_indirect i k = Inr (drop 12 ?bs)" by (rule read_indirect_ok [OF fit ok])
    have s12: "i_sectors i ! 12 \<noteq> 0" using ok by (simp add: blocks_ok_def)
    define pre where "pre = (if start < 12 then ?direct else replicate 12 0)"
    have lp: "length pre = 12" by (simp add: pre_def)
    have "blocks_to_read i start fin k = Inr (pre @ drop 12 ?bs)"
      using False t s12 sub32_le [OF r(1) fin32] r(1) by (auto simp: blocks_to_read_def Let_def pre_def)
    moreover have "length (pre @ drop 12 ?bs) = 140" using len lp by simp
    moreover have "\<forall>j. start \<le> j \<and> j \<le> fin \<longrightarrow> (pre @ drop 12 ?bs) ! j = ?bs ! j"
    proof (intro allI impI)
      fix j assume j: "start \<le> j \<and> j \<le> fin"
      show "(pre @ drop 12 ?bs) ! j = ?bs ! j"
      proof (cases "j < 12")
        case True
        then have "pre ! j = ?bs ! j" using d j by (simp add: pre_def del: upt_rec_numeral)
        then show ?thesis using True lp by (simp add: nth_append)
      qed (use lp len in \<open>simp add: nth_append\<close>)
    qed
    ultimately show ?thesis by blast
  qed
qed

text \<open>
  What \<open>file_read\<close> returns: at the end of the file -1, otherwise as many bytes from the
  position on as there are and were asked for.
\<close>

lemma file_read_ok:
  assumes k: "fs_ok k" "blocks_fit k" "mallocs k = []" and fd: "fd < length (file_table k)" "file_table k ! fd = f"
    and i: "inodes k (fd_inode f) = Some i" "file_ok k i"
    and pos: "fd_pos f \<le> i_size i" "fd_pos f + cnt < 2 ^ 32"
    and more: "cnt = 0 \<or> fd_pos f < i_size i" and n: "n = min cnt (i_size i - fd_pos f)"
  shows "file_read fd cnt k =
    (if 139 * 512 \<le> fd_pos f + n then Inl (Panic ''block_read_start_idx < 139 && block_read_end_idx < 139'')
     else Inr (int n, take n (drop (fd_pos f) (content (disk_image k) i)),
       if n = 0 then k else set_file fd (f\<lparr>fd_pos := fd_pos f + n\<rparr>) k))"
proof (cases "139 * 512 \<le> fd_pos f + n")
  case big: True
  have s32: "i_size i < 2 ^ 32" using i(2) by (simp add: file_ok_def blocks_ok_def wf_inode_def)
  have le: "fd_pos f + n \<le> i_size i" using n pos(1) by simp
  have "139 \<le> (fd_pos f + n) div 512" using div_le_mono [OF big, of 512] by simp
  then have fin: "\<not> (fd_pos f + n) div 512 < 139" by simp
  have m32: "(fd_pos f + n) mod 4294967296 = fd_pos f + n" "(fd_pos f + cnt) mod 4294967296 = fd_pos f + cnt"
    using le s32 pos(2) by simp_all
  show ?thesis
  proof (cases "fd_pos f + cnt > i_size i")
    case True
    then have "sub32 (i_size i) (fd_pos f) = n" "0 < n" using n more pos(1) sub32_le [OF pos(1) s32] by auto
    then show ?thesis using True big fin fd i(1) k(3)
      by (simp add: file_read_def get_file_def get_inode_def heap_reply_def Let_def m32)
  next
    case False
    then have "cnt = n" using n by simp
    then show ?thesis using False big fin fd i(1) k(3)
      by (simp add: file_read_def get_file_def get_inode_def heap_reply_def Let_def m32)
  qed
next
  case small: False
  let ?bs = "file_blocks (disk_image k) i" and ?start = "fd_pos f div 512" and ?fin = "(fd_pos f + n) div 512"
  have wfi: "wf_inode i" using i(2) by (simp add: file_ok_def blocks_ok_def)
  then have s32: "i_size i < 2 ^ 32" by (simp add: wf_inode_def)
  have le: "fd_pos f + n \<le> i_size i" using n pos(1) by simp
  have sf: "?start \<le> ?fin" "?fin \<le> i_size i div 512" using le by (simp_all add: div_le_mono)
  have f139: "?start < 139 \<and> ?fin < 139" using small by (simp add: div_less_iff_less_mult)
  obtain all where all: "blocks_to_read i ?start ?fin k = Inr all" "length all = 140"
    "\<forall>j. ?start \<le> j \<and> j \<le> ?fin \<longrightarrow> all ! j = ?bs ! j"
    using blocks_to_read_ok [OF k(2) i(2) sf] by blast
  have wf: "wf_image (disk_image k)" using k(1) by (simp add: fs_ok_def table_ok_def)
  have p32: "fd_pos f + n < 2 ^ 32" using le s32 by linarith
  have blk: "\<forall>j. fd_pos f div 512 \<le> j \<and> j * 512 < fd_pos f + n \<longrightarrow>
      j < length all \<and> j < length ?bs \<and> all ! j = ?bs ! j \<and> disk_read (?bs ! j) 1 k = Inr (sectors (disk_image k) (?bs ! j) 1)"
  proof (intro allI impI)
    fix j assume j: "fd_pos f div 512 \<le> j \<and> j * 512 < fd_pos f + n"
    then have jf: "j \<le> ?fin" by (simp add: less_eq_div_iff_mult_less_eq)
    then have "j < 139" using f139 by linarith
    moreover have "j < i_size i div 512 + 1" "0 < i_size i" using jf sf(2) j le by linarith+
    then have "block_in_use k (?bs ! j)" using blocks_ok_nth [OF file_ok_blocks [OF i(2)]] by blast
    then have "disk_read (?bs ! j) 1 k = Inr (sectors (disk_image k) (?bs ! j) 1)" by (rule read_in_use [OF k(2)])
    ultimately show "j < length all \<and> j < length ?bs \<and> all ! j = ?bs ! j \<and>
        disk_read (?bs ! j) 1 k = Inr (sectors (disk_image k) (?bs ! j) 1)"
      using all(2,3) j jf length_file_blocks [OF wfi] by simp
  qed
  have rc: "read_chunks fd all n k = Inr (take n (drop (fd_pos f) (data (disk_image k) ?bs)),
      if n = 0 then k else set_file fd (f\<lparr>fd_pos := fd_pos f + n\<rparr>) k)"
    by (rule read_chunks_ok [OF fd p32 wf blk])
  have ct: "take n (drop (fd_pos f) (data (disk_image k) ?bs)) = take n (drop (fd_pos f) (content (disk_image k) i))"
    using le by (simp add: content_def drop_take min_def)
  have m32: "(fd_pos f + n) mod 4294967296 = fd_pos f + n" "(fd_pos f + cnt) mod 4294967296 = fd_pos f + cnt"
    using p32 pos(2) by simp_all
  show ?thesis
  proof (cases "fd_pos f + cnt > i_size i")
    case True
    then have "sub32 (i_size i) (fd_pos f) = n" "0 < n" using n more pos(1) sub32_le [OF pos(1) s32] by auto
    then show ?thesis using True small fd i(1) k(3) f139 all(1) rc [unfolded ct]
      by (simp add: file_read_def get_file_def get_inode_def heap_reply_def Let_def m32)
  next
    case False
    then have "cnt = n" using n by simp
    then show ?thesis using False small fd i(1) k(3) f139 all(1) rc [unfolded ct]
      by (simp add: file_read_def get_file_def get_inode_def heap_reply_def Let_def m32)
  qed
qed

end
