(* ===== verification/Filewrite.thy ===== *)
theory Filewrite
  imports Filespec
begin

text \<open>
  \<open>file_write\<close> of \<open>fs/file.c\<close> appends: new blocks are taken from the bitmap, the data goes
  behind the bytes that are there, and the i-node on the disk is brought up to date.
\<close>

section \<open>New blocks\<close>

text \<open>
  \<open>k'\<close> comes from \<open>k\<close> by taking blocks: the bitmap has grown, in memory and on disk, the
  i-node at \<open>a\<close> is now \<open>i'\<close>, and the data of all blocks are as before.
\<close>

definition grown :: "fsk \<Rightarrow> nat \<Rightarrow> inode \<Rightarrow> fsk \<Rightarrow> bool" where
  "grown k a i' k' \<longleftrightarrow>
     k' = k\<lparr>block_bitmap := block_bitmap k', disk_image := disk_image k', inodes := (inodes k)(a \<mapsto> i')\<rparr> \<and>
     fs_ok k' \<and> blocks_synced k' \<and> blocks_fit k' \<and> nbits (block_bitmap k') = nbits (block_bitmap k) \<and>
     used (block_bitmap k) \<subseteq> used (block_bitmap k') \<and>
     (\<forall>T N. block_bitmap_lba (sb k) + block_bitmap_sects (sb k) \<le> T \<longrightarrow>
        sectors (disk_image k') T N = sectors (disk_image k) T N)"

lemma grown_simps:
  assumes "grown k a i' k'"
  shows "sb k' = sb k" "inodes k' = (inodes k)(a \<mapsto> i')" "mallocs k' = mallocs k" "file_table k' = file_table k"
    "start_lba k' = start_lba k" "part_sec_cnt k' = part_sec_cnt k" "open_inodes k' = open_inodes k"
    "inode_bitmap k' = inode_bitmap k" "next_addr k' = next_addr k" "dirs k' = dirs k"
  using assms by (cases k; cases k'; simp add: grown_def)+

lemma grown_ok: "grown k a i' k' \<Longrightarrow> fs_ok k' \<and> blocks_synced k' \<and> blocks_fit k'"
  by (simp add: grown_def)

lemma grown_in_use: "grown k a i' k' \<Longrightarrow> block_in_use k b \<Longrightarrow> block_in_use k' b"
  using grown_simps(1) [of k a i' k'] by (auto simp: grown_def block_in_use_def)

lemma grown_sectors: "grown k a i' k' \<Longrightarrow> block_bitmap_lba (sb k) + block_bitmap_sects (sb k) \<le> T \<Longrightarrow>
  sectors (disk_image k') T N = sectors (disk_image k) T N"
  by (simp add: grown_def)

lemma bitmap_below: "fs_ok k \<Longrightarrow> data_start_lba (sb k) \<le> T \<Longrightarrow> block_bitmap_lba (sb k) + block_bitmap_sects (sb k) \<le> T"
  by (simp add: fs_ok_def)

lemma grown_data:
  assumes "grown k a i' k'" "data_start_lba (sb k) \<le> T"
  shows "sectors (disk_image k') T N = sectors (disk_image k) T N"
  using grown_sectors [OF assms(1)] bitmap_below [of k' T] assms grown_simps(1) [OF assms(1)] by (simp add: grown_def)

lemma grown_trans:
  assumes "grown k a i1 k1" "grown k1 a i2 k2"
  shows "grown k a i2 k2"
proof -
  have "k1 = k\<lparr>block_bitmap := block_bitmap k1, disk_image := disk_image k1, inodes := (inodes k)(a \<mapsto> i1)\<rparr>"
    "k2 = k1\<lparr>block_bitmap := block_bitmap k2, disk_image := disk_image k2, inodes := (inodes k1)(a \<mapsto> i2)\<rparr>"
    using assms by (simp_all add: grown_def)
  then have "k2 = k\<lparr>block_bitmap := block_bitmap k2, disk_image := disk_image k2, inodes := (inodes k)(a \<mapsto> i2)\<rparr>"
    by (cases k; cases k1; cases k2; simp)
  moreover have "\<forall>T N. block_bitmap_lba (sb k) + block_bitmap_sects (sb k) \<le> T \<longrightarrow>
      sectors (disk_image k2) T N = sectors (disk_image k) T N"
    using grown_sectors [OF assms(1)] grown_sectors [OF assms(2)] grown_simps(1) [OF assms(1)] by simp
  ultimately show ?thesis using assms by (auto simp: grown_def)
qed

lemma set_inode_ok [simp]:
  "fs_ok (set_inode a i k) = fs_ok k" "blocks_synced (set_inode a i k) = blocks_synced k"
  "blocks_fit (set_inode a i k) = blocks_fit k" "block_bitmap (set_inode a i k) = block_bitmap k"
  by (simp_all add: fs_ok_def table_ok_def blocks_synced_def blocks_fit_def set_inode_def)

lemma grown_set_inode:
  assumes "grown k a i k'"
  shows "grown k a i' (set_inode a i' k')"
proof -
  have "k' = k\<lparr>block_bitmap := block_bitmap k', disk_image := disk_image k', inodes := (inodes k)(a \<mapsto> i)\<rparr>"
    using assms unfolding grown_def by blast
  then have "set_inode a i' k' = k\<lparr>block_bitmap := block_bitmap k', disk_image := disk_image k', inodes := (inodes k)(a \<mapsto> i')\<rparr>"
    by (cases k; cases k'; simp add: set_inode_def)
  then show ?thesis using assms unfolding grown_def set_inode_ok set_inode_simps by blast
qed

lemma used_less: "used b \<subseteq> {..<nbits b}"
  by (auto simp: used_def)

lemma new_block_grown:
  assumes ok: "fs_ok k" "blocks_synced k" "blocks_fit k" and i: "inodes k a = Some i"
    and free: "card (used (block_bitmap k)) < nbits (block_bitmap k)"
    and okp: "\<forall>j < nbits (block_bitmap k). j \<notin> used (block_bitmap k) \<longrightarrow> okp j"
  shows "\<exists>b k'. new_block okp k = Inr (int b, k') \<and> grown k a i k' \<and> block_in_use k' b \<and> \<not> block_in_use k b \<and>
    card (used (block_bitmap k')) = Suc (card (used (block_bitmap k))) \<and> b < 2 ^ 32 \<and> 0 < b"
proof -
  have "used (block_bitmap k) \<noteq> {..<nbits (block_bitmap k)}" using free by (metis card_lessThan less_irrefl)
  from new_block_ok [OF ok this okp] obtain j k' where n: "new_block okp k = Inr (int (data_start_lba (sb k) + j), k')"
    "j < nbits (block_bitmap k)" "j \<notin> used (block_bitmap k)" "fs_ok k'" "blocks_synced k'" "blocks_fit k'"
    "same_but_blocks k k'" "nbits (block_bitmap k') = nbits (block_bitmap k)"
    "used (block_bitmap k') = insert j (used (block_bitmap k))"
    "\<forall>T N. block_bitmap_lba (sb k) + block_bitmap_sects (sb k) \<le> T \<longrightarrow>
       sectors (disk_image k') T N = sectors (disk_image k) T N" by blast
  have sm: "k' = k\<lparr>block_bitmap := block_bitmap k', disk_image := disk_image k'\<rparr>"
    using n(7) by (simp add: same_but_blocks_def)
  have e: "k\<lparr>block_bitmap := x, disk_image := y, inodes := (inodes k)(a \<mapsto> i)\<rparr> = k\<lparr>block_bitmap := x, disk_image := y\<rparr>"
    for x y using i by (cases k) (simp add: map_upd_triv)
  then have "k' = k\<lparr>block_bitmap := block_bitmap k', disk_image := disk_image k', inodes := (inodes k)(a \<mapsto> i)\<rparr>"
    by (intro trans [OF sm] e [symmetric])
  then have "grown k a i k'" using n(4-6,8-10) unfolding grown_def by blast
  moreover have "finite (used (block_bitmap k))" using finite_subset [OF used_less] by simp
  moreover have "data_start_lba (sb k) + j < 2 ^ 32" "0 < data_start_lba (sb k)" using ok(3) n(2) by (simp_all add: blocks_fit_def)
  ultimately show ?thesis using n(1,3,9) same_but_blocks_simps(1) [OF n(7)]
    by (intro exI [of _ "data_start_lba (sb k) + j"] exI [of _ k']) (simp add: block_in_use_def)
qed

text \<open>The loop that takes the blocks \<open>h\<close> to \<open>h + m - 1\<close>.\<close>

lemma grow_blocks_ok:
  assumes "fs_ok k" "blocks_synced k" "blocks_fit k" "inodes k a = Some i" "length (i_sectors i) = 13" "length all = 140"
    "h + m \<le> 140" "\<forall>j. h \<le> j \<and> j < 12 \<longrightarrow> i_sectors i ! j = 0" "card (used (block_bitmap k)) + m \<le> nbits (block_bitmap k)"
  shows "\<exists>all' k' s'. grow_blocks a all [h..<h + m] k = Inr (Some all', k') \<and> grown k a (i\<lparr>i_sectors := s'\<rparr>) k' \<and>
    length all' = 140 \<and> (\<forall>j. j < h \<or> h + m \<le> j \<longrightarrow> all' ! j = all ! j) \<and>
    (\<forall>j. h \<le> j \<and> j < h + m \<longrightarrow> block_in_use k' (all' ! j) \<and> \<not> block_in_use k (all' ! j)) \<and>
    distinct (map ((!) all') [h..<h + m]) \<and>
    length s' = 13 \<and> (\<forall>j < 13. s' ! j = (if h \<le> j \<and> j < h + m \<and> j < 12 then all' ! j else i_sectors i ! j)) \<and>
    card (used (block_bitmap k')) = card (used (block_bitmap k)) + m"
  using assms
proof (induction m arbitrary: h all k i)
  case 0
  have "k = k\<lparr>block_bitmap := block_bitmap k, disk_image := disk_image k, inodes := (inodes k)(a \<mapsto> i)\<rparr>"
    using 0 by (cases k; simp add: map_upd_triv)
  then have "grown k a (i\<lparr>i_sectors := i_sectors i\<rparr>) k" using 0 by (simp add: grown_def)
  then show ?case using 0
    by (intro exI [of _ all] exI [of _ k] exI [of _ "i_sectors i"]) simp
next
  case (Suc m)
  have "card (used (block_bitmap k)) < nbits (block_bitmap k)" using Suc.prems(9) by linarith
  then obtain b k1 where b: "new_block (\<lambda>idx. True) k = Inr (int b, k1)" "grown k a i k1" "block_in_use k1 b"
    "\<not> block_in_use k b" "card (used (block_bitmap k1)) = Suc (card (used (block_bitmap k)))"
    using new_block_grown [OF Suc.prems(1-4), of "\<lambda>idx. True"] by blast
  define i1 where "i1 = (if h < 12 then i\<lparr>i_sectors := (i_sectors i)[h := b]\<rparr> else i)"
  define k2 where "k2 = (if h < 12 then set_inode a i1 k1 else k1)"
  have g2: "grown k a i1 k2" using grown_set_inode [OF b(2)] b(2) by (simp add: k2_def i1_def)
  have b2: "block_bitmap k2 = block_bitmap k1" "inodes k2 a = Some i1"
    using grown_simps(2) [OF g2] by (simp_all add: k2_def set_inode_def)
  have hl: "h < length all" "h < 140" using Suc.prems(6,7) by simp_all
  have up: "[h..<h + Suc m] = h # [Suc h..<Suc h + m]" by (simp add: upt_conv_Cons)
  have h0: "h < 12 \<Longrightarrow> i_sectors i ! h = 0" using Suc.prems(8) by blast
  have step: "grow_blocks a all [h..<h + Suc m] k = grow_blocks a (all[h := b]) [Suc h..<Suc h + m] k2"
    unfolding up using b(1) h0 Suc.prems(5) grown_simps(2) [OF b(2)]
    by (simp add: k2_def i1_def set_sector_def get_inode_def)
  have l13: "length (i_sectors i1) = 13" using Suc.prems(5) by (simp add: i1_def)
  have z: "\<forall>j. Suc h \<le> j \<and> j < 12 \<longrightarrow> i_sectors i1 ! j = 0" using Suc.prems(8) by (simp add: i1_def)
  have c: "card (used (block_bitmap k2)) + m \<le> nbits (block_bitmap k2)"
    using Suc.prems(9) b(5) b2(1) g2 by (simp add: grown_def)
  have l: "length (all[h := b]) = 140" "Suc h + m \<le> 140" using Suc.prems(6,7) by simp_all
  obtain all' k' s' where ih: "grow_blocks a (all[h := b]) [Suc h..<Suc h + m] k2 = Inr (Some all', k')"
    "grown k2 a (i1\<lparr>i_sectors := s'\<rparr>) k'" "length all' = 140"
    "\<forall>j. j < Suc h \<or> Suc h + m \<le> j \<longrightarrow> all' ! j = all[h := b] ! j"
    "\<forall>j. Suc h \<le> j \<and> j < Suc h + m \<longrightarrow> block_in_use k' (all' ! j) \<and> \<not> block_in_use k2 (all' ! j)"
    "distinct (map ((!) all') [Suc h..<Suc h + m])" "length s' = 13"
    "\<forall>j < 13. s' ! j = (if Suc h \<le> j \<and> j < Suc h + m \<and> j < 12 then all' ! j else i_sectors i1 ! j)"
    "card (used (block_bitmap k')) = card (used (block_bitmap k2)) + m"
    using Suc.IH [OF _ _ _ b2(2) l13 l(1,2) z c] grown_ok [OF g2] by blast
  have g: "grown k a (i\<lparr>i_sectors := s'\<rparr>) k'" using grown_trans [OF g2 ih(2)] by (simp add: i1_def split: if_splits)
  have ah: "all' ! h = b" using ih(4) hl(1) by simp
  have bk2: "block_in_use k2 b" using b(3) b2(1) grown_simps(1) [OF g2] grown_simps(1) [OF b(2)] by (simp add: block_in_use_def)
  have "\<forall>j. j < h \<or> h + Suc m \<le> j \<longrightarrow> all' ! j = all ! j" using ih(4) by auto
  moreover have "\<forall>j. h \<le> j \<and> j < h + Suc m \<longrightarrow> block_in_use k' (all' ! j) \<and> \<not> block_in_use k (all' ! j)"
  proof (intro allI impI)
    fix j assume j: "h \<le> j \<and> j < h + Suc m"
    show "block_in_use k' (all' ! j) \<and> \<not> block_in_use k (all' ! j)"
    proof (cases "j = h")
      case True
      then show ?thesis using ah b(4) grown_in_use [OF ih(2) bk2] by simp
    next
      case False
      then have "Suc h \<le> j \<and> j < Suc h + m" using j by linarith
      then show ?thesis using ih(5) grown_in_use [OF g2] by blast
    qed
  qed
  moreover have "distinct (map ((!) all') [h..<h + Suc m])"
    unfolding up using ih(5,6) ah bk2 by auto
  moreover have "\<forall>j < 13. s' ! j = (if h \<le> j \<and> j < h + Suc m \<and> j < 12 then all' ! j else i_sectors i ! j)"
  proof (intro allI impI)
    fix j :: nat assume "j < 13"
    then have "s' ! j = (if Suc h \<le> j \<and> j < Suc h + m \<and> j < 12 then all' ! j else i_sectors i1 ! j)" using ih(8) by blast
    then show "s' ! j = (if h \<le> j \<and> j < h + Suc m \<and> j < 12 then all' ! j else i_sectors i ! j)"
      using ah Suc.prems(5) by (cases "j = h") (auto simp: i1_def)
  qed
  moreover have "card (used (block_bitmap k')) = card (used (block_bitmap k)) + Suc m" using ih(9) b(5) b2(1) by simp
  ultimately show ?case unfolding step using ih(1,3,7) g by blast
qed

section \<open>The loop that writes\<close>

lemma splice_prefix:
  assumes "off + length xs \<le> length bs"
  shows "take (off + length xs) (splice off xs bs) = take off bs @ xs"
  using assms by (simp add: splice_def)

lemma disk_image_ok:
  assumes "fs_ok (k\<lparr>disk_image := d\<rparr>)" "blocks_synced (k\<lparr>disk_image := d\<rparr>)"
  shows "fs_ok (set_file fd f (set_inode a i (k\<lparr>disk_image := d\<rparr>)))"
    "blocks_synced (set_file fd f (set_inode a i (k\<lparr>disk_image := d\<rparr>)))"
  using assms by (simp_all add: fs_ok_def table_ok_def blocks_synced_def set_file_def set_inode_def)

lemma write_chunks_ok:
  assumes "fs_ok k" "blocks_synced k" "blocks_fit k" and "fd < length (file_table k)" "file_table k ! fd = f"
    and "inodes k (fd_inode f) = Some i" "fd_pos f < 2 ^ 32"
    and "distinct bs" "\<forall>b \<in> set bs. block_in_use k b" "i_size i + length src \<le> 512 * length bs" "i_size i + length src < 2 ^ 32"
    and "length bs \<le> length all" "\<forall>j. i_size i div 512 \<le> j \<and> j < length bs \<longrightarrow> all ! j = bs ! j" "first \<or> i_size i mod 512 = 0"
  shows "\<exists>d. write_chunks fd all first src k =
      Inr (set_file fd (f\<lparr>fd_pos := (fd_pos f + length src) mod 2 ^ 32\<rparr>)
        (set_inode (fd_inode f) (i\<lparr>i_size := i_size i + length src\<rparr>) (k\<lparr>disk_image := d\<rparr>))) \<and>
    fs_ok (k\<lparr>disk_image := d\<rparr>) \<and> blocks_synced (k\<lparr>disk_image := d\<rparr>) \<and>
    take (i_size i + length src) (data d bs) = take (i_size i) (data (disk_image k) bs) @ src \<and>
    (\<forall>T. T \<notin> set bs \<longrightarrow> sectors d T 1 = sectors (disk_image k) T 1) \<and>
    (\<forall>T N. T + N \<le> data_start_lba (sb k) \<longrightarrow> sectors d T N = sectors (disk_image k) T N)"
  using assms
proof (induction "length src" arbitrary: src first k f i rule: less_induct)
  case less
  note P = less.prems
  show ?case
  proof (cases "src = []")
    case True
    have "set_file fd f (set_inode (fd_inode f) i k) = k"
      using P(4-6) by (cases k; simp add: set_file_def set_inode_def map_upd_triv; metis list_update_id)
    then show ?thesis using True P(1,2,7)
      by (intro exI [of _ "disk_image k"]) (simp add: write_chunks.simps)
  next
    case False
    define q r where "q = i_size i div 512" and "r = i_size i mod 512"
    have qr: "i_size i = q * 512 + r" "r < 512" by (simp_all add: q_def r_def)
    define m where "m = min (length src) (BLOCK_SIZE - r)"
    have m: "0 < m" "r + m \<le> 512" "m \<le> length src" using qr(2) False by (auto simp: m_def)
    define chunk where "chunk = take m src"
    have lc: "length chunk = m" using m(3) by (simp add: chunk_def)
    have "0 < length src" using False by simp
    then have "q * 512 < length bs * 512" using P(10) qr(1) by linarith
    then have ql: "q < length bs" by simp
    let ?b = "bs ! q"
    have allq: "all ! q = ?b" "q < length all" using P(12,13) ql by (simp_all add: q_def [symmetric])
    have use: "block_in_use k ?b" using P(9) ql by simp
    define sec where "sec = (if first then sectors (disk_image k) ?b 1 else replicate SECTOR_SIZE 0)"
    have wf: "wf_image (disk_image k)" using P(1) by (simp add: fs_ok_def table_ok_def)
    have ls: "length sec = 512" using wf by (simp add: sec_def)
    have rd: "(if first then disk_read (all ! q) 1 k else Inr (replicate SECTOR_SIZE 0)) = Inr sec"
      using read_in_use [OF P(3) use] allq(1) by (simp add: sec_def)
    have len: "length (splice r chunk sec) = SECTOR_SIZE" using ls lc m(2) by simp
    have range: "data_start_lba (sb k) \<le> ?b" "?b + 1 \<le> max_lba"
      using use block_in_use_le [OF P(3) use] by (simp_all add: block_in_use_def)
    obtain d where d: "disk_write ?b (splice r chunk sec) 1 k = Inr (k\<lparr>disk_image := d\<rparr>)"
      "fs_ok (k\<lparr>disk_image := d\<rparr>)" "blocks_synced (k\<lparr>disk_image := d\<rparr>)" "sectors d ?b 1 = splice r chunk sec"
      "\<forall>T. T \<noteq> ?b \<longrightarrow> sectors d T 1 = sectors (disk_image k) T 1"
      "\<forall>T N. T + N \<le> data_start_lba (sb k) \<longrightarrow> sectors d T N = sectors (disk_image k) T N"
      using data_write [OF P(1,2) range len] by blast
    have wf': "wf_image d" using d(2) by (simp add: fs_ok_def table_ok_def)
    have "take (r + length chunk) (sectors d ?b 1) = take r (sectors (disk_image k) ?b 1) @ chunk"
    proof (cases first)
      case True
      then show ?thesis using splice_prefix [of r chunk sec] ls lc m(2) d(4) by (simp add: sec_def)
    next
      case False
      then have "r = 0" using P(14) by (simp add: r_def)
      then show ?thesis using splice_prefix [of r chunk sec] ls lc m(2) d(4) by simp
    qed
    from data_put [OF wf wf' ql P(8) d(5) this] lc m(2)
    have dp: "take (i_size i + m) (data d bs) = take (i_size i) (data (disk_image k) bs) @ chunk" using qr(1) by simp
    define i1 where "i1 = i\<lparr>i_size := i_size i + m\<rparr>"
    define f1 where "f1 = f\<lparr>fd_pos := (fd_pos f + m) mod 2 ^ 32\<rparr>"
    define k1 where "k1 = set_file fd f1 (set_inode (fd_inode f) i1 (k\<lparr>disk_image := d\<rparr>))"
    have k1: "fs_ok k1" "blocks_synced k1" "file_table k1 ! fd = f1" "fd < length (file_table k1)"
      "inodes k1 (fd_inode f1) = Some i1" "disk_image k1 = d" "sb k1 = sb k" "block_bitmap k1 = block_bitmap k"
      using disk_image_ok [OF d(2,3)] P(4) by (simp_all add: k1_def f1_def set_inode_def)
    have fit1: "blocks_fit k1" "\<forall>b \<in> set bs. block_in_use k1 b"
      using P(3,9) k1(7,8) by (simp_all add: blocks_fit_def block_in_use_def)
    have sz: "i_size i1 = i_size i + m" by (simp add: i1_def)
    have ld: "length (drop m src) = length src - m" "length (drop m src) < length src" using m(1,3) False by simp_all
    have e: "i_size i1 + length (drop m src) = i_size i + length src" using sz ld(1) m(3) by linarith
    have mono: "i_size i div 512 \<le> i_size i1 div 512" unfolding sz by (intro div_le_mono) simp
    have al1: "\<forall>j. i_size i1 div 512 \<le> j \<and> j < length bs \<longrightarrow> all ! j = bs ! j" using P(13) mono by (meson order_trans)
    have f1p: "fd_pos f1 < 2 ^ 32" by (simp add: f1_def)
    have step: "write_chunks fd all first src k = write_chunks fd all False (drop m src) k1"
    proof -
      have "(i_size i + m) mod 4294967296 = i_size i + m" using P(11) m(3) by simp
      moreover have "set_file fd (f\<lparr>fd_pos := (fd_pos f + m) mod 4294967296\<rparr>)
          (set_inode (fd_inode f) (i\<lparr>i_size := i_size i + m\<rparr>) (k\<lparr>disk_image := d\<rparr>)) = k1"
        by (simp add: k1_def f1_def i1_def)
      ultimately show ?thesis
        unfolding write_chunks.simps [of fd all first src k]
        using False P(4-6) allq rd d(1)
        by (cases first) (simp_all add: get_file_def get_inode_def q_def [symmetric] r_def [symmetric] m_def [symmetric]
            chunk_def [symmetric] Let_def del: One_nat_def)
    qed
    have ih: "\<exists>d'. write_chunks fd all False (drop m src) k1 =
      Inr (set_file fd (f1\<lparr>fd_pos := (fd_pos f1 + length (drop m src)) mod 2 ^ 32\<rparr>)
        (set_inode (fd_inode f1) (i1\<lparr>i_size := i_size i1 + length (drop m src)\<rparr>) (k1\<lparr>disk_image := d'\<rparr>))) \<and>
      fs_ok (k1\<lparr>disk_image := d'\<rparr>) \<and> blocks_synced (k1\<lparr>disk_image := d'\<rparr>) \<and>
      take (i_size i1 + length (drop m src)) (data d' bs) = take (i_size i1) (data (disk_image k1) bs) @ drop m src \<and>
      (\<forall>T. T \<notin> set bs \<longrightarrow> sectors d' T 1 = sectors (disk_image k1) T 1) \<and>
      (\<forall>T N. T + N \<le> data_start_lba (sb k1) \<longrightarrow> sectors d' T N = sectors (disk_image k1) T N)"
    proof (cases "drop m src = []")
      case True
      have "set_file fd (f1\<lparr>fd_pos := fd_pos f1 mod 4294967296\<rparr>) (set_inode (fd_inode f1) i1 k1) = k1"
        using k1(3-5) f1p by (cases k1; simp add: set_file_def set_inode_def map_upd_triv; metis list_update_id)
      then show ?thesis using True k1(1,2) by (intro exI [of _ d]) (simp add: write_chunks.simps k1(6) [symmetric])
    next
      case False
      then have "m < length src" by simp
      then have "m = BLOCK_SIZE - r" by (simp add: m_def)
      then have "i_size i1 = (q + 1) * 512" using qr sz by simp
      then have z: "False \<or> i_size i1 mod 512 = 0" by simp
      show ?thesis
        by (rule less.hyps [OF ld(2) k1(1,2) fit1(1) k1(4,3,5) f1p P(8) fit1(2) _ _ P(12) al1 z]) (simp_all only: e P(10,11))
    qed
    from this [unfolded e, unfolded sz k1(6,7)]
    obtain d' where ih': "write_chunks fd all False (drop m src) k1 =
      Inr (set_file fd (f1\<lparr>fd_pos := (fd_pos f1 + length (drop m src)) mod 2 ^ 32\<rparr>)
        (set_inode (fd_inode f1) (i1\<lparr>i_size := i_size i + length src\<rparr>) (k1\<lparr>disk_image := d'\<rparr>)))"
      "fs_ok (k1\<lparr>disk_image := d'\<rparr>)" "blocks_synced (k1\<lparr>disk_image := d'\<rparr>)"
      "take (i_size i + length src) (data d' bs) = take (i_size i + m) (data d bs) @ drop m src"
      "\<forall>T. T \<notin> set bs \<longrightarrow> sectors d' T 1 = sectors d T 1"
      "\<forall>T N. T + N \<le> data_start_lba (sb k) \<longrightarrow> sectors d' T N = sectors d T N"
      by blast
    have pos: "(fd_pos f1 + length (drop m src)) mod 2 ^ 32 = (fd_pos f + length src) mod 2 ^ 32"
    proof -
      have "(fd_pos f + m) + length (drop m src) = fd_pos f + length src" using m(3) ld(1) by linarith
      then show ?thesis unfolding f1_def by (metis mod_add_left_eq ofile.select_convs(1) ofile.surjective ofile.update_convs(1))
    qed
    have "set_file fd (f1\<lparr>fd_pos := (fd_pos f1 + length (drop m src)) mod 2 ^ 32\<rparr>)
        (set_inode (fd_inode f1) (i1\<lparr>i_size := i_size i + length src\<rparr>) (k1\<lparr>disk_image := d'\<rparr>)) =
      set_file fd (f\<lparr>fd_pos := (fd_pos f + length src) mod 2 ^ 32\<rparr>)
        (set_inode (fd_inode f) (i\<lparr>i_size := i_size i + length src\<rparr>) (k\<lparr>disk_image := d'\<rparr>))"
      unfolding pos by (simp add: k1_def f1_def i1_def set_file_def set_inode_def)
    moreover have "fs_ok (k\<lparr>disk_image := d'\<rparr>)" "blocks_synced (k\<lparr>disk_image := d'\<rparr>)"
      using ih'(2,3) by (simp_all add: k1_def fs_ok_def table_ok_def blocks_synced_def set_file_def set_inode_def)
    moreover have "take (i_size i + length src) (data d' bs) = take (i_size i) (data (disk_image k) bs) @ src"
      unfolding ih'(4) dp by (simp add: chunk_def)
    moreover have "\<forall>T. T \<notin> set bs \<longrightarrow> sectors d' T 1 = sectors (disk_image k) T 1"
      using ih'(5) d(5) ql by (metis nth_mem)
    moreover have "\<forall>T N. T + N \<le> data_start_lba (sb k) \<longrightarrow> sectors d' T N = sectors (disk_image k) T N"
      using ih'(6) d(6) by simp
    ultimately show ?thesis using step ih'(1) by (intro exI [of _ d']) simp
  qed
qed

section \<open>The blocks of the longer file\<close>

lemma blocks_okI:
  assumes wf: "wf_inode i" "n \<le> 140" and t: "i_sectors i ! 12 \<noteq> 0 \<longleftrightarrow> n > 12" "n > 12 \<Longrightarrow> block_in_use k (i_sectors i ! 12)"
      "\<And>j. n > 12 \<Longrightarrow> j < n \<Longrightarrow> file_blocks (disk_image k) i ! j \<noteq> i_sectors i ! 12"
    and b: "\<And>j. j < n \<Longrightarrow> block_in_use k (file_blocks (disk_image k) i ! j)"
      "\<And>j. n \<le> j \<Longrightarrow> j < 140 \<Longrightarrow> file_blocks (disk_image k) i ! j = 0"
      "\<And>j l. j < l \<Longrightarrow> l < n \<Longrightarrow> file_blocks (disk_image k) i ! j \<noteq> file_blocks (disk_image k) i ! l"
  shows "blocks_ok k i n"
proof -
  let ?fb = "file_blocks (disk_image k) i"
  have len: "length ?fb = 140" by (rule length_file_blocks [OF wf(1)])
  have "i_sectors i ! 12 \<notin> set (take n ?fb)" if "n > 12"
    using t(3) [OF that] by (metis in_set_takeD in_set_conv_nth length_take min_less_iff_conj nth_take)
  moreover have "\<forall>x \<in> set (take n ?fb). block_in_use k x"
    using b(1) by (metis in_set_conv_nth length_take min_less_iff_conj nth_take)
  moreover have "\<forall>x \<in> set (drop n ?fb). x = 0"
  proof
    fix x assume "x \<in> set (drop n ?fb)"
    then obtain j where "j < 140 - n" "x = ?fb ! (n + j)" using len wf(2) by (auto simp: in_set_conv_nth)
    then show "x = 0" using b(2) [of "n + j"] by simp
  qed
  moreover have "distinct (take n ?fb)"
    unfolding distinct_conv_nth
  proof (intro allI impI)
    fix j l assume "j < length (take n ?fb)" "l < length (take n ?fb)" "j \<noteq> l"
    then show "take n ?fb ! j \<noteq> take n ?fb ! l" using b(3) [of j l] b(3) [of l j] by (cases "j < l") auto
  qed
  ultimately show ?thesis using wf t by (simp add: blocks_ok_def)
qed

lemma blocks_okD:
  assumes "blocks_ok k i n"
  shows "wf_inode i" "n \<le> 140" "i_sectors i ! 12 \<noteq> 0 \<longleftrightarrow> n > 12" "n > 12 \<Longrightarrow> block_in_use k (i_sectors i ! 12)"
    "\<And>j. n > 12 \<Longrightarrow> j < n \<Longrightarrow> file_blocks (disk_image k) i ! j \<noteq> i_sectors i ! 12"
    "\<And>j. n \<le> j \<Longrightarrow> j < 140 \<Longrightarrow> file_blocks (disk_image k) i ! j = 0"
    "\<And>j l. j < l \<Longrightarrow> l < n \<Longrightarrow> file_blocks (disk_image k) i ! j \<noteq> file_blocks (disk_image k) i ! l"
proof -
  let ?fb = "file_blocks (disk_image k) i"
  show wf: "wf_inode i" "n \<le> 140" "i_sectors i ! 12 \<noteq> 0 \<longleftrightarrow> n > 12" "n > 12 \<Longrightarrow> block_in_use k (i_sectors i ! 12)"
    using assms by (simp_all add: blocks_ok_def)
  have len: "length ?fb = 140" by (rule length_file_blocks [OF wf(1)])
  have mem: "?fb ! j \<in> set (take n ?fb)" if "j < n" for j
    using that wf(2) len by (simp add: in_set_conv_nth) (metis nth_take)
  show "?fb ! j \<noteq> i_sectors i ! 12" if "n > 12" "j < n" for j
    using mem [OF that(2)] assms that(1) unfolding blocks_ok_def by metis
  show "?fb ! j = 0" if "n \<le> j" "j < 140" for j
  proof -
    have "drop n ?fb ! (j - n) \<in> set (drop n ?fb)" using that len by (intro nth_mem) simp
    then have "?fb ! j \<in> set (drop n ?fb)" using that len by simp
    then show ?thesis using assms by (simp add: blocks_ok_def)
  qed
  show "?fb ! j \<noteq> ?fb ! l" if "j < l" "l < n" for j l
  proof -
    have "distinct (take n ?fb)" using assms by (simp add: blocks_ok_def)
    then have "take n ?fb ! j \<noteq> take n ?fb ! l" using that len wf(2) by (subst nth_eq_iff_index_eq) simp_all
    then show ?thesis using that by simp
  qed
qed

text \<open>As \<open>grown\<close>, but the sector \<open>t\<close> may have been written.\<close>

definition extended :: "fsk \<Rightarrow> nat \<Rightarrow> nat \<Rightarrow> inode \<Rightarrow> fsk \<Rightarrow> bool" where
  "extended k a t i' k' \<longleftrightarrow>
     k' = k\<lparr>block_bitmap := block_bitmap k', disk_image := disk_image k', inodes := (inodes k)(a \<mapsto> i')\<rparr> \<and>
     fs_ok k' \<and> blocks_synced k' \<and> blocks_fit k' \<and> nbits (block_bitmap k') = nbits (block_bitmap k) \<and>
     used (block_bitmap k) \<subseteq> used (block_bitmap k') \<and>
     (\<forall>T N. block_bitmap_lba (sb k) + block_bitmap_sects (sb k) \<le> T \<and> T + N \<le> data_start_lba (sb k) \<longrightarrow>
        sectors (disk_image k') T N = sectors (disk_image k) T N) \<and>
     (\<forall>b. block_in_use k b \<and> b \<noteq> t \<longrightarrow> sectors (disk_image k') b 1 = sectors (disk_image k) b 1)"

lemma grown_extended:
  assumes "grown k a i' k'"
  shows "extended k a t i' k'"
proof -
  have "\<forall>b. block_in_use k b \<and> b \<noteq> t \<longrightarrow> sectors (disk_image k') b 1 = sectors (disk_image k) b 1"
    using grown_data [OF assms] by (simp add: block_in_use_def)
  then show ?thesis using assms unfolding grown_def extended_def by blast
qed

lemma extended_simps:
  assumes "extended k a t i' k'"
  shows "sb k' = sb k" "inodes k' = (inodes k)(a \<mapsto> i')" "mallocs k' = mallocs k" "file_table k' = file_table k"
    "start_lba k' = start_lba k" "part_sec_cnt k' = part_sec_cnt k" "open_inodes k' = open_inodes k"
    "inode_bitmap k' = inode_bitmap k" "next_addr k' = next_addr k" "dirs k' = dirs k"
  using assms by (cases k; cases k'; simp add: extended_def)+

lemma extended_in_use: "extended k a t i' k' \<Longrightarrow> block_in_use k b \<Longrightarrow> block_in_use k' b"
  using extended_simps(1) [of k a t i' k'] by (auto simp: extended_def block_in_use_def)

lemma grown_then_extended:
  assumes "grown k a i1 k1" "extended k1 a t i2 k2"
  shows "extended k a t i2 k2"
proof -
  have "k1 = k\<lparr>block_bitmap := block_bitmap k1, disk_image := disk_image k1, inodes := (inodes k)(a \<mapsto> i1)\<rparr>"
    "k2 = k1\<lparr>block_bitmap := block_bitmap k2, disk_image := disk_image k2, inodes := (inodes k1)(a \<mapsto> i2)\<rparr>"
    using assms by (simp_all add: grown_def extended_def)
  then have e: "k2 = k\<lparr>block_bitmap := block_bitmap k2, disk_image := disk_image k2, inodes := (inodes k)(a \<mapsto> i2)\<rparr>"
    by (cases k; cases k1; cases k2; simp)
  have s1: "sb k1 = sb k" by (rule grown_simps(1) [OF assms(1)])
  have low: "\<forall>T N. block_bitmap_lba (sb k) + block_bitmap_sects (sb k) \<le> T \<and> T + N \<le> data_start_lba (sb k) \<longrightarrow>
        sectors (disk_image k2) T N = sectors (disk_image k) T N"
    using assms grown_sectors [OF assms(1)] by (simp add: extended_def s1)
  have oth: "\<forall>b. block_in_use k b \<and> b \<noteq> t \<longrightarrow> sectors (disk_image k2) b 1 = sectors (disk_image k) b 1"
  proof (intro allI impI)
    fix b assume b: "block_in_use k b \<and> b \<noteq> t"
    then have "sectors (disk_image k2) b 1 = sectors (disk_image k1) b 1"
      using assms(2) grown_in_use [OF assms(1)] unfolding extended_def by blast
    also have "\<dots> = sectors (disk_image k) b 1" using b by (intro grown_data [OF assms(1)]) (simp add: block_in_use_def)
    finally show "sectors (disk_image k2) b 1 = sectors (disk_image k) b 1" .
  qed
  have rest: "fs_ok k2 \<and> blocks_synced k2 \<and> blocks_fit k2 \<and> nbits (block_bitmap k2) = nbits (block_bitmap k) \<and>
     used (block_bitmap k) \<subseteq> used (block_bitmap k2)"
    using assms by (auto simp: grown_def extended_def)
  show ?thesis unfolding extended_def using e low oth rest by blast
qed

text \<open>Writing the table.\<close>

lemma extended_write:
  assumes g: "grown k a i' k1" and t: "block_in_use k1 t" and len: "length bs = SECTOR_SIZE"
  shows "\<exists>d. disk_write t bs 1 k1 = Inr (k1\<lparr>disk_image := d\<rparr>) \<and> extended k a t i' (k1\<lparr>disk_image := d\<rparr>) \<and>
    sectors d t 1 = bs \<and> (\<forall>T. T \<noteq> t \<longrightarrow> sectors d T 1 = sectors (disk_image k1) T 1)"
proof -
  have ok: "fs_ok k1" "blocks_synced k1" "blocks_fit k1" using grown_ok [OF g] by simp_all
  have s1: "sb k1 = sb k" by (rule grown_simps(1) [OF g])
  have r: "data_start_lba (sb k1) \<le> t" "t + 1 \<le> max_lba"
    using t block_in_use_le [OF ok(3) t] by (simp_all add: block_in_use_def)
  obtain d where d: "disk_write t bs 1 k1 = Inr (k1\<lparr>disk_image := d\<rparr>)" "fs_ok (k1\<lparr>disk_image := d\<rparr>)"
    "blocks_synced (k1\<lparr>disk_image := d\<rparr>)" "sectors d t 1 = bs" "\<forall>T. T \<noteq> t \<longrightarrow> sectors d T 1 = sectors (disk_image k1) T 1"
    "\<forall>T N. T + N \<le> data_start_lba (sb k1) \<longrightarrow> sectors d T N = sectors (disk_image k1) T N"
    using data_write [OF ok(1,2) r len] by blast
  have e0: "k1 = k\<lparr>block_bitmap := block_bitmap k1, disk_image := disk_image k1, inodes := (inodes k)(a \<mapsto> i')\<rparr>"
    using g by (simp add: grown_def)
  have e: "k1\<lparr>disk_image := d\<rparr> = k\<lparr>block_bitmap := block_bitmap k1, disk_image := d, inodes := (inodes k)(a \<mapsto> i')\<rparr>"
    using e0 by (cases k; cases k1; simp)
  have low: "\<forall>T N. block_bitmap_lba (sb k) + block_bitmap_sects (sb k) \<le> T \<and> T + N \<le> data_start_lba (sb k) \<longrightarrow>
        sectors d T N = sectors (disk_image k) T N"
    using d(6) grown_sectors [OF g] by (simp add: s1)
  have oth: "\<forall>b. block_in_use k b \<and> b \<noteq> t \<longrightarrow> sectors d b 1 = sectors (disk_image k) b 1"
    using d(5) grown_data [OF g] by (simp add: block_in_use_def)
  have rest: "blocks_fit (k1\<lparr>disk_image := d\<rparr>)" "nbits (block_bitmap k1) = nbits (block_bitmap k)"
     "used (block_bitmap k) \<subseteq> used (block_bitmap k1)"
    using g by (simp_all add: grown_def blocks_fit_def)
  have "extended k a t i' (k1\<lparr>disk_image := d\<rparr>)"
    unfolding extended_def using e low oth rest d(2,3) by simp
  then show ?thesis using d(1,4,5) by blast
qed

end
