(* ===== verification/Fileappend.thy ===== *)
theory Fileappend
  imports Filewrite
begin

text \<open>
  The blocks that \<open>file_write\<close> collects, and the whole of \<open>file_write\<close>: it appends to the
  bytes of the file.
\<close>

section \<open>Collecting the blocks\<close>

lemma in_use_32: "blocks_fit k \<Longrightarrow> block_in_use k b \<Longrightarrow> b < 2 ^ 32"
  using block_in_use_le [of k b] by simp

lemma all_nth_32:
  assumes "length xs = n" "\<And>j. j < n \<Longrightarrow> xs ! j < (2 :: nat) ^ 32"
  shows "\<forall>x \<in> set xs. x < 2 ^ 32"
  using assms by (metis in_set_conv_nth)

lemma file_blocks_table:
  assumes "i_sectors i ! 12 = t" "t \<noteq> 0" "sectors d t 1 = table_bytes (drop 12 all)" "length all = 140"
    "\<And>j. 12 \<le> j \<Longrightarrow> j < 140 \<Longrightarrow> all ! j < 2 ^ 32"
  shows "file_blocks d i = take 12 (i_sectors i) @ drop 12 all"
proof -
  have "\<forall>x \<in> set (drop 12 all). x < 2 ^ 32"
    by (rule all_nth_32 [of _ 128]) (use assms(4,5) in simp_all)
  from read_table_bytes [OF this, of "[]"] show ?thesis using assms(1-4) by (simp add: file_blocks_def)
qed

text \<open>With an indirect table at \<open>t\<close>; \<open>fb\<close> lists the blocks there are.\<close>

lemma grow_table_ok:
  assumes ok: "fs_ok k" "blocks_synced k" "blocks_fit k" and i: "inodes k a = Some i" "wf_inode i" "i_sectors i ! 12 = t"
    and t: "block_in_use k t" "\<And>j. j < has \<Longrightarrow> fb ! j \<noteq> t"
    and n: "has \<le> will" "will \<le> 140" "12 < will"
    and fb: "\<And>j. j < has \<Longrightarrow> block_in_use k (fb ! j)" "\<And>j l. j < l \<Longrightarrow> l < has \<Longrightarrow> fb ! j \<noteq> fb ! l"
      "\<And>j. j < 12 \<Longrightarrow> i_sectors i ! j = (if j < has then fb ! j else 0)"
    and al: "length all = 140" "\<And>j. 12 \<le> j \<Longrightarrow> j < 140 \<Longrightarrow> all ! j = (if j < has then fb ! j else 0)"
    and free: "card (used (block_bitmap k)) + (will - has) \<le> nbits (block_bitmap k)"
  shows "\<exists>all' k' s'. grow_table a t all [has..<will] k = Inr (Some all', k') \<and> extended k a t (i\<lparr>i_sectors := s'\<rparr>) k' \<and>
    blocks_ok k' (i\<lparr>i_sectors := s'\<rparr>) will \<and> length all' = 140 \<and>
    (\<forall>j < has. file_blocks (disk_image k') (i\<lparr>i_sectors := s'\<rparr>) ! j = fb ! j \<and> all' ! j = all ! j) \<and>
    (\<forall>j. has \<le> j \<and> j < will \<longrightarrow> all' ! j = file_blocks (disk_image k') (i\<lparr>i_sectors := s'\<rparr>) ! j) \<and>
    (\<forall>j. has \<le> j \<and> j < will \<longrightarrow> \<not> block_in_use k (all' ! j))"
proof -
  define m where "m = will - has"
  have hm: "has + m = will" using n(1) by (simp add: m_def)
  have l13: "length (i_sectors i) = 13" using i(2) by (simp add: wf_inode_def)
  have z: "\<forall>j. has \<le> j \<and> j < 12 \<longrightarrow> i_sectors i ! j = 0" using fb(3) by simp
  have le: "has + m \<le> 140" "card (used (block_bitmap k)) + m \<le> nbits (block_bitmap k)"
    using hm n(2) free by (simp_all add: m_def)
  obtain all' k1 s' where g: "grow_blocks a all [has..<will] k = Inr (Some all', k1)" "grown k a (i\<lparr>i_sectors := s'\<rparr>) k1"
    "length all' = 140" "\<forall>j. j < has \<or> will \<le> j \<longrightarrow> all' ! j = all ! j"
    "\<forall>j. has \<le> j \<and> j < will \<longrightarrow> block_in_use k1 (all' ! j) \<and> \<not> block_in_use k (all' ! j)"
    "distinct (map ((!) all') [has..<will])" "length s' = 13"
    "\<forall>j < 13. s' ! j = (if has \<le> j \<and> j < will \<and> j < 12 then all' ! j else i_sectors i ! j)"
    using grow_blocks_ok [OF ok i(1) l13 al(1) le(1) z le(2)] unfolding hm by blast
  define i' where "i' = i\<lparr>i_sectors := s'\<rparr>"
  have fit1: "blocks_fit k1" using grown_ok [OF g(2)] by simp
  have t1: "block_in_use k1 t" by (rule grown_in_use [OF g(2) t(1)])
  have lt: "length (table_bytes (drop 12 all')) = SECTOR_SIZE" using g(3) by simp
  obtain d where d: "disk_write t (table_bytes (drop 12 all')) 1 k1 = Inr (k1\<lparr>disk_image := d\<rparr>)"
    "extended k a t i' (k1\<lparr>disk_image := d\<rparr>)" "sectors d t 1 = table_bytes (drop 12 all')"
    using extended_write [OF g(2) t1 lt] by (auto simp: i'_def)
  define F where "F j = (if j < has then fb ! j else if j < will then all' ! j else 0)" for j
  have F_use: "block_in_use k1 (F j)" if "j < will" for j
    using that g(5) grown_in_use [OF g(2) fb(1)] by (simp add: F_def)
  have F32: "F j < 2 ^ 32" for j
  proof (cases "j < will")
    case True
    then show ?thesis by (rule in_use_32 [OF fit1 F_use])
  next
    case False
    then have "F j = 0" using n(1) by (simp add: F_def)
    then show ?thesis by simp
  qed
  have Fall: "all' ! j = F j" if "12 \<le> j" "j < 140" for j
    using that g(4) al(2) [OF that] n(1) by (auto simp: F_def)
  have Fs: "s' ! j = F j" if "j < 12" for j
    using that g(8) fb(3) [OF that] n(3) by (auto simp: F_def)
  have s12: "s' ! 12 = t" using g(8) i(3) by simp
  have t0: "t \<noteq> 0" using block_in_use_pos [OF ok(3) t(1)] by simp
  have blocks: "file_blocks d i' = take 12 s' @ drop 12 all'"
    using file_blocks_table [of i' t d all'] s12 t0 d(3) g(3) Fall F32 by (simp add: i'_def)
  have Fb: "file_blocks d i' ! j = F j" if "j < 140" for j
    using that Fs Fall g(3,7) unfolding blocks by (simp add: nth_append)
  have "s' ! j < 2 ^ 32" if "j < 13" for j
    using that Fs [of j] F32 [of j] s12 in_use_32 [OF ok(3) t(1)] by (cases "j = 12") auto
  then have wf': "wf_inode i'" using all_nth_32 [OF g(7)] i(2) g(7) by (simp add: wf_inode_def i'_def)
  have F_t: "F j \<noteq> t" if "j < will" for j
    using that t g(5) n(1) by (auto simp: F_def)
  have F_ne: "F j \<noteq> F l" if "j < l" "l < will" for j l
  proof (cases "l < has")
    case True
    then show ?thesis using fb(2) that by (simp add: F_def)
  next
    case l: False
    show ?thesis
    proof (cases "j < has")
      case True
      then show ?thesis using g(5) fb(1) [OF True] that l by (auto simp: F_def)
    next
      case False
      have "map ((!) all') [has..<will] ! (j - has) \<noteq> map ((!) all') [has..<will] ! (l - has)"
        using g(6) that l False by (subst nth_eq_iff_index_eq) simp_all
      then show ?thesis using that l False by (simp add: F_def)
    qed
  qed
  let ?k2 = "k1\<lparr>disk_image := d\<rparr>"
  have use2: "block_in_use ?k2 b = block_in_use k1 b" for b by (simp add: block_in_use_def)
  have bok: "blocks_ok ?k2 i' will"
  proof (rule blocks_okI)
    show "i_sectors i' ! 12 \<noteq> 0 \<longleftrightarrow> will > 12" using s12 t0 n(3) by (simp add: i'_def)
    show "block_in_use ?k2 (i_sectors i' ! 12)" using s12 t1 by (simp add: i'_def use2)
    fix j
    show "file_blocks (disk_image ?k2) i' ! j \<noteq> i_sectors i' ! 12" if "j < will"
      using F_t [OF that] Fb that n(2) s12 by (simp add: i'_def)
    show "block_in_use ?k2 (file_blocks (disk_image ?k2) i' ! j)" if "j < will"
      using F_use [OF that] Fb that n(2) by (simp add: use2)
    show "file_blocks (disk_image ?k2) i' ! j = 0" if "will \<le> j" "j < 140"
      using Fb that n(1) by (simp add: F_def)
    show "file_blocks (disk_image ?k2) i' ! j \<noteq> file_blocks (disk_image ?k2) i' ! l" if "j < l" "l < will" for l
      using F_ne [OF that] Fb that n(2) by simp
  qed (use wf' n(2) in simp_all)
  have run: "grow_table a t all [has..<will] k = Inr (Some all', ?k2)" using g(1) d(1) by (simp add: grow_table_def)
  have "\<forall>j < has. file_blocks (disk_image ?k2) i' ! j = fb ! j \<and> all' ! j = all ! j"
    using Fb g(4) n(1,2) by (simp add: F_def)
  moreover have "\<forall>j. has \<le> j \<and> j < will \<longrightarrow> all' ! j = file_blocks (disk_image ?k2) i' ! j"
    using Fb n(2) by (simp add: F_def)
  ultimately show ?thesis using run d(2) bok g(3,5) unfolding i'_def by blast
qed

text \<open>With direct blocks only.\<close>

lemma grow_direct_ok:
  assumes ok: "fs_ok k" "blocks_synced k" "blocks_fit k" and i: "inodes k a = Some i" "blocks_ok k i has"
    and n: "has \<le> will" "will \<le> 12" and al: "length all = 140"
    and free: "card (used (block_bitmap k)) + (will - has) \<le> nbits (block_bitmap k)"
  shows "\<exists>all' k' s'. grow_blocks a all [has..<will] k = Inr (Some all', k') \<and> grown k a (i\<lparr>i_sectors := s'\<rparr>) k' \<and>
    blocks_ok k' (i\<lparr>i_sectors := s'\<rparr>) will \<and> length all' = 140 \<and>
    (\<forall>j < has. file_blocks (disk_image k') (i\<lparr>i_sectors := s'\<rparr>) ! j = file_blocks (disk_image k) i ! j \<and> all' ! j = all ! j) \<and>
    (\<forall>j. has \<le> j \<and> j < will \<longrightarrow> all' ! j = file_blocks (disk_image k') (i\<lparr>i_sectors := s'\<rparr>) ! j) \<and>
    (\<forall>j. has \<le> j \<and> j < will \<longrightarrow> \<not> block_in_use k (all' ! j))"
proof -
  note B = blocks_okD [OF i(2)]
  let ?fb = "file_blocks (disk_image k) i"
  define m where "m = will - has"
  have hm: "has + m = will" using n(1) by (simp add: m_def)
  have l13: "length (i_sectors i) = 13" using B(1) by (simp add: wf_inode_def)
  have s: "i_sectors i ! j = ?fb ! j" if "j < 12" for j using file_blocks_direct [OF B(1) that] by simp
  have z: "\<forall>j. has \<le> j \<and> j < 12 \<longrightarrow> i_sectors i ! j = 0" using B(6) s by simp
  have le: "has + m \<le> 140" "card (used (block_bitmap k)) + m \<le> nbits (block_bitmap k)"
    using hm n(2) free by (simp_all add: m_def)
  obtain all' k' s' where g: "grow_blocks a all [has..<will] k = Inr (Some all', k')" "grown k a (i\<lparr>i_sectors := s'\<rparr>) k'"
    "length all' = 140" "\<forall>j. j < has \<or> will \<le> j \<longrightarrow> all' ! j = all ! j"
    "\<forall>j. has \<le> j \<and> j < will \<longrightarrow> block_in_use k' (all' ! j) \<and> \<not> block_in_use k (all' ! j)"
    "distinct (map ((!) all') [has..<will])" "length s' = 13"
    "\<forall>j < 13. s' ! j = (if has \<le> j \<and> j < will \<and> j < 12 then all' ! j else i_sectors i ! j)"
    using grow_blocks_ok [OF ok i(1) l13 al le(1) z le(2)] unfolding hm by blast
  define i' where "i' = i\<lparr>i_sectors := s'\<rparr>"
  have s12: "s' ! 12 = 0" using g(8) B(3) n by simp
  define F where "F j = (if j < has then ?fb ! j else if j < will then all' ! j else 0)" for j
  have F_use: "block_in_use k' (F j)" if "j < will" for j
    using that g(5) grown_in_use [OF g(2) blocks_ok_nth [OF i(2)]] by (simp add: F_def)
  have fit': "blocks_fit k'" using grown_ok [OF g(2)] by simp
  have Fs: "s' ! j = F j" if "j < 12" for j
    using that g(8) s [OF that] B(6) n(2) by (auto simp: F_def)
  have "s' ! j < 2 ^ 32" if "j < 13" for j
  proof (cases "j < will")
    case True
    then show ?thesis using Fs [of j] in_use_32 [OF fit' F_use] n(2) by simp
  next
    case False
    then have "s' ! j = 0" using that Fs [of j] s12 n(1) by (cases "j = 12") (auto simp: F_def)
    then show ?thesis by simp
  qed
  then have wf': "wf_inode i'" using all_nth_32 [OF g(7)] B(1) g(7) by (simp add: wf_inode_def i'_def)
  have Fb: "file_blocks (disk_image k') i' ! j = F j" if "j < 140" for j
    using that Fs s12 g(7) n by (simp add: file_blocks_def i'_def nth_append) (simp add: F_def)
  have F_ne: "F j \<noteq> F l" if "j < l" "l < will" for j l
  proof (cases "l < has")
    case True
    then show ?thesis using B(7) that by (simp add: F_def)
  next
    case l: False
    show ?thesis
    proof (cases "j < has")
      case True
      then show ?thesis using g(5) blocks_ok_nth [OF i(2) True] that l by (auto simp: F_def)
    next
      case False
      have "map ((!) all') [has..<will] ! (j - has) \<noteq> map ((!) all') [has..<will] ! (l - has)"
        using g(6) that l False by (subst nth_eq_iff_index_eq) simp_all
      then show ?thesis using that l False by (simp add: F_def)
    qed
  qed
  have "blocks_ok k' i' will"
  proof (rule blocks_okI)
    show "i_sectors i' ! 12 \<noteq> 0 \<longleftrightarrow> will > 12" using s12 n(2) by (simp add: i'_def)
    fix j
    show "block_in_use k' (file_blocks (disk_image k') i' ! j)" if "j < will"
      using F_use [OF that] Fb that n(2) by simp
    show "file_blocks (disk_image k') i' ! j = 0" if "will \<le> j" "j < 140"
      using Fb that n(1) by (simp add: F_def)
    show "file_blocks (disk_image k') i' ! j \<noteq> file_blocks (disk_image k') i' ! l" if "j < l" "l < will" for l
      using F_ne [OF that] Fb that n(2) by simp
  qed (use wf' n(2) in simp_all)
  moreover have "\<forall>j < has. file_blocks (disk_image k') i' ! j = ?fb ! j \<and> all' ! j = all ! j"
    using Fb g(4) n(1,2) by (simp add: F_def)
  moreover have "\<forall>j. has \<le> j \<and> j < will \<longrightarrow> all' ! j = file_blocks (disk_image k') i' ! j"
    using Fb n(2) by (simp add: F_def)
  ultimately show ?thesis using g(1-3,5) unfolding i'_def by blast
qed

lemma grown_refl:
  assumes "fs_ok k" "blocks_synced k" "blocks_fit k" "inodes k a = Some i"
  shows "grown k a i k"
proof -
  have "k = k\<lparr>block_bitmap := block_bitmap k, disk_image := disk_image k, inodes := (inodes k)(a \<mapsto> i)\<rparr>"
    using assms(4) by (cases k; simp add: map_upd_triv)
  then show ?thesis using assms by (simp add: grown_def)
qed

lemma not_in_use_0: "blocks_fit k \<Longrightarrow> \<not> block_in_use k 0"
  using block_in_use_pos by blast

text \<open>
  What \<open>collect_blocks\<close> promises: \<open>all'\<close> holds the addresses of the blocks that will be
  written, \<open>s'\<close> the new addresses of the i-node, and only the indirect table was written.
\<close>

definition collected :: "fsk \<Rightarrow> nat \<Rightarrow> inode \<Rightarrow> nat \<Rightarrow> nat \<Rightarrow> nat list \<Rightarrow> fsk \<Rightarrow> nat list \<Rightarrow> bool" where
  "collected k a i has will all' k' s' \<longleftrightarrow>
    (\<exists>t. extended k a t (i\<lparr>i_sectors := s'\<rparr>) k' \<and> (12 < has \<and> t = i_sectors i ! 12 \<or> \<not> block_in_use k t)) \<and>
    blocks_ok k' (i\<lparr>i_sectors := s'\<rparr>) will \<and> length all' = 140 \<and>
    (\<forall>j < has. file_blocks (disk_image k') (i\<lparr>i_sectors := s'\<rparr>) ! j = file_blocks (disk_image k) i ! j) \<and>
    (\<forall>j. has - 1 \<le> j \<and> j < will \<longrightarrow> all' ! j = file_blocks (disk_image k') (i\<lparr>i_sectors := s'\<rparr>) ! j) \<and>
    (\<forall>j. has \<le> j \<and> j < will \<longrightarrow> \<not> block_in_use k (all' ! j))"

lemma collect_same:
  assumes ok: "fs_ok k" "blocks_synced k" "blocks_fit k" and i: "inodes k a = Some i" "blocks_ok k i has" and n: "0 < has"
  shows "\<exists>all'. collect_blocks a has has k = Inr (Some all', k) \<and> collected k a i has has all' k (i_sectors i)"
proof -
  note B = blocks_okD [OF i(2)]
  let ?fb = "file_blocks (disk_image k) i"
  have e: "extended k a 0 (i\<lparr>i_sectors := i_sectors i\<rparr>) k"
    using grown_extended [OF grown_refl [OF ok i(1)]] by simp
  have c: "collected k a i has has all' k (i_sectors i)"
    if "length all' = 140" "all' ! (has - 1) = ?fb ! (has - 1)" for all'
  proof -
    have "\<forall>j. has - 1 \<le> j \<and> j < has \<longrightarrow> j = has - 1" using n by auto
    then show ?thesis using e that i(2) not_in_use_0 [OF ok(3)] unfolding collected_def by auto
  qed
  show ?thesis
  proof (cases "has \<le> 12")
    case True
    let ?all = "(replicate 140 0)[has - 1 := i_sectors i ! (has - 1)]"
    have "collect_blocks a has has k = Inr (Some ?all, k)"
      using True i(1) by (simp add: collect_blocks_def get_inode_def sub32_def)
    moreover have "collected k a i has has ?all k (i_sectors i)"
      using True n file_blocks_direct [OF B(1), of "has - 1"] B(2) by (intro c) simp_all
    ultimately show ?thesis by blast
  next
    case False
    let ?all = "take 12 (replicate 140 0) @ drop 12 ?fb"
    have len: "length ?fb = 140" by (rule length_file_blocks [OF B(1)])
    have "collect_blocks a has has k = Inr (Some ?all, k)"
      using False i(1) B(3) read_indirect_ok [OF ok(3) i(2)] by (simp add: collect_blocks_def get_inode_def sub32_def Let_def)
    moreover have "?all ! (has - 1) = ?fb ! (has - 1)"
    proof -
      have "\<not> has - 1 < 12" "12 + (has - 1 - 12) = has - 1" using False by simp_all
      then show ?thesis using len B(2) by (simp only: nth_append) simp
    qed
    then have "collected k a i has has ?all k (i_sectors i)" using len by (intro c) simp_all
    ultimately show ?thesis by blast
  qed
qed

lemma in_use_same: "block_bitmap k' = block_bitmap k \<Longrightarrow> sb k' = sb k \<Longrightarrow> block_in_use k' b = block_in_use k b"
  by (simp add: block_in_use_def)

lemma collect_more:
  assumes ok: "fs_ok k" "blocks_synced k" "blocks_fit k" and i: "inodes k a = Some i" "blocks_ok k i has"
    and n: "0 < has" "has < will" "will \<le> 140"
    and free: "card (used (block_bitmap k)) + (will - has) + (if has \<le> 12 \<and> 12 < will then 1 else 0) \<le> nbits (block_bitmap k)"
  shows "\<exists>all' k' s'. collect_blocks a has will k = Inr (Some all', k') \<and> collected k a i has will all' k' s'"
proof -
  note B = blocks_okD [OF i(2)]
  let ?fb = "file_blocks (disk_image k) i"
  have len: "length ?fb = 140" by (rule length_file_blocks [OF B(1)])
  have s32: "sub32 will has = will - has" using n by (simp add: sub32_le)
  have ne: "will - has \<noteq> 0" using n(2) by simp
  have dir: "i_sectors i ! j = ?fb ! j" if "j < 12" for j using file_blocks_direct [OF B(1) that] by simp
  have last: "?fb ! (has - 1) \<noteq> 0"
    using block_in_use_pos [OF ok(3) blocks_ok_nth [OF i(2), of "has - 1"]] n(1) by simp
  have fr: "card (used (block_bitmap k)) + (will - has) \<le> nbits (block_bitmap k)" using free by linarith
  let ?all = "(replicate 140 0)[has - 1 := i_sectors i ! (has - 1)]"
  have part: "all' ! j = file_blocks d i' ! j"
    if "has - 1 \<le> j" "j < will" "\<forall>j < has. file_blocks d i' ! j = ?fb ! j \<and> all' ! j = all0 ! j"
      "\<forall>j. has \<le> j \<and> j < will \<longrightarrow> all' ! j = file_blocks d i' ! j" "all0 ! (has - 1) = ?fb ! (has - 1)"
    for all' all0 d i' j
  proof (cases "j = has - 1")
    case True
    then show ?thesis using that(3,5) n(1) by simp
  next
    case False
    then have "has \<le> j" using that(1) by linarith
    then show ?thesis using that(2,4) by blast
  qed
  consider "will \<le> 12" | "has \<le> 12" "12 < will" | "12 < has" by linarith
  then show ?thesis
  proof cases
    case 1
    have h: "has - 1 < 12" "has - 1 < 140" using 1 n by simp_all
    have al: "length ?all = 140" by simp
    have le: "has \<le> will" using n(2) by simp
    obtain all' k' s' where g: "grow_blocks a ?all [has..<will] k = Inr (Some all', k')" "grown k a (i\<lparr>i_sectors := s'\<rparr>) k'"
      "blocks_ok k' (i\<lparr>i_sectors := s'\<rparr>) will" "length all' = 140"
      "\<forall>j < has. file_blocks (disk_image k') (i\<lparr>i_sectors := s'\<rparr>) ! j = ?fb ! j \<and> all' ! j = ?all ! j"
      "\<forall>j. has \<le> j \<and> j < will \<longrightarrow> all' ! j = file_blocks (disk_image k') (i\<lparr>i_sectors := s'\<rparr>) ! j"
      "\<forall>j. has \<le> j \<and> j < will \<longrightarrow> \<not> block_in_use k (all' ! j)"
      using grow_direct_ok [OF ok i le 1 al fr] by blast
    have "?all ! (has - 1) = ?fb ! (has - 1)" using h dir by simp
    from part [OF _ _ g(5,6) this] have "collected k a i has will all' k' s'"
      using grown_extended [OF g(2), of 0] g(3-5,7) not_in_use_0 [OF ok(3)] unfolding collected_def by blast
    moreover have "collect_blocks a has will k = Inr (Some all', k')"
      using 1 i(1) ne s32 g(1) last dir [OF h(1)] by (simp add: collect_blocks_def get_inode_def Let_def)
    ultimately show ?thesis by blast
  next
    case 3
    let ?all0 = "take 12 (replicate 140 0) @ drop 12 ?fb" and ?t = "i_sectors i ! 12"
    have t: "?t \<noteq> 0" "block_in_use k ?t" using B(3,4) 3 by simp_all
    have al: "length ?all0 = 140" using len by simp
    have al2: "?all0 ! j = (if j < has then ?fb ! j else 0)" if "12 \<le> j" "j < 140" for j
      using that len B(6) [of j] by (simp add: nth_append)
    have le: "has \<le> will" "12 < will" using n(2) 3 by simp_all
    have sec: "i_sectors i ! j = (if j < has then ?fb ! j else 0)" if "j < 12" for j using that dir 3 by simp
    obtain all' k' s' where g: "grow_table a ?t ?all0 [has..<will] k = Inr (Some all', k')"
      "extended k a ?t (i\<lparr>i_sectors := s'\<rparr>) k'"
      "blocks_ok k' (i\<lparr>i_sectors := s'\<rparr>) will" "length all' = 140"
      "\<forall>j < has. file_blocks (disk_image k') (i\<lparr>i_sectors := s'\<rparr>) ! j = ?fb ! j \<and> all' ! j = ?all0 ! j"
      "\<forall>j. has \<le> j \<and> j < will \<longrightarrow> all' ! j = file_blocks (disk_image k') (i\<lparr>i_sectors := s'\<rparr>) ! j"
      "\<forall>j. has \<le> j \<and> j < will \<longrightarrow> \<not> block_in_use k (all' ! j)"
      using grow_table_ok [OF ok i(1) B(1) refl t(2) B(5) [OF 3] le(1) n(3) le(2) blocks_ok_nth [OF i(2)] B(7) sec al al2 fr]
      by blast
    have "?all0 ! (has - 1) = ?fb ! (has - 1)" using al2 [of "has - 1"] 3 n by simp
    from part [OF _ _ g(5,6) this] have "collected k a i has will all' k' s'"
      using g(2-5,7) 3 unfolding collected_def by blast
    moreover have "collect_blocks a has will k = Inr (Some all', k')"
      using 3 i(1) ne s32 g(1) t(1) le(2) read_indirect_ok [OF ok(3) i(2) 3]
      by (simp add: collect_blocks_def get_inode_def Let_def)
    ultimately show ?thesis by blast
  next
    case 2
    have h: "has - 1 < 12" "has - 1 < 140" using 2(1) n by simp_all
    have "card (used (block_bitmap k)) < nbits (block_bitmap k)" using free n(2) by linarith
    then obtain t k1 where b: "new_block (\<lambda>idx. True) k = Inr (int t, k1)" "grown k a i k1" "block_in_use k1 t"
      "\<not> block_in_use k t" "card (used (block_bitmap k1)) = Suc (card (used (block_bitmap k)))" "t < 2 ^ 32"
      using new_block_grown [OF ok i(1), of "\<lambda>idx. True"] by blast
    define i1 where "i1 = i\<lparr>i_sectors := (i_sectors i)[12 := t]\<rparr>"
    define k2 where "k2 = set_inode a i1 k1"
    have g2: "grown k a i1 k2" unfolding k2_def by (rule grown_set_inode [OF b(2)])
    have k2: "block_bitmap k2 = block_bitmap k1" "sb k2 = sb k1" "inodes k2 a = Some i1"
      by (simp_all add: k2_def set_inode_def)
    have l13: "length (i_sectors i) = 13" using B(1) by (simp add: wf_inode_def)
    have wf1: "wf_inode i1" "i_sectors i1 ! 12 = t"
      using B(1) b(6) l13 set_update_subset_insert [of "i_sectors i" 12 t] by (auto simp: wf_inode_def i1_def)
    have t2: "block_in_use k2 t" using b(3) in_use_same [OF k2(1,2)] by simp
    have fbt: "?fb ! j \<noteq> t" if "j < has" for j using blocks_ok_nth [OF i(2) that] b(4) by metis
    have use2: "block_in_use k2 (?fb ! j)" if "j < has" for j
      by (rule grown_in_use [OF g2 blocks_ok_nth [OF i(2) that]])
    have sec: "i_sectors i1 ! j = (if j < has then ?fb ! j else 0)" if "j < 12" for j
      using that dir B(6) [of j] l13 by (simp add: i1_def)
    have al: "length ?all = 140" by simp
    have al2: "?all ! j = (if j < has then ?fb ! j else 0)" if "12 \<le> j" "j < 140" for j using that h(1) 2(1) by simp
    have fr2: "card (used (block_bitmap k2)) + (will - has) \<le> nbits (block_bitmap k2)"
      using free 2 b(2,5) k2(1) by (simp add: grown_def)
    have ok2: "fs_ok k2" "blocks_synced k2" "blocks_fit k2" using grown_ok [OF g2] by simp_all
    have le: "has \<le> will" using n(2) by simp
    obtain all' k' s' where g: "grow_table a t ?all [has..<will] k2 = Inr (Some all', k')"
      "extended k2 a t (i1\<lparr>i_sectors := s'\<rparr>) k'"
      "blocks_ok k' (i1\<lparr>i_sectors := s'\<rparr>) will" "length all' = 140"
      "\<forall>j < has. file_blocks (disk_image k') (i1\<lparr>i_sectors := s'\<rparr>) ! j = ?fb ! j \<and> all' ! j = ?all ! j"
      "\<forall>j. has \<le> j \<and> j < will \<longrightarrow> all' ! j = file_blocks (disk_image k') (i1\<lparr>i_sectors := s'\<rparr>) ! j"
      "\<forall>j. has \<le> j \<and> j < will \<longrightarrow> \<not> block_in_use k2 (all' ! j)"
      using grow_table_ok [OF ok2 k2(3) wf1 t2 fbt le n(3) 2(2) use2 B(7) sec al al2 fr2] by blast
    have ii: "i1\<lparr>i_sectors := s'\<rparr> = i\<lparr>i_sectors := s'\<rparr>" by (simp add: i1_def)
    have "?all ! (has - 1) = ?fb ! (has - 1)" using h dir by simp
    from part [OF _ _ g(5,6) this] have "collected k a i has will all' k' s'"
      using grown_then_extended [OF g2 g(2)] g(3-5,7) b(4) grown_in_use [OF g2] unfolding collected_def ii by blast
    moreover have "set_sector a 12 t k1 = Inr k2"
      using grown_simps(2) [OF b(2)] l13 by (simp add: set_sector_def get_inode_def k2_def i1_def)
    then have "collect_blocks a has will k = Inr (Some all', k')"
      using 2 i(1) ne s32 b(1) B(3) g(1) by (simp add: collect_blocks_def get_inode_def Let_def)
    ultimately show ?thesis by blast
  qed
qed

section \<open>Appending\<close>

lemma take_data_cong:
  assumes "wf_image d" "wf_image d'" "h \<le> length bs" "h \<le> length bs'" "n \<le> 512 * h"
    and e: "\<And>j. j < h \<Longrightarrow> sectors d' (bs' ! j) 1 = sectors d (bs ! j) 1"
  shows "take n (data d' bs') = take n (data d bs)"
proof -
  have "map (\<lambda>b. sectors d' b 1) (take h bs') = map (\<lambda>b. sectors d b 1) (take h bs)"
    using assms(3,4) e by (intro nth_equalityI) simp_all
  then have h: "data d' (take h bs') = data d (take h bs)" by (simp add: data_def)
  have *: "take n (data e xs) = take n (data e (take h xs))" if "wf_image e" "h \<le> length xs" for e xs
  proof -
    have "data e xs = data e (take h xs) @ data e (drop h xs)" by (metis append_take_drop_id data_simps(3))
    then show ?thesis using that assms(5) by simp
  qed
  show ?thesis using * [OF assms(1,3)] * [OF assms(2,4)] h by simp
qed

lemma size_le_blocks: "(n :: nat) \<le> 512 * (n div 512 + 1)"
proof -
  have "512 * (n div 512 + 1) = n div 512 * 512 + 512" by simp
  then show ?thesis using div_mult_mod_eq [of n 512] mod_less_divisor [of 512 n] by linarith
qed

text \<open>The same addresses and the same table give the same blocks.\<close>

lemma blocks_ok_cong:
  assumes b: "blocks_ok k i n" and i: "i_sectors i' = i_sectors i" "wf_inode i'" and k: "block_bitmap k' = block_bitmap k" "sb k' = sb k"
    and t: "n > 12 \<Longrightarrow> sectors (disk_image k') (i_sectors i ! 12) 1 = sectors (disk_image k) (i_sectors i ! 12) 1"
  shows "blocks_ok k' i' n" "file_blocks (disk_image k') i' = file_blocks (disk_image k) i"
proof -
  show e: "file_blocks (disk_image k') i' = file_blocks (disk_image k) i"
    using t i(1) blocks_okD(3) [OF b] unfolding file_blocks_def by auto
  show "blocks_ok k' i' n" using b i unfolding blocks_ok_def e in_use_same [OF k] by simp
qed

text \<open>The first block of a file that has none.\<close>

definition first_block :: "nat \<Rightarrow> inode \<Rightarrow> fsk \<Rightarrow> (bool \<times> fsk) res" where
  "first_block a i k =
     (if i_sectors i ! 0 = 0
      then bnd (new_block (\<lambda>idx. idx \<noteq> 0) k) (\<lambda>(block_lba, k).
           if block_lba = -1 then Inr (False, k)
           else bnd (set_sector a 0 (nat block_lba) k) (\<lambda>k. Inr (True, k)))
      else Inr (True, k))"

lemma first_block_ok:
  assumes ok: "fs_ok k" "blocks_synced k" "blocks_fit k" and i: "inodes k a = Some i" "file_ok k i"
    and free: "i_sectors i ! 0 = 0 \<Longrightarrow> 0 \<in> used (block_bitmap k) \<and> card (used (block_bitmap k)) < nbits (block_bitmap k)"
  shows "\<exists>k1 s1. first_block a i k = Inr (True, k1) \<and> grown k a (i\<lparr>i_sectors := s1\<rparr>) k1 \<and>
    blocks_ok k1 (i\<lparr>i_sectors := s1\<rparr>) (i_size i div 512 + 1) \<and> s1 ! 0 \<noteq> 0 \<and> s1 ! 12 = i_sectors i ! 12 \<and>
    content (disk_image k1) (i\<lparr>i_sectors := s1\<rparr>) = content (disk_image k) i \<and>
    card (used (block_bitmap k1)) = card (used (block_bitmap k)) + (if i_sectors i ! 0 = 0 then 1 else 0) \<and>
    (\<forall>j < 140. block_in_use k (file_blocks (disk_image k1) (i\<lparr>i_sectors := s1\<rparr>) ! j) \<longrightarrow>
       file_blocks (disk_image k1) (i\<lparr>i_sectors := s1\<rparr>) ! j = file_blocks (disk_image k) i ! j)"
proof (cases "i_sectors i ! 0 = 0")
  case False
  then show ?thesis using i grown_refl [OF ok i(1)]
    by (intro exI [of _ k] exI [of _ "i_sectors i"]) (simp add: first_block_def file_ok_def blocks_of_def)
next
  case True
  have b0: "blocks_ok k i 0" and z: "i_size i = 0" using i(2) True by (simp_all add: file_ok_def blocks_of_def)
  note B = blocks_okD [OF b0]
  have l13: "length (i_sectors i) = 13" using B(1) by (simp add: wf_inode_def)
  have sne: "i_sectors i \<noteq> []" using l13 by auto
  have s0: "i_sectors i ! j = 0" if "j < 13" for j
  proof (cases "j = 12")
    case True
    then show ?thesis using B(3) by simp
  next
    case False
    then show ?thesis using that B(6) [of j] file_blocks_direct [OF B(1), of j "disk_image k"] by simp
  qed
  obtain b k1 where b: "new_block (\<lambda>idx. idx \<noteq> 0) k = Inr (int b, k1)" "grown k a i k1" "block_in_use k1 b"
    "\<not> block_in_use k b" "card (used (block_bitmap k1)) = Suc (card (used (block_bitmap k)))" "b < 2 ^ 32" "0 < b"
    using new_block_grown [OF ok i(1), of "\<lambda>idx. idx \<noteq> 0"] free True by (metis (no_types, lifting))
  define s1 where "s1 = (i_sectors i)[0 := b]"
  define i1 where "i1 = i\<lparr>i_sectors := s1\<rparr>"
  define k2 where "k2 = set_inode a i1 k1"
  have g: "grown k a i1 k2" unfolding k2_def by (rule grown_set_inode [OF b(2)])
  have k2: "block_bitmap k2 = block_bitmap k1" "sb k2 = sb k1" by (simp_all add: k2_def set_inode_def)
  have s12: "s1 ! 12 = 0" "s1 ! 0 = b" "length s1 = 13" using s0 l13 by (simp_all add: s1_def)
  have fb: "file_blocks d i1 ! j = (if j = 0 then b else 0)" if "j < 140" for d j
    using that s12 s0 by (simp add: file_blocks_def i1_def nth_append s1_def)
  have wf1: "wf_inode i1" using B(1) b(6) set_update_subset_insert [of "i_sectors i" 0 b]
    by (auto simp: wf_inode_def i1_def s1_def)
  have "blocks_ok k2 i1 1"
    by (rule blocks_okI) (use wf1 s12(1) fb b(3) in_use_same [OF k2] in \<open>simp_all add: i1_def\<close>)
  moreover have "first_block a i k = Inr (True, k2)"
    using True b(1) sne grown_simps(2) [OF b(2)]
    by (simp add: first_block_def set_sector_def get_inode_def k2_def i1_def s1_def)
  moreover have "content (disk_image k2) i1 = content (disk_image k) i" using z by (simp add: content_def i1_def)
  moreover have "\<forall>j < 140. block_in_use k (file_blocks (disk_image k2) i1 ! j) \<longrightarrow>
       file_blocks (disk_image k2) i1 ! j = file_blocks (disk_image k) i ! j"
    using fb b(4) not_in_use_0 [OF ok(3)] by simp
  ultimately show ?thesis using g s12 s0 b(5,7) True z k2(1) unfolding i1_def
    by (intro exI [of _ k2] exI [of _ s1]) simp
qed

lemma collect_blocks_ok:
  assumes ok: "fs_ok k" "blocks_synced k" "blocks_fit k" and i: "inodes k a = Some i" "blocks_ok k i has"
    and n: "0 < has" "has \<le> will" "will \<le> 140"
    and free: "card (used (block_bitmap k)) + (will - has) + (if has \<le> 12 \<and> 12 < will then 1 else 0) \<le> nbits (block_bitmap k)"
  shows "\<exists>all' k' s'. collect_blocks a has will k = Inr (Some all', k') \<and> collected k a i has will all' k' s'"
proof (cases "has = will")
  case True
  then show ?thesis using collect_same [OF ok i n(1)] by blast
next
  case False
  then have "has < will" using n(2) by simp
  then show ?thesis by (rule collect_more [OF ok i n(1) _ n(3) free])
qed

lemma fs_ok_wf: "fs_ok k \<Longrightarrow> wf_image (disk_image k)"
  by (simp add: fs_ok_def table_ok_def)

text \<open>The bytes there are stay where they are.\<close>

lemma collected_data:
  assumes k: "fs_ok k" and i: "blocks_ok k i has" and c: "collected k a i has will all' k' s'" and n: "n \<le> 512 * has" "has \<le> will"
  shows "take n (data (disk_image k') (file_blocks (disk_image k') (i\<lparr>i_sectors := s'\<rparr>))) =
    take n (data (disk_image k) (file_blocks (disk_image k) i))"
proof (rule take_data_cong [of _ _ has])
  note B = blocks_okD [OF i]
  obtain t where t: "extended k a t (i\<lparr>i_sectors := s'\<rparr>) k'" "12 < has \<and> t = i_sectors i ! 12 \<or> \<not> block_in_use k t"
    using c unfolding collected_def by blast
  show "wf_image (disk_image k)" by (rule fs_ok_wf [OF k])
  show "wf_image (disk_image k')" using t(1) fs_ok_wf by (simp add: extended_def)
  show "has \<le> length (file_blocks (disk_image k) i)" using B(1,2) length_file_blocks by simp
  have "blocks_ok k' (i\<lparr>i_sectors := s'\<rparr>) will" using c by (simp add: collected_def)
  from blocks_okD(1,2) [OF this] show "has \<le> length (file_blocks (disk_image k') (i\<lparr>i_sectors := s'\<rparr>))"
    using n(2) length_file_blocks by simp
  fix j assume j: "j < has"
  have e: "file_blocks (disk_image k') (i\<lparr>i_sectors := s'\<rparr>) ! j = file_blocks (disk_image k) i ! j"
    using c j by (simp add: collected_def)
  have u: "block_in_use k (file_blocks (disk_image k) i ! j)" by (rule blocks_ok_nth [OF i j])
  moreover have "file_blocks (disk_image k) i ! j \<noteq> t" using t(2) u B(5) [OF _ j] by metis
  ultimately show "sectors (disk_image k') (file_blocks (disk_image k') (i\<lparr>i_sectors := s'\<rparr>) ! j) 1 =
      sectors (disk_image k) (file_blocks (disk_image k) i ! j) 1"
    using t(1) unfolding e extended_def by blast
qed (use n in simp)

lemma set_file_ok [simp]:
  "fs_ok (set_file fd f k) = fs_ok k" "blocks_synced (set_file fd f k) = blocks_synced k"
  "blocks_fit (set_file fd f k) = blocks_fit k" "block_in_use (set_file fd f k) b = block_in_use k b"
  by (simp_all add: fs_ok_def table_ok_def blocks_synced_def blocks_fit_def set_file_def block_in_use_def)

text \<open>The i-node goes to the disk at the end.\<close>

lemma inode_sync_keeps:
  assumes "fs_ok k" "blocks_synced k" "wf_inode i" "i_no i < 4096"
  shows "\<exists>d. inode_sync i k = Inr (k\<lparr>disk_image := d\<rparr>) \<and> fs_ok (k\<lparr>disk_image := d\<rparr>) \<and> blocks_synced (k\<lparr>disk_image := d\<rparr>) \<and>
    (\<forall>m < 4096. disk_inode (k\<lparr>disk_image := d\<rparr>) m = (if m = i_no i then pure_inode i else disk_inode k m)) \<and>
    (\<forall>T N. data_start_lba (sb k) \<le> T \<longrightarrow> sectors d T N = sectors (disk_image k) T N)"
proof -
  have t: "table_ok k" using assms(1) by (simp add: fs_ok_def)
  obtain k' where k': "inode_sync i k = Inr k'" "k' = k\<lparr>disk_image := disk_image k'\<rparr>" "table_ok k'"
    "\<And>m. m < 4096 \<Longrightarrow> disk_inode k' m = (if m = i_no i then pure_inode i else disk_inode k m)"
    "\<And>T N. T + N \<le> inode_table_lba (sb k) \<or> inode_table_lba (sb k) + INODE_TABLE_SECTS \<le> T \<Longrightarrow>
       sectors (disk_image k') T N = sectors (disk_image k) T N"
    by (rule inode_sync_ok [OF t assms(3,4)]) blast
  define d where "d = disk_image k'"
  have e: "k' = k\<lparr>disk_image := d\<rparr>" using k'(2) by (simp add: d_def)
  have "inode_table_lba (sb k) + INODE_TABLE_SECTS \<le> data_start_lba (sb k)"
    "block_bitmap_lba (sb k) + block_bitmap_sects (sb k) \<le> inode_table_lba (sb k)"
    using assms(1) by (simp_all add: fs_ok_def)
  then have "\<forall>T N. data_start_lba (sb k) \<le> T \<longrightarrow> sectors d T N = sectors (disk_image k) T N" "blocks_synced (k\<lparr>disk_image := d\<rparr>)"
    using k'(5) assms(2) by (simp_all add: d_def blocks_synced_def)
  moreover have "fs_ok (k\<lparr>disk_image := d\<rparr>)" using assms(1) k'(3) e by (simp add: fs_ok_def)
  ultimately show ?thesis using k'(1,4) e by blast
qed

text \<open>What else is in the state stays.\<close>

definition same_else :: "fsk \<Rightarrow> fsk \<Rightarrow> bool" where
  "same_else k k' \<longleftrightarrow> k' = k\<lparr>block_bitmap := block_bitmap k', disk_image := disk_image k', inodes := inodes k',
     file_table := file_table k'\<rparr> \<and> used (block_bitmap k) \<subseteq> used (block_bitmap k')"

lemma same_else_grown: "grown k a i k' \<Longrightarrow> same_else k k'"
  by (cases k; cases k'; simp add: same_else_def grown_def)

lemma same_else_extended: "extended k a t i k' \<Longrightarrow> same_else k k'"
  by (cases k; cases k'; simp add: same_else_def extended_def)

lemma same_else_trans: "same_else k k1 \<Longrightarrow> same_else k1 k2 \<Longrightarrow> same_else k k2"
  by (cases k; cases k1; cases k2; auto simp: same_else_def)

lemma same_else_updates: "same_else k (set_file fd f k)" "same_else k (set_inode a i k)" "same_else k (k\<lparr>disk_image := d\<rparr>)"
  by (cases k; simp add: same_else_def set_file_def set_inode_def)+

lemma same_else_simps:
  assumes "same_else k k'"
  shows "sb k' = sb k" "mallocs k' = mallocs k" "fd_table k' = fd_table k" "tasks k' = tasks k" "cur k' = cur k"
    "open_inodes k' = open_inodes k" "dirs k' = dirs k" "pipes k' = pipes k" "intr k' = intr k"
  using assms by (cases k; cases k'; simp add: same_else_def)+

text \<open>The blocks are collected and the bytes written.\<close>

lemma append_ok:
  assumes ok: "fs_ok k" "blocks_synced k" "blocks_fit k" and fd: "fd < length (file_table k)" "fd_inode f = a" "fd_pos f < 2 ^ 32"
    and i: "inodes k a = Some i" "blocks_ok k i has"
    and n: "has = i_size i div 512 + 1" "will = (i_size i + length src) div 512 + 1" "will \<le> 140"
    and free: "card (used (block_bitmap k)) + (will - has) + (if has \<le> 12 \<and> 12 < will then 1 else 0) \<le> nbits (block_bitmap k)"
  shows "\<exists>all k2 k' s' i'. collect_blocks a has will k = Inr (Some all, k2) \<and> write_chunks fd all True src (set_file fd f k2) = Inr k' \<and>
    file_table k' = (file_table k)[fd := f\<lparr>fd_pos := (fd_pos f + length src) mod 2 ^ 32\<rparr>] \<and>
    i' = i\<lparr>i_sectors := s', i_size := i_size i + length src\<rparr> \<and> inodes k' = (inodes k)(a \<mapsto> i') \<and> sb k' = sb k \<and> same_else k k' \<and>
    fs_ok k' \<and> blocks_synced k' \<and> blocks_fit k' \<and> blocks_ok k' i' will \<and>
    content (disk_image k') i' = content (disk_image k) i @ src \<and>
    (\<forall>T N. block_bitmap_lba (sb k) + block_bitmap_sects (sb k) \<le> T \<and> T + N \<le> data_start_lba (sb k) \<longrightarrow>
       sectors (disk_image k') T N = sectors (disk_image k) T N) \<and>
    (\<forall>b. block_in_use k b \<and> b \<notin> set (file_blocks (disk_image k) i) \<and> b \<noteq> i_sectors i ! 12 \<longrightarrow>
       sectors (disk_image k') b 1 = sectors (disk_image k) b 1)"
proof -
  have h: "0 < has" "has \<le> will" by (simp_all add: n(1,2) div_le_mono)
  obtain all k2 s' where c: "collect_blocks a has will k = Inr (Some all, k2)" "collected k a i has will all k2 s'"
    using collect_blocks_ok [OF ok i h n(3) free] by blast
  let ?i2 = "i\<lparr>i_sectors := s'\<rparr>"
  obtain t where t: "extended k a t ?i2 k2" "12 < has \<and> t = i_sectors i ! 12 \<or> \<not> block_in_use k t"
    using c(2) unfolding collected_def by blast
  note S = extended_simps [OF t(1)]
  have bok2: "blocks_ok k2 ?i2 will" and al: "length all = 140"
    "\<forall>j. has - 1 \<le> j \<and> j < will \<longrightarrow> all ! j = file_blocks (disk_image k2) ?i2 ! j"
    "\<forall>j. has \<le> j \<and> j < will \<longrightarrow> \<not> block_in_use k (all ! j)"
    "\<forall>j < has. file_blocks (disk_image k2) ?i2 ! j = file_blocks (disk_image k) i ! j"
    using c(2) by (simp_all add: collected_def)
  note B2 = blocks_okD [OF bok2] and B = blocks_okD [OF i(2)]
  let ?fb = "file_blocks (disk_image k2) ?i2"
  define bs where "bs = take will ?fb"
  have len: "length ?fb = 140" by (rule length_file_blocks [OF B2(1)])
  have lb: "length bs = will" "\<And>j. j < will \<Longrightarrow> bs ! j = ?fb ! j" using len n(3) by (simp_all add: bs_def)
  define k3 where "k3 = set_file fd f k2"
  have k3: "fs_ok k3" "blocks_synced k3" "blocks_fit k3" "fd < length (file_table k3)" "file_table k3 ! fd = f"
    "inodes k3 (fd_inode f) = Some ?i2" "disk_image k3 = disk_image k2"
    using t(1) fd S(2,4) by (simp_all add: k3_def extended_def)
  have dist: "distinct bs" "\<forall>b \<in> set bs. block_in_use k3 b" using bok2 by (simp_all add: blocks_ok_def bs_def k3_def)
  have sz: "i_size ?i2 + length src \<le> 512 * length bs" using size_le_blocks lb(1) n(2) by simp
  have "will * 512 \<le> 140 * 512" using n(3) by simp
  then have s32: "i_size ?i2 + length src < 2 ^ 32" using sz lb(1) by simp
  have la: "length bs \<le> length all" using lb(1) n(3) al(1) by simp
  have ab: "\<forall>j. i_size ?i2 div 512 \<le> j \<and> j < length bs \<longrightarrow> all ! j = bs ! j" using al(2) lb n(1) by simp
  let ?i4 = "?i2\<lparr>i_size := i_size i + length src\<rparr>"
  obtain d where d: "write_chunks fd all True src k3 =
      Inr (set_file fd (f\<lparr>fd_pos := (fd_pos f + length src) mod 2 ^ 32\<rparr>) (set_inode a ?i4 (k3\<lparr>disk_image := d\<rparr>)))"
    "fs_ok (k3\<lparr>disk_image := d\<rparr>)" "blocks_synced (k3\<lparr>disk_image := d\<rparr>)"
    "take (i_size i + length src) (data d bs) = take (i_size i) (data (disk_image k2) bs) @ src"
    "\<forall>T. T \<notin> set bs \<longrightarrow> sectors d T 1 = sectors (disk_image k2) T 1"
    "\<forall>T N. T + N \<le> data_start_lba (sb k2) \<longrightarrow> sectors d T N = sectors (disk_image k2) T N"
    using write_chunks_ok [OF k3(1-6) fd(3) dist sz s32 la ab, of True] fd(2) k3(7)
    by (auto simp: k3_def)
  define k4 where "k4 = set_file fd (f\<lparr>fd_pos := (fd_pos f + length src) mod 2 ^ 32\<rparr>) (set_inode a ?i4 (k3\<lparr>disk_image := d\<rparr>))"
  have k4: "file_table k4 = (file_table k)[fd := f\<lparr>fd_pos := (fd_pos f + length src) mod 2 ^ 32\<rparr>]"
    "inodes k4 = (inodes k)(a \<mapsto> ?i4)" "sb k4 = sb k" "block_bitmap k4 = block_bitmap k2" "sb k4 = sb k2" "disk_image k4 = d"
    "fs_ok k4" "blocks_synced k4" "blocks_fit k4"
    using S d(2,3) k3(3) by (simp_all add: k4_def k3_def set_inode_def set_file_def blocks_fit_def fs_ok_def table_ok_def blocks_synced_def)
  have tb: "sectors (disk_image k4) (i_sectors ?i2 ! 12) 1 = sectors (disk_image k2) (i_sectors ?i2 ! 12) 1" if "will > 12"
  proof -
    have "i_sectors ?i2 ! 12 \<notin> set bs" using bok2 that by (simp add: blocks_ok_def bs_def)
    then show ?thesis using d(5) k4(6) by simp
  qed
  have wf4: "wf_inode ?i4" using B2(1) s32 by (simp add: wf_inode_def)
  have bok4: "blocks_ok k4 ?i4 will" "file_blocks (disk_image k4) ?i4 = ?fb"
    using blocks_ok_cong [OF bok2 _ wf4 k4(4,5) tb] by simp_all
  have wfd: "wf_image d" "wf_image (disk_image k2)" using fs_ok_wf [OF k4(7)] k4(6) fs_ok_wf [OF k3(1)] k3(7) by simp_all
  have le: "i_size i + length src \<le> 512 * will" "i_size i \<le> 512 * has" using size_le_blocks n(1,2) by simp_all
  have "content (disk_image k4) ?i4 = take (i_size i + length src) (data d ?fb)" unfolding content_def bok4(2) by (simp add: k4(6))
  also have "\<dots> = take (i_size i + length src) (data d bs)"
    by (rule take_data_cong [OF wfd(1) wfd(1) _ _ le(1)]) (use lb len n(3) in simp_all)
  also have "\<dots> = take (i_size i) (data (disk_image k2) bs) @ src" by (rule d(4))
  also have "take (i_size i) (data (disk_image k2) bs) = take (i_size i) (data (disk_image k2) ?fb)"
    by (rule take_data_cong [OF wfd(2) wfd(2), of will]) (use lb len n(3) le(1) in simp_all)
  also have "\<dots> = take (i_size i) (data (disk_image k) (file_blocks (disk_image k) i))"
    by (rule collected_data [OF ok(1) i(2) c(2) le(2) h(2)])
  finally have cont: "content (disk_image k4) ?i4 = content (disk_image k) i @ src" by (simp add: content_def)
  have low: "\<forall>T N. block_bitmap_lba (sb k) + block_bitmap_sects (sb k) \<le> T \<and> T + N \<le> data_start_lba (sb k) \<longrightarrow>
       sectors (disk_image k4) T N = sectors (disk_image k) T N"
    using d(6) t(1) by (simp add: k4(6) S(1) extended_def)
  have oth: "\<forall>b. block_in_use k b \<and> b \<notin> set (file_blocks (disk_image k) i) \<and> b \<noteq> i_sectors i ! 12 \<longrightarrow>
       sectors (disk_image k4) b 1 = sectors (disk_image k) b 1"
  proof (intro allI impI)
    fix b assume b: "block_in_use k b \<and> b \<notin> set (file_blocks (disk_image k) i) \<and> b \<noteq> i_sectors i ! 12"
    have lfb: "length (file_blocks (disk_image k) i) = 140" by (rule length_file_blocks [OF B(1)])
    have "b \<notin> set bs"
    proof
      assume "b \<in> set bs"
      then obtain j where j: "j < will" "b = ?fb ! j" using lb by (metis in_set_conv_nth)
      show False
      proof (cases "j < has")
        case True
        then have "b = file_blocks (disk_image k) i ! j" "j < length (file_blocks (disk_image k) i)"
          using j(2) al(4) B(2) lfb by simp_all
        then show False using b nth_mem by blast
      next
        case False
        then have "has - 1 \<le> j \<and> j < will" "has \<le> j \<and> j < will" using j(1) by simp_all
        then have "all ! j = ?fb ! j" "\<not> block_in_use k (all ! j)" using al(2,3) by blast+
        then show False using b j(2) by simp
      qed
    qed
    then have "sectors (disk_image k4) b 1 = sectors (disk_image k2) b 1" using d(5) k4(6) by simp
    also have "\<dots> = sectors (disk_image k) b 1" using t b unfolding extended_def by blast
    finally show "sectors (disk_image k4) b 1 = sectors (disk_image k) b 1" .
  qed
  have run: "write_chunks fd all True src (set_file fd f k2) = Inr k4" using d(1) by (simp only: k3_def k4_def)
  have se: "same_else k k4"
    unfolding k4_def k3_def
    by (rule same_else_trans [OF same_else_extended [OF t(1)]], rule same_else_trans [OF same_else_updates(1)],
        rule same_else_trans [OF same_else_updates(3)], rule same_else_trans [OF same_else_updates(2)], rule same_else_updates(1))
  have "?i4 = i\<lparr>i_sectors := s', i_size := i_size i + length src\<rparr>" by simp
  then show ?thesis using c(1) run se k4(1-3,7-9) bok4(1) cont low oth by blast
qed

text \<open>How many blocks, the table included, \<open>file_write\<close> takes for \<open>n\<close> more bytes.\<close>

definition blocks_needed :: "inode \<Rightarrow> nat \<Rightarrow> nat" where
  "blocks_needed i n =
     (let will = (i_size i + n) div BLOCK_SIZE + 1
      in will - blocks_of i + (if blocks_of i \<le> 12 \<and> 12 < will then 1 else 0))"

lemma sub32_append: "(sub32 n 1 + m) mod 2 ^ 32 = sub32 (n + m) 1"
proof -
  have "(sub32 n 1 + m) mod 2 ^ 32 = (n + 2 ^ 32 - 1 + m) mod 2 ^ 32" unfolding sub32_def by (rule mod_add_left_eq)
  then show ?thesis by (simp add: sub32_def add.assoc)
qed

lemma file_write_run:
  assumes "get_file fd k = Inr f" "get_inode (fd_inode f) k = Inr i" "mallocs k = []"
    "i_size i + length src < 140 * BLOCK_SIZE" "first_block (fd_inode f) i k = Inr (True, k1)"
    "collect_blocks (fd_inode f) (i_size i div BLOCK_SIZE + 1) ((i_size i + length src) div BLOCK_SIZE + 1) k1 = Inr (Some all, k2)"
    "write_chunks fd all True src (set_file fd (f\<lparr>fd_pos := sub32 (i_size i) 1\<rparr>) k2) = Inr k3"
    "inodes k3 (fd_inode f) = Some i3" "inode_sync i3 k3 = Inr k4"
  shows "file_write fd src k = Inr (int (length src), k4)"
proof -
  have m: "(i_size i + length src) mod 4294967296 = i_size i + length src" using assms(4) by simp
  have d: "(i_size i + length src) div 512 < 140" using assms(4) by (simp add: div_less_iff_less_mult)
  show ?thesis using assms d
    unfolding file_write_def first_block_def by (simp add: heap_reply_def Let_def m get_inode_def)
qed

lemma file_write_ok:
  assumes ok: "fs_ok k" "blocks_synced k" "blocks_fit k" "mallocs k = []" and fd: "fd < length (file_table k)" "file_table k ! fd = f"
    and i: "inodes k (fd_inode f) = Some i" "file_ok k i" "i_no i < 4096"
    and size: "i_size i + length src < 140 * BLOCK_SIZE"
    and free: "0 \<in> used (block_bitmap k)" "card (used (block_bitmap k)) + blocks_needed i (length src) \<le> nbits (block_bitmap k)"
  shows "\<exists>k' s' i'. file_write fd src k = Inr (int (length src), k') \<and>
    i' = i\<lparr>i_sectors := s', i_size := i_size i + length src\<rparr> \<and> inodes k' = (inodes k)(fd_inode f \<mapsto> i') \<and>
    file_table k' = (file_table k)[fd := f\<lparr>fd_pos := sub32 (i_size i') 1\<rparr>] \<and>
    content (disk_image k') i' = content (disk_image k) i @ src \<and>
    file_ok k' i' \<and> fs_ok k' \<and> blocks_synced k' \<and> blocks_fit k' \<and> same_else k k' \<and>
    (\<forall>m < 4096. disk_inode k' m = (if m = i_no i then pure_inode i' else disk_inode k m)) \<and>
    (\<forall>b. block_in_use k b \<and> b \<notin> set (file_blocks (disk_image k) i) \<and> b \<noteq> i_sectors i ! 12 \<longrightarrow>
       sectors (disk_image k') b 1 = sectors (disk_image k) b 1)"
proof -
  let ?a = "fd_inode f"
  define has will where "has = i_size i div 512 + 1" and "will = (i_size i + length src) div 512 + 1"
  have hw: "has \<le> will" by (simp add: has_def will_def div_le_mono)
  have w140: "will \<le> 140" using size unfolding will_def by (simp add: less_Suc_eq_le [symmetric] div_less_iff_less_mult)
  have "0 < blocks_needed i (length src)" if "i_sectors i ! 0 = 0"
    using that by (simp add: blocks_needed_def blocks_of_def Let_def)
  then have f0: "i_sectors i ! 0 = 0 \<Longrightarrow> 0 \<in> used (block_bitmap k) \<and> card (used (block_bitmap k)) < nbits (block_bitmap k)"
    using free by force
  obtain k1 s1 where k1: "first_block ?a i k = Inr (True, k1)" "grown k ?a (i\<lparr>i_sectors := s1\<rparr>) k1"
    "blocks_ok k1 (i\<lparr>i_sectors := s1\<rparr>) has" "s1 ! 0 \<noteq> 0" "s1 ! 12 = i_sectors i ! 12"
    "content (disk_image k1) (i\<lparr>i_sectors := s1\<rparr>) = content (disk_image k) i"
    "card (used (block_bitmap k1)) = card (used (block_bitmap k)) + (if i_sectors i ! 0 = 0 then 1 else 0)"
    "\<forall>j < 140. block_in_use k (file_blocks (disk_image k1) (i\<lparr>i_sectors := s1\<rparr>) ! j) \<longrightarrow>
       file_blocks (disk_image k1) (i\<lparr>i_sectors := s1\<rparr>) ! j = file_blocks (disk_image k) i ! j"
    using first_block_ok [OF ok(1-3) i(1,2) f0] unfolding has_def by blast
  let ?i1 = "i\<lparr>i_sectors := s1\<rparr>" and ?f = "f\<lparr>fd_pos := sub32 (i_size i) 1\<rparr>"
  note S1 = grown_simps [OF k1(2)]
  have ok1: "fs_ok k1" "blocks_synced k1" "blocks_fit k1" using grown_ok [OF k1(2)] by simp_all
  have p: "fd_inode ?f = ?a" "fd_pos ?f < 2 ^ 32" "fd < length (file_table k1)" using fd(1) S1(4) by (simp_all add: sub32_def)
  have i1: "inodes k1 ?a = Some ?i1" using S1(2) by simp
  have nn: "has = i_size ?i1 div 512 + 1" "will = (i_size ?i1 + length src) div 512 + 1" by (simp_all add: has_def will_def)
  have z: "i_sectors i ! 0 = 0 \<Longrightarrow> has = 1" using i(2) by (simp add: file_ok_def has_def)
  have fr: "card (used (block_bitmap k1)) + (will - has) + (if has \<le> 12 \<and> 12 < will then 1 else 0) \<le> nbits (block_bitmap k1)"
  proof (cases "i_sectors i ! 0 = 0")
    case True
    have "blocks_needed i (length src) = will + (if 12 < will then 1 else 0)"
      using True by (simp add: blocks_needed_def blocks_of_def Let_def will_def)
    then show ?thesis using free(2) k1(2,7) True z [OF True] hw by (auto simp: grown_def)
  next
    case False
    have "blocks_needed i (length src) = will - has + (if has \<le> 12 \<and> 12 < will then 1 else 0)"
      using False by (simp add: blocks_needed_def blocks_of_def Let_def will_def has_def)
    then show ?thesis using free(2) k1(2,7) False by (auto simp: grown_def)
  qed
  obtain all k2 k3 s3 i3 where k3: "collect_blocks ?a has will k1 = Inr (Some all, k2)"
    "write_chunks fd all True src (set_file fd ?f k2) = Inr k3"
    "file_table k3 = (file_table k1)[fd := ?f\<lparr>fd_pos := (fd_pos ?f + length src) mod 2 ^ 32\<rparr>]"
    "i3 = ?i1\<lparr>i_sectors := s3, i_size := i_size ?i1 + length src\<rparr>" "inodes k3 = (inodes k1)(?a \<mapsto> i3)" "sb k3 = sb k1" "same_else k1 k3"
    "fs_ok k3" "blocks_synced k3" "blocks_fit k3" "blocks_ok k3 i3 will"
    "content (disk_image k3) i3 = content (disk_image k1) ?i1 @ src"
    "\<forall>T N. block_bitmap_lba (sb k1) + block_bitmap_sects (sb k1) \<le> T \<and> T + N \<le> data_start_lba (sb k1) \<longrightarrow>
       sectors (disk_image k3) T N = sectors (disk_image k1) T N"
    "\<forall>b. block_in_use k1 b \<and> b \<notin> set (file_blocks (disk_image k1) ?i1) \<and> b \<noteq> i_sectors ?i1 ! 12 \<longrightarrow>
       sectors (disk_image k3) b 1 = sectors (disk_image k1) b 1"
    using append_ok [OF ok1 p(3,1,2) i1 k1(3) nn w140 fr] by blast
  have i3: "i3 = i\<lparr>i_sectors := s3, i_size := i_size i + length src\<rparr>" using k3(4) by simp
  have wf3: "wf_inode i3" "i_no i3 < 4096" using k3(11) i(3) i3 by (simp_all add: blocks_ok_def)
  obtain d where d: "inode_sync i3 k3 = Inr (k3\<lparr>disk_image := d\<rparr>)" "fs_ok (k3\<lparr>disk_image := d\<rparr>)" "blocks_synced (k3\<lparr>disk_image := d\<rparr>)"
    "\<forall>m < 4096. disk_inode (k3\<lparr>disk_image := d\<rparr>) m = (if m = i_no i3 then pure_inode i3 else disk_inode k3 m)"
    "\<forall>T N. data_start_lba (sb k3) \<le> T \<longrightarrow> sectors d T N = sectors (disk_image k3) T N"
    using inode_sync_keeps [OF k3(8,9) wf3] by blast
  let ?k4 = "k3\<lparr>disk_image := d\<rparr>"
  have sec4: "sectors d b 1 = sectors (disk_image k3) b 1" if "block_in_use k3 b" for b
    using d(5) that by (simp add: block_in_use_def)
  have tb: "sectors (disk_image ?k4) (i_sectors i3 ! 12) 1 = sectors (disk_image k3) (i_sectors i3 ! 12) 1" if "will > 12"
    using sec4 blocks_okD(4) [OF k3(11) that] by simp
  have bok4: "blocks_ok ?k4 i3 will" "file_blocks (disk_image ?k4) i3 = file_blocks (disk_image k3) i3"
    using blocks_ok_cong [OF k3(11) refl wf3(1), of ?k4] tb by simp_all
  have low: "block_bitmap_lba (sb k) + block_bitmap_sects (sb k) \<le> inode_table_lba (sb k)"
    "inode_table_lba (sb k) + INODE_TABLE_SECTS \<le> data_start_lba (sb k)" using ok(1) by (simp_all add: fs_ok_def)
  have "table_region k3 = table_region k1" using k3(13) low by (simp add: table_region_def k3(6) S1(1))
  also have "\<dots> = table_region k" using grown_sectors [OF k1(2) low(1)] by (simp add: table_region_def S1(1))
  finally have "disk_inode k3 m = disk_inode k m" for m by (simp add: disk_inode_def)
  then have di: "\<forall>m < 4096. disk_inode ?k4 m = (if m = i_no i then pure_inode i3 else disk_inode k m)"
    using d(4) i3 by simp
  have len: "length (file_blocks (disk_image k3) i3) = 140" by (rule length_file_blocks [OF wf3(1)])
  have wfd: "wf_image (disk_image k3)" "wf_image (disk_image ?k4)" using fs_ok_wf k3(8) d(2) by blast+
  have sz: "i_size i3 \<le> 512 * will" using size_le_blocks by (simp add: i3 will_def)
  have "content (disk_image ?k4) i3 = take (i_size i3) (data (disk_image ?k4) (file_blocks (disk_image k3) i3))"
    unfolding content_def bok4(2) ..
  also have "\<dots> = content (disk_image k3) i3"
    unfolding content_def
    by (rule take_data_cong [OF wfd(1,2) _ _ sz]) (use sec4 blocks_ok_nth [OF k3(11)] len w140 in simp_all)
  finally have cont: "content (disk_image ?k4) i3 = content (disk_image k) i @ src" using k3(12) k1(6) by simp
  have oth: "\<forall>b. block_in_use k b \<and> b \<notin> set (file_blocks (disk_image k) i) \<and> b \<noteq> i_sectors i ! 12 \<longrightarrow>
       sectors (disk_image ?k4) b 1 = sectors (disk_image k) b 1"
  proof (intro allI impI)
    fix b assume b: "block_in_use k b \<and> b \<notin> set (file_blocks (disk_image k) i) \<and> b \<noteq> i_sectors i ! 12"
    then have ge: "data_start_lba (sb k) \<le> b" and u1: "block_in_use k1 b" using grown_in_use [OF k1(2)] by (simp_all add: block_in_use_def)
    have wf1: "wf_inode ?i1" "wf_inode i" using k1(3) i(2) by (simp_all add: blocks_ok_def file_ok_def)
    have "b \<notin> set (file_blocks (disk_image k1) ?i1)"
    proof
      assume "b \<in> set (file_blocks (disk_image k1) ?i1)"
      then obtain j where j: "j < 140" "b = file_blocks (disk_image k1) ?i1 ! j"
        using length_file_blocks [OF wf1(1)] by (metis in_set_conv_nth)
      then have "b = file_blocks (disk_image k) i ! j" using k1(8) b by metis
      then show False using b j(1) length_file_blocks [OF wf1(2), of "disk_image k"] nth_mem by metis
    qed
    then have "sectors (disk_image k3) b 1 = sectors (disk_image k1) b 1" using k3(14) u1 b k1(5) by simp
    also have "\<dots> = sectors (disk_image k) b 1" by (rule grown_data [OF k1(2) ge])
    finally show "sectors (disk_image ?k4) b 1 = sectors (disk_image k) b 1" using d(5) ge by (simp add: k3(6) S1(1))
  qed
  have s30: "i_sectors i3 ! 0 \<noteq> 0"
  proof -
    have "i_sectors i3 ! 0 = file_blocks (disk_image k3) i3 ! 0" using file_blocks_direct [OF wf3(1)] by simp
    then show ?thesis using block_in_use_pos [OF k3(10) blocks_ok_nth [OF k3(11), of 0]] by (simp add: will_def)
  qed
  have fok: "file_ok ?k4 i3" using bok4(1) s30 by (simp add: file_ok_def blocks_of_def i3 will_def)
  have gi: "get_file fd k = Inr f" "get_inode ?a k = Inr i" using fd i(1) by (simp_all add: get_file_def get_inode_def)
  have run: "file_write fd src k = Inr (int (length src), ?k4)"
    by (rule file_write_run [OF gi ok(4) size k1(1) k3(1) [unfolded has_def will_def] k3(2) _ d(1)]) (simp add: k3(5))
  have ft: "file_table ?k4 = (file_table k)[fd := f\<lparr>fd_pos := sub32 (i_size i3) 1\<rparr>]"
    using k3(3) sub32_append [of "i_size i" "length src"] by (simp add: S1(4) i3)
  have "inodes ?k4 = (inodes k)(?a \<mapsto> i3)" "blocks_fit ?k4" using k3(5,10) S1(2) by (simp_all add: blocks_fit_def)
  moreover have "same_else k ?k4"
    by (rule same_else_trans [OF same_else_grown [OF k1(2)]], rule same_else_trans [OF k3(7)], rule same_else_updates(3))
  ultimately show ?thesis using run i3 ft cont fok d(2,3) di oth by blast
qed

end
