(* ===== verification/Filecalls.thy ===== *)
theory Filecalls
  imports Fileappend Fs
begin

text \<open>
  \<open>sys_read\<close>, \<open>sys_write\<close> and \<open>sys_lseek\<close> of \<open>fs/fs.c\<close> on an open regular file, from the
  caller's side: a file is a list of bytes, and the three calls work on that list.
\<close>

section \<open>Open files\<close>

text \<open>The file system is sound, and the root directory has the first block.\<close>

definition disk_sane :: "fsk \<Rightarrow> bool" where
  "disk_sane k \<longleftrightarrow> fs_ok k \<and> blocks_synced k \<and> blocks_fit k \<and> 0 \<in> used (block_bitmap k) \<and> mallocs k = []"

text \<open>
  The descriptor \<open>fd\<close> of the running thread leads to the entry \<open>g\<close> of the file table, which is
  a regular file with the i-node \<open>i\<close>.
\<close>

definition open_file :: "fsk \<Rightarrow> nat \<Rightarrow> nat \<Rightarrow> ofile \<Rightarrow> inode \<Rightarrow> bool" where
  "open_file k fd g f i \<longleftrightarrow> 2 < fd \<and> fd < length (fd_table k (running_thread k)) \<and>
     fd_table k (running_thread k) ! fd = int g \<and> g < length (file_table k) \<and> g < MAX_FILES_OPEN \<and>
     file_table k ! g = f \<and> fd_flag f \<noteq> PIPE_FLAG \<and> inodes k (fd_inode f) = Some i \<and> file_ok k i"

definition owned :: "fsk \<Rightarrow> inode \<Rightarrow> nat set" where
  "owned k i = {b. b \<noteq> 0 \<and> (b = i_sectors i ! 12 \<or> b \<in> set (file_blocks (disk_image k) i))}"

lemma open_file_entry:
  assumes "open_file k fd g f i"
  shows "fd_local2global fd k = Inr g" "get_file g k = Inr f" "is_pipe fd k = Inr False" "get_inode (fd_inode f) k = Inr i"
  using assms by (simp_all add: open_file_def fd_local2global_def Let_def get_file_def is_pipe_def get_inode_def)

lemma open_file_update:
  assumes "open_file k fd g f i" "same_else k k'" "file_table k' = (file_table k)[g := f']" "fd_flag f' = fd_flag f"
    "inodes k' (fd_inode f') = Some i'" "file_ok k' i'"
  shows "open_file k' fd g f' i'"
  using assms same_else_simps [OF assms(2)] by (simp add: open_file_def running_thread_def)

lemma length_content: "wf_image d \<Longrightarrow> wf_inode i \<Longrightarrow> i_size i \<le> 140 * 512 \<Longrightarrow> length (content d i) = i_size i"
  by (simp add: content_def length_file_blocks)

text \<open>A file keeps its blocks and its bytes when its sectors do.\<close>

lemma other_file:
  assumes j: "file_ok k j" and k: "wf_image (disk_image k)" "wf_image (disk_image k')"
    and u: "\<And>b. block_in_use k b \<Longrightarrow> block_in_use k' b"
    and s: "\<And>b. block_in_use k b \<Longrightarrow> b \<in> owned k j \<Longrightarrow> sectors (disk_image k') b 1 = sectors (disk_image k) b 1"
    and z: "blocks_fit k"
  shows "file_ok k' j \<and> content (disk_image k') j = content (disk_image k) j"
proof -
  let ?n = "blocks_of j" and ?fb = "file_blocks (disk_image k) j"
  have b: "blocks_ok k j ?n" using j by (simp add: file_ok_def)
  note B = blocks_okD [OF b]
  have t: "i_sectors j ! 12 \<noteq> 0 \<Longrightarrow> sectors (disk_image k') (i_sectors j ! 12) 1 = sectors (disk_image k) (i_sectors j ! 12) 1"
    using s B(3,4) by (simp add: owned_def)
  have e: "file_blocks (disk_image k') j = ?fb" using t unfolding file_blocks_def by auto
  have len: "length ?fb = 140" by (rule length_file_blocks [OF B(1)])
  have "\<forall>x \<in> set (take ?n ?fb). block_in_use k' x" "?n > 12 \<longrightarrow> block_in_use k' (i_sectors j ! 12)"
    using b u by (simp_all add: blocks_ok_def)
  then have ok: "file_ok k' j" using j b unfolding file_ok_def blocks_ok_def e by simp
  have m: "?fb ! l \<in> owned k j" if "l < ?n" for l
    using block_in_use_pos [OF z blocks_ok_nth [OF b that]] that B(2) len by (simp add: owned_def)
  have sz: "i_size j \<le> 512 * ?n"
    using j size_le_blocks [of "i_size j"] by (auto simp: file_ok_def blocks_of_def split: if_splits)
  have "content (disk_image k') j = content (disk_image k) j"
    unfolding content_def e
    by (rule take_data_cong [OF k _ _ sz]) (use len B(2) s [OF blocks_ok_nth [OF b] m] in simp_all)
  then show ?thesis using ok by simp
qed

section \<open>The calls\<close>

lemma sys_write_run:
  assumes "open_file k fd g f i" "fd_flag f AND O_WRONLY \<noteq> 0 \<or> fd_flag f AND O_RDWR \<noteq> 0"
  shows "sys_write (int fd) src k = file_write g src k"
proof -
  have "\<not> int fd < 0" "int fd \<noteq> 1" using assms(1) by (simp_all add: open_file_def)
  then show ?thesis using open_file_entry [OF assms(1)] assms(2) by (simp add: sys_write_def)
qed

lemma sys_read_run:
  assumes "open_file k fd g f i"
  shows "sys_read (int fd) cnt k = file_read g cnt k"
proof -
  have "\<not> int fd < 0" "int fd \<noteq> 0" "int fd \<noteq> 1" "int fd \<noteq> 2" using assms(1) by (simp_all add: open_file_def)
  then show ?thesis using open_file_entry [OF assms] by (simp add: sys_read_def)
qed

lemma sys_lseek_set:
  assumes "open_file k fd g f i" "p < i_size i" "i_size i < 2 ^ 31"
  shows "sys_lseek (int fd) (int p) 1 k = Inr (int p, set_file g (f\<lparr>fd_pos := p\<rparr>) k)"
proof -
  have "\<not> int p > int (i_size i) - 1" using assms(2) by simp
  then show ?thesis using open_file_entry [OF assms(1)] assms(2,3) by (simp add: sys_lseek_def s32_def Let_def)
qed

lemma write_open_file:
  assumes k: "disk_sane k" and o: "open_file k fd g f i" and w: "fd_flag f AND O_WRONLY \<noteq> 0 \<or> fd_flag f AND O_RDWR \<noteq> 0"
    and i: "i_no i < 4096" "i_size i + length src < 140 * BLOCK_SIZE"
    and free: "card (used (block_bitmap k)) + blocks_needed i (length src) \<le> nbits (block_bitmap k)"
  shows "\<exists>k' f' i'. sys_write (int fd) src k = Inr (int (length src), k') \<and> disk_sane k' \<and> open_file k' fd g f' i' \<and>
    content (disk_image k') i' = content (disk_image k) i @ src \<and> i_size i' = i_size i + length src \<and>
    fd_pos f' = sub32 (i_size i') 1 \<and> fd_flag f' = fd_flag f \<and> fd_inode f' = fd_inode f \<and>
    (\<forall>m < 4096. disk_inode k' m = (if m = i_no i then pure_inode i' else disk_inode k m)) \<and>
    (\<forall>j. file_ok k j \<and> owned k j \<inter> owned k i = {} \<longrightarrow>
       file_ok k' j \<and> content (disk_image k') j = content (disk_image k) j)"
proof -
  have K: "fs_ok k" "blocks_synced k" "blocks_fit k" "mallocs k = []" "0 \<in> used (block_bitmap k)"
    using k by (simp_all add: disk_sane_def)
  have O: "g < length (file_table k)" "file_table k ! g = f" "inodes k (fd_inode f) = Some i" "file_ok k i"
    using o by (simp_all add: open_file_def)
  obtain k' s' i' where r: "file_write g src k = Inr (int (length src), k')"
    "i' = i\<lparr>i_sectors := s', i_size := i_size i + length src\<rparr>" "inodes k' = (inodes k)(fd_inode f \<mapsto> i')"
    "file_table k' = (file_table k)[g := f\<lparr>fd_pos := sub32 (i_size i') 1\<rparr>]"
    "content (disk_image k') i' = content (disk_image k) i @ src"
    "file_ok k' i'" "fs_ok k'" "blocks_synced k'" "blocks_fit k'" "same_else k k'"
    "\<forall>m < 4096. disk_inode k' m = (if m = i_no i then pure_inode i' else disk_inode k m)"
    "\<forall>b. block_in_use k b \<and> b \<notin> set (file_blocks (disk_image k) i) \<and> b \<noteq> i_sectors i ! 12 \<longrightarrow>
       sectors (disk_image k') b 1 = sectors (disk_image k) b 1"
    using file_write_ok [OF K(1-4) O i K(5) free] by blast
  let ?f = "f\<lparr>fd_pos := sub32 (i_size i') 1\<rparr>"
  have of: "open_file k' fd g ?f i'" by (rule open_file_update [OF o r(10,4) _ _ r(6)]) (simp_all add: r(3))
  have sub: "used (block_bitmap k) \<subseteq> used (block_bitmap k')" using r(10) by (simp add: same_else_def)
  then have sane: "disk_sane k'" using r(7-9) K(4,5) same_else_simps(2) [OF r(10)] by (auto simp: disk_sane_def)
  have u: "block_in_use k b \<Longrightarrow> block_in_use k' b" for b
    using sub same_else_simps(1) [OF r(10)] by (auto simp: block_in_use_def)
  have "file_ok k' j \<and> content (disk_image k') j = content (disk_image k) j"
    if j: "file_ok k j" "owned k j \<inter> owned k i = {}" for j
  proof (rule other_file [OF j(1) fs_ok_wf [OF K(1)] fs_ok_wf [OF r(7)] u _ K(3)])
    fix b assume b: "block_in_use k b" "b \<in> owned k j"
    then have "b \<notin> owned k i" "b \<noteq> 0" using j(2) by (auto simp: owned_def)
    then show "sectors (disk_image k') b 1 = sectors (disk_image k) b 1" using r(12) b(1) by (simp add: owned_def)
  qed
  moreover have "i_size i' = i_size i + length src" using r(2) by simp
  ultimately show ?thesis using sys_write_run [OF o w] r(1,5,11) of sane
    by (intro exI [of _ k'] exI [of _ ?f] exI [of _ i']) simp
qed

section \<open>Results\<close>

text \<open>A small open file: descriptor 3 leads to entry 3 of the table, an empty file that can be written.\<close>

definition demo_file :: ofile where
  "demo_file = \<lparr>fd_pos = 0, fd_flag = O_RDWR, fd_inode = 5\<rparr>"

definition demo_open :: fsk where
  "demo_open = demo_fs\<lparr>inodes := [5 \<mapsto> inode_init 7],
     block_bitmap := \<lparr>btmp_bytes_len = 512, bits = 1 # replicate 511 0\<rparr>,
     disk_image := \<lambda>s. if s = 2050 then 1 # replicate 511 0 else replicate 512 0,
     file_table := (replicate 32 \<lparr>fd_pos = 0, fd_flag = 0, fd_inode = 0\<rparr>)[3 := demo_file],
     fd_table := \<lambda>t. [0, 1, 2, 3, -1, -1, -1, -1]\<rparr>"

lemma demo_open_used: "used (block_bitmap demo_open) = {0}"
proof -
  have "bit_at (block_bitmap demo_open) j \<longleftrightarrow> j = 0" if "j < 4096" for j
  proof (cases "j div 8 = 0")
    case True
    then have "j < 8" by (simp add: div_eq_0_iff)
    then show ?thesis by (simp add: demo_open_def bit_at_def bit_1_iff)
  next
    case False
    then have "(1 # replicate 511 (0 :: u8)) ! (j div 8) = 0" using that by (simp add: nth_Cons')
    then show ?thesis using False by (auto simp: demo_open_def bit_at_def)
  qed
  then show ?thesis by (auto simp: demo_open_def used_def nbits_def)
qed

lemma demo_open_ok: "disk_sane demo_open" "open_file demo_open 3 3 demo_file (inode_init 7)"
proof -
  have "fs_ok demo_open" "blocks_synced demo_open" "blocks_fit demo_open"
    by (simp_all add: demo_open_def fs_ok_def table_ok_def wf_image_def wf_bitmap_def demo_sb_def blocks_synced_def
        blocks_fit_def nbits_def sectors_def)
  then show "disk_sane demo_open" using demo_open_used by (simp add: disk_sane_def demo_open_def)
  have "file_ok demo_open (inode_init 7)"
    by (simp add: file_ok_def blocks_of_def blocks_ok_def file_blocks_def inode_init_def wf_inode_def)
  then show "open_file demo_open 3 3 demo_file (inode_init 7)"
    by (simp add: open_file_def demo_open_def demo_file_def running_thread_def)
qed

text \<open>Two bytes can be written to it.\<close>

lemma demo_open_room:
  "fd_flag demo_file AND O_WRONLY \<noteq> 0 \<or> fd_flag demo_file AND O_RDWR \<noteq> 0" "i_no (inode_init 7) < 4096"
  "i_size (inode_init 7) + length [104, 105 :: u8] < 139 * BLOCK_SIZE"
  "card (used (block_bitmap demo_open)) + blocks_needed (inode_init 7) (length [104, 105 :: u8]) \<le> nbits (block_bitmap demo_open)"
  "content (disk_image demo_open) (inode_init 7) = []" "i_size (inode_init 7) = 0"
proof -
  show "card (used (block_bitmap demo_open)) + blocks_needed (inode_init 7) (length [104, 105 :: u8]) \<le> nbits (block_bitmap demo_open)"
    unfolding demo_open_used by (simp add: blocks_needed_def blocks_of_def inode_init_def nbits_def demo_open_def)
qed (simp_all add: demo_file_def inode_init_def content_def)

text \<open>
  C5: \<open>sys_write\<close> appends. On an open regular file of a sound file system with enough free
  blocks, when the heap has memory, a write of any length that keeps the file below its limit (whether it fits the last
  block, needs direct blocks, the indirect table, or starts an empty file) returns the number
  of bytes; the bytes of the file are then the old ones followed by the new ones, the i-node on
  the disk says so, the file system and the file are sound again, the position is one before the
  end, and every other file, whose blocks are not those of this one, has the bytes it had.
\<close>

theorem sys_write_appends:
  assumes "disk_sane k" "open_file k fd g f i" "fd_flag f AND O_WRONLY \<noteq> 0 \<or> fd_flag f AND O_RDWR \<noteq> 0"
    "i_no i < 4096" "i_size i + length src < 140 * BLOCK_SIZE"
    "card (used (block_bitmap k)) + blocks_needed i (length src) \<le> nbits (block_bitmap k)"
  shows "\<exists>k' f' i'. sys_write (int fd) src k = Inr (int (length src), k') \<and> disk_sane k' \<and> open_file k' fd g f' i' \<and>
    content (disk_image k') i' = content (disk_image k) i @ src \<and> i_size i' = i_size i + length src \<and>
    fd_pos f' = sub32 (i_size i') 1 \<and>
    (\<forall>m < 4096. disk_inode k' m = (if m = i_no i then pure_inode i' else disk_inode k m)) \<and>
    (\<forall>j. file_ok k j \<and> owned k j \<inter> owned k i = {} \<longrightarrow>
       file_ok k' j \<and> content (disk_image k') j = content (disk_image k) j)"
  using write_open_file [OF assms] by blast

lemma sys_write_appends_witness:
  "\<exists>k' f' i'. sys_write 3 [104, 105] demo_open = Inr (2, k') \<and> open_file k' 3 3 f' i' \<and>
     content (disk_image k') i' = [104, 105] \<and> fd_pos f' = 1"
proof -
  have "i_size (inode_init 7) + length [104, 105 :: u8] < 140 * BLOCK_SIZE" using demo_open_room(3) by simp
  from sys_write_appends [OF demo_open_ok demo_open_room(1,2) this demo_open_room(4)] obtain k' f' i' where
    "sys_write (int 3) [104, 105] demo_open = Inr (int (length [104, 105 :: u8]), k')" "open_file k' 3 3 f' i'"
    "content (disk_image k') i' = content (disk_image demo_open) (inode_init 7) @ [104, 105]"
    "i_size i' = i_size (inode_init 7) + length [104, 105 :: u8]" "fd_pos f' = sub32 (i_size i') 1" by blast
  then show ?thesis using demo_open_room(5,6) by (auto simp: sub32_def)
qed

text \<open>
  C7: \<open>sys_read\<close> delivers the bytes of the file. On an open regular file of a sound file system, when
  the heap has memory, it returns from the position on as many bytes as were asked for and as
  there are, across direct blocks and the indirect table, moves the position behind them and
  changes nothing else; at the end of the file it returns -1. The exception is a read that ends at
  byte 71168 or behind it (139 blocks): there an \<open>ASSERT\<close> of \<open>file_read\<close> stops the kernel, although a
  file can grow to 140 blocks. (The position and the count together stay below \<open>2 ^ 32\<close>, and the
  position is not behind the end.)
\<close>

theorem sys_read_delivers:
  assumes "disk_sane k" "open_file k fd g f i" "fd_pos f \<le> i_size i" "fd_pos f + cnt < 2 ^ 32"
    "n = min cnt (i_size i - fd_pos f)"
  shows "sys_read (int fd) cnt k =
    (if cnt > 0 \<and> fd_pos f = i_size i then Inr (-1, [], k)
     else if 139 * BLOCK_SIZE \<le> fd_pos f + n
     then Inl (Panic ''block_read_start_idx < 139 && block_read_end_idx < 139'')
     else Inr (int n, take n (drop (fd_pos f) (content (disk_image k) i)),
       if n = 0 then k else set_file g (f\<lparr>fd_pos := fd_pos f + n\<rparr>) k))"
proof -
  have K: "fs_ok k" "blocks_fit k" "mallocs k = []" using assms(1) by (simp_all add: disk_sane_def)
  have O: "g < length (file_table k)" "file_table k ! g = f" "inodes k (fd_inode f) = Some i" "file_ok k i"
    using assms(2) by (simp_all add: open_file_def)
  show ?thesis
  proof (cases "cnt > 0 \<and> fd_pos f = i_size i")
    case True
    have "(fd_pos f + cnt) mod 4294967296 = fd_pos f + cnt" using assms(4) by simp
    moreover have "sub32 (i_size i) (fd_pos f) = 0" using True by (simp add: sub32_def)
    ultimately show ?thesis using True sys_read_run [OF assms(2)] O
      by (simp add: file_read_def get_file_def get_inode_def Let_def)
  next
    case False
    then have "cnt = 0 \<or> fd_pos f < i_size i" using assms(3) by linarith
    from file_read_ok [OF K O assms(3,4) this assms(5)] show ?thesis
      using False sys_read_run [OF assms(2)] by simp
  qed
qed

text \<open>The same file with five bytes in block 2661, opened for reading, at position 1.\<close>

definition demo_text_inode :: inode where
  "demo_text_inode = (inode_init 7)\<lparr>i_size := 5, i_sectors := 2661 # replicate 12 0\<rparr>"

definition demo_text :: fsk where
  "demo_text = demo_open\<lparr>inodes := [5 \<mapsto> demo_text_inode],
     block_bitmap := \<lparr>btmp_bytes_len = 512, bits = 3 # replicate 511 0\<rparr>,
     disk_image := \<lambda>s. if s = 2050 then 3 # replicate 511 0
       else if s = 2661 then [104, 101, 108, 108, 111] @ replicate 507 0 else replicate 512 0,
     file_table := (replicate 32 \<lparr>fd_pos = 0, fd_flag = 0, fd_inode = 0\<rparr>)[3 := demo_file\<lparr>fd_pos := 1\<rparr>]\<rparr>"

lemma demo_text_ok:
  "disk_sane demo_text" "open_file demo_text 3 3 (demo_file\<lparr>fd_pos := 1\<rparr>) demo_text_inode"
  "content (disk_image demo_text) demo_text_inode = [104, 101, 108, 108, 111]"
proof -
  have "0 \<in> used (block_bitmap demo_text)" "1 \<in> used (block_bitmap demo_text)"
    by (simp_all add: demo_text_def used_def nbits_def bit_at_def)
  moreover have "fs_ok demo_text" "blocks_synced demo_text" "blocks_fit demo_text"
    by (simp_all add: demo_text_def demo_open_def fs_ok_def table_ok_def wf_image_def wf_bitmap_def demo_sb_def
        blocks_synced_def blocks_fit_def nbits_def sectors_def)
  ultimately show "disk_sane demo_text" by (simp add: disk_sane_def demo_text_def demo_open_def)
  have fb: "file_blocks (disk_image demo_text) demo_text_inode = 2661 # replicate 139 0"
    by (simp add: file_blocks_def demo_text_inode_def replicate_add [symmetric] numeral_eq_Suc)
  have "block_in_use demo_text 2661"
    using \<open>1 \<in> used (block_bitmap demo_text)\<close> by (simp add: block_in_use_def demo_text_def demo_open_def demo_sb_def)
  then have "file_ok demo_text demo_text_inode"
    by (simp add: file_ok_def blocks_of_def blocks_ok_def fb) (simp add: demo_text_inode_def wf_inode_def inode_init_def)
  then show "open_file demo_text 3 3 (demo_file\<lparr>fd_pos := 1\<rparr>) demo_text_inode"
    by (simp add: open_file_def demo_text_def demo_open_def demo_file_def running_thread_def)
  show "content (disk_image demo_text) demo_text_inode = [104, 101, 108, 108, 111]"
    unfolding content_def fb by (simp add: data_def demo_text_inode_def sectors_def) (simp add: demo_text_def)
qed

lemma sys_read_delivers_witness:
  "sys_read 3 3 demo_text =
     Inr (3, [101, 108, 108], set_file 3 (demo_file\<lparr>fd_pos := 4\<rparr>) demo_text) \<and>
   sys_read 3 100 demo_text =
     Inr (4, [101, 108, 108, 111], set_file 3 (demo_file\<lparr>fd_pos := 5\<rparr>) demo_text)"
proof -
  have s: "i_size demo_text_inode = 5" by (simp add: demo_text_inode_def)
  have e: "fd_pos (demo_file\<lparr>fd_pos := p\<rparr>) = p" "demo_file\<lparr>fd_pos := p, fd_pos := q\<rparr> = demo_file\<lparr>fd_pos := q\<rparr>" for p q
    by simp_all
  have "fd_pos (demo_file\<lparr>fd_pos := 1\<rparr>) \<le> i_size demo_text_inode" "fd_pos (demo_file\<lparr>fd_pos := 1\<rparr>) + 3 < 2 ^ 32"
    "fd_pos (demo_file\<lparr>fd_pos := 1\<rparr>) + 100 < 2 ^ 32" "3 = min 3 (i_size demo_text_inode - fd_pos (demo_file\<lparr>fd_pos := 1\<rparr>))"
    "4 = min 100 (i_size demo_text_inode - fd_pos (demo_file\<lparr>fd_pos := 1\<rparr>))"
    by (simp_all add: s)
  note r = sys_read_delivers [OF demo_text_ok(1,2) this(1,2,4), unfolded e s demo_text_ok(3)]
    sys_read_delivers [OF demo_text_ok(1,2) this(1,3,5), unfolded e s demo_text_ok(3)]
  have t: "int 3 = 3" "int 4 = 4" "take 3 (drop 1 [104, 101, 108, 108, 111 :: u8]) = [101, 108, 108]"
    "take 4 (drop 1 [104, 101, 108, 108, 111 :: u8]) = [101, 108, 108, 111]" "1 + 3 = (4 :: nat)" "1 + 4 = (5 :: nat)"
    by simp_all
  have f: "(0 < (3 :: nat) \<and> 1 = (5 :: nat)) = False" "(0 < (100 :: nat) \<and> 1 = (5 :: nat)) = False"
    "(139 * BLOCK_SIZE \<le> 4) = False" "(139 * BLOCK_SIZE \<le> 5) = False" "(3 = (0 :: nat)) = False" "(4 = (0 :: nat)) = False"
    by simp_all
  show ?thesis using r unfolding t f if_False by (intro conjI)
qed

text \<open>
  C6: What is written can be read back. After \<open>sys_write\<close> of some bytes (at least one) to an open
  file that may be written, \<open>sys_lseek\<close> to where the file ended before and \<open>sys_read\<close> of the same
  length return exactly these bytes, when there are free blocks enough, the heap has memory and
  the file stays below 139 blocks (71168 bytes; a read up to or behind that byte stops the kernel,
  see the claim on \<open>sys_read\<close>).
\<close>

theorem write_seek_read:
  assumes "disk_sane k" "open_file k fd g f i" "fd_flag f AND O_WRONLY \<noteq> 0 \<or> fd_flag f AND O_RDWR \<noteq> 0"
    "i_no i < 4096" "i_size i + length src < 139 * BLOCK_SIZE" "src \<noteq> []"
    "card (used (block_bitmap k)) + blocks_needed i (length src) \<le> nbits (block_bitmap k)"
  shows "\<exists>k1 k2 k3. sys_write (int fd) src k = Inr (int (length src), k1) \<and>
    sys_lseek (int fd) (int (i_size i)) 1 k1 = Inr (int (i_size i), k2) \<and>
    sys_read (int fd) (length src) k2 = Inr (int (length src), src, k3)"
proof -
  have "i_size i + length src < 140 * BLOCK_SIZE" using assms(5) by simp
  then obtain k1 f1 i1 where w: "sys_write (int fd) src k = Inr (int (length src), k1)" "disk_sane k1" "open_file k1 fd g f1 i1"
    "content (disk_image k1) i1 = content (disk_image k) i @ src" "i_size i1 = i_size i + length src"
    using write_open_file [OF assms(1-4) _ assms(7)] by blast
  have lt: "i_size i < i_size i1" "i_size i1 < 2 ^ 31" using w(5) assms(5,6) by simp_all
  let ?f2 = "f1\<lparr>fd_pos := i_size i\<rparr>"
  define k2 where "k2 = set_file g ?f2 k1"
  have s: "sys_lseek (int fd) (int (i_size i)) 1 k1 = Inr (int (i_size i), k2)"
    unfolding k2_def by (rule sys_lseek_set [OF w(3) lt])
  have k2: "disk_sane k2" using w(2) by (simp add: k2_def disk_sane_def)
  have fok: "file_ok k2 i1" using w(3) by (simp add: open_file_def file_ok_def blocks_ok_def k2_def)
  have o2: "open_file k2 fd g ?f2 i1"
    unfolding k2_def
    by (rule open_file_update [OF w(3) same_else_updates(1)]) (use w(3) fok in \<open>simp_all add: open_file_def k2_def set_file_def\<close>)
  have O: "g < length (file_table k2)" "file_table k2 ! g = ?f2" "inodes k2 (fd_inode ?f2) = Some i1" "file_ok k2 i1"
    using o2 by (simp_all add: open_file_def)
  have K: "fs_ok k2" "blocks_fit k2" "mallocs k2 = []" using k2 by (simp_all add: disk_sane_def)
  have P: "fd_pos ?f2 \<le> i_size i1" "fd_pos ?f2 + length src < 2 ^ 32" "i_size i1 < 139 * 512"
    "length src = 0 \<or> fd_pos ?f2 < i_size i1" "\<not> 139 * 512 \<le> fd_pos ?f2 + length src" "length src = min (length src) (i_size i1 - fd_pos ?f2)"
    using w(5) assms(5) lt by simp_all
  have r: "sys_read (int fd) (length src) k2 = Inr (int (length src), take (length src) (drop (i_size i) (content (disk_image k2) i1)),
      if length src = 0 then k2 else set_file g (?f2\<lparr>fd_pos := i_size i + length src\<rparr>) k2)"
    using sys_read_run [OF o2] file_read_ok [OF K O P(1,2,4,6)] P(5) by simp
  have "wf_image (disk_image k)" "wf_inode i" "i_size i \<le> 140 * 512"
    using assms(1,2,5) fs_ok_wf by (simp_all add: disk_sane_def open_file_def file_ok_def blocks_ok_def)
  then have "length (content (disk_image k) i) = i_size i" by (rule length_content)
  then have "take (length src) (drop (i_size i) (content (disk_image k2) i1)) = src" using w(4) by (simp add: k2_def)
  then show ?thesis using w(1) s r by simp
qed

lemma write_seek_read_witness:
  "\<exists>k1 k2 k3. sys_write 3 [104, 105] demo_open = Inr (2, k1) \<and> sys_lseek 3 0 1 k1 = Inr (0, k2) \<and>
     sys_read 3 2 k2 = Inr (2, [104, 105], k3)"
proof -
  have "[104, 105 :: u8] \<noteq> []" by simp
  from write_seek_read [OF demo_open_ok demo_open_room(1-3) this demo_open_room(4)]
  have "\<exists>k1 k2 k3. sys_write (int 3) [104, 105] demo_open = Inr (int (length [104, 105 :: u8]), k1) \<and>
    sys_lseek (int 3) (int (i_size (inode_init 7))) 1 k1 = Inr (int (i_size (inode_init 7)), k2) \<and>
    sys_read (int 3) (length [104, 105 :: u8]) k2 = Inr (int (length [104, 105 :: u8]), [104, 105], k3)" .
  moreover have "length [104, 105 :: u8] = 2" "int 3 = 3" "int 2 = 2" "int 0 = 0" by simp_all
  ultimately show ?thesis unfolding demo_open_room(6) by metis
qed

end
