(* ===== verification/Fdtype.thy ===== *)
theory Fdtype
  imports Fs
begin

text \<open>
  The types of the file descriptors. An entry of a thread's descriptor table is -1 or an index
  of the table of open files; every system call on descriptors keeps it so, on every path
  through it.
\<close>

section \<open>What does not touch the tables\<close>

abbreviation same_fds :: "fsk \<Rightarrow> fsk \<Rightarrow> bool" where
  "same_fds k k' \<equiv> fd_table k' = fd_table k \<and> length (file_table k') = length (file_table k)"

lemma fds_updates [simp]:
  "fd_table (set_inode a i k) = fd_table k" "file_table (set_inode a i k) = file_table k"
  "fd_table (set_dir a d k) = fd_table k" "file_table (set_dir a d k) = file_table k"
  "fd_table (set_file fd f k) = fd_table k" "length (file_table (set_file fd f k)) = length (file_table k)"
  by (simp_all add: set_inode_def set_file_def set_dir_def)

named_theorems keeps \<open>routines that leave the descriptors alone\<close>

lemma heap_reply_keeps [simp]: "fd_table (snd (heap_reply k)) = fd_table k" "file_table (snd (heap_reply k)) = file_table k"
  by (simp_all add: heap_reply_def split: list.splits)

lemma disk_write_keeps [keeps]: "disk_write lba bs n k = Inr k' \<Longrightarrow> same_fds k k'"
  by (auto simp: disk_write_def res_simps)

lemma inode_sync_keeps_fds [keeps]: "inode_sync i k = Inr k' \<Longrightarrow> same_fds k k'"
  by (auto simp: inode_sync_def res_simps dest!: keeps)

lemma inode_open_keeps [keeps]: "inode_open n k = Inr (a, k') \<Longrightarrow> same_fds k k'"
  by (auto simp: inode_open_def res_simps Let_def split_beta split: option.splits dest!: keeps)

lemma inode_close_keeps [keeps]: "inode_close a k = Inr k' \<Longrightarrow> same_fds k k'"
  by (auto simp: inode_close_def res_simps Let_def)

lemma bitmap_sync_keeps [keeps]: "bitmap_sync n t k = Inr k' \<Longrightarrow> same_fds k k'"
  by (auto simp: bitmap_sync_def res_simps Let_def dest!: keeps split: bitmap_type.splits)

lemma inode_bitmap_alloc_keeps [keeps]: "inode_bitmap_alloc k = Inr (r, k') \<Longrightarrow> same_fds k k'"
  by (clarsimp simp: inode_bitmap_alloc_def bnd_eq_Inr, case_tac "x = - 1"; clarsimp simp: bnd_eq_Inr)

lemma block_bitmap_alloc_keeps [keeps]: "block_bitmap_alloc k = Inr (r, k') \<Longrightarrow> same_fds k k'"
  by (clarsimp simp: block_bitmap_alloc_def bnd_eq_Inr, case_tac "x = - 1"; clarsimp simp: bnd_eq_Inr)

lemma new_block_keeps [keeps]: "new_block p k = Inr (r, k') \<Longrightarrow> same_fds k k'"
  by (auto simp: new_block_def res_simps Let_def split: if_splits dest!: keeps)

lemma set_sector_keeps [keeps]: "set_sector a j lba k = Inr k' \<Longrightarrow> same_fds k k'"
  by (auto simp: set_sector_def res_simps)

lemma add_size_keeps [keeps]: "add_size a n k = Inr k' \<Longrightarrow> same_fds k k'"
  by (auto simp: add_size_def res_simps)

lemma write_table_keeps [keeps]: "write_table a all k = Inr k' \<Longrightarrow> same_fds k k'"
  by (auto simp: write_table_def res_simps dest!: keeps)

lemma dir_open_keeps [keeps]: "dir_open n k = Inr (d, k') \<Longrightarrow> same_fds k k'"
  by (auto simp: dir_open_def res_simps Let_def split_beta dest!: keeps)

lemma dir_close_keeps [keeps]: "dir_close a k = Inr k' \<Longrightarrow> same_fds k k'"
  by (auto simp: dir_close_def res_simps split: if_splits dest!: keeps)

lemma search_dir_entry_keeps [keeps]: "search_dir_entry pd nm k = Inr (e, k') \<Longrightarrow> same_fds k k'"
  by (auto simp: search_dir_entry_def res_simps Let_def split_beta split: if_splits dest!: keeps)

lemma attach_block_keeps [keeps]: "attach_block a all idx k = Inr (r, k') \<Longrightarrow> same_fds k k'"
  by (auto simp: attach_block_def res_simps Let_def split: if_splits dest!: keeps)

lemma sync_blocks_keeps [keeps]: "sync_blocks a e all todo k = Inr (r, k') \<Longrightarrow> same_fds k k'"
proof (induction todo arbitrary: all k)
  case Nil
  then show ?case by simp
next
  case (Cons idx todo)
  then show ?case
    by (cases "all ! idx = 0") (auto simp: res_simps split: option.splits dest!: keeps)
qed

lemma sync_dir_entry_keeps [keeps]: "sync_dir_entry d e k = Inr (r, k') \<Longrightarrow> same_fds k k'"
  by (auto simp: sync_dir_entry_def res_simps dest!: keeps)

lemma search_from_keeps: "search_from nm p r parent_no e_no k = Inr (n, r', k') \<Longrightarrow> same_fds k k'"
proof (induction nm p r parent_no e_no k rule: search_from.induct)
  case (1 nm p r parent_no e_no k)
  show ?case
  proof (cases "nm = []")
    case True
    then show ?thesis using 1(3)
      by (subst (asm) search_from.simps) (auto simp: res_simps split: option.splits dest!: keeps)
  next
    case False
    note ih = 1(1) [OF False refl refl] 1(2) [OF False refl refl]
    from 1(3) False obtain found k1 where s: "search_dir_entry (psr_parent_dir r) nm k = Inr (found, k1)"
      by (subst (asm) search_from.simps) (auto simp: res_simps Let_def)
    have k1: "same_fds k k1" using s by (rule keeps)
    show ?thesis
    proof (cases found)
      case None
      then show ?thesis using 1(3) False s k1 by (subst (asm) search_from.simps) (auto simp: res_simps Let_def)
    next
      case (Some e)
      consider "f_type e = ft_code FT_DIRECTORY" | "f_type e \<noteq> ft_code FT_DIRECTORY" "f_type e = ft_code FT_REGULAR"
        | "f_type e \<noteq> ft_code FT_DIRECTORY" "f_type e \<noteq> ft_code FT_REGULAR" by blast
      then show ?thesis
      proof cases
        case 1
        then show ?thesis using \<open>search_from nm p r parent_no e_no k = Inr (n, r', k')\<close> False s k1 Some
          by (subst (asm) search_from.simps) (auto simp: res_simps Let_def dest!: ih(1) [OF 1] dest!: keeps)
      next
        case 2
        then show ?thesis using 1(3) False s k1 Some
          by (subst (asm) search_from.simps) (auto simp: res_simps Let_def)
      next
        case 3
        then show ?thesis using 1(3) False s k1 Some
          by (subst (asm) search_from.simps) (auto simp: res_simps Let_def dest!: ih(2) [OF 3])
      qed
    qed
  qed
qed

lemma search_file_keeps [keeps]: "search_file nm r k = Inr (n, r', k') \<Longrightarrow> same_fds k k'"
  using search_from_keeps by (auto simp: search_file_def res_simps Let_def split: if_splits prod.splits)

lemma grow_blocks_keeps [keeps]: "grow_blocks a all todo k = Inr (r, k') \<Longrightarrow> same_fds k k'"
proof (induction todo arbitrary: all k)
  case Nil
  then show ?case by simp
next
  case (Cons idx todo)
  from Cons.prems obtain b k1 where n: "new_block (\<lambda>idx. True) k = Inr (b, k1)" by (auto simp: res_simps)
  show ?case
  proof (cases "b = - 1")
    case True
    then show ?thesis using Cons.prems n new_block_keeps [OF n] by simp
  next
    case False
    then show ?thesis using Cons.prems n new_block_keeps [OF n]
      by (cases "idx < 12") (auto simp: res_simps dest!: Cons.IH dest: set_sector_keeps)
  qed
qed

lemma grow_table_keeps [keeps]: "grow_table a t all todo k = Inr (r, k') \<Longrightarrow> same_fds k k'"
proof -
  assume a: "grow_table a t all todo k = Inr (r, k')"
  then obtain r1 k1 where g: "grow_blocks a all todo k = Inr (r1, k1)" by (auto simp: grow_table_def bnd_eq_Inr)
  show ?thesis using a g grow_blocks_keeps [OF g]
    by (cases r1) (auto simp: grow_table_def bnd_eq_Inr dest!: disk_write_keeps)
qed

lemma collect_blocks_keeps [keeps]: "collect_blocks a has will k = Inr (r, k') \<Longrightarrow> same_fds k k'"
proof -
  assume a: "collect_blocks a has will k = Inr (r, k')"
  then obtain i where i: "get_inode a k = Inr i" by (auto simp: collect_blocks_def res_simps)
  consider "sub32 will has = 0" | "sub32 will has \<noteq> 0" "will \<le> 12" | "sub32 will has \<noteq> 0" "\<not> will \<le> 12" "has \<le> 12"
    | "sub32 will has \<noteq> 0" "\<not> will \<le> 12" "\<not> has \<le> 12" by blast
  then show ?thesis
  proof cases
    case 1
    then show ?thesis using a i by (cases "will \<le> 12") (auto simp: collect_blocks_def res_simps Let_def)
  next
    case 2
    then show ?thesis using a i by (auto simp: collect_blocks_def res_simps Let_def dest!: grow_blocks_keeps)
  next
    case 3
    then obtain b k1 where n: "new_block (\<lambda>idx. True) k = Inr (b, k1)"
      using a i by (auto simp: collect_blocks_def res_simps Let_def)
    show ?thesis
    proof (cases "b = - 1")
      case True
      then show ?thesis using a i n 3 new_block_keeps [OF n] by (simp add: collect_blocks_def Let_def)
    next
      case False
      then show ?thesis using a i n 3 new_block_keeps [OF n]
        by (auto simp: collect_blocks_def res_simps Let_def dest!: set_sector_keeps grow_table_keeps)
    qed
  next
    case 4
    then show ?thesis using a i by (auto simp: collect_blocks_def res_simps Let_def dest!: grow_table_keeps)
  qed
qed

lemma write_chunks_keeps [keeps]: "write_chunks fd all first src k = Inr k' \<Longrightarrow> same_fds k k'"
proof (induction fd all first src k rule: write_chunks.induct)
  case (1 fd all first src k)
  show ?case
  proof (cases "src = []")
    case True
    then show ?thesis using 1(2) by (simp add: write_chunks.simps)
  next
    case False
    obtain f i where fi: "get_file fd k = Inr f" "get_inode (fd_inode f) k = Inr i"
      using 1(2) False by (subst (asm) write_chunks.simps) (auto simp: res_simps)
    note ih = 1(1) [OF False refl refl refl, simplified]
    show ?thesis using 1(2) False fi
      by (subst (asm) write_chunks.simps) (auto simp: res_simps Let_def dest!: ih dest: disk_write_keeps)
  qed
qed

lemma read_chunks_keeps [keeps]: "read_chunks fd all n k = Inr (bs, k') \<Longrightarrow> same_fds k k'"
proof (induction fd all n k arbitrary: bs rule: read_chunks.induct)
  case (1 fd all n k)
  show ?case
  proof (cases "n = 0")
    case True
    then show ?thesis using 1(2) by (simp add: read_chunks.simps)
  next
    case False
    note ih = 1(1) [OF False refl refl refl, simplified]
    show ?thesis using 1(2) False
      by (subst (asm) read_chunks.simps) (auto simp: res_simps Let_def dest!: ih)
  qed
qed

lemma heap_reply_same: "heap_reply k = (ok, k') \<Longrightarrow> same_fds k k'"
  using heap_reply_keeps [of k] by simp

lemma file_write_keeps [keeps]: "file_write fd src k = Inr (n, k') \<Longrightarrow> same_fds k k'"
proof -
  assume w: "file_write fd src k = Inr (n, k')"
  then obtain f i where fi: "get_file fd k = Inr f" "get_inode (fd_inode f) k = Inr i"
    by (auto simp: file_write_def bnd_eq_Inr Let_def)
  obtain ok1 k1 ok2 k2 where h: "heap_reply k = (ok1, k1)" "heap_reply k1 = (ok2, k2)" by (metis surj_pair)
  have k2: "same_fds k k2" "same_fds k k1" using heap_reply_same [OF h(1)] heap_reply_same [OF h(2)] by simp_all
  show ?thesis
  proof (cases "(i_size i + length src) mod 2 ^ 32 > 140 * BLOCK_SIZE \<or> \<not> ok1 \<or> \<not> ok2")
    case True
    then show ?thesis using w fi h k2 by (auto simp: file_write_def Let_def split: if_splits)
  next
    case False
    let ?first = "if i_sectors i ! 0 = 0
               then bnd (new_block (\<lambda>idx. idx \<noteq> 0) k2) (\<lambda>(block_lba, k).
                    if block_lba = -1 then Inr (False, k)
                    else bnd (set_sector (fd_inode f) 0 (nat block_lba) k) (\<lambda>k. Inr (True, k)))
               else Inr (True, k2)"
    obtain ok k3 where b: "?first = Inr (ok, k3)"
      using w fi False h by (auto simp: file_write_def Let_def bnd_eq_Inr split: if_splits)
    have k3: "same_fds k k3"
    proof (cases "i_sectors i ! 0 = 0")
      case True
      then obtain lba k4 where n: "new_block (\<lambda>idx. idx \<noteq> 0) k2 = Inr (lba, k4)" using b by (auto simp: bnd_eq_Inr)
      show ?thesis using b True n new_block_keeps [OF n] k2
        by (cases "lba = - 1") (auto simp: bnd_eq_Inr dest!: set_sector_keeps)
    qed (use b k2 in auto)
    show ?thesis
    proof (cases ok)
      case t: True
      have b': "?first = Inr (True, k3)" using b t by simp
      obtain r k5 where c: "collect_blocks (fd_inode f) (i_size i div BLOCK_SIZE + 1)
          ((i_size i + length src) mod 2 ^ 32 div BLOCK_SIZE + 1) k3 = Inr (r, k5)"
        using w fi False h b' by (auto simp: file_write_def Let_def res_simps split: if_splits)
      show ?thesis
      proof (cases r)
        case None
        then show ?thesis using w fi False h b' c k3 collect_blocks_keeps [OF c]
          by (simp add: file_write_def Let_def res_simps split: if_splits)
      next
        case (Some all)
        then show ?thesis using w fi False h b' c k3 collect_blocks_keeps [OF c]
          by (auto simp: file_write_def Let_def res_simps split: if_splits dest!: write_chunks_keeps inode_sync_keeps_fds)
      qed
    next
      case f: False
      have b': "?first = Inr (False, k3)" using b f by simp
      show ?thesis using w fi False h b' k3 by (simp add: file_write_def Let_def split: if_splits)
    qed
  qed
qed

lemma file_read_keeps [keeps]: "file_read fd cnt k = Inr (n, bs, k') \<Longrightarrow> same_fds k k'"
  by (auto simp: file_read_def bnd_eq_Inr ASSERT_eq_Inr Let_def split_beta split: if_splits dest!: read_chunks_keeps)

text \<open>The ring buffers only change the part of the state that belongs to the threads.\<close>

lemma thread_unblock_more: "thread_unblock t k = Inr k' \<Longrightarrow> kernel.more k' = kernel.more k"
  by (auto simp: thread_unblock_def res_simps Let_def split: if_splits)

lemma take_bytes_more: "take_bytes n q k = Inr (bs, q', k') \<Longrightarrow> kernel.more k' = kernel.more k"
proof (induction n arbitrary: q k bs)
  case 0
  then show ?case by simp
next
  case (Suc n)
  from Suc.prems obtain r q1 k1 where g: "ioq_getchar q k = Inr (r, q1, k1)" by (auto simp: bnd_eq_Inr)
  show ?case
  proof (cases r)
    case None
    then show ?thesis using Suc.prems g by simp
  next
    case (Some b)
    then have "kernel.more k1 = kernel.more k" using g
      by (auto simp: ioq_getchar_def ioq_getchar_loop_def wakeup_def res_simps Let_def split: if_splits option.splits
          dest!: thread_unblock_more)
    then show ?thesis using Suc.prems g Some by (auto simp: bnd_eq_Inr dest!: Suc.IH)
  qed
qed

lemma put_bytes_more: "put_bytes bs q k = Inr (q', k') \<Longrightarrow> kernel.more k' = kernel.more k"
proof (induction bs arbitrary: q k)
  case Nil
  then show ?case by simp
next
  case (Cons b bs)
  from Cons.prems obtain r q1 k1 where g: "ioq_putchar b q k = Inr (r, q1, k1)" by (auto simp: bnd_eq_Inr)
  show ?case
  proof (cases r)
    case False
    then show ?thesis using Cons.prems g by simp
  next
    case True
    then have "kernel.more k1 = kernel.more k" using g
      by (auto simp: ioq_putchar_def ioq_putchar_loop_def wakeup_def res_simps Let_def split: if_splits option.splits
          dest!: thread_unblock_more)
    then show ?thesis using Cons.prems g True by (auto simp: bnd_eq_Inr dest!: Cons.IH)
  qed
qed

lemma more_fds: "kernel.more k' = kernel.more k \<Longrightarrow> same_fds k k'"
  by (cases k; cases k'; simp)

lemma pipe_read_keeps [keeps]: "pipe_read fd n k = Inr (m, bs, k') \<Longrightarrow> same_fds k k'"
  by (auto simp: pipe_read_def bnd_eq_Inr Let_def split: if_splits dest!: take_bytes_more more_fds)

lemma pipe_write_keeps [keeps]: "pipe_write fd bs k = Inr (m, k') \<Longrightarrow> same_fds k k'"
  by (auto simp: pipe_write_def bnd_eq_Inr Let_def split: if_splits dest!: put_bytes_more more_fds)

lemma sys_read_keeps: "sys_read fd n k = Inr (m, bs, k') \<Longrightarrow> same_fds k k'"
  by (auto simp: sys_read_def bnd_eq_Inr Let_def split: if_splits
      dest!: take_bytes_more more_fds pipe_read_keeps file_read_keeps)

lemma sys_write_keeps: "sys_write fd bs k = Inr (m, k') \<Longrightarrow> same_fds k k'"
  by (auto simp: sys_write_def bnd_eq_Inr GUARD_eq_Inr Let_def split: if_splits dest!: pipe_write_keeps file_write_keeps)

lemma sys_lseek_keeps: "sys_lseek fd off wh k = Inr (m, k') \<Longrightarrow> same_fds k k'"
  by (auto simp: sys_lseek_def res_simps Let_def split: if_splits)

section \<open>The type of a descriptor\<close>

definition fd_typed :: "int \<Rightarrow> bool" where
  "fd_typed x \<longleftrightarrow> -1 \<le> x \<and> x < int MAX_FILES_OPEN"

definition fds_typed :: "fsk \<Rightarrow> bool" where
  "fds_typed k \<longleftrightarrow> length (file_table k) = MAX_FILES_OPEN \<and>
     (\<forall>t. length (fd_table k t) = MAX_FILES_OPEN_PER_PROC \<and> (\<forall>x \<in> set (fd_table k t). fd_typed x))"

lemma fds_typed_same: "same_fds k k' \<Longrightarrow> fds_typed k' = fds_typed k"
  by (simp add: fds_typed_def)

lemma fds_typed_put:
  assumes "fds_typed k" "fd_typed x" "length (file_table k') = length (file_table k)"
    "fd_table k' = (fd_table k)(c := (fd_table k c)[i := x])"
  shows "fds_typed k'"
  using assms set_update_subset_insert [of "fd_table k c" i x] by (auto simp: fds_typed_def)

lemma free_slot_typed: "get_free_slot_in_global k \<noteq> - 1 \<Longrightarrow> fd_typed (get_free_slot_in_global k)"
  by (auto simp: get_free_slot_in_global_def fd_typed_def find_Some_iff split: option.splits)

lemma pcb_fd_install_typed: "fds_typed k \<Longrightarrow> fd_typed g \<Longrightarrow> pcb_fd_install g k = (fd, k') \<Longrightarrow> fds_typed k'"
  by (auto simp: pcb_fd_install_def Let_def split: option.splits intro: fds_typed_put)

lemma sys_pipe_typed:
  assumes "fds_typed k" "sys_pipe k = Inr (r, p, k')"
  shows "fds_typed k'"
proof -
  let ?g = "get_free_slot_in_global k"
  have g: "?g \<noteq> - 1" using assms(2) by (auto simp: sys_pipe_def GUARD_eq_Inr Let_def)
  obtain ok k1 where h: "heap_reply k = (ok, k1)" by (metis surj_pair)
  have k1: "fds_typed k1" using heap_reply_same [OF h] assms(1) fds_typed_same by blast
  show ?thesis
  proof (cases ok)
    case False
    have "\<exists>f. k' = set_file (nat ?g) f k1" using assms(2) g h False by (auto simp: sys_pipe_def bnd_eq_Inr Let_def)
    then have "same_fds k1 k'" by auto
    then show ?thesis using k1 fds_typed_same by blast
  next
    case True
    define q where "q = ioqueue_init \<lparr>ioq_lock = lock_init, producer = None, consumer = None,
                       buf = replicate bufsize 0, ioq_head = 0, ioq_tail = 0\<rparr>"
    define k2 where "k2 = set_file (nat ?g) \<lparr>fd_pos = 2, fd_flag = PIPE_FLAG, fd_inode = next_addr k1\<rparr>
      (k1\<lparr>next_addr := next_addr k1 + 1, pipes := (pipes k1)(next_addr k1 \<mapsto> q)\<rparr>)"
    obtain fd0 k3 fd1 k4 where i: "pcb_fd_install ?g k2 = (fd0, k3)" "pcb_fd_install ?g k3 = (fd1, k4)" by (metis surj_pair)
    obtain f where f: "get_file (nat ?g) k1 = Inr f" using assms(2) g h by (auto simp: sys_pipe_def bnd_eq_Inr Let_def)
    have "sys_pipe k = Inr (0, Some (fd0, fd1), k4)"
      unfolding sys_pipe_def Let_def q_def [symmetric] using g h True f i by (simp add: k2_def)
    then have "k4 = k'" using assms(2) by simp
    moreover have "fds_typed k2" using k1 fds_typed_same [of k1 k2] by (simp add: k2_def)
    ultimately show ?thesis
      using pcb_fd_install_typed [OF pcb_fd_install_typed [OF _ free_slot_typed [OF g] i(1)] free_slot_typed [OF g] i(2)] by blast
  qed
qed

lemma sys_fd_redirect_typed:
  assumes "fds_typed k" "sys_fd_redirect old new k = Inr k'"
  shows "fds_typed k'"
proof (cases "new < 3")
  case True
  then have "fd_typed (int new)" by (simp add: fd_typed_def)
  then show ?thesis using assms True by (auto simp: sys_fd_redirect_def res_simps Let_def intro: fds_typed_put)
next
  case False
  then have n: "new < length (fd_table k (running_thread k))" using assms(2) by (auto simp: sys_fd_redirect_def res_simps Let_def)
  then have "fd_typed (fd_table k (running_thread k) ! new)" using assms(1) nth_mem [OF n] unfolding fds_typed_def by blast
  then show ?thesis using assms False by (auto simp: sys_fd_redirect_def res_simps Let_def intro: fds_typed_put)
qed

lemma file_close_keeps: "file_close g k = Inr (r, k') \<Longrightarrow> same_fds k k'"
  by (auto simp: file_close_def bnd_eq_Inr dest!: inode_close_keeps)

lemma sys_close_typed:
  assumes "fds_typed k" "sys_close fd k = Inr (r, k')"
  shows "fds_typed k'"
proof (cases "fd > 2")
  case False
  then show ?thesis using assms by (simp add: sys_close_def)
next
  case True
  then obtain g pipe where g: "fd_local2global (nat fd) k = Inr g" "is_pipe (nat fd) k = Inr pipe"
    using assms(2) by (auto simp: sys_close_def bnd_eq_Inr)
  show ?thesis
  proof (cases pipe)
    case p: True
    then obtain f where f: "get_file g k = Inr f" using assms(2) True g by (auto simp: sys_close_def bnd_eq_Inr)
    show ?thesis using assms True g p f
      by (cases "sub32 (fd_pos f) 1 = 0") (auto simp: sys_close_def Let_def fd_typed_def intro!: fds_typed_put [OF assms(1), of "- 1"])
  next
    case p: False
    then obtain k1 where k1: "file_close g k = Inr (r, k1)"
      "k' = k1\<lparr>fd_table := (fd_table k1)(running_thread k1 := (fd_table k1 (running_thread k1))[nat fd := -1])\<rparr>"
      using assms(2) True g by (auto simp: sys_close_def bnd_eq_Inr Let_def)
    then show ?thesis using file_close_keeps [OF k1(1)]
      by (intro fds_typed_put [OF assms(1), of "- 1"]) (simp_all add: fd_typed_def)
  qed
qed

lemma file_open_typed:
  assumes "fds_typed k" "file_open n flag k = Inr (r, k')"
  shows "fds_typed k'"
proof (cases "get_free_slot_in_global k = - 1")
  case True
  then show ?thesis using assms by (simp add: file_open_def)
next
  case False
  then obtain a k1 where o: "inode_open n k = Inr (a, k1)" using assms(2) by (auto simp: file_open_def bnd_eq_Inr Let_def)
  let ?g = "get_free_slot_in_global k"
  let ?k2 = "set_file (nat ?g) \<lparr>fd_pos = 0, fd_flag = flag, fd_inode = a\<rparr> k1"
  have t: "fds_typed ?k2" "fd_typed ?g" using inode_open_keeps [OF o] assms(1) free_slot_typed [OF False] fds_typed_same [of k ?k2] by simp_all
  define w where "w \<longleftrightarrow> flag AND O_WRONLY \<noteq> 0 \<or> flag AND O_RDWR \<noteq> 0"
  note run = assms(2) [unfolded file_open_def Let_def w_def [symmetric]]
  show ?thesis
  proof (cases w)
    case f: False
    then have "pcb_fd_install ?g ?k2 = (r, k')" using run False o by simp
    then show ?thesis by (rule pcb_fd_install_typed [OF t])
  next
    case True
    define k3 where "k3 = ?k2\<lparr>intr := INTR_OFF\<rparr>"
    have t3: "fds_typed k3" using t(1) fds_typed_same [of ?k2 k3] by (simp add: k3_def)
    obtain i where i: "get_inode a k3 = Inr i" using run False o True by (auto simp: k3_def bnd_eq_Inr)
    show ?thesis
    proof (cases "writen_deny i")
      case wd: True
      have "k' = snd (intr_set_status (intr ?k2) k3)" using run False o True i wd by (simp add: k3_def)
      then show ?thesis using t3 fds_typed_same [of k3 k'] by simp
    next
      case wd: False
      define k4 where "k4 = snd (intr_set_status (intr ?k2) (set_inode a (i\<lparr>writen_deny := True\<rparr>) k3))"
      have "pcb_fd_install ?g k4 = (r, k')" using run False o True i wd by (simp add: k3_def k4_def)
      moreover have "fds_typed k4" using t3 fds_typed_same [of k3 k4] by (simp add: k4_def)
      ultimately show ?thesis using pcb_fd_install_typed t(2) by blast
    qed
  qed
qed

lemma create_rollback_keeps: "create_rollback step g a n k = Inr (r, k') \<Longrightarrow> same_fds k k'"
  by (auto simp: create_rollback_def bnd_eq_Inr Let_def)

text \<open>The part of \<open>file_create\<close> behind the last check that can fail without a panic.\<close>

lemma file_create_typed:
  assumes "fds_typed k" "file_create d nm flag k = Inr (r, k')"
  shows "fds_typed k'"
proof -
  obtain ok1 k1 where h1: "heap_reply k = (ok1, k1)" by (metis surj_pair)
  note run = assms(2) [unfolded file_create_def Let_def]
  have s1: "same_fds k k1" by (rule heap_reply_same [OF h1])
  have same: ?thesis if "same_fds k k'" using that assms(1) fds_typed_same by blast
  show ?thesis
  proof (cases ok1)
    case False
    then show ?thesis using run h1 s1 same by simp
  next
    case o1: True
    obtain n k2 where n: "inode_bitmap_alloc k1 = Inr (n, k2)" using run h1 o1 by (auto simp: bnd_eq_Inr)
    have s2: "same_fds k k2" using inode_bitmap_alloc_keeps [OF n] s1 by simp
    obtain ok2 k3 where h2: "heap_reply k2 = (ok2, k3)" by (metis surj_pair)
    have s3: "same_fds k k3" using heap_reply_same [OF h2] s2 by simp
    show ?thesis
    proof (cases "n = - 1 \<or> \<not> ok2")
      case True
      then show ?thesis using run h1 o1 n h2 s2 s3 same by (auto split: if_splits dest!: create_rollback_keeps)
    next
      case False
      then have nn: "ok1 = True" "ok2 = True" "n \<noteq> - 1" using o1 by simp_all
      define a where "a = next_addr k3"
      define k4 where "k4 = set_inode a (inode_init (nat n)) (k3\<lparr>next_addr := a + 1\<rparr>)"
      define g where "g = get_free_slot_in_global k4"
      have s4: "same_fds k k4" using s3 by (simp add: k4_def)
      show ?thesis
      proof (cases "g = - 1")
        case True
        have "create_rollback 2 0 a (nat n) k4 = Inr (r, k')"
          using run h1 o1 n h2 False True by (simp add: a_def k4_def g_def)
        then show ?thesis using create_rollback_keeps s4 same by metis
      next
        case g: False
        define k5 where "k5 = set_file (nat g) \<lparr>fd_pos = 0, fd_flag = flag, fd_inode = a\<rparr> k4"
        have s5: "same_fds k k5" using s4 by (simp add: k5_def)
        have run5: "bnd (create_dir_entry nm (nat n) FT_REGULAR zero_entry) (\<lambda>new_dir_entry.
           bnd (sync_dir_entry d new_dir_entry k5) (\<lambda>(ok, k).
           if \<not> ok then create_rollback 3 (nat g) a (nat n) k
           else bnd (get_dir d k) (\<lambda>d.
             bnd (get_inode (dir_inode d) k) (\<lambda>i.
             bnd (inode_sync i k) (\<lambda>k.
             bnd (get_inode a k) (\<lambda>i.
             bnd (inode_sync i k) (\<lambda>k.
             bnd (bitmap_sync (nat n) INODE_BITMAP k) (\<lambda>k.
             Inr (pcb_fd_install (int (nat g)) (set_inode a (i\<lparr>i_open_cnts := 1\<rparr>) (k\<lparr>open_inodes := a # open_inodes k\<rparr>))))))))))) =
           Inr (r, k')"
          using run g nn by (simp only: h1 n h2 bnd_Inr prod.case not_True_eq_False if_False if_True
              a_def [symmetric] k4_def [symmetric] g_def [symmetric] k5_def [symmetric])
        then obtain e ok k6 where e: "create_dir_entry nm (nat n) FT_REGULAR zero_entry = Inr e"
          "sync_dir_entry d e k5 = Inr (ok, k6)" by (auto simp: bnd_eq_Inr)
        have s6: "same_fds k k6" using sync_dir_entry_keeps [OF e(2)] s5 by simp
        show ?thesis
        proof (cases ok)
          case False
          then show ?thesis using run5 e s6 same by (auto dest!: create_rollback_keeps)
        next
          case True
          then obtain j k8 k9 k10 j' where c: "inode_sync j k6 = Inr k8" "get_inode a k8 = Inr j'" "inode_sync j' k8 = Inr k9"
            "bitmap_sync (nat n) INODE_BITMAP k9 = Inr k10"
            "pcb_fd_install (int (nat g)) (set_inode a (j'\<lparr>i_open_cnts := 1\<rparr>) (k10\<lparr>open_inodes := a # open_inodes k10\<rparr>)) = (r, k')"
            using run5 e by (auto simp: bnd_eq_Inr simp del: int_nat_eq)
          define k7 where "k7 = set_inode a (j'\<lparr>i_open_cnts := 1\<rparr>) (k10\<lparr>open_inodes := a # open_inodes k10\<rparr>)"
          have k7: "same_fds k6 k7" "pcb_fd_install (int (nat g)) k7 = (r, k')"
            using inode_sync_keeps_fds [OF c(1)] inode_sync_keeps_fds [OF c(3)] bitmap_sync_keeps [OF c(4)] c(5) by (simp_all add: k7_def)
          have "fds_typed k7" using k7(1) s6 assms(1) fds_typed_same by metis
          moreover have "fd_typed (int (nat g))" using free_slot_typed [of k4] g by (auto simp: g_def [symmetric] fd_typed_def)
          ultimately show ?thesis using pcb_fd_install_typed k7(2) by blast
        qed
      qed
    qed
  qed
qed

lemma sys_open_typed:
  assumes "fds_typed k" "sys_open path flags k = Inr (r, k')"
  shows "fds_typed k'"
proof -
  note run = assms(2) [unfolded sys_open_def Let_def]
  have same: ?thesis if "same_fds k k'" using that assms(1) fds_typed_same by blast
  show ?thesis
  proof (cases "List.last path = SLASH")
    case True
    then show ?thesis using run same by (auto simp: GUARD_eq_Inr)
  next
    case ls: False
    obtain dp n rec k1 where s: "path_depth_cnt path = Inr dp" "search_file path empty_record k = Inr (n, rec, k1)"
      using run ls by (auto simp: res_simps)
    have s1: "same_fds k k1" by (rule search_file_keeps [OF s(2)])
    have t1: "fds_typed k1" using s1 assms(1) fds_typed_same by blast
    have closing: "same_fds k k'" if "bnd (dir_close (psr_parent_dir rec) k1) (\<lambda>k. Inr (-1 :: int, k)) = Inr (r, k')"
      using that s1 by (auto simp: bnd_eq_Inr dest!: dir_close_keeps)
    show ?thesis
    proof (cases "psr_file_type rec = FT_DIRECTORY")
      case True
      then have "bnd (dir_close (psr_parent_dir rec) k1) (\<lambda>k. Inr (-1, k)) = Inr (r, k')"
        using run ls s by (simp add: res_simps)
      then show ?thesis by (intro same closing)
    next
      case False
      then obtain ds where ds: "path_depth_cnt (searched_path rec) = Inr ds" using run ls s by (auto simp: res_simps)
      consider "bnd (dir_close (psr_parent_dir rec) k1) (\<lambda>k. Inr (-1, k)) = Inr (r, k')"
        | "bnd (file_create (psr_parent_dir rec) (after_slash (searched_path rec)) flags k1) (\<lambda>(fd, k).
             bnd (dir_close (psr_parent_dir rec) k) (\<lambda>k. Inr (fd, k))) = Inr (r, k')"
        | "file_open (nat n) flags k1 = Inr (r, k')"
        using run ls s False ds
        by (simp only: bnd_Inr prod.case GUARD_eq_Inr ASSERT_eq_Inr if_False) (auto simp only: GUARD_eq_Inr split: if_split_asm)
      then show ?thesis
      proof cases
        case 1
        then show ?thesis by (intro same closing)
      next
        case 2
        then obtain k2 where k2: "file_create (psr_parent_dir rec) (after_slash (searched_path rec)) flags k1 = Inr (r, k2)"
          "dir_close (psr_parent_dir rec) k2 = Inr k'" by (auto simp: bnd_eq_Inr)
        have "fds_typed k2" by (rule file_create_typed [OF t1 k2(1)])
        then show ?thesis using dir_close_keeps [OF k2(2)] fds_typed_same by blast
      next
        case 3
        then show ?thesis by (rule file_open_typed [OF t1])
      qed
    qed
  qed
qed

section \<open>Results\<close>

text \<open>The system calls on descriptors, and a sequence of them; only the new state is kept.\<close>

datatype fd_call = Open "u8 list" nat | Close int | Read int nat | Write int "u8 list" | Lseek int int nat
  | MakePipe | Redirect nat nat

fun do_call :: "fd_call \<Rightarrow> fsk \<Rightarrow> fsk res" where
  "do_call (Open path flags) k = bnd (sys_open path flags k) (\<lambda>(_, k). Inr k)"
| "do_call (Close fd) k = bnd (sys_close fd k) (\<lambda>(_, k). Inr k)"
| "do_call (Read fd n) k = bnd (sys_read fd n k) (\<lambda>(_, _, k). Inr k)"
| "do_call (Write fd bs) k = bnd (sys_write fd bs k) (\<lambda>(_, k). Inr k)"
| "do_call (Lseek fd off whence) k = bnd (sys_lseek fd off whence k) (\<lambda>(_, k). Inr k)"
| "do_call MakePipe k = bnd (sys_pipe k) (\<lambda>(_, _, k). Inr k)"
| "do_call (Redirect old new) k = sys_fd_redirect old new k"

fun fd_calls :: "fd_call list \<Rightarrow> fsk \<Rightarrow> fsk res" where
  "fd_calls [] k = Inr k"
| "fd_calls (c # cs) k = bnd (do_call c k) (fd_calls cs)"

lemma do_call_typed: "fds_typed k \<Longrightarrow> do_call c k = Inr k' \<Longrightarrow> fds_typed k'"
proof -
  assume a: "fds_typed k" "do_call c k = Inr k'"
  have same: "same_fds k k' \<Longrightarrow> fds_typed k'" using a(1) fds_typed_same by blast
  show ?thesis
  proof (cases c)
    case Read
    then show ?thesis using a(2) by (intro same) (auto simp: bnd_eq_Inr dest!: sys_read_keeps)
  next
    case Write
    then show ?thesis using a(2) by (intro same) (auto simp: bnd_eq_Inr dest!: sys_write_keeps)
  next
    case Lseek
    then show ?thesis using a(2) by (intro same) (auto simp: bnd_eq_Inr dest!: sys_lseek_keeps)
  qed (use a in \<open>auto simp: bnd_eq_Inr dest: sys_open_typed sys_close_typed sys_pipe_typed sys_fd_redirect_typed\<close>)
qed

lemma fd_calls_typed: "fds_typed k \<Longrightarrow> fd_calls cs k = Inr k' \<Longrightarrow> fds_typed k'"
  by (induction cs arbitrary: k) (auto simp: bnd_eq_Inr dest: do_call_typed)

lemma sys_fd_redirect_inside:
  assumes "fds_typed k"
  shows "(\<exists>k'. sys_fd_redirect old new k = Inr k') \<longleftrightarrow>
    old < MAX_FILES_OPEN_PER_PROC \<and> new < MAX_FILES_OPEN_PER_PROC"
proof -
  have "length (fd_table k (running_thread k)) = MAX_FILES_OPEN_PER_PROC" using assms by (simp add: fds_typed_def)
  then show ?thesis by (auto simp: sys_fd_redirect_def GUARD_def Let_def)
qed

lemma sys_pipe_inside: "get_free_slot_in_global k = -1 \<Longrightarrow> sys_pipe k = Inl (Fault ''file_table'')"
  by (simp add: sys_pipe_def GUARD_def)



end
