(* ===== verification/Diskblocks.thy ===== *)
theory Diskblocks
  imports Dirspec Slots
begin

text \<open>
  The data blocks of the mounted partition as an allocator of slots: \<open>new_block\<close> (the steps of
  \<open>fs/file.c\<close> and \<open>fs/dir.c\<close> around \<open>block_bitmap_alloc\<close>) and \<open>free_block\<close> (the loop body of
  \<open>inode_realse\<close>) provide the interface of theory \<open>Slots\<close>. The first block belongs to the root
  directory and is never given back.
\<close>

definition data_blocks :: "fsk \<Rightarrow> nat set" where
  "data_blocks k = (\<lambda>i. data_start_lba (sb k) + i) ` {0<..<nbits (block_bitmap k)}"

definition blocks_taken :: "fsk \<Rightarrow> nat set" where
  "blocks_taken k = (\<lambda>i. data_start_lba (sb k) + i) ` (used (block_bitmap k) - {0})"

definition blocks_state_ok :: "fsk \<Rightarrow> bool" where
  "blocks_state_ok k \<longleftrightarrow> fs_ok k \<and> blocks_synced k \<and> blocks_fit k \<and> 0 \<in> used (block_bitmap k)"

definition block_alloc :: "fsk \<Rightarrow> (nat \<times> fsk) res" where
  "block_alloc k = bnd (new_block (\<lambda>idx. True) k) (\<lambda>(block_lba, k). Inr (nat block_lba, k))"

lemma blocks_full:
  assumes "blocks_state_ok k"
  shows "blocks_taken k = data_blocks k \<longleftrightarrow> used (block_bitmap k) = {..<nbits (block_bitmap k)}"
proof -
  have inj: "inj (\<lambda>i. data_start_lba (sb k) + i)" by (simp add: inj_on_def)
  have "blocks_taken k = data_blocks k \<longleftrightarrow> used (block_bitmap k) - {0} = {0<..<nbits (block_bitmap k)}"
    unfolding blocks_taken_def data_blocks_def by (rule inj_image_eq_iff [OF inj])
  also have "\<dots> \<longleftrightarrow> used (block_bitmap k) = {..<nbits (block_bitmap k)}"
  proof
    have z: "0 \<in> used (block_bitmap k)" using assms by (simp add: blocks_state_ok_def)
    assume e: "used (block_bitmap k) - {0} = {0<..<nbits (block_bitmap k)}"
    have "used (block_bitmap k) = insert 0 (used (block_bitmap k) - {0})" using z by auto
    also have "\<dots> = {..<nbits (block_bitmap k)}" unfolding e using z by (auto simp: used_def)
    finally show "used (block_bitmap k) = {..<nbits (block_bitmap k)}" .
  next
    assume e: "used (block_bitmap k) = {..<nbits (block_bitmap k)}"
    show "used (block_bitmap k) - {0} = {0<..<nbits (block_bitmap k)}" unfolding e by auto
  qed
  finally show ?thesis .
qed

interpretation blocks: slots blocks_state_ok data_blocks blocks_taken block_alloc free_block
proof
  fix s :: fsk and b
  assume ok: "blocks_state_ok s"
  then have K: "fs_ok s" "blocks_synced s" "blocks_fit s" "0 \<in> used (block_bitmap s)" by (simp_all add: blocks_state_ok_def)
  show "finite (data_blocks s)" by (simp add: data_blocks_def)
  show "blocks_taken s \<subseteq> data_blocks s" by (auto simp: blocks_taken_def data_blocks_def used_def)
  show "\<exists>i s'. block_alloc s = Inr (i, s') \<and> blocks_state_ok s' \<and> data_blocks s' = data_blocks s \<and> i \<in> data_blocks s \<and>
      i \<notin> blocks_taken s \<and> blocks_taken s' = insert i (blocks_taken s)" if "blocks_taken s \<noteq> data_blocks s"
  proof -
    have "used (block_bitmap s) \<noteq> {..<nbits (block_bitmap s)}" using that blocks_full [OF ok] by simp
    from new_block_ok [OF K(1-3) this, of "\<lambda>idx. True"] obtain j s' where
      j: "new_block (\<lambda>idx. True) s = Inr (int (data_start_lba (sb s) + j), s')" "j < nbits (block_bitmap s)"
      "j \<notin> used (block_bitmap s)" "fs_ok s'" "blocks_synced s'" "blocks_fit s'" "same_but_blocks s s'"
      "nbits (block_bitmap s') = nbits (block_bitmap s)" "used (block_bitmap s') = insert j (used (block_bitmap s))" by blast
    have sb: "sb s' = sb s" by (rule same_but_blocks_simps(1) [OF j(7)])
    have j0: "j \<noteq> 0" using j(3) K(4) by metis
    have "block_alloc s = Inr (data_start_lba (sb s) + j, s')" using j(1) by (simp add: block_alloc_def)
    moreover have "data_start_lba (sb s) + j \<in> data_blocks s" using j(2) j0 by (simp add: data_blocks_def)
    moreover have "data_start_lba (sb s) + j \<notin> blocks_taken s" using j(3) by (auto simp: blocks_taken_def)
    moreover have "blocks_taken s' = insert (data_start_lba (sb s) + j) (blocks_taken s)"
      unfolding blocks_taken_def sb j(9) using j0 by (simp add: insert_Diff_if)
    ultimately show ?thesis using j(4-6,8,9) K(4) by (auto simp: blocks_state_ok_def data_blocks_def sb)
  qed
  show "panics (block_alloc s)" if "blocks_taken s = data_blocks s"
  proof -
    have wf: "wf_bitmap (block_bitmap s)" using K(1) by (simp add: fs_ok_def)
    have "panics (bitmap_scan (block_bitmap s) 1)"
      using bitmap_scan_one_cases [OF wf] that blocks_full [OF ok] by blast
    then obtain m where "bitmap_scan (block_bitmap s) 1 = Inl (Panic m)" by (auto simp: panics_def split: sum.splits stop.splits)
    then show ?thesis by (simp add: block_alloc_def new_block_def block_bitmap_alloc_def)
  qed
  show "\<exists>s'. free_block b s = Inr s' \<and> blocks_state_ok s' \<and> data_blocks s' = data_blocks s \<and> blocks_taken s' = blocks_taken s - {b}"
    if b: "b \<in> blocks_taken s"
  proof -
    obtain j where j: "b = data_start_lba (sb s) + j" "j \<in> used (block_bitmap s)" "0 < j" using b by (auto simp: blocks_taken_def)
    then have io: "block_idx_ok s b" using K(3) by (auto simp: block_idx_ok_def used_def blocks_fit_def)
    obtain s' where r: "free_block b s = Inr s'" "fs_ok s'" "blocks_synced s'"
      "s' = s\<lparr>block_bitmap := block_bitmap s', disk_image := disk_image s'\<rparr>"
      "nbits (block_bitmap s') = nbits (block_bitmap s)"
      "used (block_bitmap s') = used (block_bitmap s) - {b - data_start_lba (sb s)}"
      by (rule free_block_ok [OF K(1,2) io]) (rule that; assumption)
    have "same_but_blocks s s'" unfolding same_but_blocks_def by (rule r(4))
    moreover have "b - data_start_lba (sb s) = j" using j(1) by simp
    ultimately have s': "free_block b s = Inr s'" "fs_ok s'" "blocks_synced s'" "same_but_blocks s s'"
      "nbits (block_bitmap s') = nbits (block_bitmap s)" "used (block_bitmap s') = used (block_bitmap s) - {j}"
      using r(1-3,5,6) by simp_all
    have sb: "sb s' = sb s" by (rule same_but_blocks_simps(1) [OF s'(4)])
    have "blocks_taken s' = blocks_taken s - {b}" unfolding blocks_taken_def sb s'(6) j(1) by auto
    moreover have "blocks_state_ok s'" using s'(2,3,5,6) K(3,4) j(3) by (simp add: blocks_state_ok_def blocks_fit_def sb)
    ultimately show ?thesis using s'(1,5) by (auto simp: data_blocks_def sb)
  qed
qed

section \<open>Results\<close>

text \<open>
  C40: A data block never belongs to two. From any sound state of the file system, requests for
  blocks succeed exactly as long as there are free ones, return all of them and none twice, and
  the request after the last one panics; giving back any block but the first one succeeds,
  makes that block and no other free, and keeps the bitmap on the disk the same as the one in
  memory.
\<close>

theorem blocks_never_twice:
  assumes "blocks_state_ok k"
  shows "(\<exists>bs k'. allocs block_alloc (card (data_blocks k - blocks_taken k)) k = Inr (bs, k') \<and> distinct bs \<and>
      set bs = data_blocks k - blocks_taken k \<and> panics (block_alloc k')) \<and>
    (\<forall>b \<in> blocks_taken k. \<exists>k'. free_block b k = Inr k' \<and> blocks_taken k' = blocks_taken k - {b} \<and> blocks_state_ok k')"
proof (intro conjI ballI)
  show "\<exists>bs k'. allocs block_alloc (card (data_blocks k - blocks_taken k)) k = Inr (bs, k') \<and> distinct bs \<and>
      set bs = data_blocks k - blocks_taken k \<and> panics (block_alloc k')"
    using blocks.allocs_exhaust [OF assms] by (elim exE conjE) (intro exI conjI)
  fix b assume "b \<in> blocks_taken k"
  from blocks.release_ok [OF assms this]
  show "\<exists>k'. free_block b k = Inr k' \<and> blocks_taken k' = blocks_taken k - {b} \<and> blocks_state_ok k'"
    by (elim exE conjE) (intro exI conjI)
qed

text \<open>Two blocks in use.\<close>

definition demo_blocks :: fsk where
  "demo_blocks = demo_fs\<lparr>block_bitmap := \<lparr>btmp_bytes_len = 512, bits = 3 # replicate 511 0\<rparr>,
     disk_image := \<lambda>s. if s = 2050 then 3 # replicate 511 0 else replicate 512 0\<rparr>"

lemma blocks_never_twice_witness: "\<exists>k'. free_block 2661 demo_blocks = Inr k' \<and> blocks_state_ok k' \<and> 2661 \<notin> blocks_taken k'"
proof -
  have u: "0 \<in> used (block_bitmap demo_blocks)" "1 \<in> used (block_bitmap demo_blocks)"
    by (simp_all add: demo_blocks_def used_def nbits_def bit_at_def bit_numeral_rec)
  have "fs_ok demo_blocks" "blocks_synced demo_blocks" "blocks_fit demo_blocks"
    by (simp_all add: demo_blocks_def fs_ok_def table_ok_def wf_image_def wf_bitmap_def demo_sb_def
        blocks_synced_def blocks_fit_def nbits_def sectors_def)
  then have ok: "blocks_state_ok demo_blocks" using u(1) by (simp add: blocks_state_ok_def)
  have b: "2661 \<in> blocks_taken demo_blocks"
    unfolding blocks_taken_def using u(2) by (intro image_eqI [of _ _ 1]) (simp_all add: demo_blocks_def demo_sb_def)
  from blocks_never_twice [OF ok, THEN conjunct2, rule_format, OF b] obtain k' where
    "free_block 2661 demo_blocks = Inr k'" "blocks_taken k' = blocks_taken demo_blocks - {2661}" "blocks_state_ok k'" by blast
  then show ?thesis by auto
qed

end
