(* ===== verification/Console.thy ===== *)
theory Console
  imports Builtin
begin

text \<open>
  \<open>device/console.c\<close>, \<open>lib/kernel/stdio-kernel.c\<close>, \<open>kernel/debug.c\<close> and \<open>lib/usr/assert.c\<close>: output under
  the lock of the console, and the two routines that report a failed check and stop. What \<open>print.s\<close>
  (assembler) is asked to show is recorded in \<open>shown\<close>, in order.
\<close>

section \<open>Definitions\<close>

datatype out = Put_str "u8 list" u32 | Put_char u8 u32 | Put_int u32

record consk = kernel +
  console_lock :: lock
  str_color_of :: u32
  char_color_of :: u32
  shown :: "out list"

definition show_out :: "out \<Rightarrow> consk \<Rightarrow> consk" where
  "show_out x k = k\<lparr>shown := shown k @ [x]\<rparr>"

definition console_init :: "consk \<Rightarrow> consk" where
  "console_init k = k\<lparr>console_lock := lock_init\<rparr>"

definition console_acquire :: "consk \<Rightarrow> consk res" where
  "console_acquire k = bnd (lock_acquire (console_lock k) k) (\<lambda>(l, k). Inr (k\<lparr>console_lock := l\<rparr>))"

definition console_realse :: "consk \<Rightarrow> consk res" where
  "console_realse k = bnd (lock_release (console_lock k) k) (\<lambda>(l, k). Inr (k\<lparr>console_lock := l\<rparr>))"

text \<open>The colour that the caller asks for is replaced by the one of the variable.\<close>

definition console_put_str :: "u8 list \<Rightarrow> u32 \<Rightarrow> consk \<Rightarrow> consk res" where
  "console_put_str str char_attr k =
     bnd (console_acquire k) (\<lambda>k.
     let char_attr = str_color_of k in console_realse (show_out (Put_str str char_attr) k))"

definition console_put_char :: "u8 \<Rightarrow> u32 \<Rightarrow> consk \<Rightarrow> consk res" where
  "console_put_char char_asci char_attr k =
     bnd (console_acquire k) (\<lambda>k.
     let char_attr = char_color_of k in console_realse (show_out (Put_char char_asci char_attr) k))"

definition console_put_int :: "u32 \<Rightarrow> consk \<Rightarrow> consk res" where
  "console_put_int num k = bnd (console_acquire k) (\<lambda>k. console_realse (show_out (Put_int num) k))"

definition printk :: "u8 list \<Rightarrow> va_arg list \<Rightarrow> consk \<Rightarrow> (nat \<times> consk) res" where
  "printk format args k =
     bnd (printk_text format args) (\<lambda>t. bnd (console_put_str t 7 k) (\<lambda>k. Inr (length t, k)))"

definition sys_putchar :: "u8 \<Rightarrow> consk \<Rightarrow> consk res" where
  "sys_putchar chr k = console_put_char chr 7 k"

text \<open>The state in which a panic leaves the machine: it loops without interrupts.\<close>

definition panic_spin :: "u8 list \<Rightarrow> u32 \<Rightarrow> u8 list \<Rightarrow> u8 list \<Rightarrow> consk \<Rightarrow> consk" where
  "panic_spin fname line func condition k =
     (let k = snd (intr_disable k);
          s = (\<lambda>t. Put_str t 7);
          nl = s NEWLINE
      in k\<lparr>shown := shown k @
           [s (NEWLINE @ NEWLINE @ NEWLINE @ lit ''!!!!! error !!!!!'' @ NEWLINE @ NEWLINE),
            s (lit ''filename:''), s fname, nl, s (lit ''line:0x''), Put_int line, nl,
            s (lit ''func:''), s func, nl, s (lit ''condition:''), s condition, nl]\<rparr>)"

text \<open>The same for a user program; the loop behind \<open>printf\<close> is left to the caller.\<close>

definition user_spin :: "u8 list \<Rightarrow> u32 \<Rightarrow> u8 list \<Rightarrow> u8 list \<Rightarrow> shellk \<Rightarrow> shellk res" where
  "user_spin fname line func condition s =
     printf (NEWLINE @ NEWLINE @ NEWLINE @ NEWLINE @ lit ''filename %s'' @ NEWLINE @ lit ''line %d'' @ NEWLINE @
       lit ''function %s'' @ NEWLINE @ lit ''condition %s'' @ NEWLINE)
       [StrArg fname, IntArg line, StrArg func, StrArg condition] s"

section \<open>Properties\<close>

text \<open>With the console free a call shows its text in one piece and leaves the console free.\<close>

lemma console_calls:
  assumes "lock_free (console_lock k)"
  shows "console_put_str s c k = Inr (k\<lparr>shown := shown k @ [Put_str s (str_color_of k)]\<rparr>)"
    "console_put_char b c k = Inr (k\<lparr>shown := shown k @ [Put_char b (char_color_of k)]\<rparr>)"
    "console_put_int n k = Inr (k\<lparr>shown := shown k @ [Put_int n]\<rparr>)"
proof -
  have r: "lock_release (lock_taken (cur k) (console_lock k)) m = Inr (console_lock k, m)" if "cur m = cur k" for m :: consk
    by (rule lock_release_taken [OF assms that])
  show "console_put_str s c k = Inr (k\<lparr>shown := shown k @ [Put_str s (str_color_of k)]\<rparr>)"
    "console_put_char b c k = Inr (k\<lparr>shown := shown k @ [Put_char b (char_color_of k)]\<rparr>)"
    "console_put_int n k = Inr (k\<lparr>shown := shown k @ [Put_int n]\<rparr>)"
    using r assms
    by (simp_all add: console_put_str_def console_put_char_def console_put_int_def console_acquire_def console_realse_def
        show_out_def lock_acquire_free Let_def)
qed

text \<open>A sequence of calls shows what was asked for, in this order.\<close>

fun put_strs :: "u8 list list \<Rightarrow> consk \<Rightarrow> consk res" where
  "put_strs [] k = Inr k"
| "put_strs (s # ss) k = bnd (console_put_str s 7 k) (put_strs ss)"

lemma put_strs_order: "lock_free (console_lock k) \<Longrightarrow>
  put_strs ss k = Inr (k\<lparr>shown := shown k @ map (\<lambda>s. Put_str s (str_color_of k)) ss\<rparr>)"
  by (induction ss arbitrary: k) (simp_all add: console_calls)

lemma panic_spin_masks: "intr (panic_spin f l fn c k) = INTR_OFF" "cur (panic_spin f l fn c k) = cur k"
  by (simp_all add: panic_spin_def Let_def)

end
