(* ===== verification/Addrspace.thy ===== *)
theory Addrspace
  imports Process
begin

text \<open>
  What \<open>create_page_dir\<close> of \<open>userprog/process.c\<close> builds: a page directory for a new process. The
  first half of the theory is about words that are copied between pages and about address
  spaces other than the one in use.
\<close>

section \<open>Copying between pages\<close>

text \<open>
  Writing to a frame that holds no table changes no mapping, also in the window of the page
  tables at the top.
\<close>

lemma page_map_window:
  assumes "self_map m" "data_frame f m" "q < 1048576"
  shows "page_map (set_frame f g m) q = page_map m q"
proof (cases "q \<in> low_pages")
  case False
  then have q: "q div 1024 = 1023" using assms(3) by (simp add: low_page_idx)
  have "ram (set_frame f g m) (frame_of (dir_entry_of m 1023)) = ram m (frame_of (dir_entry_of m 1023))"
    using assms(1,2) by (auto simp: self_map_def data_frame_def set_frame_def)
  then show ?thesis by (simp add: page_map_def dir_entry_set_frame [OF assms(2)] q)
qed (use assms(2) in simp)

lemma mmu_mapped: "page_map m (page_of va) = Some f \<Longrightarrow> \<exists>pa. mmu m va = Some pa \<and> frame_of pa = f \<and> word_of pa = word_in va"
  by (auto simp: mmu_page_map page_map_def pte_at_tab Let_def split: if_splits)

lemma load_mapped: "page_map m (page_of va) = Some f \<Longrightarrow> load va m = Inr (ram m f (word_in va))"
  using mmu_mapped [of m va f] by (auto simp: load_def)

lemma store_mapped: "page_map m (page_of va) = Some f \<Longrightarrow> store va w m = Inr (set_frame f ((ram m f)(word_in va := w)) m)"
  using mmu_mapped [of m va f] by (auto simp: store_def set_frame_def)

lemma word_next:
  assumes "unat va mod 4 = 0" "Suc (word_in va) < 1024"
  shows "page_of (va + 4) = page_of va" "word_in (va + 4) = Suc (word_in va)" "unat (va + 4) mod 4 = 0"
proof -
  have "unat va mod 4096 mod 4 = 0" using assms(1) mod_mod_cancel [of 4 4096 "unat va"] by simp
  then obtain q where q: "unat va mod 4096 = 4 * q" by (metis mod_0_imp_dvd dvdE)
  then have "unat va mod 4096 + 4 < 4096" using assms(2) by simp
  then have s: "page_of (va + 4) = page_of va" "unat (va + 4) mod 4096 = unat va mod 4096 + 4"
    using word_step [of va 4] by simp_all
  show "page_of (va + 4) = page_of va" by (rule s(1))
  show "word_in (va + 4) = Suc (word_in va)" unfolding s(2) by simp
  have "unat (va + 4) mod 4096 mod 4 = 0" unfolding s(2) q by simp
  then show "unat (va + 4) mod 4 = 0" using mod_mod_cancel [of 4 4096 "unat (va + 4)"] by simp
qed

text \<open>\<open>n\<close> words from place \<open>j\<close> of \<open>h\<close> on, put into \<open>g\<close> from place \<open>i\<close> on.\<close>

definition copied :: "nat \<Rightarrow> nat \<Rightarrow> nat \<Rightarrow> (nat \<Rightarrow> u32) \<Rightarrow> (nat \<Rightarrow> u32) \<Rightarrow> nat \<Rightarrow> u32" where
  "copied n i j h g = (\<lambda>k. if i \<le> k \<and> k < i + n then h (j + (k - i)) else g k)"

lemma copied_0 [simp]: "copied 0 i j h g = g"
  by (auto simp: copied_def fun_eq_iff)

lemma copied_Suc: "copied n (Suc i) (Suc j) h (g(i := h j)) = copied (Suc n) i j h g"
proof
  fix k
  consider "k < i" | "k = i" | "Suc i \<le> k" by linarith
  then show "copied n (Suc i) (Suc j) h (g(i := h j)) k = copied (Suc n) i j h g k"
  proof cases
    case 3
    then have "Suc j + (k - Suc i) = j + (k - i)" by simp
    then show ?thesis using 3 by (simp add: copied_def)
  qed (simp_all add: copied_def)
qed

lemma copy_words_ok:
  assumes "self_map m" "page_map m (page_of dst) = Some f" "data_frame f m" "page_map m (page_of src) = Some g" "f \<noteq> g"
    "unat dst mod 4 = 0" "unat src mod 4 = 0" "word_in dst + n \<le> 1024" "word_in src + n \<le> 1024"
  shows "copy_words n dst src m = Inr (set_frame f (copied n (word_in dst) (word_in src) (ram m g) (ram m f)) m)"
  using assms
proof (induction n arbitrary: dst src m)
  case 0
  then show ?case by simp
next
  case (Suc n)
  let ?m = "set_frame f ((ram m f)(word_in dst := ram m g (word_in src))) m"
  have st: "copy_words (Suc n) dst src m = copy_words n (dst + 4) (src + 4) ?m"
    using load_mapped [OF Suc.prems(4)] store_mapped [OF Suc.prems(2)] by simp
  show ?case
  proof (cases "n = 0")
    case True
    then show ?thesis using st copied_Suc [of 0 "word_in dst" "word_in src"] by simp
  next
    case False
    note d = word_next [OF Suc.prems(6)] and s = word_next [OF Suc.prems(7)]
    have lt: "Suc (word_in dst) < 1024" "Suc (word_in src) < 1024" using False Suc.prems(8,9) by simp_all
    have rg: "ram ?m g = ram m g" using Suc.prems(5) by (simp add: set_frame_def)
    have sm: "self_map ?m" using Suc.prems(1) by (simp add: self_map_def dir_entry_set_frame [OF Suc.prems(3)])
    have "copy_words n (dst + 4) (src + 4) ?m =
        Inr (set_frame f (copied n (word_in (dst + 4)) (word_in (src + 4)) (ram ?m g) (ram ?m f)) ?m)"
    proof (rule Suc.IH [OF sm])
      show "page_map ?m (page_of (dst + 4)) = Some f" "page_map ?m (page_of (src + 4)) = Some g"
        using page_map_window [OF Suc.prems(1,3) page_of_less(1)] Suc.prems(2,4) d(1) s(1) lt by simp_all
      show "data_frame f ?m" using Suc.prems(3) by simp
      show "f \<noteq> g" by (rule Suc.prems(5))
      show "unat (dst + 4) mod 4 = 0" "unat (src + 4) mod 4 = 0" using d(3) s(3) lt by blast+
      show "word_in (dst + 4) + n \<le> 1024" unfolding d(2) [OF lt(1)] using Suc.prems(8) by simp
      show "word_in (src + 4) + n \<le> 1024" unfolding s(2) [OF lt(2)] using Suc.prems(9) by simp
    qed
    then show ?thesis using st copied_Suc d(2) s(2) lt rg by simp
  qed
qed

section \<open>Writing to data frames only\<close>

definition data_only :: "'a memk_scheme \<Rightarrow> 'a memk_scheme \<Rightarrow> bool" where
  "data_only m m' \<longleftrightarrow> m' = m\<lparr>ram := ram m'\<rparr> \<and> (\<forall>f. \<not> data_frame f m \<longrightarrow> ram m' f = ram m f)"

lemma data_only_fields:
  assumes "data_only m m'"
  shows "pd_base m' = pd_base m" "kernel_pool m' = kernel_pool m" "user_pool m' = user_pool m"
    "kernel_vaddr_pool m' = kernel_vaddr_pool m" "userprog_vaddr m' = userprog_vaddr m" "cur m' = cur m"
    "tasks m' = tasks m" "pool_of pf m' = pool_of pf m" "vpool_of pf m' = vpool_of pf m" "free_mem m' = free_mem m"
    "frames_for pf n m' = frames_for pf n m"
proof -
  obtain r where "m' = m\<lparr>ram := r\<rparr>" using assms unfolding data_only_def by blast
  then show "pd_base m' = pd_base m" "kernel_pool m' = kernel_pool m" "user_pool m' = user_pool m"
    "kernel_vaddr_pool m' = kernel_vaddr_pool m" "userprog_vaddr m' = userprog_vaddr m" "cur m' = cur m"
    "tasks m' = tasks m" "pool_of pf m' = pool_of pf m" "vpool_of pf m' = vpool_of pf m" "free_mem m' = free_mem m"
    "frames_for pf n m' = frames_for pf n m"
    by (cases pf; simp add: pool_of_def vpool_of_def running_thread_def free_mem_def frames_for_def)+
qed

lemma data_only_maps:
  assumes "data_only m m'"
  shows "dir_entry_of m' = dir_entry_of m" "tables m' = tables m" "data_frame f m' = data_frame f m"
    "slot m' = slot m" "self_map m' = self_map m"
    "p \<in> low_pages \<Longrightarrow> page_map m' p = page_map m p"
    "self_map m \<Longrightarrow> p < 1048576 \<Longrightarrow> page_map m' p = page_map m p"
proof -
  have r: "ram m' f = ram m f" if "f = frame_of (pd_base m) \<or> f \<in> tables m" for f
    using assms that unfolding data_only_def data_frame_def by blast
  note pd = data_only_fields(1) [OF assms]
  show d: "dir_entry_of m' = dir_entry_of m" using r by (simp add: dir_entry_of_def pd fun_eq_iff)
  show t: "tables m' = tables m" by (simp add: tables_def d)
  show "data_frame f m' = data_frame f m" by (simp add: data_frame_def t pd)
  show "slot m' = slot m" by (simp add: slot_def d fun_eq_iff)
  show "self_map m' = self_map m" by (simp add: self_map_def d pd)
  show low: "page_map m' p = page_map m p" if "p \<in> low_pages" for p
  proof -
    have "ram m' (frame_of (dir_entry_of m (p div 1024))) = ram m (frame_of (dir_entry_of m (p div 1024)))"
      if "present (dir_entry_of m (p div 1024))"
      using r that \<open>p \<in> low_pages\<close> by (auto simp: tables_def low_page_idx)
    then show ?thesis by (auto simp: page_map_def d Let_def)
  qed
  show "page_map m' p = page_map m p" if "self_map m" "p < 1048576" for p
  proof (cases "p \<in> low_pages")
    case False
    then have q: "p div 1024 = 1023" using that(2) by (simp add: low_page_idx)
    have "ram m' (frame_of (dir_entry_of m 1023)) = ram m (frame_of (dir_entry_of m 1023))"
      using that(1) r by (simp add: self_map_def)
    then show ?thesis by (simp add: page_map_def d q)
  qed (rule low)
qed

lemma data_only_ok:
  assumes "data_only m m'"
  shows "paging_ok m' = paging_ok m" "vpool_ok pf m' = vpool_ok pf m"
proof -
  note F = data_only_fields [OF assms] and M = data_only_maps [OF assms]
  show "paging_ok m' = paging_ok m" by (simp add: paging_ok_def F M)
  show "vpool_ok pf m' = vpool_ok pf m"
  proof -
    have "page_map m' (page_of (vaddr_start (vpool_of pf m)) + i) = page_map m (page_of (vaddr_start (vpool_of pf m)) + i)"
      if "i < nbits (vaddr_bitmap (vpool_of pf m))"
        "page_of (vaddr_start (vpool_of pf m)) + nbits (vaddr_bitmap (vpool_of pf m)) \<le> (if pf = PF_USER then 786432 else 1047552)" for i
      by (rule M(6)) (use that in \<open>simp add: low_page_idx split: if_splits\<close>)
    then show ?thesis unfolding vpool_ok_def F(9) Let_def by (intro conj_cong refl) auto
  qed
qed

lemma data_only_trans: "data_only a b \<Longrightarrow> data_only b c \<Longrightarrow> data_only a c"
proof -
  assume ab: "data_only a b" and bc: "data_only b c"
  obtain r where r: "b = a\<lparr>ram := r\<rparr>" using ab unfolding data_only_def by blast
  obtain r' where "c = b\<lparr>ram := r'\<rparr>" using bc unfolding data_only_def by blast
  then have "c = a\<lparr>ram := ram c\<rparr>" by (simp add: r)
  then show ?thesis using ab bc data_only_maps(3) [OF ab] by (simp add: data_only_def)
qed

lemma data_only_set_frame: "data_frame f m \<Longrightarrow> data_only m (set_frame f g m)"
  by (auto simp: data_only_def set_frame_def)

text \<open>A run of pages is cleared.\<close>

lemma zero_pages_ok:
  assumes "self_map m" "unat va mod 4096 = 0" "page_of va + length fs \<le> 1048576"
    "\<forall>i < length fs. page_map m (page_of va + i) = Some (fs ! i)" "\<forall>f \<in> set fs. data_frame f m"
  shows "\<exists>m'. zero_pages (length fs) va m = Inr m' \<and> data_only m m' \<and>
    (\<forall>f \<in> set fs. \<forall>i < 1024. ram m' f i = 0) \<and> (\<forall>f. f \<notin> set fs \<longrightarrow> ram m' f = ram m f)"
  using assms
proof (induction fs arbitrary: va m)
  case Nil
  then show ?case by (simp add: data_only_def)
next
  case (Cons f fs)
  let ?g = "\<lambda>i. if i < 1024 then 0 else ram m f i" let ?m = "set_frame f ?g m"
  have df: "data_frame f m" and at0: "page_map m (page_of va) = Some f" using Cons.prems(4,5) by auto
  have do1: "data_only m ?m" by (rule data_only_set_frame [OF df])
  have z: "zero_page va m = Inr ?m"
    using mmu_mapped [OF at0] by (auto simp: zero_page_def set_frame_def cong: if_cong)
  have "\<exists>m'. zero_pages (length fs) (va + 4096) ?m = Inr m' \<and> data_only ?m m' \<and>
    (\<forall>h \<in> set fs. \<forall>i < 1024. ram m' h i = 0) \<and> (\<forall>h. h \<notin> set fs \<longrightarrow> ram m' h = ram ?m h)"
  proof (cases fs)
    case Nil
    then show ?thesis by (simp add: data_only_def)
  next
    case (Cons h hs)
    have pn: "page_of (va + 4096) = page_of va + 1" using page_of_next [of va] Cons.prems(3) Cons by simp
    have al: "unat (va + 4096) mod 4096 = 0"
      using page_addr(1) [of va 1] Cons.prems(2,3) Cons by simp
    show ?thesis
    proof (rule Cons.IH)
      show "self_map ?m" using Cons.prems(1) data_only_maps(5) [OF do1] by simp
      show "unat (va + 4096) mod 4096 = 0" by (rule al)
      show "page_of (va + 4096) + length fs \<le> 1048576" using Cons.prems(3) pn by simp
      show "\<forall>i < length fs. page_map ?m (page_of (va + 4096) + i) = Some (fs ! i)"
      proof (intro allI impI)
        fix i assume i: "i < length fs"
        have "page_map ?m (page_of va + Suc i) = page_map m (page_of va + Suc i)"
          by (rule data_only_maps(7) [OF do1 Cons.prems(1)]) (use Cons.prems(3) i in simp)
        then show "page_map ?m (page_of (va + 4096) + i) = Some (fs ! i)"
          using Cons.prems(4) [rule_format, of "Suc i"] i pn by simp
      qed
      show "\<forall>f \<in> set fs. data_frame f ?m" using Cons.prems(5) data_only_maps(3) [OF do1] by simp
    qed
  qed
  then obtain m' where m': "zero_pages (length fs) (va + 4096) ?m = Inr m'" "data_only ?m m'"
    "\<forall>h \<in> set fs. \<forall>i < 1024. ram m' h i = 0" "\<forall>h. h \<notin> set fs \<longrightarrow> ram m' h = ram ?m h" by blast
  show ?case
  proof (intro exI conjI)
    show "zero_pages (length (f # fs)) va m = Inr m'" using z m'(1) by simp
    show "data_only m m'" by (rule data_only_trans [OF do1 m'(2)])
    show "\<forall>h \<in> set (f # fs). \<forall>i < 1024. ram m' h i = 0"
      using m'(3,4) by (auto simp: set_frame_def)
    show "\<forall>h. h \<notin> set (f # fs) \<longrightarrow> ram m' h = ram m h"
      using m'(4) by (simp add: set_frame_def)
  qed
qed

section \<open>New pages for the kernel\<close>

definition only_kernel_memory :: "'a memk_scheme \<Rightarrow> 'a memk_scheme \<Rightarrow> bool" where
  "only_kernel_memory m m' \<longleftrightarrow>
     m' = m\<lparr>ram := ram m', kernel_pool := kernel_pool m', kernel_vaddr_pool := kernel_vaddr_pool m'\<rparr>"

lemma only_kernel_memoryE:
  assumes "only_kernel_memory m m'"
  obtains r k v where "m' = m\<lparr>ram := r, kernel_pool := k, kernel_vaddr_pool := v\<rparr>"
  using assms unfolding only_kernel_memory_def by (rule that)

text \<open>
  \<open>m'\<close> is \<open>m\<close> with \<open>length fs\<close> more pages of the kernel, from \<open>va\<close> on, on the frames \<open>fs\<close>.
\<close>

definition new_pages :: "u32 \<Rightarrow> nat list \<Rightarrow> 'a memk_scheme \<Rightarrow> 'a memk_scheme \<Rightarrow> bool" where
  "new_pages va fs m m' \<longleftrightarrow> va \<noteq> 0 \<and> unat va mod 4096 = 0 \<and> 786432 \<le> page_of va \<and> page_of va + length fs \<le> 1047552 \<and>
     paging_ok m' \<and> vpool_ok PF_KERNEL m' \<and> set fs \<subseteq> free_frames (kernel_pool m) \<and>
     frames_owned m' (page_of va) fs \<and> (\<forall>i < length fs. page_map m (page_of va + i) = None) \<and>
     (\<forall>q \<in> low_pages. 1024 \<le> q \<and> q \<notin> {page_of va..<page_of va + length fs} \<longrightarrow> page_map m' q = page_map m q) \<and>
     tables m' \<subseteq> tables m \<union> free_mem m - set fs \<and>
     (\<forall>f. f \<notin> free_mem m \<union> tables m \<union> {frame_of (pd_base m)} \<longrightarrow> ram m' f = ram m f) \<and>
     free_frames (kernel_pool m') \<subseteq> free_frames (kernel_pool m) \<and> user_pool m' = user_pool m \<and>
     (\<forall>k. frames_for PF_KERNEL (length fs + k) m \<longrightarrow> frames_for PF_KERNEL k m') \<and>
     only_kernel_memory m m' \<and>
     same_pool (kernel_pool m) (kernel_pool m') \<and> vaddr_start (kernel_vaddr_pool m') = vaddr_start (kernel_vaddr_pool m) \<and>
     nbits (vaddr_bitmap (kernel_vaddr_pool m')) = nbits (vaddr_bitmap (kernel_vaddr_pool m)) \<and>
     used (vaddr_bitmap (kernel_vaddr_pool m')) = used (vaddr_bitmap (kernel_vaddr_pool m)) \<union>
       {page_of va - page_of (vaddr_start (kernel_vaddr_pool m))..<page_of va - page_of (vaddr_start (kernel_vaddr_pool m)) + length fs}"

text \<open>Room in the address pool of the kernel, which starts behind 3 GB.\<close>

definition kernel_room :: "nat \<Rightarrow> 'a memk_scheme \<Rightarrow> bool" where
  "kernel_room n m \<longleftrightarrow> (\<exists>s. free_run (vaddr_bitmap (kernel_vaddr_pool m)) s n) \<and>
     786432 \<le> page_of (vaddr_start (kernel_vaddr_pool m))"

lemma new_pages_frames:
  assumes "new_pages va fs m m'"
  shows "\<forall>f \<in> set fs. data_frame f m'" "\<forall>i < length fs. page_map m' (page_of va + i) = Some (fs ! i)"
    "\<forall>i < length fs. page_of va + i \<in> low_pages" "set fs \<inter> free_mem m' = {}"
proof -
  show d: "\<forall>f \<in> set fs. data_frame f m'" and at: "\<forall>i < length fs. page_map m' (page_of va + i) = Some (fs ! i)"
    using assms by (auto simp: new_pages_def frames_owned_def data_frame_def)
  show low: "\<forall>i < length fs. page_of va + i \<in> low_pages" using assms by (auto simp: new_pages_def low_page_idx)
  have "paging_ok m'" using assms by (simp add: new_pages_def)
  then show "set fs \<inter> free_mem m' = {}" using at low paging_okD(9) by (fastforce simp: in_set_conv_nth)
qed

text \<open>What is written to the new pages leaves the rest as it is.\<close>

lemma new_pages_write:
  assumes "new_pages va fs m m1" "data_only m1 m2" "\<forall>f. f \<notin> set fs \<longrightarrow> ram m2 f = ram m1 f"
  shows "new_pages va fs m m2"
proof -
  note F = data_only_fields [OF assms(2)] and D = data_only_maps [OF assms(2)] and N = new_pages_frames [OF assms(1)]
  note M = assms(1) [unfolded new_pages_def]
  show ?thesis
    unfolding new_pages_def F
  proof (intro conjI)
    show "paging_ok m2" "vpool_ok PF_KERNEL m2" using data_only_ok [OF assms(2)] M by simp_all
    show "frames_owned m2 (page_of va) fs" using M N(3) by (simp add: frames_owned_def D(2,4,6) F(1))
    show "\<forall>q \<in> low_pages. 1024 \<le> q \<and> q \<notin> {page_of va..<page_of va + length fs} \<longrightarrow> page_map m2 q = page_map m q"
      using M by (simp add: D(6))
    show "tables m2 \<subseteq> tables m \<union> free_mem m - set fs" using M by (simp add: D(2))
    show "\<forall>f. f \<notin> free_mem m \<union> tables m \<union> {frame_of (pd_base m)} \<longrightarrow> ram m2 f = ram m f"
      using M assms(3) by (auto simp: free_mem_def)
    obtain r2 where r2: "m2 = m1\<lparr>ram := r2\<rparr>" using assms(2) unfolding data_only_def by blast
    have "only_kernel_memory m m1" using M by blast
    then obtain r k v where m1: "m1 = m\<lparr>ram := r, kernel_pool := k, kernel_vaddr_pool := v\<rparr>"
      by (rule only_kernel_memoryE)
    show "only_kernel_memory m m2" by (simp add: only_kernel_memory_def r2 m1)
  qed (use M in blast)+
qed

lemma get_kernel_pages_ok:
  assumes "paging_ok m" "vpool_ok PF_KERNEL m" "0 < n" "n < 3840" "kernel_room n m" "frames_for PF_KERNEL n m"
  obtains va fs m' where "get_kernel_pages n m = Inr (va, m')" "length fs = n" "new_pages va fs m m'"
    "\<forall>f \<in> set fs. \<forall>i < 1024. ram m' f i = 0"
proof -
  have r: "\<exists>s. free_run (vaddr_bitmap (vpool_of PF_KERNEL m)) s n"
    using assms(5) by (simp add: kernel_room_def vpool_of_def)
  obtain va m1 fs s where M: "malloc_page PF_KERNEL n m = Inr (va, m1)" "va \<noteq> 0" "unat va mod 4096 = 0"
    "paging_ok m1" "vpool_ok PF_KERNEL m1" "length fs = n" "set fs \<subseteq> free_frames (pool_of PF_KERNEL m)"
    "page_of va = page_of (vaddr_start (vpool_of PF_KERNEL m)) + s"
    "vaddr_start (vpool_of PF_KERNEL m1) = vaddr_start (vpool_of PF_KERNEL m)"
    "free_run (vaddr_bitmap (vpool_of PF_KERNEL m)) s n"
    "nbits (vaddr_bitmap (vpool_of PF_KERNEL m1)) = nbits (vaddr_bitmap (vpool_of PF_KERNEL m))"
    "used (vaddr_bitmap (vpool_of PF_KERNEL m1)) = used (vaddr_bitmap (vpool_of PF_KERNEL m)) \<union> {s..<s + n}"
    "same_pool (kernel_pool m) (kernel_pool m1)" "same_pool (user_pool m) (user_pool m1)"
    "frames_owned m1 (page_of va) fs" "\<forall>i < n. page_map m (page_of va + i) = None"
    "\<forall>q \<in> low_pages. 1024 \<le> q \<and> q \<notin> {page_of va..<page_of va + n} \<longrightarrow> page_map m1 q = page_map m q"
    "tables m1 \<subseteq> tables m \<union> free_mem m - set fs"
    "\<forall>f. f \<notin> free_mem m \<union> tables m \<union> {frame_of (pd_base m)} \<longrightarrow> ram m1 f = ram m f"
    "free_frames (kernel_pool m1) \<subseteq> free_frames (kernel_pool m)" "free_frames (user_pool m1) \<subseteq> free_frames (user_pool m)"
    "PF_KERNEL = PF_KERNEL \<longrightarrow> user_pool m1 = user_pool m"
    "\<forall>k. frames_for PF_KERNEL (n + k) m \<longrightarrow> frames_for PF_KERNEL k m1"
    "\<exists>v. m1 = (set_vpool PF_KERNEL v m)\<lparr>ram := ram m1, kernel_pool := kernel_pool m1, user_pool := user_pool m1\<rparr>"
    using malloc_page_ok [OF assms(1,2,3,4) r assms(6)] by (elim exE conjE) (rule that, (assumption | rule exI)+)
  have lo: "786432 \<le> page_of va" using M(8) assms(5) by (simp add: kernel_room_def vpool_of_def)
  have hi: "page_of va + n \<le> 1047552"
  proof -
    have "s + n \<le> nbits (vaddr_bitmap (vpool_of PF_KERNEL m))" using M(10) by (simp add: free_run_def)
    moreover have "page_of (vaddr_start (vpool_of PF_KERNEL m)) + nbits (vaddr_bitmap (vpool_of PF_KERNEL m)) \<le> 1047552"
      using assms(2) by (simp add: vpool_ok_def Let_def)
    ultimately show ?thesis using M(8) by simp
  qed
  obtain v where "m1 = (set_vpool PF_KERNEL v m)\<lparr>ram := ram m1, kernel_pool := kernel_pool m1, user_pool := user_pool m1\<rparr>"
    using M(24) by blast
  then obtain r k u where "m1 = (set_vpool PF_KERNEL v m)\<lparr>ram := r, kernel_pool := k, user_pool := u\<rparr>" by blast
  then have sh: "m1 = m\<lparr>ram := r, kernel_pool := k, user_pool := u, kernel_vaddr_pool := v\<rparr>" by (simp add: set_vpool_def)
  have u: "u = user_pool m" using M(22) by (simp add: sh)
  have kv: "vpool_of PF_KERNEL x = kernel_vaddr_pool x" "pool_of PF_KERNEL x = kernel_pool x" for x :: "'a memk_scheme"
    by (simp_all add: vpool_of_def pool_of_def)
  have "new_pages va fs m m1"
    unfolding new_pages_def M(6)
  proof (intro conjI)
    show "user_pool m1 = user_pool m" using M(22) by simp
    show "only_kernel_memory m m1" by (simp add: only_kernel_memory_def sh u)
    show "used (vaddr_bitmap (kernel_vaddr_pool m1)) = used (vaddr_bitmap (kernel_vaddr_pool m)) \<union>
        {page_of va - page_of (vaddr_start (kernel_vaddr_pool m))..<page_of va - page_of (vaddr_start (kernel_vaddr_pool m)) + n}"
      using M(12) M(8) by (simp add: kv)
  qed (use M lo hi in \<open>simp_all add: kv\<close>)
  note N = new_pages_frames [OF this]
  obtain m2 where z: "zero_pages (length fs) va m1 = Inr m2" "data_only m1 m2" "\<forall>f \<in> set fs. \<forall>i < 1024. ram m2 f i = 0"
    "\<forall>f. f \<notin> set fs \<longrightarrow> ram m2 f = ram m1 f"
    using zero_pages_ok [OF paging_okD(1) [OF M(4)] M(3) _ N(2,1)] hi M(6) by auto
  have g: "get_kernel_pages n m = Inr (va, m2)" using M(1,2,6) z(1) by (simp add: get_kernel_pages_def)
  show thesis using that [OF g M(6) new_pages_write [OF \<open>new_pages va fs m m1\<close> z(2,4)] z(3)] .
qed

section \<open>Another directory\<close>

text \<open>The memory as the processor sees it after \<open>d\<close> is loaded into CR3.\<close>

definition in_dir :: "u32 \<Rightarrow> 'a memk_scheme \<Rightarrow> 'a memk_scheme" where
  "in_dir d m = m\<lparr>pd_base := d\<rparr>"

lemma in_dir_fields [simp]:
  "ram (in_dir d m) = ram m" "pd_base (in_dir d m) = d" "kernel_pool (in_dir d m) = kernel_pool m"
  "user_pool (in_dir d m) = user_pool m" "free_mem (in_dir d m) = free_mem m" "in_dir d (in_dir e m) = in_dir d m"
  "in_dir (pd_base m) m = m" "tasks (in_dir d m) = tasks m" "cur (in_dir d m) = cur m"
  by (simp_all add: in_dir_def free_mem_def)

lemma addr_v2p_mapped:
  assumes "self_map m" "page_map m (page_of va) = Some f" "unat va mod 4096 = 0"
  shows "\<exists>pa. addr_v2p va m = Inr pa \<and> unat pa = f * 4096 \<and> frame_of pa = f \<and> mmu m va = Some pa"
proof -
  obtain pa where pa: "mmu m va = Some pa" "frame_of pa = f" using mmu_mapped [OF assms(2)] by blast
  have "unat (va AND 0xfff) = 0" using assms(3) by simp
  then have "va AND 0xfff = 0" by (simp only: unsigned_eq_0_iff)
  then have "pa = pte_at m va AND 0xfffff000" using pa(1) by (simp add: mmu_def split: if_splits)
  then have "unat pa = f * 4096" using pa(2) by (auto simp: frame_of_div)
  then show ?thesis using pa addr_v2p_is_mmu [OF assms(1), of va] by blast
qed

lemma create_page_dir_ok:
  assumes "paging_ok m" "vpool_ok PF_KERNEL m" "kernel_room 1 m" "frames_for PF_KERNEL 1 m"
  obtains va f d m' where "create_page_dir m = Inr (va, m')" "new_pages va [f] m m'" "mmu m' va = Some d" "unat d = f * 4096"
    "addr_v2p va m' = Inr d" "\<And>i. i < 768 \<Longrightarrow> dir_entry_of (in_dir d m') i = 0"
    "\<And>i. 768 \<le> i \<Longrightarrow> i < 1023 \<Longrightarrow> dir_entry_of (in_dir d m') i = dir_entry_of m' i"
    "dir_entry_of (in_dir d m') 1023 = d OR 7"
proof -
  obtain va fs m2 where g: "get_kernel_pages 1 m = Inr (va, m2)" "length fs = 1" "new_pages va fs m m2"
    "\<forall>f \<in> set fs. \<forall>i < 1024. ram m2 f i = 0"
    by (rule get_kernel_pages_ok [OF assms(1,2) _ _ assms(3,4)]) simp_all
  then obtain f where fs: "fs = [f]" by (cases fs) auto
  note N = new_pages_frames [OF g(3)]
  have ok: "paging_ok m2" "va \<noteq> 0" "unat va mod 4096 = 0" using g(3) by (simp_all add: new_pages_def)
  have at: "page_map m2 (page_of va) = Some f" "data_frame f m2" using N(1,2) fs by simp_all
  note sm = paging_okD(1) [OF ok(1)]
  let ?pd = "frame_of (pd_base m2)"
  have ne: "f \<noteq> ?pd" using at(2) by (simp add: data_frame_def)
  have off: "page_of (va + of_nat k) = page_of va" "unat (va + of_nat k) mod 4096 = k" if "k < 4096" for k
    using word_step [of va k] ok(3) that by simp_all
  have d: "page_of (va + 3072) = page_of va" "unat (va + 3072) mod 4096 = 3072"
    "page_of (va + 4092) = page_of va" "unat (va + 4092) mod 4096 = 4092"
    using off [of 3072] off [of 4092] by simp_all
  have d4: "unat (va + 3072) mod 4 = 0" using d(2) mod_mod_cancel [of 4 4096 "unat (va + 3072)"] by simp
  have top: "page_map m2 1048575 = Some ?pd"
    using sm by (simp add: page_map_def self_map_def Let_def) (simp add: dir_entry_of_def)
  let ?h = "copied 256 768 768 (ram m2 ?pd) (ram m2 f)"
  have c: "copy_words 256 (va + 3072) 0xfffffc00 m2 = Inr (set_frame f ?h m2)"
    using copy_words_ok [OF sm _ at(2) _ ne, of "va + 3072" "0xfffffc00" 256] at(1) top d d4
    by (simp add: page_of_def)
  let ?m3 = "set_frame f ?h m2"
  have do3: "data_only m2 ?m3" by (rule data_only_set_frame [OF at(2)])
  have sm3: "self_map ?m3" using sm data_only_maps(5) [OF do3] by simp
  have low: "page_of va \<in> low_pages" using N(3) fs by simp
  have at3: "page_map ?m3 (page_of va) = Some f" using data_only_maps(6) [OF do3 low] at(1) by simp
  obtain pa where pa: "addr_v2p va ?m3 = Inr pa" "unat pa = f * 4096" "frame_of pa = f" "mmu ?m3 va = Some pa"
    using addr_v2p_mapped [OF sm3 at3 ok(3)] by blast
  let ?g = "?h(1023 := pa OR 7)" let ?m4 = "set_frame f ?g m2"
  have st: "store (va + 4092) (pa OR 7) ?m3 = Inr ?m4"
    using store_mapped [of ?m3 "va + 4092" f "pa OR 7"] at3 d by simp
  have do4: "data_only m2 ?m4" by (rule data_only_set_frame [OF at(2)])
  have cr: "create_page_dir m = Inr (va, ?m4)" using g(1) ok(2) c pa(1) st by (simp add: create_page_dir_def)
  have np: "new_pages va [f] m ?m4" using new_pages_write [OF g(3) do4] fs by (simp add: set_frame_def)
  have at4: "page_map ?m4 (page_of va) = Some f" "self_map ?m4"
    using data_only_maps(5,6) [OF do4] low at(1) sm by simp_all
  obtain pa' where pa': "addr_v2p va ?m4 = Inr pa'" "unat pa' = f * 4096" "mmu ?m4 va = Some pa'"
    using addr_v2p_mapped [OF at4(2,1) ok(3)] by blast
  have "pa' = pa" using pa(2) pa'(2) by (simp add: word_unat_eq_iff)
  have de: "dir_entry_of (in_dir pa ?m4) i = ?g i" for i by (simp add: dir_entry_of_def pa(3))
  have "ram m2 f i = 0" if "i < 1024" for i using g(4) fs that by simp
  then have lo0: "dir_entry_of (in_dir pa ?m4) i = 0" if "i < 768" for i using that \<open>\<And>i. i < 1024 \<Longrightarrow> ram m2 f i = 0\<close>
    by (simp add: de) (simp add: copied_def)
  have hi0: "dir_entry_of (in_dir pa ?m4) i = dir_entry_of ?m4 i" if "768 \<le> i" "i < 1023" for i
    using that by (simp add: de data_only_maps(1) [OF do4]) (simp add: copied_def dir_entry_of_def)
  have top0: "dir_entry_of (in_dir pa ?m4) 1023 = pa OR 7" by (simp add: de)
  show thesis
    using that [OF cr np pa'(3) pa'(2) pa'(1)] lo0 hi0 top0 unfolding \<open>pa' = pa\<close> by blast
qed

text \<open>A directory with an empty lower half and the upper half of the one in use.\<close>

definition upper_half_of :: "u32 \<Rightarrow> 'a memk_scheme \<Rightarrow> bool" where
  "upper_half_of d m \<longleftrightarrow> (\<forall>i < 768. \<not> present (dir_entry_of (in_dir d m) i)) \<and>
     (\<forall>i. 768 \<le> i \<and> i < 1023 \<longrightarrow> dir_entry_of (in_dir d m) i = dir_entry_of m i) \<and> self_map (in_dir d m)"

lemma upper_half_maps:
  assumes "upper_half_of d m"
  shows "q < 786432 \<Longrightarrow> page_map (in_dir d m) q = None"
    "786432 \<le> q \<Longrightarrow> q \<in> low_pages \<Longrightarrow> page_map (in_dir d m) q = page_map m q"
    "tables (in_dir d m) \<subseteq> tables m"
proof -
  note U = assms [unfolded upper_half_of_def]
  show "page_map (in_dir d m) q = None" if "q < 786432"
  proof -
    have "q div 1024 < 768" using that by simp
    then show ?thesis using U by (simp add: page_map_def)
  qed
  show "page_map (in_dir d m) q = page_map m q" if "786432 \<le> q" "q \<in> low_pages"
  proof -
    have "768 \<le> q div 1024" "q div 1024 < 1023" using that by (simp_all add: low_page_idx)
    then show ?thesis using U by (simp add: page_map_def)
  qed
  show "tables (in_dir d m) \<subseteq> tables m"
  proof
    fix f assume "f \<in> tables (in_dir d m)"
    then obtain i where i: "i < 1023" "present (dir_entry_of (in_dir d m) i)" "f = frame_of (dir_entry_of (in_dir d m) i)"
      by (auto simp: tables_def)
    then have "768 \<le> i" using U by (meson not_le)
    then have "dir_entry_of (in_dir d m) i = dir_entry_of m i" using U i(1) by blast
    then show "f \<in> tables m" using i by (auto simp: tables_def)
  qed
qed

lemma upper_half_ok:
  assumes "paging_ok m" "upper_half_of d m" "data_frame (frame_of d) m" "frame_of d \<notin> free_mem m"
  shows "paging_ok (in_dir d m)"
proof -
  note D = paging_okD [OF assms(1)] and U = assms(2) [unfolded upper_half_of_def] and M = upper_half_maps [OF assms(2)]
  show ?thesis
  proof (rule paging_okI)
    show "frame_of (pd_base (in_dir d m)) \<notin> tables (in_dir d m)" using M(3) assms(3) by (auto simp: data_frame_def)
    show "tables (in_dir d m) \<inter> free_mem (in_dir d m) = {}" using M(3) D(7) by auto
    show "i = j \<or> twin i j"
      if "i < 1023" "j < 1023" "present (dir_entry_of (in_dir d m) i)" "present (dir_entry_of (in_dir d m) j)"
        "frame_of (dir_entry_of (in_dir d m) i) = frame_of (dir_entry_of (in_dir d m) j)" for i j
    proof -
      have "768 \<le> i" "768 \<le> j" using U that by (meson not_le)+
      then show ?thesis using D(8) [of i j] U that by simp
    qed
    show "f \<notin> free_mem (in_dir d m)" if "p \<in> low_pages" "page_map (in_dir d m) p = Some f" for p f
      using M(1,2) [of p] D(9) [of p f] that by (cases "p < 786432") auto
  qed (use D U assms(4) in simp_all)
qed

lemma create_page_dir_half:
  assumes "paging_ok m" "vpool_ok PF_KERNEL m" "kernel_room 1 m" "frames_for PF_KERNEL 1 m"
  obtains va f d m' where "create_page_dir m = Inr (va, m')" "new_pages va [f] m m'" "mmu m' va = Some d" "unat d = f * 4096"
    "addr_v2p va m' = Inr d" "upper_half_of d m'" "paging_ok (in_dir d m')"
proof -
  obtain va f d m' where c: "create_page_dir m = Inr (va, m')" "new_pages va [f] m m'" "mmu m' va = Some d" "unat d = f * 4096"
    "addr_v2p va m' = Inr d" "\<And>i. i < 768 \<Longrightarrow> dir_entry_of (in_dir d m') i = 0"
    "\<And>i. 768 \<le> i \<Longrightarrow> i < 1023 \<Longrightarrow> dir_entry_of (in_dir d m') i = dir_entry_of m' i"
    "dir_entry_of (in_dir d m') 1023 = d OR 7"
    by (rule create_page_dir_ok [OF assms]) blast
  have f: "frame_of d = f" using c(4) by (simp add: frame_of_div)
  have u: "upper_half_of d m'" using c(6-8) by (simp add: upper_half_of_def self_map_def)
  have "data_frame (frame_of d) m'" "frame_of d \<notin> free_mem m'" using new_pages_frames(1,4) [OF c(2)] by (simp_all add: f)
  moreover have "paging_ok m'" using c(2) by (simp add: new_pages_def)
  ultimately have "paging_ok (in_dir d m')" using upper_half_ok [OF _ u] by blast
  then show thesis using that c(1-5) u by blast
qed

section \<open>Results\<close>

text \<open>
  C9: The page directory of a new process. \<open>create_page_dir\<close> returns the address of a new page.
  Once the processor uses that directory, no address below 3 GB is mapped, every page of the
  kernel leads where it leads in the address space of the caller, and the invariant of the page
  tables holds (the directory maps itself, so the code that edits page tables works in the new
  space as well). In the caller's address space nothing from 4 MB up changes but the new page.
\<close>

theorem new_directory_shares_kernel:
  assumes "paging_ok m" "vpool_ok PF_KERNEL m" "kernel_room 1 m" "frames_for PF_KERNEL 1 m"
  shows "\<exists>va d m'. create_page_dir m = Inr (va, m') \<and> va \<noteq> 0 \<and> mmu m' va = Some d \<and>
    paging_ok (in_dir d m') \<and> (\<forall>q < 786432. page_map (in_dir d m') q = None) \<and>
    (\<forall>q \<in> low_pages. 786432 \<le> q \<longrightarrow> page_map (in_dir d m') q = page_map m' q) \<and>
    paging_ok m' \<and> vpool_ok PF_KERNEL m' \<and> page_map m (page_of va) = None \<and>
    (\<forall>q \<in> low_pages. 1024 \<le> q \<and> q \<noteq> page_of va \<longrightarrow> page_map m' q = page_map m q)"
proof -
  obtain va f d m' where c: "create_page_dir m = Inr (va, m')" "new_pages va [f] m m'" "mmu m' va = Some d"
    "upper_half_of d m'" "paging_ok (in_dir d m')"
    by (rule create_page_dir_half [OF assms]) blast
  show ?thesis
  proof (rule exI [of _ va], rule exI [of _ d], rule exI [of _ m'], intro conjI)
    show "\<forall>q \<in> low_pages. 1024 \<le> q \<and> q \<noteq> page_of va \<longrightarrow> page_map m' q = page_map m q"
      using c(2) by (simp add: new_pages_def)
  qed (use c upper_half_maps(1,2) [OF c(4)] in \<open>simp_all add: new_pages_def\<close>)
qed

lemma new_directory_shares_kernel_witness:
  "\<exists>va d m'. create_page_dir demo_mem = Inr (va, m') \<and> mmu m' va = Some d \<and> page_map (in_dir d m') 0x8048 = None"
proof -
  have "kernel_room 1 demo_mem" using demo_run [of 1] by (auto simp: kernel_room_def vpool_of_def page_of_def)
  moreover have "frames_for PF_KERNEL 1 demo_mem" by (simp add: frames_for_def)
  ultimately show ?thesis
    using new_directory_shares_kernel [OF demo_paging_ok(1) demo_vpool_ok] by fastforce
qed

end
