(* ===== verification/Forkspace.thy ===== *)
theory Forkspace
  imports Fork Addrspace
begin

text \<open>
  What \<open>copy_body_stack3\<close> of \<open>userprog/fork.c\<close> does to the memory: the address space of a child
  process is a copy of its parent's.
\<close>

section \<open>One page in the address space in use\<close>

text \<open>What of the memory \<open>page_table_add\<close> may write to.\<close>

lemma page_table_add_ram:
  assumes "paging_ok m" "page_of va \<in> low_pages" "page_map m (page_of va) = None"
    "frame_of pa \<notin> free_mem m" "free_frames (kernel_pool m) \<noteq> {}" "page_table_add va pa m = Inr m'"
  shows "f \<notin> free_mem m \<Longrightarrow> f \<noteq> frame_of (pd_base m) \<Longrightarrow>
      (present (pde_at m va) \<Longrightarrow> f \<noteq> frame_of (pde_at m va)) \<Longrightarrow> ram m' f = ram m f"
    "i \<noteq> page_of va div 1024 \<Longrightarrow> dir_entry_of m' i = dir_entry_of m i"
    "present (pde_at m va) \<Longrightarrow> dir_entry_of m' = dir_entry_of m"
    "\<not> present (pde_at m va) \<Longrightarrow> frame_of (dir_entry_of m' (page_of va div 1024)) \<in> free_frames (kernel_pool m)"
proof -
  have "(f \<notin> free_mem m \<longrightarrow> f \<noteq> frame_of (pd_base m) \<longrightarrow>
      (present (pde_at m va) \<longrightarrow> f \<noteq> frame_of (pde_at m va)) \<longrightarrow> ram m' f = ram m f) \<and>
    (i \<noteq> page_of va div 1024 \<longrightarrow> dir_entry_of m' i = dir_entry_of m i) \<and>
    (present (pde_at m va) \<longrightarrow> dir_entry_of m' = dir_entry_of m) \<and>
    (\<not> present (pde_at m va) \<longrightarrow> frame_of (dir_entry_of m' (page_of va div 1024)) \<in> free_frames (kernel_pool m))"
  proof (cases "present (pde_at m va)")
    case True
    note add = page_table_add_there [OF assms(1-4) True]
    have "m' = poke (frame_of (pde_at m va)) (page_of va mod 1024) (pa OR 7) m" using add(1) assms(6) by simp
    then show ?thesis using add(6) True by simp
  next
    case False
    obtain w kp where w: "frame_of w \<in> free_frames (kernel_pool m)"
      "page_table_add va pa m = Inr (poke (frame_of w) (page_of va mod 1024) (pa OR 7)
         (install_table (page_of va div 1024) (w OR 7) kp m))"
      by (rule page_table_add_new [OF assms(1-5) False])
    have m': "m' = poke (frame_of w) (page_of va mod 1024) (pa OR 7) (install_table (page_of va div 1024) (w OR 7) kp m)"
      using w(2) assms(6) by simp
    have wd: "frame_of w \<noteq> frame_of (pd_base m)" "frame_of w \<in> free_mem m"
      using paging_okD(6) [OF assms(1)] w(1) by (auto simp: free_mem_def)
    then show ?thesis using False w(1) by (auto simp: m' install_table_def dir_entry_of_def)
  qed
  then show "f \<notin> free_mem m \<Longrightarrow> f \<noteq> frame_of (pd_base m) \<Longrightarrow>
      (present (pde_at m va) \<Longrightarrow> f \<noteq> frame_of (pde_at m va)) \<Longrightarrow> ram m' f = ram m f"
    "i \<noteq> page_of va div 1024 \<Longrightarrow> dir_entry_of m' i = dir_entry_of m i"
    "present (pde_at m va) \<Longrightarrow> dir_entry_of m' = dir_entry_of m"
    "\<not> present (pde_at m va) \<Longrightarrow> frame_of (dir_entry_of m' (page_of va div 1024)) \<in> free_frames (kernel_pool m)"
    by blast+
qed

text \<open>A frame of the user pool behind a user page; the lock of the pool is free before and after.\<close>

definition user_page_added :: "nat \<Rightarrow> nat \<Rightarrow> 'a memk_scheme \<Rightarrow> 'a memk_scheme \<Rightarrow> bool" where
  "user_page_added p g k k' \<longleftrightarrow> paging_ok k' \<and> mem_step k k' \<and> g \<in> free_frames (user_pool k) \<and> page_map k' p = Some g \<and>
     (\<forall>q \<in> low_pages. 1024 \<le> q \<and> q \<noteq> p \<longrightarrow> page_map k' q = page_map k q) \<and>
     (\<forall>n. frames_for PF_USER (Suc n) k \<longrightarrow> frames_for PF_USER n k') \<and> free_mem k' \<subseteq> free_mem k - {g} \<and>
     (\<forall>f. f \<notin> free_mem k \<and> f \<noteq> frame_of (pd_base k) \<and>
        \<not> (present (dir_entry_of k (p div 1024)) \<and> f = frame_of (dir_entry_of k (p div 1024))) \<longrightarrow> ram k' f = ram k f) \<and>
     (\<forall>i. i \<noteq> p div 1024 \<longrightarrow> dir_entry_of k' i = dir_entry_of k i) \<and>
     (dir_entry_of k' (p div 1024) = dir_entry_of k (p div 1024) \<or>
      frame_of (dir_entry_of k' (p div 1024)) \<in> free_mem k) \<and> g \<notin> tables k'"

lemma get_user_page_ok:
  assumes "paging_ok k" "lock_free (pool_lock (user_pool k))" "1024 \<le> page_of va" "page_of va < 786432"
    "page_map k (page_of va) = None" "frames_for PF_USER (Suc n) k"
  obtains g k' where "get_a_page_without_opvaddrbitmap PF_USER va k = Inr (va, k')" "user_page_added (page_of va) g k k'"
proof -
  let ?l = "pool_lock (user_pool k)" and ?p = "page_of va"
  let ?k1 = "locked PF_USER k"
  have low: "?p \<in> low_pages" using assms(4) by (simp add: low_page_idx)
  have l1: "?k1 = k\<lparr>user_pool := (user_pool k)\<lparr>pool_lock := lock_taken (cur k) ?l\<rparr>\<rparr>"
    by (simp add: locked_def set_pool_def pool_of_def)
  have wf: "wf_pool (user_pool k)" by (rule paging_okD(3) [OF assms(1)])
  have fr: "frame_nr (q\<lparr>pool_lock := l\<rparr>) = frame_nr q" "pool_frames (q\<lparr>pool_lock := l\<rparr>) = pool_frames q"
    "free_frames (q\<lparr>pool_lock := l\<rparr>) = free_frames q" "wf_pool (q\<lparr>pool_lock := l\<rparr>) = wf_pool q" for q l
    by (simp_all add: frame_nr_def pool_frames_def free_frames_def wf_pool_def fun_eq_iff)
  have ok1: "paging_ok ?k1" "page_map ?k1 = page_map k"
    using set_pool_ok(1,2) [OF assms(1), of "(user_pool k)\<lparr>pool_lock := lock_taken (cur k) ?l\<rparr>" PF_USER] wf
    by (simp_all add: locked_def pool_of_def fr)
  have ff: "frames_for PF_USER j ?k1 = frames_for PF_USER j k" for j by (simp add: frames_for_def l1 fr)
  have fm1: "free_mem ?k1 = free_mem k" by (simp add: free_mem_def l1 fr)
  obtain pa p where p: "palloc (pool_of PF_USER ?k1) = Inr (pa, p)" "pa \<noteq> 0"
    "frame_of pa \<in> free_frames (pool_of PF_USER ?k1)"
    "paging_ok (set_pool PF_USER p ?k1)" "page_map (set_pool PF_USER p ?k1) = page_map ?k1" "mem_step ?k1 (set_pool PF_USER p ?k1)"
    "frame_of pa \<notin> free_mem (set_pool PF_USER p ?k1)" "free_frames (kernel_pool (set_pool PF_USER p ?k1)) \<noteq> {}"
    "free_frames p = free_frames (pool_of PF_USER ?k1) - {frame_of pa}"
    by (rule alloc_frame [OF ok1(1) assms(6) [folded ff]]) blast
  let ?k2 = "set_pool PF_USER p ?k1"
  have k2: "?k2 = k\<lparr>user_pool := p\<rparr>" by (simp add: set_pool_def l1)
  have un: "page_map ?k2 ?p = None" using assms(5) by (simp add: p(5) ok1(2))
  obtain k3 where k3: "page_table_add va pa ?k2 = Inr k3" "paging_ok k3" "k3 = ?k2\<lparr>ram := ram k3, kernel_pool := kernel_pool k3\<rparr>"
    "page_map k3 ?p = Some (frame_of pa)"
    "\<forall>q \<in> low_pages. \<not> same_entry ?p q \<longrightarrow> page_map k3 q = page_map ?k2 q"
    "same_pool (kernel_pool ?k2) (kernel_pool k3)" "free_frames (kernel_pool k3) \<subseteq> free_frames (kernel_pool ?k2)"
    "tables k3 \<subseteq> tables ?k2 \<union> free_frames (kernel_pool ?k2)"
    "card (free_frames (kernel_pool ?k2)) \<le> card (free_frames (kernel_pool k3)) + 1"
    using page_table_add_ok [OF p(4) low un p(7,8)] by blast
  note R = page_table_add_ram [OF p(4) low un p(7,8) k3(1)]
  obtain r kp where "k3 = ?k2\<lparr>ram := r, kernel_pool := kp\<rparr>" using k3(3) by blast
  then have k3': "k3 = k\<lparr>ram := r, kernel_pool := kp, user_pool := p\<rparr>" by (simp add: k2)
  have po: "pool_of PF_USER ?k1 = (user_pool k)\<lparr>pool_lock := lock_taken (cur k) ?l\<rparr>" by (simp add: pool_of_def l1)
  have sp: "same_pool (pool_of PF_USER ?k1) p" using p(6) by (simp add: mem_step_def set_pool_def l1 pool_of_def)
  then have pl: "pool_lock p = lock_taken (cur k) ?l" unfolding po same_pool_def
    by (metis pool.select_convs(4) pool.surjective pool.update_convs(1) pool.update_convs(4))
  let ?k' = "k3\<lparr>user_pool := p\<lparr>pool_lock := ?l\<rparr>\<rparr>"
  have rel: "release_pool PF_USER k3 = Inr ?k'"
    using lock_release_taken [OF assms(2), of k3 "cur k"] pl by (simp add: release_pool_def pool_of_def set_pool_def k3')
  have run: "get_a_page_without_opvaddrbitmap PF_USER va k = Inr (va, ?k')"
    using p(1,2) k3(1) rel assms(2) acquire_pool_free [of PF_USER k]
    by (simp add: get_a_page_without_opvaddrbitmap_def map_one_def pool_of_def)
  have F: "ram ?k' = ram k3" "pd_base ?k' = pd_base k3" "kernel_pool ?k' = kernel_pool k3" by simp_all
  have D: "dir_entry_of ?k' = dir_entry_of k3" by (simp add: dir_entry_of_def fun_eq_iff)
  have P: "page_map ?k' = page_map k3" by (simp add: page_map_def fun_eq_iff D)
  have T: "tables ?k' = tables k3" by (simp add: tables_def D)
  have okk: "paging_ok ?k'"
    using set_pool_ok(1) [OF k3(2), of "p\<lparr>pool_lock := ?l\<rparr>" PF_USER] paging_okD(3) [OF k3(2)]
    by (simp add: set_pool_def pool_of_def fr k3')
  have pf: "pool_frames p = pool_frames (user_pool k)" using sp by (simp add: same_pool_def po fr)
  have gu: "frame_of pa \<in> free_frames (user_pool k)" using p(3) by (simp add: po fr)
  have fp: "free_frames p = free_frames (user_pool k) - {frame_of pa}" using p(9) by (simp add: po fr)
  have E: "dir_entry_of ?k2 = dir_entry_of k" "pd_base ?k2 = pd_base k" "ram ?k2 = ram k" "kernel_pool ?k2 = kernel_pool k" "tables ?k2 = tables k"
    by (simp_all add: k2 dir_entry_of_def tables_def fun_eq_iff)
  have fm2: "free_mem ?k2 \<subseteq> free_mem k" by (auto simp: k2 free_mem_def fp)
  have gk: "frame_of pa \<notin> free_frames (kernel_pool k)"
    using gu paging_okD(4) [OF assms(1)] free_pool_frames [of "kernel_pool k"] free_pool_frames [of "user_pool k"] by blast
  have "user_page_added ?p (frame_of pa) k ?k'"
    unfolding user_page_added_def P D T
  proof (intro conjI)
    show "paging_ok ?k'" by (rule okk)
    show "mem_step k ?k'"
    proof -
      have "same_pool (user_pool k) (p\<lparr>pool_lock := ?l\<rparr>)"
      proof -
        have "p = (user_pool k)\<lparr>pool_lock := lock_taken (cur k) ?l, pool_bitmap := pool_bitmap p\<rparr>"
          using sp by (simp add: same_pool_def po)
        then have "p\<lparr>pool_lock := ?l\<rparr> = (user_pool k)\<lparr>pool_bitmap := pool_bitmap p\<rparr>"
          by (metis pool.surjective pool.update_convs(1) pool.update_convs(4))
        then have "p\<lparr>pool_lock := ?l\<rparr> = (user_pool k)\<lparr>pool_bitmap := pool_bitmap (p\<lparr>pool_lock := ?l\<rparr>)\<rparr>" by simp
        moreover have "pool_frames (p\<lparr>pool_lock := ?l\<rparr>) = pool_frames (user_pool k)" by (simp only: fr pf)
        ultimately show ?thesis unfolding same_pool_def by blast
      qed
      then show ?thesis using k3(6) by (simp add: mem_step_def k3' E)
    qed
    show "\<forall>q \<in> low_pages. 1024 \<le> q \<and> q \<noteq> ?p \<longrightarrow> page_map k3 q = page_map k q"
      using k3(5) same_entry_high [of ?p] assms(3) by (metis p(5) ok1(2))
    show "\<forall>n. frames_for PF_USER (Suc n) k \<longrightarrow> frames_for PF_USER n ?k'"
      using k3(9) gu by (auto simp: frames_for_def k3' E fr fp card_Diff_singleton)
    show "free_mem ?k' \<subseteq> free_mem k - {frame_of pa}"
      using k3(7) gk by (auto simp: free_mem_def k3' E fr fp)
    show "\<forall>f. f \<notin> free_mem k \<and> f \<noteq> frame_of (pd_base k) \<and>
        \<not> (present (dir_entry_of k (?p div 1024)) \<and> f = frame_of (dir_entry_of k (?p div 1024))) \<longrightarrow> ram ?k' f = ram k f"
      unfolding F using R(1) fm2 by (auto simp: E pde_at_dir)
    show "\<forall>i. i \<noteq> ?p div 1024 \<longrightarrow> dir_entry_of k3 i = dir_entry_of k i" using R(2) by (simp add: E)
    show "dir_entry_of k3 (?p div 1024) = dir_entry_of k (?p div 1024) \<or> frame_of (dir_entry_of k3 (?p div 1024)) \<in> free_mem k"
      using R(3,4) by (cases "present (pde_at ?k2 va)") (auto simp: E free_mem_def)
    show "frame_of pa \<notin> tables k3"
      using k3(8) gk gu paging_okD(7) [OF assms(1)] by (auto simp: E free_mem_def)
  qed (use gu k3(4) in simp_all)
  then show thesis using that run by blast
qed

section \<open>Two address spaces\<close>

text \<open>Two states with the same memory and the same pools.\<close>

definition same_space :: "'a memk_scheme \<Rightarrow> 'a memk_scheme \<Rightarrow> bool" where
  "same_space m m' \<longleftrightarrow> ram m' = ram m \<and> pd_base m' = pd_base m \<and> kernel_pool m' = kernel_pool m \<and> user_pool m' = user_pool m"

lemma same_space_simps:
  assumes "same_space m m'"
  shows "dir_entry_of m' = dir_entry_of m" "page_map m' = page_map m" "tables m' = tables m" "data_frame f m' = data_frame f m"
    "free_mem m' = free_mem m" "paging_ok m' = paging_ok m" "frames_for pf n m' = frames_for pf n m"
    "same_space (in_dir d m) (in_dir d m')"
proof -
  note S = assms [unfolded same_space_def]
  show d: "dir_entry_of m' = dir_entry_of m" using S by (simp add: dir_entry_of_def fun_eq_iff)
  show p: "page_map m' = page_map m" using S by (simp add: page_map_def d fun_eq_iff)
  show t: "tables m' = tables m" by (simp add: tables_def d)
  show "data_frame f m' = data_frame f m" using S by (simp add: data_frame_def t)
  show f: "free_mem m' = free_mem m" using S by (simp add: free_mem_def)
  show "paging_ok m' = paging_ok m" using S by (simp add: paging_ok_def self_map_def d p t f)
  show "frames_for pf n m' = frames_for pf n m" using S by (cases pf) (simp_all add: frames_for_def)
  show "same_space (in_dir d m) (in_dir d m')" using S by (simp add: same_space_def)
qed

text \<open>
  A space whose directory and tables are not written to stays as it is, and its invariant holds
  as long as frames are only taken from the pools.
\<close>

lemma space_kept:
  assumes "\<forall>f. f = frame_of (pd_base m) \<or> f \<in> tables m \<longrightarrow> ram m' f = ram m f" "pd_base m' = pd_base m"
  shows "dir_entry_of m' = dir_entry_of m" "tables m' = tables m" "q \<in> low_pages \<Longrightarrow> page_map m' q = page_map m q"
proof -
  show d: "dir_entry_of m' = dir_entry_of m" using assms by (simp add: dir_entry_of_def fun_eq_iff)
  show "tables m' = tables m" by (simp add: tables_def d)
  show "page_map m' q = page_map m q" if q: "q \<in> low_pages"
  proof -
    have "ram m' (frame_of (dir_entry_of m (q div 1024))) = ram m (frame_of (dir_entry_of m (q div 1024)))"
      if "present (dir_entry_of m (q div 1024))"
      using assms(1) that q by (auto simp: tables_def low_page_idx)
    then show ?thesis by (auto simp: page_map_def d Let_def)
  qed
qed

lemma paging_kept:
  assumes "paging_ok m" "\<forall>f. f = frame_of (pd_base m) \<or> f \<in> tables m \<longrightarrow> ram m' f = ram m f" "pd_base m' = pd_base m"
    "wf_pool (kernel_pool m')" "wf_pool (user_pool m')" "pool_frames (kernel_pool m') = pool_frames (kernel_pool m)"
    "pool_frames (user_pool m') = pool_frames (user_pool m)" "free_mem m' \<subseteq> free_mem m"
  shows "paging_ok m'"
proof -
  note K = space_kept [OF assms(2,3)] and D = paging_okD [OF assms(1)]
  show ?thesis
  proof (rule paging_okI)
    show "tables m' \<inter> free_mem m' = {}" "frame_of (pd_base m') \<notin> free_mem m'" "frame_of (pd_base m') \<notin> tables m'"
      using D(5-7) assms(8) by (auto simp: K(2) assms(3))
    show "f \<notin> free_mem m'" if "q \<in> low_pages" "page_map m' q = Some f" for q f
      using D(9) [of q f] that assms(8) K(3) by auto
    show "i = j \<or> twin i j" if "i < 1023" "j < 1023" "present (dir_entry_of m' i)" "present (dir_entry_of m' j)"
      "frame_of (dir_entry_of m' i) = frame_of (dir_entry_of m' j)" for i j
      using D(8) [of i j] that by (simp add: K(1))
  qed (use D assms(3-7) K(1) in \<open>simp_all add: self_map_def\<close>)
qed

text \<open>
  During a fork: the directory \<open>d\<close> of the child and its tables of the lower half are apart from
  the directory and the tables of the parent, which are in use; the upper halves lead to the same
  frames.
\<close>

definition forking :: "u32 \<Rightarrow> 'a memk_scheme \<Rightarrow> bool" where
  "forking d m \<longleftrightarrow> paging_ok m \<and> paging_ok (in_dir d m) \<and> frame_of d \<noteq> frame_of (pd_base m) \<and> frame_of d \<notin> tables m \<and>
     (\<forall>i < 768. present (dir_entry_of (in_dir d m) i) \<longrightarrow>
        frame_of (dir_entry_of (in_dir d m) i) \<notin> tables m \<and> frame_of (dir_entry_of (in_dir d m) i) \<noteq> frame_of (pd_base m)) \<and>
     (\<forall>q \<in> low_pages. 786432 \<le> q \<longrightarrow> page_map (in_dir d m) q = page_map m q) \<and>
     lock_free (pool_lock (user_pool m))"

lemma forking_same_space: "same_space m m' \<Longrightarrow> forking d m' = forking d m"
  using same_space_simps [of m m'] same_space_simps [of "in_dir d m" "in_dir d m'"]
  by (simp add: forking_def) (simp add: same_space_def)

lemma forking_write:
  assumes "forking d m" "data_frame f m" "data_frame f (in_dir d m)"
  shows "forking d (set_frame f g m)"
proof -
  have c: "in_dir d (set_frame f g m) = set_frame f g (in_dir d m)" by (simp add: in_dir_def set_frame_def)
  note w = data_only_set_frame [OF assms(2), of g] and w' = data_only_set_frame [OF assms(3), of g]
  show ?thesis using assms(1) unfolding forking_def c
    by (simp add: data_only_ok [OF w] data_only_ok [OF w'] data_only_maps [OF w] data_only_maps [OF w'])
qed

lemma forking_add:
  assumes "forking d m" "1024 \<le> p" "p < 786432" "user_page_added p g (in_dir d m) k"
  defines "m' \<equiv> in_dir (pd_base m) k"
  shows "forking d m'" "in_dir d m' = k" "dir_entry_of m' = dir_entry_of m" "tables m' = tables m"
    "\<And>q. q \<in> low_pages \<Longrightarrow> page_map m' q = page_map m q" "data_frame g m'" "data_frame g k" "tables k \<subseteq> tables (in_dir d m) \<union> free_mem m"
proof -
  note F = assms(1) [unfolded forking_def]
  have pm: "paging_ok m" and pd: "paging_ok (in_dir d m)" using F by simp_all
  note D = paging_okD [OF pm] and D' = paging_okD [OF pd]
  note U = assms(4) [unfolded user_page_added_def]
  let ?e = "dir_entry_of (in_dir d m) (p div 1024)"
  have i: "p div 1024 < 768" using assms(3) by simp
  have ms: "mem_step (in_dir d m) k" using U by blast
  then have kd: "pd_base k = d" "pool_frames (kernel_pool k) = pool_frames (kernel_pool m)"
    "pool_frames (user_pool k) = pool_frames (user_pool m)" "pool_lock (user_pool k) = pool_lock (user_pool m)"
  proof -
    obtain r a b where "k = (in_dir d m)\<lparr>ram := r, kernel_pool := a, user_pool := b\<rparr>" using ms unfolding mem_step_def by blast
    then show "pd_base k = d" by simp
    show "pool_frames (kernel_pool k) = pool_frames (kernel_pool m)" "pool_frames (user_pool k) = pool_frames (user_pool m)"
      using ms by (simp_all add: mem_step_def same_pool_def)
    have "same_pool (user_pool m) (user_pool k)" using ms by (simp add: mem_step_def)
    then show "pool_lock (user_pool k) = pool_lock (user_pool m)" unfolding same_pool_def
      by (metis pool.select_convs(4) pool.surjective pool.update_convs(1))
  qed
  show c: "in_dir d m' = k" using kd(1) unfolding m'_def by (metis in_dir_fields(6,7))
  have kept: "\<forall>f. f = frame_of (pd_base m) \<or> f \<in> tables m \<longrightarrow> ram m' f = ram m f"
  proof (intro allI impI)
    fix f assume f: "f = frame_of (pd_base m) \<or> f \<in> tables m"
    then have "f \<notin> free_mem (in_dir d m)" "f \<noteq> frame_of (pd_base (in_dir d m))" using D(6,7) F by auto
    moreover have "\<not> (present ?e \<and> f = frame_of ?e)" using f F i by auto
    ultimately have "ram k f = ram (in_dir d m) f" using U by blast
    then show "ram m' f = ram m f" by (simp add: m'_def)
  qed
  have b: "pd_base m' = pd_base m" by (simp add: m'_def)
  note K = space_kept [OF kept b]
  show "dir_entry_of m' = dir_entry_of m" "tables m' = tables m" by (rule K)+
  show pmq: "page_map m' q = page_map m q" if "q \<in> low_pages" for q by (rule K(3) [OF that])
  have fk: "free_mem k \<subseteq> free_mem m" using U by auto
  have pk: "paging_ok k" using U by blast
  have pm': "paging_ok m'"
    by (rule paging_kept [OF pm kept b]) (use paging_okD(2,3) [OF pk] kd fk in \<open>simp_all add: m'_def\<close>)
  have gf: "g \<in> free_mem m" using U by (auto simp: free_mem_def)
  show "data_frame g m'" using gf D(6,7) by (auto simp: data_frame_def K(2) b)
  show "data_frame g k" using U gf D'(6) by (auto simp: data_frame_def kd(1))
  have ent: "dir_entry_of k j = dir_entry_of (in_dir d m) j \<or> frame_of (dir_entry_of k j) \<in> free_mem m" for j
    using U by (cases "j = p div 1024") auto
  show "tables k \<subseteq> tables (in_dir d m) \<union> free_mem m"
  proof
    fix f assume "f \<in> tables k"
    then obtain j where j: "j < 1023" "present (dir_entry_of k j)" "f = frame_of (dir_entry_of k j)" by (auto simp: tables_def)
    then show "f \<in> tables (in_dir d m) \<union> free_mem m" using ent [of j] by (auto simp: tables_def)
  qed
  show "forking d m'"
    unfolding forking_def c K(2) b
  proof (intro conjI allI ballI impI)
    fix j assume j: "j < (768 :: nat)" "present (dir_entry_of k j)"
    show "frame_of (dir_entry_of k j) \<notin> tables m" "frame_of (dir_entry_of k j) \<noteq> frame_of (pd_base m)"
      using ent [of j] F j D(6,7) by auto
  next
    fix q assume q: "q \<in> low_pages" "786432 \<le> q"
    then have "page_map k q = page_map (in_dir d m) q" using U assms(3) by simp
    then show "page_map k q = page_map m' q" using F q by (simp add: pmq)
  qed (use pm' pk F kd(4) in \<open>simp_all add: m'_def\<close>)
qed

section \<open>Copying pages\<close>

text \<open>
  What has happened when the pages \<open>ps\<close> are copied through the frame \<open>b\<close>: the child has them, on new
  frames with the same words; the parent's space and all frames in use are as before.
\<close>

definition only_memory :: "'a memk_scheme \<Rightarrow> 'a memk_scheme \<Rightarrow> bool" where
  "only_memory m m' \<longleftrightarrow> m' = m\<lparr>cr3 := cr3 m', ram := ram m', kernel_pool := kernel_pool m', user_pool := user_pool m'\<rparr>"

definition space_copied :: "u32 \<Rightarrow> nat \<Rightarrow> nat set \<Rightarrow> 'a memk_scheme \<Rightarrow> 'a memk_scheme \<Rightarrow> bool" where
  "space_copied d b ps m m' \<longleftrightarrow> forking d m' \<and> only_memory m m' \<and>
     dir_entry_of m' = dir_entry_of m \<and> (\<forall>q \<in> low_pages. page_map m' q = page_map m q) \<and> free_mem m' \<subseteq> free_mem m \<and>
     tables (in_dir d m') \<subseteq> tables (in_dir d m) \<union> free_mem m \<and>
     (\<forall>p \<in> ps. \<exists>f g. page_map m p = Some f \<and> page_map (in_dir d m') p = Some g \<and> g \<in> free_mem m \<and>
        data_frame g (in_dir d m') \<and> (\<forall>w < 1024. ram m' g w = ram m f w)) \<and>
     (\<forall>q \<in> low_pages. 1024 \<le> q \<and> q \<notin> ps \<longrightarrow> page_map (in_dir d m') q = page_map (in_dir d m) q) \<and>
     (\<forall>h. data_frame h (in_dir d m) \<and> h \<noteq> b \<and> h \<notin> free_mem m \<longrightarrow> ram m' h = ram m h)"

text \<open>Where things are: the two directories and the buffer on pages of the kernel, and a page to copy.\<close>

definition dir_page :: "u32 \<Rightarrow> u32 \<Rightarrow> 'a memk_scheme \<Rightarrow> bool" where
  "dir_page v d m \<longleftrightarrow> page_of v \<in> low_pages \<and> 786432 \<le> page_of v \<and> unat v mod 4096 = 0 \<and> unat d mod 4096 = 0 \<and>
     page_map m (page_of v) = Some (frame_of d)"

definition buf_page_ok :: "u32 \<Rightarrow> nat \<Rightarrow> u32 \<Rightarrow> 'a memk_scheme \<Rightarrow> bool" where
  "buf_page_ok v b d m \<longleftrightarrow> page_of v \<in> low_pages \<and> 786432 \<le> page_of v \<and> unat v mod 4096 = 0 \<and>
     page_map m (page_of v) = Some b \<and> data_frame b m \<and> data_frame b (in_dir d m)"

definition source_page :: "nat \<Rightarrow> nat \<Rightarrow> u32 \<Rightarrow> 'a memk_scheme \<Rightarrow> bool" where
  "source_page p b d m \<longleftrightarrow> 1024 \<le> p \<and> p < 786432 \<and>
     (\<exists>f. page_map m p = Some f \<and> data_frame f m \<and> data_frame f (in_dir d m) \<and> f \<noteq> b)"

lemma load_page_dir_at:
  assumes "dir_page v d m" "pgdir (tasks m t) = Some (unat v)" "self_map m"
  shows "load_page_dir t m = Inr (in_dir d (m\<lparr>cr3 := Some (unat v)\<rparr>))"
proof -
  obtain pa where pa: "addr_v2p v m = Inr pa" "unat pa = frame_of d * 4096"
    using addr_v2p_mapped [OF assms(3), of v] assms(1) by (auto simp: dir_page_def)
  have "unat pa = unat d" using pa(2) assms(1) div_mult_mod_eq [of "unat d" 4096] by (simp add: dir_page_def frame_of_div)
  then have "pa = d" by (simp add: word_unat_eq_iff)
  then show ?thesis using pa(1) assms(2) by (simp add: load_page_dir_def page_dir_activate_def in_dir_def)
qed

lemma dir_page_kernel:
  "forking d m \<Longrightarrow> dir_page v e (in_dir d m) = dir_page v e m"
  by (auto simp: forking_def dir_page_def)

lemma memory_updates:
  "m\<lparr>kernel_pool := a, user_pool := e, ram := r, cr3 := c\<rparr> = m\<lparr>cr3 := c, ram := r, kernel_pool := a, user_pool := e\<rparr>"
  by (cases m) simp

lemma only_memory_trans: "only_memory m m1 \<Longrightarrow> only_memory m1 m2 \<Longrightarrow> only_memory m m2"
proof -
  assume a: "only_memory m m1" "only_memory m1 m2"
  obtain c r p q where m1: "m1 = m\<lparr>cr3 := c, ram := r, kernel_pool := p, user_pool := q\<rparr>"
    using a(1) unfolding only_memory_def by blast
  obtain c r p q where m2: "m2 = m1\<lparr>cr3 := c, ram := r, kernel_pool := p, user_pool := q\<rparr>"
    using a(2) unfolding only_memory_def by blast
  show ?thesis unfolding only_memory_def m2 m1 by (cases m) simp
qed

lemma user_low: "p < 786432 \<Longrightarrow> p \<in> low_pages"
  by (simp add: low_page_idx less_mult_imp_div_less)

lemma copy_page_ok:
  fixes m :: "'a prock_scheme"
  assumes F: "forking d m" and child: "dir_page cv d m" "pgdir (tasks m c) = Some (unat cv)"
    and parent: "dir_page pv (pd_base m) m" "pgdir (tasks m t) = Some (unat pv)"
    and B: "buf_page_ok bv b d m" and S: "source_page (page_of va) b d m" "unat va mod 4096 = 0"
    and none: "page_map (in_dir d m) (page_of va) = None" and ff: "frames_for PF_USER (Suc n) m"
  obtains m' where "copy_page c t bv va m = Inr m'" "space_copied d b {page_of va} m m'" "frames_for PF_USER n m'"
proof -
  let ?p = "page_of va"
  note F' = F [unfolded forking_def] and B' = B [unfolded buf_page_ok_def] and S' = S [unfolded source_page_def]
  have pm: "paging_ok m" and pd: "paging_ok (in_dir d m)" using F' by simp_all
  note D = paging_okD [OF pm] and D' = paging_okD [OF pd]
  obtain f where f: "page_map m ?p = Some f" "data_frame f m" "data_frame f (in_dir d m)" "f \<noteq> b" using S' by blast
  have p: "1024 \<le> ?p" "?p < 786432" using S' by simp_all
  have plow: "?p \<in> low_pages" using p(2) by (simp add: low_page_idx)
  have bfree: "b \<notin> free_mem m" using D(9) B' by blast
  have ffree: "f \<notin> free_mem m" using D(9) [OF plow f(1)] .
  have w0: "word_in bv = 0" "unat bv mod 4 = 0" "word_in va = 0" "unat va mod 4 = 0"
    using B' S(2) mod_mod_cancel [of 4 4096 "unat bv"] mod_mod_cancel [of 4 4096 "unat va"] by simp_all
  \<comment> \<open>into the buffer\<close>
  let ?h = "copied 1024 0 0 (ram m f) (ram m b)"
  define m1 where "m1 = set_frame b ?h m"
  have c1: "copy_words 1024 bv va m = Inr m1"
    using copy_words_ok [OF D(1) _ _ f(1), of bv b 1024] B' f(4) w0 by (simp add: m1_def)
  have do1: "data_only m m1" unfolding m1_def by (rule data_only_set_frame) (use B' in blast)
  have i1: "in_dir d m1 = set_frame b ?h (in_dir d m)" by (simp add: m1_def in_dir_def set_frame_def)
  have do1': "data_only (in_dir d m) (in_dir d m1)" unfolding i1 by (rule data_only_set_frame) (use B' in blast)
  have F1: "forking d m1" unfolding m1_def by (rule forking_write [OF F]) (use B' in blast)+
  note M1 = data_only_maps [OF do1] and M1' = data_only_maps [OF do1'] and E1 = data_only_fields [OF do1]
  \<comment> \<open>into the child's space\<close>
  let ?m2 = "m1\<lparr>cr3 := Some (unat cv)\<rparr>"
  have "dir_page cv d m1" using child(1) M1(6) by (simp add: dir_page_def)
  moreover have "self_map m1" using D(1) by (simp add: M1(5))
  ultimately have l2: "load_page_dir c m1 = Inr (in_dir d ?m2)"
    using load_page_dir_at [of cv d m1 c] child(2) by (simp add: E1)
  have ss2: "same_space m1 ?m2" by (simp add: same_space_def)
  note SS2 = same_space_simps [OF ss2] and SS2' = same_space_simps [OF same_space_simps(8) [OF ss2, of d]]
  have F2: "forking d ?m2" using F1 forking_same_space [OF ss2] by simp
  \<comment> \<open>a page for the child\<close>
  have ok2: "paging_ok (in_dir d ?m2)" "lock_free (pool_lock (user_pool (in_dir d ?m2)))"
    using F2 by (simp_all add: forking_def)
  have ff2: "frames_for PF_USER j (in_dir d ?m2) = frames_for PF_USER j m" for j
    using E1(11) by (simp add: frames_for_def E1)
  have none2: "page_map (in_dir d ?m2) ?p = None" using none M1'(6) [OF plow] by (simp add: SS2')
  obtain g k where k: "get_a_page_without_opvaddrbitmap PF_USER va (in_dir d ?m2) = Inr (va, k)"
    "user_page_added ?p g (in_dir d ?m2) k"
    by (rule get_user_page_ok [OF ok2 p none2]) (use ff ff2 in blast)+
  define m3 where "m3 = in_dir (pd_base m) k"
  have pb: "pd_base ?m2 = pd_base m" by (simp add: E1)
  note A = forking_add [OF F2 p k(2), unfolded pb, folded m3_def]
  note U = k(2) [unfolded user_page_added_def]
  have fm2: "free_mem (in_dir d ?m2) = free_mem m" using SS2(5) E1(10) by simp
  have de3: "dir_entry_of m3 = dir_entry_of m" using A(3) SS2(1) M1(1) by simp
  have kd: "pd_base k = d" using A(2) by (metis in_dir_fields(2))
  have gm: "g \<in> free_mem m" using U fm2 by (auto simp: free_mem_def)
  have gb: "g \<noteq> b" "g \<noteq> f" using gm bfree ffree by auto
  have rk: "ram k h = ram m1 h" if "h \<notin> free_mem m" "data_frame h (in_dir d m)" for h
  proof -
    have "h \<noteq> frame_of (pd_base (in_dir d ?m2))" using that(2) by (simp add: data_frame_def)
    moreover have "\<not> (present (dir_entry_of (in_dir d ?m2) (?p div 1024)) \<and> h = frame_of (dir_entry_of (in_dir d ?m2) (?p div 1024)))"
      using that(2) p(2) by (auto simp: data_frame_def tables_def SS2' M1'(1))
    moreover have "ram (in_dir d ?m2) = ram m1" by simp
    ultimately show ?thesis using U that(1) fm2 by metis
  qed
  \<comment> \<open>out of the buffer\<close>
  have bk: "page_map k (page_of bv) = Some b"
  proof -
    have "page_map k (page_of bv) = page_map (in_dir d ?m2) (page_of bv)" using U B' p by auto
    also have "\<dots> = page_map (in_dir d m) (page_of bv)" using M1'(6) B' by (simp add: SS2')
    finally show ?thesis using F' B' by simp
  qed
  have rb: "ram k b = ram m1 b" by (rule rk [OF bfree]) (use B' in blast)
  let ?h4 = "copied 1024 0 0 (ram k b) (ram k g)"
  let ?k4 = "set_frame g ?h4 k"
  have gk: "page_map k ?p = Some g" "self_map k" using U paging_okD(1) by blast+
  have c4: "copy_words 1024 va bv k = Inr ?k4"
    using copy_words_ok [OF gk(2,1) A(7) bk gb(1), of 1024] w0 by simp
  define m4 where "m4 = set_frame g ?h4 m3"
  have k4: "?k4 = in_dir d m4"
  proof -
    have "in_dir d m4 = set_frame g ?h4 (in_dir d m3)" by (simp add: m4_def in_dir_def set_frame_def)
    then show ?thesis by (simp only: A(2))
  qed
  have F4: "forking d m4" unfolding m4_def by (rule forking_write [OF A(1,6)]) (simp add: A(2,7))
  have do4: "data_only m3 m4" unfolding m4_def by (rule data_only_set_frame [OF A(6)])
  have do4': "data_only k ?k4" by (rule data_only_set_frame [OF A(7)])
  note M4 = data_only_maps [OF do4] and M4' = data_only_maps [OF do4', unfolded k4] and E4 = data_only_fields [OF do4]
  \<comment> \<open>and back\<close>
  have pm4: "page_map m4 q = page_map m q" if "q \<in> low_pages" for q
    using M4(6) [OF that] A(5) [OF that] SS2(2) M1(6) [OF that] by simp
  have "dir_page pv (pd_base m) (in_dir d m4)"
    unfolding dir_page_kernel [OF F4] using parent(1) pm4 by (simp add: dir_page_def)
  moreover have "self_map (in_dir d m4)" using F4 paging_okD(1) by (auto simp: forking_def)
  moreover have shk: "\<exists>r a e. k = (in_dir d ?m2)\<lparr>ram := r, kernel_pool := a, user_pool := e\<rparr>" using U unfolding mem_step_def by blast
  then have tk: "tasks (in_dir d m4) = tasks m" by (auto simp: m4_def m3_def E1)
  ultimately have l5: "load_page_dir t (in_dir d m4) = Inr (in_dir (pd_base m) ((in_dir d m4)\<lparr>cr3 := Some (unat pv)\<rparr>))"
    using load_page_dir_at [of pv "pd_base m" "in_dir d m4" t] parent(2) by simp
  define m5 where "m5 = in_dir (pd_base m) ((in_dir d m4)\<lparr>cr3 := Some (unat pv)\<rparr>)"
  have b4: "pd_base m4 = pd_base m" by (simp add: m4_def m3_def)
  have ss5: "same_space m4 m5" by (simp add: same_space_def m5_def b4)
  note SS5 = same_space_simps [OF ss5] and SS5' = same_space_simps [OF same_space_simps(8) [OF ss5, of d]]
  have run: "copy_page c t bv va m = Inr m5"
    using c1 l2 k(1) c4 l5 by (simp add: copy_page_def k4 m5_def)
  have r5: "ram m5 = (ram k)(g := ?h4)" using ss5 by (simp add: same_space_def m4_def m3_def set_frame_def)
  have "space_copied d b {?p} m m5"
    unfolding space_copied_def
  proof (intro conjI ballI allI impI)
    show "forking d m5" using F4 forking_same_space [OF ss5] by simp
    show "only_memory m m5"
      using shk by (auto simp: only_memory_def m5_def m4_def m3_def m1_def in_dir_def set_frame_def memory_updates)
    show "dir_entry_of m5 = dir_entry_of m" by (simp add: SS5 M4(1) de3)
    show "page_map m5 q = page_map m q" if "q \<in> low_pages" for q using pm4 [OF that] by (simp add: SS5)
    show "free_mem m5 \<subseteq> free_mem m" using U fm2 E4(10) by (auto simp: SS5 m3_def)
    show "tables (in_dir d m5) \<subseteq> tables (in_dir d m) \<union> free_mem m"
      using A(8) fm2 by (simp add: SS5' M4'(2) SS2' M1'(2))
    show "\<exists>f' g'. page_map m q = Some f' \<and> page_map (in_dir d m5) q = Some g' \<and> g' \<in> free_mem m \<and>
        data_frame g' (in_dir d m5) \<and> (\<forall>w < 1024. ram m5 g' w = ram m f' w)" if "q \<in> {?p}" for q
    proof (rule exI [of _ f], rule exI [of _ g], intro conjI allI impI)
      show "page_map m q = Some f" "g \<in> free_mem m" using that f(1) gm by simp_all
      show "page_map (in_dir d m5) q = Some g" using that gk(1) M4'(6) [OF plow] by (simp add: SS5')
      show "data_frame g (in_dir d m5)" using A(7) by (simp add: SS5' M4'(3))
      show "ram m5 g w = ram m f w" if "w < 1024" for w
        using that gb by (simp add: r5 copied_def rb m1_def)
    qed
    show "page_map (in_dir d m5) q = page_map (in_dir d m) q" if "q \<in> low_pages" "1024 \<le> q \<and> q \<notin> {?p}" for q
    proof -
      have "page_map (in_dir d m5) q = page_map k q" using M4'(6) [OF that(1)] by (simp add: SS5')
      also have "\<dots> = page_map (in_dir d ?m2) q" using U that by simp
      also have "\<dots> = page_map (in_dir d m) q" using M1'(6) [OF that(1)] by (simp add: SS2')
      finally show ?thesis .
    qed
    show "ram m5 h = ram m h" if "data_frame h (in_dir d m) \<and> h \<noteq> b \<and> h \<notin> free_mem m" for h
    proof -
      have "h \<noteq> g" using that gm by auto
      then show ?thesis using rk [of h] that by (simp add: r5 m1_def set_frame_def)
    qed
  qed
  moreover have "frames_for PF_USER n m5"
  proof -
    have "frames_for PF_USER n k" using U ff ff2 by blast
    then show ?thesis unfolding SS5(7) using E4(2,3) by (simp add: frames_for_def m3_def)
  qed
  ultimately show thesis using that run by blast
qed

lemma space_copiedD:
  assumes "space_copied d b ps m m'"
  shows "forking d m'"
    "only_memory m m'"
    "dir_entry_of m' = dir_entry_of m"
    "\<forall>q \<in> low_pages. page_map m' q = page_map m q"
    "free_mem m' \<subseteq> free_mem m"
    "tables (in_dir d m') \<subseteq> tables (in_dir d m) \<union> free_mem m"
    "\<forall>p \<in> ps. \<exists>f g. page_map m p = Some f \<and> page_map (in_dir d m') p = Some g \<and> g \<in> free_mem m \<and>
        data_frame g (in_dir d m') \<and> (\<forall>w < 1024. ram m' g w = ram m f w)"
    "\<forall>q \<in> low_pages. 1024 \<le> q \<and> q \<notin> ps \<longrightarrow> page_map (in_dir d m') q = page_map (in_dir d m) q"
    "\<forall>h. data_frame h (in_dir d m) \<and> h \<noteq> b \<and> h \<notin> free_mem m \<longrightarrow> ram m' h = ram m h"
proof -
  note S = assms [unfolded space_copied_def]
  show "forking d m'"
    using S by (elim conjE)
  show "only_memory m m'"
    using S by (elim conjE)
  show "dir_entry_of m' = dir_entry_of m"
    using S by (elim conjE)
  show "\<forall>q \<in> low_pages. page_map m' q = page_map m q"
    using S by (elim conjE)
  show "free_mem m' \<subseteq> free_mem m"
    using S by (elim conjE)
  show "tables (in_dir d m') \<subseteq> tables (in_dir d m) \<union> free_mem m"
    using S by (elim conjE)
  show "\<forall>p \<in> ps. \<exists>f g. page_map m p = Some f \<and> page_map (in_dir d m') p = Some g \<and> g \<in> free_mem m \<and>
        data_frame g (in_dir d m') \<and> (\<forall>w < 1024. ram m' g w = ram m f w)"
    using S by (elim conjE)
  show "\<forall>q \<in> low_pages. 1024 \<le> q \<and> q \<notin> ps \<longrightarrow> page_map (in_dir d m') q = page_map (in_dir d m) q"
    using S by (elim conjE)
  show "\<forall>h. data_frame h (in_dir d m) \<and> h \<noteq> b \<and> h \<notin> free_mem m \<longrightarrow> ram m' h = ram m h"
    using S by (elim conjE)
qed

lemma space_copied_fields:
  assumes "space_copied d b ps m m'"
  shows "tasks m' = tasks m" "pd_base m' = pd_base m" "cur m' = cur m" "tables m' = tables m"
    "\<And>f. data_frame f m' = data_frame f m"
proof -
  have "only_memory m m'" and d: "dir_entry_of m' = dir_entry_of m" using assms by (simp_all add: space_copied_def)
  then obtain c r a e where sh: "m' = m\<lparr>cr3 := c, ram := r, kernel_pool := a, user_pool := e\<rparr>"
    unfolding only_memory_def by blast
  show "tasks m' = tasks m" and pd: "pd_base m' = pd_base m" and "cur m' = cur m" by (simp_all add: sh)
  show t: "tables m' = tables m" by (simp add: tables_def d)
  show "data_frame f m' = data_frame f m" for f by (simp add: data_frame_def t pd)
qed

text \<open>Data frames in use stay data frames of the child's space.\<close>

lemma space_copied_data:
  "space_copied d b ps m m' \<Longrightarrow> data_frame f (in_dir d m) \<Longrightarrow> f \<notin> free_mem m \<Longrightarrow> data_frame f (in_dir d m')"
  unfolding space_copied_def data_frame_def by auto

lemma source_page_used: "forking d m \<Longrightarrow> source_page p b d m \<Longrightarrow> page_map m p = Some f \<Longrightarrow> f \<notin> free_mem m"
  using paging_okD(9) [of m p f] user_low [of p] by (auto simp: forking_def source_page_def)

lemma source_page_kept:
  assumes "space_copied d b ps m m'" "forking d m" "source_page p b d m"
  shows "source_page p b d m'"
proof -
  obtain f where f: "page_map m p = Some f" "data_frame f m" "data_frame f (in_dir d m)" "f \<noteq> b" and p: "1024 \<le> p" "p < 786432"
    using assms(3) by (auto simp: source_page_def)
  have "page_map m' p = Some f" using assms(1) f(1) p(2) by (simp add: space_copied_def low_page_idx)
  moreover have "data_frame f m'" using f(2) space_copied_fields(5) [OF assms(1)] by simp
  moreover have "data_frame f (in_dir d m')"
    by (rule space_copied_data [OF assms(1) f(3) source_page_used [OF assms(2,3) f(1)]])
  ultimately show ?thesis using f(4) p by (simp add: source_page_def)
qed

lemma buf_page_kept:
  assumes "space_copied d b ps m m'" "forking d m" "buf_page_ok v b d m"
  shows "buf_page_ok v b d m'" "b \<notin> free_mem m"
proof -
  note B = assms(3) [unfolded buf_page_ok_def]
  show fb: "b \<notin> free_mem m" using B paging_okD(9) [of m "page_of v" b] assms(2) by (simp add: forking_def)
  have "page_map m' (page_of v) = Some b" using assms(1) B by (simp add: space_copied_def)
  moreover have "data_frame b (in_dir d m')" using space_copied_data [OF assms(1) _ fb] B by blast
  ultimately show "buf_page_ok v b d m'" using B space_copied_fields(5) [OF assms(1)] by (simp add: buf_page_ok_def)
qed

lemma dir_page_kept: "space_copied d b ps m m' \<Longrightarrow> dir_page v e m \<Longrightarrow> dir_page v e m'"
  by (simp add: space_copied_def dir_page_def)

lemma space_copied_trans:
  assumes A: "space_copied d b P m m1" and B: "space_copied d b Q m1 m2" and F: "forking d m"
    and ps: "P \<inter> Q = {}" "\<forall>p \<in> P \<union> Q. 1024 \<le> p \<and> p \<in> low_pages" "\<forall>p \<in> Q. source_page p b d m" and fb: "b \<notin> free_mem m"
  shows "space_copied d b (P \<union> Q) m m2"
proof -
  note A' = space_copiedD [OF A] and B' = space_copiedD [OF B]
  have fm: "free_mem m1 \<subseteq> free_mem m" "free_mem m2 \<subseteq> free_mem m1"
    using A'(5) B'(5) .
  note F1 = A'(1)
  show ?thesis
    unfolding space_copied_def
  proof (intro conjI ballI allI impI)
    show "forking d m2" by (rule B'(1))
    show "only_memory m m2" by (rule only_memory_trans [OF A'(2) B'(2)])
    show "dir_entry_of m2 = dir_entry_of m" using A'(3) B'(3) by simp
    show "page_map m2 q = page_map m q" if "q \<in> low_pages" for q using A'(4) B'(4) that by simp
    show "free_mem m2 \<subseteq> free_mem m" using fm by blast
    show "tables (in_dir d m2) \<subseteq> tables (in_dir d m) \<union> free_mem m" using A'(6) B'(6) fm by blast
    show "page_map (in_dir d m2) q = page_map (in_dir d m) q" if "q \<in> low_pages" "1024 \<le> q \<and> q \<notin> P \<union> Q" for q
      using A'(8) B'(8) that by simp
    show "ram m2 h = ram m h" if "data_frame h (in_dir d m) \<and> h \<noteq> b \<and> h \<notin> free_mem m" for h
    proof -
      have "data_frame h (in_dir d m1)" using space_copied_data [OF A] that by blast
      then have "ram m2 h = ram m1 h" using B'(9) that fm by blast
      moreover have "ram m1 h = ram m h" using A'(9) that by blast
      ultimately show ?thesis by simp
    qed
    show "\<exists>f g. page_map m p = Some f \<and> page_map (in_dir d m2) p = Some g \<and> g \<in> free_mem m \<and>
        data_frame g (in_dir d m2) \<and> (\<forall>w < 1024. ram m2 g w = ram m f w)" if "p \<in> P \<union> Q" for p
    proof (cases "p \<in> P")
      case True
      then obtain f g where fg: "page_map m p = Some f" "page_map (in_dir d m1) p = Some g" "g \<in> free_mem m"
        "data_frame g (in_dir d m1)" "\<forall>w < 1024. ram m1 g w = ram m f w" using A'(7) by blast
      have p: "p \<notin> Q" "1024 \<le> p" "p \<in> low_pages" using True ps by blast+
      have "paging_ok (in_dir d m1)" using F1 by (simp add: forking_def)
      then have "g \<notin> free_mem m1" using paging_okD(9) [of "in_dir d m1" p g] p(3) fg(2) by simp
      moreover have "g \<noteq> b" using fg(3) fb by blast
      ultimately have "ram m2 g = ram m1 g" "data_frame g (in_dir d m2)"
        using B'(9) fg(4) space_copied_data [OF B fg(4)] by blast+
      moreover have "page_map (in_dir d m2) p = Some g" using B'(8) p fg(2) by simp
      ultimately show ?thesis using fg by auto
    next
      case False
      then have q: "p \<in> Q" using that by blast
      then obtain f g where fg: "page_map m1 p = Some f" "page_map (in_dir d m2) p = Some g" "g \<in> free_mem m1"
        "data_frame g (in_dir d m2)" "\<forall>w < 1024. ram m2 g w = ram m1 f w" using B'(7) by blast
      have S: "source_page p b d m" using ps(3) q by blast
      have f: "page_map m p = Some f" using A'(4) fg(1) q ps(2) by simp
      have "f \<notin> free_mem m" by (rule source_page_used [OF F S f])
      then have "ram m1 f = ram m f" using A'(9) S f by (auto simp: source_page_def)
      then show ?thesis using f fg fm(1) by auto
    qed
  qed
qed

lemma copy_pages_ok:
  fixes m :: "'a prock_scheme"
  assumes F: "forking d m" and child: "dir_page cv d m" "pgdir (tasks m c) = Some (unat cv)"
    and parent: "dir_page pv (pd_base m) m" "pgdir (tasks m t) = Some (unat pv)"
    and B: "buf_page_ok bv b d m"
    and bm: "\<forall>i \<in> set js. i < nbits bm" "distinct js" "unat start mod 4096 = 0" "1024 \<le> page_of start" "page_of start + nbits bm \<le> 786432"
    and S: "\<forall>i \<in> set js \<inter> used bm. source_page (page_of start + i) b d m \<and> page_map (in_dir d m) (page_of start + i) = None"
    and ff: "frames_for PF_USER (length (filter (\<lambda>i. i \<in> used bm) js) + n) m"
  shows "\<exists>m'. copy_pages c t bv start (bits bm) js m = Inr m' \<and>
    space_copied d b ((\<lambda>i. page_of start + i) ` (set js \<inter> used bm)) m m' \<and> frames_for PF_USER n m'"
  using assms
proof (induction js arbitrary: m)
  case Nil
  then show ?case by (simp add: space_copied_def only_memory_def)
next
  case (Cons i js)
  have bit: "bits bm ! (i div 8) AND bitmap_mask (i mod 8) \<noteq> 0 \<longleftrightarrow> i \<in> used bm"
    using Cons.prems(7) by (simp add: used_def bit_at_def bitmap_mask_def and_exp_eq_0_iff_not_bit push_bit_eq_mult)
  show ?case
  proof (cases "i \<in> used bm")
    case False
    then have "copy_pages c t bv start (bits bm) (i # js) m = copy_pages c t bv start (bits bm) js m" using bit by simp
    moreover have "set (i # js) \<inter> used bm = set js \<inter> used bm" using False by auto
    moreover have "\<exists>m'. copy_pages c t bv start (bits bm) js m = Inr m' \<and>
        space_copied d b ((\<lambda>i. page_of start + i) ` (set js \<inter> used bm)) m m' \<and> frames_for PF_USER n m'"
      by (rule Cons.IH) (use Cons.prems False in auto)
    ultimately show ?thesis by simp
  next
    case True
    let ?va = "of_nat i * 4096 + start"
    have i: "i < nbits bm" using Cons.prems(7) by simp
    have va: "page_of ?va = page_of start + i" "unat ?va mod 4096 = 0"
      using page_addr [OF Cons.prems(9), of i] Cons.prems(11) i by (simp_all add: add.commute)
    have S: "source_page (page_of start + i) b d m" "page_map (in_dir d m) (page_of start + i) = None"
      using Cons.prems(12) True by auto
    have ff: "frames_for PF_USER (Suc (length (filter (\<lambda>i. i \<in> used bm) js) + n)) m" using Cons.prems(13) True by simp
    obtain m1 where m1: "copy_page c t bv ?va m = Inr m1" "space_copied d b {page_of start + i} m m1"
      "frames_for PF_USER (length (filter (\<lambda>i. i \<in> used bm) js) + n) m1"
      by (rule copy_page_ok [OF Cons.prems(1-6), of ?va, unfolded va(1), OF S(1) va(2) S(2) ff]) (rule that)
    note K = space_copied_fields [OF m1(2)]
    have F1: "forking d m1" using m1(2) by (simp add: space_copied_def)
    have "\<exists>m'. copy_pages c t bv start (bits bm) js m1 = Inr m' \<and>
        space_copied d b ((\<lambda>i. page_of start + i) ` (set js \<inter> used bm)) m1 m' \<and> frames_for PF_USER n m'"
    proof (rule Cons.IH [OF F1])
      show "dir_page cv d m1" by (rule dir_page_kept [OF m1(2) Cons.prems(2)])
      show "dir_page pv (pd_base m1) m1" unfolding K(2) by (rule dir_page_kept [OF m1(2) Cons.prems(4)])
      show "buf_page_ok bv b d m1" by (rule buf_page_kept(1) [OF m1(2) Cons.prems(1,6)])
      show "\<forall>j \<in> set js \<inter> used bm. source_page (page_of start + j) b d m1 \<and> page_map (in_dir d m1) (page_of start + j) = None"
      proof
        fix j assume j: "j \<in> set js \<inter> used bm"
        have sj: "source_page (page_of start + j) b d m" "page_map (in_dir d m) (page_of start + j) = None"
          using Cons.prems(12) j by auto
        have "j \<noteq> i" using j Cons.prems(8) by auto
        moreover have "page_of start + j \<in> low_pages" "1024 \<le> page_of start + j"
          using sj(1) user_low [of "page_of start + j"] by (simp_all add: source_page_def)
        ultimately have "page_map (in_dir d m1) (page_of start + j) = None"
          using m1(2) sj(2) by (simp add: space_copied_def)
        then show "source_page (page_of start + j) b d m1 \<and> page_map (in_dir d m1) (page_of start + j) = None"
          using source_page_kept [OF m1(2) Cons.prems(1) sj(1)] by blast
      qed
    qed (use Cons.prems m1(3) K(1) in auto)
    then obtain m' where m': "copy_pages c t bv start (bits bm) js m1 = Inr m'"
      "space_copied d b ((\<lambda>i. page_of start + i) ` (set js \<inter> used bm)) m1 m'" "frames_for PF_USER n m'" by blast
    have "space_copied d b ({page_of start + i} \<union> (\<lambda>i. page_of start + i) ` (set js \<inter> used bm)) m m'"
    proof (rule space_copied_trans [OF m1(2) m'(2) Cons.prems(1)])
      show "{page_of start + i} \<inter> (\<lambda>i. page_of start + i) ` (set js \<inter> used bm) = {}" using Cons.prems(8) by auto
      show "\<forall>p \<in> {page_of start + i} \<union> (\<lambda>i. page_of start + i) ` (set js \<inter> used bm). 1024 \<le> p \<and> p \<in> low_pages"
        using Cons.prems(7,10,11) by (auto simp: low_page_idx)
      show "\<forall>p \<in> (\<lambda>i. page_of start + i) ` (set js \<inter> used bm). source_page p b d m" using Cons.prems(12) by auto
      show "b \<notin> free_mem m" by (rule buf_page_kept(2) [OF m1(2) Cons.prems(1,6)])
    qed
    moreover have "set (i # js) \<inter> used bm = insert i (set js \<inter> used bm)" using True by auto
    moreover have "copy_pages c t bv start (bits bm) (i # js) m = Inr m'" using bit True m1(1) m'(1) by simp
    ultimately show ?thesis using m'(3) by auto
  qed
qed

section \<open>The child's space\<close>

text \<open>
  The parent runs; its directory and the buffer lie on pages of the kernel, and every page that its
  bitmap has in use is mapped, to a frame that is neither the buffer nor one of the page tables.
\<close>

definition fork_ready :: "tid \<Rightarrow> u32 \<Rightarrow> u32 \<Rightarrow> nat \<Rightarrow> 'a memk_scheme \<Rightarrow> bool" where
  "fork_ready t pv bv b m \<longleftrightarrow> (let vp = userprog_vaddr m t; bm = vaddr_bitmap vp; p = page_of (vaddr_start vp) in
     paging_ok m \<and> vpool_ok PF_KERNEL m \<and> lock_free (pool_lock (user_pool m)) \<and>
     dir_page pv (pd_base m) m \<and> pgdir (tasks m t) = Some (unat pv) \<and>
     page_of bv \<in> low_pages \<and> 786432 \<le> page_of bv \<and> unat bv mod 4096 = 0 \<and> page_map m (page_of bv) = Some b \<and> data_frame b m \<and>
     unat (vaddr_start vp) mod 4096 = 0 \<and> 1024 \<le> p \<and> p + nbits bm \<le> 786432 \<and>
     (\<forall>i \<in> used bm. \<exists>f. page_map m (p + i) = Some f \<and> data_frame f m \<and> f \<noteq> b))"

lemma new_page_other:
  assumes "new_pages va [f] m m'" "q \<in> low_pages" "1024 \<le> q" "page_map m q = Some g"
  shows "page_map m' q = Some g"
proof -
  have "page_map m (page_of va) = None" using assms(1) by (simp add: new_pages_def)
  then have "q \<noteq> page_of va" using assms(4) by auto
  then show ?thesis using assms by (simp add: new_pages_def)
qed

lemma new_page_data:
  assumes "new_pages va [f] m m'" "data_frame g m" "g \<notin> free_mem m" "upper_half_of d m'" "unat d = f * 4096"
  shows "data_frame g m'" "data_frame g (in_dir d m')" "ram m' g = ram m g"
proof -
  note N = assms(1) [unfolded new_pages_def]
  have "only_kernel_memory m m'" using N by blast
  then obtain r k v where "m' = m\<lparr>ram := r, kernel_pool := k, kernel_vaddr_pool := v\<rparr>" by (rule only_kernel_memoryE)
  then have pd: "pd_base m' = pd_base m" by simp
  have "tables m' \<subseteq> tables m \<union> free_mem m" using N by blast
  then show d: "data_frame g m'" using assms(2,3) by (auto simp: data_frame_def pd)
  have "frame_of d = f" using assms(5) by (simp add: frame_of_div)
  moreover have "f \<in> free_mem m" using N by (simp add: free_mem_def)
  ultimately have "g \<noteq> frame_of d" using assms(3) by auto
  then show "data_frame g (in_dir d m')" using d upper_half_maps(3) [OF assms(4)] by (auto simp: data_frame_def)
  have "g \<notin> free_mem m \<union> tables m \<union> {frame_of (pd_base m)}" using assms(2,3) by (simp add: data_frame_def)
  then show "ram m' g = ram m g" using N by blast
qed

lemma length_filter_used: "length (filter (\<lambda>i. i \<in> used bm) [0..<nbits bm]) = card (used bm)"
proof -
  have "{i. i < nbits bm \<and> i \<in> used bm} = used bm" by (auto simp: used_def)
  then show ?thesis by (simp add: length_filter_conv_card cong: conj_cong)
qed

section \<open>An example\<close>

text \<open>
  The running process has one page, at \<open>0x8048000\<close>, on frame \<open>0x181\<close>; word 5 of it is 42. Frame
  \<open>0x100\<close> is its directory, which the kernel sees at \<open>0xc0020000\<close>; the buffer is frame \<open>0x180\<close> at
  \<open>0xc0021000\<close>.
\<close>

definition demo_prock :: prock where
  "demo_prock = (thrk.extend demo_thr (prock.fields (\<lambda>t. 0) demo_fs))
     \<lparr>ram := (\<lambda>f i.
        if f = 0x100 then (if i = 1023 then 0x100007 else if i = 768 then 0x101007 else if i = 32 then 0x102007 else 0)
        else if f = 0x101 then (if i = 0x20 then 0x100007 else if i = 0x21 then 0x180007 else 0)
        else if f = 0x102 then (if i = 72 then 0x181007 else 0)
        else if f = 0x181 then (if i = 5 then 42 else 0) else 0),
      tasks := (\<lambda>t. zero_task\<lparr>pgdir := (if t = 0x1000 then Some 0xc0020000 else None)\<rparr>),
      userprog_vaddr := (\<lambda>t. \<lparr>vaddr_bitmap = \<lparr>btmp_bytes_len = 1, bits = [1]\<rparr>, vaddr_start = 0x8048000\<rparr>)\<rparr>"

lemma demo_prock_simps [simp]:
  "pd_base demo_prock = 0x100000" "kernel_pool demo_prock = demo_pool 0x200000" "user_pool demo_prock = demo_pool 0x210000"
  "kernel_vaddr_pool demo_prock = \<lparr>vaddr_bitmap = \<lparr>btmp_bytes_len = 2, bits = [0, 0]\<rparr>, vaddr_start = K_HEAP_START\<rparr>"
  "userprog_vaddr demo_prock t = \<lparr>vaddr_bitmap = \<lparr>btmp_bytes_len = 1, bits = [1]\<rparr>, vaddr_start = 0x8048000\<rparr>"
  "pgdir (tasks demo_prock 0x1000) = Some 0xc0020000"
  by (simp_all add: demo_prock_def demo_thr_def demo_mem_def demo_kernel_def kernel.defs memk.defs heapk.defs thrk.defs prock.defs)

lemma demo_prock_ram:
  "ram demo_prock f i =
     (if f = 0x100 then (if i = 1023 then 0x100007 else if i = 768 then 0x101007 else if i = 32 then 0x102007 else 0)
      else if f = 0x101 then (if i = 0x20 then 0x100007 else if i = 0x21 then 0x180007 else 0)
      else if f = 0x102 then (if i = 72 then 0x181007 else 0)
      else if f = 0x181 then (if i = 5 then 42 else 0) else 0)"
  by (simp add: demo_prock_def)

lemma demo_prock_dir:
  "dir_entry_of demo_prock i = (if i = 1023 then 0x100007 else if i = 768 then 0x101007 else if i = 32 then 0x102007 else 0)"
  by (simp add: dir_entry_of_def frame_of_div demo_prock_ram)

lemma demo_prock_present [simp]: "present 0x102007" "present 0x180007" "present 0x181007"
  by (simp_all add: present_def)

lemma demo_prock_map:
  "p \<in> low_pages \<Longrightarrow> page_map demo_prock p =
     (if p = 786464 then Some 0x100 else if p = 786465 then Some 0x180 else if p = 32840 then Some 0x181 else None)"
proof -
  assume "p \<in> low_pages"
  then have p: "p div 1024 \<noteq> 1023" "p = p div 1024 * 1024 + p mod 1024" by (auto simp: low_page_idx)
  consider "p div 1024 = 768" | "p div 1024 = 32" | "p div 1024 \<noteq> 768" "p div 1024 \<noteq> 32" by blast
  then show ?thesis
  proof cases
    case 1
    then show ?thesis using p by (auto simp: page_map_def demo_prock_dir frame_of_div demo_prock_ram Let_def)
  next
    case 2
    then show ?thesis using p by (auto simp: page_map_def demo_prock_dir frame_of_div demo_prock_ram Let_def)
  next
    case 3
    then show ?thesis using p by (auto simp: page_map_def demo_prock_dir Let_def)
  qed
qed

lemma demo_prock_tables: "tables demo_prock = {0x101, 0x102}"
proof
  show "tables demo_prock \<subseteq> {0x101, 0x102}"
    by (auto simp: tables_def demo_prock_dir frame_of_div split: if_splits)
  have "frame_of (dir_entry_of demo_prock 768) \<in> tables demo_prock" "frame_of (dir_entry_of demo_prock 32) \<in> tables demo_prock"
    unfolding tables_def by (rule CollectI, rule exI, rule conjI [OF refl], simp add: demo_prock_dir)+
  then show "{0x101, 0x102} \<subseteq> tables demo_prock" by (simp add: demo_prock_dir frame_of_div)
qed

lemma demo_prock_ok: "paging_ok demo_prock" "vpool_ok PF_KERNEL demo_prock"
proof -
  have wf: "wf_pool (demo_pool 0x200000)" "wf_pool (demo_pool 0x210000)"
    by (simp_all add: wf_pool_def demo_pool_def wf_bitmap_def frame_of_div)
  have fm: "free_mem demo_prock = {0x200..<0x220}" by (auto simp: free_mem_def frame_of_div)
  show "paging_ok demo_prock"
  proof (rule paging_okI)
    show "i = j \<or> twin i j" if "i < 1023" "j < 1023" "present (dir_entry_of demo_prock i)"
      "present (dir_entry_of demo_prock j)" "frame_of (dir_entry_of demo_prock i) = frame_of (dir_entry_of demo_prock j)" for i j
      using that by (auto simp: demo_prock_dir frame_of_div split: if_splits)
    show "f \<notin> free_mem demo_prock" if "p \<in> low_pages" "page_map demo_prock p = Some f" for p f
      using that by (auto simp: demo_prock_map fm split: if_splits)
  qed (simp_all add: self_map_def demo_prock_dir wf fm frame_of_div demo_prock_tables)
  have "page_map demo_prock (786688 + i) = None" if "i < 16" for i
    using that demo_prock_map [of "786688 + i"] by (simp add: low_page_idx)
  then show "vpool_ok PF_KERNEL demo_prock" by (simp add: vpool_ok_def Let_def vpool_of_def page_of_def wf_bitmap_def)
qed

lemma demo_used: "used \<lparr>btmp_bytes_len = Suc 0, bits = [1]\<rparr> = {0}"
  by (auto simp: used_def nbits_def bit_at_def bit_1_iff)

lemma demo_fork_ready: "fork_ready 0x1000 0xc0020000 0xc0021000 0x180 demo_prock"
proof -
  have d: "data_frame 0x180 demo_prock" "data_frame 0x181 demo_prock"
    by (simp_all add: data_frame_def demo_prock_tables frame_of_div)
  have l: "(786464 :: nat) \<in> low_pages" "(786465 :: nat) \<in> low_pages" "(32840 :: nat) \<in> low_pages" by (simp_all add: low_page_idx)
  have "lock_free (pool_lock (demo_pool 0x210000))" by (simp add: demo_pool_def)
  then show ?thesis using demo_prock_ok d l
    by (simp add: fork_ready_def Let_def dir_page_def page_of_def demo_prock_map demo_used frame_of_div nbits_def)
qed

section \<open>Results\<close>

text \<open>
  C8: \<open>fork\<close> copies the address space. When there are frames enough, \<open>create_page_dir\<close> and then
  \<open>copy_body_stack3\<close>, as \<open>copy_process\<close> calls them, succeed. In the child's directory every page
  that the parent's bitmap has in use then leads to a frame of its own, which was free before, with
  the words of the parent's page; no other page from 4 MB up to 3 GB is mapped, and every page of
  the kernel is the same in both spaces. The parent's directory is in use again, and its pages lead
  where they led before and hold what they held.
\<close>

theorem fork_copies_space:
  fixes m :: "'a prock_scheme"
  assumes "fork_ready t pv bv b m" "kernel_room 1 m" "c \<noteq> t"
    "frames_for PF_KERNEL (1 + card (used (vaddr_bitmap (userprog_vaddr m t)))) m"
    "frames_for PF_USER (card (used (vaddr_bitmap (userprog_vaddr m t)))) m"
  shows "\<exists>v d m1 m'. create_page_dir m = Inr (v, m1) \<and> v \<noteq> 0 \<and> mmu m1 v = Some d \<and>
    copy_body_stack3 c t bv (set_task c (\<lambda>x. x\<lparr>pgdir := Some (unat v)\<rparr>) m1) = Inr m' \<and>
    paging_ok m' \<and> paging_ok (in_dir d m') \<and> pd_base m' = pd_base m \<and>
    (let p = page_of (vaddr_start (userprog_vaddr m t)); ps = (\<lambda>i. p + i) ` used (vaddr_bitmap (userprog_vaddr m t)) in
      (\<forall>q \<in> ps. \<exists>f g. page_map m q = Some f \<and> page_map m' q = Some f \<and> page_map (in_dir d m') q = Some g \<and>
         g \<in> free_mem m \<and> (\<forall>w < 1024. ram m' g w = ram m f w \<and> ram m' f w = ram m f w)) \<and>
      (\<forall>q. 1024 \<le> q \<and> q < 786432 \<and> q \<notin> ps \<longrightarrow> page_map (in_dir d m') q = None) \<and>
      (\<forall>q \<in> low_pages. 786432 \<le> q \<longrightarrow> page_map (in_dir d m') q = page_map m' q))"
proof -
  let ?vp = "userprog_vaddr m t"
  let ?bm = "vaddr_bitmap ?vp" and ?st = "vaddr_start ?vp"
  let ?p = "page_of ?st"
  note R = assms(1) [unfolded fork_ready_def Let_def]
  have pm: "paging_ok m" "vpool_ok PF_KERNEL m" using R by simp_all
  have one: "frames_for PF_KERNEL 1 m" using assms(4) by (simp add: frames_for_def)
  obtain v f d m1 where m1: "create_page_dir m = Inr (v, m1)" "new_pages v [f] m m1" "mmu m1 v = Some d" "unat d = f * 4096"
    "addr_v2p v m1 = Inr d" "upper_half_of d m1" "paging_ok (in_dir d m1)"
    by (rule create_page_dir_half [OF pm assms(2) one]) (rule that)
  note N = m1(2) [unfolded new_pages_def] and NF = new_pages_frames [OF m1(2)]
  have fd: "frame_of d = f" "unat d mod 4096 = 0" using m1(4) by (simp_all add: frame_of_div)
  have "only_kernel_memory m m1" using N by blast
  then obtain r k w where sh: "m1 = m\<lparr>ram := r, kernel_pool := k, kernel_vaddr_pool := w\<rparr>" by (rule only_kernel_memoryE)
  have fm1: "free_mem m1 \<subseteq> free_mem m" using N by (auto simp: free_mem_def)
  let ?m2 = "set_task c (\<lambda>x. x\<lparr>pgdir := Some (unat v)\<rparr>) m1"
  have ss: "same_space m1 ?m2" by (simp add: same_space_def set_task_def)
  note S = same_space_simps [OF ss] and S' = same_space_simps [OF same_space_simps(8) [OF ss, of d]]
  have b2: "pd_base ?m2 = pd_base m" "userprog_vaddr ?m2 t = ?vp" "pgdir (tasks ?m2 c) = Some (unat v)"
    "pgdir (tasks ?m2 t) = Some (unat pv)"
    using R assms(3) by (simp_all add: set_task_def sh)
  have F: "forking d ?m2"
  proof -
    have "data_frame f m1" using NF(1) by simp
    then have "frame_of d \<noteq> frame_of (pd_base m1)" "frame_of d \<notin> tables m1" by (simp_all add: data_frame_def fd)
    moreover have "\<forall>i < 768. \<not> present (dir_entry_of (in_dir d m1) i)" using m1(6) by (simp add: upper_half_of_def)
    moreover have "\<forall>q \<in> low_pages. 786432 \<le> q \<longrightarrow> page_map (in_dir d m1) q = page_map m1 q"
      using upper_half_maps(2) [OF m1(6)] by blast
    moreover have "lock_free (pool_lock (user_pool m1))" using R by (simp add: sh)
    moreover have "paging_ok m1" using N by blast
    ultimately show ?thesis using m1(7) unfolding forking_same_space [OF ss] by (simp add: forking_def)
  qed
  have child: "dir_page v d ?m2"
    using N NF(2,3) fd by (simp add: dir_page_def S)
  have parent: "dir_page pv (pd_base ?m2) ?m2"
    using R new_page_other [OF m1(2), of "page_of pv"] by (simp add: dir_page_def S b2)
  have bfree: "b \<notin> free_mem m" using paging_okD(9) [OF pm(1)] R by blast
  have B: "buf_page_ok bv b d ?m2"
    using R new_page_other [OF m1(2), of "page_of bv"] new_page_data [OF m1(2) _ bfree m1(6,4)]
    by (simp add: buf_page_ok_def S S')
  have src: "source_page (?p + i) b d ?m2 \<and> page_map (in_dir d ?m2) (?p + i) = None \<and>
      (\<exists>g. page_map m (?p + i) = Some g \<and> page_map ?m2 (?p + i) = Some g \<and> g \<notin> free_mem m \<and> g \<noteq> b \<and>
         data_frame g (in_dir d ?m2) \<and> ram ?m2 g = ram m g)"
    if i: "i \<in> used ?bm" for i
  proof -
    obtain g where g: "page_map m (?p + i) = Some g" "data_frame g m" "g \<noteq> b" using R i by blast
    have "i < nbits ?bm" using i by (simp add: used_def)
    then have q: "1024 \<le> ?p + i" "?p + i < 786432" using R by simp_all
    have gf: "g \<notin> free_mem m" by (rule paging_okD(9) [OF pm(1) user_low [OF q(2)] g(1)])
    note D = new_page_data [OF m1(2) g(2) gf m1(6,4)]
    have "ram ?m2 = ram m1" using ss by (simp add: same_space_def)
    then show ?thesis
      using new_page_other [OF m1(2) user_low [OF q(2)] q(1) g(1)] g D gf q upper_half_maps(1) [OF m1(6) q(2)]
      by (simp add: source_page_def S S')
  qed
  have ff: "frames_for PF_USER (length (filter (\<lambda>i. i \<in> used ?bm) [0..<nbits ?bm]) + 0) ?m2"
  proof -
    have "frames_for PF_KERNEL (card (used ?bm)) m1" using N assms(4) by simp
    then show ?thesis using assms(5) N unfolding S(7) length_filter_used by (simp add: frames_for_def)
  qed
  have st: "unat ?st mod 4096 = 0" "1024 \<le> ?p" "?p + nbits ?bm \<le> 786432" using R by blast+
  have srcs: "\<forall>i \<in> set [0..<nbits ?bm] \<inter> used ?bm. source_page (?p + i) b d ?m2 \<and> page_map (in_dir d ?m2) (?p + i) = None"
    using src by blast
  have bits: "\<forall>i \<in> set [0..<nbits ?bm]. i < nbits ?bm" "distinct [0..<nbits ?bm]" by simp_all
  obtain m' where m': "copy_pages c t bv ?st (bits ?bm) [0..<nbits ?bm] ?m2 = Inr m'"
    "space_copied d b ((\<lambda>i. ?p + i) ` (set [0..<nbits ?bm] \<inter> used ?bm)) ?m2 m'"
    using copy_pages_ok [OF F child b2(3) parent b2(4) B bits st(1-3) _ ff] srcs by blast
  have "set [0..<nbits ?bm] \<inter> used ?bm = used ?bm" by (auto simp: used_def)
  note C = space_copiedD [OF m'(2), unfolded this]
  have run: "copy_body_stack3 c t bv ?m2 = Inr m'"
    using m'(1) by (simp add: copy_body_stack3_def b2(2) nbits_def mult.commute)
  have F': "forking d m'" by (rule C(1))
  have pages: "\<exists>f g. page_map m q = Some f \<and> page_map m' q = Some f \<and> page_map (in_dir d m') q = Some g \<and>
         g \<in> free_mem m \<and> (\<forall>w < 1024. ram m' g w = ram m f w \<and> ram m' f w = ram m f w)"
    if q: "q \<in> (\<lambda>i. ?p + i) ` used ?bm" for q
  proof -
    obtain i where i: "q = ?p + i" "i \<in> used ?bm" using q by blast
    then have low: "q \<in> low_pages" using R by (auto simp: used_def intro!: user_low)
    obtain f where f: "page_map m q = Some f" "page_map ?m2 q = Some f" "f \<notin> free_mem m" "f \<noteq> b"
      "data_frame f (in_dir d ?m2)" "ram ?m2 f = ram m f" using src [OF i(2)] i(1) by blast
    obtain g where g: "page_map (in_dir d m') q = Some g" "g \<in> free_mem ?m2" "\<forall>w < 1024. ram m' g w = ram ?m2 f w"
      using C(7) q f(2) by fastforce
    have "ram m' f = ram ?m2 f" using C(9) f fm1 S(5) by blast
    moreover have "page_map m' q = Some f" using C(4) low f(2) by simp
    moreover have "g \<in> free_mem m" using g(2) fm1 S(5) by blast
    ultimately show ?thesis using f g by auto
  qed
  have none: "page_map (in_dir d m') q = None" if "1024 \<le> q" "q < 786432" "q \<notin> (\<lambda>i. ?p + i) ` used ?bm" for q
    using C(8) that user_low [OF that(2)] upper_half_maps(1) [OF m1(6) that(2)] by (simp add: S')
  show ?thesis
  proof (intro exI conjI)
    show "copy_body_stack3 c t bv ?m2 = Inr m'" by (rule run)
    show "pd_base m' = pd_base m" using space_copied_fields(2) [OF m'(2)] b2(1) by simp
    show "let p = ?p; ps = (\<lambda>i. p + i) ` used ?bm in
      (\<forall>q \<in> ps. \<exists>f g. page_map m q = Some f \<and> page_map m' q = Some f \<and> page_map (in_dir d m') q = Some g \<and>
         g \<in> free_mem m \<and> (\<forall>w < 1024. ram m' g w = ram m f w \<and> ram m' f w = ram m f w)) \<and>
      (\<forall>q. 1024 \<le> q \<and> q < 786432 \<and> q \<notin> ps \<longrightarrow> page_map (in_dir d m') q = None) \<and>
      (\<forall>q \<in> low_pages. 786432 \<le> q \<longrightarrow> page_map (in_dir d m') q = page_map m' q)"
      unfolding Let_def using pages none F' by (simp add: forking_def)
  qed (use m1 N F' in \<open>simp_all add: forking_def\<close>)
qed

lemma fork_copies_space_witness:
  "\<exists>v d m1 m' g. create_page_dir demo_prock = Inr (v, m1) \<and>
     copy_body_stack3 0x2000 0x1000 0xc0021000 (set_task 0x2000 (\<lambda>x. x\<lparr>pgdir := Some (unat v)\<rparr>) m1) = Inr m' \<and>
     page_map (in_dir d m') 0x8048 = Some g \<and> g \<noteq> 0x181 \<and> ram m' g 5 = 42"
proof -
  have r: "kernel_room 1 demo_prock"
    using demo_run [of 1] by (auto simp: kernel_room_def vpool_of_def page_of_def)
  have u: "used (vaddr_bitmap (userprog_vaddr demo_prock 0x1000)) = {0}" by (simp add: demo_used)
  have f: "frames_for PF_KERNEL (1 + card (used (vaddr_bitmap (userprog_vaddr demo_prock 0x1000)))) demo_prock"
    "frames_for PF_USER (card (used (vaddr_bitmap (userprog_vaddr demo_prock 0x1000)))) demo_prock"
    by (simp_all add: demo_used frames_for_def)
  have fm: "0x181 \<notin> free_mem demo_prock" by (simp add: free_mem_def frame_of_div)
  have l: "page_map demo_prock 32840 = Some 0x181" using demo_prock_map [of 32840] by (simp add: low_page_idx)
  have p: "page_of 0x8048000 = 32840" by (simp add: page_of_def)
  obtain v d m1 m' where R: "create_page_dir demo_prock = Inr (v, m1)"
    "copy_body_stack3 0x2000 0x1000 0xc0021000 (set_task 0x2000 (\<lambda>x. x\<lparr>pgdir := Some (unat v)\<rparr>) m1) = Inr m'"
    "\<exists>f g. page_map demo_prock 32840 = Some f \<and> page_map (in_dir d m') 32840 = Some g \<and> g \<in> free_mem demo_prock \<and>
       (\<forall>w < 1024. ram m' g w = ram demo_prock f w)"
    using fork_copies_space [OF demo_fork_ready r _ f, of "0x2000"] by (auto simp: Let_def demo_used p) blast
  then obtain g where "page_map (in_dir d m') 32840 = Some g" "g \<in> free_mem demo_prock" "ram m' g 5 = ram demo_prock 0x181 5"
    using l by auto
  then show ?thesis using R(1,2) fm by (intro exI conjI; auto simp: demo_prock_ram)
qed

end
