(* ===== verification/Spec2Isabelle.thy ===== *)
theory Spec2Isabelle
  imports Keyboard Format Dirremove Shell Ata Tss Timer Syscall Pipeflow Filecalls Fdtype Diskblocks Console Forkspace
begin

text \<open>
  A model of the seeking-os kernel, a 32-bit x86 teaching kernel in C (\<open>src/\<close>), and proofs about it.

  \<^bold>\<open>The program and its parts.\<close> The boot code loads the kernel, \<open>init_all\<close> (\<open>kernel/init.c\<close>) starts
  its parts one after the other, and \<open>main\<close> ends as a thread. From then on threads take turns: the
  clock interrupt (\<open>device/timer.c\<close>) ends time slices, \<open>schedule\<close> (\<open>thread/thread.c\<close>) picks the next
  thread, semaphores and locks (\<open>thread/sync.c\<close>) put threads to sleep and wake them. Memory is handed out
  by the page (\<open>kernel/memory.c\<close>) and by the block (\<open>sys_malloc\<close>, same file). The file system (\<open>fs/\<close>)
  lies on a partition of an ATA disk (\<open>device/ide.c\<close>); keyboard and pipes are ring buffers
  (\<open>device/ioqueue.c\<close>). Processes (\<open>userprog/\<close>) have page directories of their own, enter the kernel by
  \<open>int 0x80\<close> (\<open>lib/usr/syscall.c\<close>, \<open>kernel/kernel.s\<close>), fork, exec, exit and wait. The shell (\<open>shell/\<close>)
  is one of them.

  \<^bold>\<open>How code becomes definitions.\<close> A routine is a function from its arguments and the state to a
  \<open>res\<close> (theory \<open>Prelude\<close>): \<open>Inr\<close> with the results and the new state, or \<open>Inl\<close> with the place where the
  thread stops: \<open>Panic\<close> for a failed \<open>ASSERT\<close> or \<open>PANIC\<close>, \<open>Fault\<close> where the C code would use memory that is
  not its own (an index out of bounds, a \<open>NULL\<close>), \<open>Block\<close> where it goes to sleep in a call that is modelled
  as one step. So every early return, check and error of the source is a branch. A \<open>struct\<close> is a record, an
  \<open>enum\<close> a datatype, and definitions keep the names of the source. Integers whose overflow matters are
  words (\<open>u8\<close>, \<open>u16\<close>, \<open>u32\<close>); in the file system sizes and block addresses are natural numbers with \<open>mod 2 ^ 32\<close>
  and \<open>sub32\<close> written where the code computes in 32 bits. The states grow by record extension, as the parts
  build on each other: \<open>cpu\<close> (\<open>Interrupt\<close>), \<open>kernel\<close> (threads, \<open>Thread\<close>), \<open>memk\<close> (pages, \<open>Paging\<close>), \<open>heapk\<close> (\<open>Heap\<close>),
  \<open>thrk\<close> (\<open>Task\<close>), \<open>prock\<close> (\<open>Process\<close>); \<open>fsk\<close> (\<open>Inode\<close>) extends \<open>kernel\<close> by the mounted file system, and \<open>shellk\<close>
  (\<open>Ps\<close>, \<open>Builtin\<close>) holds it for the shell.

  \<^bold>\<open>The theories.\<close>
  \<^item> Interfaces and generic facts: \<open>Prelude\<close> (results, words, bytes), \<open>Slots\<close> (the locale of an allocator of
    numbered slots), \<open>Fifo\<close> (the locale of a queue).
  \<^item> Libraries: \<open>Bitmap\<close> (\<open>lib/kernel/bitmap.c\<close>), \<open>Klist\<close> (\<open>lib/kernel/list.c\<close>), \<open>CString\<close> (\<open>lib/string.c\<close>),
    \<open>Stdio\<close> (\<open>lib/stdio.c\<close>).
  \<^item> Threads: \<open>Interrupt\<close> (\<open>kernel/interrupt.c\<close>), \<open>Thread\<close> and \<open>Task\<close> (\<open>thread/thread.c\<close>: scheduling; creation, ids, end),
    \<open>Sync\<close> (\<open>thread/sync.c\<close>), \<open>Timer\<close> (\<open>device/timer.c\<close>), \<open>Tss\<close> (\<open>userprog/tss.c\<close>).
  \<^item> Devices: \<open>Console\<close> (\<open>device/console.c\<close>, and the reports of failed checks), \<open>Ioqueue\<close>, \<open>Keyboard\<close>, \<open>Ide\<close> (transfers of \<open>device/ide.c\<close>), \<open>Ata\<close> (its start, partitions, interrupts).
  \<^item> Memory: \<open>Paging\<close> and \<open>Heap\<close> (\<open>kernel/memory.c\<close>).
  \<^item> File system: \<open>Fsdata\<close> (layouts on the disk), \<open>Inode\<close> (\<open>fs/inode.c\<close>), \<open>Dir\<close> (\<open>fs/dir.c\<close>), \<open>File\<close> (\<open>fs/file.c\<close>), \<open>Pipe\<close>
    (\<open>shell/pipe.c\<close>), \<open>Path\<close>, \<open>Fs\<close>, \<open>Dircalls\<close> and \<open>Format\<close> (\<open>fs/fs.c\<close>: paths, calls on files, calls on directories,
    formatting and mounting).
  \<^item> What the file system does, in terms of lists: \<open>Dirspec\<close> and \<open>Dirremove\<close> (a directory is a list of entries),
    \<open>Filespec\<close>, \<open>Filewrite\<close>, \<open>Fileappend\<close> and \<open>Filecalls\<close> (a file is a list of bytes), \<open>Pipeflow\<close> (a pipe is a queue),
    \<open>Fdtype\<close> (descriptors are well typed), \<open>Diskblocks\<close> (data blocks as slots).
  \<^item> Processes: \<open>Process\<close>, \<open>Fork\<close>, \<open>Exec\<close>, \<open>Waitexit\<close> (\<open>userprog/\<close>), \<open>Syscall\<close> (\<open>lib/usr/\<close>, and \<open>syscall_handler\<close> of
    \<open>kernel/kernel.s\<close>).
  \<^item> Address spaces, as maps from pages to frames: \<open>Addrspace\<close> (what page tables, the words of pages and the page
    allocators do to such a map, and the directory of a new process), \<open>Forkspace\<close> (the copy that \<open>fork\<close> makes).
  \<^item> Shell: \<open>Cmdline\<close> and \<open>Shell\<close> (\<open>shell/shell.c\<close>), \<open>Washpath\<close>, \<open>Ps\<close> and \<open>Builtin\<close> (\<open>shell/buildin_cmd.c\<close>).

  \<^bold>\<open>What is proved.\<close> In order of importance: a lock admits one thread, never trips over its own checks and
  loses no wake-up, for any number of threads in any interleaving (rule induction over \<open>lock_step\<close>); the
  scheduler keeps its invariant and is fair; \<open>sys_write\<close> appends exactly the given bytes, whatever mixture of
  old block, direct blocks and indirect table that takes, and leaves all other files alone, \<open>sys_read\<close> returns
  them, and descriptors stay well typed under all calls; directory operations insert into and remove from the
  list of entries; releasing an i-node frees exactly its blocks; allocators (pages, frames, blocks, process
  ids, heap blocks) never hand out a thing twice and take back what they gave; a new page directory shares the kernel
  and nothing else, and \<open>fork\<close> gives the child the same pages with the same words in frames of its own;
  drivers deliver the sectors and characters they should; formatting then mounting, layouts, printed numbers, descriptors and paths round
  trip; the shell's line editor, word splitter and path cleaner agree with short reference definitions; the
  scan of a partition table and the sleep loop end. Where the code does something else than it means to, a
  theorem or a finding of the manifest says so (a full bitmap stops the kernel, a pipe write can sleep
  although the comment excludes it, the block bitmap of a new file system leaves one bit too many clear, a read
  behind byte 71167 of a file stops the kernel, and others). A result that needs memory from \<open>sys_malloc\<close> says
  so by \<open>mallocs k = []\<close>.

  \<^bold>\<open>Sleeping threads.\<close> A call that sleeps is split where it sleeps: \<open>sema_down_loop\<close>, \<open>ioq_getchar_loop\<close> and
  \<open>sys_wait\<close> are the code from the loop condition on, which is run again after the wake-up. \<open>switch_to\<close>
  changes \<open>cur\<close>; what the other thread does first (\<open>intr_set_status\<close> of its own saved flag) is \<open>thread_resume\<close>.
  In the file system \<open>lock_acquire\<close> of a lock that is free is one step, otherwise the call ends in \<open>Block\<close>.

  \<^bold>\<open>What stands for the outside.\<close> The disk is a function from sector numbers to 512 bytes (\<open>disk_image\<close>); theory
  \<open>Ide\<close> relates it to the port accesses of the driver, for a disk that answers commands as the ATA standard
  says (registers, drive and LBA mode bits, READ and WRITE SECTORS: \<open>ata_step\<close>). The
  answers of \<open>sys_malloc\<close> to the file system are the list \<open>mallocs\<close> (\<open>[]\<close> is a heap that never runs out); the
  real allocator is theory \<open>Heap\<close>. The MMU is the two-level walk of \<open>mmu\<close> in \<open>Paging\<close>. What the programs that
  the shell loads do is its parameter \<open>prog\<close>. Values read from ports (scan codes, status bytes, tick counts)
  are arguments.

  \<^bold>\<open>Loops and bounds.\<close> Loops over lists, sectors and table entries are structural recursions; others are
  \<open>function\<close>s with a measure (\<open>write_chunks\<close>, \<open>read_chunks\<close>, \<open>search_from\<close>). Loops that need not end (following
  links, boot records, parent directories, \<open>argv\<close>, the directory listings) are \<open>partial_function (option)\<close>, and that
  they end is proved where it is claimed (\<open>partition_scan_returns\<close>, the refinement of the lists). There is no
  fuel; the one bounded wait, of \<open>busy_wait\<close>, counts the rounds of the code.

  \<^bold>\<open>Not modelled.\<close> The boot sector and loader and the assembler parts (\<open>boot/\<close>, \<open>print.s\<close>, \<open>switch.s\<close>, \<open>kernel.s\<close> but
  for \<open>syscall_handler\<close>), which are not C: the register switch is reduced to what C code can see of it.
  \<open>io.h\<close> and inline assembler are one instruction each; their effects are port writes in the models of the
  drivers. Messages that the kernel only prints for the reader (\<open>put_str\<close> in the starts of the parts, \<open>printk\<close> in
  error branches) are left out; the branches are not. \<open>main.c\<close> and \<open>init.c\<close> call the starts of
  the parts one after the other and put one program on the disk, which is set up by hand for each test. \<open>bin/\<close> has test programs and the Makefiles build it.
\<close>

end
